(* ===== verification/Base.thy ===== *)
theory Base
  imports Main
begin

text \<open>
  Shared ground of the development: the exceptions of the Python sources as one datatype,
  the sequencing of fallible steps, rows of database tables kept as lists in insertion order,
  the string and JSON values the sources handle, and the interfaces (locales) that several
  components implement: transition systems with an invariant, allocators of fresh numbers,
  and operations protected by an idempotency key.
\<close>

section \<open>Collections of facts\<close>

named_theorems row_simps \<open>rewrite rules on table rows\<close>
named_theorems frame_simps \<open>what an operation leaves unchanged\<close>

section \<open>Exceptions\<close>

text \<open>
  One constructor per exception class the modelled code raises. Arguments carry the data of the
  message; a static message is carried as text.
\<close>

datatype exn =
    CreditLedgerError string
  | ResellerNotFoundError "int option"
  | InsufficientCreditError int int int
  | LedgerEntryAlreadyReversedError int
  | InvoiceError string
  | PaymentGatewayError string
  | GatewayNotConfiguredError string
  | PaymentMethodOwnershipError string
  | PaymentRefundError string string
  | ServiceLifecycleError string
  | CheckoutError string
  | ResellerBillingError string
  | ProductNotAvailableError string
  | QuotaNotAllocatedError
  | QuotaExceededError string
  | IdempotencyConflictError string
  | DeployCreditRequiredError int int int bool "string option" "int option"
  | ValueError string
  | AttributeError string
  | TypeError string
  | ProvisioningError int string
  | HTTPException int string
  | IntegrityError
  | MultipleResultsFound
  | NoResultFound
  | ObjectDeletedError
  | KeyError string
  | SequenceError string
  | CommerceLifecycleError string
  | EthereumRpcError string
  | UsdtDepositError string
  | UsdtConfigurationError string
  | PendingRollbackError

text \<open>Subclasses of \<open>ValueError\<close>: what an \<open>except ValueError\<close> clause catches.\<close>

fun is_value_error :: "exn \<Rightarrow> bool" where
  "is_value_error (CreditLedgerError _) = True"
| "is_value_error (ResellerNotFoundError _) = True"
| "is_value_error (InsufficientCreditError _ _ _) = True"
| "is_value_error (LedgerEntryAlreadyReversedError _) = True"
| "is_value_error (InvoiceError _) = True"
| "is_value_error (PaymentRefundError _ _) = True"
| "is_value_error (CheckoutError _) = True"
| "is_value_error (ResellerBillingError _) = True"
| "is_value_error (ProductNotAvailableError _) = True"
| "is_value_error QuotaNotAllocatedError = True"
| "is_value_error (QuotaExceededError _) = True"
| "is_value_error (IdempotencyConflictError _) = True"
| "is_value_error (DeployCreditRequiredError _ _ _ _ _ _) = True"
| "is_value_error (ValueError _) = True"
| "is_value_error (SequenceError _) = True"
| "is_value_error (CommerceLifecycleError _) = True"
| "is_value_error (UsdtDepositError _) = True"
| "is_value_error _ = False"

text \<open>The class names, which \<open>type(exc).__name__\<close> reads.\<close>

fun exn_name :: "exn \<Rightarrow> string" where
  "exn_name (CreditLedgerError _) = ''CreditLedgerError''"
| "exn_name (ResellerNotFoundError _) = ''ResellerNotFoundError''"
| "exn_name (InsufficientCreditError _ _ _) = ''InsufficientCreditError''"
| "exn_name (LedgerEntryAlreadyReversedError _) = ''LedgerEntryAlreadyReversedError''"
| "exn_name (InvoiceError _) = ''InvoiceError''"
| "exn_name (PaymentGatewayError _) = ''PaymentGatewayError''"
| "exn_name (GatewayNotConfiguredError _) = ''GatewayNotConfiguredError''"
| "exn_name (PaymentMethodOwnershipError _) = ''PaymentMethodOwnershipError''"
| "exn_name (PaymentRefundError _ _) = ''PaymentRefundError''"
| "exn_name (ServiceLifecycleError _) = ''ServiceLifecycleError''"
| "exn_name (CheckoutError _) = ''CheckoutError''"
| "exn_name (ResellerBillingError _) = ''ResellerBillingError''"
| "exn_name (ProductNotAvailableError _) = ''ProductNotAvailableError''"
| "exn_name QuotaNotAllocatedError = ''QuotaNotAllocatedError''"
| "exn_name (QuotaExceededError _) = ''QuotaExceededError''"
| "exn_name (IdempotencyConflictError _) = ''IdempotencyConflictError''"
| "exn_name (DeployCreditRequiredError _ _ _ _ _ _) = ''DeployCreditRequiredError''"
| "exn_name (ValueError _) = ''ValueError''"
| "exn_name (AttributeError _) = ''AttributeError''"
| "exn_name (TypeError _) = ''TypeError''"
| "exn_name (ProvisioningError _ _) = ''ProvisioningError''"
| "exn_name (HTTPException _ _) = ''HTTPException''"
| "exn_name IntegrityError = ''IntegrityError''"
| "exn_name MultipleResultsFound = ''MultipleResultsFound''"
| "exn_name NoResultFound = ''NoResultFound''"
| "exn_name ObjectDeletedError = ''ObjectDeletedError''"
| "exn_name (KeyError _) = ''KeyError''"
| "exn_name (SequenceError _) = ''SequenceError''"
| "exn_name (CommerceLifecycleError _) = ''CommerceLifecycleError''"
| "exn_name (EthereumRpcError _) = ''EthereumRpcError''"
| "exn_name (UsdtDepositError _) = ''UsdtDepositError''"
| "exn_name (UsdtConfigurationError _) = ''UsdtConfigurationError''"
| "exn_name PendingRollbackError = ''PendingRollbackError''"

type_synonym 'a res = "exn + 'a"

section \<open>Sequencing of fallible steps\<close>

text \<open>An exception in the first step skips the rest.\<close>

fun ebind :: "'e + 'a \<Rightarrow> ('a \<Rightarrow> 'e + 'b) \<Rightarrow> 'e + 'b" where
  "ebind (Inl e) f = Inl e"
| "ebind (Inr x) f = f x"

definition raise_if :: "bool \<Rightarrow> 'e \<Rightarrow> 'e + unit" where
  "raise_if b e = (if b then Inl e else Inr ())"

lemma ebind_Inr_iff: "ebind m f = Inr y \<longleftrightarrow> (\<exists>x. m = Inr x \<and> f x = Inr y)"
  by (cases m) auto

lemma ebind_Inl_iff: "ebind m f = Inl e \<longleftrightarrow> m = Inl e \<or> (\<exists>x. m = Inr x \<and> f x = Inl e)"
  by (cases m) auto

lemma raise_if_Inr_iff: "raise_if b e = Inr u \<longleftrightarrow> \<not> b"
  by (simp add: raise_if_def)

lemma raise_if_simps [simp]: "raise_if True e = Inl e" "raise_if False e = Inr ()"
  by (simp_all add: raise_if_def)

lemma ebind_cong [fundef_cong]:
  "m = m' \<Longrightarrow> (\<And>x. m' = Inr x \<Longrightarrow> f x = g x) \<Longrightarrow> ebind m f = ebind m' g"
  by (cases m') auto

lemmas res_iffs = ebind_Inr_iff ebind_Inl_iff raise_if_Inr_iff

section \<open>Rows of a table\<close>

text \<open>
  A table is the list of its rows in insertion order; \<open>rid\<close> reads the primary key. The
  operations are the ones the sources use through the ORM: a lookup by primary key, writing back
  a changed row, a fresh key for an insert, and the \<open>scalar_one_or_none\<close> of a query.
\<close>

definition get_row :: "('r \<Rightarrow> int) \<Rightarrow> int \<Rightarrow> 'r list \<Rightarrow> 'r option" where
  "get_row rid i rs = List.find (\<lambda>r. rid r = i) rs"

definition put_row :: "('r \<Rightarrow> int) \<Rightarrow> 'r \<Rightarrow> 'r list \<Rightarrow> 'r list" where
  "put_row rid r rs = map (\<lambda>x. if rid x = rid r then r else x) rs"

definition fresh_id :: "('r \<Rightarrow> int) \<Rightarrow> 'r list \<Rightarrow> int" where
  "fresh_id rid rs = fold max (map rid rs) 0 + 1"

fun scalar_one_or_none :: "'r list \<Rightarrow> exn + 'r option" where
  "scalar_one_or_none [] = Inr None"
| "scalar_one_or_none [r] = Inr (Some r)"
| "scalar_one_or_none (r # r' # rs) = Inl MultipleResultsFound"

lemma get_row_Some_iff:
  "distinct (map rid rs) \<Longrightarrow> get_row rid i rs = Some r \<longleftrightarrow> r \<in> set rs \<and> rid r = i"
  by (induction rs) (auto simp: get_row_def)

lemma get_row_SomeD: "get_row rid i rs = Some r \<Longrightarrow> r \<in> set rs \<and> rid r = i"
  by (auto simp: get_row_def find_Some_iff)

lemma get_row_None_iff: "get_row rid i rs = None \<longleftrightarrow> i \<notin> rid ` set rs"
  by (auto simp: get_row_def find_None_iff)

lemma get_row_Nil [simp]: "get_row rid i [] = None"
  by (simp add: get_row_def)

lemma get_row_Cons [simp]:
  "get_row rid i (r # rs) = (if rid r = i then Some r else get_row rid i rs)"
  by (simp add: get_row_def)

lemma get_row_append [row_simps]:
  "get_row rid i (xs @ ys) = (case get_row rid i xs of None \<Rightarrow> get_row rid i ys | Some r \<Rightarrow> Some r)"
  by (induction xs) auto

lemma put_row_Nil [simp]: "put_row rid r [] = []"
  by (simp add: put_row_def)

lemma put_row_Cons [simp]:
  "put_row rid r (x # xs) = (if rid x = rid r then r else x) # put_row rid r xs"
  by (simp add: put_row_def)

lemma map_put_row [simp]: "map rid (put_row rid r rs) = map rid rs"
  by (induction rs) auto

lemma length_put_row [simp]: "length (put_row rid r rs) = length rs"
  by (induction rs) auto

lemma set_put_row:
  "r \<in> set (put_row rid r0 rs) \<Longrightarrow> r = r0 \<or> r \<in> set rs"
  by (induction rs) (auto split: if_splits)

lemma put_row_memD:
  "r \<in> set (put_row rid r0 rs) \<Longrightarrow> (r = r0 \<and> rid r0 \<in> rid ` set rs) \<or> (r \<in> set rs \<and> rid r \<noteq> rid r0)"
  by (induction rs) (auto split: if_splits)

lemma get_put_row [row_simps]:
  "get_row rid i (put_row rid r rs) =
     (if i = rid r then map_option (\<lambda>_. r) (get_row rid i rs) else get_row rid i rs)"
  by (induction rs) auto

lemma filter_put_row_neq:
  "(\<And>x. x \<in> set rs \<Longrightarrow> rid x = rid r \<Longrightarrow> \<not> P x) \<Longrightarrow> \<not> P r \<Longrightarrow> filter P (put_row rid r rs) = filter P rs"
  by (induction rs) auto

lemma fold_max_ge: "(a::int) \<le> fold max xs a"
proof (induction xs arbitrary: a)
  case (Cons x xs)
  then have "max x a \<le> fold max xs (max x a)" by blast
  then show ?case by simp
qed simp

lemma fold_max_upper: "x \<in> set xs \<Longrightarrow> (x::int) \<le> fold max xs a"
proof (induction xs arbitrary: a)
  case (Cons y ys)
  then show ?case
    using fold_max_ge [of "max y a" ys] by auto
qed simp

lemma fresh_id_gt: "r \<in> set rs \<Longrightarrow> rid r < fresh_id rid rs"
  using fold_max_upper [of "rid r" "map rid rs" 0] by (simp add: fresh_id_def)

lemma fresh_id_pos [simp]: "0 < fresh_id rid rs"
  using fold_max_ge [of 0 "map rid rs"] by (simp add: fresh_id_def)

lemma fresh_id_notin: "fresh_id rid rs \<notin> rid ` set rs"
  using fresh_id_gt [of _ rs rid] by fastforce

lemma distinct_insert_row:
  "distinct (map rid rs) \<Longrightarrow> rid r = fresh_id rid rs \<Longrightarrow> distinct (map rid (rs @ [r]))"
  using fresh_id_notin [of rid rs] by auto

lemma get_row_fresh: "get_row rid (fresh_id rid rs) rs = None"
  by (simp add: get_row_None_iff fresh_id_notin)

lemma scalar_one_or_none_Inr_None: "scalar_one_or_none rs = Inr None \<longleftrightarrow> rs = []"
  by (cases rs rule: scalar_one_or_none.cases) auto

lemma scalar_one_or_none_Inr_Some: "scalar_one_or_none rs = Inr (Some r) \<longleftrightarrow> rs = [r]"
  by (cases rs rule: scalar_one_or_none.cases) auto

lemma scalar_one_or_none_Inl: "scalar_one_or_none rs = Inl e \<longleftrightarrow> 1 < length rs \<and> e = MultipleResultsFound"
  by (cases rs rule: scalar_one_or_none.cases) auto

lemmas scalar_iffs = scalar_one_or_none_Inr_None scalar_one_or_none_Inr_Some scalar_one_or_none_Inl

text \<open>A column declared unique: at most one row carries a given non-null value.\<close>

definition unique_on :: "('r \<Rightarrow> 'k option) \<Rightarrow> 'r list \<Rightarrow> bool" where
  "unique_on key rs \<longleftrightarrow> distinct (map the (filter (\<lambda>k. k \<noteq> None) (map key rs)))"

lemma unique_on_Nil [simp]: "unique_on key []"
  by (simp add: unique_on_def)

lemma unique_on_snoc:
  "unique_on key (rs @ [r]) \<longleftrightarrow>
     unique_on key rs \<and> (\<forall>k. key r = Some k \<longrightarrow> (\<forall>x \<in> set rs. key x \<noteq> Some k))"
  by (auto simp: unique_on_def image_iff)

lemma unique_on_map:
  "(\<And>r. r \<in> set rs \<Longrightarrow> key (f r) = key r) \<Longrightarrow> unique_on key (map f rs) \<longleftrightarrow> unique_on key rs"
  by (simp add: unique_on_def comp_def cong: map_cong)

lemma unique_on_inj:
  "unique_on key rs \<Longrightarrow> x \<in> set rs \<Longrightarrow> y \<in> set rs \<Longrightarrow> key x = Some k \<Longrightarrow> key y = Some k \<Longrightarrow> x = y"
  by (induction rs rule: rev_induct) (auto simp: unique_on_snoc)

lemma unique_on_filter_length:
  "unique_on key rs \<Longrightarrow> length (filter (\<lambda>r. key r = Some k) rs) \<le> 1"
proof (induction rs rule: rev_induct)
  case (snoc x xs)
  then have "unique_on key xs" "key x = Some k \<Longrightarrow> filter (\<lambda>r. key r = Some k) xs = []"
    by (auto simp: unique_on_snoc filter_empty_conv)
  with snoc.IH show ?case by auto
qed simp

lemma unique_on_filter_single:
  "unique_on key rs \<Longrightarrow> x \<in> set rs \<Longrightarrow> key x = Some k \<Longrightarrow> filter (\<lambda>r. key r = Some k) rs = [x]"
proof -
  assume u: "unique_on key rs" and x: "x \<in> set rs" "key x = Some k"
  then have "x \<in> set (filter (\<lambda>r. key r = Some k) rs)" by simp
  moreover have "length (filter (\<lambda>r. key r = Some k) rs) \<le> 1"
    using u by (rule unique_on_filter_length)
  ultimately show ?thesis
    by (cases "filter (\<lambda>r. key r = Some k) rs") auto
qed

text \<open>On a unique column the query never sees several rows.\<close>

lemma scalar_unique:
  "unique_on key rs \<Longrightarrow>
     scalar_one_or_none (filter (\<lambda>r. key r = Some k) rs) = Inr (List.find (\<lambda>r. key r = Some k) rs)"
proof (cases "List.find (\<lambda>r. key r = Some k) rs")
  case None
  then have "filter (\<lambda>r. key r = Some k) rs = []" by (simp add: find_None_iff filter_empty_conv)
  with None show ?thesis by simp
next
  case (Some x)
  assume u: "unique_on key rs"
  from Some have "x \<in> set rs" "key x = Some k" by (auto simp: find_Some_iff)
  with u Some show ?thesis by (simp add: unique_on_filter_single)
qed

section \<open>Text and JSON values\<close>

text \<open>
  Python strings are modelled as lists of 8-bit characters. Decimal rendering of integers is the
  one of \<open>str\<close> and of format strings; reading digits back shows that it loses nothing.
\<close>

definition digit_char :: "nat \<Rightarrow> char" where
  "digit_char d = char_of (48 + d)"

fun show_nat :: "nat \<Rightarrow> string" where
  "show_nat n = (if n < 10 then [digit_char n] else show_nat (n div 10) @ [digit_char (n mod 10)])"

declare show_nat.simps [simp del]

definition show_int :: "int \<Rightarrow> string" where
  "show_int i = (if i < 0 then CHR ''-'' # show_nat (nat (- i)) else show_nat (nat i))"

text \<open>The same digits computed on integers, for evaluation.\<close>

function show_pos :: "int \<Rightarrow> string" where
  "show_pos n = (if n < 10 then [digit_char (nat n)] else show_pos (n div 10) @ [digit_char (nat (n mod 10))])"
  by auto

termination by (relation "measure nat") auto

declare show_pos.simps [simp del]

lemma show_pos_nat: "0 \<le> n \<Longrightarrow> show_pos n = show_nat (nat n)"
proof (induction n rule: show_pos.induct)
  case (1 n)
  have "n < 10 \<longleftrightarrow> nat n < 10" by linarith
  with "1" show ?case
    by (cases "n < 10")
       (simp_all add: show_pos.simps [of n] show_nat.simps [of "nat n"] nat_div_distrib nat_mod_distrib)
qed

lemma show_int_code [code]: "show_int i = (if i < 0 then CHR ''-'' # show_pos (- i) else show_pos i)"
  by (simp add: show_int_def show_pos_nat)

definition read_digits :: "string \<Rightarrow> nat" where
  "read_digits cs = foldl (\<lambda>n c. 10 * n + (of_char c - 48)) 0 cs"

lemma of_digit_char: "d < 10 \<Longrightarrow> of_char (digit_char d) = (48 + d :: nat)"
  by (simp add: digit_char_def of_char_of)

lemma read_show_nat: "read_digits (show_nat n) = n"
proof (induction n rule: show_nat.induct)
  case (1 n)
  show ?case
  proof (cases "n < 10")
    case True
    then show ?thesis by (simp add: show_nat.simps [of n] read_digits_def of_digit_char)
  next
    case False
    with "1" have "read_digits (show_nat (n div 10)) = n div 10" by simp
    with False show ?thesis
      by (simp add: show_nat.simps [of n] read_digits_def of_digit_char)
  qed
qed

lemma show_nat_digits: "c \<in> set (show_nat n) \<Longrightarrow> 48 \<le> (of_char c :: nat) \<and> (of_char c :: nat) \<le> 57"
proof (induction n rule: show_nat.induct)
  case (1 n)
  show ?case
  proof (cases "n < 10")
    case True
    with "1.prems" show ?thesis by (simp add: show_nat.simps [of n] of_digit_char)
  next
    case False
    with "1.prems" consider "c \<in> set (show_nat (n div 10))" | "c = digit_char (n mod 10)"
      by (auto simp: show_nat.simps [of n])
    then show ?thesis
      using False "1.IH" of_digit_char [of "n mod 10"] by cases auto
  qed
qed

lemma show_nat_inject [simp]: "show_nat m = show_nat n \<longleftrightarrow> m = n"
  by (metis read_show_nat)

lemma show_nat_no_dash: "CHR ''-'' \<notin> set (show_nat n)"
  using show_nat_digits [of "CHR ''-''" n] by auto

lemma show_int_inject [simp]: "show_int i = show_int j \<longleftrightarrow> i = j"
proof -
  have "CHR ''-'' # show_nat a \<noteq> show_nat b" for a b
    using show_nat_no_dash [of b] by (metis list.set_intros(1))
  then show ?thesis by (auto simp: show_int_def eq_commute [of "show_nat _" "_ # _"])
qed

lemma show_int_no_colon: "CHR '':'' \<notin> set (show_int i)"
  using show_nat_digits [of "CHR '':''"] by (auto simp: show_int_def)

text \<open>The part of a string before its first colon determines how a key was put together.\<close>

lemma append_colon_inject:
  "CHR '':'' \<notin> set a \<Longrightarrow> CHR '':'' \<notin> set b \<Longrightarrow>
     a @ CHR '':'' # xs = b @ CHR '':'' # ys \<longleftrightarrow> a = b \<and> xs = ys"
  by (induction a arbitrary: b) (case_tac b; auto)+

definition is_space :: "char \<Rightarrow> bool" where
  "is_space c \<longleftrightarrow> c \<in> set [CHR '' '', CHR 0x09, CHR 0x0A, CHR 0x0B, CHR 0x0C, CHR 0x0D,
     CHR 0x1C, CHR 0x1D, CHR 0x1E, CHR 0x1F]"

definition strip :: "string \<Rightarrow> string" where
  "strip s = rev (dropWhile is_space (rev (dropWhile is_space s)))"

definition upper_char :: "char \<Rightarrow> char" where
  "upper_char c = (let n = of_char c :: nat in if 97 \<le> n \<and> n \<le> 122 then char_of (n - 32) else c)"

definition lower_char :: "char \<Rightarrow> char" where
  "lower_char c = (let n = of_char c :: nat in if 65 \<le> n \<and> n \<le> 90 then char_of (n + 32) else c)"

definition upper :: "string \<Rightarrow> string" where
  "upper = map upper_char"

definition lower :: "string \<Rightarrow> string" where
  "lower = map lower_char"

definition is_alpha_char :: "char \<Rightarrow> bool" where
  "is_alpha_char c = (let n = of_char c :: nat in (65 \<le> n \<and> n \<le> 90) \<or> (97 \<le> n \<and> n \<le> 122))"

definition isalpha :: "string \<Rightarrow> bool" where
  "isalpha s \<longleftrightarrow> s \<noteq> [] \<and> list_all is_alpha_char s"

text \<open>Values of the JSON columns.\<close>

datatype json = JNull | JBool bool | JInt int | JStr string | JObj "(string \<times> json) list" | JList "json list"

type_synonym dict = "(string \<times> json) list"

text \<open>\<open>{**d, k: v}\<close>: an existing key keeps its place, a new one goes to the end.\<close>

fun dict_set :: "('k \<times> 'v) list \<Rightarrow> 'k \<Rightarrow> 'v \<Rightarrow> ('k \<times> 'v) list" where
  "dict_set [] k v = [(k, v)]"
| "dict_set ((k', v') # d) k v = (if k' = k then (k, v) # d else (k', v') # dict_set d k v)"

lemma map_of_dict_set [simp]: "map_of (dict_set d k v) = (map_of d)(k \<mapsto> v)"
  by (induction d) auto

lemma keys_dict_set: "set (map fst (dict_set d k v)) = insert k (set (map fst d))"
  by (induction d k v rule: dict_set.induct) auto

lemma distinct_dict_set: "distinct (map fst d) \<Longrightarrow> distinct (map fst (dict_set d k v))"
proof (induction d k v rule: dict_set.induct)
  case (2 k' v' d k v)
  then show ?case using keys_dict_set [of d k v] by auto
qed simp

section \<open>Interfaces\<close>

subsection \<open>Transition systems with an invariant\<close>

text \<open>A run performs a list of labelled steps.\<close>

inductive runs :: "('s \<Rightarrow> 'a \<Rightarrow> 's \<Rightarrow> bool) \<Rightarrow> 's \<Rightarrow> 'a list \<Rightarrow> 's \<Rightarrow> bool" for step where
  runs_Nil: "runs step s [] s"
| runs_Cons: "step s a t \<Longrightarrow> runs step t as u \<Longrightarrow> runs step s (a # as) u"

inductive_simps runs_Nil_iff [simp]: "runs step s [] t"
inductive_simps runs_Cons_iff [simp]: "runs step s (a # as) t"

locale transition_system =
  fixes init :: "'s \<Rightarrow> bool" and step :: "'s \<Rightarrow> 'a \<Rightarrow> 's \<Rightarrow> bool" and inv :: "'s \<Rightarrow> bool"
  assumes init_inv: "init s \<Longrightarrow> inv s"
    and step_inv: "inv s \<Longrightarrow> step s a t \<Longrightarrow> inv t"
begin

lemma runs_inv: "runs step s as t \<Longrightarrow> inv s \<Longrightarrow> inv t"
  by (induction rule: runs.induct) (auto intro: step_inv)

lemma reachable_inv: "runs step s as t \<Longrightarrow> init s \<Longrightarrow> inv t"
  by (blast intro: runs_inv init_inv)

end

lemma runs_append: "runs step s as t \<Longrightarrow> runs step t bs u \<Longrightarrow> runs step s (as @ bs) u"
  by (induction rule: runs.induct) auto

lemma runs_snoc: "runs step s (as @ [a]) u \<longleftrightarrow> (\<exists>t. runs step s as t \<and> step t a u)"
  by (induction as arbitrary: s) auto

text \<open>
  A concrete system refines an abstract one through an abstraction function when each concrete step
  is a run of abstract steps, while an invariant of the concrete states is kept. Whole concrete runs then are runs of the
  abstract system.
\<close>

locale refinement =
  fixes cstep :: "'s \<Rightarrow> 'a \<Rightarrow> 's \<Rightarrow> bool" and astep :: "'t \<Rightarrow> 'b \<Rightarrow> 't \<Rightarrow> bool"
    and abstr :: "'s \<Rightarrow> 't" and inv :: "'s \<Rightarrow> bool"
  assumes cstep_inv: "inv s \<Longrightarrow> cstep s a t \<Longrightarrow> inv t"
    and cstep_refines: "inv s \<Longrightarrow> cstep s a t \<Longrightarrow> \<exists>bs. runs astep (abstr s) bs (abstr t)"
begin

lemma runs_refine: "runs cstep s as t \<Longrightarrow> inv s \<Longrightarrow> inv t \<and> (\<exists>bs. runs astep (abstr s) bs (abstr t))"
proof (induction rule: runs.induct)
  case (runs_Cons s a t as u)
  then obtain bs bs' where "runs astep (abstr s) bs (abstr t)" "runs astep (abstr t) bs' (abstr u)" "inv u"
    by (meson cstep_inv cstep_refines)
  then show ?case by (blast intro: runs_append)
qed (blast intro: runs_Nil)

end

subsection \<open>Allocators of fresh numbers\<close>

fun alloc_many :: "('s \<Rightarrow> 'e + ('n \<times> 's)) \<Rightarrow> nat \<Rightarrow> 's \<Rightarrow> 'e + ('n list \<times> 's)" where
  "alloc_many alloc 0 s = Inr ([], s)"
| "alloc_many alloc (Suc k) s =
     ebind (alloc s) (\<lambda>(n, t). ebind (alloc_many alloc k t) (\<lambda>(ns, u). Inr (n # ns, u)))"

locale allocator =
  fixes alloc :: "'s \<Rightarrow> 'e + ('n \<times> 's)" and used :: "'s \<Rightarrow> 'n set" and ok :: "'s \<Rightarrow> bool"
  assumes alloc_fresh: "ok s \<Longrightarrow> alloc s = Inr (n, t) \<Longrightarrow> n \<notin> used s"
    and alloc_used: "ok s \<Longrightarrow> alloc s = Inr (n, t) \<Longrightarrow> insert n (used s) \<subseteq> used t"
    and alloc_ok: "ok s \<Longrightarrow> alloc s = Inr (n, t) \<Longrightarrow> ok t"
begin

lemma alloc_many_fresh:
  "ok s \<Longrightarrow> alloc_many alloc k s = Inr (ns, t) \<Longrightarrow>
     distinct ns \<and> set ns \<inter> used s = {} \<and> set ns \<subseteq> used t \<and> used s \<subseteq> used t \<and> ok t"
proof (induction k arbitrary: s ns t)
  case (Suc k)
  then obtain n u ms where a: "alloc s = Inr (n, u)" and m: "alloc_many alloc k u = Inr (ms, t)"
    and ns: "ns = n # ms" by (auto simp: ebind_Inr_iff)
  from Suc.IH [OF alloc_ok [OF Suc.prems(1) a] m] alloc_fresh [OF Suc.prems(1) a]
    alloc_used [OF Suc.prems(1) a] show ?case by (auto simp: ns)
qed simp

end

subsection \<open>Operations protected by an idempotency key\<close>

fun replay :: "('s \<Rightarrow> 'e + ('r \<times> 's)) \<Rightarrow> nat \<Rightarrow> 's \<Rightarrow> 'e + 's" where
  "replay perform 0 s = Inr s"
| "replay perform (Suc k) s = ebind (perform s) (\<lambda>(_, t). replay perform k t)"

locale idempotent_operation =
  fixes perform :: "'s \<Rightarrow> 'e + ('r \<times> 's)" and done_in :: "'s \<Rightarrow> 'r \<Rightarrow> bool" and ok :: "'s \<Rightarrow> bool"
  assumes perform_done: "ok s \<Longrightarrow> perform s = Inr (r, t) \<Longrightarrow> done_in t r \<and> ok t"
    and done_again: "ok s \<Longrightarrow> done_in s r \<Longrightarrow> perform s = Inr (r, s)"
begin

lemma replay_once:
  assumes "ok s" and "perform s = Inr (r, t)"
  shows "replay perform (Suc k) s = Inr t"
proof -
  have d: "done_in t r" "ok t" using perform_done [OF assms] by auto
  then have "replay perform k t = Inr t" for k
    by (induction k) (simp_all add: done_again)
  then show ?thesis using assms(2) by simp
qed

end

end
