(* ===== verification/Calendar.thy ===== *)
theory Calendar
  imports Base
begin

text \<open>
  Instants and the proleptic Gregorian calendar of Python's \<open>datetime\<close>. An aware UTC datetime
  is the number of microseconds since midnight of 0001-01-01; \<open>date_of\<close> reads year, month and
  day the way \<open>datetime\<close> does from the day's ordinal, and \<open>replace_date\<close> is
  \<open>value.replace(year=\<dots>, month=\<dots>, day=\<dots>)\<close>. On top of it stand the month steps of the
  billing services. The range check of \<open>datetime\<close> (years 1 to 9999) is left out.
\<close>

type_synonym instant = int

definition us_per_day :: int where
  "us_per_day = 86400 * 1000000"

definition seconds :: "int \<Rightarrow> int" where
  "seconds n = n * 1000000"

definition hours :: "int \<Rightarrow> int" where
  "hours n = n * 3600 * 1000000"

definition days :: "int \<Rightarrow> int" where
  "days n = n * us_per_day"

section \<open>The calendar\<close>

definition is_leap :: "int \<Rightarrow> bool" where
  "is_leap y \<longleftrightarrow> y mod 4 = 0 \<and> (y mod 100 \<noteq> 0 \<or> y mod 400 = 0)"

definition days_in_month :: "int \<Rightarrow> int \<Rightarrow> int" where
  "days_in_month y m =
     (if m = 2 then (if is_leap y then 29 else 28)
      else if m = 4 \<or> m = 6 \<or> m = 9 \<or> m = 11 then 30 else 31)"

definition days_before_year :: "int \<Rightarrow> int" where
  "days_before_year y = (y - 1) * 365 + (y - 1) div 4 - (y - 1) div 100 + (y - 1) div 400"

definition days_before_month :: "int \<Rightarrow> int \<Rightarrow> int" where
  "days_before_month y m = (\<Sum>k \<leftarrow> [1..m - 1]. days_in_month y k)"

definition ymd2ord :: "int \<Rightarrow> int \<Rightarrow> int \<Rightarrow> int" where
  "ymd2ord y m d = days_before_year y + days_before_month y m + d"

fun find_month :: "int list \<Rightarrow> int \<Rightarrow> int \<Rightarrow> int \<times> int" where
  "find_month [] y n = (12, n + 1)"
| "find_month (m # ms) y n =
     (if n < days_in_month y m then (m, n + 1) else find_month ms y (n - days_in_month y m))"

definition ord2year :: "int \<Rightarrow> int" where
  "ord2year n =
     (let n0 = n - 1; n400 = n0 div 146097; r400 = n0 mod 146097;
          n100 = r400 div 36524; r100 = r400 mod 36524;
          n4 = r100 div 1461; r4 = r100 mod 1461; n1 = r4 div 365;
          y = n400 * 400 + n100 * 100 + n4 * 4 + n1 + 1
      in if n1 = 4 \<or> n100 = 4 then y - 1 else y)"

definition ord2ymd :: "int \<Rightarrow> int \<times> int \<times> int" where
  "ord2ymd n = (let y = ord2year n in (y, find_month [1..12] y (n - 1 - days_before_year y)))"

definition valid_date :: "int \<Rightarrow> int \<Rightarrow> int \<Rightarrow> bool" where
  "valid_date y m d \<longleftrightarrow> 1 \<le> m \<and> m \<le> 12 \<and> 1 \<le> d \<and> d \<le> days_in_month y m"

definition date_of :: "instant \<Rightarrow> int \<times> int \<times> int" where
  "date_of t = ord2ymd (t div us_per_day + 1)"

definition year_of :: "instant \<Rightarrow> int" where
  "year_of t = fst (date_of t)"

definition month_of :: "instant \<Rightarrow> int" where
  "month_of t = fst (snd (date_of t))"

definition day_of :: "instant \<Rightarrow> int" where
  "day_of t = snd (snd (date_of t))"

definition replace_date :: "instant \<Rightarrow> int \<Rightarrow> int \<Rightarrow> int \<Rightarrow> instant" where
  "replace_date t y m d = (ymd2ord y m d - 1) * us_per_day + t mod us_per_day"

section \<open>Reading a date back\<close>

lemma days_in_month_bounds: "28 \<le> days_in_month y m" "days_in_month y m \<le> 31"
  by (simp_all add: days_in_month_def)

lemma upto_1_12: "[1..12] = [1, 2, 3, 4, 5, 6, 7, 8, 9, 10, 11, 12 :: int]"
  by (simp add: upto.simps)

lemma days_before_month_Suc:
  "1 \<le> m \<Longrightarrow> days_before_month y (m + 1) = days_before_month y m + days_in_month y m"
  by (simp add: days_before_month_def upto_rec2)

lemma days_before_month_1 [simp]: "days_before_month y 1 = 0"
  by (simp add: days_before_month_def)

lemma div_pred:
  assumes "0 < (n::int)"
  shows "y div n = (y - 1) div n + (if y mod n = 0 then 1 else 0)"
proof (cases "y mod n = 0")
  case True
  have "y - 1 = n * (y div n - 1) + (n - 1)"
    using True div_mult_mod_eq [of y n] by (simp add: algebra_simps)
  then have "(y - 1) div n = y div n - 1" by (rule int_div_pos_eq) (use assms in auto)
  with True show ?thesis by simp
next
  case False
  have "y - 1 = n * (y div n) + (y mod n - 1)" by simp
  moreover have "0 < y mod n" "y mod n < n"
    using False assms pos_mod_sign [of n y] pos_mod_bound [of n y] by linarith+
  ultimately have "(y - 1) div n = y div n" by (intro int_div_pos_eq [where r = "y mod n - 1"]) simp_all
  with False show ?thesis by simp
qed

lemma leap_days_sum:
  "a = a' + p \<Longrightarrow> b = b' + q \<Longrightarrow> c = c' + r \<Longrightarrow> a - b + c = a' - b' + c' + (p - q + r :: int)"
  by simp

lemma leap_days_step:
  assumes "(a::int) = a' + (if P then 1 else 0)" "b = b' + (if Q then 1 else 0)"
    "c = c' + (if R then 1 else 0)" "R \<Longrightarrow> Q" "Q \<Longrightarrow> P"
  shows "a - b + c = a' - b' + c' + (if P \<and> (\<not> Q \<or> R) then 1 else 0)"
proof -
  have "(if P then 1 else 0) - (if Q then 1 else 0) + (if R then 1 else 0) =
      (if P \<and> (\<not> Q \<or> R) then 1 else (0::int))"
    using assms(4,5) by (cases R; cases Q; cases P) simp_all
  then show ?thesis by (simp only: leap_days_sum [OF assms(1-3)])
qed

lemma year_days_step:
  "b = (y - 1) * 365 + g \<Longrightarrow> a = y * 365 + (g + k) \<Longrightarrow> a = b + (365 + k :: int)"
  by simp

lemma year_length: "days_before_year (y + 1) = days_before_year y + (if is_leap y then 366 else 365)"
proof -
  have d: "y mod 400 = 0 \<Longrightarrow> y mod 100 = 0" "y mod 100 = 0 \<Longrightarrow> y mod 4 = 0"
    unfolding mod_eq_0_iff_dvd by (erule dvd_trans [rotated], simp)+
  have "y div 4 - y div 100 + y div 400 =
      (y - 1) div 4 - (y - 1) div 100 + (y - 1) div 400 + (if is_leap y then 1 else 0)"
    unfolding is_leap_def by (rule leap_days_step) (rule div_pred d; simp)+
  moreover have "days_before_year (y + 1) = y * 365 + (y div 4 - y div 100 + y div 400)"
    unfolding days_before_year_def by (simp only: add_diff_cancel_right' add_diff_eq diff_add_eq add.assoc)
  moreover have "days_before_year y = (y - 1) * 365 + ((y - 1) div 4 - (y - 1) div 100 + (y - 1) div 400)"
    unfolding days_before_year_def by (simp only: add_diff_eq diff_add_eq add.assoc)
  ultimately have "days_before_year (y + 1) = days_before_year y + (365 + (if is_leap y then 1 else 0))"
    by (intro year_days_step) (simp_all only:)
  then show ?thesis by simp
qed

lemma days_before_month_13: "days_before_month y 13 = (if is_leap y then 366 else 365)"
  by (simp add: days_before_month_def upto_1_12 days_in_month_def)

text \<open>The month scan is the inverse of the running sum of month lengths.\<close>

lemma find_month_scan:
  assumes "1 \<le> k" "k \<le> m" "m \<le> 12" "0 \<le> n" "n < days_in_month y m"
  shows "find_month [k..12] y (days_before_month y m - days_before_month y k + n) = (m, n + 1)"
  using assms(2) assms(1)
proof (induction k rule: int_le_induct)
  case base
  with assms show ?case by (simp add: upto_rec1)
next
  case (step i)
  have "days_before_month y i = days_before_month y (i - 1) + days_in_month y (i - 1)"
    using days_before_month_Suc [of "i - 1" y] step.prems by simp
  moreover have "days_before_month y i \<le> days_before_month y m"
    using step.hyps step.prems
  proof (induction m rule: int_ge_induct)
    case (step j)
    then show ?case using days_before_month_Suc [of j y] days_in_month_bounds [of y j] by simp
  qed simp
  moreover have "i - 1 \<le> 12" using step.hyps assms(3) by simp
  moreover have "find_month [i..12] y (days_before_month y m - days_before_month y i + n) = (m, n + 1)"
    using step.IH step.prems by simp
  ultimately show ?case using assms(4)
    by (simp add: upto_rec1 [of "i - 1"] algebra_simps)
qed

lemma days_before_year_eq:
  assumes "0 \<le> b" "b < 4" "0 \<le> c" "c < 25" "0 \<le> d" "d < 4"
  shows "days_before_year (a * 400 + b * 100 + c * 4 + d + 1) = 146097 * a + 36524 * b + 1461 * c + 365 * d"
proof -
  let ?y = "a * 400 + b * 100 + c * 4 + d :: int"
  have "?y div 4 = 100 * a + 25 * b + c" "?y div 100 = 4 * a + b" "?y div 400 = a"
    using assms by (auto intro!: int_div_pos_eq [where r = d] int_div_pos_eq [where r = "c * 4 + d"]
      int_div_pos_eq [where r = "b * 100 + c * 4 + d"])
  then show ?thesis by (simp add: days_before_year_def)
qed

lemma ord2year_digits:
  assumes "n - 1 = 146097 * a + 36524 * b + 1461 * c + 365 * d + e"
    "0 \<le> b" "0 \<le> c" "0 \<le> d" "0 \<le> e" "e < 365" "1461 * c + (365 * d + e) < 36524"
    "365 * d + e < 1461" "36524 * b + (1461 * c + (365 * d + e)) < 146097"
  shows "ord2year n =
    (if d = 4 \<or> b = 4 then a * 400 + b * 100 + c * 4 + d else a * 400 + b * 100 + c * 4 + d + 1)"
proof -
  have a: "(n - 1) div 146097 = a" "(n - 1) mod 146097 = 36524 * b + (1461 * c + (365 * d + e))"
    using assms by (auto intro: int_div_pos_eq int_mod_pos_eq)
  have b: "(36524 * b + (1461 * c + (365 * d + e))) div 36524 = b"
    "(36524 * b + (1461 * c + (365 * d + e))) mod 36524 = 1461 * c + (365 * d + e)"
    using assms by (auto intro: int_div_pos_eq int_mod_pos_eq)
  have c: "(1461 * c + (365 * d + e)) div 1461 = c" "(1461 * c + (365 * d + e)) mod 1461 = 365 * d + e"
    using assms by (auto intro: int_div_pos_eq int_mod_pos_eq)
  have d: "(365 * d + e) div 365 = d" using assms by (auto intro: int_div_pos_eq)
  show ?thesis unfolding ord2year_def Let_def a b c d by simp
qed

lemma day_digits:
  obtains a b c d e where "n - 1 = 146097 * a + 36524 * b + 1461 * c + 365 * d + e"
    "0 \<le> b" "0 \<le> c" "0 \<le> d" "0 \<le> e" "e < 365" "1461 * c + (365 * d + e) < 36524"
    "365 * d + e < 1461" "36524 * b + (1461 * c + (365 * d + e)) < (146097 :: int)"
proof -
  define r4 where "r4 = (n - 1) mod 146097"
  define r1 where "r1 = r4 mod 36524"
  define r0 where "r0 = r1 mod 1461"
  have n: "n - 1 = 146097 * ((n - 1) div 146097) + r4" and r4: "0 \<le> r4" "r4 < 146097"
    by (simp_all add: r4_def)
  have r4': "r4 = 36524 * (r4 div 36524) + r1" and r1: "0 \<le> r1" "r1 < 36524" "0 \<le> r4 div 36524"
    using r4 by (simp_all add: r1_def pos_imp_zdiv_nonneg_iff)
  have r1': "r1 = 1461 * (r1 div 1461) + r0" and r0: "0 \<le> r0" "r0 < 1461" "0 \<le> r1 div 1461"
    using r1 by (simp_all add: r0_def pos_imp_zdiv_nonneg_iff)
  have r0': "r0 = 365 * (r0 div 365) + r0 mod 365" and e: "0 \<le> r0 mod 365" "r0 mod 365 < 365" "0 \<le> r0 div 365"
    using r0 by (simp_all add: pos_imp_zdiv_nonneg_iff)
  show thesis
    by (rule that [of "(n - 1) div 146097" "r4 div 36524" "r1 div 1461" "r0 div 365" "r0 mod 365"])
       (use n r4 r4' r1 r1' r0 r0' e in linarith)+
qed

lemma ord2year_bounds:
  "days_before_year (ord2year n) < n \<and> n \<le> days_before_year (ord2year n + 1)"
proof -
  obtain a b c d e where n: "n - 1 = 146097 * a + 36524 * b + 1461 * c + 365 * d + e"
    and lo: "0 \<le> b" "0 \<le> c" "0 \<le> d" "0 \<le> e" and hi: "e < 365" "1461 * c + (365 * d + e) < 36524"
    "365 * d + e < 1461" "36524 * b + (1461 * c + (365 * d + e)) < (146097 :: int)"
    by (rule day_digits)
  note y = ord2year_digits [OF n lo hi]
  consider "b = 4" | "b < 4" "d = 4" | "b < 4" "d < 4" using hi lo by linarith
  then show ?thesis
  proof cases
    case 1
    then have "c = 0" "d = 0" "e = 0" using hi lo by linarith+
    with 1 y n show ?thesis
      using days_before_year_eq [of 3 24 3 a] days_before_year_eq [of 0 0 0 "a + 1"]
      by (simp add: algebra_simps)
  next
    case 2
    then have "e = 0" "c < 24" using hi lo by linarith+
    with 2 y n lo show ?thesis
      using days_before_year_eq [of b c 3 a] days_before_year_eq [of b "c + 1" 0 a]
      by (simp add: algebra_simps)
  next
    case 3
    have "c < 25" using hi lo by linarith
    with 3 y n lo hi show ?thesis
      using days_before_year_eq [of b c d a] year_length [of "a * 400 + b * 100 + c * 4 + d + 1"]
      by (simp add: algebra_simps split: if_splits)
  qed
qed

lemma days_before_year_mono: "y \<le> z \<Longrightarrow> days_before_year y \<le> days_before_year z"
proof (induction z rule: int_ge_induct)
  case (step z)
  then show ?case using year_length [of z] by (simp split: if_splits)
qed simp

lemma ord2year_unique:
  assumes "days_before_year y < n" "n \<le> days_before_year (y + 1)"
  shows "ord2year n = y"
proof (rule ccontr)
  assume "ord2year n \<noteq> y"
  then consider "ord2year n + 1 \<le> y" | "y + 1 \<le> ord2year n" by linarith
  then show False
  proof cases
    case 1
    from days_before_year_mono [OF this] ord2year_bounds [of n] assms show ?thesis by linarith
  next
    case 2
    from days_before_year_mono [OF this] ord2year_bounds [of n] assms show ?thesis by linarith
  qed
qed

lemma days_before_month_mono: "1 \<le> k \<Longrightarrow> k \<le> m \<Longrightarrow> days_before_month y k \<le> days_before_month y m"
proof (rotate_tac, induction m rule: int_ge_induct)
  case (step j)
  then show ?case using days_before_month_Suc [of j y] days_in_month_bounds [of y j] by simp
qed simp

lemma day_in_year:
  assumes "valid_date y m d"
  shows "1 \<le> days_before_month y m + d" "days_before_month y m + d \<le> (if is_leap y then 366 else 365)"
proof -
  have m: "1 \<le> m" "m \<le> 12" "1 \<le> d" "d \<le> days_in_month y m"
    using assms by (simp_all add: valid_date_def)
  show "1 \<le> days_before_month y m + d"
    using days_before_month_mono [of 1 m y] m by simp
  have "days_before_month y m + d \<le> days_before_month y (m + 1)"
    using days_before_month_Suc [of m y] m by simp
  also have "\<dots> \<le> days_before_month y 13" using m by (intro days_before_month_mono) simp_all
  finally show "days_before_month y m + d \<le> (if is_leap y then 366 else 365)"
    by (simp only: days_before_month_13)
qed

lemma ord2ymd_ymd2ord:
  assumes "valid_date y m d"
  shows "ord2ymd (ymd2ord y m d) = (y, m, d)"
proof -
  have y: "ord2year (ymd2ord y m d) = y"
    using day_in_year [OF assms] year_length [of y]
    by (intro ord2year_unique) (auto simp: ymd2ord_def)
  have "find_month [1..12] y (days_before_month y m - days_before_month y 1 + (d - 1)) = (m, d)"
    using assms find_month_scan [of 1 m "d - 1" y] by (simp add: valid_date_def)
  then show ?thesis
    unfolding ord2ymd_def Let_def y by (simp add: ymd2ord_def algebra_simps)
qed

lemma month_exists:
  assumes "1 \<le> M" "0 \<le> n" "n < days_before_month y (M + 1)"
  shows "\<exists>m. 1 \<le> m \<and> m \<le> M \<and> days_before_month y m \<le> n \<and> n < days_before_month y (m + 1)"
  using assms
proof (induction M rule: int_ge_induct)
  case (step M)
  show ?case
  proof (cases "n < days_before_month y (M + 1)")
    case True
    with step obtain m where "1 \<le> m" "m \<le> M" "days_before_month y m \<le> n" "n < days_before_month y (m + 1)"
      by blast
    then show ?thesis by (intro exI [of _ m]) simp
  next
    case False
    with step show ?thesis by (intro exI [of _ "M + 1"]) simp
  qed
qed (auto intro: exI [of _ 1])

lemma ymd_of_ordinal: "\<exists>y m d. valid_date y m d \<and> n = ymd2ord y m d"
proof -
  let ?y = "ord2year n"
  have "0 \<le> n - 1 - days_before_year ?y" "n - 1 - days_before_year ?y < days_before_month ?y (12 + 1)"
    using ord2year_bounds [of n] year_length [of ?y] by (auto simp: days_before_month_13)
  with month_exists [of 12 "n - 1 - days_before_year ?y" ?y] obtain m where
    m: "1 \<le> m" "m \<le> 12" "days_before_month ?y m \<le> n - 1 - days_before_year ?y"
      "n - 1 - days_before_year ?y < days_before_month ?y (m + 1)" by auto
  then have "valid_date ?y m (n - days_before_year ?y - days_before_month ?y m)"
    using days_before_month_Suc [of m ?y] by (simp add: valid_date_def)
  moreover have "n = ymd2ord ?y m (n - days_before_year ?y - days_before_month ?y m)"
    by (simp add: ymd2ord_def)
  ultimately show ?thesis by blast
qed

lemma us_per_day_pos [simp]: "0 < us_per_day" "us_per_day \<noteq> 0"
  by (simp_all add: us_per_day_def)

text \<open>Every instant is its date at its time of day, and the date is a valid one.\<close>

lemma date_of_instant:
  assumes "date_of t = (y, m, d)"
  shows "valid_date y m d \<and> t = replace_date t y m d"
proof -
  obtain y' m' d' where v: "valid_date y' m' d'" and n: "t div us_per_day + 1 = ymd2ord y' m' d'"
    using ymd_of_ordinal by blast
  with assms ord2ymd_ymd2ord [OF v] have "(y', m', d') = (y, m, d)" by (simp add: date_of_def)
  then have "valid_date y m d" "ymd2ord y m d = t div us_per_day + 1" using v n by auto
  then show ?thesis by (simp add: replace_date_def)
qed

lemma date_of_replace_date:
  "valid_date y m d \<Longrightarrow> date_of (replace_date t y m d) = (y, m, d)"
  by (simp add: date_of_def replace_date_def ord2ymd_ymd2ord)

lemma replace_date_time [simp]: "replace_date t y m d mod us_per_day = t mod us_per_day"
  by (simp add: replace_date_def)

lemma replace_date_twice [simp]: "replace_date (replace_date t y m d) y' m' d' = replace_date t y' m' d'"
  by (simp add: replace_date_def)

lemma ymd2ord_month_less:
  assumes v: "valid_date y m d" "valid_date y' m' d'" and less: "y * 12 + m < y' * 12 + m'"
  shows "ymd2ord y m d < ymd2ord y' m' d'"
proof -
  have m: "1 \<le> m" "m \<le> 12" "d \<le> days_in_month y m" "1 \<le> m'" "m' \<le> 12" "1 \<le> d'"
    using v by (simp_all add: valid_date_def)
  show ?thesis
  proof (cases "y = y'")
    case True
    then have "days_before_month y (m + 1) \<le> days_before_month y m'"
      using less m by (intro days_before_month_mono) simp_all
    then show ?thesis using m True days_before_month_Suc [of m y] by (simp add: ymd2ord_def)
  next
    case False
    then have "y + 1 \<le> y'" using less m by linarith
    then have "days_before_year (y + 1) \<le> days_before_year y'" by (rule days_before_year_mono)
    moreover have "days_before_month y m + d \<le> (if is_leap y then 366 else 365)"
      "1 \<le> days_before_month y' m' + d'"
      using v by (blast intro: day_in_year)+
    ultimately show ?thesis using year_length [of y] by (simp add: ymd2ord_def)
  qed
qed

lemma replace_date_less:
  "ymd2ord y m d < ymd2ord y' m' d' \<Longrightarrow> replace_date t y m d < replace_date t y' m' d'"
  by (simp add: replace_date_def)

section \<open>Steps by calendar months\<close>

text \<open>
  The reference: \<open>n\<close> months later, on the anchor day or the last day of a shorter month, at the
  same time of day.
\<close>

definition add_months :: "instant \<Rightarrow> int \<Rightarrow> int \<Rightarrow> instant" where
  "add_months t n anchor =
     (let (y, m, d) = date_of t; k = y * 12 + (m - 1) + n; y' = k div 12; m' = k mod 12 + 1
      in replace_date t y' m' (min anchor (days_in_month y' m')))"

definition month_index :: "instant \<Rightarrow> int" where
  "month_index t = year_of t * 12 + (month_of t - 1)"

text \<open>\<open>RecurringBillingService.next_calendar_month\<close>\<close>

definition next_calendar_month :: "instant \<Rightarrow> int option \<Rightarrow> instant" where
  "next_calendar_month t anchor_day =
     (let anchor = (case anchor_day of None \<Rightarrow> day_of t | Some a \<Rightarrow> if a = 0 then day_of t else a);
          year = year_of t + (if month_of t = 12 then 1 else 0);
          month = (if month_of t = 12 then 1 else month_of t + 1);
          d = min anchor (days_in_month year month)
      in replace_date t year month d)"

text \<open>\<open>ResellerBillingService._one_month_after\<close>\<close>

definition one_month_after :: "instant \<Rightarrow> instant" where
  "one_month_after t =
     (let year = year_of t + (if month_of t = 12 then 1 else 0);
          month = (if month_of t = 12 then 1 else month_of t + 1);
          d = min (day_of t) (days_in_month year month)
      in replace_date t year month d)"

text \<open>\<open>CommerceRecurringService.next_due_at\<close>\<close>

definition interval_months :: "string option \<Rightarrow> int" where
  "interval_months interval =
     (let normalized = lower (strip (case interval of None \<Rightarrow> ''monthly''
            | Some s \<Rightarrow> if s = [] then ''monthly'' else s))
      in if normalized = ''quarterly'' then 3
         else if normalized = ''semiannually'' then 6
         else if normalized = ''annually'' then 12 else 1)"

definition next_due_at :: "instant \<Rightarrow> string option \<Rightarrow> instant" where
  "next_due_at t interval =
     (let k = month_of t - 1 + interval_months interval;
          year = year_of t + k div 12;
          month = k mod 12 + 1;
          d = min (day_of t) (days_in_month year month)
      in replace_date t year month d)"

lemma date_parts:
  "valid_date (year_of t) (month_of t) (day_of t)"
  "replace_date t (year_of t) (month_of t) (day_of t) = t"
  using date_of_instant [of t] by (cases "date_of t"; simp add: year_of_def month_of_def day_of_def)+

lemma add_months_parts:
  "add_months t n anchor =
     (let k = month_index t + n in replace_date t (k div 12) (k mod 12 + 1)
        (min anchor (days_in_month (k div 12) (k mod 12 + 1))))"
  by (cases "date_of t") (simp add: add_months_def Let_def month_index_def year_of_def month_of_def)

lemma valid_month_index:
  "1 \<le> anchor \<Longrightarrow> valid_date (k div 12) (k mod 12 + 1) (min anchor (days_in_month (k div 12) (k mod 12 + 1)))"
  using days_in_month_bounds(1) [of "k div 12" "k mod 12 + 1"] pos_mod_bound [of 12 k]
  by (simp add: valid_date_def)

lemma add_months_date:
  assumes "1 \<le> anchor"
  shows "month_index (add_months t n anchor) = month_index t + n"
    "day_of (add_months t n anchor) =
       min anchor (days_in_month ((month_index t + n) div 12) ((month_index t + n) mod 12 + 1))"
    "add_months t n anchor mod us_per_day = t mod us_per_day"
  using date_of_replace_date [OF valid_month_index [OF assms, of "month_index t + n"], of t]
  by (simp_all add: add_months_parts Let_def month_index_def [of "replace_date _ _ _ _"]
        year_of_def [of "replace_date _ _ _ _"] month_of_def [of "replace_date _ _ _ _"] day_of_def)

lemma add_months_later:
  assumes "1 \<le> anchor" "0 < n"
  shows "t < add_months t n anchor"
proof -
  let ?k = "month_index t + n"
  have "year_of t * 12 + month_of t < ?k div 12 * 12 + (?k mod 12 + 1)"
    using assms(2) div_mult_mod_eq [of ?k 12] unfolding month_index_def by linarith
  then have "replace_date t (year_of t) (month_of t) (day_of t) < add_months t n anchor"
    unfolding add_months_parts Let_def
    by (intro replace_date_less ymd2ord_month_less date_parts valid_month_index [OF assms(1)])
  then show ?thesis by (simp only: date_parts)
qed

lemma next_month_index:
  assumes "1 \<le> m" "m \<le> 12"
  shows "y + (if m = 12 then 1 else 0) = (y * 12 + (m - 1) + 1) div 12"
    "(if m = 12 then 1 else m + 1) = (y * 12 + (m - 1) + 1) mod (12::int) + 1"
proof -
  have "(y * 12 + (m - 1) + 1) div 12 = (if m = 12 then y + 1 else y)"
    by (rule int_div_pos_eq [where r = "if m = 12 then 0 else m"]) (use assms in auto)
  moreover have "(y * 12 + (m - 1) + 1) mod 12 = (if m = 12 then 0 else m)"
    by (rule int_mod_pos_eq [where q = "if m = 12 then y + 1 else y"]) (use assms in auto)
  ultimately show "y + (if m = 12 then 1 else 0) = (y * 12 + (m - 1) + 1) div 12"
    "(if m = 12 then 1 else m + 1) = (y * 12 + (m - 1) + 1) mod 12 + 1" by simp_all
qed

lemma month_range: "1 \<le> month_of t" "month_of t \<le> 12" "1 \<le> day_of t" "day_of t \<le> 31"
  using date_parts(1) [of t] days_in_month_bounds(2) [of "year_of t" "month_of t"]
  by (simp_all add: valid_date_def)

lemma next_calendar_month_eq:
  "next_calendar_month t a =
     add_months t 1 (case a of None \<Rightarrow> day_of t | Some b \<Rightarrow> if b = 0 then day_of t else b)"
  unfolding next_calendar_month_def add_months_parts month_index_def Let_def
    next_month_index [OF month_range(1,2) [of t], where y = "year_of t"] ..

lemma one_month_after_eq: "one_month_after t = add_months t 1 (day_of t)"
  unfolding one_month_after_def add_months_parts month_index_def Let_def
    next_month_index [OF month_range(1,2) [of t], where y = "year_of t"] ..

lemma next_due_at_eq: "next_due_at t i = add_months t (interval_months i) (day_of t)"
proof -
  have "(year_of t * 12 + (month_of t - 1) + k) div 12 = year_of t + (month_of t - 1 + k) div 12"
    "(year_of t * 12 + (month_of t - 1) + k) mod 12 = (month_of t - 1 + k) mod 12" for k
    by (simp_all add: add.assoc)
  then show ?thesis unfolding next_due_at_def add_months_parts month_index_def Let_def by simp
qed

lemma interval_months_pos: "0 < interval_months i"
  by (simp add: interval_months_def Let_def)

lemma funpow_next_calendar_month:
  assumes "1 \<le> a" "0 < k"
  shows "((\<lambda>u. next_calendar_month u (Some a)) ^^ k) t = add_months t (int k) a"
  using assms(2)
proof (induction k rule: nat_induct_non_zero)
  case 1
  then show ?case using assms(1) by (simp add: next_calendar_month_eq)
next
  case (Suc k)
  have "next_calendar_month (add_months t (int k) a) (Some a) = add_months (add_months t (int k) a) 1 a"
    using assms(1) by (simp add: next_calendar_month_eq)
  also have "\<dots> = add_months t (int (Suc k)) a"
    unfolding add_months_parts [of "add_months t (int k) a"] add_months_date(1) [OF assms(1)]
    by (simp add: add_months_parts Let_def algebra_simps)
  finally show ?case using Suc.IH by simp
qed

section \<open>Properties\<close>

text \<open>
  Billing dates do not drift: advancing a due date by \<open>k\<close> billing months with a fixed
  anchor day lands \<open>k\<close> calendar months later, on the anchor day or on the last day of a shorter
  month, at the same time of day, and strictly later than before; a short month on the way does not
  pull later dates forward.
\<close>

theorem billing_date_does_not_drift:
  assumes "1 \<le> a" "0 < k"
  shows "let u = ((\<lambda>x. next_calendar_month x (Some a)) ^^ k) t; n = month_index t + int k in
    month_index u = n \<and> day_of u = min a (days_in_month (n div 12) (n mod 12 + 1)) \<and>
    u mod us_per_day = t mod us_per_day \<and> t < u"
  unfolding funpow_next_calendar_month [OF assms] Let_def
  using add_months_date [OF assms(1)] add_months_later [OF assms(1), of "int k"] assms(2) by simp

theorem billing_date_does_not_drift_witness:
  "let t = replace_date 0 2024 1 31 in
     day_of (next_calendar_month t (Some 31)) = 29 \<and>
     day_of (((\<lambda>x. next_calendar_month x (Some 31)) ^^ 2) t) = 31 \<and> t < ((\<lambda>x. next_calendar_month x (Some 31)) ^^ 2) t"
proof -
  have n: "month_index (replace_date 0 2024 1 31) = 2024 * 12" by code_simp
  have "(2024 * 12 + int 1) div 12 = 2024 \<and> (2024 * 12 + int 1) mod 12 + 1 = 2"
    "(2024 * 12 + int 2) div 12 = 2024 \<and> (2024 * 12 + int 2) mod 12 + 1 = 3"
    "days_in_month 2024 2 = 29" "days_in_month 2024 3 = 31" by code_simp+
  then show ?thesis
    using billing_date_does_not_drift [of 31 1 "replace_date 0 2024 1 31"] billing_date_does_not_drift [of 31 2 "replace_date 0 2024 1 31"]
    unfolding n Let_def by simp
qed

text \<open>
  C20: the three month steps of the code base agree: advancing a reseller subscription by one month,
  a recurring bill without an anchor, and a storefront renewal of interval \<open>n\<close> all equal the same
  reference, \<open>n\<close> calendar months later on the same day or the month's last, and strictly later.
\<close>

theorem month_steps_agree:
  "one_month_after t = next_calendar_month t None \<and>
   next_due_at t (Some ''monthly'') = one_month_after t \<and>
   next_due_at t i = add_months t (interval_months i) (day_of t) \<and> t < next_due_at t i \<and> t < one_month_after t"
proof -
  have "interval_months (Some ''monthly'') = 1" by code_simp
  then show ?thesis
    using add_months_later [OF month_range(3), of _ t] interval_months_pos
    by (simp add: one_month_after_eq next_calendar_month_eq next_due_at_eq)
qed

end
