(* ===== verification/Models.thy ===== *)
theory Models
  imports Calendar
begin

text \<open>
  The persistent state: the enumerations and rows of \<open>app/models/reseller.py\<close> and
  \<open>app/models/service.py\<close>, and the order items of \<open>app/models/commerce_order.py\<close>, as datatypes and records, and the database as one record of tables.
  A column keeps its source name behind a prefix for its table (\<open>inv_\<close> for \<open>invoices\<close>,
  \<open>pay_\<close> for \<open>payments\<close>, \<open>le_\<close> for \<open>credit_ledger_entries\<close>, \<open>sb_\<close> for
  \<open>service_billings\<close>, \<open>bc_\<close> for \<open>billing_cycles\<close>, and so on). Audit timestamps
  (\<open>created_at\<close>, \<open>updated_at\<close>) and columns no modelled operation reads or writes are left
  out; a nullable column is an option. Inserts enforce the unique and check constraints of the
  tables; foreign keys are not modelled.
\<close>

section \<open>Enumerations\<close>

datatype ResellerChargePreference = CREDIT_FIRST | PAYMENT_FIRST

datatype ResellerNonpaymentPolicy = BLOCK_NEW | SUSPEND_ALL

datatype StockQuotaScope = PRODUCT | SERVER_GROUP | PROXMOX_CLUSTER

datatype InvoicePurpose = CREDIT_TOPUP | DEPLOY_CHARGE | CYCLE_CHARGE | ADJUSTMENT_INVOICE
  | ORDER_CHARGE | ADDON | UPGRADE | CREDIT_NOTE | RENEWAL

datatype InvoiceStatus = DRAFT | OPEN | PAID | VOID | INV_FAILED | PENDING_ACTION | OVERDUE

datatype PaymentStatus = PENDING | SUCCEEDED | FAILED | REFUNDED

datatype CreditLedgerEntryType = TOPUP | CHARGE | REFUND | ADJUSTMENT | REVERSAL

datatype ServiceBillingStatus = SB_ACTIVE | SB_PAST_DUE | SB_GRACE | SUSPENDED_NONPAYMENT
  | SB_CANCELLED | SB_MANUAL_REVIEW | SB_ERROR

datatype BillingCycleState = DUE | PROCESSING | PAST_DUE | GRACE | CYCLE_PENDING_ACTION
  | CYCLE_PAID | SUSPENDED | CANCELLED | MANUAL_REVIEW | CYCLE_ERROR

datatype NotificationOutboxStatus = QUEUED | SENDING | SENT | SKIPPED | OUTBOX_FAILED

datatype ResellerProvisioningRequestStatus = REQ_PROCESSING | INSUFFICIENT_CREDIT
  | REQ_SUCCEEDED | REQ_FAILED

datatype ServiceStatus = SVC_ACTIVE | SVC_SUSPENDED | SVC_TERMINATED | SVC_PENDING

datatype OrderItemFulfillStatus = ITEM_PENDING | ITEM_FULFILLING | ITEM_FULFILLED | ITEM_FAILED | ITEM_CANCELLED

datatype ServiceType = BARE_METAL | VM | HTTP_PROXY

fun purpose_value :: "InvoicePurpose \<Rightarrow> string" where
  "purpose_value CREDIT_TOPUP = ''credit_topup''"
| "purpose_value DEPLOY_CHARGE = ''deploy_charge''"
| "purpose_value CYCLE_CHARGE = ''cycle_charge''"
| "purpose_value ADJUSTMENT_INVOICE = ''adjustment''"
| "purpose_value ORDER_CHARGE = ''order_charge''"
| "purpose_value ADDON = ''addon''"
| "purpose_value UPGRADE = ''upgrade''"
| "purpose_value CREDIT_NOTE = ''credit_note''"
| "purpose_value RENEWAL = ''renewal''"

section \<open>Rows\<close>

record reseller =
  r_id :: int
  r_user_id :: int
  r_user_email :: "string option"
  r_group_id :: "int option"
  stripe_customer_ref :: "string option"
  cached_balance_cents :: int
  charge_preference :: ResellerChargePreference
  nonpayment_policy :: ResellerNonpaymentPolicy
  billing_hold :: bool
  billing_hold_at :: "instant option"
  billing_hold_cleared_at :: "instant option"
  billing_hold_reason :: "string option"

record invoice =
  inv_id :: int
  inv_number :: int
  inv_reseller_id :: "int option"
  inv_service_id :: "int option"
  inv_billing_account_id :: "int option"
  inv_order_id :: "int option"
  inv_purpose :: InvoicePurpose
  inv_status :: InvoiceStatus
  inv_amount_cents :: int
  inv_currency :: string
  inv_description :: "string option"
  inv_due_at :: "instant option"
  inv_paid_at :: "instant option"

record payment =
  pay_id :: int
  pay_invoice_id :: int
  pay_gateway :: string
  pay_status :: PaymentStatus
  pay_amount_cents :: int
  pay_currency :: string
  pay_external_ref :: "string option"
  pay_failure_code :: "string option"
  pay_failure_message :: "string option"
  pay_metadata :: dict
  pay_processed_at :: "instant option"
  pay_refunded_at :: "instant option"

record payment_method =
  pm_id :: int
  pm_reseller_id :: int
  pm_provider :: string
  pm_method_type :: string
  pm_provider_customer_ref :: "string option"
  pm_provider_method_ref :: string
  pm_label :: "string option"
  pm_brand :: "string option"
  pm_last4 :: "string option"
  pm_tier :: int
  pm_enabled :: bool

record paypal_pending_setup =
  pp_id :: int
  pp_reseller_id :: int
  pp_setup_token_ref :: string
  pp_provider_customer_ref :: "string option"
  pp_payment_method_id :: "int option"
  pp_expires_at :: instant
  pp_consumed_at :: "instant option"

record gateway_webhook_event =
  we_gateway :: string
  we_event_id :: string
  we_event_type :: string

record ledger_entry =
  le_id :: int
  le_reseller_id :: int
  le_entry_type :: CreditLedgerEntryType
  le_amount_cents :: int
  le_balance_after_cents :: int
  le_description :: "string option"
  le_invoice_id :: "int option"
  le_payment_id :: "int option"
  le_service_id :: "int option"
  le_reversal_of_id :: "int option"
  le_reference_type :: "string option"
  le_reference_id :: "string option"
  le_idempotency_key :: "string option"
  le_metadata :: dict
  le_created_by_user_id :: "int option"

record service_billing =
  sb_id :: int
  sb_service_id :: int
  sb_reseller_id :: "int option"
  sb_product_id :: "int option"
  sb_setup_price_cents :: int
  sb_monthly_price_cents :: int
  sb_currency :: string
  sb_next_charge_at :: "instant option"
  sb_billing_anchor_day :: "int option"
  sb_status :: ServiceBillingStatus
  sb_failed_attempts :: int
  sb_last_failure_code :: "string option"
  sb_last_failure_message :: "string option"
  sb_grace_until :: "instant option"
  sb_next_retry_at :: "instant option"
  sb_last_charged_at :: "instant option"

record billing_cycle =
  bc_id :: int
  bc_service_billing_id :: int
  bc_invoice_id :: "int option"
  bc_due_at :: instant
  bc_amount_cents :: int
  bc_currency :: string
  bc_state :: BillingCycleState
  bc_attempts :: int
  bc_last_attempt_at :: "instant option"
  bc_next_retry_at :: "instant option"
  bc_grace_until :: "instant option"
  bc_failure_code :: "string option"
  bc_failure_message :: "string option"
  bc_claim_token :: "string option"
  bc_claim_expires_at :: "instant option"
  bc_paid_at :: "instant option"
  bc_completed_at :: "instant option"

record recurring_billing_lease =
  lease_owner :: "string option"
  lease_expires_at :: "instant option"

record notification_outbox =
  ob_id :: int
  ob_idempotency_key :: string
  ob_reseller_id :: "int option"
  ob_recipient :: string
  ob_event :: string
  ob_data :: dict
  ob_status :: NotificationOutboxStatus
  ob_attempts :: int
  ob_next_attempt_at :: "instant option"
  ob_error :: "string option"
  ob_claim_token :: "string option"
  ob_claim_expires_at :: "instant option"
  ob_sent_at :: "instant option"

record provisioning_request =
  pr_id :: int
  pr_reseller_id :: int
  pr_idempotency_key :: string
  pr_request_hash :: string
  pr_invoice_id :: "int option"
  pr_service_id :: "int option"
  pr_status :: ResellerProvisioningRequestStatus
  pr_error_message :: "string option"

record service_vm =
  vm_cluster_id :: "int option"
  vm_node_name :: "string option"
  vm_vmid :: "int option"

record service =
  svc_id :: int
  svc_name :: string
  svc_type :: ServiceType
  svc_status :: ServiceStatus
  svc_config :: dict
  svc_product_snapshot :: dict
  svc_vm :: "service_vm option"

record order_item =
  oi_id :: int
  oi_order_id :: int
  oi_frontend_product_id :: int
  oi_price_plan_id :: int
  oi_cycle_interval :: "string option"
  oi_quantity :: int
  oi_setup_cents :: int
  oi_recurring_cents :: int
  oi_currency :: string
  oi_config :: dict
  oi_name_snapshot :: string
  oi_fulfill_status :: OrderItemFulfillStatus
  oi_service_id :: "int option"
  oi_error_message :: "string option"

section \<open>The database\<close>

record store =
  resellers :: "reseller list"
  invoices :: "invoice list"
  invoice_sequence :: "int option"
  payments :: "payment list"
  payment_methods :: "payment_method list"
  paypal_setups :: "paypal_pending_setup list"
  webhook_events :: "gateway_webhook_event list"
  ledger :: "ledger_entry list"
  service_billings :: "service_billing list"
  billing_cycles :: "billing_cycle list"
  lease :: "recurring_billing_lease option"
  outbox :: "notification_outbox list"
  provisioning_requests :: "provisioning_request list"
  services :: "service list"
  order_items :: "order_item list"

definition empty_store :: store where
  "empty_store = \<lparr>resellers = [], invoices = [], invoice_sequence = None, payments = [],
     payment_methods = [], paypal_setups = [], webhook_events = [], ledger = [],
     service_billings = [], billing_cycles = [], lease = None, outbox = [],
     provisioning_requests = [], services = [], order_items = []\<rparr>"

text \<open>Writing back a changed row, as a flush of the session does.\<close>

definition save_reseller :: "reseller \<Rightarrow> store \<Rightarrow> store" where
  "save_reseller r s = s\<lparr>resellers := put_row r_id r (resellers s)\<rparr>"

definition save_invoice :: "invoice \<Rightarrow> store \<Rightarrow> store" where
  "save_invoice i s = s\<lparr>invoices := put_row inv_id i (invoices s)\<rparr>"

definition save_payment :: "payment \<Rightarrow> store \<Rightarrow> store" where
  "save_payment p s = s\<lparr>payments := put_row pay_id p (payments s)\<rparr>"

definition save_method :: "payment_method \<Rightarrow> store \<Rightarrow> store" where
  "save_method m s = s\<lparr>payment_methods := put_row pm_id m (payment_methods s)\<rparr>"

definition save_setup :: "paypal_pending_setup \<Rightarrow> store \<Rightarrow> store" where
  "save_setup p s = s\<lparr>paypal_setups := put_row pp_id p (paypal_setups s)\<rparr>"

definition save_billing :: "service_billing \<Rightarrow> store \<Rightarrow> store" where
  "save_billing b s = s\<lparr>service_billings := put_row sb_id b (service_billings s)\<rparr>"

definition save_cycle :: "billing_cycle \<Rightarrow> store \<Rightarrow> store" where
  "save_cycle c s = s\<lparr>billing_cycles := put_row bc_id c (billing_cycles s)\<rparr>"

definition save_service :: "service \<Rightarrow> store \<Rightarrow> store" where
  "save_service v s = s\<lparr>services := put_row svc_id v (services s)\<rparr>"

definition save_request :: "provisioning_request \<Rightarrow> store \<Rightarrow> store" where
  "save_request q s = s\<lparr>provisioning_requests := put_row pr_id q (provisioning_requests s)\<rparr>"

definition get_reseller :: "store \<Rightarrow> int \<Rightarrow> reseller option" where
  "get_reseller s i = get_row r_id i (resellers s)"

definition get_invoice :: "store \<Rightarrow> int \<Rightarrow> invoice option" where
  "get_invoice s i = get_row inv_id i (invoices s)"

definition get_payment :: "store \<Rightarrow> int \<Rightarrow> payment option" where
  "get_payment s i = get_row pay_id i (payments s)"

definition get_entry :: "store \<Rightarrow> int \<Rightarrow> ledger_entry option" where
  "get_entry s i = get_row le_id i (ledger s)"

definition get_method :: "store \<Rightarrow> int \<Rightarrow> payment_method option" where
  "get_method s i = get_row pm_id i (payment_methods s)"

definition get_billing :: "store \<Rightarrow> int \<Rightarrow> service_billing option" where
  "get_billing s i = get_row sb_id i (service_billings s)"

definition get_cycle :: "store \<Rightarrow> int \<Rightarrow> billing_cycle option" where
  "get_cycle s i = get_row bc_id i (billing_cycles s)"

definition get_service :: "store \<Rightarrow> int \<Rightarrow> service option" where
  "get_service s i = get_row svc_id i (services s)"

lemmas save_defs = save_reseller_def save_invoice_def save_payment_def save_method_def
  save_setup_def save_billing_def save_cycle_def save_service_def save_request_def

lemmas get_defs = get_reseller_def get_invoice_def get_payment_def get_entry_def get_method_def
  get_billing_def get_cycle_def get_service_def

text \<open>Primary keys identify rows.\<close>

definition keys_ok :: "store \<Rightarrow> bool" where
  "keys_ok s \<longleftrightarrow> distinct (map r_id (resellers s)) \<and> distinct (map inv_id (invoices s)) \<and>
     distinct (map pay_id (payments s)) \<and> distinct (map le_id (ledger s))"

text \<open>A reseller row with a given balance, for concrete runs.\<close>

definition sample_reseller :: "int \<Rightarrow> int \<Rightarrow> reseller" where
  "sample_reseller i balance = \<lparr>r_id = i, r_user_id = 100 + i, r_user_email = Some ''billing@example.com'',
     r_group_id = None, stripe_customer_ref = Some ''cus_1'', cached_balance_cents = balance,
     charge_preference = CREDIT_FIRST, nonpayment_policy = BLOCK_NEW, billing_hold = False,
     billing_hold_at = None, billing_hold_cleared_at = None, billing_hold_reason = None\<rparr>"

end
