(* ===== verification/Credit_Ledger.thy ===== *)
theory Credit_Ledger
  imports Models
begin

text \<open>
  The reseller credit ledger, \<open>app/services/credit_ledger_service.py\<close>: an append-only list of
  signed entries per reseller, a cached balance on the reseller row, idempotency keys, and
  reversals. The theorems: the cached balance is the sum of the entries and every entry records
  the running balance; spending never overdraws; a keyed operation replayed has no further effect;
  an entry is reversed at most once and exactly; entries are never changed.
\<close>

section \<open>Operations\<close>

text \<open>\<open>_LedgerEntryContext\<close>\<close>

record ledger_context =
  ctx_description :: "string option"
  ctx_invoice_id :: "int option"
  ctx_payment_id :: "int option"
  ctx_service_id :: "int option"
  ctx_reversal_of_id :: "int option"
  ctx_reference_type :: "string option"
  ctx_reference_id :: "string option"
  ctx_idempotency_key :: "string option"
  ctx_metadata :: dict
  ctx_created_by_user_id :: "int option"

definition no_context :: ledger_context where
  "no_context = \<lparr>ctx_description = None, ctx_invoice_id = None, ctx_payment_id = None,
     ctx_service_id = None, ctx_reversal_of_id = None, ctx_reference_type = None,
     ctx_reference_id = None, ctx_idempotency_key = None, ctx_metadata = [],
     ctx_created_by_user_id = None\<rparr>"

definition require_integer_cents :: "int \<Rightarrow> bool \<Rightarrow> unit res" where
  "require_integer_cents amount_cents positive =
     (if positive \<and> amount_cents \<le> 0 then Inl (CreditLedgerError ''amount_cents must be greater than zero'')
      else if \<not> positive \<and> amount_cents = 0 then Inl (CreditLedgerError ''amount_cents must not be zero'')
      else Inr ())"

text \<open>A null id matches no row.\<close>

definition lock_reseller :: "store \<Rightarrow> int option \<Rightarrow> reseller res" where
  "lock_reseller s reseller_id =
     (case Option.bind reseller_id (get_reseller s) of
        None \<Rightarrow> Inl (ResellerNotFoundError reseller_id)
      | Some r \<Rightarrow> Inr r)"

text \<open>Inserting an entry, with the table's unique columns and its check on the amount.\<close>

definition insert_entry :: "store \<Rightarrow> ledger_entry \<Rightarrow> store res" where
  "insert_entry s e =
     (if le_amount_cents e = 0
        \<or> (le_idempotency_key e \<noteq> None \<and> le_idempotency_key e \<in> le_idempotency_key ` set (ledger s))
        \<or> (le_reversal_of_id e \<noteq> None \<and> le_reversal_of_id e \<in> le_reversal_of_id ` set (ledger s))
      then Inl IntegrityError
      else Inr (s\<lparr>ledger := ledger s @ [e]\<rparr>))"

definition find_by_key :: "store \<Rightarrow> string option \<Rightarrow> ledger_entry option res" where
  "find_by_key s key =
     (case key of None \<Rightarrow> Inr None
      | Some k \<Rightarrow> scalar_one_or_none (filter (\<lambda>e. le_idempotency_key e = Some k) (ledger s)))"

definition new_entry :: "store \<Rightarrow> reseller \<Rightarrow> CreditLedgerEntryType \<Rightarrow> int \<Rightarrow> ledger_context \<Rightarrow> ledger_entry" where
  "new_entry s r ty amount c =
     \<lparr>le_id = fresh_id le_id (ledger s), le_reseller_id = r_id r, le_entry_type = ty,
      le_amount_cents = amount, le_balance_after_cents = cached_balance_cents r + amount,
      le_description = ctx_description c, le_invoice_id = ctx_invoice_id c,
      le_payment_id = ctx_payment_id c, le_service_id = ctx_service_id c,
      le_reversal_of_id = ctx_reversal_of_id c, le_reference_type = ctx_reference_type c,
      le_reference_id = ctx_reference_id c, le_idempotency_key = ctx_idempotency_key c,
      le_metadata = ctx_metadata c, le_created_by_user_id = ctx_created_by_user_id c\<rparr>"

text \<open>\<open>CreditLedgerService._append_locked\<close>\<close>

definition append_locked ::
  "store \<Rightarrow> reseller \<Rightarrow> CreditLedgerEntryType \<Rightarrow> int \<Rightarrow> ledger_context \<Rightarrow> bool \<Rightarrow> (ledger_entry \<times> store) res" where
  "append_locked s r ty amount c allow_negative_balance =
     ebind (find_by_key s (ctx_idempotency_key c)) (\<lambda>existing.
     case existing of
       Some e \<Rightarrow>
         if le_reseller_id e \<noteq> r_id r \<or> le_entry_type e \<noteq> ty \<or> le_amount_cents e \<noteq> amount
            \<or> le_reversal_of_id e \<noteq> ctx_reversal_of_id c
         then Inl (CreditLedgerError ''idempotency_key is already used by a different ledger operation'')
         else Inr (e, s)
     | None \<Rightarrow>
         let new_balance = cached_balance_cents r + amount in
         if new_balance < 0 \<and> \<not> allow_negative_balance
         then Inl (InsufficientCreditError (r_id r) (cached_balance_cents r) (- amount))
         else
           let e = new_entry s r ty amount c in
           ebind (insert_entry s e) (\<lambda>t.
           Inr (e, save_reseller (r\<lparr>cached_balance_cents := new_balance\<rparr>) t)))"

definition credit :: "store \<Rightarrow> int option \<Rightarrow> int \<Rightarrow> ledger_context \<Rightarrow> (ledger_entry \<times> store) res" where
  "credit s reseller_id amount_cents c =
     ebind (require_integer_cents amount_cents True) (\<lambda>_.
     ebind (lock_reseller s reseller_id) (\<lambda>r.
     append_locked s r TOPUP amount_cents (c\<lparr>ctx_reversal_of_id := None\<rparr>) False))"

definition debit :: "store \<Rightarrow> int option \<Rightarrow> int \<Rightarrow> ledger_context \<Rightarrow> bool \<Rightarrow> (ledger_entry \<times> store) res" where
  "debit s reseller_id amount_cents c allow_negative_balance =
     ebind (require_integer_cents amount_cents True) (\<lambda>_.
     ebind (lock_reseller s reseller_id) (\<lambda>r.
     append_locked s r CHARGE (- amount_cents) (c\<lparr>ctx_reversal_of_id := None\<rparr>) allow_negative_balance))"

definition adjust :: "store \<Rightarrow> int option \<Rightarrow> int \<Rightarrow> ledger_context \<Rightarrow> (ledger_entry \<times> store) res" where
  "adjust s reseller_id amount_cents c =
     ebind (require_integer_cents amount_cents False) (\<lambda>_.
     ebind (lock_reseller s reseller_id) (\<lambda>r.
     append_locked s r ADJUSTMENT amount_cents
       (c\<lparr>ctx_invoice_id := None, ctx_payment_id := None, ctx_service_id := None, ctx_reversal_of_id := None\<rparr>)
       False))"

definition reverse_entry ::
  "store \<Rightarrow> int option \<Rightarrow> int \<Rightarrow> string option \<Rightarrow> string option \<Rightarrow> dict \<Rightarrow> int option \<Rightarrow> (ledger_entry \<times> store) res" where
  "reverse_entry s reseller_id entry_id description idempotency_key metadata created_by_user_id =
     ebind (lock_reseller s reseller_id) (\<lambda>r.
     ebind (scalar_one_or_none (filter (\<lambda>e. le_id e = entry_id \<and> Some (le_reseller_id e) = reseller_id) (ledger s))) (\<lambda>found.
     case found of
       None \<Rightarrow> Inl (CreditLedgerError ''Ledger entry was not found for reseller'')
     | Some original \<Rightarrow>
         if le_entry_type original = REVERSAL
         then Inl (CreditLedgerError ''A reversal entry cannot itself be reversed'')
         else
           ebind (scalar_one_or_none (filter (\<lambda>e. le_reversal_of_id e = Some (le_id original)) (ledger s))) (\<lambda>existing_reversal.
           case existing_reversal of
             Some e \<Rightarrow>
               if idempotency_key \<noteq> None \<and> le_idempotency_key e = idempotency_key then Inr (e, s)
               else Inl (LedgerEntryAlreadyReversedError entry_id)
           | None \<Rightarrow>
               append_locked s r REVERSAL (- le_amount_cents original)
                 \<lparr>ctx_description = (case description of
                     Some d \<Rightarrow> if d = [] then Some (''Reversal of ledger entry '' @ show_int (le_id original)) else Some d
                   | None \<Rightarrow> Some (''Reversal of ledger entry '' @ show_int (le_id original))),
                  ctx_invoice_id = le_invoice_id original, ctx_payment_id = le_payment_id original,
                  ctx_service_id = le_service_id original, ctx_reversal_of_id = Some (le_id original),
                  ctx_reference_type = le_reference_type original, ctx_reference_id = le_reference_id original,
                  ctx_idempotency_key = idempotency_key, ctx_metadata = metadata,
                  ctx_created_by_user_id = created_by_user_id\<rparr>
                 True)))"

section \<open>The invariant\<close>

definition entry_total :: "int \<Rightarrow> ledger_entry list \<Rightarrow> int" where
  "entry_total i es = sum_list (map le_amount_cents (filter (\<lambda>e. le_reseller_id e = i) es))"

definition chain_ok :: "ledger_entry list \<Rightarrow> bool" where
  "chain_ok es \<longleftrightarrow>
     (\<forall>i < length es. le_balance_after_cents (es ! i) = entry_total (le_reseller_id (es ! i)) (take (Suc i) es))"

definition reversal_ok :: "ledger_entry list \<Rightarrow> ledger_entry \<Rightarrow> bool" where
  "reversal_ok es e \<longleftrightarrow>
     (case le_reversal_of_id e of
        None \<Rightarrow> le_entry_type e \<noteq> REVERSAL
      | Some i \<Rightarrow> le_entry_type e = REVERSAL \<and>
          (\<exists>x \<in> set es. le_id x = i \<and> le_entry_type x \<noteq> REVERSAL \<and>
             le_reseller_id x = le_reseller_id e \<and> le_amount_cents e = - le_amount_cents x))"

definition ledger_ok :: "store \<Rightarrow> bool" where
  "ledger_ok s \<longleftrightarrow>
     distinct (map r_id (resellers s)) \<and> distinct (map le_id (ledger s)) \<and>
     (\<forall>r \<in> set (resellers s). cached_balance_cents r = entry_total (r_id r) (ledger s)) \<and>
     chain_ok (ledger s) \<and>
     unique_on le_idempotency_key (ledger s) \<and> unique_on le_reversal_of_id (ledger s) \<and>
     (\<forall>e \<in> set (ledger s). le_amount_cents e \<noteq> 0 \<and> reversal_ok (ledger s) e)"

lemma entry_total_simps [simp]:
  "entry_total i [] = 0"
  "entry_total i (e # es) = (if le_reseller_id e = i then le_amount_cents e else 0) + entry_total i es"
  "entry_total i (xs @ ys) = entry_total i xs + entry_total i ys"
  by (simp_all add: entry_total_def)

lemma chain_ok_snoc:
  "chain_ok (es @ [e]) \<longleftrightarrow>
     chain_ok es \<and> le_balance_after_cents e = entry_total (le_reseller_id e) es + le_amount_cents e"
  by (auto simp: chain_ok_def nth_append less_Suc_eq)

lemma reversal_ok_mono: "reversal_ok es e \<Longrightarrow> reversal_ok (es @ [x]) e"
  by (auto simp: reversal_ok_def split: option.splits)

section \<open>What a successful operation does\<close>

text \<open>Either the key was used before and nothing changes, or one entry is appended.\<close>

lemma find_by_key_ok:
  "ledger_ok s \<Longrightarrow> find_by_key s key =
     Inr (Option.bind key (\<lambda>k. List.find (\<lambda>e. le_idempotency_key e = Some k) (ledger s)))"
  by (auto simp: find_by_key_def ledger_ok_def scalar_unique split: option.splits)

definition replayed :: "store \<Rightarrow> reseller \<Rightarrow> CreditLedgerEntryType \<Rightarrow> int \<Rightarrow> ledger_context \<Rightarrow> ledger_entry \<Rightarrow> bool" where
  "replayed s r ty amount c e \<longleftrightarrow>
     e \<in> set (ledger s) \<and> ctx_idempotency_key c \<noteq> None \<and> le_idempotency_key e = ctx_idempotency_key c \<and>
     le_reseller_id e = r_id r \<and> le_entry_type e = ty \<and> le_amount_cents e = amount \<and>
     le_reversal_of_id e = ctx_reversal_of_id c"

lemma append_lockedE:
  assumes "append_locked s r ty amount c neg = Inr (e, t)"
  obtains (replay) "t = s" "replayed s r ty amount c e"
  | (new) "e = new_entry s r ty amount c"
      "t = s\<lparr>ledger := ledger s @ [e],
             resellers := put_row r_id (r\<lparr>cached_balance_cents := cached_balance_cents r + amount\<rparr>) (resellers s)\<rparr>"
      "neg \<or> 0 \<le> cached_balance_cents r + amount" "amount \<noteq> 0"
      "\<And>k x. ctx_idempotency_key c = Some k \<Longrightarrow> x \<in> set (ledger s) \<Longrightarrow> le_idempotency_key x \<noteq> Some k"
      "\<And>k x. ctx_reversal_of_id c = Some k \<Longrightarrow> x \<in> set (ledger s) \<Longrightarrow> le_reversal_of_id x \<noteq> Some k"
proof -
  from assms obtain existing where f: "find_by_key s (ctx_idempotency_key c) = Inr existing"
    by (auto simp: append_locked_def ebind_Inr_iff)
  show thesis
  proof (cases existing)
    case (Some x)
    with f have "x \<in> set (ledger s)" "ctx_idempotency_key c \<noteq> None" "le_idempotency_key x = ctx_idempotency_key c"
      by (auto simp: find_by_key_def scalar_iffs filter_eq_Cons_iff split: option.splits)
    with assms f Some have "t = s" "replayed s r ty amount c e"
      by (auto simp: append_locked_def replayed_def split: if_splits)
    then show thesis by (rule that(1))
  next
    case None
    with assms f show thesis
      by (intro that(2))
         (auto simp: append_locked_def Let_def ebind_Inr_iff insert_entry_def save_reseller_def new_entry_def
               image_iff split: if_splits)
  qed
qed

lemma append_locked_ok:
  assumes ok: "ledger_ok s" and r: "r \<in> set (resellers s)"
    and ap: "append_locked s r ty amount c neg = Inr (e, t)"
    and rev: "case ctx_reversal_of_id c of None \<Rightarrow> ty \<noteq> REVERSAL
      | Some i \<Rightarrow> ty = REVERSAL \<and> (\<exists>x \<in> set (ledger s). le_id x = i \<and> le_entry_type x \<noteq> REVERSAL \<and>
             le_reseller_id x = r_id r \<and> amount = - le_amount_cents x)"
  shows "ledger_ok t"
  using ap
proof (cases rule: append_lockedE)
  case replay
  with ok show ?thesis by simp
next
  case new
  have bal: "cached_balance_cents r = entry_total (r_id r) (ledger s)"
    using ok r by (simp add: ledger_ok_def)
  have "reversal_ok (ledger s @ [e]) e"
    using rev new(1) by (auto simp: reversal_ok_def new_entry_def split: option.splits)
  moreover have "distinct (map le_id (ledger s @ [e]))"
    using ok new(1) by (intro distinct_insert_row) (auto simp: ledger_ok_def new_entry_def)
  moreover have "\<forall>x \<in> set (put_row r_id (r\<lparr>cached_balance_cents := cached_balance_cents r + amount\<rparr>) (resellers s)).
      cached_balance_cents x = entry_total (r_id x) (ledger s @ [e])"
    using ok bal new(1) by (auto simp: ledger_ok_def new_entry_def dest!: put_row_memD)
  ultimately show ?thesis
    using ok new bal
    by (auto simp: ledger_ok_def chain_ok_snoc unique_on_snoc new_entry_def reversal_ok_mono)
qed

lemma lock_reseller_Inr_iff:
  "lock_reseller s i = Inr r \<longleftrightarrow> (\<exists>j. i = Some j \<and> get_reseller s j = Some r)"
  by (auto simp: lock_reseller_def split: option.splits bind_splits)

lemma get_resellerD: "get_reseller s j = Some r \<Longrightarrow> r \<in> set (resellers s) \<and> r_id r = j"
  by (auto simp: get_reseller_def dest: get_row_SomeD)

lemma require_integer_cents_Inr [simp]:
  "require_integer_cents a True = Inr u \<longleftrightarrow> 0 < a" "require_integer_cents a False = Inr u \<longleftrightarrow> a \<noteq> 0"
  by (auto simp: require_integer_cents_def)

lemma credit_Inr_iff:
  "credit s i a c = Inr (e, t) \<longleftrightarrow> 0 < a \<and> (\<exists>j r. i = Some j \<and> get_reseller s j = Some r \<and>
     append_locked s r TOPUP a (c\<lparr>ctx_reversal_of_id := None\<rparr>) False = Inr (e, t))"
  by (auto simp: credit_def ebind_Inr_iff lock_reseller_Inr_iff)

lemma debit_Inr_iff:
  "debit s i a c neg = Inr (e, t) \<longleftrightarrow> 0 < a \<and> (\<exists>j r. i = Some j \<and> get_reseller s j = Some r \<and>
     append_locked s r CHARGE (- a) (c\<lparr>ctx_reversal_of_id := None\<rparr>) neg = Inr (e, t))"
  by (auto simp: debit_def ebind_Inr_iff lock_reseller_Inr_iff)

lemma adjust_Inr_iff:
  "adjust s i a c = Inr (e, t) \<longleftrightarrow> a \<noteq> 0 \<and> (\<exists>j r. i = Some j \<and> get_reseller s j = Some r \<and>
     append_locked s r ADJUSTMENT a (c\<lparr>ctx_invoice_id := None, ctx_payment_id := None, ctx_service_id := None,
       ctx_reversal_of_id := None\<rparr>) False = Inr (e, t))"
  by (auto simp: adjust_def ebind_Inr_iff lock_reseller_Inr_iff)

text \<open>A reversal either finds itself done under the same key, or appends the negated entry.\<close>

lemma reverse_entry_orig:
  assumes "reverse_entry s i n d key m u = Inr (e, t)"
  obtains j r orig where "i = Some j" "get_reseller s j = Some r" "lock_reseller s i = Inr r"
    "orig \<in> set (ledger s)" "le_id orig = n" "le_reseller_id orig = j" "le_entry_type orig \<noteq> REVERSAL"
    "scalar_one_or_none (filter (\<lambda>e. le_id e = n \<and> Some (le_reseller_id e) = i) (ledger s)) = Inr (Some orig)"
proof -
  from assms obtain r found where l: "lock_reseller s i = Inr r"
    and f: "scalar_one_or_none (filter (\<lambda>e. le_id e = n \<and> Some (le_reseller_id e) = i) (ledger s)) = Inr found"
    unfolding reverse_entry_def ebind_Inr_iff by blast
  with assms obtain orig where fo: "found = Some orig" by (cases found) (auto simp: reverse_entry_def)
  with assms l f have ty: "le_entry_type orig \<noteq> REVERSAL" by (auto simp: reverse_entry_def split: if_splits)
  from l obtain j where j: "i = Some j" "get_reseller s j = Some r" by (auto simp: lock_reseller_Inr_iff)
  from f fo have "orig \<in> set (filter (\<lambda>e. le_id e = n \<and> Some (le_reseller_id e) = i) (ledger s))"
    by (simp add: scalar_iffs)
  with j have "orig \<in> set (ledger s)" "le_id orig = n" "le_reseller_id orig = j" by auto
  with j l ty f fo show thesis by (intro that) auto
qed

lemma reverse_entryE:
  assumes "reverse_entry s i n d key m u = Inr (e, t)"
  obtains (again) "t = s" "e \<in> set (ledger s)" "le_reversal_of_id e = Some n" "key \<noteq> None" "le_idempotency_key e = key"
  | (fresh) j r orig c where "i = Some j" "get_reseller s j = Some r" "orig \<in> set (ledger s)" "le_id orig = n"
      "le_reseller_id orig = j" "le_entry_type orig \<noteq> REVERSAL" "ctx_reversal_of_id c = Some n"
      "ctx_idempotency_key c = key"
      "\<And>x. x \<in> set (ledger s) \<Longrightarrow> le_reversal_of_id x \<noteq> Some n"
      "append_locked s r REVERSAL (- le_amount_cents orig) c True = Inr (e, t)"
proof -
  from assms obtain j r orig where j: "i = Some j" "get_reseller s j = Some r" and l: "lock_reseller s i = Inr r"
    and om: "orig \<in> set (ledger s)" "le_id orig = n" "le_reseller_id orig = j" and ty: "le_entry_type orig \<noteq> REVERSAL"
    and o: "scalar_one_or_none (filter (\<lambda>e. le_id e = n \<and> Some (le_reseller_id e) = i) (ledger s)) = Inr (Some orig)"
    by (rule reverse_entry_orig)
  from assms l o ty obtain ex where
    ex: "scalar_one_or_none (filter (\<lambda>e. le_reversal_of_id e = Some (le_id orig)) (ledger s)) = Inr ex"
    by (auto simp: reverse_entry_def ebind_Inr_iff)
  show thesis
  proof (cases ex)
    case (Some x)
    with ex have "x \<in> set (filter (\<lambda>e. le_reversal_of_id e = Some (le_id orig)) (ledger s))"
      by (simp add: scalar_iffs)
    with Some assms l o ty ex om show thesis
      by (intro that(1)) (auto simp: reverse_entry_def split: if_splits)
  next
    case None
    with ex have "\<And>x. x \<in> set (ledger s) \<Longrightarrow> le_reversal_of_id x \<noteq> Some n"
      using om by (simp add: scalar_iffs filter_empty_conv)
    with None assms l o ty ex om j show thesis
      by (intro that(2)) (auto simp: reverse_entry_def)
  qed
qed

lemma ledger_ids_inj: "ledger_ok s \<Longrightarrow> x \<in> set (ledger s) \<Longrightarrow> y \<in> set (ledger s) \<Longrightarrow> le_id x = le_id y \<Longrightarrow> x = y"
  by (auto simp: ledger_ok_def distinct_map inj_on_def)

lemma reverse_entry_result:
  assumes ok: "ledger_ok s" and rv: "reverse_entry s (Some j) n d key m u = Inr (e, t)"
  shows "e \<in> set (ledger t) \<and> le_reversal_of_id e = Some n \<and> le_reseller_id e = j \<and>
    (\<exists>r. get_reseller t j = Some r) \<and> set (ledger s) \<subseteq> set (ledger t)"
  using rv
proof (cases rule: reverse_entryE)
  case again
  then have "reversal_ok (ledger s) e" using ok by (auto simp: ledger_ok_def)
  with again obtain x where "x \<in> set (ledger s)" "le_id x = n" "le_reseller_id x = le_reseller_id e"
    by (auto simp: reversal_ok_def)
  moreover from rv obtain r y where "get_reseller s j = Some r" "y \<in> set (ledger s)" "le_id y = n" "le_reseller_id y = j"
    by (rule reverse_entry_orig) auto
  ultimately show ?thesis using again ledger_ids_inj [OF ok] by force
next
  case (fresh j' r orig c)
  from fresh(10) show ?thesis
    using fresh get_resellerD [OF fresh(2)]
    by (cases rule: append_lockedE) (auto simp: replayed_def new_entry_def get_reseller_def get_put_row)
qed

section \<open>Sequences of ledger operations\<close>

datatype ledger_op =
    Credit "int option" int ledger_context
  | Debit "int option" int ledger_context bool
  | Adjust "int option" int ledger_context
  | Reverse "int option" int "string option" "string option" dict "int option"

fun ledger_exec :: "store \<Rightarrow> ledger_op \<Rightarrow> (ledger_entry \<times> store) res" where
  "ledger_exec s (Credit i a c) = credit s i a c"
| "ledger_exec s (Debit i a c neg) = debit s i a c neg"
| "ledger_exec s (Adjust i a c) = adjust s i a c"
| "ledger_exec s (Reverse i n d key m u) = reverse_entry s i n d key m u"

text \<open>A rejected operation raises and its transaction is rolled back by the caller.\<close>

inductive ledger_step :: "store \<Rightarrow> ledger_op \<Rightarrow> store \<Rightarrow> bool" where
  accepted: "ledger_exec s x = Inr (e, t) \<Longrightarrow> ledger_step s x t"
| rejected: "ledger_exec s x = Inl err \<Longrightarrow> ledger_step s x s"

definition ledger_start :: "store \<Rightarrow> bool" where
  "ledger_start s \<longleftrightarrow> distinct (map r_id (resellers s)) \<and> ledger s = [] \<and>
     (\<forall>r \<in> set (resellers s). cached_balance_cents r = 0)"

text \<open>Every accepted operation is one append for a row of the table, or a replay.\<close>

definition admissible :: "store \<Rightarrow> reseller \<Rightarrow> CreditLedgerEntryType \<Rightarrow> int \<Rightarrow> ledger_context \<Rightarrow> bool" where
  "admissible s r ty a c \<longleftrightarrow> r \<in> set (resellers s) \<and>
     (case ctx_reversal_of_id c of None \<Rightarrow> ty \<noteq> REVERSAL
      | Some i \<Rightarrow> ty = REVERSAL \<and> (\<exists>x \<in> set (ledger s). le_id x = i \<and> le_entry_type x \<noteq> REVERSAL \<and>
           le_reseller_id x = r_id r \<and> a = - le_amount_cents x))"

fun may_overdraw :: "ledger_op \<Rightarrow> bool" where
  "may_overdraw (Debit _ _ _ neg) = neg"
| "may_overdraw (Reverse _ _ _ _ _ _) = True"
| "may_overdraw _ = False"

lemma ledger_exec_append:
  assumes "ledger_exec s x = Inr (e, t)"
  obtains "t = s" "e \<in> set (ledger s)"
  | r ty a c where "admissible s r ty a c" "append_locked s r ty a c (may_overdraw x) = Inr (e, t)"
proof (cases x)
  case (Credit i a c)
  with assms show thesis
    by (auto simp: credit_Inr_iff admissible_def dest!: get_resellerD
          intro!: that(2) [of _ TOPUP a "c\<lparr>ctx_reversal_of_id := None\<rparr>"])
next
  case (Debit i a c neg)
  with assms show thesis
    by (auto simp: debit_Inr_iff admissible_def dest!: get_resellerD
          intro!: that(2) [of _ CHARGE "- a" "c\<lparr>ctx_reversal_of_id := None\<rparr>"])
next
  case (Adjust i a c)
  with assms show thesis
    by (auto simp: adjust_Inr_iff admissible_def dest!: get_resellerD
          intro!: that(2) [of _ ADJUSTMENT a "c\<lparr>ctx_invoice_id := None, ctx_payment_id := None,
            ctx_service_id := None, ctx_reversal_of_id := None\<rparr>"])
next
  case (Reverse i n d k m u)
  with assms have "reverse_entry s i n d k m u = Inr (e, t)" by simp
  then show thesis
  proof (cases rule: reverse_entryE)
    case again
    then show thesis by (intro that(1))
  next
    case (fresh j r orig c)
    moreover have "admissible s r REVERSAL (- le_amount_cents orig) c"
      using fresh get_resellerD [OF fresh(2)] by (auto simp: admissible_def)
    ultimately show thesis using Reverse by (intro that(2) [of r REVERSAL _ c]) simp_all
  qed
qed

lemma ledger_exec_ok: "ledger_ok s \<Longrightarrow> ledger_exec s x = Inr (e, t) \<Longrightarrow> ledger_ok t"
  by (erule ledger_exec_append) (auto simp: admissible_def intro: append_locked_ok)

interpretation ledger_sys: transition_system ledger_start ledger_step ledger_ok
proof
  show "ledger_start s \<Longrightarrow> ledger_ok s" for s
    by (simp add: ledger_start_def ledger_ok_def chain_ok_def)
next
  show "ledger_ok s \<Longrightarrow> ledger_step s x t \<Longrightarrow> ledger_ok t" for s x t
    by (auto elim!: ledger_step.cases dest: ledger_exec_ok)
qed

section \<open>Replaying a keyed operation\<close>

fun with_key :: "string \<Rightarrow> ledger_op \<Rightarrow> ledger_op" where
  "with_key k (Credit i a c) = Credit i a (c\<lparr>ctx_idempotency_key := Some k\<rparr>)"
| "with_key k (Debit i a c neg) = Debit i a (c\<lparr>ctx_idempotency_key := Some k\<rparr>) neg"
| "with_key k (Adjust i a c) = Adjust i a (c\<lparr>ctx_idempotency_key := Some k\<rparr>)"
| "with_key k (Reverse i n d k' m u) = Reverse i n d (Some k) m u"

lemma append_locked_again:
  assumes "ledger_ok t" "replayed t r ty a c e"
  shows "append_locked t r ty a c neg = Inr (e, t)"
proof -
  obtain k where "ctx_idempotency_key c = Some k" "le_idempotency_key e = Some k" "e \<in> set (ledger t)"
    using assms(2) by (auto simp: replayed_def)
  moreover from this have "filter (\<lambda>x. le_idempotency_key x = Some k) (ledger t) = [e]"
    using assms(1) by (intro unique_on_filter_single) (auto simp: ledger_ok_def)
  ultimately show ?thesis using assms(2)
    by (simp add: append_locked_def find_by_key_def replayed_def)
qed

lemma append_locked_result:
  assumes "append_locked s r ty a c neg = Inr (e, t)" "get_reseller s j = Some r" "ctx_idempotency_key c \<noteq> None"
  obtains r' where "get_reseller t j = Some r'" "replayed t r' ty a c e"
  using assms(1)
proof (cases rule: append_lockedE)
  case replay
  then show thesis using assms(2) by (intro that [of r]) simp_all
next
  case new
  have "r_id r = j" using get_resellerD [OF assms(2)] by simp
  then show thesis
    using new assms(2,3)
    by (intro that [of "r\<lparr>cached_balance_cents := cached_balance_cents r + a\<rparr>"])
       (simp_all add: get_reseller_def get_put_row replayed_def new_entry_def)
qed

lemma append_locked_replay:
  assumes "ledger_ok t" "append_locked s r ty a c neg = Inr (e, t)" "get_reseller s j = Some r"
    "ctx_idempotency_key c \<noteq> None"
  shows "\<exists>r'. get_reseller t j = Some r' \<and> append_locked t r' ty a c neg = Inr (e, t)"
  using append_locked_result [OF assms(2-4)] append_locked_again [OF assms(1)] by metis

lemma reverse_entry_replay:
  assumes ok: "ledger_ok t" and rv: "reverse_entry s i n d (Some k) m u = Inr (e, t)"
  shows "reverse_entry t i n d (Some k) m u = Inr (e, t)"
  using rv
proof (cases rule: reverse_entryE)
  case again
  with rv show ?thesis by simp
next
  case (fresh j r orig c)
  from fresh(10) have new: "e = new_entry s r REVERSAL (- le_amount_cents orig) c" "ledger t = ledger s @ [e]"
    using fresh(7,9) by (cases rule: append_lockedE; auto simp: replayed_def)+
  have orig: "orig \<in> set (ledger t)" "e \<in> set (ledger t)" using fresh(3) new by auto
  obtain r' where r': "get_reseller t j = Some r'"
    using append_locked_result [OF fresh(10) fresh(2)] fresh(8) by auto
  have "filter (\<lambda>x. le_id x = n \<and> Some (le_reseller_id x) = i) (ledger t) = [orig]"
  proof -
    have "unique_on (\<lambda>x. Some (le_id x)) (ledger t)"
      using ok by (simp add: ledger_ok_def unique_on_def comp_def)
    then have "filter (\<lambda>x. Some (le_id x) = Some n) (ledger t) = [orig]"
      using orig fresh(4) by (intro unique_on_filter_single) auto
    then have "filter (\<lambda>x. Some (le_reseller_id x) = i) (filter (\<lambda>x. le_id x = n) (ledger t)) = [orig]"
      using fresh(1,5) by simp
    then show ?thesis by (simp add: conj_commute)
  qed
  moreover have "filter (\<lambda>x. le_reversal_of_id x = Some (le_id orig)) (ledger t) = [e]"
    using ok orig new(1) fresh(4,7) by (intro unique_on_filter_single) (auto simp: ledger_ok_def new_entry_def)
  moreover have "le_idempotency_key e = Some k" using new(1) fresh(8) by (simp add: new_entry_def)
  ultimately show ?thesis
    using fresh(1,6) r' by (simp add: reverse_entry_def lock_reseller_def)
qed

lemma ledger_exec_replay:
  assumes "ledger_ok s" "ledger_exec s (with_key k x) = Inr (e, t)"
  shows "ledger_exec t (with_key k x) = Inr (e, t)"
proof -
  have ok: "ledger_ok t" using assms by (rule ledger_exec_ok)
  note again = append_locked_replay [OF ok]
  show ?thesis
  proof (cases x)
    case (Credit i a c)
    with assms(2) obtain j r where j: "i = Some j" "get_reseller s j = Some r" and
      ap: "append_locked s r TOPUP a (c\<lparr>ctx_idempotency_key := Some k, ctx_reversal_of_id := None\<rparr>) False = Inr (e, t)" by (auto simp: credit_Inr_iff)
    from again [OF ap j(2)] assms(2) j(1) Credit show ?thesis by (auto simp: credit_Inr_iff)
  next
    case (Debit i a c neg)
    with assms(2) obtain j r where j: "i = Some j" "get_reseller s j = Some r" and
      ap: "append_locked s r CHARGE (- a) (c\<lparr>ctx_idempotency_key := Some k, ctx_reversal_of_id := None\<rparr>) neg = Inr (e, t)" by (auto simp: debit_Inr_iff)
    from again [OF ap j(2)] assms(2) j(1) Debit show ?thesis by (auto simp: debit_Inr_iff)
  next
    case (Adjust i a c)
    with assms(2) obtain j r where j: "i = Some j" "get_reseller s j = Some r" and
      ap: "append_locked s r ADJUSTMENT a (c\<lparr>ctx_idempotency_key := Some k, ctx_invoice_id := None, ctx_payment_id := None,
        ctx_service_id := None, ctx_reversal_of_id := None\<rparr>) False = Inr (e, t)" by (auto simp: adjust_Inr_iff)
    from again [OF ap j(2)] assms(2) j(1) Adjust show ?thesis by (auto simp: adjust_Inr_iff)
  next
    case (Reverse i n d k' m u)
    with assms(2) show ?thesis by (auto intro: reverse_entry_replay [OF ok])
  qed
qed

interpretation keyed_op: idempotent_operation
  "\<lambda>s. ledger_exec s (with_key k x)" "\<lambda>s e. ledger_exec s (with_key k x) = Inr (e, s)" ledger_ok for k x
  by unfold_locales (auto intro: ledger_exec_replay ledger_exec_ok)

section \<open>Concrete runs\<close>

definition ledger_apply :: "store \<Rightarrow> ledger_op \<Rightarrow> store" where
  "ledger_apply s x = (case ledger_exec s x of Inl _ \<Rightarrow> s | Inr (_, t) \<Rightarrow> t)"

lemma ledger_step_apply: "ledger_step s x (ledger_apply s x)"
  by (auto simp: ledger_apply_def intro: ledger_step.intros split: sum.splits)

lemma runs_ledger_apply: "runs ledger_step s ops (foldl ledger_apply s ops)"
  by (induction ops arbitrary: s) (auto intro: ledger_step_apply)

definition sample_ledger :: store where
  "sample_ledger = empty_store\<lparr>resellers := [sample_reseller 1 0]\<rparr>"

definition sample_ops :: "ledger_op list" where
  "sample_ops = [Credit (Some 1) 500 no_context,
     Debit (Some 1) 200 (no_context\<lparr>ctx_idempotency_key := Some ''k''\<rparr>) False,
     Debit (Some 1) 900 no_context False,
     Reverse (Some 1) 2 None None [] None]"

lemma sample_ledger_start: "ledger_start sample_ledger"
  by (simp add: ledger_start_def sample_ledger_def sample_reseller_def empty_store_def)

section \<open>Properties\<close>

text \<open>
  C1: from empty ledgers and zero balances, after any sequence of credits, debits, adjustments and
  reversals, accepted or rejected, the cached balance of every reseller is the sum of its ledger
  entries, every entry's recorded balance is the running sum up to and including it, and no
  idempotency key and no reversed entry occurs twice.
\<close>

theorem ledger_balance_is_sum:
  assumes "ledger_start s" "runs ledger_step s ops t"
  shows "(\<forall>r \<in> set (resellers t). cached_balance_cents r = entry_total (r_id r) (ledger t)) \<and>
    (\<forall>i < length (ledger t). le_balance_after_cents (ledger t ! i) =
       entry_total (le_reseller_id (ledger t ! i)) (take (Suc i) (ledger t))) \<and>
    unique_on le_idempotency_key (ledger t) \<and> unique_on le_reversal_of_id (ledger t)"
  using ledger_sys.reachable_inv [OF assms(2,1)] by (simp add: ledger_ok_def chain_ok_def)

theorem ledger_balance_is_sum_witness:
  "ledger_start sample_ledger \<and> runs ledger_step sample_ledger sample_ops (foldl ledger_apply sample_ledger sample_ops) \<and>
   map cached_balance_cents (resellers (foldl ledger_apply sample_ledger sample_ops)) = [500] \<and>
   map le_balance_after_cents (ledger (foldl ledger_apply sample_ledger sample_ops)) = [500, 300, 500] \<and>
   unique_on le_idempotency_key (ledger (foldl ledger_apply sample_ledger sample_ops))"
proof -
  have "map cached_balance_cents (resellers (foldl ledger_apply sample_ledger sample_ops)) = [500]"
    "map le_balance_after_cents (ledger (foldl ledger_apply sample_ledger sample_ops)) = [500, 300, 500]"
    by code_simp+
  with ledger_balance_is_sum [OF sample_ledger_start runs_ledger_apply, of sample_ops] show ?thesis
    using sample_ledger_start runs_ledger_apply by blast
qed

lemma ledger_exec_prefix: "ledger_exec s x = Inr (e, t) \<Longrightarrow> \<exists>es. ledger t = ledger s @ es"
  by (erule ledger_exec_append) (auto elim!: append_lockedE)

text \<open>
  The ledger is append-only: whatever sequence of operations runs, the entries present before
  stand unchanged at the front of the ledger afterwards.
\<close>

theorem ledger_append_only:
  assumes "runs ledger_step s ops t"
  shows "\<exists>es. ledger t = ledger s @ es"
  using assms
proof (induction rule: runs.induct)
  case (runs_Cons s x t ops u)
  then obtain es where "ledger u = ledger t @ es" by blast
  moreover from runs_Cons(1) obtain es' where "ledger t = ledger s @ es'"
    by cases (auto dest: ledger_exec_prefix)
  ultimately show ?case by simp
qed simp

theorem ledger_append_only_witness:
  "\<exists>es. ledger (foldl ledger_apply sample_ledger sample_ops) = ledger sample_ledger @ es \<and> length es = 3"
proof -
  have "length (ledger (foldl ledger_apply sample_ledger sample_ops)) = 3" by code_simp
  then show ?thesis
    using ledger_append_only [OF runs_ledger_apply [of sample_ledger sample_ops]]
    by (auto simp: sample_ledger_def empty_store_def)
qed

lemma ledger_exec_nonneg:
  assumes "ledger_exec s x = Inr (e, t)" "\<not> may_overdraw x" "\<forall>r \<in> set (resellers s). 0 \<le> cached_balance_cents r"
  shows "\<forall>r \<in> set (resellers t). 0 \<le> cached_balance_cents r"
  using assms(1)
proof (cases rule: ledger_exec_append)
  case 1
  with assms show ?thesis by simp
next
  case (2 r ty a c)
  from 2(2) assms(2,3) show ?thesis
    by (cases rule: append_lockedE) (auto dest: set_put_row)
qed

text \<open>
  C18: credits, adjustments and debits that do not ask for a negative balance never overdraw: if all
  balances are non-negative before such a sequence, they are non-negative after it.
\<close>

theorem ledger_no_overdraft:
  assumes "runs ledger_step s ops t" "list_all (\<lambda>x. \<not> may_overdraw x) ops"
    "\<forall>r \<in> set (resellers s). 0 \<le> cached_balance_cents r"
  shows "\<forall>r \<in> set (resellers t). 0 \<le> cached_balance_cents r"
  using assms
proof (induction rule: runs.induct)
  case (runs_Cons s x t ops u)
  from runs_Cons(1,4,5) have "\<forall>r \<in> set (resellers t). 0 \<le> cached_balance_cents r"
    by cases (auto dest: ledger_exec_nonneg)
  with runs_Cons show ?case by simp
qed simp

theorem ledger_no_overdraft_witness:
  "list_all (\<lambda>x. \<not> may_overdraw x) (take 3 sample_ops) \<and>
   map cached_balance_cents (resellers (foldl ledger_apply sample_ledger (take 3 sample_ops))) = [300] \<and>
   list_all (\<lambda>r. 0 \<le> cached_balance_cents r) (resellers (foldl ledger_apply sample_ledger (take 3 sample_ops)))"
proof -
  have "list_all (\<lambda>x. \<not> may_overdraw x) (take 3 sample_ops)" by (simp add: sample_ops_def)
  moreover have "map cached_balance_cents (resellers (foldl ledger_apply sample_ledger (take 3 sample_ops))) = [300]"
    by code_simp
  moreover have "\<forall>r \<in> set (resellers sample_ledger). 0 \<le> cached_balance_cents r"
    by (simp add: sample_ledger_def sample_reseller_def)
  ultimately show ?thesis using ledger_no_overdraft [OF runs_ledger_apply] unfolding list_all_iff by blast
qed

definition key_is_new :: "store \<Rightarrow> ledger_context \<Rightarrow> bool" where
  "key_is_new s c \<longleftrightarrow>
     (\<forall>e \<in> set (ledger s). ctx_idempotency_key c \<noteq> None \<longrightarrow> le_idempotency_key e \<noteq> ctx_idempotency_key c)"

lemma find_by_key_new: "key_is_new s c \<Longrightarrow> find_by_key s (ctx_idempotency_key c) = Inr None"
  by (auto simp: find_by_key_def key_is_new_def filter_empty_conv scalar_iffs split: option.splits)

lemma append_locked_new:
  assumes "key_is_new s c" "ctx_reversal_of_id c = None" "amount \<noteq> 0" "neg \<or> 0 \<le> cached_balance_cents r + amount"
  shows "append_locked s r ty amount c neg =
    Inr (new_entry s r ty amount c, s\<lparr>ledger := ledger s @ [new_entry s r ty amount c],
      resellers := put_row r_id (r\<lparr>cached_balance_cents := cached_balance_cents r + amount\<rparr>) (resellers s)\<rparr>)"
  using assms(2-4) assms(1) [unfolded key_is_new_def]
  unfolding append_locked_def find_by_key_new [OF assms(1)]
  by (force simp: insert_entry_def new_entry_def save_reseller_def Let_def)

lemma debit_cases:
  assumes "get_reseller s j = Some r" "key_is_new s c"
  shows "debit s (Some j) a c neg =
    (if a \<le> 0 then Inl (CreditLedgerError ''amount_cents must be greater than zero'')
     else if cached_balance_cents r < a \<and> \<not> neg then Inl (InsufficientCreditError j (cached_balance_cents r) a)
     else (let e = new_entry s r CHARGE (- a) (c\<lparr>ctx_reversal_of_id := None\<rparr>) in
       Inr (e, s\<lparr>ledger := ledger s @ [e],
                resellers := put_row r_id (r\<lparr>cached_balance_cents := cached_balance_cents r - a\<rparr>) (resellers s)\<rparr>)))"
proof -
  let ?c = "c\<lparr>ctx_reversal_of_id := None\<rparr>"
  have new: "key_is_new s ?c" using assms(2) by (simp add: key_is_new_def)
  have l: "lock_reseller s (Some j) = Inr r" "r_id r = j"
    using assms(1) get_resellerD by (auto simp: lock_reseller_Inr_iff)
  consider "a \<le> 0" | "0 < a" "cached_balance_cents r < a \<and> \<not> neg" | "0 < a" "\<not> (cached_balance_cents r < a \<and> \<not> neg)"
    by linarith
  then show ?thesis
  proof cases
    case 1
    then show ?thesis by (simp add: debit_def require_integer_cents_def)
  next
    case 2
    then show ?thesis
      using find_by_key_new [OF new] l by (simp add: debit_def require_integer_cents_def append_locked_def)
  next
    case 3
    then have "append_locked s r CHARGE (- a) ?c neg = Inr (new_entry s r CHARGE (- a) ?c,
        s\<lparr>ledger := ledger s @ [new_entry s r CHARGE (- a) ?c],
          resellers := put_row r_id (r\<lparr>cached_balance_cents := cached_balance_cents r + (- a)\<rparr>) (resellers s)\<rparr>)"
      by (intro append_locked_new new) auto
    with 3 l show ?thesis by (simp add: debit_def require_integer_cents_def Let_def)
  qed
qed

text \<open>
  What a debit of a stored reseller does when its key is new, on every branch: a non-positive
  amount is refused; an amount above the balance is refused with the shortfall data unless a
  negative balance is allowed; otherwise exactly one charge entry of the negated amount is appended
  and only this reseller's balance changes, by exactly the amount.
\<close>

theorem debit_outcome:
  assumes "get_reseller s j = Some r" "key_is_new s c"
  shows "debit s (Some j) a c neg =
    (if a \<le> 0 then Inl (CreditLedgerError ''amount_cents must be greater than zero'')
     else if cached_balance_cents r < a \<and> \<not> neg then Inl (InsufficientCreditError j (cached_balance_cents r) a)
     else (let e = new_entry s r CHARGE (- a) (c\<lparr>ctx_reversal_of_id := None\<rparr>) in
       Inr (e, s\<lparr>ledger := ledger s @ [e],
                resellers := put_row r_id (r\<lparr>cached_balance_cents := cached_balance_cents r - a\<rparr>) (resellers s)\<rparr>)))"
  using assms by (rule debit_cases)

theorem debit_outcome_witness:
  "debit (sample_ledger\<lparr>resellers := [sample_reseller 1 500]\<rparr>) (Some 1) 900 no_context False =
     Inl (InsufficientCreditError 1 500 900)"
  using debit_outcome [of "sample_ledger\<lparr>resellers := [sample_reseller 1 500]\<rparr>" 1 "sample_reseller 1 500"
      no_context 900 False]
  by (simp add: get_reseller_def key_is_new_def sample_ledger_def sample_reseller_def empty_store_def)

text \<open>
  C17: an operation carrying an idempotency key that succeeded can be replayed any number of times:
  the ledger and the balances stay as the first run left them.
\<close>

theorem ledger_replay_is_harmless:
  assumes "ledger_ok s" "ledger_exec s (with_key k x) = Inr (e, t)"
  shows "replay (\<lambda>u. ledger_exec u (with_key k x)) (Suc n) s = Inr t"
  using assms by (rule keyed_op.replay_once)

theorem ledger_replay_is_harmless_witness:
  "ledger_ok sample_ledger \<and>
   replay (\<lambda>u. ledger_exec u (with_key ''topup:7'' (Credit (Some 1) 500 no_context))) 4 sample_ledger =
     Inr (ledger_apply sample_ledger (with_key ''topup:7'' (Credit (Some 1) 500 no_context)))"
proof -
  have ok: "ledger_ok sample_ledger" by (rule ledger_sys.init_inv [OF sample_ledger_start])
  have "\<not> isl (ledger_exec sample_ledger (with_key ''topup:7'' (Credit (Some 1) 500 no_context)))"
    by code_simp
  then obtain e t where et: "ledger_exec sample_ledger (with_key ''topup:7'' (Credit (Some 1) 500 no_context)) = Inr (e, t)"
    by (cases "ledger_exec sample_ledger (with_key ''topup:7'' (Credit (Some 1) 500 no_context))") auto
  with ok ledger_replay_is_harmless [OF ok et, of 3] show ?thesis
    by (simp add: ledger_apply_def numeral_eq_Suc)
qed

lemma filter_by_id:
  assumes "ledger_ok t" "x \<in> set (ledger t)"
  shows "filter (\<lambda>e. le_id e = le_id x \<and> Some (le_reseller_id e) = Some (le_reseller_id x)) (ledger t) = [x]"
proof -
  have "unique_on (\<lambda>e. Some (le_id e)) (ledger t)"
    using assms(1) by (simp add: ledger_ok_def unique_on_def comp_def)
  then have "filter (\<lambda>e. le_id e = le_id x) (ledger t) = [x]"
    using unique_on_filter_single [of "\<lambda>e. Some (le_id e)" "ledger t" x "le_id x"] assms(2) by simp
  then have "filter (\<lambda>e. Some (le_reseller_id e) = Some (le_reseller_id x)) (filter (\<lambda>e. le_id e = le_id x) (ledger t)) = [x]"
    by simp
  then show ?thesis by (simp add: conj_commute)
qed

text \<open>
  C19: a successful reversal takes back exactly the original amount, once: the entry it returns
  negates the original, a second reversal under another key is refused as already reversed, and a
  reversal of the reversal is refused.
\<close>

theorem reversal_is_exact_and_final:
  assumes ok: "ledger_ok s" and rv: "reverse_entry s (Some j) n d key m u = Inr (e, t)"
  shows "(\<exists>orig \<in> set (ledger s). le_id orig = n \<and> le_amount_cents e = - le_amount_cents orig) \<and>
    (\<forall>key'. key' = None \<or> key' \<noteq> le_idempotency_key e \<longrightarrow>
       reverse_entry t (Some j) n d' key' m' u' = Inl (LedgerEntryAlreadyReversedError n)) \<and>
    reverse_entry t (Some j) (le_id e) d' key' m' u' = Inl (CreditLedgerError ''A reversal entry cannot itself be reversed'')"
proof -
  have okt: "ledger_ok t" using ledger_exec_ok [OF ok, of "Reverse (Some j) n d key m u"] rv by simp
  from reverse_entry_result [OF ok rv] obtain r where e: "e \<in> set (ledger t)" "le_reversal_of_id e = Some n"
    and jr: "le_reseller_id e = j" and r: "get_reseller t j = Some r" and mem: "set (ledger s) \<subseteq> set (ledger t)"
    by blast
  have "reversal_ok (ledger t) e" using okt e by (auto simp: ledger_ok_def)
  with e obtain x where x: "x \<in> set (ledger t)" "le_id x = n" "le_entry_type x \<noteq> REVERSAL" "le_reseller_id x = j"
    "le_amount_cents e = - le_amount_cents x" and ty: "le_entry_type e = REVERSAL"
    using jr by (auto simp: reversal_ok_def)
  have found: "filter (\<lambda>e. le_id e = n \<and> Some (le_reseller_id e) = Some j) (ledger t) = [x]"
    using filter_by_id [OF okt x(1)] x(2,4) by simp
  have rev: "filter (\<lambda>e'. le_reversal_of_id e' = Some (le_id x)) (ledger t) = [e]"
    using okt e x(2) by (intro unique_on_filter_single) (auto simp: ledger_ok_def)
  from rv obtain y where y: "y \<in> set (ledger s)" "le_id y = n" by (rule reverse_entry_orig)
  have "y = x" using y x(1,2) mem by (intro ledger_ids_inj [OF okt]) auto
  then have "\<exists>orig \<in> set (ledger s). le_id orig = n \<and> le_amount_cents e = - le_amount_cents orig"
    using y x(5) by auto
  moreover have "reverse_entry t (Some j) n d' key'' m' u' = Inl (LedgerEntryAlreadyReversedError n)"
    if "key'' = None \<or> key'' \<noteq> le_idempotency_key e" for key''
    unfolding reverse_entry_def found using that x(3) r rev by (auto simp: lock_reseller_def)
  moreover have "reverse_entry t (Some j) (le_id e) d' key' m' u' = Inl (CreditLedgerError ''A reversal entry cannot itself be reversed'')"
    using filter_by_id [OF okt e(1)] jr ty r by (simp add: reverse_entry_def lock_reseller_def)
  ultimately show ?thesis by blast
qed

theorem reversal_is_exact_and_final_witness:
  "\<exists>e t. reverse_entry (foldl ledger_apply sample_ledger (take 2 sample_ops)) (Some 1) 2 None None [] None = Inr (e, t) \<and>
     le_amount_cents e = 200 \<and>
     reverse_entry t (Some 1) 2 None (Some ''x'') [] None = Inl (LedgerEntryAlreadyReversedError 2)"
proof -
  let ?s = "foldl ledger_apply sample_ledger (take 2 sample_ops)"
  have ok: "ledger_ok ?s" by (rule ledger_sys.reachable_inv [OF runs_ledger_apply sample_ledger_start])
  have "map_option (\<lambda>(e, t). (le_amount_cents e, le_idempotency_key e))
      (case reverse_entry ?s (Some 1) 2 None None [] None of Inl _ \<Rightarrow> None | Inr x \<Rightarrow> Some x) = Some (200, None)"
    by code_simp
  then obtain e t where rv: "reverse_entry ?s (Some 1) 2 None None [] None = Inr (e, t)"
    and e: "le_amount_cents e = 200" "le_idempotency_key e = None"
    by (auto split: sum.splits)
  from reversal_is_exact_and_final [OF ok rv, of None "[]" None None] e rv show ?thesis by auto
qed

end
