(* ===== verification/Invoices.thy ===== *)
theory Invoices
  imports Credit_Ledger
begin

text \<open>
  Invoices, \<open>app/services/invoice_service.py\<close>: number allocation from a named sequence (the SQLite
  and the row-lock path), creation with its checks, the sum allocated by succeeded payments, and
  settlement. The theorems: numbers are never reused and grow, both allocation paths agree, and an
  invoice is paid exactly when succeeded payments cover it.
\<close>

section \<open>Numbers\<close>

datatype dialect = Sqlite | Other_Dialect

definition FIRST_NUMBER :: int where
  "FIRST_NUMBER = 100001"

definition require_positive_cents :: "int \<Rightarrow> unit res" where
  "require_positive_cents amount_cents =
     raise_if (amount_cents \<le> 0) (InvoiceError ''amount_cents must be a positive integer number of cents'')"

text \<open>\<open>func.max\<close> over an empty table is null.\<close>

definition largest_number :: "store \<Rightarrow> int option" where
  "largest_number s = (case map inv_number (invoices s) of [] \<Rightarrow> None | n # ns \<Rightarrow> Some (fold max ns n))"

definition initial_next_value :: "store \<Rightarrow> int" where
  "initial_next_value s =
     max FIRST_NUMBER ((case largest_number s of None \<Rightarrow> 0 | Some n \<Rightarrow> n) + 1)"

text \<open>
  SQLite: insert the row unless it exists, then increment and return the old value. Otherwise: lock
  the row, create it if missing, read and increment.
\<close>

definition allocate_number :: "dialect \<Rightarrow> store \<Rightarrow> (int \<times> store) res" where
  "allocate_number dia s =
     (case dia of
        Sqlite \<Rightarrow>
          (let s1 = (case invoice_sequence s of
                 None \<Rightarrow> s\<lparr>invoice_sequence := Some (initial_next_value s)\<rparr> | Some _ \<Rightarrow> s)
           in case invoice_sequence s1 of
                None \<Rightarrow> Inl (InvoiceError ''Could not allocate an invoice number'')
              | Some v \<Rightarrow> Inr ((v + 1) - 1, s1\<lparr>invoice_sequence := Some (v + 1)\<rparr>))
      | Other_Dialect \<Rightarrow>
          (let s1 = (case invoice_sequence s of
                 None \<Rightarrow> s\<lparr>invoice_sequence := Some (initial_next_value s)\<rparr> | Some _ \<Rightarrow> s);
               allocated = the (invoice_sequence s1)
           in Inr (allocated, s1\<lparr>invoice_sequence := Some (allocated + 1)\<rparr>)))"

section \<open>Creation\<close>

definition insert_invoice :: "store \<Rightarrow> invoice \<Rightarrow> store res" where
  "insert_invoice s i =
     (if inv_amount_cents i \<le> 0 \<or> inv_number i \<in> inv_number ` set (invoices s) then Inl IntegrityError
      else Inr (s\<lparr>invoices := invoices s @ [i]\<rparr>))"

record invoice_request =
  iq_reseller_id :: "int option"
  iq_purpose :: InvoicePurpose
  iq_amount_cents :: int
  iq_description :: "string option"
  iq_service_id :: "int option"
  iq_due_at :: "instant option"
  iq_currency :: string
  iq_billing_account_id :: "int option"
  iq_order_id :: "int option"

definition create_invoice :: "dialect \<Rightarrow> store \<Rightarrow> invoice_request \<Rightarrow> (invoice \<times> store) res" where
  "create_invoice dia s q =
     ebind (require_positive_cents (iq_amount_cents q)) (\<lambda>_.
     let currency = upper (strip (iq_currency q)) in
     ebind (raise_if (length currency \<noteq> 3 \<or> \<not> isalpha currency) (InvoiceError ''currency must be a three-letter code'')) (\<lambda>_.
     ebind (raise_if (iq_reseller_id q = None \<and> iq_billing_account_id q = None)
              (InvoiceError ''reseller_id or billing_account_id is required'')) (\<lambda>_.
     ebind (allocate_number dia s) (\<lambda>(number, s1).
     let i = \<lparr>inv_id = fresh_id inv_id (invoices s1), inv_number = number, inv_reseller_id = iq_reseller_id q,
              inv_service_id = iq_service_id q, inv_billing_account_id = iq_billing_account_id q,
              inv_order_id = iq_order_id q, inv_purpose = iq_purpose q, inv_status = OPEN,
              inv_amount_cents = iq_amount_cents q, inv_currency = currency,
              inv_description = iq_description q, inv_due_at = iq_due_at q, inv_paid_at = None\<rparr> in
     ebind (insert_invoice s1 i) (\<lambda>s2. Inr (i, s2))))))"

definition create_topup :: "dialect \<Rightarrow> instant \<Rightarrow> store \<Rightarrow> int \<Rightarrow> int \<Rightarrow> (invoice \<times> store) res" where
  "create_topup dia now s reseller_id amount_cents =
     create_invoice dia s \<lparr>iq_reseller_id = Some reseller_id, iq_purpose = CREDIT_TOPUP,
       iq_amount_cents = amount_cents, iq_description = Some ''Reseller account credit top-up'',
       iq_service_id = None, iq_due_at = Some now, iq_currency = ''USD'',
       iq_billing_account_id = None, iq_order_id = None\<rparr>"

definition create_deploy ::
  "dialect \<Rightarrow> instant \<Rightarrow> store \<Rightarrow> int \<Rightarrow> int \<Rightarrow> string \<Rightarrow> int option \<Rightarrow> string \<Rightarrow> (invoice \<times> store) res" where
  "create_deploy dia now s reseller_id amount_cents description service_id currency =
     create_invoice dia s \<lparr>iq_reseller_id = Some reseller_id, iq_purpose = DEPLOY_CHARGE,
       iq_amount_cents = amount_cents, iq_description = Some description,
       iq_service_id = service_id, iq_due_at = Some now, iq_currency = currency,
       iq_billing_account_id = None, iq_order_id = None\<rparr>"

definition create_cycle ::
  "dialect \<Rightarrow> instant \<Rightarrow> store \<Rightarrow> int option \<Rightarrow> int \<Rightarrow> int \<Rightarrow> string \<Rightarrow> instant option \<Rightarrow> string \<Rightarrow> (invoice \<times> store) res" where
  "create_cycle dia now s reseller_id service_id amount_cents description due_at currency =
     create_invoice dia s \<lparr>iq_reseller_id = reseller_id, iq_purpose = CYCLE_CHARGE,
       iq_amount_cents = amount_cents, iq_description = Some description,
       iq_service_id = Some service_id, iq_due_at = Some (case due_at of None \<Rightarrow> now | Some d \<Rightarrow> d),
       iq_currency = currency, iq_billing_account_id = None, iq_order_id = None\<rparr>"

section \<open>Allocation and settlement\<close>

definition allocated_cents :: "store \<Rightarrow> int \<Rightarrow> int" where
  "allocated_cents s invoice_id =
     sum_list (map pay_amount_cents
       (filter (\<lambda>p. pay_invoice_id p = invoice_id \<and> pay_status p = SUCCEEDED) (payments s)))"

definition mark_paid_if_fully_allocated :: "instant \<Rightarrow> store \<Rightarrow> int \<Rightarrow> (invoice \<times> store) res" where
  "mark_paid_if_fully_allocated now s invoice_id =
     (case get_invoice s invoice_id of
        None \<Rightarrow> Inl (InvoiceError ''Invoice not found'')
      | Some i \<Rightarrow>
          let allocated = allocated_cents s (inv_id i) in
          if allocated > inv_amount_cents i then Inl (InvoiceError ''Invoice payment allocations exceed its total'')
          else
            let i' = (if allocated = inv_amount_cents i
                      then i\<lparr>inv_status := PAID, inv_paid_at := Some (case inv_paid_at i of None \<Rightarrow> now | Some t \<Rightarrow> t)\<rparr>
                      else if inv_status i = PAID then i\<lparr>inv_status := OPEN, inv_paid_at := None\<rparr>
                      else i)
            in Inr (i', save_invoice i' s))"

text \<open>The settlement part of \<open>InvoiceService.serialize\<close>: what is allocated and what remains.\<close>

definition serialize_amounts :: "store \<Rightarrow> invoice \<Rightarrow> int \<times> int" where
  "serialize_amounts s i =
     (let allocated = allocated_cents s (inv_id i) in (allocated, max 0 (inv_amount_cents i - allocated)))"

section \<open>Numbers are fresh\<close>

text \<open>Invoice ids and numbers are unique, and the sequence has passed every number given out.\<close>

definition numbers_below :: "store \<Rightarrow> int" where
  "numbers_below s = (case invoice_sequence s of None \<Rightarrow> initial_next_value s | Some v \<Rightarrow> v)"

definition invoices_ok :: "store \<Rightarrow> bool" where
  "invoices_ok s \<longleftrightarrow> distinct (map inv_id (invoices s)) \<and> distinct (map inv_number (invoices s)) \<and>
     (\<forall>i \<in> set (invoices s). inv_number i < numbers_below s \<and> 0 < inv_amount_cents i) \<and>
     FIRST_NUMBER \<le> numbers_below s"

lemma largest_number_ge: "i \<in> set (invoices s) \<Longrightarrow> \<exists>n. largest_number s = Some n \<and> inv_number i \<le> n"
proof -
  assume "i \<in> set (invoices s)"
  then have m: "inv_number i \<in> set (map inv_number (invoices s))" by simp
  then obtain n ns where n: "map inv_number (invoices s) = n # ns" by (cases "map inv_number (invoices s)") auto
  with m have "inv_number i \<le> fold max ns n"
    using fold_max_ge [of n ns] fold_max_upper [of "inv_number i" ns n] by auto
  with n show ?thesis by (simp add: largest_number_def)
qed

lemma initial_above: "i \<in> set (invoices s) \<Longrightarrow> inv_number i < initial_next_value s"
  using largest_number_ge [of i s] by (auto simp: initial_next_value_def)

lemma allocate_number_eq:
  "allocate_number dia s = Inr (numbers_below s, s\<lparr>invoice_sequence := Some (numbers_below s + 1)\<rparr>)"
  by (simp add: allocate_number_def numbers_below_def Let_def split: dialect.splits option.splits)

interpretation invoice_numbers: allocator "allocate_number dia" "\<lambda>s. {n. n < numbers_below s}" "\<lambda>_. True" for dia
  by unfold_locales (auto simp: allocate_number_eq numbers_below_def)

lemma create_invoice_Inr:
  assumes "create_invoice dia s q = Inr (i, t)"
  shows "t = s\<lparr>invoices := invoices s @ [i], invoice_sequence := Some (numbers_below s + 1)\<rparr>"
    "inv_number i = numbers_below s" "inv_id i = fresh_id inv_id (invoices s)" "0 < inv_amount_cents i"
    "inv_amount_cents i = iq_amount_cents q" "inv_status i = OPEN" "inv_reseller_id i = iq_reseller_id q"
    "inv_purpose i = iq_purpose q" "inv_paid_at i = None" "inv_currency i = upper (strip (iq_currency q))"
    "inv_service_id i = iq_service_id q"
  using assms
  by (auto simp: create_invoice_def Let_def ebind_Inr_iff raise_if_def allocate_number_eq insert_invoice_def
        require_positive_cents_def split: if_splits)

lemma create_invoice_ok:
  assumes "invoices_ok s" "create_invoice dia s q = Inr (i, t)"
  shows "invoices_ok t"
proof -
  note c = create_invoice_Inr [OF assms(2)]
  have "distinct (map inv_id (invoices s @ [i]))"
    using assms(1) c(3) by (intro distinct_insert_row) (auto simp: invoices_ok_def)
  moreover have "numbers_below t = numbers_below s + 1" using c(1) by (simp add: numbers_below_def)
  ultimately show ?thesis using assms(1) c
    by (auto simp: invoices_ok_def)
qed

lemma invoice_create_succeeds:
  assumes "invoices_ok s" "0 < iq_amount_cents q" "length (upper (strip (iq_currency q))) = 3"
    "isalpha (upper (strip (iq_currency q)))" "iq_reseller_id q \<noteq> None \<or> iq_billing_account_id q \<noteq> None"
  shows "\<exists>i t. create_invoice dia s q = Inr (i, t)"
  using assms
  by (auto simp: create_invoice_def Let_def raise_if_def allocate_number_eq insert_invoice_def
        require_positive_cents_def invoices_ok_def image_iff)

section \<open>Settlement\<close>

lemma get_invoiceD: "get_invoice s n = Some i \<Longrightarrow> i \<in> set (invoices s) \<and> inv_id i = n"
  by (auto simp: get_invoice_def dest: get_row_SomeD)

lemma mark_paidE:
  assumes "mark_paid_if_fully_allocated now s n = Inr (i', t)"
  obtains i where "get_invoice s n = Some i" "t = save_invoice i' s" "allocated_cents s n \<le> inv_amount_cents i"
    "inv_status i' = PAID \<longleftrightarrow> allocated_cents s n = inv_amount_cents i"
    "i' = i\<lparr>inv_status := inv_status i', inv_paid_at := inv_paid_at i'\<rparr>"
    "inv_status i' = PAID \<Longrightarrow> inv_paid_at i' \<noteq> None"
    "inv_status i' \<noteq> PAID \<Longrightarrow> inv_status i \<noteq> PAID \<Longrightarrow> i' = i"
proof -
  from assms obtain i where g: "get_invoice s n = Some i"
    by (auto simp: mark_paid_if_fully_allocated_def split: option.splits)
  have n: "inv_id i = n" using get_invoiceD [OF g] by simp
  let ?i = "if allocated_cents s n = inv_amount_cents i
    then i\<lparr>inv_status := PAID, inv_paid_at := Some (case inv_paid_at i of None \<Rightarrow> now | Some t \<Rightarrow> t)\<rparr>
    else if inv_status i = PAID then i\<lparr>inv_status := OPEN, inv_paid_at := None\<rparr> else i"
  have r: "i' = ?i" "t = save_invoice i' s" "allocated_cents s n \<le> inv_amount_cents i"
    using assms g n by (auto simp: mark_paid_if_fully_allocated_def Let_def split: if_splits)
  have "i' = i\<lparr>inv_status := inv_status i', inv_paid_at := inv_paid_at i'\<rparr>"
    unfolding r(1) by simp
  moreover have "inv_status i' = PAID \<longleftrightarrow> allocated_cents s n = inv_amount_cents i"
    "inv_status i' = PAID \<Longrightarrow> inv_paid_at i' \<noteq> None"
    "inv_status i' \<noteq> PAID \<Longrightarrow> inv_status i \<noteq> PAID \<Longrightarrow> i' = i"
    unfolding r(1) by (simp_all split: if_splits)
  ultimately show thesis using g r(2,3) by (intro that [of i]) simp_all
qed

lemma payments_save_invoice [simp, frame_simps]: "payments (save_invoice i s) = payments s"
  and ledger_save_invoice [simp, frame_simps]: "ledger (save_invoice i s) = ledger s"
  and resellers_save_invoice [simp, frame_simps]: "resellers (save_invoice i s) = resellers s"
  and sequence_save_invoice [simp, frame_simps]: "invoice_sequence (save_invoice i s) = invoice_sequence s"
  and invoices_save_invoice: "invoices (save_invoice i s) = put_row inv_id i (invoices s)"
  by (simp_all add: save_invoice_def)

lemma allocated_cents_cong: "payments t = payments s \<Longrightarrow> allocated_cents t n = allocated_cents s n"
  by (simp add: allocated_cents_def)

section \<open>Concrete rows\<close>

definition sample_invoice :: "int \<Rightarrow> int \<Rightarrow> int \<Rightarrow> invoice" where
  "sample_invoice i number amount = \<lparr>inv_id = i, inv_number = number, inv_reseller_id = Some 1,
     inv_service_id = None, inv_billing_account_id = None, inv_order_id = None, inv_purpose = DEPLOY_CHARGE,
     inv_status = OPEN, inv_amount_cents = amount, inv_currency = ''USD'', inv_description = None,
     inv_due_at = None, inv_paid_at = None\<rparr>"

definition sample_payment :: "int \<Rightarrow> int \<Rightarrow> int \<Rightarrow> PaymentStatus \<Rightarrow> string option \<Rightarrow> payment" where
  "sample_payment i invoice amount st ref = \<lparr>pay_id = i, pay_invoice_id = invoice, pay_gateway = ''credit'',
     pay_status = st, pay_amount_cents = amount, pay_currency = ''USD'', pay_external_ref = ref,
     pay_failure_code = None, pay_failure_message = None, pay_metadata = [], pay_processed_at = Some 0,
     pay_refunded_at = None\<rparr>"

definition sample_settlement :: store where
  "sample_settlement = empty_store\<lparr>resellers := [sample_reseller 1 0], invoices := [sample_invoice 1 100001 700],
     invoice_sequence := Some 100002,
     payments := [sample_payment 1 1 500 SUCCEEDED (Some ''a''), sample_payment 2 1 300 FAILED (Some ''b''),
       sample_payment 3 1 200 SUCCEEDED (Some ''c'')]\<rparr>"

section \<open>Properties\<close>

text \<open>
  Invoice numbers: the SQLite path and the row-lock path allocate the same number and leave the
  same state, and any number of allocations in a row, on either path, gives distinct numbers, none
  below 100001 and all above every number already on an invoice.
\<close>

theorem invoice_numbers_unique:
  assumes "invoices_ok s" "alloc_many (allocate_number dia) k s = Inr (ns, t)"
  shows "allocate_number Sqlite s = allocate_number Other_Dialect s \<and> distinct ns \<and> length ns = k \<and>
    (\<forall>n \<in> set ns. FIRST_NUMBER \<le> n \<and> (\<forall>i \<in> set (invoices s). inv_number i < n))"
proof -
  have "distinct ns \<and> set ns \<inter> {n. n < numbers_below s} = {}"
    using invoice_numbers.alloc_many_fresh [OF _ assms(2)] by simp
  moreover have "length ns = k"
    using assms(2) by (induction k arbitrary: s ns t) (auto simp: ebind_Inr_iff)
  moreover have "FIRST_NUMBER \<le> numbers_below s" "\<forall>i \<in> set (invoices s). inv_number i < numbers_below s"
    using assms(1) by (auto simp: invoices_ok_def)
  ultimately show ?thesis by (force simp: allocate_number_eq)
qed

theorem invoice_numbers_unique_witness:
  "invoices_ok empty_store \<and> (\<exists>t. alloc_many (allocate_number Sqlite) 3 empty_store = Inr ([100001, 100002, 100003], t)) \<and>
   distinct [100001, 100002, 100003 :: int]"
proof -
  have ok: "invoices_ok empty_store"
    by (simp add: invoices_ok_def empty_store_def numbers_below_def initial_next_value_def FIRST_NUMBER_def)
  have a: "alloc_many (allocate_number Sqlite) 3 empty_store =
    Inr ([100001, 100002, 100003], empty_store\<lparr>invoice_sequence := Some 100004\<rparr>)"
    by code_simp
  from invoice_numbers_unique [OF ok a] ok a show ?thesis by blast
qed

text \<open>
  Settlement: for a stored invoice, the call fails exactly when succeeded payments exceed the
  total; otherwise the stored invoice is paid exactly when they equal it, a paid invoice carries a
  payment time, an invoice that lost its cover is reopened without one, and nothing but status and
  payment time of this invoice changes.
\<close>

theorem settlement_matches_payments:
  assumes "invoices_ok s" "get_invoice s n = Some i"
  shows "(allocated_cents s n > inv_amount_cents i \<longrightarrow>
      mark_paid_if_fully_allocated now s n = Inl (InvoiceError ''Invoice payment allocations exceed its total'')) \<and>
    (allocated_cents s n \<le> inv_amount_cents i \<longrightarrow>
      (\<exists>i' t. mark_paid_if_fully_allocated now s n = Inr (i', t) \<and> get_invoice t n = Some i' \<and>
        (inv_status i' = PAID \<longleftrightarrow> allocated_cents s n = inv_amount_cents i) \<and>
        (inv_status i' = PAID \<longrightarrow> inv_paid_at i' \<noteq> None) \<and>
        (inv_status i = PAID \<longrightarrow> inv_status i' \<noteq> PAID \<longrightarrow> inv_status i' = OPEN \<and> inv_paid_at i' = None) \<and>
        t = s\<lparr>invoices := invoices t\<rparr> \<and> (\<forall>m. m \<noteq> n \<longrightarrow> get_invoice t m = get_invoice s m) \<and>
        i' = i\<lparr>inv_status := inv_status i', inv_paid_at := inv_paid_at i'\<rparr>))"
proof -
  have n: "inv_id i = n" using get_invoiceD [OF assms(2)] by simp
  show ?thesis
  proof (cases "allocated_cents s n > inv_amount_cents i")
    case True
    then show ?thesis using assms(2) n by (simp add: mark_paid_if_fully_allocated_def Let_def)
  next
    case False
    let ?i = "if allocated_cents s n = inv_amount_cents i
      then i\<lparr>inv_status := PAID, inv_paid_at := Some (case inv_paid_at i of None \<Rightarrow> now | Some t \<Rightarrow> t)\<rparr>
      else if inv_status i = PAID then i\<lparr>inv_status := OPEN, inv_paid_at := None\<rparr> else i"
    have "inv_id ?i = n" using n by simp
    then have g: "get_invoice (save_invoice ?i s) m = (if m = n then Some ?i else get_invoice s m)" for m
      using assms(2) by (auto simp: get_invoice_def invoices_save_invoice get_put_row)
    have "mark_paid_if_fully_allocated now s n = Inr (?i, save_invoice ?i s)"
      using False assms(2) n by (simp add: mark_paid_if_fully_allocated_def Let_def)
    moreover have "save_invoice ?i s = s\<lparr>invoices := invoices (save_invoice ?i s)\<rparr>"
      by (simp add: save_invoice_def)
    ultimately show ?thesis using False g by (auto split: if_splits)
  qed
qed

theorem settlement_matches_payments_witness:
  "\<exists>i' t. mark_paid_if_fully_allocated 9 sample_settlement 1 = Inr (i', t) \<and> inv_status i' = PAID \<and> get_invoice t 1 = Some i'"
proof -
  have ok: "invoices_ok sample_settlement"
    by (simp add: invoices_ok_def sample_settlement_def sample_invoice_def numbers_below_def FIRST_NUMBER_def)
  have g: "get_invoice sample_settlement 1 = Some (sample_invoice 1 100001 700)"
    by (simp add: get_invoice_def sample_settlement_def sample_invoice_def)
  have "allocated_cents sample_settlement 1 = inv_amount_cents (sample_invoice 1 100001 700)" by code_simp
  with settlement_matches_payments [OF ok g, of 9] show ?thesis by force
qed

end
