(* ===== verification/Notifications.thy ===== *)
theory Notifications
  imports Models
begin

text \<open>
  The notification outbox, \<open>app/services/notification_service.py\<close>: enqueueing with deduplication
  by idempotency key, claiming a batch under a lease, and delivery with exponential backoff. The
  SMTP transport is a parameter. The theorems: an event is queued once however often it is
  enqueued; a row claimed by one worker is not claimed by another while the claim is live; the retry
  delay is between one minute and one hour; each delivery settles the row and drops its claim.
\<close>

section \<open>Enqueueing\<close>

definition insert_outbox :: "store \<Rightarrow> notification_outbox \<Rightarrow> store res" where
  "insert_outbox s row =
     (if ob_idempotency_key row \<in> ob_idempotency_key ` set (outbox s) then Inl IntegrityError
      else Inr (s\<lparr>outbox := outbox s @ [row]\<rparr>))"

definition notification_email :: "reseller \<Rightarrow> string option \<Rightarrow> string" where
  "notification_email r recipient =
     strip (case recipient of
       Some e \<Rightarrow> if e = [] then (case r_user_email r of None \<Rightarrow> [] | Some u \<Rightarrow> u) else e
     | None \<Rightarrow> (case r_user_email r of None \<Rightarrow> [] | Some u \<Rightarrow> u))"

text \<open>
  \<open>NotificationService.enqueue\<close>: the insert runs in a savepoint; on a clash of the truncated key
  the existing row is returned.
\<close>

definition enqueue ::
  "store \<Rightarrow> reseller \<Rightarrow> string \<Rightarrow> string \<Rightarrow> dict \<Rightarrow> string option \<Rightarrow> (notification_outbox \<times> store) res" where
  "enqueue s r event idempotency_key data recipient =
     (let email = notification_email r recipient in
      if email = [] \<or> CHR ''@'' \<notin> set email then Inl (ValueError ''Notification recipient is unavailable'')
      else
        ebind (scalar_one_or_none (filter (\<lambda>ob. ob_idempotency_key ob = idempotency_key) (outbox s))) (\<lambda>existing.
        case existing of
          Some row \<Rightarrow> Inr (row, s)
        | None \<Rightarrow>
            let row = \<lparr>ob_id = fresh_id ob_id (outbox s), ob_idempotency_key = take 255 idempotency_key,
                  ob_reseller_id = Some (r_id r), ob_recipient = take 320 email, ob_event = take 64 event,
                  ob_data = data, ob_status = QUEUED, ob_attempts = 0, ob_next_attempt_at = None,
                  ob_error = None, ob_claim_token = None, ob_claim_expires_at = None, ob_sent_at = None\<rparr>
            in case insert_outbox s row of
                 Inr t \<Rightarrow> Inr (row, t)
               | Inl _ \<Rightarrow>
                   (case filter (\<lambda>ob. ob_idempotency_key ob = take 255 idempotency_key) (outbox s) of
                      [] \<Rightarrow> Inl NoResultFound
                    | [row'] \<Rightarrow> Inr (row', s)
                    | _ \<Rightarrow> Inl MultipleResultsFound)))"

text \<open>\<open>RecurringBillingService._notify\<close> and the other callers swallow a \<open>ValueError\<close>.\<close>

definition notify :: "store \<Rightarrow> reseller \<Rightarrow> string \<Rightarrow> string \<Rightarrow> dict \<Rightarrow> store res" where
  "notify s r event key data =
     (case enqueue s r event key data None of
        Inr (_, t) \<Rightarrow> Inr t
      | Inl e \<Rightarrow> if is_value_error e then Inr s else Inl e)"

section \<open>Delivery\<close>

record notification_config =
  worker_batch_size :: nat
  worker_lease_seconds :: int
  smtp_enabled :: bool

definition outbox_available :: "instant \<Rightarrow> notification_outbox \<Rightarrow> bool" where
  "outbox_available now ob \<longleftrightarrow>
     ((ob_status ob = QUEUED \<or> ob_status ob = OUTBOX_FAILED) \<and>
        (case ob_next_attempt_at ob of None \<Rightarrow> True | Some t \<Rightarrow> t \<le> now))
     \<or> (ob_status ob = SENDING \<and> (case ob_claim_expires_at ob of None \<Rightarrow> False | Some t \<Rightarrow> t \<le> now))"

text \<open>\<open>batch_size or \<dots>\<close>: a zero or absent batch size falls back to the configured one.\<close>

definition claim :: "notification_config \<Rightarrow> instant \<Rightarrow> store \<Rightarrow> string \<Rightarrow> nat option \<Rightarrow> int list \<times> store" where
  "claim cfg now s owner batch_size =
     (let limit = (case batch_size of None \<Rightarrow> worker_batch_size cfg
                   | Some n \<Rightarrow> if n = 0 then worker_batch_size cfg else n);
          ids = map ob_id (take limit (sort_key ob_id (filter (outbox_available now) (outbox s))));
          expires = now + seconds (worker_lease_seconds cfg)
      in (ids, s\<lparr>outbox := map (\<lambda>ob. if ob_id ob \<in> set ids
            then ob\<lparr>ob_status := SENDING, ob_claim_token := Some owner, ob_claim_expires_at := Some expires\<rparr>
            else ob) (outbox s)\<rparr>))"

definition retry_delay_seconds :: "int \<Rightarrow> int" where
  "retry_delay_seconds attempts = min 3600 (60 * 2 ^ nat (min (attempts - 1) 6))"

text \<open>One row of \<open>send_batch\<close>: \<open>send\<close> is the transport, \<open>Inl\<close> the name of the exception it raised.\<close>

definition deliver ::
  "notification_config \<Rightarrow> instant \<Rightarrow> (notification_outbox \<Rightarrow> string + unit) \<Rightarrow> notification_outbox \<Rightarrow> notification_outbox \<times> nat" where
  "deliver cfg now send ob =
     (if \<not> smtp_enabled cfg
      then (ob\<lparr>ob_status := SKIPPED, ob_error := Some ''SMTP delivery is disabled'',
             ob_claim_token := None, ob_claim_expires_at := None\<rparr>, 0)
      else case send ob of
        Inl exc \<Rightarrow>
          (ob\<lparr>ob_attempts := ob_attempts ob + 1, ob_status := OUTBOX_FAILED,
             ob_error := Some (''SMTP delivery failed ('' @ exc @ '')''),
             ob_next_attempt_at := Some (now + seconds (retry_delay_seconds (ob_attempts ob + 1))),
             ob_claim_token := None, ob_claim_expires_at := None\<rparr>, 0)
      | Inr _ \<Rightarrow>
          (ob\<lparr>ob_attempts := ob_attempts ob + 1, ob_status := SENT, ob_sent_at := Some now, ob_error := None,
             ob_next_attempt_at := None, ob_claim_token := None, ob_claim_expires_at := None\<rparr>, 1))"

text \<open>The loop of \<open>send_batch\<close>; \<open>clock i\<close> is the time read while row \<open>i\<close> is handled.\<close>

fun send_rows ::
  "notification_config \<Rightarrow> (int \<Rightarrow> instant) \<Rightarrow> (notification_outbox \<Rightarrow> string + unit) \<Rightarrow> string \<Rightarrow> int list \<Rightarrow> store \<Rightarrow> nat \<Rightarrow> nat \<times> store" where
  "send_rows cfg clock send owner [] s sent = (sent, s)"
| "send_rows cfg clock send owner (i # is) s sent =
     (case get_row ob_id i (outbox s) of
        None \<Rightarrow> send_rows cfg clock send owner is s sent
      | Some ob \<Rightarrow>
          if ob_claim_token ob \<noteq> Some owner then send_rows cfg clock send owner is s sent
          else (let (ob', n) = deliver cfg (clock i) send ob
                in send_rows cfg clock send owner is (s\<lparr>outbox := put_row ob_id ob' (outbox s)\<rparr>) (sent + n)))"

definition send_batch ::
  "notification_config \<Rightarrow> instant \<Rightarrow> (int \<Rightarrow> instant) \<Rightarrow> (notification_outbox \<Rightarrow> string + unit) \<Rightarrow> store \<Rightarrow> string \<Rightarrow> nat option \<Rightarrow> nat \<times> store" where
  "send_batch cfg now clock send s owner batch_size =
     (let (ids, t) = claim cfg now s owner batch_size in send_rows cfg clock send owner ids t 0)"

section \<open>Lemmas\<close>

definition outbox_ok :: "store \<Rightarrow> bool" where
  "outbox_ok s \<longleftrightarrow> distinct (map ob_id (outbox s)) \<and> distinct (map ob_idempotency_key (outbox s))"

lemma unique_outbox_key: "outbox_ok s \<Longrightarrow> unique_on (\<lambda>ob. Some (ob_idempotency_key ob)) (outbox s)"
  by (simp add: outbox_ok_def unique_on_def comp_def)

lemma outbox_key_single:
  assumes "outbox_ok s" "ob \<in> set (outbox s)" "ob_idempotency_key ob = k"
  shows "filter (\<lambda>x. ob_idempotency_key x = k) (outbox s) = [ob]"
  using unique_on_filter_single [OF unique_outbox_key [OF assms(1)] assms(2), of k] assms(3) by simp

lemma enqueueE:
  assumes "enqueue s r ev key d rc = Inr (ob, t)"
  obtains (old) "t = s" "ob \<in> set (outbox s)" "ob_idempotency_key ob = key \<or> ob_idempotency_key ob = take 255 key"
  | (new) "t = s\<lparr>outbox := outbox s @ [ob]\<rparr>" "ob_idempotency_key ob = take 255 key" "ob_id ob = fresh_id ob_id (outbox s)"
      "take 255 key \<notin> ob_idempotency_key ` set (outbox s)" "ob_status ob = QUEUED"
proof -
  from assms obtain existing where
    ex: "scalar_one_or_none (filter (\<lambda>ob. ob_idempotency_key ob = key) (outbox s)) = Inr existing"
    by (auto simp: enqueue_def Let_def ebind_Inr_iff split: if_splits)
  show thesis
  proof (cases existing)
    case (Some row)
    with ex have "row \<in> set (filter (\<lambda>ob. ob_idempotency_key ob = key) (outbox s))" by (simp add: scalar_iffs)
    with assms ex Some show thesis by (intro that(1)) (auto simp: enqueue_def Let_def split: if_splits)
  next
    case None
    show thesis
    proof (cases "take 255 key \<in> ob_idempotency_key ` set (outbox s)")
      case True
      with assms ex None have "filter (\<lambda>ob. ob_idempotency_key ob = take 255 key) (outbox s) = [ob]" "t = s"
        by (auto simp: enqueue_def Let_def insert_outbox_def split: if_splits list.splits)
      then have "ob \<in> set (filter (\<lambda>ob. ob_idempotency_key ob = take 255 key) (outbox s))" "t = s"
        by (metis list.set_intros(1), simp)
      then show thesis by (intro that(1)) auto
    next
      case False
      with assms ex None show thesis
        by (intro that(2)) (auto simp: enqueue_def Let_def insert_outbox_def split: if_splits)
    qed
  qed
qed

lemma enqueue_ok: "outbox_ok s \<Longrightarrow> enqueue s r ev key d rc = Inr (ob, t) \<Longrightarrow> outbox_ok t"
  by (erule enqueueE) (auto simp: outbox_ok_def fresh_id_notin)

lemma enqueue_total:
  assumes "outbox_ok s"
  shows "\<exists>x. enqueue s r ev key d rc = Inr x \<or> (\<exists>m. enqueue s r ev key d rc = Inl (ValueError m))"
proof -
  have u: "length (filter (\<lambda>ob. ob_idempotency_key ob = k) (outbox s)) \<le> 1" for k
    using unique_on_filter_length [OF unique_outbox_key [OF assms], of k] by simp
  have q: "\<exists>e. scalar_one_or_none (filter (\<lambda>ob. ob_idempotency_key ob = k) (outbox s)) = Inr e" for k
    using u [of k] by (cases "filter (\<lambda>ob. ob_idempotency_key ob = k) (outbox s)" rule: scalar_one_or_none.cases) auto
  have f: "\<exists>x. filter (\<lambda>ob. ob_idempotency_key ob = k) (outbox s) = [x]" if "k \<in> ob_idempotency_key ` set (outbox s)" for k
  proof -
    from that obtain x where "x \<in> set (outbox s)" "ob_idempotency_key x = k" by auto
    from outbox_key_single [OF assms this] show ?thesis by blast
  qed
  obtain e where e: "scalar_one_or_none (filter (\<lambda>ob. ob_idempotency_key ob = key) (outbox s)) = Inr e" using q by blast
  show ?thesis
  proof (cases "take 255 key \<in> ob_idempotency_key ` set (outbox s)")
    case True
    with f obtain x where "filter (\<lambda>ob. ob_idempotency_key ob = take 255 key) (outbox s) = [x]" by blast
    with e True show ?thesis by (auto simp: enqueue_def Let_def insert_outbox_def split: option.split)
  next
    case False
    with e show ?thesis by (auto simp: enqueue_def Let_def insert_outbox_def split: option.split)
  qed
qed

lemma enqueue_again:
  assumes ok: "outbox_ok s" and en: "enqueue s r ev key d rc = Inr (ob, t)"
  shows "enqueue t r ev key d rc = Inr (ob, t)"
  using en
proof (cases rule: enqueueE)
  case old
  with en show ?thesis by simp
next
  case new
  have okt: "outbox_ok t" using ok en by (rule enqueue_ok)
  have email: "\<not> (notification_email r rc = [] \<or> CHR ''@'' \<notin> set (notification_email r rc))"
    using en by (auto simp: enqueue_def Let_def split: if_splits)
  have ob: "ob \<in> set (outbox t)" using new by simp
  show ?thesis
  proof (cases "take 255 key = key")
    case True
    then have "filter (\<lambda>x. ob_idempotency_key x = key) (outbox t) = [ob]"
      using outbox_key_single [OF okt ob] new(2) by simp
    with email show ?thesis by (simp add: enqueue_def Let_def)
  next
    case False
    then have none: "filter (\<lambda>x. ob_idempotency_key x = key) (outbox t) = []"
    proof -
      have "outbox t \<noteq> outbox s" using new(1) by simp
      then have "enqueue s r ev key d rc = Inr (ob, t)" "t \<noteq> s" using en by auto
      then have "filter (\<lambda>x. ob_idempotency_key x = key) (outbox s) = []"
        by (auto simp: enqueue_def Let_def ebind_Inr_iff scalar_iffs split: if_splits option.splits)
      with False new show ?thesis by simp
    qed
    have "filter (\<lambda>x. ob_idempotency_key x = take 255 key) (outbox t) = [ob]"
      using outbox_key_single [OF okt ob] new(2) by simp
    moreover have "take 255 key \<in> ob_idempotency_key ` set (outbox t)" using ob new(2) by force
    ultimately show ?thesis using email none
      by (simp add: enqueue_def Let_def insert_outbox_def)
  qed
qed

interpretation enqueue_once: idempotent_operation
  "\<lambda>s. enqueue s r ev key d rc" "\<lambda>s ob. enqueue s r ev key d rc = Inr (ob, s)" outbox_ok for r ev key d rc
  by unfold_locales (auto intro: enqueue_again enqueue_ok)

lemma claim_ids:
  assumes "claim cfg now s owner n = (ids, t)"
  shows "set ids \<subseteq> ob_id ` {ob \<in> set (outbox s). outbox_available now ob}"
    "t = s\<lparr>outbox := map (\<lambda>ob. if ob_id ob \<in> set ids
       then ob\<lparr>ob_status := SENDING, ob_claim_token := Some owner,
              ob_claim_expires_at := Some (now + seconds (worker_lease_seconds cfg))\<rparr> else ob) (outbox s)\<rparr>"
  using assms by (auto simp: claim_def Let_def dest!: in_set_takeD)

lemma claim_distinct:
  assumes "outbox_ok s" "claim cfg now s owner n = (ids, t)"
  shows "distinct ids" "sorted ids" "outbox_ok t"
proof -
  have ids: "\<exists>m. ids = take m (map ob_id (sort_key ob_id (filter (outbox_available now) (outbox s))))"
    using assms(2) by (auto simp: claim_def Let_def take_map split: option.splits)
  have "distinct (map ob_id (filter (outbox_available now) (outbox s)))"
    using assms(1) by (auto simp: outbox_ok_def distinct_map inj_on_def)
  then have "distinct (map ob_id (sort_key ob_id (filter (outbox_available now) (outbox s))))"
    by (auto simp: distinct_map)
  with ids show "distinct ids" "sorted ids"
    by (auto intro: sorted_wrt_take)
  show "outbox_ok t"
    using assms(1) claim_ids(2) [OF assms(2)]
    by (simp add: outbox_ok_def comp_def if_distrib [of ob_id] if_distrib [of ob_idempotency_key] cong: if_cong)
qed

text \<open>The loop of \<open>send_batch\<close> as one pass over the table.\<close>

lemma deliver_keeps [simp]:
  "ob_id (fst (deliver cfg now send ob)) = ob_id ob"
  "ob_idempotency_key (fst (deliver cfg now send ob)) = ob_idempotency_key ob"
  by (auto simp: deliver_def split: sum.splits)

lemma send_rows_map:
  assumes "distinct ids" "distinct (map ob_id (outbox s))"
    and "\<And>ob. ob \<in> set (outbox s) \<Longrightarrow> ob_id ob \<in> set ids \<Longrightarrow> ob_claim_token ob = Some owner"
  shows "send_rows cfg clock send owner ids s k =
    (k + sum_list (map (\<lambda>ob. snd (deliver cfg (clock (ob_id ob)) send ob)) (filter (\<lambda>ob. ob_id ob \<in> set ids) (outbox s))),
     s\<lparr>outbox := map (\<lambda>ob. if ob_id ob \<in> set ids then fst (deliver cfg (clock (ob_id ob)) send ob) else ob) (outbox s)\<rparr>)"
  using assms
proof (induction ids arbitrary: s k)
  case (Cons i ids)
  show ?case
  proof (cases "get_row ob_id i (outbox s)")
    case None
    then have "i \<notin> ob_id ` set (outbox s)" by (simp add: get_row_None_iff)
    then have e: "ob \<in> set (outbox s) \<Longrightarrow> ob_id ob \<noteq> i" for ob by auto
    have e1: "filter (\<lambda>ob. ob_id ob \<in> set (i # ids)) (outbox s) = filter (\<lambda>ob. ob_id ob \<in> set ids) (outbox s)"
      using e by (intro filter_cong) auto
    have e2: "map (\<lambda>ob. if ob_id ob \<in> set (i # ids) then fst (deliver cfg (clock (ob_id ob)) send ob) else ob) (outbox s) =
      map (\<lambda>ob. if ob_id ob \<in> set ids then fst (deliver cfg (clock (ob_id ob)) send ob) else ob) (outbox s)"
      using e by (intro map_cong) auto
    have e3: "send_rows cfg clock send owner (i # ids) s k = send_rows cfg clock send owner ids s k"
      using None by simp
    show ?thesis unfolding e1 e2 e3 using Cons.prems by (intro Cons.IH) simp_all
  next
    case (Some ob)
    let ?d = "deliver cfg (clock i) send ob"
    let ?s = "s\<lparr>outbox := put_row ob_id (fst ?d) (outbox s)\<rparr>"
    have ob: "ob \<in> set (outbox s)" "ob_id ob = i" using Some by (auto dest: get_row_SomeD)
    have one: "x \<in> set (outbox s) \<Longrightarrow> ob_id x = i \<Longrightarrow> x = ob" for x
      using ob Cons.prems(2) by (auto simp: distinct_map inj_on_def)
    have put: "put_row ob_id (fst ?d) (outbox s) = map (\<lambda>x. if x = ob then fst ?d else x) (outbox s)"
      unfolding put_row_def deliver_keeps
    proof (rule map_cong [OF refl])
      fix x assume "x \<in> set (outbox s)"
      then have "ob_id x = ob_id ob \<longleftrightarrow> x = ob" using ob one by blast
      then show "(if ob_id x = ob_id ob then fst ?d else x) = (if x = ob then fst ?d else x)" by simp
    qed
    have i: "i \<notin> set ids" "distinct ids" using Cons.prems(1) by auto
    have IH: "send_rows cfg clock send owner ids ?s (k + snd ?d) =
      (k + snd ?d + sum_list (map (\<lambda>ob. snd (deliver cfg (clock (ob_id ob)) send ob)) (filter (\<lambda>ob. ob_id ob \<in> set ids) (outbox ?s))),
       ?s\<lparr>outbox := map (\<lambda>ob. if ob_id ob \<in> set ids then fst (deliver cfg (clock (ob_id ob)) send ob) else ob) (outbox ?s)\<rparr>)"
      using i Cons.prems by (intro Cons.IH) (auto dest!: set_put_row simp: ob)
    have f: "filter (\<lambda>x. ob_id x \<in> set ids) (put_row ob_id (fst ?d) (outbox s)) = filter (\<lambda>x. ob_id x \<in> set ids) (outbox s)"
      using i ob by (intro filter_put_row_neq) auto
    have m: "map (\<lambda>x. if ob_id x \<in> set ids then fst (deliver cfg (clock (ob_id x)) send x) else x) (put_row ob_id (fst ?d) (outbox s)) =
      map (\<lambda>x. if ob_id x \<in> set (i # ids) then fst (deliver cfg (clock (ob_id x)) send x) else x) (outbox s)"
      unfolding put map_map comp_def
    proof (rule map_cong [OF refl])
      fix x assume x: "x \<in> set (outbox s)"
      show "(if ob_id (if x = ob then fst ?d else x) \<in> set ids
          then fst (deliver cfg (clock (ob_id (if x = ob then fst ?d else x))) send (if x = ob then fst ?d else x))
          else if x = ob then fst ?d else x) =
        (if ob_id x \<in> set (i # ids) then fst (deliver cfg (clock (ob_id x)) send x) else x)"
      proof (cases "x = ob")
        case True
        then show ?thesis using i(1) ob(2) by simp
      next
        case False
        then have "ob_id x \<noteq> i" using one [OF x] by blast
        then show ?thesis using False by simp
      qed
    qed
    have c: "sum_list (map (\<lambda>x. snd (deliver cfg (clock (ob_id x)) send x)) (filter (\<lambda>x. ob_id x \<in> set (i # ids)) xs)) =
      sum_list (map (\<lambda>x. snd (deliver cfg (clock (ob_id x)) send x)) (filter (\<lambda>x. ob_id x \<in> set ids) xs)) +
      sum_list (map (\<lambda>x. snd (deliver cfg (clock (ob_id x)) send x)) (filter (\<lambda>x. ob_id x = i) xs))" for xs
      using i(1) by (induction xs) auto
    have "filter (\<lambda>x. Some (ob_id x) = Some i) (outbox s) = [ob]"
      using ob Cons.prems(2) by (intro unique_on_filter_single) (auto simp: unique_on_def comp_def)
    then have single: "filter (\<lambda>x. ob_id x = i) (outbox s) = [ob]" by simp
    have "send_rows cfg clock send owner (i # ids) s k = send_rows cfg clock send owner ids ?s (k + snd ?d)"
      using Some Cons.prems(3) [OF ob(1)] ob(2) by (simp add: Let_def split_beta)
    also have "\<dots> = (k + sum_list (map (\<lambda>ob. snd (deliver cfg (clock (ob_id ob)) send ob)) (filter (\<lambda>ob. ob_id ob \<in> set (i # ids)) (outbox s))),
       s\<lparr>outbox := map (\<lambda>ob. if ob_id ob \<in> set (i # ids) then fst (deliver cfg (clock (ob_id ob)) send ob) else ob) (outbox s)\<rparr>)"
      unfolding IH c using f m single ob(2) by simp
    finally show ?thesis .
  qed
qed simp

section \<open>Concrete rows\<close>

definition sample_notification :: "int \<Rightarrow> string \<Rightarrow> notification_outbox" where
  "sample_notification i key = \<lparr>ob_id = i, ob_idempotency_key = key, ob_reseller_id = Some 1,
     ob_recipient = ''billing@example.com'', ob_event = ''grace_warning'', ob_data = [], ob_status = QUEUED,
     ob_attempts = 0, ob_next_attempt_at = None, ob_error = None, ob_claim_token = None,
     ob_claim_expires_at = None, ob_sent_at = None\<rparr>"

definition sample_outbox :: store where
  "sample_outbox = empty_store\<lparr>resellers := [sample_reseller 1 0],
     outbox := [sample_notification 1 ''a'', sample_notification 2 ''b'']\<rparr>"

definition sample_notification_config :: notification_config where
  "sample_notification_config = \<lparr>worker_batch_size = 10, worker_lease_seconds = 120, smtp_enabled = True\<rparr>"

lemma sample_outbox_ok: "outbox_ok sample_outbox"
  by (simp add: outbox_ok_def sample_outbox_def sample_notification_def)

section \<open>Properties\<close>

text \<open>
  Enqueueing the same event under the same key any number of times queues it once: the state
  stays as the first call left it, and no two rows ever share a key.
\<close>

theorem notification_queued_once:
  assumes "outbox_ok s" "enqueue s r ev key d rc = Inr (ob, t)"
  shows "replay (\<lambda>u. enqueue u r ev key d rc) (Suc n) s = Inr t \<and> distinct (map ob_idempotency_key (outbox t)) \<and>
    length (outbox t) \<le> Suc (length (outbox s))"
proof -
  have "length (outbox t) \<le> Suc (length (outbox s))" using assms(2) by (rule enqueueE) simp_all
  with enqueue_once.replay_once [OF assms] enqueue_ok [OF assms] show ?thesis by (simp add: outbox_ok_def)
qed

theorem notification_queued_once_witness:
  "\<exists>t. replay (\<lambda>u. enqueue u (sample_reseller 1 0) ''grace_warning'' ''c'' [] None) 5 sample_outbox = Inr t \<and>
     map ob_idempotency_key (outbox t) = [''a'', ''b'', ''c'']"
proof -
  let ?e = "enqueue sample_outbox (sample_reseller 1 0) ''grace_warning'' ''c'' [] None"
  have "(case ?e of Inl _ \<Rightarrow> [] | Inr (_, t) \<Rightarrow> map ob_idempotency_key (outbox t)) = [''a'', ''b'', ''c'']"
    by code_simp
  then obtain ob t where e: "?e = Inr (ob, t)" "map ob_idempotency_key (outbox t) = [''a'', ''b'', ''c'']"
    by (auto split: sum.splits)
  from notification_queued_once [OF sample_outbox_ok e(1), of 4] e(2) show ?thesis by (simp add: numeral_eq_Suc)
qed

text \<open>
  A claim is exclusive while it lives: rows claimed by one worker are not handed to another one
  whose claim runs before the lease expires; and only rows that were available are claimed.
\<close>

theorem claim_is_exclusive:
  assumes "outbox_ok s" "claim cfg now s owner n = (ids, t)" "claim cfg' now' t owner' n' = (ids', u)"
    "now' < now + seconds (worker_lease_seconds cfg)"
  shows "set ids \<inter> set ids' = {} \<and> (\<forall>ob \<in> set (outbox t). ob_id ob \<in> set ids \<longrightarrow> ob_claim_token ob = Some owner) \<and>
    (\<forall>ob \<in> set (outbox s). ob_id ob \<in> set ids \<longrightarrow> outbox_available now ob)"
proof -
  note c = claim_ids [OF assms(2)] and c' = claim_ids [OF assms(3)]
  have "\<not> outbox_available now' ob" if "ob \<in> set (outbox t)" "ob_id ob \<in> set ids" for ob
    using that assms(4) by (auto simp: c(2) outbox_available_def split: if_splits)
  then have "set ids \<inter> set ids' = {}" using c'(1) by blast
  moreover have "\<forall>ob \<in> set (outbox t). ob_id ob \<in> set ids \<longrightarrow> ob_claim_token ob = Some owner"
    by (auto simp: c(2))
  moreover have "outbox_available now ob" if "ob \<in> set (outbox s)" "ob_id ob \<in> set ids" for ob
  proof -
    from that(2) c(1) obtain x where "x \<in> set (outbox s)" "outbox_available now x" "ob_id x = ob_id ob" by force
    with that(1) assms(1) show ?thesis by (auto simp: outbox_ok_def distinct_map dest: inj_onD)
  qed
  ultimately show ?thesis by blast
qed

theorem claim_is_exclusive_witness:
  "let (ids, t) = claim sample_notification_config 0 sample_outbox ''w1'' (Some 1);
       (ids', u) = claim sample_notification_config (seconds 60) t ''w2'' None
   in ids = [1] \<and> ids' = [2] \<and> set ids \<inter> set ids' = {}"
proof -
  let ?c = "claim sample_notification_config 0 sample_outbox ''w1'' (Some 1)"
  let ?c' = "claim sample_notification_config (seconds 60) (snd ?c) ''w2'' None"
  have "fst ?c = [1]" "fst ?c' = [2]" by code_simp+
  moreover have "seconds 60 < 0 + seconds (worker_lease_seconds sample_notification_config)" by code_simp
  ultimately show ?thesis
    using claim_is_exclusive [OF sample_outbox_ok, of sample_notification_config 0 "''w1''" "Some 1" "fst ?c" "snd ?c"
        sample_notification_config "seconds 60" "''w2''" None "fst ?c'" "snd ?c'"]
    by (simp add: split_beta)
qed

lemma retry_delay_bounds:
  assumes "1 \<le> n"
  shows "60 \<le> retry_delay_seconds n" "retry_delay_seconds n \<le> 3600"
proof -
  have "(1::int) \<le> 2 ^ nat (min (n - 1) 6)" by simp
  then show "60 \<le> retry_delay_seconds n" unfolding retry_delay_seconds_def by linarith
qed (simp add: retry_delay_seconds_def)

definition settled :: "instant \<Rightarrow> notification_outbox \<Rightarrow> bool" where
  "settled now ob \<longleftrightarrow> ob_claim_token ob = None \<and> ob_claim_expires_at ob = None \<and>
     (case ob_status ob of
        SENT \<Rightarrow> ob_sent_at ob = Some now
      | SKIPPED \<Rightarrow> True
      | OUTBOX_FAILED \<Rightarrow> (\<exists>t. ob_next_attempt_at ob = Some t \<and> now + seconds 60 \<le> t \<and> t \<le> now + seconds 3600)
      | _ \<Rightarrow> False)"

lemma deliver_settles: "0 \<le> ob_attempts ob \<Longrightarrow> settled now (fst (deliver cfg now send ob))"
  using retry_delay_bounds [of "ob_attempts ob + 1"]
  by (auto simp: deliver_def settled_def seconds_def split: sum.splits)

lemma deliver_count: "snd (deliver cfg now send ob) = (if ob_status (fst (deliver cfg now send ob)) = SENT then 1 else 0)"
  by (auto simp: deliver_def split: sum.splits)

text \<open>
  One run of the sender handles each row it claimed exactly once and touches no other row; it
  leaves no claim of its own behind; every handled row ends sent, skipped or failed, a failed one
  with its next attempt between one minute and one hour after the failure; the count returned is the
  number of rows sent.
\<close>

theorem send_batch_settles_claims:
  assumes ok: "outbox_ok s" and att: "\<forall>ob \<in> set (outbox s). 0 \<le> ob_attempts ob"
    and cl: "claim cfg now s owner n = (ids, c)" and sb: "send_batch cfg now clock send s owner n = (sent, t)"
  shows "outbox t = map (\<lambda>ob. if ob_id ob \<in> set ids then fst (deliver cfg (clock (ob_id ob)) send ob) else ob) (outbox c) \<and>
    (\<forall>ob \<in> set (outbox t). ob_id ob \<in> set ids \<longrightarrow> settled (clock (ob_id ob)) ob) \<and>
    (\<forall>ob. ob_id ob \<notin> set ids \<longrightarrow> (ob \<in> set (outbox t) \<longleftrightarrow> ob \<in> set (outbox s))) \<and>
    sent = length (filter (\<lambda>ob. ob_id ob \<in> set ids \<and> ob_status ob = SENT) (outbox t))"
proof -
  let ?d = "\<lambda>ob. deliver cfg (clock (ob_id ob)) send ob"
  note d = claim_distinct [OF ok cl] and c = claim_ids(2) [OF cl]
  have "send_rows cfg clock send owner ids c 0 =
    (0 + sum_list (map (\<lambda>ob. snd (?d ob)) (filter (\<lambda>ob. ob_id ob \<in> set ids) (outbox c))),
     c\<lparr>outbox := map (\<lambda>ob. if ob_id ob \<in> set ids then fst (?d ob) else ob) (outbox c)\<rparr>)"
    using d by (intro send_rows_map) (auto simp: outbox_ok_def c)
  with sb cl have sent: "sent = sum_list (map (\<lambda>ob. snd (?d ob)) (filter (\<lambda>ob. ob_id ob \<in> set ids) (outbox c)))"
    and out: "outbox t = map (\<lambda>ob. if ob_id ob \<in> set ids then fst (?d ob) else ob) (outbox c)"
    by (auto simp: send_batch_def)
  have "\<forall>ob \<in> set (outbox c). 0 \<le> ob_attempts ob" using att by (auto simp: c)
  then have "\<forall>ob \<in> set (outbox t). ob_id ob \<in> set ids \<longrightarrow> settled (clock (ob_id ob)) ob"
    by (auto simp: out deliver_settles)
  moreover have "ob \<in> set (outbox t) \<longleftrightarrow> ob \<in> set (outbox s)" if "ob_id ob \<notin> set ids" for ob
    using that by (auto simp: out c split: if_splits intro: rev_image_eqI)
  moreover have "sum_list (map (\<lambda>ob. snd (?d ob)) (filter (\<lambda>ob. ob_id ob \<in> set ids) xs)) =
    length (filter (\<lambda>ob. ob_id ob \<in> set ids \<and> ob_status ob = SENT) (map (\<lambda>ob. if ob_id ob \<in> set ids then fst (?d ob) else ob) xs))" for xs
    by (induction xs) (simp_all add: deliver_count)
  ultimately show ?thesis using out sent by simp
qed

theorem send_batch_settles_claims_witness:
  "\<exists>t. send_batch sample_notification_config 0 (\<lambda>_. seconds 5) (\<lambda>ob. if ob_id ob = 1 then Inr () else Inl ''TimeoutError'')
     sample_outbox ''w1'' None = (1, t) \<and> map ob_status (outbox t) = [SENT, OUTBOX_FAILED] \<and>
     list_all (settled (seconds 5)) (outbox t)"
proof -
  let ?send = "\<lambda>ob. if ob_id ob = 1 then Inr () else Inl ''TimeoutError''"
  let ?c = "claim sample_notification_config 0 sample_outbox ''w1'' None"
  let ?b = "send_batch sample_notification_config 0 (\<lambda>_. seconds 5) ?send sample_outbox ''w1'' None"
  have att: "\<forall>ob \<in> set (outbox sample_outbox). 0 \<le> ob_attempts ob"
    by (simp add: sample_outbox_def sample_notification_def)
  have "fst ?b = 1" "map ob_status (outbox (snd ?b)) = [SENT, OUTBOX_FAILED]" "fst ?c = [1, 2]"
    "map ob_id (outbox (snd ?b)) = [1, 2]"
    by code_simp+
  note r = this
  have "\<forall>ob \<in> set (outbox (snd ?b)). ob_id ob \<in> set (fst ?c) \<longrightarrow> settled (seconds 5) ob"
    using send_batch_settles_claims [OF sample_outbox_ok att prod.collapse [symmetric] prod.collapse [symmetric],
        where cfg = sample_notification_config and now = 0 and owner = "''w1''" and n = None and
        clock = "\<lambda>_. seconds 5" and send = ?send] by blast
  moreover have "ob_id ob \<in> set (fst ?c)" if "ob \<in> set (outbox (snd ?b))" for ob
  proof -
    have "ob_id ob \<in> set (map ob_id (outbox (snd ?b)))" using that by simp
    then show ?thesis unfolding r(3,4) .
  qed
  moreover have "?b = (1, snd ?b)" using r(1) by (metis prod.collapse)
  ultimately show ?thesis using r(2) unfolding list_all_iff by (intro exI [of _ "snd ?b"] conjI) (assumption, assumption, blast)
qed

end
