(* ===== verification/Payments.thy ===== *)
theory Payments
  imports Invoices Notifications
begin

text \<open>
  Invoice funding, \<open>app/services/payments/orchestrator.py\<close>, with the gateway contract of
  \<open>base.py\<close> and the registry of \<open>registry.py\<close>: wallet credit and saved payment methods are
  combined in the order the reseller prefers. A gateway is a parameter: a record of functions
  answering requests, each of which may raise. Its answer is a function of the request, which carries
  an idempotency key; every theorem quantifies over all gateways. The theorems: funding never
  allocates more than the invoice total and reports exactly what is allocated, the wallet pays exactly
  what the credit payments say, credit alone settles an invoice without any gateway, top-ups are
  credited once, and saved methods stay with their owner.
\<close>

section \<open>Gateways and the registry\<close>

datatype GatewayResultStatus = GW_SUCCEEDED | GW_REQUIRES_ACTION | GW_DECLINED | GW_TRANSIENT_ERROR

record gateway_charge_result =
  cr_status :: GatewayResultStatus
  cr_external_ref :: "string option"
  cr_client_secret :: "string option"
  cr_failure_code :: "string option"
  cr_failure_message :: "string option"

record gateway_refund_result =
  rr_status :: GatewayResultStatus
  rr_external_ref :: "string option"
  rr_failure_code :: "string option"
  rr_failure_message :: "string option"

record gateway_payment_method =
  gm_external_ref :: string
  gm_customer_ref :: "string option"
  gm_method_type :: string
  gm_label :: "string option"
  gm_brand :: "string option"
  gm_last4 :: "string option"
  gm_merchant_customer_id :: "string option"

record gateway_vault_setup =
  vs_external_ref :: string
  vs_approval_url :: string
  vs_customer_ref :: "string option"

record charge_request =
  cq_customer_ref :: "string option"
  cq_method_ref :: string
  cq_amount_cents :: int
  cq_currency :: string
  cq_idempotency_key :: string
  cq_metadata :: "(string \<times> string) list"

record refund_request =
  rq_external_ref :: string
  rq_amount_cents :: int
  rq_currency :: string
  rq_idempotency_key :: string
  rq_reason :: "string option"

text \<open>The protocol \<open>PaymentGateway\<close>; the two vault operations are optional attributes.\<close>

record gateway =
  gw_name :: string
  create_customer :: "int \<Rightarrow> string option \<Rightarrow> string res"
  create_setup_intent :: "string \<Rightarrow> (string \<times> string) res"
  get_payment_method :: "string \<Rightarrow> gateway_payment_method res"
  detach_payment_method :: "string \<Rightarrow> unit res"
  charge_off_session :: "charge_request \<Rightarrow> gateway_charge_result res"
  refund_payment :: "refund_request \<Rightarrow> gateway_refund_result res"
  create_vault_setup :: "(int \<Rightarrow> string option \<Rightarrow> gateway_vault_setup res) option"
  complete_vault_setup :: "(string \<Rightarrow> gateway_payment_method res) option"

type_synonym registry = "string \<rightharpoonup> gateway"

definition register :: "registry \<Rightarrow> gateway \<Rightarrow> registry" where
  "register reg g = reg(lower (gw_name g) \<mapsto> g)"

definition unregister :: "registry \<Rightarrow> string \<Rightarrow> registry" where
  "unregister reg name = reg(lower name := None)"

definition maybe_get :: "registry \<Rightarrow> string \<Rightarrow> gateway option" where
  "maybe_get reg name = reg (lower name)"

definition registry_get :: "registry \<Rightarrow> string \<Rightarrow> gateway res" where
  "registry_get reg name =
     (case reg (lower name) of
        None \<Rightarrow> Inl (GatewayNotConfiguredError (''Payment gateway '' @ [CHR 0x27] @ name @ [CHR 0x27] @ '' is not configured''))
      | Some g \<Rightarrow> Inr g)"

section \<open>Rows\<close>

text \<open>Attribute reads go to the current row: ORM objects are shared within a session.\<close>

definition live_reseller :: "store \<Rightarrow> reseller \<Rightarrow> reseller" where
  "live_reseller s r = (case get_reseller s (r_id r) of None \<Rightarrow> r | Some r' \<Rightarrow> r')"

definition live_invoice :: "store \<Rightarrow> invoice \<Rightarrow> invoice" where
  "live_invoice s i = (case get_invoice s (inv_id i) of None \<Rightarrow> i | Some i' \<Rightarrow> i')"

text \<open>Inserting a payment: a positive amount and a unique external reference.\<close>

definition insert_payment :: "store \<Rightarrow> payment \<Rightarrow> store res" where
  "insert_payment s p =
     (if pay_amount_cents p \<le> 0
        \<or> (pay_external_ref p \<noteq> None \<and> pay_external_ref p \<in> pay_external_ref ` set (payments s))
      then Inl IntegrityError
      else Inr (s\<lparr>payments := payments s @ [p]\<rparr>))"

definition list_payment_methods :: "store \<Rightarrow> int \<Rightarrow> bool \<Rightarrow> payment_method list" where
  "list_payment_methods s reseller_id enabled_only =
     sort_key pm_tier (sort_key pm_id
       (filter (\<lambda>m. pm_reseller_id m = reseller_id \<and> (enabled_only \<longrightarrow> pm_enabled m)) (payment_methods s)))"

section \<open>Funding\<close>

record funding_result =
  fr_funded :: bool
  fr_allocated_cents :: int
  fr_remaining_cents :: int
  fr_pending_action :: bool
  fr_client_secret :: "string option"
  fr_payment_id :: "int option"

definition result_of :: "store \<Rightarrow> invoice \<Rightarrow> bool \<Rightarrow> string option \<Rightarrow> int option \<Rightarrow> funding_result" where
  "result_of s i pending_action client_secret payment_id =
     (let allocated = allocated_cents s (inv_id i) in
      \<lparr>fr_funded = (allocated = inv_amount_cents i), fr_allocated_cents = allocated,
       fr_remaining_cents = max 0 (inv_amount_cents i - allocated), fr_pending_action = pending_action,
       fr_client_secret = client_secret, fr_payment_id = payment_id\<rparr>)"

definition methods_for :: "store \<Rightarrow> reseller \<Rightarrow> int option \<Rightarrow> payment_method list res" where
  "methods_for s r selected_method_id =
     (let methods = list_payment_methods s (r_id r) True in
      case selected_method_id of
        None \<Rightarrow> Inr methods
      | Some m \<Rightarrow>
          let selected = filter (\<lambda>x. pm_id x = m) methods in
          if selected = [] then Inl (PaymentMethodOwnershipError ''Payment method not found'') else Inr selected)"

definition lock_funding_rows :: "store \<Rightarrow> int \<Rightarrow> int \<Rightarrow> (reseller \<times> invoice) res" where
  "lock_funding_rows s reseller_id invoice_id =
     (case get_reseller s reseller_id of
        None \<Rightarrow> Inl (InvoiceError ''Reseller not found'')
      | Some r \<Rightarrow>
          (case get_invoice s invoice_id of
             None \<Rightarrow> Inl (InvoiceError ''Invoice not found'')
           | Some i \<Rightarrow>
               if inv_reseller_id i \<noteq> Some (r_id r) then Inl (InvoiceError ''Invoice not found'')
               else if inv_status i = VOID then Inl (InvoiceError ''Invoice cannot be paid in its current state'')
               else Inr (r, i)))"

definition pending_funding_result :: "store \<Rightarrow> invoice \<Rightarrow> funding_result option" where
  "pending_funding_result s i =
     (if inv_status i \<noteq> PENDING_ACTION then None
      else case rev (sort_key pay_id (filter (\<lambda>p. pay_invoice_id p = inv_id i \<and> pay_status p = PENDING) (payments s))) of
             [] \<Rightarrow> None
           | p # _ \<Rightarrow> Some (result_of s i True None (Some (pay_id p))))"

fun payment_status :: "GatewayResultStatus \<Rightarrow> PaymentStatus" where
  "payment_status GW_SUCCEEDED = SUCCEEDED"
| "payment_status GW_REQUIRES_ACTION = PENDING"
| "payment_status _ = FAILED"

definition topup_context :: "invoice \<Rightarrow> payment \<Rightarrow> ledger_context" where
  "topup_context i p = no_context\<lparr>ctx_description := Some (''Paid top-up invoice '' @ show_int (inv_number i)),
     ctx_invoice_id := Some (inv_id i), ctx_payment_id := Some (pay_id p),
     ctx_reference_type := Some ''topup_invoice'', ctx_reference_id := Some (show_int (inv_id i)),
     ctx_idempotency_key := Some (''topup-invoice:'' @ show_int (inv_id i))\<rparr>"

definition invoice_data :: "invoice \<Rightarrow> dict" where
  "invoice_data i = [(''invoice_id'', JInt (inv_id i)), (''invoice_number'', JInt (inv_number i)),
     (''amount_cents'', JInt (inv_amount_cents i)), (''currency'', JStr (inv_currency i))]"

text \<open>\<open>finalize_success\<close>: the payment's new attributes, and the credit and notice of a paid top-up.\<close>

definition finalized :: "instant \<Rightarrow> payment \<Rightarrow> payment" where
  "finalized now p = p\<lparr>pay_status := SUCCEEDED,
     pay_processed_at := Some (case pay_processed_at p of None \<Rightarrow> now | Some t \<Rightarrow> t),
     pay_failure_code := None, pay_failure_message := None\<rparr>"

definition credit_topup :: "store \<Rightarrow> invoice \<Rightarrow> payment \<Rightarrow> (invoice \<times> store) res" where
  "credit_topup s i p =
     (if inv_status i = PAID \<and> inv_purpose i = CREDIT_TOPUP
      then
        ebind (credit s (inv_reseller_id i) (inv_amount_cents i) (topup_context i p)) (\<lambda>(_, s1).
        case Option.bind (inv_reseller_id i) (get_reseller s1) of
          None \<Rightarrow> Inl (AttributeError ''reseller'')
        | Some r \<Rightarrow>
            ebind (notify s1 r ''topup_received'' (''topup-received:'' @ show_int (inv_id i)) (invoice_data i)) (\<lambda>s2.
            Inr (i, s2)))
      else Inr (i, s))"

definition finalize_success :: "instant \<Rightarrow> store \<Rightarrow> payment \<Rightarrow> (invoice \<times> store) res" where
  "finalize_success now s p =
     ebind (mark_paid_if_fully_allocated now (save_payment (finalized now p) s) (pay_invoice_id p)) (\<lambda>(i, s1).
     credit_topup s1 i (finalized now p))"

definition charge_key :: "invoice \<Rightarrow> payment_method \<Rightarrow> int \<Rightarrow> string" where
  "charge_key i m amount_cents =
     ''invoice-'' @ show_int (inv_id i) @ ''-'' @ pm_provider m @ ''-'' @ show_int (pm_id m) @ ''-'' @
     show_int amount_cents @ ''-'' @ purpose_value (inv_purpose i)"

text \<open>The three parts of \<open>_charge_method\<close>: the request, the payment row, and what its status triggers.\<close>

definition charge_request_for :: "reseller \<Rightarrow> invoice \<Rightarrow> payment_method \<Rightarrow> int \<Rightarrow> charge_request" where
  "charge_request_for r i m amount_cents =
     \<lparr>cq_customer_ref = pm_provider_customer_ref m, cq_method_ref = pm_provider_method_ref m,
      cq_amount_cents = amount_cents, cq_currency = inv_currency i,
      cq_idempotency_key = charge_key i m amount_cents,
      cq_metadata = [(''rackflow_invoice_id'', show_int (inv_id i)), (''rackflow_reseller_id'', show_int (r_id r))]\<rparr>"

definition charge_payment ::
  "instant \<Rightarrow> store \<Rightarrow> invoice \<Rightarrow> payment_method \<Rightarrow> int \<Rightarrow> gateway_charge_result \<Rightarrow> payment" where
  "charge_payment now s i m amount_cents outcome =
     (let st = payment_status (cr_status outcome) in
      \<lparr>pay_id = fresh_id pay_id (payments s), pay_invoice_id = inv_id i,
       pay_gateway = pm_provider m, pay_status = st, pay_amount_cents = amount_cents,
       pay_currency = inv_currency i, pay_external_ref = cr_external_ref outcome,
       pay_failure_code = cr_failure_code outcome, pay_failure_message = cr_failure_message outcome,
       pay_metadata = [(''saved_method_id'', JInt (pm_id m)),
         (''provider_method_ref'', JStr (pm_provider_method_ref m)),
         (''idempotency_key'', JStr (charge_key i m amount_cents))],
       pay_processed_at = (if st \<noteq> PENDING then Some now else None), pay_refunded_at = None\<rparr>)"

definition settle_charge ::
  "instant \<Rightarrow> store \<Rightarrow> invoice \<Rightarrow> payment \<Rightarrow> string option \<Rightarrow> (funding_result \<times> store) res" where
  "settle_charge now s i p client_secret =
     (case pay_status p of
        SUCCEEDED \<Rightarrow>
          ebind (finalize_success now s p) (\<lambda>(_, s1). Inr (result_of s1 i False None (Some (pay_id p)), s1))
      | PENDING \<Rightarrow>
          (let s1 = save_invoice ((live_invoice s i)\<lparr>inv_status := PENDING_ACTION\<rparr>) s in
           Inr (result_of s1 i True client_secret (Some (pay_id p)), s1))
      | _ \<Rightarrow> Inr (result_of s i False None (Some (pay_id p)), s))"

definition charge_method ::
  "registry \<Rightarrow> instant \<Rightarrow> store \<Rightarrow> reseller \<Rightarrow> invoice \<Rightarrow> payment_method \<Rightarrow> int \<Rightarrow> (funding_result \<times> store) res" where
  "charge_method reg now s r i m amount_cents =
     (if pm_provider m = ''stripe'' \<and> (pm_provider_customer_ref m = None
           \<or> pm_provider_customer_ref m \<noteq> stripe_customer_ref (live_reseller s r))
      then Inr (result_of s i False None None, s)
      else case maybe_get reg (pm_provider m) of
        None \<Rightarrow> Inr (result_of s i False None None, s)
      | Some g \<Rightarrow>
          ebind (charge_off_session g (charge_request_for r i m amount_cents)) (\<lambda>outcome.
          let p = charge_payment now s i m amount_cents outcome in
          ebind (insert_payment s p) (\<lambda>s1. settle_charge now s1 i p (cr_client_secret outcome))))"

fun charge_loop ::
  "registry \<Rightarrow> instant \<Rightarrow> store \<Rightarrow> reseller \<Rightarrow> invoice \<Rightarrow> payment_method list \<Rightarrow> int \<Rightarrow> (funding_result \<times> store) res" where
  "charge_loop reg now s r i [] amount_cents = Inr (result_of s i False None None, s)"
| "charge_loop reg now s r i (m # ms) amount_cents =
     ebind (charge_method reg now s r i m amount_cents) (\<lambda>(result, s1).
     if fr_funded result \<or> fr_pending_action result then Inr (result, s1)
     else charge_loop reg now s1 r i ms amount_cents)"

definition charge_methods ::
  "registry \<Rightarrow> instant \<Rightarrow> store \<Rightarrow> reseller \<Rightarrow> invoice \<Rightarrow> payment_method list \<Rightarrow> int \<Rightarrow> (funding_result \<times> store) res" where
  "charge_methods reg now s r i ms amount_cents =
     (if amount_cents \<le> 0
      then ebind (mark_paid_if_fully_allocated now s (inv_id i)) (\<lambda>(_, s1). Inr (result_of s1 i False None None, s1))
      else charge_loop reg now s r i ms amount_cents)"

definition credit_ref :: "int \<Rightarrow> int \<Rightarrow> string" where
  "credit_ref invoice_id ordinal = ''credit:'' @ show_int invoice_id @ '':'' @ show_int ordinal"

definition invoice_credit_key :: "int \<Rightarrow> int \<Rightarrow> string" where
  "invoice_credit_key invoice_id payment_id = ''invoice-credit:'' @ show_int invoice_id @ '':'' @ show_int payment_id"

definition credit_ordinal :: "store \<Rightarrow> int \<Rightarrow> int" where
  "credit_ordinal s invoice_id =
     int (length (filter (\<lambda>p. pay_invoice_id p = invoice_id \<and> pay_gateway p = ''credit'') (payments s)))"

definition credit_payment :: "instant \<Rightarrow> store \<Rightarrow> invoice \<Rightarrow> int \<Rightarrow> payment" where
  "credit_payment now s i amount = \<lparr>pay_id = fresh_id pay_id (payments s), pay_invoice_id = inv_id i, pay_gateway = ''credit'',
     pay_status = SUCCEEDED, pay_amount_cents = amount, pay_currency = inv_currency i,
     pay_external_ref = Some (credit_ref (inv_id i) (credit_ordinal s (inv_id i) + 1)),
     pay_failure_code = None, pay_failure_message = None, pay_metadata = [(''source'', JStr ''reseller_credit'')],
     pay_processed_at = Some now, pay_refunded_at = None\<rparr>"

definition credit_context :: "store \<Rightarrow> reseller \<Rightarrow> invoice \<Rightarrow> ledger_context" where
  "credit_context s r i = no_context\<lparr>ctx_description := Some (''Credit allocation to invoice '' @ show_int (inv_number i)),
     ctx_invoice_id := Some (inv_id i), ctx_payment_id := Some (fresh_id pay_id (payments s)), ctx_service_id := inv_service_id i,
     ctx_reference_type := Some ''invoice_credit'', ctx_reference_id := Some (show_int (inv_id i)),
     ctx_idempotency_key := Some (invoice_credit_key (inv_id i) (fresh_id pay_id (payments s))),
     ctx_created_by_user_id := Some (r_user_id r)\<rparr>"

definition with_entry :: "payment \<Rightarrow> ledger_entry \<Rightarrow> payment" where
  "with_entry p e = p\<lparr>pay_metadata := [(''source'', JStr ''reseller_credit''), (''ledger_entry_id'', JInt (le_id e))]\<rparr>"

definition apply_credit ::
  "instant \<Rightarrow> store \<Rightarrow> reseller \<Rightarrow> invoice \<Rightarrow> int \<Rightarrow> (ledger_entry option \<times> store) res" where
  "apply_credit now s r i requested_cents =
     (let available = max 0 (cached_balance_cents (live_reseller s r));
          amount = min available requested_cents in
      if amount \<le> 0 then Inr (None, s)
      else
        let p = credit_payment now s i amount in
        ebind (insert_payment s p) (\<lambda>s1.
        ebind (debit s1 (Some (r_id r)) amount (credit_context s r i) False) (\<lambda>(e, s2).
        ebind (mark_paid_if_fully_allocated now (save_payment (with_entry p e) s2) (inv_id i)) (\<lambda>(_, s3).
        Inr (Some e, s3)))))"

text \<open>The tail of \<open>_fund_by_preference\<close>, once wallet credit has been applied.\<close>

definition fund_rest ::
  "registry \<Rightarrow> instant \<Rightarrow> store \<Rightarrow> reseller \<Rightarrow> invoice \<Rightarrow> payment_method list \<Rightarrow> (funding_result \<times> store) res" where
  "fund_rest reg now s r i ms =
     (let after_credit = result_of s i False None None in
      if fr_funded after_credit
      then ebind (mark_paid_if_fully_allocated now s (inv_id i)) (\<lambda>(_, s1). Inr (after_credit, s1))
      else charge_methods reg now s r i ms (fr_remaining_cents after_credit))"

definition fund_by_preference ::
  "registry \<Rightarrow> instant \<Rightarrow> store \<Rightarrow> reseller \<Rightarrow> invoice \<Rightarrow> payment_method list \<Rightarrow> int \<Rightarrow> (funding_result \<times> store) res" where
  "fund_by_preference reg now s r i ms remaining_cents =
     (if charge_preference r = PAYMENT_FIRST
      then
        ebind (charge_methods reg now s r i ms remaining_cents) (\<lambda>(first, s1).
        if fr_funded first \<or> fr_pending_action first then Inr (first, s1)
        else ebind (apply_credit now s1 r i (fr_remaining_cents first)) (\<lambda>(_, s2). fund_rest reg now s2 r i ms))
      else ebind (apply_credit now s r i remaining_cents) (\<lambda>(_, s1). fund_rest reg now s1 r i ms))"

definition fund_invoice ::
  "registry \<Rightarrow> instant \<Rightarrow> store \<Rightarrow> int \<Rightarrow> int \<Rightarrow> int option \<Rightarrow> (funding_result \<times> store) res" where
  "fund_invoice reg now s reseller_id invoice_id payment_method_id =
     ebind (lock_funding_rows s reseller_id invoice_id) (\<lambda>(r, i).
     let initial = result_of s i False None None in
     if fr_funded initial
     then ebind (mark_paid_if_fully_allocated now s (inv_id i)) (\<lambda>(_, s1). Inr (initial, s1))
     else case pending_funding_result s i of
       Some pending \<Rightarrow> Inr (pending, s)
     | None \<Rightarrow>
         ebind (methods_for s r payment_method_id) (\<lambda>methods.
         if payment_method_id \<noteq> None \<or> inv_purpose i = CREDIT_TOPUP
         then charge_methods reg now s r i methods (fr_remaining_cents initial)
         else fund_by_preference reg now s r i methods (fr_remaining_cents initial)))"

section \<open>The invariant\<close>

text \<open>
  Succeeded payments never exceed the total of an invoice, and a paid invoice is fully covered;
  the invoices in \<open>E\<close> are exempt (while one is being settled).
\<close>

definition payments_ok_but :: "int set \<Rightarrow> store \<Rightarrow> bool" where
  "payments_ok_but E s \<longleftrightarrow> distinct (map pay_id (payments s)) \<and> unique_on pay_external_ref (payments s) \<and>
     (\<forall>p \<in> set (payments s). 0 < pay_amount_cents p) \<and>
     (\<forall>i \<in> set (invoices s). inv_id i \<notin> E \<longrightarrow> allocated_cents s (inv_id i) \<le> inv_amount_cents i \<and>
        (inv_status i = PAID \<longrightarrow> allocated_cents s (inv_id i) = inv_amount_cents i))"

abbreviation payments_ok :: "store \<Rightarrow> bool" where
  "payments_ok s \<equiv> payments_ok_but {} s"

definition funding_ok_but :: "int set \<Rightarrow> store \<Rightarrow> bool" where
  "funding_ok_but E s \<longleftrightarrow> ledger_ok s \<and> invoices_ok s \<and> payments_ok_but E s \<and> outbox_ok s"

abbreviation funding_ok :: "store \<Rightarrow> bool" where
  "funding_ok s \<equiv> funding_ok_but {} s"

text \<open>Everything about invoices but their status and payment time.\<close>

definition invoice_core :: "invoice \<Rightarrow> invoice" where
  "invoice_core i = i\<lparr>inv_status := OPEN, inv_paid_at := None\<rparr>"

definition same_invoices :: "store \<Rightarrow> store \<Rightarrow> bool" where
  "same_invoices s t \<longleftrightarrow> map invoice_core (invoices t) = map invoice_core (invoices s) \<and>
     invoice_sequence t = invoice_sequence s"

lemma invoice_core_fields:
  assumes "invoice_core i = invoice_core j"
  shows "inv_id i = inv_id j" "inv_amount_cents i = inv_amount_cents j" "inv_number i = inv_number j"
    "inv_purpose i = inv_purpose j" "inv_reseller_id i = inv_reseller_id j" "inv_currency i = inv_currency j"
    "inv_service_id i = inv_service_id j"
  using assms by (cases i; cases j; simp add: invoice_core_def)+

lemma same_invoices_refl [simp]: "same_invoices s s"
  by (simp add: same_invoices_def)

lemma same_invoices_trans [trans]: "same_invoices s t \<Longrightarrow> same_invoices t u \<Longrightarrow> same_invoices s u"
  by (simp add: same_invoices_def)

lemma same_invoices_eq: "invoices t = invoices s \<Longrightarrow> invoice_sequence t = invoice_sequence s \<Longrightarrow> same_invoices s t"
  by (simp add: same_invoices_def)

lemma same_invoices_get:
  assumes "same_invoices s t" "get_invoice s n = Some i"
  obtains j where "get_invoice t n = Some j" "invoice_core j = invoice_core i"
proof -
  have "map_option invoice_core (get_row inv_id n xs) = get_row inv_id n (map invoice_core xs)" for xs
    by (induction xs) (auto simp: invoice_core_def)
  then have "map_option invoice_core (get_invoice t n) = map_option invoice_core (get_invoice s n)"
    using assms(1) by (simp add: get_invoice_def same_invoices_def)
  with assms(2) show thesis by (auto intro: that)
qed

lemma numbers_below_cong:
  "map inv_number (invoices t) = map inv_number (invoices s) \<Longrightarrow> invoice_sequence t = invoice_sequence s \<Longrightarrow>
     numbers_below t = numbers_below s"
  by (simp add: numbers_below_def initial_next_value_def largest_number_def split: option.split)

lemma same_invoices_ok:
  assumes "same_invoices s t" "invoices_ok s"
  shows "invoices_ok t"
proof -
  have m: "map f (invoices t) = map f (invoices s)" if "\<And>i. f (invoice_core i) = f i" for f :: "invoice \<Rightarrow> 'a"
  proof -
    have "map f (map invoice_core xs) = map f xs" for xs using that by simp
    then show ?thesis using assms(1) by (metis same_invoices_def)
  qed
  have ids: "map inv_id (invoices t) = map inv_id (invoices s)" "map inv_number (invoices t) = map inv_number (invoices s)"
    "map inv_amount_cents (invoices t) = map inv_amount_cents (invoices s)"
    by (rule m, simp add: invoice_core_def)+
  have nb: "numbers_below t = numbers_below s"
    using assms(1) ids(2) by (intro numbers_below_cong) (simp_all add: same_invoices_def)
  have "\<forall>n \<in> set (map inv_number (invoices s)). n < numbers_below s" "\<forall>a \<in> set (map inv_amount_cents (invoices s)). 0 < a"
    using assms(2) by (auto simp: invoices_ok_def)
  then have "\<forall>i \<in> set (invoices t). inv_number i < numbers_below t \<and> 0 < inv_amount_cents i"
    unfolding ids [symmetric] nb by simp
  then show ?thesis using assms(2) ids(1,2) nb by (simp add: invoices_ok_def)
qed

lemma same_invoices_save:
  assumes "invoices_ok s" "get_invoice s n = Some i" "invoice_core i' = invoice_core i"
  shows "same_invoices s (save_invoice i' s)"
proof -
  have "inv_id i = n" "i \<in> set (invoices s)" using get_invoiceD [OF assms(2)] by auto
  then have i: "inv_id i = n" "i \<in> set (invoices s)" .
  have "invoice_core (if inv_id x = inv_id i' then i' else x) = invoice_core x" if "x \<in> set (invoices s)" for x
  proof (cases "inv_id x = inv_id i'")
    case True
    then have "x = i" using that i assms(1) invoice_core_fields(1) [OF assms(3)]
      by (auto simp: invoices_ok_def distinct_map dest: inj_onD)
    then show ?thesis using True assms(3) by simp
  qed simp
  then have "map invoice_core (put_row inv_id i' (invoices s)) = map invoice_core (invoices s)"
    unfolding put_row_def map_map by simp
  then show ?thesis by (simp add: same_invoices_def invoices_save_invoice)
qed

section \<open>Steps of funding\<close>

lemma allocated_snoc:
  "allocated_cents (s\<lparr>payments := payments s @ [p]\<rparr>) n =
     allocated_cents s n + (if pay_invoice_id p = n \<and> pay_status p = SUCCEEDED then pay_amount_cents p else 0)"
  by (simp add: allocated_cents_def)

lemma insert_payment_Inr:
  "insert_payment s p = Inr t \<longleftrightarrow> t = s\<lparr>payments := payments s @ [p]\<rparr> \<and> 0 < pay_amount_cents p \<and>
     (\<forall>k. pay_external_ref p = Some k \<longrightarrow> (\<forall>x \<in> set (payments s). pay_external_ref x \<noteq> Some k))"
  by (cases "pay_external_ref p") (auto simp: insert_payment_def image_iff)

lemma insert_payment_ok:
  assumes "funding_ok s" "insert_payment s p = Inr t" "pay_id p = fresh_id pay_id (payments s)"
  shows "funding_ok_but (if pay_status p = SUCCEEDED then {pay_invoice_id p} else {}) t"
proof -
  have t: "t = s\<lparr>payments := payments s @ [p]\<rparr>" using assms(2) by (simp add: insert_payment_Inr)
  have "distinct (map pay_id (payments s @ [p]))"
    using assms(1,3) by (intro distinct_insert_row) (auto simp: funding_ok_but_def payments_ok_but_def)
  moreover have "numbers_below t = numbers_below s" by (rule numbers_below_cong) (simp_all add: t)
  then have "ledger_ok t" "invoices_ok t" "outbox_ok t"
    using assms(1) by (simp_all add: t funding_ok_but_def ledger_ok_def invoices_ok_def outbox_ok_def)
  ultimately show ?thesis using assms(1,2)
    by (auto simp: funding_ok_but_def payments_ok_but_def insert_payment_Inr unique_on_snoc allocated_snoc)
qed

text \<open>Updating a stored payment without changing what it allocates.\<close>

lemma allocated_save_same:
  assumes "distinct (map pay_id (payments s))" "p \<in> set (payments s)" "pay_id p' = pay_id p"
    "pay_invoice_id p' = pay_invoice_id p" "pay_amount_cents p' = pay_amount_cents p" "pay_status p' = pay_status p"
  shows "allocated_cents (save_payment p' s) n = allocated_cents s n"
proof -
  have "sum_list (map pay_amount_cents (filter (\<lambda>x. pay_invoice_id x = n \<and> pay_status x = SUCCEEDED) (put_row pay_id p' ps))) =
      sum_list (map pay_amount_cents (filter (\<lambda>x. pay_invoice_id x = n \<and> pay_status x = SUCCEEDED) ps))"
    if "\<forall>x \<in> set ps. pay_id x = pay_id p \<longrightarrow> x = p" for ps
    using that by (induction ps) (auto simp: assms(3-6))
  then show ?thesis using assms(1,2)
    by (simp add: allocated_cents_def save_payment_def distinct_map inj_on_def)
qed

lemma mark_paid_ok:
  assumes ok: "funding_ok_but E s" "E \<subseteq> {n}" and mp: "mark_paid_if_fully_allocated now s n = Inr (i', t)"
  shows "funding_ok t" "same_invoices s t" "payments t = payments s" "resellers t = resellers s" "ledger t = ledger s"
    "get_invoice t n = Some i'" "inv_status i' = PAID \<longleftrightarrow> allocated_cents t n = inv_amount_cents i'" "outbox t = outbox s"
    "payment_methods t = payment_methods s"
proof -
  from mp obtain i where i: "get_invoice s n = Some i" "t = save_invoice i' s" "allocated_cents s n \<le> inv_amount_cents i"
    "inv_status i' = PAID \<longleftrightarrow> allocated_cents s n = inv_amount_cents i"
    "i' = i\<lparr>inv_status := inv_status i', inv_paid_at := inv_paid_at i'\<rparr>"
    by (rule mark_paidE)
  have core: "invoice_core i' = invoice_core i" by (subst i(5)) (simp add: invoice_core_def)
  note f = invoice_core_fields [OF core]
  have id: "inv_id i = n" using get_invoiceD [OF i(1)] by simp
  have inv: "invoices_ok s" "ledger_ok s" "outbox_ok s" using ok by (simp_all add: funding_ok_but_def)
  show si: "same_invoices s t" using same_invoices_save [OF inv(1) i(1) core] i(2) by simp
  show p: "payments t = payments s" "resellers t = resellers s" "ledger t = ledger s" "outbox t = outbox s"
    "payment_methods t = payment_methods s"
    using i(2) by (simp_all add: save_invoice_def)
  have al: "allocated_cents t m = allocated_cents s m" for m using p(1) by (rule allocated_cents_cong)
  show g: "get_invoice t n = Some i'" using i(1,2) f(1) id by (simp add: get_invoice_def save_invoice_def get_put_row)
  show "inv_status i' = PAID \<longleftrightarrow> allocated_cents t n = inv_amount_cents i'" using i(4) f(2) al by simp
  have "payments_ok t"
    using ok i(3,4) f(1,2) id p(1) unfolding payments_ok_but_def funding_ok_but_def al
    by (auto simp: i(2) invoices_save_invoice dest!: put_row_memD)
  moreover have "ledger_ok t" using inv(2) p by (simp add: ledger_ok_def)
  ultimately show "funding_ok t" using same_invoices_ok [OF si inv(1)] inv(3) p by (simp add: funding_ok_but_def outbox_ok_def)
qed

lemma ledger_exec_frame:
  assumes "ledger_exec s x = Inr (e, t)"
  shows "t = s\<lparr>ledger := ledger t, resellers := resellers t\<rparr>"
  using assms
proof (cases rule: ledger_exec_append)
  case 1
  then show ?thesis by simp
next
  case (2 r ty a c)
  from 2(2) show ?thesis by (cases rule: append_lockedE) simp_all
qed

lemma ledger_exec_funding_ok:
  assumes "funding_ok_but E s" "ledger_exec s x = Inr (e, t)"
  shows "funding_ok_but E t" "invoices t = invoices s" "payments t = payments s" "invoice_sequence t = invoice_sequence s"
    "payment_methods t = payment_methods s" "same_invoices s t" "outbox t = outbox s"
proof -
  note f = ledger_exec_frame [OF assms(2)]
  show fr: "invoices t = invoices s" "payments t = payments s" "invoice_sequence t = invoice_sequence s"
    "payment_methods t = payment_methods s" "outbox t = outbox s"
    by (subst f, simp)+
  show si: "same_invoices s t" using fr by (simp add: same_invoices_def)
  have "allocated_cents t n = allocated_cents s n" for n using fr(2) by (rule allocated_cents_cong)
  then show "funding_ok_but E t"
    using assms(1) ledger_exec_ok [OF _ assms(2)] same_invoices_ok [OF si] fr
    by (simp add: funding_ok_but_def payments_ok_but_def outbox_ok_def)
qed

lemma notifyE:
  assumes "notify s r ev key d = Inr t"
  obtains "t = s" | ob where "enqueue s r ev key d None = Inr (ob, t)"
  using assms by (auto simp: notify_def split: sum.splits if_splits)

lemma notify_frame:
  assumes "notify s r ev key d = Inr t"
  shows "t = s\<lparr>outbox := outbox t\<rparr>"
  using assms by (rule notifyE) (auto elim!: enqueueE)

lemma notify_ok:
  assumes "funding_ok_but E s" "notify s r ev key d = Inr t"
  shows "funding_ok_but E t" "invoices t = invoices s" "payments t = payments s" "ledger t = ledger s"
    "resellers t = resellers s" "payment_methods t = payment_methods s" "same_invoices s t"
proof -
  note f = notify_frame [OF assms(2)]
  show fr: "invoices t = invoices s" "payments t = payments s" "ledger t = ledger s" "resellers t = resellers s"
    "payment_methods t = payment_methods s"
    by (subst f, simp)+
  have sq: "invoice_sequence t = invoice_sequence s" by (subst f, simp)
  show si: "same_invoices s t" using fr sq by (simp add: same_invoices_def)
  have ob: "outbox_ok t" using assms(2)
    by (rule notifyE) (use assms(1) in \<open>auto simp: funding_ok_but_def intro: enqueue_ok\<close>)
  have "allocated_cents t n = allocated_cents s n" for n using fr(2) by (rule allocated_cents_cong)
  then show "funding_ok_but E t"
    using assms(1) fr same_invoices_ok [OF si] ob by (simp add: funding_ok_but_def ledger_ok_def payments_ok_but_def)
qed

text \<open>Saving a payment while its invoice is being settled.\<close>

lemma unique_on_put_row:
  assumes "unique_on key rs" "\<And>x k. x \<in> set rs \<Longrightarrow> rid x \<noteq> rid r \<Longrightarrow> key r = Some k \<Longrightarrow> key x \<noteq> Some k"
    and "distinct (map rid rs)"
  shows "unique_on key (put_row rid r rs)"
  using assms
proof (induction rs rule: rev_induct)
  case (snoc x xs)
  have ps: "put_row rid r (xs @ [x]) = put_row rid r xs @ [if rid x = rid r then r else x]" by (simp add: put_row_def)
  have IH: "unique_on key (put_row rid r xs)" using snoc by (intro snoc.IH) (auto simp: unique_on_snoc)
  have new: "key y \<noteq> Some k" if "y \<in> set (put_row rid r xs)" "key (if rid x = rid r then r else x) = Some k" for y k
  proof (cases "rid x = rid r")
    case True
    then have "rid r \<notin> rid ` set xs" using snoc.prems(3) by (metis distinct.simps(2) distinct_append list.set_map list.simps(9) map_append Int_iff emptyE list.set_intros(1))
    with that(1) have "y \<in> set xs" "rid y \<noteq> rid r" by (auto dest!: put_row_memD)
    with that(2) True snoc.prems(2) show ?thesis by simp
  next
    case False
    from put_row_memD [OF that(1)] show ?thesis
    proof
      assume "y = r \<and> rid r \<in> rid ` set xs"
      then show ?thesis using snoc.prems(2) [of x] that(2) False by auto
    next
      assume "y \<in> set xs \<and> rid y \<noteq> rid r"
      then show ?thesis using snoc.prems(1) that(2) False by (auto simp: unique_on_snoc)
    qed
  qed
  show ?case unfolding ps unique_on_snoc using IH new by blast
qed simp

lemma allocated_save_other:
  assumes "\<And>x. x \<in> set (payments s) \<Longrightarrow> pay_id x = pay_id p' \<Longrightarrow> pay_invoice_id x \<noteq> n" "pay_invoice_id p' \<noteq> n"
  shows "allocated_cents (save_payment p' s) n = allocated_cents s n"
proof -
  have "filter (\<lambda>x. pay_invoice_id x = n \<and> pay_status x = SUCCEEDED) (put_row pay_id p' (payments s)) =
    filter (\<lambda>x. pay_invoice_id x = n \<and> pay_status x = SUCCEEDED) (payments s)"
    using assms by (intro filter_put_row_neq) auto
  then show ?thesis by (simp add: allocated_cents_def save_payment_def)
qed

lemma save_payment_ok:
  assumes ok: "funding_ok_but E s" and p: "p \<in> set (payments s)" "pay_id p' = pay_id p" "pay_invoice_id p' = pay_invoice_id p"
    "pay_amount_cents p' = pay_amount_cents p"
    and st: "pay_status p' = pay_status p \<or> pay_invoice_id p \<in> E"
    and ref: "\<And>x k. x \<in> set (payments s) \<Longrightarrow> pay_id x \<noteq> pay_id p \<Longrightarrow> pay_external_ref p' = Some k \<Longrightarrow> pay_external_ref x \<noteq> Some k"
  shows "funding_ok_but E (save_payment p' s)"
proof -
  let ?t = "save_payment p' s"
  have d: "distinct (map pay_id (payments s))" using ok by (simp add: funding_ok_but_def payments_ok_but_def)
  then have one: "x = p" if "x \<in> set (payments s)" "pay_id x = pay_id p'" for x
    using that p(1,2) by (auto simp: distinct_map dest: inj_onD)
  have al: "allocated_cents ?t n = allocated_cents s n" if "n \<notin> E" for n
  proof (cases "pay_invoice_id p = n")
    case True
    then show ?thesis using st that d p by (intro allocated_save_same) auto
  next
    case False
    then show ?thesis using one p(3) by (intro allocated_save_other) auto
  qed
  have "unique_on pay_external_ref (payments ?t)"
    using ok ref d p(2) by (auto simp: save_payment_def funding_ok_but_def payments_ok_but_def intro!: unique_on_put_row)
  moreover have "0 < pay_amount_cents x" if "x \<in> set (payments ?t)" for x
    using that ok p by (auto simp: save_payment_def funding_ok_but_def payments_ok_but_def dest!: set_put_row)
  moreover have "numbers_below ?t = numbers_below s" by (rule numbers_below_cong) (simp_all add: save_payment_def)
  ultimately show ?thesis
    using ok d al by (simp add: funding_ok_but_def payments_ok_but_def ledger_ok_def invoices_ok_def outbox_ok_def save_payment_def)
qed

lemma credit_exec: "credit s i a c = ledger_exec s (Credit i a c)"
  and debit_exec: "debit s i a c neg = ledger_exec s (Debit i a c neg)"
  by simp_all

lemma credit_topupE:
  assumes "credit_topup s i p = Inr (i', t)"
  obtains (no) "i' = i" "t = s" "\<not> (inv_status i = PAID \<and> inv_purpose i = CREDIT_TOPUP)"
  | (yes) e s1 j r where "i' = i" "inv_status i = PAID" "inv_purpose i = CREDIT_TOPUP" "inv_reseller_id i = Some j"
      "credit s (Some j) (inv_amount_cents i) (topup_context i p) = Inr (e, s1)" "get_reseller s1 j = Some r"
      "notify s1 r ''topup_received'' (''topup-received:'' @ show_int (inv_id i)) (invoice_data i) = Inr t"
proof (cases "inv_status i = PAID \<and> inv_purpose i = CREDIT_TOPUP")
  case False
  with assms show thesis by (intro that(1)) (auto simp: credit_topup_def)
next
  case True
  with assms obtain e s1 r where c: "credit s (inv_reseller_id i) (inv_amount_cents i) (topup_context i p) = Inr (e, s1)"
    and b: "Option.bind (inv_reseller_id i) (get_reseller s1) = Some r"
    and n: "notify s1 r ''topup_received'' (''topup-received:'' @ show_int (inv_id i)) (invoice_data i) = Inr t" "i' = i"
    by (auto simp: credit_topup_def ebind_Inr_iff split: option.splits)
  from b obtain j where "inv_reseller_id i = Some j" "get_reseller s1 j = Some r" by (cases "inv_reseller_id i") auto
  with True c n show thesis by (intro that(2) [of j e s1 r]) simp_all
qed

lemma finalize_successE:
  assumes "finalize_success now s p = Inr (i, t)"
  obtains s1 where "mark_paid_if_fully_allocated now (save_payment (finalized now p) s) (pay_invoice_id p) = Inr (i, s1)"
    "credit_topup s1 i (finalized now p) = Inr (i, t)"
proof -
  from assms obtain i0 s1 where m: "mark_paid_if_fully_allocated now (save_payment (finalized now p) s) (pay_invoice_id p) = Inr (i0, s1)"
    and c: "credit_topup s1 i0 (finalized now p) = Inr (i, t)" by (auto simp: finalize_success_def ebind_Inr_iff)
  from c have "i = i0" by (rule credit_topupE)
  with m c show thesis by (intro that) simp_all
qed

lemma finalize_success_ok:
  assumes ok: "funding_ok_but {pay_invoice_id p} (save_payment (finalized now p) s)"
    and fin: "finalize_success now s p = Inr (i, t)"
  shows "funding_ok t" "same_invoices s t" "payments t = payments (save_payment (finalized now p) s)"
    "get_invoice t (pay_invoice_id p) = Some i"
    "inv_status i = PAID \<longleftrightarrow> allocated_cents t (pay_invoice_id p) = inv_amount_cents i"
    "payment_methods t = payment_methods s"
    "inv_purpose i \<noteq> CREDIT_TOPUP \<Longrightarrow> resellers t = resellers s \<and> ledger t = ledger s"
proof -
  let ?s = "save_payment (finalized now p) s"
  from fin obtain s1 where m: "mark_paid_if_fully_allocated now ?s (pay_invoice_id p) = Inr (i, s1)"
    and ct: "credit_topup s1 i (finalized now p) = Inr (i, t)" by (rule finalize_successE)
  note k = mark_paid_ok [OF ok subset_refl m]
  have base: "same_invoices s ?s" "payment_methods ?s = payment_methods s" "resellers ?s = resellers s" "ledger ?s = ledger s"
    by (simp_all add: save_payment_def same_invoices_def)
  have *: "funding_ok t \<and> same_invoices s1 t \<and> payments t = payments s1 \<and> invoices t = invoices s1 \<and>
      payment_methods t = payment_methods s1 \<and> (inv_purpose i \<noteq> CREDIT_TOPUP \<longrightarrow> t = s1)"
    using ct
  proof (cases rule: credit_topupE)
    case no
    then show ?thesis using k(1) by simp
  next
    case (yes e s2 j r)
    note a = ledger_exec_funding_ok [OF k(1) yes(5) [unfolded credit_exec]]
    note b = notify_ok [OF a(1) yes(7)]
    show ?thesis using a b yes(3) same_invoices_trans by auto
  qed
  then have al: "allocated_cents t n = allocated_cents s1 n" for n by (intro allocated_cents_cong) simp
  from * k base show "funding_ok t" "payments t = payments ?s" "payment_methods t = payment_methods s" by auto
  show "same_invoices s t" using * k(2) base(1) by (blast intro: same_invoices_trans)
  show "get_invoice t (pay_invoice_id p) = Some i" using * k(6) by (simp add: get_invoice_def)
  show "inv_status i = PAID \<longleftrightarrow> allocated_cents t (pay_invoice_id p) = inv_amount_cents i" using k(7) al by simp
  show "resellers t = resellers s \<and> ledger t = ledger s" if "inv_purpose i \<noteq> CREDIT_TOPUP" using * that k base by simp
qed

lemma save_invoice_unpaid_ok:
  assumes ok: "funding_ok_but E s" and g: "get_invoice s n = Some j" "invoice_core j' = invoice_core j" "inv_status j' \<noteq> PAID"
  shows "funding_ok_but E (save_invoice j' s)" "same_invoices s (save_invoice j' s)"
proof -
  have inv: "invoices_ok s" using ok by (simp add: funding_ok_but_def)
  show si: "same_invoices s (save_invoice j' s)" using same_invoices_save [OF inv g(1,2)] .
  note f = invoice_core_fields [OF g(2)]
  have j: "j \<in> set (invoices s)" "inv_id j = n" using get_invoiceD [OF g(1)] by auto
  have al: "allocated_cents (save_invoice j' s) m = allocated_cents s m" for m by (rule allocated_cents_cong) simp
  have "payments_ok_but E (save_invoice j' s)"
    using ok j f g(3) unfolding payments_ok_but_def funding_ok_but_def al
    by (auto simp: invoices_save_invoice dest!: put_row_memD)
  then show "funding_ok_but E (save_invoice j' s)"
    using ok same_invoices_ok [OF si inv] by (simp add: funding_ok_but_def ledger_ok_def outbox_ok_def save_invoice_def)
qed

text \<open>What wallet credit has paid towards an invoice.\<close>

definition wallet_spent :: "store \<Rightarrow> int \<Rightarrow> int" where
  "wallet_spent s n = sum_list (map pay_amount_cents (filter (\<lambda>p. pay_invoice_id p = n \<and>
     pay_gateway p = ''credit'' \<and> pay_status p = SUCCEEDED) (payments s)))"

definition paid_in :: "store \<Rightarrow> int \<Rightarrow> bool" where
  "paid_in s n \<longleftrightarrow> (\<exists>j. get_invoice s n = Some j \<and> inv_status j = PAID)"

text \<open>What a step of charging guarantees, from a state \<open>s\<close> to a state \<open>t\<close> with result \<open>res\<close>.\<close>

definition funding_post :: "store \<Rightarrow> store \<Rightarrow> invoice \<Rightarrow> funding_result \<Rightarrow> bool" where
  "funding_post s t i res \<longleftrightarrow> funding_ok t \<and> same_invoices s t \<and> payment_methods t = payment_methods s \<and>
     res = result_of t i (fr_pending_action res) (fr_client_secret res) (fr_payment_id res) \<and>
     (fr_funded res \<longrightarrow> paid_in t (inv_id i)) \<and> (fr_pending_action res \<longrightarrow> \<not> fr_funded res)"

definition charge_post :: "registry \<Rightarrow> store \<Rightarrow> store \<Rightarrow> invoice \<Rightarrow> funding_result \<Rightarrow> bool" where
  "charge_post reg s t i res \<longleftrightarrow> funding_post s t i res \<and>
     (\<not> fr_funded res \<longrightarrow> allocated_cents t (inv_id i) = allocated_cents s (inv_id i)) \<and>
     (inv_purpose i \<noteq> CREDIT_TOPUP \<longrightarrow> resellers t = resellers s \<and> ledger t = ledger s) \<and>
     (reg ''credit'' = None \<longrightarrow> wallet_spent t = wallet_spent s)"

lemma charge_post_trans:
  assumes "charge_post reg s t i res" "\<not> fr_funded res" "charge_post reg t u i res'"
  shows "charge_post reg s u i res'"
  using assms same_invoices_trans [of s t u] unfolding charge_post_def funding_post_def by auto

lemma result_of_fields [simp]:
  "fr_funded (result_of s i b c p) \<longleftrightarrow> allocated_cents s (inv_id i) = inv_amount_cents i"
  "fr_allocated_cents (result_of s i b c p) = allocated_cents s (inv_id i)"
  "fr_remaining_cents (result_of s i b c p) = max 0 (inv_amount_cents i - allocated_cents s (inv_id i))"
  "fr_pending_action (result_of s i b c p) = b" "fr_client_secret (result_of s i b c p) = c"
  "fr_payment_id (result_of s i b c p) = p"
  by (simp_all add: result_of_def Let_def)

lemma charge_post_idle:
  assumes "funding_ok s" "allocated_cents s (inv_id i) \<noteq> inv_amount_cents i"
  shows "charge_post reg s s i (result_of s i False None None)"
  using assms by (simp add: charge_post_def funding_post_def)

lemma lower_credit: "lower ''credit'' = ''credit''"
  by code_simp

lemma wallet_spent_cong: "payments t = payments s \<Longrightarrow> wallet_spent t = wallet_spent s"
  by (rule ext) (simp add: wallet_spent_def)

lemma put_row_last:
  assumes "\<And>x. x \<in> set rs \<Longrightarrow> rid x \<noteq> rid r" "rid r' = rid r"
  shows "put_row rid r' (rs @ [r]) = rs @ [r']"
proof -
  have "map (\<lambda>x. if rid x = rid r' then r' else x) rs = map (\<lambda>x. x) rs"
    using assms by (intro map_cong) auto
  then show ?thesis using assms(2) by (simp add: put_row_def)
qed

lemma charge_methodE:
  assumes "charge_method reg now s r i m amt = Inr (res, t)" "\<not> (t = s \<and> res = result_of s i False None None)"
  obtains gw outcome s1 where "maybe_get reg (pm_provider m) = Some gw"
    "insert_payment s (charge_payment now s i m amt outcome) = Inr s1"
    "settle_charge now s1 i (charge_payment now s i m amt outcome) (cr_client_secret outcome) = Inr (res, t)"
  using assms unfolding charge_method_def Let_def
  by (auto simp: ebind_Inr_iff split: if_splits option.splits)

lemma charge_method_post:
  assumes ok: "funding_ok s" and g: "get_invoice s (inv_id i) = Some j" "invoice_core j = invoice_core i"
    and amt: "0 < amt" "allocated_cents s (inv_id i) + amt = inv_amount_cents i"
    and ch: "charge_method reg now s r i m amt = Inr (res, t)"
  shows "charge_post reg s t i res"
proof (cases "t = s \<and> res = result_of s i False None None")
  case True
  then show ?thesis using ok amt by (auto intro!: charge_post_idle)
next
  case False
  with ch obtain gw outcome s1 where gw: "maybe_get reg (pm_provider m) = Some gw"
    and ins: "insert_payment s (charge_payment now s i m amt outcome) = Inr s1"
    and settle: "settle_charge now s1 i (charge_payment now s i m amt outcome) (cr_client_secret outcome) = Inr (res, t)"
    by (rule charge_methodE)
  define p where "p = charge_payment now s i m amt outcome"
  note ins = ins [folded p_def] and rest = settle [folded p_def, unfolded settle_charge_def]
  have p: "pay_id p = fresh_id pay_id (payments s)" "pay_invoice_id p = inv_id i" "pay_gateway p = pm_provider m"
      "pay_status p = payment_status (cr_status outcome)" "pay_amount_cents p = amt"
    by (simp_all add: p_def charge_payment_def Let_def)
  note ok1 = insert_payment_ok [OF ok ins p(1)]
  have s1: "s1 = s\<lparr>payments := payments s @ [p]\<rparr>" using ins by (simp add: insert_payment_Inr)
  have "reg ''credit'' = None \<Longrightarrow> pay_gateway p \<noteq> ''credit''" using gw p(3) lower_credit by (auto simp: maybe_get_def)
  then have w1: "reg ''credit'' = None \<Longrightarrow> wallet_spent s1 = wallet_spent s" by (auto simp: s1 wallet_spent_def)
  have si1: "same_invoices s s1" "payment_methods s1 = payment_methods s" "resellers s1 = resellers s" "ledger s1 = ledger s"
    by (simp_all add: s1 same_invoices_def)
  have al1: "allocated_cents s1 (inv_id i) = allocated_cents s (inv_id i) + (if pay_status p = SUCCEEDED then amt else 0)"
    using p by (simp add: s1 allocated_snoc)
  have g1: "get_invoice s1 (inv_id i) = Some j" using g by (simp add: s1 get_invoice_def)
  show ?thesis
  proof (cases "pay_status p")
    case PENDING
    let ?j = "j\<lparr>inv_status := PENDING_ACTION\<rparr>"
    have c: "invoice_core ?j = invoice_core j" by (simp add: invoice_core_def)
    have t: "t = save_invoice ?j s1" and res: "res = result_of t i True (cr_client_secret outcome) (Some (pay_id p))"
      using rest PENDING g1 by (auto simp: live_invoice_def Let_def)
    have *: "funding_ok s1" using ok1 PENDING by simp
    note k = save_invoice_unpaid_ok [OF * g1 c]
    have f: "payments t = payments s1" "payment_methods t = payment_methods s1" "resellers t = resellers s1" "ledger t = ledger s1"
      by (simp_all add: t save_invoice_def)
    have al: "allocated_cents t (inv_id i) = allocated_cents s (inv_id i)"
      using al1 PENDING allocated_cents_cong [OF f(1)] by simp
    show ?thesis using k al amt f si1 w1 same_invoices_trans [OF si1(1)] wallet_spent_cong [OF f(1)]
      by (auto simp: charge_post_def funding_post_def res t)
  next
    case SUCCEEDED
    with rest obtain i1 where fin: "finalize_success now s1 p = Inr (i1, t)"
      and res: "res = result_of t i False None (Some (pay_id p))" by (auto simp: ebind_Inr_iff)
    have ok2: "funding_ok_but {pay_invoice_id p} (save_payment (finalized now p) s1)"
      using ok1 SUCCEEDED ins [unfolded insert_payment_Inr]
      by (intro save_payment_ok [of _ _ p]) (auto simp: finalized_def s1)
    note k = finalize_success_ok [OF ok2 fin]
    have pay: "payments t = payments s @ [finalized now p]"
      using k(3) fresh_id_gt [of _ "payments s" pay_id] p(1)
      by (auto simp: save_payment_def s1 finalized_def less_le intro!: put_row_last)
    then have al: "allocated_cents t n = allocated_cents s1 n" for n
      using SUCCEEDED by (simp add: allocated_cents_def s1 finalized_def)
    have w2: "wallet_spent t = wallet_spent s1"
      using SUCCEEDED pay by (auto simp: wallet_spent_def s1 finalized_def)
    from k(2) g1 obtain j' where "get_invoice t (inv_id i) = Some j'" "invoice_core j' = invoice_core j" by (rule same_invoices_get)
    with k(4) p(2) g(2) have i1: "invoice_core i1 = invoice_core i" by simp
    note f = invoice_core_fields [OF i1]
    show ?thesis using k si1 al al1 amt SUCCEEDED w1 w2 p(2) f same_invoices_trans [OF si1(1) k(2)]
      by (auto simp: charge_post_def funding_post_def res paid_in_def)
  next
    case FAILED
    with rest have "t = s1" "res = result_of s1 i False None (Some (pay_id p))" by auto
    then show ?thesis using ok1 FAILED si1 al1 amt w1 by (auto simp: charge_post_def funding_post_def)
  next
    case REFUNDED
    then show ?thesis using p(4) by (cases "cr_status outcome") auto
  qed
qed

lemma charge_loop_post:
  assumes "funding_ok s" "get_invoice s (inv_id i) = Some j" "invoice_core j = invoice_core i"
    "0 < amt" "allocated_cents s (inv_id i) + amt = inv_amount_cents i" "charge_loop reg now s r i ms amt = Inr (res, t)"
  shows "charge_post reg s t i res"
  using assms
proof (induction ms arbitrary: s j)
  case Nil
  then show ?case by (auto intro!: charge_post_idle)
next
  case (Cons m ms)
  from Cons.prems(6) obtain res1 s1 where c: "charge_method reg now s r i m amt = Inr (res1, s1)"
    and rest: "(if fr_funded res1 \<or> fr_pending_action res1 then Inr (res1, s1) else charge_loop reg now s1 r i ms amt) = Inr (res, t)"
    by (auto simp: ebind_Inr_iff)
  note p = charge_method_post [OF Cons.prems(1-5) c]
  show ?case
  proof (cases "fr_funded res1 \<or> fr_pending_action res1")
    case True
    with rest p show ?thesis by auto
  next
    case False
    have s1: "funding_ok s1" "same_invoices s s1" "allocated_cents s1 (inv_id i) = allocated_cents s (inv_id i)"
      using p False by (auto simp: charge_post_def funding_post_def)
    from s1(2) Cons.prems(2) obtain j' where "get_invoice s1 (inv_id i) = Some j'" "invoice_core j' = invoice_core j"
      by (rule same_invoices_get)
    with Cons.IH [OF s1(1)] Cons.prems(3-5) s1(3) rest False have "charge_post reg s1 t i res" by simp
    with p False show ?thesis by (blast intro: charge_post_trans)
  qed
qed

lemma charge_methods_post:
  assumes "funding_ok s" "get_invoice s (inv_id i) = Some j" "invoice_core j = invoice_core i"
    "0 < amt" "allocated_cents s (inv_id i) + amt = inv_amount_cents i" "charge_methods reg now s r i ms amt = Inr (res, t)"
  shows "charge_post reg s t i res"
  using charge_loop_post [OF assms(1-5)] assms(4,6) by (simp add: charge_methods_def)

subsection \<open>Wallet credit\<close>

definition balance_of :: "store \<Rightarrow> int \<Rightarrow> int" where
  "balance_of s n = (case get_reseller s n of None \<Rightarrow> 0 | Some r \<Rightarrow> cached_balance_cents r)"

text \<open>Keys of credit allocations in the ledger belong to stored payments.\<close>

definition credit_keys_ok :: "store \<Rightarrow> bool" where
  "credit_keys_ok s \<longleftrightarrow> (\<forall>e \<in> set (ledger s). \<forall>n p. le_idempotency_key e = Some (invoice_credit_key n p) \<longrightarrow>
     p \<in> pay_id ` set (payments s))"

lemma invoice_credit_key_inject:
  assumes "invoice_credit_key n p = invoice_credit_key m q"
  shows "n = m \<and> p = q"
  using assms append_colon_inject [OF show_int_no_colon show_int_no_colon]
  by (auto simp: invoice_credit_key_def)

definition credit_share :: "store \<Rightarrow> int \<Rightarrow> int \<Rightarrow> int" where
  "credit_share s reseller_id requested = min (max 0 (balance_of s reseller_id)) requested"

lemma apply_creditE:
  assumes "apply_credit now s r i req = Inr (eo, t)" "get_reseller s (r_id r) = Some r0" "0 < req"
  obtains (none) "credit_share s (r_id r) req = 0" "t = s" "eo = None"
  | (some) e s1 s2 i1 where "0 < credit_share s (r_id r) req"
      "insert_payment s (credit_payment now s i (credit_share s (r_id r) req)) = Inr s1"
      "debit s1 (Some (r_id r)) (credit_share s (r_id r) req) (credit_context s r i) False = Inr (e, s2)"
      "mark_paid_if_fully_allocated now (save_payment (with_entry (credit_payment now s i (credit_share s (r_id r) req)) e) s2) (inv_id i) = Inr (i1, t)"
      "eo = Some e"
proof -
  have sh: "min (max 0 (cached_balance_cents (live_reseller s r))) req = credit_share s (r_id r) req"
    using assms(2) by (simp add: live_reseller_def credit_share_def balance_of_def)
  show thesis
  proof (cases "credit_share s (r_id r) req \<le> 0")
    case True
    then have "credit_share s (r_id r) req = 0" using assms(3) by (simp add: credit_share_def)
    with True assms(1) show thesis by (intro that(1)) (simp_all add: apply_credit_def Let_def sh)
  next
    case False
    with assms(1) show thesis
      by (auto simp: apply_credit_def Let_def sh ebind_Inr_iff intro!: that(2))
  qed
qed

lemma key_fresh_for_payment:
  assumes "credit_keys_ok s"
  shows "key_is_new s (credit_context s r i)"
  using assms fresh_id_notin [of pay_id "payments s"] by (auto simp: key_is_new_def credit_context_def credit_keys_ok_def)

lemma key_is_new_cong: "ledger t = ledger s \<Longrightarrow> key_is_new t c = key_is_new s c"
  by (simp add: key_is_new_def)

lemma get_reseller_payments [simp]: "get_reseller (s\<lparr>payments := x\<rparr>) n = get_reseller s n"
  by (simp add: get_reseller_def)

text \<open>The wallet side of an allocation: with a fresh key the balance falls by exactly the amount.\<close>

lemma credit_debit_balance:
  assumes "credit_keys_ok s" "get_reseller s (r_id r) = Some r0" "0 < a"
    "debit (s\<lparr>payments := payments s @ [p]\<rparr>) (Some (r_id r)) a (credit_context s r i) False = Inr (e, t)"
    "pay_id p = fresh_id pay_id (payments s)"
  shows "balance_of t (r_id r) = balance_of s (r_id r) - a" "a \<le> balance_of s (r_id r)" "credit_keys_ok t"
proof -
  let ?s = "s\<lparr>payments := payments s @ [p]\<rparr>"
  let ?e = "new_entry ?s r0 CHARGE (- a) ((credit_context s r i)\<lparr>ctx_reversal_of_id := None\<rparr>)"
  have new: "key_is_new ?s (credit_context s r i)" using key_fresh_for_payment [OF assms(1)] by (simp add: key_is_new_def)
  have "debit ?s (Some (r_id r)) a (credit_context s r i) False =
    (if a \<le> 0 then Inl (CreditLedgerError ''amount_cents must be greater than zero'')
     else if cached_balance_cents r0 < a \<and> \<not> False then Inl (InsufficientCreditError (r_id r) (cached_balance_cents r0) a)
     else (let e = ?e in Inr (e, ?s\<lparr>ledger := ledger ?s @ [e],
                resellers := put_row r_id (r0\<lparr>cached_balance_cents := cached_balance_cents r0 - a\<rparr>) (resellers ?s)\<rparr>)))"
    by (rule debit_cases) (use assms(2) new in simp_all)
  with assms(3,4) have b: "a \<le> cached_balance_cents r0" and t: "t = ?s\<lparr>ledger := ledger s @ [?e],
      resellers := put_row r_id (r0\<lparr>cached_balance_cents := cached_balance_cents r0 - a\<rparr>) (resellers s)\<rparr>"
    by (auto simp: Let_def split: if_splits)
  have id: "r_id r0 = r_id r" using get_resellerD [OF assms(2)] by simp
  show "balance_of t (r_id r) = balance_of s (r_id r) - a"
    using assms(2) id by (simp add: balance_of_def t get_reseller_def get_put_row)
  show "a \<le> balance_of s (r_id r)" using b assms(2) by (simp add: balance_of_def)
  have "q = pay_id p" if "le_idempotency_key ?e = Some (invoice_credit_key n q)" for n q
    using that assms(5) invoice_credit_key_inject by (auto simp: new_entry_def credit_context_def)
  then show "credit_keys_ok t" using assms(1) by (auto simp: credit_keys_ok_def t)
qed

definition credit_post :: "store \<Rightarrow> store \<Rightarrow> reseller \<Rightarrow> invoice \<Rightarrow> int \<Rightarrow> bool" where
  "credit_post s t r i share \<longleftrightarrow> funding_ok t \<and> same_invoices s t \<and> payment_methods t = payment_methods s \<and>
     allocated_cents t (inv_id i) = allocated_cents s (inv_id i) + share \<and>
     wallet_spent t (inv_id i) = wallet_spent s (inv_id i) + share \<and>
     (allocated_cents t (inv_id i) = inv_amount_cents i \<longrightarrow> paid_in t (inv_id i)) \<and>
     (credit_keys_ok s \<longrightarrow> balance_of t (r_id r) = balance_of s (r_id r) - share \<and> credit_keys_ok t)"

lemma apply_credit_post:
  assumes ok: "funding_ok s" and g: "get_invoice s (inv_id i) = Some j" "invoice_core j = invoice_core i"
    and req: "0 < req" "allocated_cents s (inv_id i) + req = inv_amount_cents i" and r: "get_reseller s (r_id r) = Some r0"
    and ac: "apply_credit now s r i req = Inr (eo, t)"
  shows "credit_post s t r i (credit_share s (r_id r) req)"
  using ac r req(1)
proof (cases rule: apply_creditE)
  case none
  then show ?thesis using ok req by (simp add: credit_post_def)
next
  case (some e s1 s2 i1)
  let ?a = "credit_share s (r_id r) req"
  let ?p = "credit_payment now s i ?a"
  let ?s3 = "save_payment (with_entry ?p e) s2"
  have p: "pay_id ?p = fresh_id pay_id (payments s)" "pay_invoice_id ?p = inv_id i" "pay_status ?p = SUCCEEDED" "pay_amount_cents ?p = ?a"
    "pay_gateway ?p = ''credit''"
    by (simp_all add: credit_payment_def)
  have s1: "s1 = s\<lparr>payments := payments s @ [?p]\<rparr>" using some(2) by (simp add: insert_payment_Inr)
  have ok1: "funding_ok_but {inv_id i} s1" using insert_payment_ok [OF ok some(2) p(1)] p by simp
  note k2 = ledger_exec_funding_ok [OF ok1 some(3) [unfolded debit_exec]]
  have ok3: "funding_ok_but {inv_id i} ?s3"
    using k2(1,3) some(2) [unfolded insert_payment_Inr] by (intro save_payment_ok [of _ _ ?p]) (auto simp: with_entry_def s1)
  note k4 = mark_paid_ok [OF ok3 subset_refl some(4)]
  have pay: "payments t = payments s @ [with_entry ?p e]"
    using k4(3) k2(3) fresh_id_gt [of _ "payments s" pay_id] p(1)
    by (auto simp: save_payment_def s1 with_entry_def less_le intro!: put_row_last)
  have al: "allocated_cents t (inv_id i) = allocated_cents s (inv_id i) + ?a" "wallet_spent t (inv_id i) = wallet_spent s (inv_id i) + ?a"
    using pay p by (simp_all add: allocated_cents_def wallet_spent_def with_entry_def)
  have "same_invoices s s1" "same_invoices s2 ?s3" by (simp_all add: s1 same_invoices_def save_payment_def)
  then have si: "same_invoices s t" using k2(6) k4(2) by (blast intro: same_invoices_trans)
  from si g(1) obtain j' where j': "get_invoice t (inv_id i) = Some j'" "invoice_core j' = invoice_core j" by (rule same_invoices_get)
  then have "inv_amount_cents i1 = inv_amount_cents i" using k4(6) g(2) by (intro invoice_core_fields(2)) simp
  then have "paid_in t (inv_id i)" if "allocated_cents t (inv_id i) = inv_amount_cents i" using that k4(6,7) by (auto simp: paid_in_def)
  moreover have "payment_methods t = payment_methods s" using k4(9) k2(5) by (simp add: s1 save_payment_def)
  moreover have "balance_of t (r_id r) = balance_of s (r_id r) - ?a \<and> credit_keys_ok t" if keys: "credit_keys_ok s"
  proof -
    note b = credit_debit_balance [OF keys r some(1) some(3) [unfolded s1] p(1)]
    have f: "resellers t = resellers s2" "ledger t = ledger s2" using k4(4,5) by (simp_all add: save_payment_def)
    have "map pay_id (payments t) = map pay_id (payments s2)" using pay k2(3) by (simp add: s1 with_entry_def)
    then have "pay_id ` set (payments t) = pay_id ` set (payments s2)" by (metis list.set_map)
    then show ?thesis using b(1,3) f by (simp add: balance_of_def get_reseller_def credit_keys_ok_def)
  qed
  ultimately show ?thesis using k4(1) si al by (simp add: credit_post_def)
qed

subsection \<open>The whole operation\<close>

definition wallet_total :: "store \<Rightarrow> int \<Rightarrow> int \<Rightarrow> int" where
  "wallet_total s reseller_id n = balance_of s reseller_id + wallet_spent s n"

definition wallet_kept :: "registry \<Rightarrow> store \<Rightarrow> store \<Rightarrow> int \<Rightarrow> int \<Rightarrow> bool" where
  "wallet_kept reg s t rid n \<longleftrightarrow>
     (reg ''credit'' = None \<longrightarrow> credit_keys_ok s \<longrightarrow> wallet_total t rid n = wallet_total s rid n \<and> credit_keys_ok t)"

lemma wallet_kept_trans: "wallet_kept reg s t rid n \<Longrightarrow> wallet_kept reg t u rid n \<Longrightarrow> wallet_kept reg s u rid n"
  by (auto simp: wallet_kept_def)

lemma charge_post_wallet:
  assumes "charge_post reg s t i res" "inv_purpose i \<noteq> CREDIT_TOPUP" "pay_id ` set (payments s) \<subseteq> pay_id ` set (payments t)"
  shows "wallet_kept reg s t rid n"
proof -
  have f: "resellers t = resellers s" "ledger t = ledger s" "reg ''credit'' = None \<longrightarrow> wallet_spent t = wallet_spent s"
    using assms(1,2) by (auto simp: charge_post_def)
  have "credit_keys_ok s \<longrightarrow> credit_keys_ok t" using assms(3) f(2) unfolding credit_keys_ok_def by (metis subsetD)
  with f show ?thesis by (simp add: wallet_kept_def wallet_total_def balance_of_def get_reseller_def)
qed

lemma credit_post_wallet: "credit_post s t r i a \<Longrightarrow> wallet_kept reg s t (r_id r) (inv_id i)"
  by (auto simp: wallet_kept_def wallet_total_def credit_post_def)

text \<open>Funding only adds payments.\<close>

lemma mark_paid_frame: "mark_paid_if_fully_allocated now s n = Inr (i, t) \<Longrightarrow> t = s\<lparr>invoices := invoices t\<rparr>"
  by (erule mark_paidE) (simp add: save_invoice_def)

lemma finalize_success_payments:
  assumes "finalize_success now s p = Inr (i, t)"
  shows "payments t = put_row pay_id (finalized now p) (payments s)"
proof -
  from assms obtain s1 where m: "mark_paid_if_fully_allocated now (save_payment (finalized now p) s) (pay_invoice_id p) = Inr (i, s1)"
    and ct: "credit_topup s1 i (finalized now p) = Inr (i, t)" by (rule finalize_successE)
  have "payments s1 = put_row pay_id (finalized now p) (payments s)"
    by (subst mark_paid_frame [OF m]) (simp add: save_payment_def)
  moreover from ct have "payments t = payments s1"
  proof (cases rule: credit_topupE)
    case (yes e s2 j r)
    show ?thesis
      by (subst notify_frame [OF yes(7)], subst ledger_exec_frame [OF yes(5) [unfolded credit_exec]]) simp
  qed simp
  ultimately show ?thesis by simp
qed

lemma charge_method_payments:
  assumes "charge_method reg now s r i m amt = Inr (res, t)"
  shows "pay_id ` set (payments s) \<subseteq> pay_id ` set (payments t)"
proof (cases "t = s \<and> res = result_of s i False None None")
  case False
  with assms obtain gw outcome s1 where
    ins: "insert_payment s (charge_payment now s i m amt outcome) = Inr s1"
    and settle: "settle_charge now s1 i (charge_payment now s i m amt outcome) (cr_client_secret outcome) = Inr (res, t)"
    by (rule charge_methodE)
  have "map pay_id (payments t) = map pay_id (payments s1)"
    using settle
    by (auto simp: settle_charge_def Let_def save_invoice_def ebind_Inr_iff finalize_success_payments split: PaymentStatus.splits)
  then have "pay_id ` set (payments t) = pay_id ` set (payments s1)" by (metis list.set_map)
  with ins show ?thesis by (auto simp: insert_payment_Inr)
qed simp

lemma charge_loop_payments:
  "charge_loop reg now s r i ms amt = Inr (res, t) \<Longrightarrow> pay_id ` set (payments s) \<subseteq> pay_id ` set (payments t)"
proof (induction ms arbitrary: s)
  case (Cons m ms)
  then obtain res1 s1 where c: "charge_method reg now s r i m amt = Inr (res1, s1)"
    and rest: "(if fr_funded res1 \<or> fr_pending_action res1 then Inr (res1, s1) else charge_loop reg now s1 r i ms amt) = Inr (res, t)"
    by (auto simp: ebind_Inr_iff)
  have "pay_id ` set (payments s1) \<subseteq> pay_id ` set (payments t)"
    using rest Cons.IH by (cases "fr_funded res1 \<or> fr_pending_action res1") auto
  with charge_method_payments [OF c] show ?case by blast
qed simp

lemma charge_methods_wallet:
  assumes "charge_post reg s t i res" "charge_methods reg now s r i ms amt = Inr (res, t)" "0 < amt" "inv_purpose i \<noteq> CREDIT_TOPUP"
  shows "wallet_kept reg s t rid n"
  using assms charge_loop_payments [of reg now s r i ms amt res t] by (intro charge_post_wallet) (simp_all add: charge_methods_def)

lemma funding_post_trans:
  "same_invoices s t \<Longrightarrow> payment_methods t = payment_methods s \<Longrightarrow> funding_post t u i res \<Longrightarrow> funding_post s u i res"
  using same_invoices_trans by (auto simp: funding_post_def)

text \<open>After wallet credit: either the invoice is settled, or the methods are charged with the rest.\<close>

lemma after_credit_post:
  assumes cp: "credit_post s s1 r i a" "0 \<le> a" "a \<le> rem" and g: "get_invoice s (inv_id i) = Some j" "invoice_core j = invoice_core i"
    and rem: "allocated_cents s (inv_id i) + rem = inv_amount_cents i" and top: "inv_purpose i \<noteq> CREDIT_TOPUP"
    and fin: "fund_rest reg now s1 r i ms = Inr (res, t)"
  shows "funding_post s t i res \<and> wallet_kept reg s t (r_id r) (inv_id i)"
proof -
  have ok1: "funding_ok s1" and si: "same_invoices s s1" and pm: "payment_methods s1 = payment_methods s"
    and al: "allocated_cents s1 (inv_id i) = allocated_cents s (inv_id i) + a"
    using cp(1) by (auto simp: credit_post_def)
  from si g(1) obtain j' where g1: "get_invoice s1 (inv_id i) = Some j'" "invoice_core j' = invoice_core j"
    by (rule same_invoices_get)
  have core: "invoice_core j' = invoice_core i" using g1(2) g(2) by simp
  note w = credit_post_wallet [OF cp(1), of reg]
  show ?thesis
  proof (cases "allocated_cents s1 (inv_id i) = inv_amount_cents i")
    case True
    with fin obtain i1 where m: "mark_paid_if_fully_allocated now s1 (inv_id i) = Inr (i1, t)"
      and res: "res = result_of s1 i False None None" by (auto simp: fund_rest_def Let_def ebind_Inr_iff)
    note k = mark_paid_ok [OF ok1 empty_subsetI m]
    have at: "allocated_cents t (inv_id i) = allocated_cents s1 (inv_id i)" using k(3) by (rule allocated_cents_cong)
    have res': "res = result_of t i False None None" by (simp add: res result_of_def at)
    from k(2) g1(1) obtain j'' where "get_invoice t (inv_id i) = Some j''" "invoice_core j'' = invoice_core j'" by (rule same_invoices_get)
    then have "inv_amount_cents i1 = inv_amount_cents i" using k(6) core by (intro invoice_core_fields(2)) simp
    then have "paid_in t (inv_id i)" using k(6,7) at True by (auto simp: paid_in_def)
    then have "funding_post s1 t i res" using k(1,2,9) by (simp add: funding_post_def res')
    moreover have "wallet_kept reg s1 t (r_id r) (inv_id i)"
      using k(3-5) by (simp add: wallet_kept_def wallet_total_def balance_of_def get_reseller_def wallet_spent_def credit_keys_ok_def)
    ultimately show ?thesis using si pm w by (blast intro: funding_post_trans wallet_kept_trans)
  next
    case False
    let ?rem = "fr_remaining_cents (result_of s1 i False None None)"
    have lt: "0 < ?rem" "allocated_cents s1 (inv_id i) + ?rem = inv_amount_cents i" using False al rem cp(2,3) by simp_all
    from False fin have c: "charge_methods reg now s1 r i ms ?rem = Inr (res, t)" by (simp add: fund_rest_def Let_def)
    note p = charge_methods_post [OF ok1 g1(1) core lt c]
    then have "funding_post s1 t i res" by (simp add: charge_post_def)
    then show ?thesis
      using si pm w charge_methods_wallet [OF p c lt(1) top] by (blast intro: funding_post_trans wallet_kept_trans)
  qed
qed

lemma fund_by_preference_post:
  assumes ok: "funding_ok s" and g: "get_invoice s (inv_id i) = Some j" "invoice_core j = invoice_core i"
    and rem: "0 < rem" "allocated_cents s (inv_id i) + rem = inv_amount_cents i" and r: "get_reseller s (r_id r) = Some r0"
    and top: "inv_purpose i \<noteq> CREDIT_TOPUP" and fp: "fund_by_preference reg now s r i ms rem = Inr (res, t)"
  shows "funding_post s t i res \<and> wallet_kept reg s t (r_id r) (inv_id i)"
proof (cases "charge_preference r = PAYMENT_FIRST")
  case False
  with fp obtain eo s1 where a: "apply_credit now s r i rem = Inr (eo, s1)"
    and fin: "fund_rest reg now s1 r i ms = Inr (res, t)"
    by (auto simp: fund_by_preference_def ebind_Inr_iff)
  note cp = apply_credit_post [OF ok g rem r a]
  show ?thesis by (rule after_credit_post [OF cp _ _ g rem(2) top fin]) (use rem in \<open>simp_all add: credit_share_def\<close>)
next
  case True
  with fp obtain res1 s1 where c: "charge_methods reg now s r i ms rem = Inr (res1, s1)"
    and rest: "(if fr_funded res1 \<or> fr_pending_action res1 then Inr (res1, s1)
      else ebind (apply_credit now s1 r i (fr_remaining_cents res1)) (\<lambda>(_, s2). fund_rest reg now s2 r i ms)) = Inr (res, t)"
    by (auto simp: fund_by_preference_def ebind_Inr_iff)
  note p = charge_methods_post [OF ok g rem c]
  note w = charge_methods_wallet [OF p c rem(1) top]
  show ?thesis
  proof (cases "fr_funded res1 \<or> fr_pending_action res1")
    case True
    with rest p w show ?thesis by (auto simp: charge_post_def)
  next
    case False
    have s1: "funding_ok s1" "same_invoices s s1" "payment_methods s1 = payment_methods s" "resellers s1 = resellers s"
      "allocated_cents s1 (inv_id i) = allocated_cents s (inv_id i)"
      "res1 = result_of s1 i (fr_pending_action res1) (fr_client_secret res1) (fr_payment_id res1)"
      using p False top by (auto simp: charge_post_def funding_post_def)
    have "fr_remaining_cents res1 = rem" using s1(5) rem by (subst s1(6)) simp
    with rest False obtain eo s2 where a: "apply_credit now s1 r i rem = Inr (eo, s2)"
      and fin: "fund_rest reg now s2 r i ms = Inr (res, t)"
      by (auto simp: ebind_Inr_iff)
    from s1(2) g(1) obtain j' where g1: "get_invoice s1 (inv_id i) = Some j'" "invoice_core j' = invoice_core j"
      by (rule same_invoices_get)
    have core: "invoice_core j' = invoice_core i" using g1(2) g(2) by simp
    have r1: "get_reseller s1 (r_id r) = Some r0" using r s1(4) by (simp add: get_reseller_def)
    have rem1: "allocated_cents s1 (inv_id i) + rem = inv_amount_cents i" using s1(5) rem by simp
    note cp = apply_credit_post [OF s1(1) g1(1) core rem(1) rem1 r1 a]
    have "funding_post s1 t i res \<and> wallet_kept reg s1 t (r_id r) (inv_id i)"
      by (rule after_credit_post [OF cp _ _ g1(1) core rem1 top fin]) (use rem in \<open>simp_all add: credit_share_def\<close>)
    then show ?thesis using s1(2,3) w by (blast intro: funding_post_trans wallet_kept_trans)
  qed
qed

lemma lock_funding_rowsE:
  assumes "lock_funding_rows s rid n = Inr (r, i)"
  obtains "get_reseller s rid = Some r" "get_invoice s n = Some i" "inv_reseller_id i = Some rid" "inv_status i \<noteq> VOID"
    "r_id r = rid" "inv_id i = n"
  using assms get_resellerD [of s rid] get_invoiceD [of s n]
  by (auto simp: lock_funding_rows_def split: option.splits if_splits)

lemma settle_funded_post:
  assumes ok: "funding_ok s" and g: "get_invoice s (inv_id i) = Some i" and full: "allocated_cents s (inv_id i) = inv_amount_cents i"
    and m: "mark_paid_if_fully_allocated now s (inv_id i) = Inr (i1, t)"
  shows "funding_post s t i (result_of s i False None None) \<and> wallet_kept reg s t rid (inv_id i)"
proof -
  note k = mark_paid_ok [OF ok empty_subsetI m]
  have at: "allocated_cents t (inv_id i) = allocated_cents s (inv_id i)" using k(3) by (rule allocated_cents_cong)
  from k(2) g obtain j where "get_invoice t (inv_id i) = Some j" "invoice_core j = invoice_core i" by (rule same_invoices_get)
  then have "inv_amount_cents i1 = inv_amount_cents i" using k(6) by (intro invoice_core_fields(2)) simp
  then have "paid_in t (inv_id i)" using k(6,7) at full by (auto simp: paid_in_def)
  moreover have "result_of s i False None None = result_of t i False None None" by (simp add: result_of_def at)
  moreover have "wallet_kept reg s t rid (inv_id i)"
    using k(3-5) by (simp add: wallet_kept_def wallet_total_def balance_of_def get_reseller_def wallet_spent_def credit_keys_ok_def)
  ultimately show ?thesis using k(1,2,9) by (simp add: funding_post_def)
qed

lemma fund_invoice_post:
  assumes ok: "funding_ok s" and fi: "fund_invoice reg now s rid n mid = Inr (res, t)"
  obtains r i where "get_reseller s rid = Some r" "get_invoice s n = Some i" "inv_reseller_id i = Some rid" "inv_status i \<noteq> VOID"
    "funding_post s t i res" "inv_purpose i \<noteq> CREDIT_TOPUP \<longrightarrow> wallet_kept reg s t rid n"
proof -
  from fi obtain r i where l: "lock_funding_rows s rid n = Inr (r, i)" by (auto simp: fund_invoice_def ebind_Inr_iff)
  from l have rows: "get_reseller s rid = Some r" "get_invoice s n = Some i" "inv_reseller_id i = Some rid" "inv_status i \<noteq> VOID"
    and ids: "r_id r = rid" "inv_id i = n" by (auto elim: lock_funding_rowsE)
  have g: "get_invoice s (inv_id i) = Some i" using rows(2) ids by simp
  have "funding_post s t i res \<and> (inv_purpose i \<noteq> CREDIT_TOPUP \<longrightarrow> wallet_kept reg s t rid n)"
  proof (cases "allocated_cents s n = inv_amount_cents i")
    case True
    with fi l ids obtain i1 where m: "mark_paid_if_fully_allocated now s (inv_id i) = Inr (i1, t)" and "res = result_of s i False None None"
      by (auto simp: fund_invoice_def Let_def ebind_Inr_iff)
    then show ?thesis using settle_funded_post [OF ok g _ m] True ids by simp
  next
    case False
    have le: "allocated_cents s n \<le> inv_amount_cents i"
      using ok get_invoiceD [OF rows(2)] by (auto simp: funding_ok_but_def payments_ok_but_def)
    let ?rem = "fr_remaining_cents (result_of s i False None None)"
    have rem: "0 < ?rem" "allocated_cents s (inv_id i) + ?rem = inv_amount_cents i" using False le ids by simp_all
    show ?thesis
    proof (cases "pending_funding_result s i")
      case (Some pending)
      with fi l False ids have "t = s" "res = pending" by (simp_all add: fund_invoice_def Let_def)
      moreover from Some obtain pid where "pending = result_of s i True None (Some pid)"
        by (auto simp: pending_funding_result_def split: if_splits list.splits)
      ultimately show ?thesis using ok False ids by (simp add: funding_post_def wallet_kept_def)
    next
      case None
      with fi l False ids obtain ms where
        ch: "(if mid \<noteq> None \<or> inv_purpose i = CREDIT_TOPUP then charge_methods reg now s r i ms ?rem
           else fund_by_preference reg now s r i ms ?rem) = Inr (res, t)"
        by (auto simp: fund_invoice_def Let_def ebind_Inr_iff)
      show ?thesis
      proof (cases "mid \<noteq> None \<or> inv_purpose i = CREDIT_TOPUP")
        case True
        with ch have c: "charge_methods reg now s r i ms ?rem = Inr (res, t)" by simp
        note p = charge_methods_post [OF ok g refl rem c]
        then show ?thesis using charge_methods_wallet [OF p c rem(1)] by (simp add: charge_post_def)
      next
        case False
        with ch have "fund_by_preference reg now s r i ms ?rem = Inr (res, t)" by simp
        from fund_by_preference_post [OF ok g refl rem _ _ this, of r] rows(1) ids False show ?thesis by simp
      qed
    qed
  qed
  with rows show thesis by (intro that) auto
qed

section \<open>Concrete rows\<close>

text \<open>A gateway that answers every charge with a given status and reference.\<close>

definition sample_gateway :: "string \<Rightarrow> GatewayResultStatus \<Rightarrow> string option \<Rightarrow> gateway" where
  "sample_gateway name st ref = \<lparr>gw_name = name, create_customer = (\<lambda>_ _. Inr ''cus_1''),
     create_setup_intent = (\<lambda>_. Inr (''seti_1'', ''secret'')),
     get_payment_method = (\<lambda>m. Inr \<lparr>gm_external_ref = m, gm_customer_ref = Some ''cus_1'', gm_method_type = ''card'',
        gm_label = None, gm_brand = Some ''visa'', gm_last4 = Some ''4242'', gm_merchant_customer_id = None\<rparr>),
     detach_payment_method = (\<lambda>_. Inr ()),
     charge_off_session = (\<lambda>q. Inr \<lparr>cr_status = st, cr_external_ref = ref, cr_client_secret = Some ''cs'',
        cr_failure_code = None, cr_failure_message = None\<rparr>),
     refund_payment = (\<lambda>q. Inr \<lparr>rr_status = st, rr_external_ref = ref, rr_failure_code = None, rr_failure_message = None\<rparr>),
     create_vault_setup = Some (\<lambda>_ _. Inr \<lparr>vs_external_ref = ''setup_1'', vs_approval_url = ''u'', vs_customer_ref = Some ''cus_1''\<rparr>),
     complete_vault_setup = Some (\<lambda>_. Inr \<lparr>gm_external_ref = ''tok_1'', gm_customer_ref = Some ''cus_1'', gm_method_type = ''paypal'',
        gm_label = None, gm_brand = None, gm_last4 = None, gm_merchant_customer_id = None\<rparr>)\<rparr>"

definition sample_registry :: "GatewayResultStatus \<Rightarrow> registry" where
  "sample_registry st = register (\<lambda>_. None) (sample_gateway ''Stripe'' st (Some ''pi_1''))"

definition sample_method :: "int \<Rightarrow> int \<Rightarrow> string \<Rightarrow> payment_method" where
  "sample_method i tier provider = \<lparr>pm_id = i, pm_reseller_id = 1, pm_provider = provider, pm_method_type = ''card'',
     pm_provider_customer_ref = Some ''cus_1'', pm_provider_method_ref = ''pm_'' @ show_int i, pm_label = None,
     pm_brand = None, pm_last4 = None, pm_tier = tier, pm_enabled = True\<rparr>"

text \<open>A reseller with 500 cents credited, an open invoice of 700 cents and one saved Stripe method.\<close>

definition sample_entry :: ledger_entry where
  "sample_entry = \<lparr>le_id = 1, le_reseller_id = 1, le_entry_type = TOPUP, le_amount_cents = 500,
     le_balance_after_cents = 500, le_description = None, le_invoice_id = None, le_payment_id = None,
     le_service_id = None, le_reversal_of_id = None, le_reference_type = None, le_reference_id = None,
     le_idempotency_key = None, le_metadata = [], le_created_by_user_id = None\<rparr>"

definition sample_funding :: store where
  "sample_funding = empty_store\<lparr>resellers := [sample_reseller 1 500], ledger := [sample_entry],
     invoices := [sample_invoice 1 100001 700, (sample_invoice 2 100002 400)\<lparr>inv_purpose := CREDIT_TOPUP\<rparr>],
     invoice_sequence := Some 100003,
     payment_methods := [sample_method 1 1 ''stripe'']\<rparr>"

lemma sample_funding_ok: "funding_ok sample_funding"
  by (simp add: funding_ok_but_def ledger_ok_def invoices_ok_def payments_ok_but_def outbox_ok_def sample_funding_def
        sample_reseller_def sample_entry_def sample_invoice_def empty_store_def numbers_below_def FIRST_NUMBER_def
        chain_ok_def reversal_ok_def unique_on_def allocated_cents_def)

lemma sample_funding_keys: "credit_keys_ok sample_funding"
  by (simp add: credit_keys_ok_def sample_funding_def sample_entry_def)

section \<open>Properties\<close>

text \<open>
  C2: funding, whatever the gateways answer: if it returns, the invoice belongs to the reseller and
  is not void, no invoice has more succeeded payments than its total, every paid invoice is fully
  covered, the ledger and invoice invariants hold, invoices keep their amounts; the result reports
  exactly what is allocated and what remains, \<open>funded\<close> means fully allocated, and then the invoice
  is stored as paid; a result waiting for an action is not funded.
\<close>

theorem fund_invoice_sound:
  assumes "funding_ok s" "fund_invoice reg now s rid n mid = Inr (res, t)"
  shows "\<exists>i. get_invoice s n = Some i \<and> inv_reseller_id i = Some rid \<and> inv_status i \<noteq> VOID \<and> funding_ok t \<and> same_invoices s t \<and>
    fr_allocated_cents res = allocated_cents t n \<and> fr_allocated_cents res + fr_remaining_cents res = inv_amount_cents i \<and>
    (fr_funded res \<longleftrightarrow> allocated_cents t n = inv_amount_cents i) \<and> (fr_funded res \<longrightarrow> paid_in t n) \<and>
    (fr_pending_action res \<longrightarrow> \<not> fr_funded res)"
proof -
  from assms obtain r i where g: "get_invoice s n = Some i" "inv_reseller_id i = Some rid" "inv_status i \<noteq> VOID"
    and p: "funding_post s t i res" by (rule fund_invoice_post)
  have id: "inv_id i = n" using get_invoiceD [OF g(1)] by simp
  from p have ok: "funding_ok t" and si: "same_invoices s t"
    and res: "res = result_of t i (fr_pending_action res) (fr_client_secret res) (fr_payment_id res)"
    by (auto simp: funding_post_def)
  from si g(1) obtain j where j: "get_invoice t n = Some j" "invoice_core j = invoice_core i" by (rule same_invoices_get)
  have "allocated_cents t n \<le> inv_amount_cents i"
    using ok get_invoiceD [OF j(1)] invoice_core_fields(2) [OF j(2)] by (auto simp: funding_ok_but_def payments_ok_but_def)
  moreover have "fr_allocated_cents res = allocated_cents t n" "fr_remaining_cents res = max 0 (inv_amount_cents i - allocated_cents t n)"
    "fr_funded res \<longleftrightarrow> allocated_cents t n = inv_amount_cents i" by (subst res, simp add: id)+
  ultimately show ?thesis using p g id ok si by (auto simp: funding_post_def)
qed

theorem fund_invoice_sound_witness:
  "\<exists>res t. fund_invoice (sample_registry GW_SUCCEEDED) 7 sample_funding 1 1 None = Inr (res, t) \<and>
     fr_funded res \<and> allocated_cents t 1 = 700 \<and> paid_in t 1 \<and> funding_ok t \<and>
     map pay_amount_cents (payments t) = [500, 200]"
proof -
  let ?f = "fund_invoice (sample_registry GW_SUCCEEDED) 7 sample_funding 1 1 None"
  have "(case ?f of Inl _ \<Rightarrow> None | Inr (res, t) \<Rightarrow> Some (fr_funded res, map pay_amount_cents (payments t))) = Some (True, [500, 200])"
    by code_simp
  then obtain res t where f: "?f = Inr (res, t)" "fr_funded res" "map pay_amount_cents (payments t) = [500, 200]"
    by (auto split: sum.splits)
  have "get_invoice sample_funding 1 = Some (sample_invoice 1 100001 700)"
    by (simp add: get_invoice_def sample_funding_def sample_invoice_def)
  moreover have "inv_amount_cents (sample_invoice 1 100001 700) = 700" by (simp add: sample_invoice_def)
  ultimately show ?thesis using fund_invoice_sound [OF sample_funding_ok f(1)] f by auto
qed

text \<open>
  C3: funding never creates or loses wallet money: the balance of the reseller plus what wallet
  credit has paid towards the invoice stays the same, for every invoice but a top-up, whatever the
  gateways answer, provided no gateway is registered under the wallet's own name and the keys of the wallet's debits are those of
  its payments, which funding keeps.
\<close>

theorem fund_invoice_conserves_wallet:
  assumes "funding_ok s" "credit_keys_ok s" "reg ''credit'' = None" "fund_invoice reg now s rid n mid = Inr (res, t)"
    "get_invoice s n = Some i" "inv_purpose i \<noteq> CREDIT_TOPUP"
  shows "balance_of t rid + wallet_spent t n = balance_of s rid + wallet_spent s n \<and> credit_keys_ok t"
proof -
  from assms(1,4) obtain r i' where "get_invoice s n = Some i'" "inv_purpose i' \<noteq> CREDIT_TOPUP \<longrightarrow> wallet_kept reg s t rid n"
    by (rule fund_invoice_post)
  with assms show ?thesis by (simp add: wallet_kept_def wallet_total_def)
qed


theorem fund_invoice_conserves_wallet_witness:
  "\<exists>res t. fund_invoice (sample_registry GW_SUCCEEDED) 7 sample_funding 1 1 None = Inr (res, t) \<and>
     balance_of t 1 = 0 \<and> wallet_spent t 1 = 500 \<and> balance_of t 1 + wallet_spent t 1 = balance_of sample_funding 1 + wallet_spent sample_funding 1"
proof -
  let ?f = "fund_invoice (sample_registry GW_SUCCEEDED) 7 sample_funding 1 1 None"
  have "(case ?f of Inl _ \<Rightarrow> None | Inr (res, t) \<Rightarrow> Some (balance_of t 1, wallet_spent t 1)) = Some (0, 500)"
    by code_simp
  then obtain res t where f: "?f = Inr (res, t)" "balance_of t 1 = 0" "wallet_spent t 1 = 500" by (auto split: sum.splits)
  have "sample_registry GW_SUCCEEDED ''credit'' = None" by code_simp
  moreover have "get_invoice sample_funding 1 = Some (sample_invoice 1 100001 700)" "inv_purpose (sample_invoice 1 100001 700) \<noteq> CREDIT_TOPUP"
    by (simp_all add: get_invoice_def sample_funding_def sample_invoice_def)
  ultimately show ?thesis using fund_invoice_conserves_wallet [OF sample_funding_ok sample_funding_keys _ f(1)] f by auto
qed

lemma mark_paid_total:
  assumes "get_invoice s n = Some i" "allocated_cents s n \<le> inv_amount_cents i"
  shows "\<exists>i' t. mark_paid_if_fully_allocated now s n = Inr (i', t)"
  using assms get_invoiceD [OF assms(1)] by (simp add: mark_paid_if_fully_allocated_def Let_def)

lemma apply_credit_total:
  assumes ok: "funding_ok s" and keys: "credit_keys_ok s" and g: "get_invoice s (inv_id i) = Some i"
    and r: "get_reseller s (r_id r) = Some r" and req: "0 < req" "req \<le> cached_balance_cents r"
    "allocated_cents s (inv_id i) + req = inv_amount_cents i"
    and ref: "Some (credit_ref (inv_id i) (credit_ordinal s (inv_id i) + 1)) \<notin> pay_external_ref ` set (payments s)"
  shows "\<exists>eo t. apply_credit now s r i req = Inr (eo, t)"
proof -
  let ?p = "credit_payment now s i req"
  let ?s1 = "s\<lparr>payments := payments s @ [?p]\<rparr>"
  have live: "live_reseller s r = r" using r by (simp add: live_reseller_def)
  have ins: "insert_payment s ?p = Inr ?s1" using req ref by (auto simp: insert_payment_def credit_payment_def)
  have new: "key_is_new ?s1 (credit_context s r i)" using key_fresh_for_payment [OF keys] by (simp add: key_is_new_def)
  have "\<exists>e s2. debit ?s1 (Some (r_id r)) req (credit_context s r i) False = Inr (e, s2)"
    using debit_cases [of ?s1 "r_id r" r "credit_context s r i" req False] r new req by (simp add: Let_def)
  then obtain e s2 where d: "debit ?s1 (Some (r_id r)) req (credit_context s r i) False = Inr (e, s2)" by blast
  have ok1: "funding_ok_but {inv_id i} ?s1" using insert_payment_ok [OF ok ins] by (simp add: credit_payment_def)
  note k = ledger_exec_funding_ok [OF ok1 d [unfolded debit_exec]]
  let ?s3 = "save_payment (with_entry ?p e) s2"
  have "payments ?s3 = payments s @ [with_entry ?p e]"
    using k(3) fresh_id_gt [of _ "payments s" pay_id]
    by (auto simp: save_payment_def with_entry_def credit_payment_def less_le intro!: put_row_last)
  then have "allocated_cents ?s3 (inv_id i) = inv_amount_cents i"
    using req(3) by (simp add: allocated_cents_def with_entry_def credit_payment_def)
  moreover have "get_invoice ?s3 (inv_id i) = Some i" using g k(2) by (simp add: get_invoice_def save_payment_def)
  ultimately obtain i' t where "mark_paid_if_fully_allocated now ?s3 (inv_id i) = Inr (i', t)"
    using mark_paid_total [of ?s3 "inv_id i" i now] by auto
  then show ?thesis using ins d req by (simp add: apply_credit_def Let_def live min_absorb2)
qed

text \<open>
  When credit comes first and the balance covers what is open, the invoice is paid from the
  wallet alone: the call succeeds with the same outcome whatever gateways and saved methods there
  are, the invoice is funded and paid, and the balance falls by exactly the open amount.
\<close>

theorem credit_first_needs_no_gateway:
  assumes ok: "funding_ok s" "credit_keys_ok s" and rows: "get_reseller s rid = Some r" "get_invoice s n = Some i"
    and own: "inv_reseller_id i = Some rid" "inv_status i \<noteq> VOID" "inv_status i \<noteq> PENDING_ACTION" "inv_purpose i \<noteq> CREDIT_TOPUP"
    and pref: "charge_preference r = CREDIT_FIRST"
    and due: "allocated_cents s n < inv_amount_cents i" "inv_amount_cents i - allocated_cents s n \<le> cached_balance_cents r"
    and ref: "Some (credit_ref n (credit_ordinal s n + 1)) \<notin> pay_external_ref ` set (payments s)"
  shows "\<exists>res t. (\<forall>reg. fund_invoice reg now s rid n None = Inr (res, t)) \<and> fr_funded res \<and> paid_in t n \<and>
    balance_of t rid = cached_balance_cents r - (inv_amount_cents i - allocated_cents s n)"
proof -
  let ?req = "inv_amount_cents i - allocated_cents s n"
  have ids: "inv_id i = n" "r_id r = rid" using get_invoiceD [OF rows(2)] get_resellerD [OF rows(1)] by auto
  have g: "get_invoice s (inv_id i) = Some i" and gr: "get_reseller s (r_id r) = Some r" using rows ids by simp_all
  have req: "0 < ?req" "allocated_cents s (inv_id i) + ?req = inv_amount_cents i" using due ids by simp_all
  obtain eo s1 where ac: "apply_credit now s r i ?req = Inr (eo, s1)"
    using apply_credit_total [OF ok(1,2) g gr req(1) due(2) req(2), of now] ref ids by auto
  note p = apply_credit_post [OF ok(1) g refl req gr ac]
  have share: "credit_share s (r_id r) ?req = ?req" using due gr by (simp add: credit_share_def balance_of_def)
  have full: "allocated_cents s1 (inv_id i) = inv_amount_cents i" and ok1: "funding_ok s1" and si: "same_invoices s s1"
    and bal: "balance_of s1 (r_id r) = cached_balance_cents r - ?req"
    using p share ids gr ok(2) by (simp_all add: credit_post_def balance_of_def)
  from si g obtain j where j: "get_invoice s1 (inv_id i) = Some j" "invoice_core j = invoice_core i" by (rule same_invoices_get)
  then obtain i2 t where m: "mark_paid_if_fully_allocated now s1 (inv_id i) = Inr (i2, t)"
    using mark_paid_total [OF j(1), of now] full invoice_core_fields(2) [OF j(2)] by auto
  note k = mark_paid_ok [OF ok1 empty_subsetI m]
  have "fund_invoice reg now s rid n None = Inr (result_of s1 i False None None, t)" for reg
    using rows own ids due full m pref ac
    by (simp add: fund_invoice_def lock_funding_rows_def Let_def pending_funding_result_def methods_for_def
          fund_by_preference_def fund_rest_def)
  moreover have "paid_in t n"
  proof -
    from k(2) j(1) obtain j' where "get_invoice t (inv_id i) = Some j'" "invoice_core j' = invoice_core j" by (rule same_invoices_get)
    then have "inv_amount_cents i2 = inv_amount_cents i" using k(6) j(2) by (intro invoice_core_fields(2)) simp
    moreover have "allocated_cents t (inv_id i) = inv_amount_cents i" using full allocated_cents_cong [OF k(3)] by simp
    ultimately show ?thesis using k(6,7) ids by (auto simp: paid_in_def)
  qed
  moreover have "balance_of t rid = cached_balance_cents r - ?req" using bal k(4) ids by (simp add: balance_of_def get_reseller_def)
  ultimately show ?thesis using full by (intro exI [of _ "result_of s1 i False None None"] exI [of _ t]) simp
qed


theorem credit_first_needs_no_gateway_witness:
  "\<exists>res t. (\<forall>reg. fund_invoice reg 7 (sample_funding\<lparr>invoices := [sample_invoice 1 100001 300]\<rparr>) 1 1 None = Inr (res, t)) \<and>
     fr_funded res \<and> paid_in t 1 \<and> balance_of t 1 = 200"
proof -
  let ?s = "sample_funding\<lparr>invoices := [sample_invoice 1 100001 300]\<rparr>"
  have ok: "funding_ok ?s"
    by (simp add: funding_ok_but_def ledger_ok_def invoices_ok_def payments_ok_but_def outbox_ok_def sample_funding_def
        sample_reseller_def sample_entry_def sample_invoice_def empty_store_def numbers_below_def FIRST_NUMBER_def
        chain_ok_def reversal_ok_def unique_on_def allocated_cents_def)
  have keys: "credit_keys_ok ?s" using sample_funding_keys by (simp add: credit_keys_ok_def)
  have rows: "get_reseller ?s 1 = Some (sample_reseller 1 500)" "get_invoice ?s 1 = Some (sample_invoice 1 100001 300)"
    by (simp_all add: get_reseller_def get_invoice_def sample_funding_def sample_reseller_def sample_invoice_def)
  have al: "allocated_cents ?s 1 = 0" "payments ?s = []" by (simp_all add: allocated_cents_def sample_funding_def empty_store_def)
  show ?thesis
    using credit_first_needs_no_gateway [OF ok keys rows, of 7] al
    by (simp add: sample_invoice_def sample_reseller_def)
qed

lemma put_row_same:
  assumes "distinct (map rid rs)" "r \<in> set rs"
  shows "put_row rid r rs = rs"
proof -
  have "(if rid x = rid r then r else x) = x" if "x \<in> set rs" for x
    using assms that by (auto simp: distinct_map dest: inj_onD)
  then show ?thesis by (simp add: put_row_def map_idI)
qed

lemma finalized_again: "finalized now' (finalized now p) = finalized now p"
  by (simp add: finalized_def)

lemma mark_paid_again:
  assumes d: "distinct (map inv_id (invoices t))" and g: "get_invoice t n = Some i"
    and al: "inv_status i = PAID \<longleftrightarrow> allocated_cents t n = inv_amount_cents i" "allocated_cents t n \<le> inv_amount_cents i"
    and pt: "inv_status i = PAID \<longrightarrow> inv_paid_at i \<noteq> None"
  shows "mark_paid_if_fully_allocated now t n = Inr (i, t)"
proof -
  have i: "i \<in> set (invoices t)" "inv_id i = n" using get_invoiceD [OF g] by auto
  have "put_row inv_id i (invoices t) = invoices t" using d i(1) by (rule put_row_same)
  then have sv: "save_invoice i t = t" by (simp add: save_invoice_def)
  have same: "i\<lparr>inv_status := PAID, inv_paid_at := Some (case inv_paid_at i of None \<Rightarrow> now | Some x \<Rightarrow> x)\<rparr> = i"
    if "inv_status i = PAID" using that pt by (cases i) auto
  let ?i = "if allocated_cents t n = inv_amount_cents i
    then i\<lparr>inv_status := PAID, inv_paid_at := Some (case inv_paid_at i of None \<Rightarrow> now | Some x \<Rightarrow> x)\<rparr>
    else if inv_status i = PAID then i\<lparr>inv_status := OPEN, inv_paid_at := None\<rparr> else i"
  have "mark_paid_if_fully_allocated now t n = Inr (?i, save_invoice ?i t)"
    using al(2) g i(2) by (simp add: mark_paid_if_fully_allocated_def Let_def)
  moreover have "?i = i" using al(1) same by presburger
  ultimately show ?thesis using sv by simp
qed

lemma notify_again: "outbox_ok s \<Longrightarrow> notify s r ev key d = Inr t \<Longrightarrow> notify t r ev key d = Inr t"
proof -
  assume ok: "outbox_ok s" and n: "notify s r ev key d = Inr t"
  show "notify t r ev key d = Inr t"
  proof (cases "enqueue s r ev key d None")
    case (Inl e)
    with n have "t = s" by (auto simp: notify_def split: if_splits)
    with n show ?thesis by simp
  next
    case (Inr x)
    with n obtain ob where e: "enqueue s r ev key d None = Inr (ob, t)" by (cases x) (auto simp: notify_def)
    from enqueue_again [OF ok e] show ?thesis by (simp add: notify_def)
  qed
qed

lemma credit_again:
  assumes "ledger_ok t" "credit s (Some j) a c = Inr (e, s2)" "ctx_idempotency_key c \<noteq> None"
    "ledger t = ledger s2" "resellers t = resellers s2"
  shows "credit t (Some j) a c = Inr (e, t)"
proof -
  let ?c = "c\<lparr>ctx_reversal_of_id := None\<rparr>"
  from assms(2) obtain r where a: "0 < a" "get_reseller s j = Some r" "append_locked s r TOPUP a ?c False = Inr (e, s2)"
    by (auto simp: credit_Inr_iff)
  from append_locked_result [OF a(3,2)] assms(3) obtain r' where r': "get_reseller s2 j = Some r'" "replayed s2 r' TOPUP a ?c e"
    by auto
  have rt: "replayed t r' TOPUP a ?c e" using r'(2) assms(4) by (simp add: replayed_def)
  have "append_locked t r' TOPUP a ?c False = Inr (e, t)" using assms(1) rt by (rule append_locked_again)
  moreover have "get_reseller t j = Some r'" using r'(1) assms(5) by (simp add: get_reseller_def)
  ultimately show ?thesis using a(1) by (simp add: credit_Inr_iff)
qed

lemma finalize_success_again:
  assumes ok: "funding_ok_but {pay_invoice_id p} (save_payment (finalized now p) s)" and p: "pay_id p \<in> pay_id ` set (payments s)"
    and fin: "finalize_success now s p = Inr (i, t)"
  shows "finalize_success now' t (finalized now p) = Inr (i, t)"
proof -
  let ?p = "finalized now p"
  let ?n = "pay_invoice_id p"
  note k = finalize_success_ok [OF ok fin]
  from fin obtain s1 where m: "mark_paid_if_fully_allocated now (save_payment ?p s) ?n = Inr (i, s1)"
    and ct: "credit_topup s1 i ?p = Inr (i, t)" by (rule finalize_successE)
  have km: "inv_status i = PAID \<longrightarrow> inv_paid_at i \<noteq> None" using m by (auto elim: mark_paidE)
  have dt: "distinct (map inv_id (invoices t))" "distinct (map pay_id (payments t))" "ledger_ok t"
    and le: "allocated_cents t ?n \<le> inv_amount_cents i"
    using k(1) get_invoiceD [OF k(4)] by (auto simp: funding_ok_but_def invoices_ok_def payments_ok_but_def)
  have "?p \<in> set (payments t)" using k(3) p by (auto simp: save_payment_def put_row_def finalized_def image_iff)
  then have sv: "save_payment ?p t = t" using put_row_same [OF dt(2)] by (simp add: save_payment_def)
  have mp: "mark_paid_if_fully_allocated now' t ?n = Inr (i, t)" using dt(1) k(4,5) le km by (intro mark_paid_again) auto
  have start: "finalize_success now' t ?p = credit_topup t i ?p"
    using sv mp by (simp add: finalize_success_def finalized_again) (simp add: finalized_def)
  from ct show ?thesis
  proof (cases rule: credit_topupE)
    case no
    then show ?thesis unfolding start by (auto simp: credit_topup_def)
  next
    case (yes e s2 j r)
    note k1 = mark_paid_ok [OF ok subset_refl m]
    note a = ledger_exec_funding_ok [OF k1(1) yes(5) [unfolded credit_exec]]
    note b = notify_ok [OF a(1) yes(7)]
    have "credit t (Some j) (inv_amount_cents i) (topup_context i ?p) = Inr (e, t)"
      using dt(3) yes(5) b(4,5) by (intro credit_again) (auto simp: topup_context_def)
    moreover have "get_reseller t j = Some r" using yes(6) b(5) by (simp add: get_reseller_def)
    moreover have "notify t r ''topup_received'' (''topup-received:'' @ show_int (inv_id i)) (invoice_data i) = Inr t"
      using a(1) yes(7) by (intro notify_again) (auto simp: funding_ok_but_def)
    ultimately show ?thesis unfolding start using yes(2-4) by (simp add: credit_topup_def)
  qed
qed

lemma finalize_pre:
  assumes "funding_ok s" "p \<in> set (payments s)"
  shows "funding_ok_but {pay_invoice_id p} (save_payment (finalized now p) s)"
proof (rule save_payment_ok)
  show "funding_ok_but {pay_invoice_id p} s" using assms(1) by (auto simp: funding_ok_but_def payments_ok_but_def)
  show "p \<in> set (payments s)" by (rule assms(2))
  fix x k assume "x \<in> set (payments s)" "pay_id x \<noteq> pay_id p" "pay_external_ref (finalized now p) = Some k"
  then show "pay_external_ref x \<noteq> Some k"
    using assms unique_on_inj [of pay_external_ref "payments s" x p k]
    by (auto simp: funding_ok_but_def payments_ok_but_def finalized_def)
qed (auto simp: finalized_def)

text \<open>
  Confirming a payment is idempotent: once a stored payment has been finalized, finalizing it
  again (the gateway's synchronous answer and its webhook both do) returns the same invoice and
  changes nothing, at any later time; in particular a top-up is credited once.
\<close>

theorem finalize_success_idempotent:
  assumes "funding_ok s" "p \<in> set (payments s)" "finalize_success now s p = Inr (i, t)"
  shows "finalize_success now' t (finalized now p) = Inr (i, t) \<and> funding_ok t"
  using finalize_success_again [OF finalize_pre [OF assms(1,2)] _ assms(3)] finalize_success_ok(1) [OF finalize_pre [OF assms(1,2)] assms(3)]
    assms(2) by blast

definition sample_topup :: store where
  "sample_topup = sample_funding\<lparr>payments := [sample_payment 1 2 400 PENDING (Some ''pi_1'')]\<rparr>"

theorem finalize_success_idempotent_witness:
  "\<exists>i t. finalize_success 7 sample_topup (sample_payment 1 2 400 PENDING (Some ''pi_1'')) = Inr (i, t) \<and> balance_of t 1 = 900 \<and>
     finalize_success 8 t (finalized 7 (sample_payment 1 2 400 PENDING (Some ''pi_1''))) = Inr (i, t)"
proof -
  let ?p = "sample_payment 1 2 400 PENDING (Some ''pi_1'')"
  have ok: "funding_ok sample_topup"
    by (simp add: funding_ok_but_def ledger_ok_def invoices_ok_def payments_ok_but_def outbox_ok_def sample_funding_def sample_topup_def
        sample_reseller_def sample_entry_def sample_invoice_def empty_store_def numbers_below_def FIRST_NUMBER_def
        chain_ok_def reversal_ok_def unique_on_def allocated_cents_def sample_payment_def)
  have p: "?p \<in> set (payments sample_topup)" by (simp add: sample_topup_def)
  have "(case finalize_success 7 sample_topup ?p of Inl _ \<Rightarrow> None | Inr (i, t) \<Rightarrow> Some (balance_of t 1)) = Some 900"
    by code_simp
  then obtain i t where "finalize_success 7 sample_topup ?p = Inr (i, t)" "balance_of t 1 = 900" by (auto split: sum.splits)
  with finalize_success_idempotent [OF ok p this(1), of 8] show ?thesis by blast
qed

text \<open>
  With payment methods first and an empty wallet, a declined charge is attempted twice: the
  method is charged again with the same request, so a gateway that answers a repeated idempotency key
  with the same declined charge makes the second payment row collide with the first on its external
  reference, and the call raises instead of reporting an unfunded invoice.
\<close>

theorem payment_first_declined_collides:
  assumes rows: "get_reseller s rid = Some r" "get_invoice s n = Some i"
    and own: "inv_reseller_id i = Some rid" "inv_status i \<noteq> VOID" "inv_status i \<noteq> PENDING_ACTION" "inv_purpose i \<noteq> CREDIT_TOPUP"
    and pref: "charge_preference r = PAYMENT_FIRST" "cached_balance_cents r \<le> 0"
    and due: "allocated_cents s n < inv_amount_cents i" and ms: "list_payment_methods s rid True = [m]"
    and gw: "reg (lower (pm_provider m)) = Some g" "pm_provider m = ''stripe'' \<longrightarrow> pm_provider_customer_ref m \<noteq> None \<and>
      pm_provider_customer_ref m = stripe_customer_ref r"
    and declined: "charge_off_session g (charge_request_for r i m (inv_amount_cents i - allocated_cents s n)) = Inr outcome"
      "cr_status outcome = GW_DECLINED" "cr_external_ref outcome = Some ref" "Some ref \<notin> pay_external_ref ` set (payments s)"
  shows "fund_invoice reg now s rid n None = Inl IntegrityError"
proof -
  let ?rem = "inv_amount_cents i - allocated_cents s n"
  let ?p = "charge_payment now s i m ?rem outcome"
  let ?s1 = "s\<lparr>payments := payments s @ [?p]\<rparr>"
  have ids: "inv_id i = n" "r_id r = rid" using get_invoiceD [OF rows(2)] get_resellerD [OF rows(1)] by auto
  have p: "pay_status ?p = FAILED" "pay_external_ref ?p = Some ref" "pay_amount_cents ?p = ?rem" "pay_invoice_id ?p = n"
    using declined ids by (simp_all add: charge_payment_def Let_def)
  have al1: "allocated_cents ?s1 n = allocated_cents s n" using p by (simp add: allocated_snoc)
  have live: "live_reseller s r = r" "live_reseller ?s1 r = r" using rows(1) ids by (simp_all add: live_reseller_def)
  have usable: "\<not> (pm_provider m = ''stripe'' \<and> (pm_provider_customer_ref m = None \<or> pm_provider_customer_ref m \<noteq> stripe_customer_ref r))"
    using gw(2) by blast
  have first: "charge_methods reg now s r i [m] ?rem = Inr (result_of ?s1 i False None None, ?s1)"
  proof -
    have "insert_payment s ?p = Inr ?s1" using p due declined(4) by (auto simp: insert_payment_def)
    then have "charge_method reg now s r i m ?rem = Inr (result_of ?s1 i False None (Some (pay_id ?p)), ?s1)"
      unfolding charge_method_def live if_not_P [OF usable] using gw(1) declined(1) p(1)
      by (simp add: maybe_get_def settle_charge_def Let_def)
    then show ?thesis using due al1 ids by (simp add: charge_methods_def)
  qed
  have second: "charge_methods reg now ?s1 r i [m] ?rem = Inl IntegrityError"
  proof -
    have "insert_payment ?s1 (charge_payment now ?s1 i m ?rem outcome) = Inl IntegrityError"
      using p declined by (simp add: insert_payment_def charge_payment_def Let_def)
    then have "charge_method reg now ?s1 r i m ?rem = Inl IntegrityError"
      unfolding charge_method_def live if_not_P [OF usable] using gw(1) declined(1) by (simp add: maybe_get_def Let_def)
    then show ?thesis using due by (simp add: charge_methods_def)
  qed
  have "apply_credit now ?s1 r i ?rem = Inr (None, ?s1)" using pref(2) live due by (simp add: apply_credit_def)
  with first second have "fund_by_preference reg now s r i [m] ?rem = Inl IntegrityError"
    using pref(1) due al1 ids by (simp add: fund_by_preference_def fund_rest_def Let_def)
  then show ?thesis using rows own ids due ms
    by (simp add: fund_invoice_def lock_funding_rows_def Let_def pending_funding_result_def methods_for_def)
qed

theorem payment_first_declined_collides_witness:
  "fund_invoice (sample_registry GW_DECLINED) 7
     (sample_funding\<lparr>resellers := [(sample_reseller 1 0)\<lparr>charge_preference := PAYMENT_FIRST\<rparr>]\<rparr>) 1 1 None = Inl IntegrityError"
proof -
  let ?s = "sample_funding\<lparr>resellers := [(sample_reseller 1 0)\<lparr>charge_preference := PAYMENT_FIRST\<rparr>]\<rparr>"
  let ?r = "(sample_reseller 1 0)\<lparr>charge_preference := PAYMENT_FIRST\<rparr>"
  have rows: "get_reseller ?s 1 = Some ?r" "get_invoice ?s 1 = Some (sample_invoice 1 100001 700)"
    by (simp_all add: get_reseller_def get_invoice_def sample_funding_def sample_reseller_def sample_invoice_def)
  have ms: "list_payment_methods ?s 1 True = [sample_method 1 1 ''stripe'']"
    by (simp add: list_payment_methods_def sample_funding_def sample_method_def)
  have al: "allocated_cents ?s 1 = 0" "payments ?s = []" by (simp_all add: allocated_cents_def sample_funding_def empty_store_def)
  have low: "lower ''stripe'' = ''stripe''" "lower ''Stripe'' = ''stripe''" by code_simp+
  have reg: "sample_registry GW_DECLINED (lower (pm_provider (sample_method 1 1 ''stripe''))) = Some (sample_gateway ''Stripe'' GW_DECLINED (Some ''pi_1''))"
    using low by (simp add: sample_registry_def register_def sample_method_def sample_gateway_def)
  show ?thesis
    by (rule payment_first_declined_collides [where reg = "sample_registry GW_DECLINED" and g = "sample_gateway ''Stripe'' GW_DECLINED (Some ''pi_1'')"
          and m = "sample_method 1 1 ''stripe''" and ref = "''pi_1''" and
          outcome = "\<lparr>cr_status = GW_DECLINED, cr_external_ref = Some ''pi_1'', cr_client_secret = Some ''cs'',
            cr_failure_code = None, cr_failure_message = None\<rparr>", OF rows])
       (use ms reg al in \<open>simp_all add: sample_invoice_def sample_reseller_def sample_method_def sample_gateway_def\<close>)
qed

end
