(* ===== verification/Saved_Methods.thy ===== *)
theory Saved_Methods
  imports Payments
begin

text \<open>
  Saved payment methods of \<open>app/services/payments/orchestrator.py\<close>: the Stripe customer of a
  reseller, registering a Stripe method, the two-step PayPal vault setup with its pending token, and
  detaching a method. The theorems: a (provider, reference) pair is saved once and never changes
  owner, whatever sequence of these operations runs; completing a consumed setup again returns the
  method saved the first time; a token of another reseller or an expired one saves nothing.
\<close>

section \<open>Operations\<close>

text \<open>\<open>x or d\<close> on an optional string: an empty string counts as absent.\<close>

definition str_or :: "string option \<Rightarrow> string \<Rightarrow> string" where
  "str_or x d = (case x of None \<Rightarrow> d | Some v \<Rightarrow> if v = [] then d else v)"

definition truthy :: "string option \<Rightarrow> bool" where
  "truthy x \<longleftrightarrow> x \<noteq> None \<and> x \<noteq> Some []"

definition last_chars :: "nat \<Rightarrow> string \<Rightarrow> string" where
  "last_chars n v = drop (length v - n) v"

definition ensure_stripe_customer :: "registry \<Rightarrow> store \<Rightarrow> int \<Rightarrow> (string \<times> store) res" where
  "ensure_stripe_customer reg s reseller_id =
     (case get_reseller s reseller_id of
        None \<Rightarrow> Inl (InvoiceError ''Reseller not found'')
      | Some r \<Rightarrow>
          if truthy (stripe_customer_ref r) then Inr (the (stripe_customer_ref r), s)
          else
            ebind (registry_get reg ''stripe'') (\<lambda>g.
            ebind (create_customer g (r_id r) (r_user_email r)) (\<lambda>customer.
            Inr (customer, save_reseller (r\<lparr>stripe_customer_ref := Some customer\<rparr>) s))))"

definition create_stripe_setup_intent :: "registry \<Rightarrow> store \<Rightarrow> int \<Rightarrow> ((string \<times> string) \<times> store) res" where
  "create_stripe_setup_intent reg s reseller_id =
     ebind (ensure_stripe_customer reg s reseller_id) (\<lambda>(customer_ref, s1).
     ebind (registry_get reg ''stripe'') (\<lambda>g.
     ebind (create_setup_intent g customer_ref) (\<lambda>intent. Inr (intent, s1))))"

text \<open>
  Writing a saved method: the row found for (provider, reference) is overwritten, otherwise a new
  row is inserted.
\<close>

definition find_method :: "store \<Rightarrow> string \<Rightarrow> string \<Rightarrow> payment_method option res" where
  "find_method s provider ref =
     scalar_one_or_none (filter (\<lambda>m. pm_provider m = provider \<and> pm_provider_method_ref m = ref) (payment_methods s))"

definition write_method :: "store \<Rightarrow> payment_method option \<Rightarrow> payment_method \<Rightarrow> payment_method \<times> store" where
  "write_method s saved m =
     (case saved of
        None \<Rightarrow> (let m' = m\<lparr>pm_id := fresh_id pm_id (payment_methods s)\<rparr>
                 in (m', s\<lparr>payment_methods := payment_methods s @ [m']\<rparr>))
      | Some old \<Rightarrow> (let m' = m\<lparr>pm_id := pm_id old\<rparr> in (m', save_method m' s)))"

text \<open>The attributes both functions assign to the row.\<close>

definition stripe_method_row :: "int \<Rightarrow> string \<Rightarrow> gateway_payment_method \<Rightarrow> int \<Rightarrow> string option \<Rightarrow> payment_method" where
  "stripe_method_row reseller_id customer_ref method tier label =
     \<lparr>pm_id = 0, pm_reseller_id = reseller_id, pm_provider = ''stripe'', pm_method_type = gm_method_type method,
      pm_provider_customer_ref = Some customer_ref, pm_provider_method_ref = gm_external_ref method,
      pm_label = Some (take 255 (str_or label (str_or (gm_label method) ''Stripe payment method''))),
      pm_brand = (if truthy (gm_brand method) then map_option (take 64) (gm_brand method) else None),
      pm_last4 = (if truthy (gm_last4 method) then map_option (last_chars 4) (gm_last4 method) else None),
      pm_tier = tier, pm_enabled = True\<rparr>"

definition paypal_method_row :: "int \<Rightarrow> gateway_payment_method \<Rightarrow> int \<Rightarrow> string option \<Rightarrow> payment_method" where
  "paypal_method_row reseller_id method tier label =
     \<lparr>pm_id = 0, pm_reseller_id = reseller_id, pm_provider = ''paypal'', pm_method_type = gm_method_type method,
      pm_provider_customer_ref = gm_customer_ref method, pm_provider_method_ref = gm_external_ref method,
      pm_label = Some (take 255 (str_or label (str_or (gm_label method) ''PayPal''))),
      pm_brand = (if truthy (gm_brand method) then map_option (take 64) (gm_brand method) else Some ''paypal''),
      pm_last4 = None, pm_tier = tier, pm_enabled = True\<rparr>"

definition register_stripe_method ::
  "registry \<Rightarrow> store \<Rightarrow> int \<Rightarrow> string \<Rightarrow> int \<Rightarrow> string option \<Rightarrow> (payment_method \<times> store) res" where
  "register_stripe_method reg s reseller_id method_ref tier label =
     ebind (raise_if (tier < 0) (ValueError ''tier must be a non-negative integer'')) (\<lambda>_.
     ebind (ensure_stripe_customer reg s reseller_id) (\<lambda>(customer_ref, s1).
     ebind (registry_get reg ''stripe'') (\<lambda>g.
     ebind (get_payment_method g method_ref) (\<lambda>method.
     ebind (raise_if (gm_customer_ref method \<noteq> Some customer_ref)
              (PaymentMethodOwnershipError ''Payment method does not belong to this reseller'')) (\<lambda>_.
     ebind (find_method s1 ''stripe'' (gm_external_ref method)) (\<lambda>saved.
     ebind (raise_if (case saved of None \<Rightarrow> False | Some m \<Rightarrow> pm_reseller_id m \<noteq> reseller_id)
              (PaymentMethodOwnershipError ''Payment method belongs to another reseller'')) (\<lambda>_.
     Inr (write_method s1 saved (stripe_method_row reseller_id customer_ref method tier label)))))))))"

definition insert_setup :: "store \<Rightarrow> paypal_pending_setup \<Rightarrow> store res" where
  "insert_setup s p =
     (if pp_setup_token_ref p \<in> pp_setup_token_ref ` set (paypal_setups s) then Inl IntegrityError
      else Inr (s\<lparr>paypal_setups := paypal_setups s @ [p]\<rparr>))"

definition create_paypal_vault_setup ::
  "registry \<Rightarrow> instant \<Rightarrow> store \<Rightarrow> int \<Rightarrow> (gateway_vault_setup \<times> store) res" where
  "create_paypal_vault_setup reg now s reseller_id =
     ebind (registry_get reg ''paypal'') (\<lambda>g.
     case create_vault_setup g of
       None \<Rightarrow> Inl (PaymentGatewayError ''PayPal vault setup is not supported by this gateway'')
     | Some create_setup \<Rightarrow>
         let customer_ref = (case sort_key pm_id (filter (\<lambda>m. pm_reseller_id m = reseller_id \<and>
                 pm_provider m = ''paypal'' \<and> pm_provider_customer_ref m \<noteq> None) (payment_methods s)) of
               [] \<Rightarrow> None | m # _ \<Rightarrow> pm_provider_customer_ref m) in
         ebind (create_setup reseller_id customer_ref) (\<lambda>setup.
         ebind (insert_setup s
           \<lparr>pp_id = fresh_id pp_id (paypal_setups s), pp_reseller_id = reseller_id,
            pp_setup_token_ref = vs_external_ref setup, pp_provider_customer_ref = vs_customer_ref setup,
            pp_payment_method_id = None, pp_expires_at = now + days 3, pp_consumed_at = None\<rparr>) (\<lambda>s1.
         Inr (setup, s1))))"

definition paypal_pending_for_update :: "store \<Rightarrow> int \<Rightarrow> string \<Rightarrow> paypal_pending_setup res" where
  "paypal_pending_for_update s reseller_id setup_token_ref =
     ebind (scalar_one_or_none (filter (\<lambda>p. pp_setup_token_ref p = setup_token_ref) (paypal_setups s))) (\<lambda>found.
     case found of
       None \<Rightarrow> Inl (PaymentMethodOwnershipError ''PayPal setup token not found'')
     | Some p \<Rightarrow>
         if pp_reseller_id p \<noteq> reseller_id then Inl (PaymentMethodOwnershipError ''PayPal setup token not found'')
         else Inr p)"

definition completed_paypal_setup_method ::
  "store \<Rightarrow> int \<Rightarrow> paypal_pending_setup \<Rightarrow> payment_method option res" where
  "completed_paypal_setup_method s reseller_id p =
     (if pp_consumed_at p = None then Inr None
      else case Option.bind (pp_payment_method_id p) (get_method s) of
        None \<Rightarrow> Inl (PaymentGatewayError ''Completed PayPal setup has no saved payment method'')
      | Some m \<Rightarrow>
          if pm_reseller_id m \<noteq> reseller_id
          then Inl (PaymentGatewayError ''Completed PayPal setup has no saved payment method'')
          else Inr (Some m))"

definition validate_paypal_method ::
  "int \<Rightarrow> paypal_pending_setup \<Rightarrow> string \<Rightarrow> gateway_payment_method \<Rightarrow> unit res" where
  "validate_paypal_method reseller_id p exchanged_method_ref method =
     ebind (raise_if (gm_external_ref method \<noteq> exchanged_method_ref)
              (PaymentGatewayError ''PayPal returned an unexpected payment token'')) (\<lambda>_.
     ebind (raise_if (gm_merchant_customer_id method \<noteq> None \<and>
                gm_merchant_customer_id method \<noteq> Some (''rackflow-reseller-'' @ show_int reseller_id))
              (PaymentMethodOwnershipError ''PayPal payment token belongs to another reseller'')) (\<lambda>_.
     raise_if (truthy (pp_provider_customer_ref p) \<and> truthy (gm_customer_ref method) \<and>
               pp_provider_customer_ref p \<noteq> gm_customer_ref method)
       (PaymentMethodOwnershipError ''PayPal payment token customer does not match setup'')))"

definition save_paypal_method ::
  "store \<Rightarrow> int \<Rightarrow> gateway_payment_method \<Rightarrow> int \<Rightarrow> string option \<Rightarrow> (payment_method \<times> store) res" where
  "save_paypal_method s reseller_id method tier label =
     ebind (find_method s ''paypal'' (gm_external_ref method)) (\<lambda>saved.
     ebind (raise_if (case saved of None \<Rightarrow> False | Some m \<Rightarrow> pm_reseller_id m \<noteq> reseller_id)
              (PaymentMethodOwnershipError ''PayPal payment token belongs to another reseller'')) (\<lambda>_.
     Inr (write_method s saved (paypal_method_row reseller_id method tier label))))"

definition complete_paypal_vault_setup ::
  "registry \<Rightarrow> instant \<Rightarrow> store \<Rightarrow> int \<Rightarrow> string \<Rightarrow> int \<Rightarrow> string option \<Rightarrow> (payment_method \<times> store) res" where
  "complete_paypal_vault_setup reg now s reseller_id setup_token_ref tier label =
     ebind (raise_if (tier < 0) (ValueError ''tier must be a non-negative integer'')) (\<lambda>_.
     ebind (paypal_pending_for_update s reseller_id setup_token_ref) (\<lambda>pending.
     ebind (completed_paypal_setup_method s reseller_id pending) (\<lambda>completed.
     case completed of
       Some m \<Rightarrow> Inr (m, s)
     | None \<Rightarrow>
         ebind (raise_if (pp_expires_at pending \<le> now) (PaymentGatewayError ''PayPal setup token has expired'')) (\<lambda>_.
         ebind (registry_get reg ''paypal'') (\<lambda>g.
         case complete_vault_setup g of
           None \<Rightarrow> Inl (PaymentGatewayError ''PayPal vault completion is not supported by this gateway'')
         | Some complete_setup \<Rightarrow>
             ebind (complete_setup setup_token_ref) (\<lambda>exchanged.
             ebind (get_payment_method g (gm_external_ref exchanged)) (\<lambda>method.
             ebind (validate_paypal_method reseller_id pending (gm_external_ref exchanged) method) (\<lambda>_.
             ebind (save_paypal_method s reseller_id method tier label) (\<lambda>(saved, s1).
             Inr (saved, save_setup (pending\<lparr>pp_payment_method_id := Some (pm_id saved),
                                            pp_consumed_at := Some now\<rparr>) s1))))))))))"

text \<open>
  Deleting a method; the foreign key of pending setups is declared \<open>ON DELETE SET NULL\<close>.
\<close>

definition detach_method :: "registry \<Rightarrow> store \<Rightarrow> int \<Rightarrow> int \<Rightarrow> (unit \<times> store) res" where
  "detach_method reg s reseller_id method_id =
     (case get_method s method_id of
        None \<Rightarrow> Inl (PaymentMethodOwnershipError ''Payment method not found'')
      | Some m \<Rightarrow>
          if pm_reseller_id m \<noteq> reseller_id then Inl (PaymentMethodOwnershipError ''Payment method not found'')
          else
            ebind (registry_get reg (pm_provider m)) (\<lambda>g.
            ebind (detach_payment_method g (pm_provider_method_ref m)) (\<lambda>_.
            Inr ((), s\<lparr>payment_methods := filter (\<lambda>x. pm_id x \<noteq> method_id) (payment_methods s),
                      paypal_setups := map (\<lambda>p. if pp_payment_method_id p = Some method_id
                        then p\<lparr>pp_payment_method_id := None\<rparr> else p) (paypal_setups s)\<rparr>))))"

section \<open>The invariant\<close>

definition method_key :: "payment_method \<Rightarrow> string \<times> string" where
  "method_key m = (pm_provider m, pm_provider_method_ref m)"

definition methods_ok :: "store \<Rightarrow> bool" where
  "methods_ok s \<longleftrightarrow> distinct (map pm_id (payment_methods s)) \<and> distinct (map method_key (payment_methods s)) \<and>
     (\<forall>m \<in> set (payment_methods s). 0 \<le> pm_tier m) \<and>
     distinct (map pp_id (paypal_setups s)) \<and> distinct (map pp_setup_token_ref (paypal_setups s))"

text \<open>Every saved method is still there, under the same id, reference and owner.\<close>

definition methods_kept :: "store \<Rightarrow> store \<Rightarrow> bool" where
  "methods_kept s t \<longleftrightarrow> (\<forall>m \<in> set (payment_methods s). \<exists>m' \<in> set (payment_methods t).
     pm_id m' = pm_id m \<and> method_key m' = method_key m \<and> pm_reseller_id m' = pm_reseller_id m)"

lemma methods_kept_refl [simp]: "methods_kept s s"
  by (auto simp: methods_kept_def)

lemma methods_kept_trans: "methods_kept s t \<Longrightarrow> methods_kept t u \<Longrightarrow> methods_kept s u"
  unfolding methods_kept_def by metis

lemma find_method_Inr:
  assumes "find_method s provider ref = Inr found"
  shows "case found of None \<Rightarrow> (provider, ref) \<notin> method_key ` set (payment_methods s)
    | Some m \<Rightarrow> m \<in> set (payment_methods s) \<and> method_key m = (provider, ref)"
proof (cases found)
  case None
  with assms show ?thesis by (auto simp: find_method_def scalar_iffs filter_empty_conv method_key_def)
next
  case (Some m)
  with assms have "m \<in> set (filter (\<lambda>m. pm_provider m = provider \<and> pm_provider_method_ref m = ref) (payment_methods s))"
    by (simp add: find_method_def scalar_iffs)
  with Some show ?thesis by (simp add: method_key_def)
qed

lemma write_method_ok:
  assumes ok: "methods_ok s" and found: "find_method s (pm_provider m) (pm_provider_method_ref m) = Inr saved"
    and own: "\<forall>old. saved = Some old \<longrightarrow> pm_reseller_id old = pm_reseller_id m" and tier: "0 \<le> pm_tier m"
    and w: "write_method s saved m = (m', t)"
  shows "methods_ok t \<and> methods_kept s t \<and> m' \<in> set (payment_methods t) \<and> pm_reseller_id m' = pm_reseller_id m \<and>
    paypal_setups t = paypal_setups s"
proof (cases saved)
  case None
  with w have t: "m' = m\<lparr>pm_id := fresh_id pm_id (payment_methods s)\<rparr>" "t = s\<lparr>payment_methods := payment_methods s @ [m']\<rparr>"
    by (auto simp: write_method_def Let_def)
  have "method_key m' \<notin> method_key ` set (payment_methods s)" using find_method_Inr [OF found] None t(1) by (simp add: method_key_def)
  moreover have "distinct (map pm_id (payment_methods s @ [m']))"
    using ok t(1) by (intro distinct_insert_row) (auto simp: methods_ok_def)
  ultimately show ?thesis
    using ok tier t by (auto simp: methods_ok_def methods_kept_def)
next
  case (Some old)
  with w have t: "m' = m\<lparr>pm_id := pm_id old\<rparr>" "t = s\<lparr>payment_methods := put_row pm_id m' (payment_methods s)\<rparr>"
    by (auto simp: write_method_def Let_def save_method_def)
  have old: "old \<in> set (payment_methods s)" "method_key old = method_key m'"
    using find_method_Inr [OF found] Some t(1) by (simp_all add: method_key_def)
  have one: "x = old" if "x \<in> set (payment_methods s)" "pm_id x = pm_id m'" for x
    using that old(1) ok t(1) by (auto simp: methods_ok_def distinct_map dest: inj_onD)
  have "map method_key (put_row pm_id m' (payment_methods s)) = map method_key (payment_methods s)"
    unfolding put_row_def map_map using one old(2) by (intro map_cong) auto
  moreover have "m' \<in> set (put_row pm_id m' (payment_methods s))" using old(1) t(1) by (auto simp: put_row_def image_iff)
  moreover have "\<exists>y \<in> set (put_row pm_id m' (payment_methods s)). pm_id y = pm_id x \<and> method_key y = method_key x \<and>
      pm_reseller_id y = pm_reseller_id x" if "x \<in> set (payment_methods s)" for x
  proof (cases "pm_id x = pm_id m'")
    case True
    then have "x = old" using one [OF that] by simp
    then show ?thesis using old own Some t(1) calculation(2) by (intro bexI [of _ m']) auto
  next
    case False
    then show ?thesis using that by (intro bexI [of _ x]) (auto simp: put_row_def image_iff)
  qed
  ultimately show ?thesis
    using ok tier t by (auto simp: methods_ok_def methods_kept_def dest!: set_put_row)
qed

lemma ensure_stripe_customer_methods:
  assumes "ensure_stripe_customer reg s rid = Inr (c, t)"
  shows "payment_methods t = payment_methods s" "paypal_setups t = paypal_setups s"
  using assms by (auto simp: ensure_stripe_customer_def ebind_Inr_iff save_reseller_def split: option.splits if_splits)

lemma methods_ok_cong: "payment_methods t = payment_methods s \<Longrightarrow> paypal_setups t = paypal_setups s \<Longrightarrow> methods_ok t = methods_ok s"
  by (simp add: methods_ok_def)

lemma methods_kept_cong: "payment_methods t = payment_methods s \<Longrightarrow> methods_kept s t"
  by (auto simp: methods_kept_def)

lemma register_stripe_method_ok:
  assumes "methods_ok s" "register_stripe_method reg s rid ref tier label = Inr (m, t)"
  shows "methods_ok t \<and> methods_kept s t"
proof -
  from assms(2) obtain c s1 saved gm where e: "ensure_stripe_customer reg s rid = Inr (c, s1)" and tier: "0 \<le> tier"
    and f: "find_method s1 ''stripe'' (gm_external_ref gm) = Inr saved"
    and own: "\<not> (case saved of None \<Rightarrow> False | Some m \<Rightarrow> pm_reseller_id m \<noteq> rid)"
    and w: "write_method s1 saved (stripe_method_row rid c gm tier label) = (m, t)"
    by (auto simp: register_stripe_method_def ebind_Inr_iff raise_if_Inr_iff)
  note k = ensure_stripe_customer_methods [OF e]
  have "methods_ok s1" using assms(1) methods_ok_cong [OF k] by simp
  then have "methods_ok t \<and> methods_kept s1 t"
    using write_method_ok [OF _ _ _ _ w] f own tier by (auto simp: stripe_method_row_def split: option.splits)
  with methods_kept_cong [OF k(1)] show ?thesis by (blast intro: methods_kept_trans)
qed

lemma save_paypal_method_ok:
  assumes "methods_ok s" "save_paypal_method s rid gm tier label = Inr (m, t)" "0 \<le> tier"
  shows "methods_ok t \<and> methods_kept s t \<and> m \<in> set (payment_methods t) \<and> pm_reseller_id m = rid \<and> paypal_setups t = paypal_setups s"
proof -
  from assms(2) obtain saved where f: "find_method s ''paypal'' (gm_external_ref gm) = Inr saved"
    and own: "\<not> (case saved of None \<Rightarrow> False | Some m \<Rightarrow> pm_reseller_id m \<noteq> rid)"
    and w: "write_method s saved (paypal_method_row rid gm tier label) = (m, t)"
    by (auto simp: save_paypal_method_def ebind_Inr_iff raise_if_Inr_iff)
  from write_method_ok [OF assms(1) _ _ _ w] f own assms(3) show ?thesis
    by (auto simp: paypal_method_row_def split: option.splits)
qed

lemma save_setup_ok:
  assumes "methods_ok s" "p \<in> set (paypal_setups s)" "pp_id p' = pp_id p" "pp_setup_token_ref p' = pp_setup_token_ref p"
  shows "methods_ok (save_setup p' s)"
proof -
  have one: "x = p" if "x \<in> set (paypal_setups s)" "pp_id x = pp_id p'" for x
    using that assms(1-3) by (auto simp: methods_ok_def distinct_map dest: inj_onD)
  have "map pp_setup_token_ref (put_row pp_id p' (paypal_setups s)) = map pp_setup_token_ref (paypal_setups s)"
    unfolding put_row_def map_map using one assms(4) by (intro map_cong) auto
  then show ?thesis using assms(1) by (simp add: methods_ok_def save_setup_def)
qed

lemma paypal_pendingE:
  assumes "paypal_pending_for_update s rid tok = Inr p"
  obtains "p \<in> set (paypal_setups s)" "pp_setup_token_ref p = tok" "pp_reseller_id p = rid"
proof -
  from assms have "filter (\<lambda>p. pp_setup_token_ref p = tok) (paypal_setups s) = [p]" "pp_reseller_id p = rid"
    by (auto simp: paypal_pending_for_update_def ebind_Inr_iff scalar_iffs split: option.splits if_splits)
  then have "p \<in> set (filter (\<lambda>p. pp_setup_token_ref p = tok) (paypal_setups s))" "pp_reseller_id p = rid" by simp_all
  then show thesis by (intro that) simp_all
qed

lemma complete_paypalE:
  assumes "complete_paypal_vault_setup reg now s rid tok tier label = Inr (m, t)"
  obtains (replay) p where "paypal_pending_for_update s rid tok = Inr p" "completed_paypal_setup_method s rid p = Inr (Some m)" "t = s"
  | (first) p gm s1 where "paypal_pending_for_update s rid tok = Inr p" "pp_consumed_at p = None" "now < pp_expires_at p" "0 \<le> tier"
      "save_paypal_method s rid gm tier label = Inr (m, s1)"
      "t = save_setup (p\<lparr>pp_payment_method_id := Some (pm_id m), pp_consumed_at := Some now\<rparr>) s1"
proof -
  from assms obtain p completed where tier: "0 \<le> tier" and p: "paypal_pending_for_update s rid tok = Inr p"
    and c: "completed_paypal_setup_method s rid p = Inr completed"
    by (auto simp: complete_paypal_vault_setup_def ebind_Inr_iff raise_if_Inr_iff)
  show thesis
  proof (cases completed)
    case (Some x)
    with assms tier p c show thesis by (intro that(1) [of p]) (simp_all add: complete_paypal_vault_setup_def)
  next
    case None
    then have "pp_consumed_at p = None" using c by (auto simp: completed_paypal_setup_method_def split: if_splits option.splits)
    moreover from None assms tier p c obtain gm s1 where "now < pp_expires_at p"
      "save_paypal_method s rid gm tier label = Inr (m, s1)"
      "t = save_setup (p\<lparr>pp_payment_method_id := Some (pm_id m), pp_consumed_at := Some now\<rparr>) s1"
      by (auto simp: complete_paypal_vault_setup_def ebind_Inr_iff raise_if_Inr_iff not_le split: option.splits)
    ultimately show thesis using tier p by (intro that(2))
  qed
qed

lemma complete_paypal_ok:
  assumes ok: "methods_ok s" and c: "complete_paypal_vault_setup reg now s rid tok tier label = Inr (m, t)"
  shows "methods_ok t \<and> methods_kept s t"
  using c
proof (cases rule: complete_paypalE)
  case (first p gm s1)
  note k = save_paypal_method_ok [OF ok first(5,4)]
  have "p \<in> set (paypal_setups s1)" using first(1) k by (auto elim: paypal_pendingE)
  then have "methods_ok t" using k first(6) by (auto intro: save_setup_ok)
  moreover have "methods_kept s1 t" by (rule methods_kept_cong) (simp add: first(6) save_setup_def)
  ultimately show ?thesis using k by (blast intro: methods_kept_trans)
qed (use ok in simp)

lemma create_vault_ok:
  assumes "methods_ok s" "create_paypal_vault_setup reg now s rid = Inr (v, t)"
  shows "methods_ok t \<and> methods_kept s t"
proof -
  from assms(2) obtain p where p: "insert_setup s p = Inr t" "pp_id p = fresh_id pp_id (paypal_setups s)"
    by (auto simp: create_paypal_vault_setup_def ebind_Inr_iff Let_def split: option.splits)
  then have t: "t = s\<lparr>paypal_setups := paypal_setups s @ [p]\<rparr>" "pp_setup_token_ref p \<notin> pp_setup_token_ref ` set (paypal_setups s)"
    by (auto simp: insert_setup_def split: if_splits)
  have "distinct (map pp_id (paypal_setups s @ [p]))" using assms(1) p(2) by (intro distinct_insert_row) (auto simp: methods_ok_def)
  then show ?thesis using assms(1) t by (auto simp: methods_ok_def methods_kept_def)
qed

lemma detach_methodE:
  assumes "detach_method reg s rid mid = Inr (u, t)"
  obtains m where "get_method s mid = Some m" "pm_reseller_id m = rid"
    "t = s\<lparr>payment_methods := filter (\<lambda>x. pm_id x \<noteq> mid) (payment_methods s),
           paypal_setups := map (\<lambda>p. if pp_payment_method_id p = Some mid then p\<lparr>pp_payment_method_id := None\<rparr> else p) (paypal_setups s)\<rparr>"
  using assms by (auto simp: detach_method_def ebind_Inr_iff split: option.splits if_splits)

lemma detach_method_ok:
  assumes "methods_ok s" "detach_method reg s rid mid = Inr (u, t)"
  shows "methods_ok t"
  using assms(2)
proof (rule detach_methodE)
  fix m assume t: "t = s\<lparr>payment_methods := filter (\<lambda>x. pm_id x \<noteq> mid) (payment_methods s),
           paypal_setups := map (\<lambda>p. if pp_payment_method_id p = Some mid then p\<lparr>pp_payment_method_id := None\<rparr> else p) (paypal_setups s)\<rparr>"
  then show ?thesis using assms(1)
    by (auto simp: methods_ok_def comp_def if_distrib [of pp_id] if_distrib [of pp_setup_token_ref] distinct_map inj_on_def cong: if_cong)
qed

section \<open>Sequences of operations\<close>

text \<open>The reseller is the one signed in; registry and clock may differ from call to call.\<close>

datatype method_op =
    Setup_Intent registry int
  | Register_Stripe registry int string int "string option"
  | Create_Vault registry instant int
  | Complete_Vault registry instant int string int "string option"
  | Detach registry int int

fun method_exec :: "store \<Rightarrow> method_op \<Rightarrow> store res" where
  "method_exec s (Setup_Intent reg rid) = map_sum id snd (create_stripe_setup_intent reg s rid)"
| "method_exec s (Register_Stripe reg rid ref tier label) = map_sum id snd (register_stripe_method reg s rid ref tier label)"
| "method_exec s (Create_Vault reg now rid) = map_sum id snd (create_paypal_vault_setup reg now s rid)"
| "method_exec s (Complete_Vault reg now rid tok tier label) =
     map_sum id snd (complete_paypal_vault_setup reg now s rid tok tier label)"
| "method_exec s (Detach reg rid mid) = map_sum id snd (detach_method reg s rid mid)"

fun is_detach :: "method_op \<Rightarrow> bool" where
  "is_detach (Detach _ _ _) = True"
| "is_detach _ = False"

inductive method_step :: "store \<Rightarrow> method_op \<Rightarrow> store \<Rightarrow> bool" where
  "method_exec s x = Inr t \<Longrightarrow> method_step s x t"
| "method_exec s x = Inl e \<Longrightarrow> method_step s x s"

lemma map_sum_snd_Inr: "map_sum id snd x = Inr t \<longleftrightarrow> (\<exists>y. x = Inr (y, t))"
  by (cases x) auto

lemma setup_intent_methods:
  "create_stripe_setup_intent reg s rid = Inr (v, t) \<Longrightarrow> payment_methods t = payment_methods s \<and> paypal_setups t = paypal_setups s"
  by (auto simp: create_stripe_setup_intent_def ebind_Inr_iff dest: ensure_stripe_customer_methods)

lemma method_exec_ok:
  assumes "methods_ok s" "method_exec s x = Inr t"
  shows "methods_ok t \<and> (\<not> is_detach x \<longrightarrow> methods_kept s t)"
proof (cases x)
  case (Setup_Intent reg rid)
  with assms show ?thesis
    by (auto simp: map_sum_snd_Inr methods_ok_def dest!: setup_intent_methods intro: methods_kept_cong)
qed (use assms in \<open>auto simp: map_sum_snd_Inr dest: register_stripe_method_ok create_vault_ok complete_paypal_ok detach_method_ok\<close>)

interpretation saved_methods: transition_system methods_ok method_step methods_ok
  by unfold_locales (auto elim!: method_step.cases dest: method_exec_ok)

section \<open>Properties\<close>

text \<open>
  Saved methods stay with their owner: along any sequence of setup, registration and vault
  completion calls by any resellers, whatever the gateways answer, every saved method keeps its id,
  its provider reference and its reseller, no (provider, reference) pair is saved twice, and every
  tier is non-negative.
\<close>

theorem saved_methods_keep_owner:
  assumes "methods_ok s" "runs method_step s ops t" "list_all (\<lambda>x. \<not> is_detach x) ops"
  shows "(\<forall>m \<in> set (payment_methods s). \<exists>m' \<in> set (payment_methods t). pm_id m' = pm_id m \<and>
      method_key m' = method_key m \<and> pm_reseller_id m' = pm_reseller_id m) \<and>
    distinct (map method_key (payment_methods t)) \<and> (\<forall>m \<in> set (payment_methods t). 0 \<le> pm_tier m)"
proof -
  have "methods_kept s t" using assms(2,1,3)
  proof (induction rule: runs.induct)
    case (runs_Cons s x t ops u)
    from runs_Cons(1,4,5) have "methods_ok t \<and> methods_kept s t" by cases (auto dest: method_exec_ok)
    with runs_Cons show ?case by (auto intro: methods_kept_trans)
  qed simp
  with saved_methods.runs_inv [OF assms(2,1)] show ?thesis by (simp add: methods_ok_def methods_kept_def)
qed

definition method_apply :: "store \<Rightarrow> method_op \<Rightarrow> store" where
  "method_apply s x = (case method_exec s x of Inl _ \<Rightarrow> s | Inr t \<Rightarrow> t)"

lemma runs_method_apply: "runs method_step s ops (foldl method_apply s ops)"
  by (induction ops arbitrary: s) (auto simp: method_apply_def intro: method_step.intros split: sum.splits)

definition sample_paypal :: registry where
  "sample_paypal = register (sample_registry GW_SUCCEEDED) ((sample_gateway ''paypal'' GW_SUCCEEDED None)
     \<lparr>get_payment_method := (\<lambda>m. Inr \<lparr>gm_external_ref = m, gm_customer_ref = Some ''cus_1'', gm_method_type = ''paypal'',
        gm_label = None, gm_brand = None, gm_last4 = None, gm_merchant_customer_id = Some ''rackflow-reseller-1''\<rparr>)\<rparr>)"

definition sample_method_ops :: "method_op list" where
  "sample_method_ops = [Create_Vault sample_paypal 0 1, Complete_Vault sample_paypal 5 1 ''setup_1'' 2 None,
     Complete_Vault sample_paypal 5 2 ''setup_1'' 0 None, Register_Stripe sample_paypal 1 ''pm_9'' 0 None,
     Register_Stripe sample_paypal 1 ''pm_1'' 3 (Some ''card'')]"

lemma sample_methods_ok: "methods_ok sample_funding"
  by (simp add: methods_ok_def sample_funding_def empty_store_def method_key_def sample_method_def)

theorem saved_methods_keep_owner_witness:
  "list_all (\<lambda>x. \<not> is_detach x) sample_method_ops \<and>
   map pm_tier (payment_methods (foldl method_apply sample_funding sample_method_ops)) = [3, 2, 0] \<and>
   distinct (map method_key (payment_methods (foldl method_apply sample_funding sample_method_ops)))"
proof -
  have "list_all (\<lambda>x. \<not> is_detach x) sample_method_ops" by (simp add: sample_method_ops_def)
  moreover have "map pm_tier (payment_methods (foldl method_apply sample_funding sample_method_ops)) = [3, 2, 0]" by code_simp
  ultimately show ?thesis
    using saved_methods_keep_owner [OF sample_methods_ok runs_method_apply, of sample_method_ops] by blast
qed

text \<open>
  Completing a PayPal setup is idempotent: once it has returned a method, every later
  completion with the same token by the same reseller returns that method and changes nothing, even
  after the token has expired and without asking any gateway; and another reseller never gets it.
\<close>

theorem vault_completion_idempotent:
  assumes ok: "methods_ok s" and c: "complete_paypal_vault_setup reg now s rid tok tier label = Inr (m, t)" and tier: "0 \<le> tier'"
  shows "complete_paypal_vault_setup reg' now' t rid tok tier' label' = Inr (m, t) \<and>
    (\<forall>rid'. rid' \<noteq> rid \<longrightarrow> complete_paypal_vault_setup reg' now' t rid' tok tier' label' =
       Inl (PaymentMethodOwnershipError ''PayPal setup token not found''))"
proof -
  have okt: "methods_ok t" using complete_paypal_ok [OF ok c] by simp
  have "\<exists>p. paypal_pending_for_update t rid tok = Inr p \<and> completed_paypal_setup_method t rid p = Inr (Some m)"
    using c
  proof (cases rule: complete_paypalE)
    case (replay p)
    then show ?thesis by blast
  next
    case (first p gm s1)
    let ?p = "p\<lparr>pp_payment_method_id := Some (pm_id m), pp_consumed_at := Some now\<rparr>"
    note k = save_paypal_method_ok [OF ok first(5,4)]
    have p: "p \<in> set (paypal_setups s1)" "pp_setup_token_ref p = tok" "pp_reseller_id p = rid"
      using first(1) k by (auto elim: paypal_pendingE)
    then have pt: "?p \<in> set (paypal_setups t)" by (auto simp: first(6) save_setup_def put_row_def image_iff)
    have "unique_on (\<lambda>x. Some (pp_setup_token_ref x)) (paypal_setups t)"
      using okt by (simp add: methods_ok_def unique_on_def comp_def)
    then have "filter (\<lambda>x. pp_setup_token_ref x = tok) (paypal_setups t) = [?p]"
      using unique_on_filter_single [OF _ pt, of "\<lambda>x. Some (pp_setup_token_ref x)" tok] p by simp
    moreover have "get_method t (pm_id m) = Some m"
      using k okt first(6) by (simp add: get_method_def get_row_Some_iff methods_ok_def save_setup_def)
    ultimately show ?thesis using p k
      by (intro exI [of _ ?p]) (simp add: paypal_pending_for_update_def completed_paypal_setup_method_def)
  qed
  then obtain p where p: "paypal_pending_for_update t rid tok = Inr p" "completed_paypal_setup_method t rid p = Inr (Some m)" by blast
  then have "filter (\<lambda>x. pp_setup_token_ref x = tok) (paypal_setups t) = [p]" "pp_reseller_id p = rid"
    by (auto simp: paypal_pending_for_update_def ebind_Inr_iff scalar_iffs split: option.splits if_splits)
  then have "paypal_pending_for_update t rid' tok = Inl (PaymentMethodOwnershipError ''PayPal setup token not found'')"
    if "rid' \<noteq> rid" for rid'
    using that by (simp add: paypal_pending_for_update_def)
  with p tier show ?thesis by (simp add: complete_paypal_vault_setup_def raise_if_def)
qed

theorem vault_completion_idempotent_witness:
  "\<exists>m t. complete_paypal_vault_setup sample_paypal 5 (method_apply sample_funding (Create_Vault sample_paypal 0 1)) 1 ''setup_1'' 2 None = Inr (m, t) \<and>
     complete_paypal_vault_setup (\<lambda>_. None) (days 30) t 1 ''setup_1'' 0 None = Inr (m, t)"
proof -
  let ?s = "method_apply sample_funding (Create_Vault sample_paypal 0 1)"
  have ok: "methods_ok ?s"
    using saved_methods.runs_inv [OF runs_method_apply sample_methods_ok, of "[Create_Vault sample_paypal 0 1]"] by simp
  have "\<not> isl (complete_paypal_vault_setup sample_paypal 5 ?s 1 ''setup_1'' 2 None)" by code_simp
  then obtain m t where c: "complete_paypal_vault_setup sample_paypal 5 ?s 1 ''setup_1'' 2 None = Inr (m, t)"
    by (cases "complete_paypal_vault_setup sample_paypal 5 ?s 1 ''setup_1'' 2 None") auto
  with vault_completion_idempotent [OF ok c, of 0 "\<lambda>_. None" "days 30" None] show ?thesis by blast
qed

end
