(* ===== verification/Lifecycle.thy ===== *)
theory Lifecycle
  imports Models
begin

text \<open>
  Suspension of services, \<open>app/services/service_lifecycle.py\<close> with the placement lookup of
  \<open>app/services/service_resource.py\<close>: powering a machine off before its service is suspended,
  suspending and unsuspending. The power plugin and the ways to find it are parameters: what a
  plugin reports or raises is a value. The theorems: a service is suspended only when its machine is
  off or there is none to power, a failed suspension changes nothing, a terminated service never
  changes, and no other status change is possible.
\<close>

section \<open>Plugins\<close>

datatype PowerState = POWER_ON | POWER_OFF | POWER_UNKNOWN

datatype power_off_result = Powered bool | Power_Not_Implemented | Power_Raised

text \<open>\<open>power_state\<close> is \<open>None\<close> when reading it raises.\<close>

record power_plugin =
  power_state :: "PowerState option"
  power_off :: power_off_result

text \<open>
  The three sources of a plugin: an injected resolver, the Proxmox placement of a virtual machine
  (\<open>Inl\<close> the message of a placement error, or what else the lookup raises or returns), and the plugin of the linked server, if there
  is one: the registry raises \<open>KeyError\<close> for a plugin it does not know, and the constructor of a plugin may raise anything.
\<close>

record lifecycle_env =
  plugin_resolver :: "(service \<Rightarrow> power_plugin res) option"
  proxmox_plugin :: "service \<Rightarrow> string + power_plugin res"
  linked_server_plugin :: "service \<Rightarrow> power_plugin res option"

definition lifecycle_plugin :: "lifecycle_env \<Rightarrow> service \<Rightarrow> power_plugin res" where
  "lifecycle_plugin env v =
     (case plugin_resolver env of
        Some resolve \<Rightarrow> resolve v
      | None \<Rightarrow>
          if svc_type v = VM
          then (case proxmox_plugin env v of
                  Inl message \<Rightarrow> Inl (ServiceLifecycleError message)
                | Inr found \<Rightarrow> found)
          else (case linked_server_plugin env v of
                  None \<Rightarrow> Inl (ServiceLifecycleError ''Service has no linked server'')
                | Some found \<Rightarrow> found))"

definition vm_placement :: "service \<Rightarrow> int option \<times> string option \<times> int option" where
  "vm_placement v =
     (case svc_vm v of
        None \<Rightarrow> (None, None, None)
      | Some vm \<Rightarrow> if svc_type v \<noteq> VM then (None, None, None)
                   else (vm_cluster_id vm, vm_node_name vm, vm_vmid vm))"

section \<open>Operations\<close>

text \<open>Proxies and virtual machines that were never placed have nothing to power off.\<close>

definition needs_power_off :: "service \<Rightarrow> bool" where
  "needs_power_off v =
     (if svc_type v = HTTP_PROXY then False
      else if svc_type v = VM
      then (let (cluster_id, _, vmid) = vm_placement v in cluster_id \<noteq> None \<and> vmid \<noteq> None)
      else True)"

definition ensure_powered_off :: "lifecycle_env \<Rightarrow> service \<Rightarrow> unit res" where
  "ensure_powered_off env v =
     (if \<not> needs_power_off v then Inr ()
      else
        ebind (lifecycle_plugin env v) (\<lambda>plugin.
        let state = (case power_state plugin of None \<Rightarrow> POWER_UNKNOWN | Some st \<Rightarrow> st) in
        if state = POWER_OFF then Inr ()
        else case power_off plugin of
          Power_Not_Implemented \<Rightarrow> Inl (ServiceLifecycleError ''Server plugin does not support power control'')
        | Power_Raised \<Rightarrow> Inl (ServiceLifecycleError ''Failed to power off before suspend'')
        | Powered success \<Rightarrow>
            if success then Inr () else Inl (ServiceLifecycleError ''Failed to power off before suspend'')))"

definition suspend :: "lifecycle_env \<Rightarrow> store \<Rightarrow> service \<Rightarrow> (bool \<times> store) res" where
  "suspend env s v =
     (if svc_status v = SVC_SUSPENDED \<or> svc_status v = SVC_TERMINATED then Inr (False, s)
      else
        ebind (ensure_powered_off env v) (\<lambda>_.
        Inr (True, save_service (v\<lparr>svc_status := SVC_SUSPENDED\<rparr>) s)))"

definition unsuspend :: "store \<Rightarrow> service \<Rightarrow> bool \<times> store" where
  "unsuspend s v =
     (if svc_status v \<noteq> SVC_SUSPENDED then (False, s)
      else (True, save_service (v\<lparr>svc_status := SVC_ACTIVE\<rparr>) s))"

section \<open>The status machine\<close>

datatype lifecycle_op = Suspend lifecycle_env int | Unsuspend int

fun lifecycle_exec :: "store \<Rightarrow> lifecycle_op \<Rightarrow> (bool \<times> store) res" where
  "lifecycle_exec s (Suspend env i) =
     (case get_service s i of None \<Rightarrow> Inr (False, s) | Some v \<Rightarrow> suspend env s v)"
| "lifecycle_exec s (Unsuspend i) =
     (case get_service s i of None \<Rightarrow> Inr (False, s) | Some v \<Rightarrow> Inr (unsuspend s v))"

inductive lifecycle_step :: "store \<Rightarrow> lifecycle_op \<Rightarrow> store \<Rightarrow> bool" where
  "lifecycle_exec s x = Inr (changed, t) \<Longrightarrow> lifecycle_step s x t"
| "lifecycle_exec s x = Inl e \<Longrightarrow> lifecycle_step s x s"

inductive_cases lifecycle_stepE: "lifecycle_step s x t"

definition powered_down :: "lifecycle_env \<Rightarrow> service \<Rightarrow> bool" where
  "powered_down env v \<longleftrightarrow> needs_power_off v \<longrightarrow>
     (\<exists>plugin. lifecycle_plugin env v = Inr plugin \<and>
        (power_state plugin = Some POWER_OFF \<or> power_off plugin = Powered True))"

text \<open>The status changes one step can make to one service.\<close>

definition status_change :: "lifecycle_op \<Rightarrow> service \<Rightarrow> ServiceStatus \<Rightarrow> bool" where
  "status_change x v st \<longleftrightarrow> st = svc_status v \<or>
     (case x of
        Suspend env i \<Rightarrow> i = svc_id v \<and> st = SVC_SUSPENDED \<and> svc_status v \<in> {SVC_ACTIVE, SVC_PENDING} \<and> powered_down env v
      | Unsuspend i \<Rightarrow> i = svc_id v \<and> svc_status v = SVC_SUSPENDED \<and> st = SVC_ACTIVE)"

lemma powered_down_iff: "powered_down env v \<longleftrightarrow> ensure_powered_off env v = Inr ()"
proof (cases "needs_power_off v")
  case False
  then show ?thesis by (simp add: powered_down_def ensure_powered_off_def)
next
  case True
  show ?thesis
  proof (cases "lifecycle_plugin env v")
    case (Inl e)
    with True show ?thesis by (simp add: powered_down_def ensure_powered_off_def)
  next
    case (Inr plugin)
    with True show ?thesis
      by (cases "power_state plugin"; cases "power_off plugin") (simp_all add: powered_down_def ensure_powered_off_def)
  qed
qed

lemma ensure_powered_off_Inr: "ensure_powered_off env v = Inr u \<Longrightarrow> powered_down env v"
  by (simp add: powered_down_iff)

lemma get_serviceD: "get_service s i = Some v \<Longrightarrow> v \<in> set (services s) \<and> svc_id v = i"
  by (auto simp: get_service_def dest: get_row_SomeD)

lemma get_service_save:
  "get_service (save_service v s) i = (if i = svc_id v then map_option (\<lambda>_. v) (get_service s i) else get_service s i)"
  by (simp add: get_service_def save_service_def get_put_row)

lemma suspendE:
  assumes "suspend env s v = Inr (c, t)"
  obtains (idle) "\<not> c" "t = s" "svc_status v \<in> {SVC_SUSPENDED, SVC_TERMINATED}"
  | (act) "c" "t = save_service (v\<lparr>svc_status := SVC_SUSPENDED\<rparr>) s" "svc_status v \<in> {SVC_ACTIVE, SVC_PENDING}" "powered_down env v"
proof (cases "svc_status v = SVC_SUSPENDED \<or> svc_status v = SVC_TERMINATED")
  case True
  with assms show thesis by (intro that(1)) (auto simp: suspend_def)
next
  case False
  then have "svc_status v \<in> {SVC_ACTIVE, SVC_PENDING}" by (cases "svc_status v") auto
  with False assms show thesis by (intro that(2)) (auto simp: suspend_def ebind_Inr_iff dest: ensure_powered_off_Inr)
qed

lemma status_same: "\<exists>st. Some v = Some (v\<lparr>svc_status := st\<rparr>) \<and> status_change x v st"
  by (rule exI [of _ "svc_status v"]) (simp add: status_change_def)

lemma lifecycle_exec_status:
  assumes "lifecycle_exec s x = Inr (changed, t)" "get_service s i = Some v"
  shows "\<exists>st. get_service t i = Some (v\<lparr>svc_status := st\<rparr>) \<and> status_change x v st"
proof (cases "get_service t i = get_service s i")
  case True
  with assms(2) status_same show ?thesis by simp
next
  case False
  have id: "svc_id v = i" using get_serviceD [OF assms(2)] by simp
  show ?thesis
  proof (cases x)
    case (Suspend env j)
    with assms(1) False obtain w where w: "get_service s j = Some w" and sus: "suspend env s w = Inr (changed, t)"
      by (auto split: option.splits)
    from sus False obtain "t = save_service (w\<lparr>svc_status := SVC_SUSPENDED\<rparr>) s" "svc_status w \<in> {SVC_ACTIVE, SVC_PENDING}" "powered_down env w"
      by (cases rule: suspendE) auto
    moreover have "j = i" using calculation(1) False get_serviceD [OF w] by (auto simp: get_service_save split: if_splits)
    ultimately show ?thesis using Suspend w assms(2) id
      by (intro exI [of _ SVC_SUSPENDED]) (auto simp: get_service_save status_change_def)
  next
    case (Unsuspend j)
    with assms(1) False obtain w where w: "get_service s j = Some w" and sus: "unsuspend s w = (changed, t)"
      by (auto split: option.splits)
    from sus False have "t = save_service (w\<lparr>svc_status := SVC_ACTIVE\<rparr>) s" "svc_status w = SVC_SUSPENDED"
      by (auto simp: unsuspend_def split: if_splits)
    moreover have "j = i" using calculation(1) False get_serviceD [OF w] by (auto simp: get_service_save split: if_splits)
    ultimately show ?thesis using Unsuspend w assms(2) id
      by (intro exI [of _ SVC_ACTIVE]) (auto simp: get_service_save status_change_def)
  qed
qed

lemma lifecycle_step_status:
  assumes "lifecycle_step s x t" "get_service s i = Some v"
  shows "\<exists>st. get_service t i = Some (v\<lparr>svc_status := st\<rparr>) \<and> status_change x v st"
  using assms(1)
proof (rule lifecycle_stepE)
  fix changed assume "lifecycle_exec s x = Inr (changed, t)"
  then show ?thesis using assms(2) by (rule lifecycle_exec_status)
next
  fix e assume "t = s"
  then show ?thesis using assms(2) status_same by simp
qed

definition kept_terminated :: "service list \<Rightarrow> store \<Rightarrow> bool" where
  "kept_terminated vs s \<longleftrightarrow> (\<forall>v \<in> set vs. svc_status v = SVC_TERMINATED \<longrightarrow> get_service s (svc_id v) = Some v)"

interpretation lifecycle: transition_system "kept_terminated vs" lifecycle_step "kept_terminated vs" for vs
proof
  fix s x t assume k: "kept_terminated vs s" and st: "lifecycle_step s x t"
  show "kept_terminated vs t"
    unfolding kept_terminated_def
  proof (intro ballI impI)
    fix v assume v: "v \<in> set vs" "svc_status v = SVC_TERMINATED"
    with k have "get_service s (svc_id v) = Some v" by (auto simp: kept_terminated_def)
    from lifecycle_step_status [OF st this] v(2) show "get_service t (svc_id v) = Some v"
      by (cases x) (auto simp: status_change_def)
  qed
qed

section \<open>Properties\<close>

text \<open>
  One suspension, on every branch: a suspended or terminated service is left alone; otherwise
  the service becomes suspended exactly when there is nothing to power off or its machine is reported
  off or powered off successfully, and in every other case the call raises; only the status of this
  service ever changes.
\<close>

theorem suspend_outcome:
  assumes "get_service s i = Some v"
  shows "(svc_status v \<in> {SVC_SUSPENDED, SVC_TERMINATED} \<longrightarrow> suspend env s v = Inr (False, s)) \<and>
    (svc_status v \<in> {SVC_ACTIVE, SVC_PENDING} \<longrightarrow>
       (if powered_down env v
        then \<exists>t. suspend env s v = Inr (True, t) \<and> get_service t i = Some (v\<lparr>svc_status := SVC_SUSPENDED\<rparr>) \<and>
               (\<forall>j. j \<noteq> i \<longrightarrow> get_service t j = get_service s j)
        else \<exists>e. suspend env s v = Inl e))"
proof -
  have id: "svc_id v = i" using get_serviceD [OF assms] by simp
  note ok = powered_down_iff [of env v]
  show ?thesis
  proof (cases "ensure_powered_off env v")
    case (Inl e)
    then show ?thesis using ok by (simp add: suspend_def)
  next
    case (Inr u)
    have "get_service (save_service (v\<lparr>svc_status := SVC_SUSPENDED\<rparr>) s) j =
        (if j = i then Some (v\<lparr>svc_status := SVC_SUSPENDED\<rparr>) else get_service s j)" for j
      using assms id by (simp add: get_service_save)
    with Inr ok show ?thesis by (simp add: suspend_def)
  qed
qed

definition sample_service :: "int \<Rightarrow> ServiceType \<Rightarrow> ServiceStatus \<Rightarrow> service" where
  "sample_service i ty st = \<lparr>svc_id = i, svc_name = ''vm'', svc_type = ty, svc_status = st, svc_config = [],
     svc_product_snapshot = [], svc_vm = Some \<lparr>vm_cluster_id = Some 1, vm_node_name = Some ''n'', vm_vmid = Some 100\<rparr>\<rparr>"

definition sample_env :: "power_plugin \<Rightarrow> lifecycle_env" where
  "sample_env p = \<lparr>plugin_resolver = None, proxmox_plugin = (\<lambda>_. Inr (Inr p)), linked_server_plugin = (\<lambda>_. None)\<rparr>"

definition sample_services :: store where
  "sample_services = empty_store\<lparr>services := [sample_service 1 VM SVC_ACTIVE, sample_service 2 VM SVC_TERMINATED,
     sample_service 3 HTTP_PROXY SVC_PENDING]\<rparr>"

theorem suspend_outcome_witness:
  "\<exists>e. suspend (sample_env \<lparr>power_state = Some POWER_ON, power_off = Powered False\<rparr>) sample_services (sample_service 1 VM SVC_ACTIVE) = Inl e"
proof -
  have g: "get_service sample_services 1 = Some (sample_service 1 VM SVC_ACTIVE)"
    by (simp add: get_service_def sample_services_def sample_service_def)
  have "\<not> powered_down (sample_env \<lparr>power_state = Some POWER_ON, power_off = Powered False\<rparr>) (sample_service 1 VM SVC_ACTIVE)"
    by (simp add: powered_down_def needs_power_off_def vm_placement_def lifecycle_plugin_def sample_env_def sample_service_def)
  moreover have "svc_status (sample_service 1 VM SVC_ACTIVE) \<in> {SVC_ACTIVE, SVC_PENDING}" by (simp add: sample_service_def)
  ultimately show ?thesis
    using suspend_outcome [OF g, of "sample_env \<lparr>power_state = Some POWER_ON, power_off = Powered False\<rparr>"] by presburger
qed

text \<open>
  Termination is final: along any sequence of suspensions and unsuspensions, accepted or
  failed, a service that was terminated keeps its row exactly as it was.
\<close>

theorem terminated_stays_terminated:
  assumes "runs lifecycle_step s ops t" "get_service s i = Some v" "svc_status v = SVC_TERMINATED"
  shows "get_service t i = Some v"
proof -
  have "svc_id v = i" using get_serviceD [OF assms(2)] by simp
  with lifecycle.runs_inv [OF assms(1), of "[v]"] assms(2,3) show ?thesis by (simp add: kept_terminated_def)
qed

theorem terminated_stays_terminated_witness:
  "\<exists>t. runs lifecycle_step sample_services [Unsuspend 2, Suspend (sample_env \<lparr>power_state = None, power_off = Powered True\<rparr>) 1] t \<and>
     get_service t 2 = Some (sample_service 2 VM SVC_TERMINATED)"
proof -
  let ?x = "Suspend (sample_env \<lparr>power_state = None, power_off = Powered True\<rparr>) 1"
  have u: "lifecycle_step sample_services (Unsuspend 2) sample_services"
    by (rule lifecycle_step.intros(1) [of _ _ False]) (simp add: get_service_def sample_services_def sample_service_def unsuspend_def)
  have "\<not> isl (lifecycle_exec sample_services ?x)" by code_simp
  then obtain c t where "lifecycle_exec sample_services ?x = Inr (c, t)"
    by (cases "lifecycle_exec sample_services ?x") auto
  then have "lifecycle_step sample_services ?x t" by (rule lifecycle_step.intros(1))
  with u have r: "runs lifecycle_step sample_services [Unsuspend 2, ?x] t" by (blast intro: runs_Nil runs_Cons)
  have "get_service sample_services 2 = Some (sample_service 2 VM SVC_TERMINATED)"
    by (simp add: get_service_def sample_services_def sample_service_def)
  with terminated_stays_terminated [OF r this] r show ?thesis by (auto simp: sample_service_def)
qed

end
