(* ===== verification/Webhooks.thy ===== *)
theory Webhooks
  imports Payments Lifecycle
begin

text \<open>
  Gateway webhooks and admin refunds, \<open>app/services/payments/webhooks.py\<close> and \<open>refunds.py\<close>:
  events are recorded before they are applied and applied in one savepoint; completed, failed,
  reversed and disputed payments; reversal through the ledger; suspension of the services behind a
  disputed invoice. Storefront webhook deliveries and e-mails, whose failures the code swallows, are
  outside the state. The theorems: an event is applied at most once, no event breaks the payment and
  ledger invariants, a payment is refunded at most once, a credit refund returns exactly the debited
  amount, and what happens to refunds and disputes of invoices without a reseller.
\<close>

section \<open>Events\<close>

datatype GatewayWebhookAction = PAYMENT_COMPLETED | PAYMENT_FAILED | PAYMENT_REVERSED | PAYMENT_DISPUTED | IGNORED

record webhook_event =
  ev_id :: string
  ev_type :: string
  ev_action :: GatewayWebhookAction
  ev_external_ref :: "string option"
  ev_related_external_ref :: "string option"
  ev_amount_cents :: "int option"
  ev_currency :: "string option"
  ev_failure_code :: "string option"

text \<open>\<open>x or ""\<close>\<close>

definition or_empty :: "string option \<Rightarrow> string" where
  "or_empty x = (case x of None \<Rightarrow> [] | Some v \<Rightarrow> v)"

section \<open>Finding the payment\<close>

fun first_payment :: "store \<Rightarrow> string \<Rightarrow> string list \<Rightarrow> payment option res" where
  "first_payment s gateway [] = Inr None"
| "first_payment s gateway (reference # refs) =
     (if reference = [] then first_payment s gateway refs
      else ebind (scalar_one_or_none (filter (\<lambda>p. pay_gateway p = gateway \<and> pay_external_ref p = Some reference) (payments s)))
        (\<lambda>found. case found of Some p \<Rightarrow> Inr (Some p) | None \<Rightarrow> first_payment s gateway refs))"

definition payment_for_update :: "store \<Rightarrow> string \<Rightarrow> string \<Rightarrow> string option \<Rightarrow> payment option res" where
  "payment_for_update s gateway external_ref related =
     first_payment s gateway
       (external_ref # (case related of None \<Rightarrow> [] | Some r \<Rightarrow> if r \<noteq> [] \<and> r \<noteq> external_ref then [r] else []))"

text \<open>The row behind \<open>payment.invoice\<close>.\<close>

definition payment_invoice :: "store \<Rightarrow> payment \<Rightarrow> invoice res" where
  "payment_invoice s p =
     (case get_invoice s (pay_invoice_id p) of None \<Rightarrow> Inl (AttributeError ''invoice'') | Some i \<Rightarrow> Inr i)"

text \<open>Writing a changed external reference: the column is unique.\<close>

definition ref_taken :: "store \<Rightarrow> payment \<Rightarrow> bool" where
  "ref_taken s p \<longleftrightarrow> pay_external_ref p \<noteq> None \<and>
     pay_external_ref p \<in> pay_external_ref ` {x \<in> set (payments s). pay_id x \<noteq> pay_id p}"

section \<open>Completed and failed payments\<close>

definition payment_succeeded :: "instant \<Rightarrow> store \<Rightarrow> string \<Rightarrow> webhook_event \<Rightarrow> store res" where
  "payment_succeeded now s gateway ev =
     ebind (raise_if (or_empty (ev_external_ref ev) = []) (PaymentGatewayError ''Gateway payment reference is missing'')) (\<lambda>_.
     ebind (payment_for_update s gateway (or_empty (ev_external_ref ev)) (ev_related_external_ref ev)) (\<lambda>found.
     case found of
       None \<Rightarrow> Inr s
     | Some p \<Rightarrow>
         let event_currency = upper (or_empty (ev_currency ev)) in
         ebind (raise_if (ev_amount_cents ev = None) (PaymentGatewayError ''Gateway payment amount is missing'')) (\<lambda>_.
         ebind (raise_if (event_currency = []) (PaymentGatewayError ''Gateway payment currency is missing'')) (\<lambda>_.
         ebind (raise_if (ev_amount_cents ev \<noteq> Some (pay_amount_cents p)) (PaymentGatewayError ''Gateway payment amount does not match'')) (\<lambda>_.
         ebind (raise_if (event_currency \<noteq> upper (pay_currency p)) (PaymentGatewayError ''Gateway payment currency does not match'')) (\<lambda>_.
         let p' = p\<lparr>pay_external_ref := ev_external_ref ev\<rparr> in
         ebind (raise_if (ref_taken s p') IntegrityError) (\<lambda>_.
         ebind (finalize_success now s p') (\<lambda>(_, t). Inr t))))))))"

definition payment_failed :: "instant \<Rightarrow> store \<Rightarrow> string \<Rightarrow> webhook_event \<Rightarrow> store res" where
  "payment_failed now s gateway ev =
     ebind (payment_for_update s gateway (or_empty (ev_external_ref ev)) (ev_related_external_ref ev)) (\<lambda>found.
     case found of
       None \<Rightarrow> Inr s
     | Some p \<Rightarrow>
         if pay_status p = SUCCEEDED then Inr s
         else
           let p' = p\<lparr>pay_external_ref := (if or_empty (ev_external_ref ev) \<noteq> [] then ev_external_ref ev else pay_external_ref p),
                      pay_status := FAILED,
                      pay_failure_code := Some (if or_empty (ev_failure_code ev) \<noteq> [] then or_empty (ev_failure_code ev) else ''payment_failed''),
                      pay_failure_message := Some ''The payment could not be completed'',
                      pay_processed_at := Some now\<rparr> in
           ebind (payment_invoice s p) (\<lambda>i.
           ebind (raise_if (ref_taken s p') IntegrityError) (\<lambda>_.
           Inr ((if inv_status i = PENDING_ACTION then save_invoice (i\<lparr>inv_status := OPEN\<rparr>) else id) (save_payment p' s)))))"

section \<open>Reversals\<close>

definition reversal_metadata :: "string \<Rightarrow> dict" where
  "reversal_metadata event_id = [(''gateway_event_id'', JStr event_id)]"

definition refund_debit_context :: "invoice \<Rightarrow> payment \<Rightarrow> string \<Rightarrow> string \<Rightarrow> string \<Rightarrow> ledger_context" where
  "refund_debit_context i p gateway event_id reason =
     no_context\<lparr>ctx_description := Some (''Gateway '' @ reason @ '' for invoice '' @ show_int (inv_number i)),
       ctx_invoice_id := Some (inv_id i), ctx_payment_id := Some (pay_id p), ctx_service_id := inv_service_id i,
       ctx_reference_type := Some (''gateway_'' @ reason), ctx_reference_id := Some event_id,
       ctx_idempotency_key := Some (gateway @ ''-'' @ reason @ '':'' @ event_id),
       ctx_metadata := reversal_metadata event_id\<rparr>"

text \<open>The ledger side: the top-up entry is reversed, anything else is debited, below zero if need be.\<close>

definition reverse_in_ledger ::
  "store \<Rightarrow> invoice \<Rightarrow> payment \<Rightarrow> string \<Rightarrow> string \<Rightarrow> string \<Rightarrow> store res" where
  "reverse_in_ledger s i p gateway event_id reason =
     (if inv_purpose i = CREDIT_TOPUP
      then
        ebind (scalar_one_or_none (filter (\<lambda>e. le_payment_id e = Some (pay_id p) \<and> le_entry_type e = TOPUP) (ledger s))) (\<lambda>topup.
        case topup of
          None \<Rightarrow> Inr s
        | Some e \<Rightarrow>
            ebind (reverse_entry s (inv_reseller_id i) (le_id e)
              (Some (''Gateway '' @ reason @ '' for top-up invoice '' @ show_int (inv_number i)))
              (Some (gateway @ ''-'' @ reason @ '':'' @ event_id))
              [(''gateway_event_id'', JStr event_id), (''reason'', JStr reason)] None) (\<lambda>(_, t). Inr t))
      else
        ebind (debit s (inv_reseller_id i) (pay_amount_cents p) (refund_debit_context i p gateway event_id reason) True)
          (\<lambda>(_, t). Inr t))"

definition refunded :: "instant \<Rightarrow> payment \<Rightarrow> dict \<Rightarrow> payment" where
  "refunded now p metadata = p\<lparr>pay_status := REFUNDED, pay_refunded_at := Some now, pay_metadata := metadata\<rparr>"

definition reverse_payment ::
  "instant \<Rightarrow> store \<Rightarrow> string \<Rightarrow> string \<Rightarrow> string \<Rightarrow> string \<Rightarrow> store res" where
  "reverse_payment now s gateway external_ref event_id reason =
     ebind (payment_for_update s gateway external_ref None) (\<lambda>found.
     case found of
       None \<Rightarrow> Inr s
     | Some p \<Rightarrow>
         if pay_status p = REFUNDED then Inr s
         else
           ebind (payment_invoice s p) (\<lambda>i.
           ebind (reverse_in_ledger s i p gateway event_id reason) (\<lambda>s1.
           Inr (save_invoice (i\<lparr>inv_status := INV_FAILED, inv_paid_at := None\<rparr>)
             (save_payment (refunded now p
                (dict_set (dict_set (pay_metadata p) ''reversal_type'' (JStr reason)) ''gateway_event_id'' (JStr event_id))) s1)))))"

section \<open>Disputes\<close>

fun unique_first :: "int list \<Rightarrow> int list" where
  "unique_first [] = []"
| "unique_first (x # xs) = x # unique_first (filter (\<lambda>y. y \<noteq> x) xs)"

definition linked_service_ids :: "store \<Rightarrow> invoice \<Rightarrow> int list" where
  "linked_service_ids s i =
     unique_first ((case inv_service_id i of None \<Rightarrow> [] | Some v \<Rightarrow> [v]) @
       (case inv_order_id i of
          None \<Rightarrow> []
        | Some o_id \<Rightarrow> List.map_filter oi_service_id (filter (\<lambda>it. oi_order_id it = o_id) (order_items s))))"

text \<open>A lifecycle error is logged and the loop goes on; any other exception ends it.\<close>

fun suspend_services_for_dispute :: "lifecycle_env \<Rightarrow> store \<Rightarrow> int list \<Rightarrow> store res" where
  "suspend_services_for_dispute env s [] = Inr s"
| "suspend_services_for_dispute env s (i # is) =
     (case get_service s i of
        None \<Rightarrow> suspend_services_for_dispute env s is
      | Some v \<Rightarrow>
          (case suspend env s v of
             Inr (_, t) \<Rightarrow> suspend_services_for_dispute env t is
           | Inl (ServiceLifecycleError _) \<Rightarrow> suspend_services_for_dispute env s is
           | Inl e \<Rightarrow> Inl e))"

definition handle_payment_disputed ::
  "lifecycle_env \<Rightarrow> instant \<Rightarrow> store \<Rightarrow> string \<Rightarrow> webhook_event \<Rightarrow> store res" where
  "handle_payment_disputed env now s gateway ev =
     ebind (reverse_payment now s gateway (or_empty (ev_external_ref ev)) (ev_id ev) ''dispute'') (\<lambda>s1.
     ebind (payment_for_update s1 gateway (or_empty (ev_external_ref ev)) None) (\<lambda>found.
     case found of
       None \<Rightarrow> Inr s1
     | Some p \<Rightarrow>
         (case get_invoice s1 (pay_invoice_id p) of
            None \<Rightarrow> Inr s1
          | Some i \<Rightarrow> suspend_services_for_dispute env s1 (linked_service_ids s1 i))))"

section \<open>Processing an event\<close>

definition apply_event :: "lifecycle_env \<Rightarrow> instant \<Rightarrow> store \<Rightarrow> string \<Rightarrow> webhook_event \<Rightarrow> store res" where
  "apply_event env now s gateway ev =
     (case ev_action ev of
        PAYMENT_COMPLETED \<Rightarrow> payment_succeeded now s gateway ev
      | PAYMENT_FAILED \<Rightarrow> payment_failed now s gateway ev
      | PAYMENT_REVERSED \<Rightarrow> reverse_payment now s gateway (or_empty (ev_external_ref ev)) (ev_id ev) ''refund''
      | PAYMENT_DISPUTED \<Rightarrow> handle_payment_disputed env now s gateway ev
      | IGNORED \<Rightarrow> Inr s)"

text \<open>
  \<open>PaymentWebhookService.process\<close>: the savepoint is rolled back by any exception; a uniqueness
  violation is reported as already processed.
\<close>

definition process ::
  "lifecycle_env \<Rightarrow> instant \<Rightarrow> store \<Rightarrow> string \<Rightarrow> webhook_event \<Rightarrow> (bool \<times> store) res" where
  "process env now s gateway ev =
     ebind (raise_if (ev_id ev = [] \<or> ev_type ev = []) (PaymentGatewayError ''Gateway event is missing id or type'')) (\<lambda>_.
     ebind (scalar_one_or_none (filter (\<lambda>w. we_gateway w = gateway \<and> we_event_id w = ev_id ev) (webhook_events s))) (\<lambda>existing.
     if existing \<noteq> None then Inr (False, s)
     else
       let s1 = s\<lparr>webhook_events := webhook_events s @
             [\<lparr>we_gateway = gateway, we_event_id = ev_id ev, we_event_type = ev_type ev\<rparr>]\<rparr> in
       case apply_event env now s1 gateway ev of
         Inr t \<Rightarrow> Inr (True, t)
       | Inl e \<Rightarrow> if e = IntegrityError then Inr (False, s) else Inl e))"

section \<open>Admin refunds\<close>

fun gateway_error_message :: "exn \<Rightarrow> string option" where
  "gateway_error_message (PaymentGatewayError m) = Some m"
| "gateway_error_message (GatewayNotConfiguredError m) = Some m"
| "gateway_error_message (PaymentMethodOwnershipError m) = Some m"
| "gateway_error_message _ = None"

definition refundability :: "payment \<Rightarrow> bool \<times> string option" where
  "refundability p =
     (if pay_status p = REFUNDED then (False, Some ''Payment is already refunded'')
      else if pay_status p \<noteq> SUCCEEDED then (False, Some ''Only succeeded payments can be refunded'')
      else
        let gateway = lower (pay_gateway p) in
        if gateway = ''credit'' then (True, None)
        else if gateway = ''stripe'' \<or> gateway = ''paypal''
        then (if strip (or_empty (pay_external_ref p)) = [] then (False, Some ''Payment has no gateway reference to refund'')
              else (True, None))
        else if gateway = ''usdt'' then (False, Some ''USDT deposits cannot be refunded through the gateway'')
        else (False, Some (''Gateway '' @ [CHR 0x27] @ pay_gateway p @ [CHR 0x27] @ '' does not support admin refunds'')))"

definition json_option_int :: "int option \<Rightarrow> json" where
  "json_option_int x = (case x of None \<Rightarrow> JNull | Some n \<Rightarrow> JInt n)"

definition json_option_str :: "string option \<Rightarrow> json" where
  "json_option_str x = (case x of None \<Rightarrow> JNull | Some v \<Rightarrow> JStr v)"

text \<open>The debit behind a credit payment: the entry named in its metadata, else the one linked to it.\<close>

definition credit_debit_entry :: "store \<Rightarrow> payment \<Rightarrow> ledger_entry option res" where
  "credit_debit_entry s p =
     (case (case map_of (pay_metadata p) ''ledger_entry_id'' of Some (JInt n) \<Rightarrow> get_entry s n | _ \<Rightarrow> None) of
        Some e \<Rightarrow> Inr (Some e)
      | None \<Rightarrow> scalar_one_or_none (filter (\<lambda>e. le_payment_id e = Some (pay_id p) \<and> le_entry_type e = CHARGE) (ledger s)))"

definition refund_credit_payment ::
  "instant \<Rightarrow> store \<Rightarrow> payment \<Rightarrow> string \<Rightarrow> string option \<Rightarrow> int option \<Rightarrow> (payment \<times> store) res" where
  "refund_credit_payment now s p event_id reason admin_user_id =
     ebind (payment_invoice s p) (\<lambda>i.
     ebind (credit_debit_entry s p) (\<lambda>found.
     case found of
       None \<Rightarrow> Inl (PaymentRefundError ''Credit payment has no ledger debit to reverse'' ''missing_ledger_entry'')
     | Some e \<Rightarrow>
         ebind (reverse_entry s (inv_reseller_id i) (le_id e)
           (Some (case reason of Some r \<Rightarrow> if r = [] then ''Admin refund of credit payment on invoice '' @ show_int (inv_number i) else r
                  | None \<Rightarrow> ''Admin refund of credit payment on invoice '' @ show_int (inv_number i)))
           (Some event_id) [(''reason'', JStr ''admin_refund''), (''admin_user_id'', json_option_int admin_user_id)]
           admin_user_id) (\<lambda>(_, s1).
         let p' = refunded now p (dict_set (dict_set (pay_metadata p) ''admin_refund''
                (JObj [(''event_id'', JStr event_id), (''reason'', json_option_str reason),
                       (''admin_user_id'', json_option_int admin_user_id)]))
                ''reversal_type'' (JStr ''admin_refund''))
         in Inr (p', save_invoice (i\<lparr>inv_status := INV_FAILED, inv_paid_at := None\<rparr>) (save_payment p' s1)))))"

text \<open>The gateway path of a refund: ask the adapter, reverse locally, and note the refund on the payment.\<close>

definition request_refund :: "registry \<Rightarrow> payment \<Rightarrow> string option \<Rightarrow> gateway_refund_result res" where
  "request_refund reg p note_text =
     (case registry_get reg (lower (pay_gateway p)) of
        Inl e \<Rightarrow> Inl (PaymentRefundError (or_empty (gateway_error_message e)) ''gateway_unavailable'')
      | Inr adapter \<Rightarrow>
          (case refund_payment adapter \<lparr>rq_external_ref = or_empty (pay_external_ref p), rq_amount_cents = pay_amount_cents p,
                  rq_currency = pay_currency p, rq_idempotency_key = ''admin-refund-'' @ show_int (pay_id p),
                  rq_reason = note_text\<rparr> of
             Inl e \<Rightarrow> (case gateway_error_message e of
                 Some m \<Rightarrow> Inl (PaymentRefundError m ''gateway_error'')
               | None \<Rightarrow> Inl e)
           | Inr outcome \<Rightarrow>
               if rr_status outcome \<noteq> GW_SUCCEEDED
               then Inl (PaymentRefundError
                      (if or_empty (rr_failure_message outcome) = [] then ''Gateway refund failed'' else or_empty (rr_failure_message outcome))
                      (if or_empty (rr_failure_code outcome) = [] then ''gateway_declined'' else or_empty (rr_failure_code outcome)))
               else Inr outcome))"

text \<open>
  The session does not flush before the payment is read again, so that what the reversal wrote to it is discarded and written once
  more; the metadata of the reversal are lost.
\<close>

definition record_admin_refund ::
  "instant \<Rightarrow> store \<Rightarrow> payment \<Rightarrow> string \<Rightarrow> string option \<Rightarrow> int option \<Rightarrow> string option \<Rightarrow> payment \<times> store" where
  "record_admin_refund now s p event_id note_text admin_user_id refund_ref =
     (let q1 = (if pay_status p \<noteq> REFUNDED then p\<lparr>pay_status := REFUNDED, pay_refunded_at := Some now\<rparr> else p);
          q2 = q1\<lparr>pay_metadata := dict_set (pay_metadata q1) ''admin_refund''
            (JObj [(''event_id'', JStr event_id), (''reason'', json_option_str note_text),
                   (''admin_user_id'', json_option_int admin_user_id),
                   (''gateway_refund_ref'', json_option_str refund_ref)])\<rparr>
      in (q2, save_payment q2 s))"

definition refund_through_gateway ::
  "registry \<Rightarrow> instant \<Rightarrow> store \<Rightarrow> payment \<Rightarrow> string \<Rightarrow> string option \<Rightarrow> int option \<Rightarrow> (payment \<times> store) res" where
  "refund_through_gateway reg now s p event_id note_text admin_user_id =
     ebind (request_refund reg p note_text) (\<lambda>outcome.
     ebind (reverse_payment now s (lower (pay_gateway p)) (or_empty (pay_external_ref p)) event_id ''admin_refund'') (\<lambda>s1.
     Inr (record_admin_refund now s1 p event_id note_text admin_user_id (rr_external_ref outcome))))"

text \<open>\<open>PaymentRefundService.refund\<close>; \<open>uuid\<close> is the random part of the event id.\<close>

definition refund ::
  "registry \<Rightarrow> instant \<Rightarrow> string \<Rightarrow> store \<Rightarrow> int \<Rightarrow> string option \<Rightarrow> int option \<Rightarrow> (payment \<times> store) res" where
  "refund reg now uuid s payment_id reason admin_user_id =
     (case get_payment s payment_id of
        None \<Rightarrow> Inl (PaymentRefundError ''Payment not found'' ''not_found'')
      | Some p \<Rightarrow>
          let (refundable, detail) = refundability p in
          if \<not> refundable
          then Inl (PaymentRefundError (if or_empty detail = [] then ''Payment is not refundable'' else or_empty detail) ''not_refundable'')
          else
            let note_text = (if strip (or_empty reason) = [] then None else Some (strip (or_empty reason)));
                event_id = ''admin-refund:'' @ show_int (pay_id p) @ '':'' @ uuid in
            if lower (pay_gateway p) = ''credit''
            then refund_credit_payment now s p event_id note_text admin_user_id
            else refund_through_gateway reg now s p event_id note_text admin_user_id)"

section \<open>Payments found and written\<close>

lemma first_payment_Some:
  assumes "first_payment s gateway refs = Inr (Some p)"
  shows "p \<in> set (payments s) \<and> pay_gateway p = gateway \<and> (\<exists>ref \<in> set refs. ref \<noteq> [] \<and> pay_external_ref p = Some ref)"
  using assms
proof (induction refs)
  case (Cons ref refs)
  show ?case
  proof (cases "ref = []")
    case True
    with Cons show ?thesis by auto
  next
    case False
    with Cons.prems obtain found where
      f: "scalar_one_or_none (filter (\<lambda>p. pay_gateway p = gateway \<and> pay_external_ref p = Some ref) (payments s)) = Inr found"
      and rest: "(case found of Some p \<Rightarrow> Inr (Some p) | None \<Rightarrow> first_payment s gateway refs) = Inr (Some p)"
      by (auto simp: ebind_Inr_iff)
    show ?thesis
    proof (cases found)
      case None
      with rest Cons.IH show ?thesis by auto
    next
      case (Some q)
      with f rest have "p \<in> set (filter (\<lambda>p. pay_gateway p = gateway \<and> pay_external_ref p = Some ref) (payments s))"
        by (simp add: scalar_iffs)
      with False show ?thesis by auto
    qed
  qed
qed simp

lemma payment_for_update_Some:
  assumes "payment_for_update s gateway ref related = Inr (Some p)"
  shows "p \<in> set (payments s)" "pay_gateway p = gateway"
  using first_payment_Some [OF assms [unfolded payment_for_update_def]] by auto

lemma allocated_save:
  assumes d: "distinct (map pay_id (payments s))" and p: "p \<in> set (payments s)" "pay_id p' = pay_id p"
    "pay_invoice_id p' = pay_invoice_id p" "pay_amount_cents p' = pay_amount_cents p"
  shows "allocated_cents (save_payment p' s) n = allocated_cents s n +
    (if pay_invoice_id p = n then (if pay_status p' = SUCCEEDED then pay_amount_cents p else 0) -
       (if pay_status p = SUCCEEDED then pay_amount_cents p else 0) else 0)"
proof -
  let ?A = "\<lambda>ps. sum_list (map pay_amount_cents (filter (\<lambda>x. pay_invoice_id x = n \<and> pay_status x = SUCCEEDED) ps))"
  let ?d = "if pay_invoice_id p = n then (if pay_status p' = SUCCEEDED then pay_amount_cents p else 0) -
       (if pay_status p = SUCCEEDED then pay_amount_cents p else 0) else 0"
  have "?A (put_row pay_id p' ps) = ?A ps + (if p \<in> set ps then ?d else 0)"
    if "distinct (map pay_id ps)" "\<forall>x \<in> set ps. pay_id x = pay_id p \<longrightarrow> x = p" for ps
    using that
  proof (induction ps)
    case (Cons x xs)
    show ?case
    proof (cases "x = p")
      case True
      then have "p \<notin> set xs" using Cons.prems(1) by auto
      with True Cons p(2-4) show ?thesis by simp
    next
      case False
      then have "pay_id x \<noteq> pay_id p'" using Cons.prems(2) p(2) by auto
      with False Cons show ?thesis by auto
    qed
  qed simp
  moreover have "\<forall>x \<in> set (payments s). pay_id x = pay_id p \<longrightarrow> x = p"
    using d p(1) by (auto simp: distinct_map dest: inj_onD)
  ultimately show ?thesis using d p(1) by (simp add: allocated_cents_def save_payment_def)
qed

lemma funding_ok_weaken: "funding_ok s \<Longrightarrow> funding_ok_but E s"
  by (auto simp: funding_ok_but_def payments_ok_but_def)

lemma funding_okD:
  assumes "funding_ok s"
  shows "distinct (map pay_id (payments s))" "unique_on pay_external_ref (payments s)" "invoices_ok s" "ledger_ok s" "outbox_ok s"
    and "get_invoice s n = Some i \<Longrightarrow> allocated_cents s n \<le> inv_amount_cents i \<and>
      (inv_status i = PAID \<longrightarrow> allocated_cents s n = inv_amount_cents i)"
  using assms get_invoiceD [of s n i] by (auto simp: funding_ok_but_def payments_ok_but_def)

lemma unique_ref_other:
  assumes "funding_ok s" "p \<in> set (payments s)" "x \<in> set (payments s)" "pay_id x \<noteq> pay_id p" "pay_external_ref p = Some k"
  shows "pay_external_ref x \<noteq> Some k"
  using unique_on_inj [OF funding_okD(2) [OF assms(1)] assms(3,2)] assms(4,5) by auto

text \<open>A payment that stops counting, together with its invoice leaving the paid state.\<close>

lemma drop_payment_ok:
  assumes ok: "funding_ok s" and p: "p \<in> set (payments s)" "pay_id p' = pay_id p" "pay_invoice_id p' = pay_invoice_id p"
    "pay_amount_cents p' = pay_amount_cents p" "pay_status p' \<noteq> SUCCEEDED"
    and ref: "\<And>x k. x \<in> set (payments s) \<Longrightarrow> pay_id x \<noteq> pay_id p \<Longrightarrow> pay_external_ref p' = Some k \<Longrightarrow> pay_external_ref x \<noteq> Some k"
    and g: "get_invoice s (pay_invoice_id p) = Some i" "invoice_core i' = invoice_core i" "inv_status i' \<noteq> PAID"
  shows "funding_ok (save_invoice i' (save_payment p' s))"
proof -
  let ?n = "pay_invoice_id p"
  have ok1: "funding_ok_but {?n} (save_payment p' s)"
    using funding_ok_weaken [OF ok] p ref by (intro save_payment_ok [of _ _ p]) auto
  have g1: "get_invoice (save_payment p' s) ?n = Some i" using g(1) by (simp add: get_invoice_def save_payment_def)
  note k = save_invoice_unpaid_ok [OF ok1 g1 g(2,3)]
  have pos: "0 \<le> pay_amount_cents p" using ok p(1) by (force simp: funding_ok_but_def payments_ok_but_def)
  have al: "allocated_cents (save_invoice i' (save_payment p' s)) ?n \<le> inv_amount_cents i"
    using allocated_save [OF funding_okD(1) [OF ok] p(1-4), of ?n] funding_okD(6) [OF ok g(1)] p(5) pos
    by (simp add: allocated_cents_def)
  have id: "inv_id i' = ?n" "inv_amount_cents i' = inv_amount_cents i"
    using invoice_core_fields [OF g(2)] get_invoiceD [OF g(1)] by auto
  have one: "x = i'" if "x \<in> set (invoices (save_invoice i' (save_payment p' s)))" "inv_id x = ?n" for x
    using that id by (auto simp: invoices_save_invoice dest!: put_row_memD)
  have "allocated_cents (save_invoice i' (save_payment p' s)) (inv_id x) \<le> inv_amount_cents x \<and>
      (inv_status x = PAID \<longrightarrow> allocated_cents (save_invoice i' (save_payment p' s)) (inv_id x) = inv_amount_cents x)"
    if x: "x \<in> set (invoices (save_invoice i' (save_payment p' s)))" for x
  proof (cases "inv_id x = ?n")
    case True
    then show ?thesis using one [OF x] al id g(3) by simp
  next
    case False
    then show ?thesis using k(1) x by (simp add: funding_ok_but_def payments_ok_but_def)
  qed
  then show ?thesis using k(1) by (simp add: funding_ok_but_def payments_ok_but_def)
qed

lemma ref_not_taken:
  "\<not> ref_taken s p \<Longrightarrow> x \<in> set (payments s) \<Longrightarrow> pay_id x \<noteq> pay_id p \<Longrightarrow> pay_external_ref p = Some k \<Longrightarrow> pay_external_ref x \<noteq> Some k"
  by (force simp: ref_taken_def image_iff)

section \<open>Frames\<close>

text \<open>What the billing operations leave alone.\<close>

definition same_rest :: "store \<Rightarrow> store \<Rightarrow> bool" where
  "same_rest s t \<longleftrightarrow> webhook_events t = webhook_events s \<and> services t = services s \<and> order_items t = order_items s \<and>
     service_billings t = service_billings s \<and> billing_cycles t = billing_cycles s \<and> lease t = lease s \<and>
     provisioning_requests t = provisioning_requests s \<and> payment_methods t = payment_methods s"

lemma same_rest_refl [simp]: "same_rest s s"
  by (simp add: same_rest_def)

lemma same_rest_trans: "same_rest s t \<Longrightarrow> same_rest t u \<Longrightarrow> same_rest s u"
  by (simp add: same_rest_def)

lemma same_rest_save [simp]:
  "same_rest s (save_payment p t) = same_rest s t" "same_rest s (save_invoice i t) = same_rest s t"
  "same_rest s (save_reseller r t) = same_rest s t"
  by (simp_all add: same_rest_def save_payment_def save_invoice_def save_reseller_def)

lemma same_rest_ledger: "ledger_exec s x = Inr (e, t) \<Longrightarrow> same_rest s t"
  by (drule ledger_exec_frame, erule ssubst) (simp add: same_rest_def)

lemma same_rest_notify: "notify s r ev key d = Inr t \<Longrightarrow> same_rest s t"
  by (drule notify_frame, erule ssubst) (simp add: same_rest_def)

lemma same_rest_mark: "mark_paid_if_fully_allocated now s n = Inr (i, t) \<Longrightarrow> same_rest s t"
  by (drule mark_paid_frame, erule ssubst) (simp add: same_rest_def)

lemma same_rest_finalize:
  assumes "finalize_success now s p = Inr (i, t)"
  shows "same_rest s t"
proof -
  from assms obtain s1 where m: "mark_paid_if_fully_allocated now (save_payment (finalized now p) s) (pay_invoice_id p) = Inr (i, s1)"
    and ct: "credit_topup s1 i (finalized now p) = Inr (i, t)" by (rule finalize_successE)
  have "same_rest s s1" using same_rest_mark [OF m] by (auto simp: same_rest_def save_payment_def)
  moreover from ct have "same_rest s1 t"
  proof (cases rule: credit_topupE)
    case (yes e s2 j r)
    then show ?thesis using same_rest_ledger [OF yes(5) [unfolded credit_exec]] same_rest_notify [OF yes(7)] by (blast intro: same_rest_trans)
  qed simp
  ultimately show ?thesis by (rule same_rest_trans)
qed

section \<open>Every event keeps the invariants\<close>

lemma payment_succeededE:
  assumes "payment_succeeded now s gateway ev = Inr t"
  obtains (none) "t = s"
  | (some) p i where "payment_for_update s gateway (or_empty (ev_external_ref ev)) (ev_related_external_ref ev) = Inr (Some p)"
      "ev_amount_cents ev = Some (pay_amount_cents p)" "\<not> ref_taken s (p\<lparr>pay_external_ref := ev_external_ref ev\<rparr>)"
      "finalize_success now s (p\<lparr>pay_external_ref := ev_external_ref ev\<rparr>) = Inr (i, t)"
proof -
  from assms obtain found where
    f: "payment_for_update s gateway (or_empty (ev_external_ref ev)) (ev_related_external_ref ev) = Inr found"
    by (auto simp: payment_succeeded_def ebind_Inr_iff)
  show thesis
  proof (cases found)
    case None
    with assms f show thesis by (intro that(1)) (auto simp: payment_succeeded_def ebind_Inr_iff raise_if_Inr_iff)
  next
    case (Some p)
    with assms f obtain i where "ev_amount_cents ev = Some (pay_amount_cents p)"
      "\<not> ref_taken s (p\<lparr>pay_external_ref := ev_external_ref ev\<rparr>)"
      "finalize_success now s (p\<lparr>pay_external_ref := ev_external_ref ev\<rparr>) = Inr (i, t)"
      by (auto simp: payment_succeeded_def Let_def ebind_Inr_iff raise_if_Inr_iff)
    with Some f show thesis by (intro that(2)) auto
  qed
qed

lemma payment_succeeded_ok:
  assumes ok: "funding_ok s" and ps: "payment_succeeded now s gateway ev = Inr t"
  shows "funding_ok t \<and> same_rest s t"
  using ps
proof (cases rule: payment_succeededE)
  case none
  with ok show ?thesis by simp
next
  case (some p i)
  let ?p = "p\<lparr>pay_external_ref := ev_external_ref ev\<rparr>"
  have p: "p \<in> set (payments s)" using payment_for_update_Some [OF some(1)] by simp
  have "funding_ok_but {pay_invoice_id p} (save_payment (finalized now ?p) s)"
    using funding_ok_weaken [OF ok] p ref_not_taken [OF some(3)]
    by (intro save_payment_ok [of _ _ p]) (auto simp: finalized_def)
  then have "funding_ok_but {pay_invoice_id ?p} (save_payment (finalized now ?p) s)" by simp
  from finalize_success_ok(1) [OF this some(4)] same_rest_finalize [OF some(4)] show ?thesis by simp
qed

lemma payment_failed_ok:
  assumes ok: "funding_ok s" and pf: "payment_failed now s gateway ev = Inr t"
  shows "funding_ok t \<and> same_rest s t"
proof -
  from pf obtain found where
    f: "payment_for_update s gateway (or_empty (ev_external_ref ev)) (ev_related_external_ref ev) = Inr found"
    by (auto simp: payment_failed_def ebind_Inr_iff)
  show ?thesis
  proof (cases "\<exists>p. found = Some p \<and> pay_status p \<noteq> SUCCEEDED")
    case False
    with pf f have "t = s" by (auto simp: payment_failed_def split: option.splits)
    with ok show ?thesis by simp
  next
    case True
    then obtain p where fp: "found = Some p" "pay_status p \<noteq> SUCCEEDED" by blast
    define p' where "p' = p\<lparr>pay_external_ref := (if or_empty (ev_external_ref ev) \<noteq> [] then ev_external_ref ev else pay_external_ref p),
                      pay_status := FAILED,
                      pay_failure_code := Some (if or_empty (ev_failure_code ev) \<noteq> [] then or_empty (ev_failure_code ev) else ''payment_failed''),
                      pay_failure_message := Some ''The payment could not be completed'',
                      pay_processed_at := Some now\<rparr>"
    from pf f fp obtain i where i: "get_invoice s (pay_invoice_id p) = Some i" and nt: "\<not> ref_taken s p'"
      and t: "t = (if inv_status i = PENDING_ACTION then save_invoice (i\<lparr>inv_status := OPEN\<rparr>) else id) (save_payment p' s)"
      by (auto simp: payment_failed_def Let_def ebind_Inr_iff raise_if_Inr_iff payment_invoice_def p'_def [symmetric] split: option.splits)
    have p: "p \<in> set (payments s)" using f fp payment_for_update_Some by simp
    have p': "pay_id p' = pay_id p" "pay_invoice_id p' = pay_invoice_id p" "pay_amount_cents p' = pay_amount_cents p" "pay_status p' = FAILED"
      by (simp_all add: p'_def)
    have ref: "pay_external_ref x \<noteq> Some k" if "x \<in> set (payments s)" "pay_id x \<noteq> pay_id p" "pay_external_ref p' = Some k" for x k
      using ref_not_taken [OF nt that(1) _ that(3)] that(2) p'(1) by simp
    show ?thesis
    proof (cases "inv_status i = PENDING_ACTION")
      case True
      have "funding_ok (save_invoice (i\<lparr>inv_status := OPEN\<rparr>) (save_payment p' s))"
        using ok p p' ref i by (intro drop_payment_ok) (auto simp: invoice_core_def)
      then show ?thesis using True t by simp
    next
      case False
      let ?i = "i"
      have al: "allocated_cents (save_payment p' s) n = allocated_cents s n" for n
        using allocated_save [OF funding_okD(1) [OF ok] p p'(1-3), of n] fp(2) p'(4) by simp
      have "funding_ok_but {pay_invoice_id p} (save_payment p' s)"
        using funding_ok_weaken [OF ok] p p' ref by (intro save_payment_ok [of _ _ p]) auto
      moreover have "invoices (save_payment p' s) = invoices s" by (simp add: save_payment_def)
      ultimately have "funding_ok (save_payment p' s)"
        using ok unfolding funding_ok_but_def payments_ok_but_def al by auto
      then show ?thesis using False t by simp
    qed
  qed
qed

lemma reverse_exec: "reverse_entry s i n d key m u = ledger_exec s (Reverse i n d key m u)"
  by simp

lemma reverse_in_ledger_exec:
  assumes "reverse_in_ledger s i p gateway event_id reason = Inr t"
  shows "t = s \<or> (\<exists>x e. ledger_exec s x = Inr (e, t))"
proof (cases "inv_purpose i = CREDIT_TOPUP")
  case True
  with assms consider "t = s" | n d key m e where "reverse_entry s (inv_reseller_id i) n d key m None = Inr (e, t)"
    by (auto simp: reverse_in_ledger_def ebind_Inr_iff split: option.splits)
  then show ?thesis unfolding reverse_exec by blast
next
  case False
  with assms obtain a c e where "debit s (inv_reseller_id i) a c True = Inr (e, t)"
    by (auto simp: reverse_in_ledger_def ebind_Inr_iff)
  then show ?thesis unfolding debit_exec by blast
qed

lemma reverse_in_ledger_ok:
  assumes "funding_ok s" "reverse_in_ledger s i p gateway event_id reason = Inr t"
  shows "funding_ok t" "payments t = payments s" "invoices t = invoices s" "same_rest s t"
  using reverse_in_ledger_exec [OF assms(2)] ledger_exec_funding_ok(1-3) [OF assms(1)] same_rest_ledger assms(1) by auto

lemma reverse_paymentE:
  assumes "reverse_payment now s gateway ref event_id reason = Inr t"
  obtains (none) "t = s" "\<And>p. payment_for_update s gateway ref None = Inr (Some p) \<Longrightarrow> pay_status p = REFUNDED"
  | (some) p i s1 where "payment_for_update s gateway ref None = Inr (Some p)" "pay_status p \<noteq> REFUNDED"
      "get_invoice s (pay_invoice_id p) = Some i" "reverse_in_ledger s i p gateway event_id reason = Inr s1"
      "t = save_invoice (i\<lparr>inv_status := INV_FAILED, inv_paid_at := None\<rparr>) (save_payment (refunded now p
                (dict_set (dict_set (pay_metadata p) ''reversal_type'' (JStr reason)) ''gateway_event_id'' (JStr event_id))) s1)"
proof -
  from assms obtain found where f: "payment_for_update s gateway ref None = Inr found"
    by (auto simp: reverse_payment_def ebind_Inr_iff)
  show thesis
  proof (cases "\<exists>p. found = Some p \<and> pay_status p \<noteq> REFUNDED")
    case False
    with assms f show thesis by (intro that(1)) (auto simp: reverse_payment_def split: option.splits)
  next
    case True
    then obtain p where p: "found = Some p" "pay_status p \<noteq> REFUNDED" by blast
    with assms f obtain i s1 where "get_invoice s (pay_invoice_id p) = Some i" "reverse_in_ledger s i p gateway event_id reason = Inr s1"
      "t = save_invoice (i\<lparr>inv_status := INV_FAILED, inv_paid_at := None\<rparr>) (save_payment (refunded now p
                (dict_set (dict_set (pay_metadata p) ''reversal_type'' (JStr reason)) ''gateway_event_id'' (JStr event_id))) s1)"
      by (auto simp: reverse_payment_def ebind_Inr_iff payment_invoice_def split: option.splits)
    with p f show thesis by (intro that(2)) auto
  qed
qed

lemma refund_rows_ok:
  assumes ok: "funding_ok s1" and p: "p \<in> set (payments s1)" and g: "get_invoice s1 (pay_invoice_id p) = Some i"
  shows "funding_ok (save_invoice (i\<lparr>inv_status := INV_FAILED, inv_paid_at := None\<rparr>) (save_payment (refunded now p m) s1))"
  using ok p g unique_ref_other [OF ok p] by (intro drop_payment_ok [of _ p]) (auto simp: refunded_def invoice_core_def)

lemma reverse_payment_ok:
  assumes ok: "funding_ok s" and rp: "reverse_payment now s gateway ref event_id reason = Inr t"
  shows "funding_ok t \<and> same_rest s t"
  using rp
proof (cases rule: reverse_paymentE)
  case none
  with ok show ?thesis by simp
next
  case (some p i s1)
  note k = reverse_in_ledger_ok [OF ok some(4)]
  have "p \<in> set (payments s1)" "get_invoice s1 (pay_invoice_id p) = Some i"
    using payment_for_update_Some [OF some(1)] some(3) k(2,3) by (simp_all add: get_invoice_def)
  from refund_rows_ok [OF k(1) this] k(4) show ?thesis by (simp add: some(5))
qed

lemma suspend_services_frame:
  "suspend_services_for_dispute env s is = Inr t \<Longrightarrow> t = s\<lparr>services := services t\<rparr>"
proof (induction env s "is" rule: suspend_services_for_dispute.induct)
  case (2 env s i "is")
  show ?case
  proof (cases "get_service s i")
    case None
    with 2 show ?thesis by simp
  next
    case (Some v)
    show ?thesis
    proof (cases "suspend env s v")
      case (Inl e)
      with 2 Some show ?thesis by (cases e) auto
    next
      case (Inr x)
      then obtain c s1 where x: "x = (c, s1)" by (cases x)
      have f: "s1 = s\<lparr>services := services s1\<rparr>"
        using Inr x by (auto elim: suspendE simp: save_service_def)
      have t: "t = s1\<lparr>services := services t\<rparr>" using 2 Some Inr x by simp
      have "s1\<lparr>services := y\<rparr> = s\<lparr>services := y\<rparr>" for y by (subst f) simp
      then show ?thesis using t by simp
    qed
  qed
qed simp

lemma funding_ok_services: "funding_ok_but E (s\<lparr>services := x\<rparr>) = funding_ok_but E s"
proof -
  have "numbers_below (s\<lparr>services := x\<rparr>) = numbers_below s" by (rule numbers_below_cong) simp_all
  then show ?thesis
    by (simp add: funding_ok_but_def ledger_ok_def invoices_ok_def outbox_ok_def payments_ok_but_def allocated_cents_def)
qed

lemma handle_payment_disputed_ok:
  assumes ok: "funding_ok s" and h: "handle_payment_disputed env now s gateway ev = Inr t"
  shows "funding_ok t \<and> webhook_events t = webhook_events s"
proof -
  from h obtain s1 where r: "reverse_payment now s gateway (or_empty (ev_external_ref ev)) (ev_id ev) ''dispute'' = Inr s1"
    and t: "t = s1 \<or> (\<exists>is. suspend_services_for_dispute env s1 is = Inr t)"
    by (auto simp: handle_payment_disputed_def ebind_Inr_iff split: option.splits)
  note k = reverse_payment_ok [OF ok r]
  from t have f: "t = s1\<lparr>services := services t\<rparr>" by (auto dest: suspend_services_frame)
  have "funding_ok t" by (subst f) (simp add: funding_ok_services k)
  moreover have "webhook_events t = webhook_events s1" by (subst f) simp
  ultimately show ?thesis using k by (simp add: same_rest_def)
qed

lemma apply_event_ok:
  assumes "funding_ok s" "apply_event env now s gateway ev = Inr t"
  shows "funding_ok t \<and> webhook_events t = webhook_events s"
proof (cases "ev_action ev")
  case PAYMENT_COMPLETED
  with assms show ?thesis using payment_succeeded_ok by (fastforce simp: apply_event_def same_rest_def)
next
  case PAYMENT_FAILED
  with assms show ?thesis using payment_failed_ok by (fastforce simp: apply_event_def same_rest_def)
next
  case PAYMENT_REVERSED
  with assms show ?thesis using reverse_payment_ok by (fastforce simp: apply_event_def same_rest_def)
next
  case PAYMENT_DISPUTED
  with assms show ?thesis using handle_payment_disputed_ok by (simp add: apply_event_def)
qed (use assms in \<open>simp add: apply_event_def\<close>)

definition event_key :: "gateway_webhook_event \<Rightarrow> string \<times> string" where
  "event_key w = (we_gateway w, we_event_id w)"

definition events_ok :: "store \<Rightarrow> bool" where
  "events_ok s \<longleftrightarrow> distinct (map event_key (webhook_events s))"

lemma funding_ok_events: "funding_ok_but E (s\<lparr>webhook_events := x\<rparr>) = funding_ok_but E s"
proof -
  have "numbers_below (s\<lparr>webhook_events := x\<rparr>) = numbers_below s" by (rule numbers_below_cong) simp_all
  then show ?thesis
    by (simp add: funding_ok_but_def ledger_ok_def invoices_ok_def outbox_ok_def payments_ok_but_def allocated_cents_def)
qed

lemma recorded_single:
  assumes "events_ok s" "(gateway, i) \<in> event_key ` set (webhook_events s)"
  obtains w where "filter (\<lambda>w. we_gateway w = gateway \<and> we_event_id w = i) (webhook_events s) = [w]"
proof -
  from assms(2) obtain w where w: "w \<in> set (webhook_events s)" "event_key w = (gateway, i)" by auto
  have "unique_on (\<lambda>w. Some (event_key w)) (webhook_events s)" using assms(1) by (simp add: events_ok_def unique_on_def comp_def)
  from unique_on_filter_single [OF this w(1), of "(gateway, i)"] w(2)
  have "filter (\<lambda>w. we_gateway w = gateway \<and> we_event_id w = i) (webhook_events s) = [w]" by (simp add: event_key_def)
  then show thesis by (rule that)
qed

lemma processE:
  assumes ev: "events_ok s" and pr: "process env now s gateway ev = Inr (b, t)"
  obtains (known) "\<not> b" "t = s" "ev_id ev \<noteq> []"
  | (new) "b" "ev_id ev \<noteq> []" "(gateway, ev_id ev) \<notin> event_key ` set (webhook_events s)"
      "apply_event env now (s\<lparr>webhook_events := webhook_events s @
             [\<lparr>we_gateway = gateway, we_event_id = ev_id ev, we_event_type = ev_type ev\<rparr>]\<rparr>) gateway ev = Inr t"
proof (cases "(gateway, ev_id ev) \<in> event_key ` set (webhook_events s)")
  case True
  with ev obtain w where "filter (\<lambda>w. we_gateway w = gateway \<and> we_event_id w = ev_id ev) (webhook_events s) = [w]"
    by (rule recorded_single)
  with pr show thesis by (intro that(1)) (auto simp: process_def ebind_Inr_iff raise_if_Inr_iff)
next
  case False
  then have "filter (\<lambda>w. we_gateway w = gateway \<and> we_event_id w = ev_id ev) (webhook_events s) = []"
    by (auto simp: filter_empty_conv event_key_def)
  with pr False show thesis
    by (cases b) (auto simp: process_def ebind_Inr_iff raise_if_Inr_iff Let_def split: sum.splits if_splits intro: that)
qed

lemma process_ok:
  assumes ok: "funding_ok s" "events_ok s" and pr: "process env now s gateway ev = Inr (b, t)"
  shows "funding_ok t \<and> events_ok t \<and> (b \<longrightarrow> (gateway, ev_id ev) \<in> event_key ` set (webhook_events t))"
  using ok(2) pr
proof (cases rule: processE)
  case known
  with ok show ?thesis by simp
next
  case new
  note k = apply_event_ok [OF _ new(4)]
  from k ok new(3) show ?thesis by (auto simp: funding_ok_events events_ok_def event_key_def)
qed

section \<open>Properties\<close>

text \<open>
  C21: a gateway event is applied at most once: an event that was not applied leaves the state
  alone, and once an event has been applied, any later delivery with the same id from the same
  gateway, whatever it says, is reported as already processed and changes nothing.
\<close>

theorem webhook_applied_once:
  assumes "funding_ok s" "events_ok s" "process env now s gateway ev = Inr (b, t)"
    "ev_id ev' = ev_id ev" "ev_type ev' \<noteq> []"
  shows "(\<not> b \<longrightarrow> t = s) \<and> (b \<longrightarrow> process env' now' t gateway ev' = Inr (False, t))"
proof -
  note k = process_ok [OF assms(1-3)]
  have "t = s" if "\<not> b" using assms(2,3) that by (auto elim: processE)
  moreover have "process env' now' t gateway ev' = Inr (False, t)" if b: "b"
  proof -
    from k b assms(4) obtain w where "filter (\<lambda>w. we_gateway w = gateway \<and> we_event_id w = ev_id ev') (webhook_events t) = [w]"
      by (auto elim: recorded_single)
    moreover have "ev_id ev' \<noteq> []" using assms(2-4) by (auto elim: processE)
    ultimately show ?thesis using assms(5) by (simp add: process_def raise_if_def)
  qed
  ultimately show ?thesis by blast
qed

definition sample_event :: "string \<Rightarrow> GatewayWebhookAction \<Rightarrow> webhook_event" where
  "sample_event i act = \<lparr>ev_id = i, ev_type = ''t'', ev_action = act, ev_external_ref = Some ''pi_1'',
     ev_related_external_ref = None, ev_amount_cents = Some 400, ev_currency = Some ''usd'', ev_failure_code = None\<rparr>"

definition no_plugin :: lifecycle_env where
  "no_plugin = \<lparr>plugin_resolver = None, proxmox_plugin = (\<lambda>_. Inl ''down''), linked_server_plugin = (\<lambda>_. None)\<rparr>"

definition sample_webhook :: store where
  "sample_webhook = sample_topup\<lparr>payments := [(sample_payment 1 2 400 PENDING (Some ''pi_1''))\<lparr>pay_gateway := ''stripe''\<rparr>]\<rparr>"

lemma sample_webhook_ok: "funding_ok sample_webhook" "events_ok sample_webhook"
  by (simp_all add: funding_ok_but_def ledger_ok_def invoices_ok_def payments_ok_but_def outbox_ok_def sample_funding_def sample_topup_def
      sample_webhook_def events_ok_def sample_reseller_def sample_entry_def sample_invoice_def empty_store_def numbers_below_def FIRST_NUMBER_def
      chain_ok_def reversal_ok_def unique_on_def allocated_cents_def sample_payment_def)

theorem webhook_applied_once_witness:
  "\<exists>t. process no_plugin 5 sample_webhook ''stripe'' (sample_event ''evt_1'' PAYMENT_COMPLETED) = Inr (True, t) \<and> balance_of t 1 = 900 \<and>
     process no_plugin 9 t ''stripe'' (sample_event ''evt_1'' PAYMENT_REVERSED) = Inr (False, t)"
proof -
  let ?p = "process no_plugin 5 sample_webhook ''stripe'' (sample_event ''evt_1'' PAYMENT_COMPLETED)"
  have "(case ?p of Inl _ \<Rightarrow> None | Inr (b, t) \<Rightarrow> Some (b, balance_of t 1)) = Some (True, 900)" by code_simp
  then obtain t where p: "?p = Inr (True, t)" "balance_of t 1 = 900" by (auto split: sum.splits)
  from webhook_applied_once [OF sample_webhook_ok p(1), of "sample_event ''evt_1'' PAYMENT_REVERSED" no_plugin 9] p
  show ?thesis by (simp add: sample_event_def)
qed

text \<open>
  C22: no event can break the books: whatever a gateway sends, completed, failed, reversed or
  disputed, with any content and any plugin behaviour, if processing returns then every balance is
  still the sum of its ledger entries, no invoice has more succeeded payments than its total, every
  paid invoice is fully covered, and no event is recorded twice.
\<close>

theorem webhook_keeps_books:
  assumes "funding_ok s" "events_ok s" "process env now s gateway ev = Inr (b, t)"
  shows "funding_ok t \<and> events_ok t"
  using process_ok [OF assms] by blast

theorem webhook_keeps_books_witness:
  "\<exists>t. process no_plugin 5 sample_webhook ''stripe'' (sample_event ''evt_1'' PAYMENT_COMPLETED) = Inr (True, t) \<and>
     funding_ok t \<and> map inv_status (invoices t) = [OPEN, PAID]"
proof -
  let ?p = "process no_plugin 5 sample_webhook ''stripe'' (sample_event ''evt_1'' PAYMENT_COMPLETED)"
  have "(case ?p of Inl _ \<Rightarrow> None | Inr (b, t) \<Rightarrow> Some (b, map inv_status (invoices t))) = Some (True, [OPEN, PAID])" by code_simp
  then obtain t where p: "?p = Inr (True, t)" "map inv_status (invoices t) = [OPEN, PAID]" by (auto split: sum.splits)
  have "funding_ok t" using webhook_keeps_books [OF sample_webhook_ok p(1)] by blast
  with p show ?thesis by (intro exI [of _ t] conjI)
qed

text \<open>
  Refunds and disputes of invoices without a reseller are never applied: for such an invoice,
  unless it is a top-up, every reversal or dispute of a payment that is not yet refunded raises, so
  the payment is not marked refunded and no service is suspended.
\<close>

theorem retail_reversal_always_fails:
  assumes "ev_id ev \<noteq> []" "ev_type ev \<noteq> []" "(gateway, ev_id ev) \<notin> event_key ` set (webhook_events s)"
    "payment_for_update s gateway (or_empty (ev_external_ref ev)) None = Inr (Some p)" "pay_status p \<noteq> REFUNDED" "0 < pay_amount_cents p"
    "get_invoice s (pay_invoice_id p) = Some i" "inv_reseller_id i = None" "inv_purpose i \<noteq> CREDIT_TOPUP"
    "ev_action ev = PAYMENT_REVERSED \<or> ev_action ev = PAYMENT_DISPUTED"
  shows "process env now s gateway ev = Inl (ResellerNotFoundError None)"
proof -
  let ?s = "s\<lparr>webhook_events := webhook_events s @ [\<lparr>we_gateway = gateway, we_event_id = ev_id ev, we_event_type = ev_type ev\<rparr>]\<rparr>"
  have none: "filter (\<lambda>w. we_gateway w = gateway \<and> we_event_id w = ev_id ev) (webhook_events s) = []"
    using assms(3) by (auto simp: filter_empty_conv event_key_def)
  have fp: "first_payment ?s gateway refs = first_payment s gateway refs" for refs
    by (induction refs) simp_all
  have pu: "payment_for_update ?s gateway ref rel = payment_for_update s gateway ref rel" for ref rel
    unfolding payment_for_update_def fp ..
  have rp: "reverse_payment now ?s gateway (or_empty (ev_external_ref ev)) (ev_id ev) reason = Inl (ResellerNotFoundError None)" for reason
    using assms(5-9) unfolding reverse_payment_def pu assms(4)
    by (simp add: payment_invoice_def get_invoice_def
        reverse_in_ledger_def debit_def require_integer_cents_def lock_reseller_def)
  have "apply_event env now ?s gateway ev = Inl (ResellerNotFoundError None)"
    using assms(10) rp by (auto simp: apply_event_def handle_payment_disputed_def)
  then show ?thesis using assms(1,2) none by (simp add: process_def raise_if_def Let_def)
qed

theorem retail_reversal_always_fails_witness:
  "process no_plugin 5 (sample_webhook\<lparr>invoices := [(sample_invoice 2 100002 400)\<lparr>inv_reseller_id := None, inv_billing_account_id := Some 3\<rparr>]\<rparr>)
     ''stripe'' (sample_event ''evt_9'' PAYMENT_DISPUTED) = Inl (ResellerNotFoundError None)"
  by (rule retail_reversal_always_fails [where p = "(sample_payment 1 2 400 PENDING (Some ''pi_1''))\<lparr>pay_gateway := ''stripe''\<rparr>"
        and i = "(sample_invoice 2 100002 400)\<lparr>inv_reseller_id := None, inv_billing_account_id := Some 3\<rparr>"])
     (simp_all add: sample_event_def sample_webhook_def sample_topup_def sample_funding_def empty_store_def payment_for_update_def
        or_empty_def get_invoice_def sample_payment_def sample_invoice_def)


lemma get_payment_save:
  "get_payment (save_payment p s) n = (if n = pay_id p then map_option (\<lambda>_. p) (get_payment s n) else get_payment s n)"
  "get_payment (save_invoice i s) n = get_payment s n"
  by (simp_all add: get_payment_def save_payment_def save_invoice_def get_put_row)

lemma get_paymentD: "get_payment s n = Some p \<Longrightarrow> p \<in> set (payments s) \<and> pay_id p = n"
  by (auto simp: get_payment_def dest: get_row_SomeD)

lemma refund_creditE:
  assumes "refund_credit_payment now s p event_id reason admin = Inr (p', t)"
  obtains i e d m e' s1 m' where "get_invoice s (pay_invoice_id p) = Some i" "credit_debit_entry s p = Inr (Some e)"
    "reverse_entry s (inv_reseller_id i) (le_id e) (Some d) (Some event_id) m admin = Inr (e', s1)" "p' = refunded now p m'"
    "t = save_invoice (i\<lparr>inv_status := INV_FAILED, inv_paid_at := None\<rparr>) (save_payment p' s1)"
  using assms
  by (auto simp: refund_credit_payment_def ebind_Inr_iff payment_invoice_def Let_def split: option.splits)

lemma refund_credit_ok:
  assumes ok: "funding_ok s" and p: "get_payment s n = Some p" and r: "refund_credit_payment now s p event_id reason admin = Inr (p', t)"
  shows "funding_ok t \<and> get_payment t n = Some p' \<and> pay_status p' = REFUNDED"
proof -
  from r obtain i e d m e' s1 m' where i: "get_invoice s (pay_invoice_id p) = Some i" and en: "credit_debit_entry s p = Inr (Some e)"
    and rv: "reverse_entry s (inv_reseller_id i) (le_id e) (Some d) (Some event_id) m admin = Inr (e', s1)"
    and p': "p' = refunded now p m'" and t: "t = save_invoice (i\<lparr>inv_status := INV_FAILED, inv_paid_at := None\<rparr>) (save_payment p' s1)"
    by (rule refund_creditE)
  note k = ledger_exec_funding_ok [OF ok rv [unfolded reverse_exec]]
  have ps: "p \<in> set (payments s1)" "get_invoice s1 (pay_invoice_id p) = Some i" "get_payment s1 n = Some p" "pay_id p = n"
    using get_paymentD [OF p] i p k(2,3) by (simp_all add: get_invoice_def get_payment_def)
  have "funding_ok t" using refund_rows_ok [OF k(1) ps(1,2)] by (simp add: t p')
  moreover have "pay_id p' = n" "pay_status p' = REFUNDED" using ps(4) by (simp_all add: p' refunded_def)
  ultimately show ?thesis using ps(3) by (simp add: t get_payment_save)
qed

lemma refund_through_gatewayE:
  assumes "refund_through_gateway reg now s p event_id note_text admin = Inr (p', t)"
  obtains s1 m where "reverse_payment now s (lower (pay_gateway p)) (or_empty (pay_external_ref p)) event_id ''admin_refund'' = Inr s1"
    "t = save_payment p' s1" "pay_id p' = pay_id p" "pay_status p' = REFUNDED"
  using assms by (auto simp: refund_through_gateway_def record_admin_refund_def ebind_Inr_iff Let_def)

lemma reversed_payments:
  assumes "reverse_payment now s gateway ref event_id reason = Inr t"
  shows "\<exists>ps. list_all (\<lambda>p. pay_status p = REFUNDED) ps \<and> payments t = fold (put_row pay_id) ps (payments s)"
  using assms
proof (cases rule: reverse_paymentE)
  case none
  then show ?thesis by (intro exI [of _ "[]"]) simp
next
  case (some p i s1)
  have "payments s1 = payments s" using reverse_in_ledger_exec [OF some(4)]
  proof
    assume "\<exists>x e. ledger_exec s x = Inr (e, s1)"
    then obtain x e where "ledger_exec s x = Inr (e, s1)" by blast
    then show ?thesis by (subst ledger_exec_frame) simp_all
  qed simp
  then show ?thesis using some(5)
    by (intro exI [of _ "[refunded now p (dict_set (dict_set (pay_metadata p) ''reversal_type'' (JStr reason)) ''gateway_event_id'' (JStr event_id))]"])
       (simp add: refunded_def save_payment_def save_invoice_def)
qed

text \<open>A refund writes rows of refunded payments only, the last one that of the payment.\<close>

lemma refundE:
  assumes r: "refund reg now uuid s n reason admin = Inr (p', t)"
  obtains p ps where "get_payment s n = Some p" "pay_status p \<noteq> REFUNDED" "pay_id p' = n" "pay_status p' = REFUNDED"
    "list_all (\<lambda>p. pay_status p = REFUNDED) ps" "payments t = put_row pay_id p' (fold (put_row pay_id) ps (payments s))"
proof -
  from r obtain p where p: "get_payment s n = Some p" "pay_status p \<noteq> REFUNDED"
    by (auto simp: refund_def refundability_def Let_def split: option.splits if_splits)
  have id: "pay_id p = n" using p(1) get_paymentD by blast
  from r p(1) consider event_id note_text where "refund_credit_payment now s p event_id note_text admin = Inr (p', t)"
    | event_id note_text where "refund_through_gateway reg now s p event_id note_text admin = Inr (p', t)"
    by (auto simp: refund_def Let_def split: prod.splits if_splits)
  then show thesis
  proof cases
    case (1 event_id note_text)
    from 1 show thesis
    proof (rule refund_creditE)
      fix i e d m e' s1 m'
      assume rv: "reverse_entry s (inv_reseller_id i) (le_id e) (Some d) (Some event_id) m admin = Inr (e', s1)"
        and p': "p' = refunded now p m'" and t: "t = save_invoice (i\<lparr>inv_status := INV_FAILED, inv_paid_at := None\<rparr>) (save_payment p' s1)"
      have "payments s1 = payments s" by (subst ledger_exec_frame [OF rv [unfolded reverse_exec]]) simp
      then show thesis using id p by (intro that [of p "[]"]) (simp_all add: t p' refunded_def save_invoice_def save_payment_def)
    qed
  next
    case (2 event_id note_text)
    then obtain s1 where s1: "reverse_payment now s (lower (pay_gateway p)) (or_empty (pay_external_ref p)) event_id ''admin_refund'' = Inr s1"
      and t: "t = save_payment p' s1" and q: "pay_id p' = pay_id p" "pay_status p' = REFUNDED" by (rule refund_through_gatewayE)
    from reversed_payments [OF s1] obtain ps where "list_all (\<lambda>p. pay_status p = REFUNDED) ps" "payments s1 = fold (put_row pay_id) ps (payments s)" by blast
    then show thesis using id p q by (intro that [of p ps]) (simp_all add: t save_payment_def)
  qed
qed

definition refunded_in :: "int \<Rightarrow> payment list \<Rightarrow> bool" where
  "refunded_in n ps \<longleftrightarrow> (\<exists>p. get_row pay_id n ps = Some p \<and> pay_status p = REFUNDED)"

lemma refunded_in_put: "pay_status q = REFUNDED \<Longrightarrow> refunded_in n ps \<Longrightarrow> refunded_in n (put_row pay_id q ps)"
  by (auto simp: refunded_in_def get_put_row)

lemma refunded_in_fold: "list_all (\<lambda>q. pay_status q = REFUNDED) qs \<Longrightarrow> refunded_in n ps \<Longrightarrow> refunded_in n (fold (put_row pay_id) qs ps)"
  by (induction qs arbitrary: ps) (simp_all add: refunded_in_put)

lemma get_row_fold: "get_row pay_id n (fold (put_row pay_id) qs ps) = None \<longleftrightarrow> get_row pay_id n ps = None"
  by (induction qs arbitrary: ps) (simp_all add: get_put_row)

lemma refund_status:
  assumes "refund reg now uuid s n reason admin = Inr (p', t)"
  shows "get_payment t n = Some p' \<and> pay_status p' = REFUNDED"
  using assms
proof (rule refundE)
  fix p ps assume "get_payment s n = Some p" "pay_id p' = n" "pay_status p' = REFUNDED" "payments t = put_row pay_id p' (fold (put_row pay_id) ps (payments s))"
  then show ?thesis using get_row_fold [of n ps "payments s"] by (auto simp: get_payment_def get_put_row)
qed

text \<open>Administrative refunds of any payments, accepted or refused; a refused one is rolled back.\<close>

inductive refund_step :: "store \<Rightarrow> registry \<times> instant \<times> string \<times> int \<times> string option \<times> int option \<Rightarrow> store \<Rightarrow> bool" where
  accepted: "refund reg now uuid s n reason admin = Inr (p, t) \<Longrightarrow> refund_step s (reg, now, uuid, n, reason, admin) t"
| refused: "refund reg now uuid s n reason admin = Inl e \<Longrightarrow> refund_step s (reg, now, uuid, n, reason, admin) s"

inductive_cases refund_stepE: "refund_step s x t"

interpretation refunds: transition_system "\<lambda>s. refunded_in n (payments s)" refund_step "\<lambda>s. refunded_in n (payments s)" for n
proof
  fix s x t assume r: "refunded_in n (payments s)" and st: "refund_step s x t"
  from st show "refunded_in n (payments t)"
  proof (rule refund_stepE)
    fix reg now uuid m reason admin p assume "refund reg now uuid s m reason admin = Inr (p, t)"
    then show ?thesis by (rule refundE) (simp add: r refunded_in_put refunded_in_fold)
  qed (use r in simp)
qed

text \<open>
  C23: administrators refund a payment at most once: whichever way a refund went, through the wallet or
  through a gateway, once it has returned, and after any further refunds of any payments, every refund of that payment is refused as
  already refunded, before any gateway is asked.
\<close>

theorem refunded_at_most_once:
  assumes "refund reg now uuid s n reason admin = Inr (p, t)" "runs refund_step t xs u"
  shows "refund reg' now' uuid' u n reason' admin' = Inl (PaymentRefundError ''Payment is already refunded'' ''not_refundable'')"
proof -
  have "refunded_in n (payments t)" using refund_status [OF assms(1)] by (simp add: refunded_in_def get_payment_def)
  from refunds.runs_inv [OF assms(2) this] show ?thesis by (auto simp: refund_def refundability_def or_empty_def refunded_in_def get_payment_def)
qed

definition sample_credit_paid :: store where
  "sample_credit_paid = (case fund_invoice (\<lambda>_. None) 7 (sample_funding\<lparr>invoices := [sample_invoice 1 100001 300]\<rparr>) 1 1 None of
     Inr (_, t) \<Rightarrow> t | Inl _ \<Rightarrow> empty_store)"

theorem refunded_at_most_once_witness:
  "\<exists>p t. refund (\<lambda>_. None) 8 ''ab'' sample_credit_paid 1 None (Some 9) = Inr (p, t) \<and> balance_of t 1 = 500 \<and>
     refund (\<lambda>_. None) 9 ''cd'' t 1 None None = Inl (PaymentRefundError ''Payment is already refunded'' ''not_refundable'')"
proof -
  let ?r = "refund (\<lambda>_. None) 8 ''ab'' sample_credit_paid 1 None (Some 9)"
  have "(case ?r of Inl _ \<Rightarrow> None | Inr (p, t) \<Rightarrow> Some (balance_of t 1)) = Some 500" by code_simp
  then obtain p t where r: "?r = Inr (p, t)" "balance_of t 1 = 500" by (auto split: sum.splits)
  from refunded_at_most_once [OF r(1) runs_Nil] r show ?thesis by blast
qed

text \<open>
  A completion event undoes a refund. When a gateway reports, under a new event id, the completion of a payment that has been refunded, and the event
  is applied, the payment counts as succeeded again and an administrator can refund it once more.
\<close>

theorem completion_revives_refund:
  assumes "events_ok s" "process env now s gateway ev = Inr (True, t)" "ev_action ev = PAYMENT_COMPLETED"
    "payment_for_update s gateway (or_empty (ev_external_ref ev)) (ev_related_external_ref ev) = Inr (Some p)" "distinct (map pay_id (payments s))"
    "pay_status p = REFUNDED" "lower gateway \<in> {''stripe'', ''paypal''}" "strip (or_empty (ev_external_ref ev)) \<noteq> []"
  shows "\<exists>q. get_payment t (pay_id p) = Some q \<and> pay_status q = SUCCEEDED \<and> refundability q = (True, None)"
  using assms(1,2)
proof (cases rule: processE)
  case known
  then show ?thesis by simp
next
  case new
  let ?s = "s\<lparr>webhook_events := webhook_events s @ [\<lparr>we_gateway = gateway, we_event_id = ev_id ev, we_event_type = ev_type ev\<rparr>]\<rparr>"
  let ?p = "p\<lparr>pay_external_ref := ev_external_ref ev\<rparr>"
  have mem: "p \<in> set (payments s)" "pay_gateway p = gateway" using payment_for_update_Some [OF assms(4)] by simp_all
  have same: "payment_for_update ?s gateway ref rel = payment_for_update s gateway ref rel" for ref rel
  proof -
    have "first_payment ?s gateway refs = first_payment s gateway refs" for refs by (induction refs) simp_all
    then show ?thesis by (simp add: payment_for_update_def)
  qed
  obtain i where fin: "finalize_success now ?s ?p = Inr (i, t)"
    using new(4) assms(3,4) same by (auto simp: apply_event_def payment_succeeded_def Let_def ebind_Inr_iff raise_if_Inr_iff)
  have "get_payment t (pay_id p) = Some (finalized now ?p)"
  proof -
    have "get_row pay_id (pay_id p) (payments s) = Some p" using get_row_Some_iff [OF assms(5)] mem(1) by blast
    moreover have "payments t = put_row pay_id (finalized now ?p) (payments s)" using finalize_success_payments [OF fin] by simp
    ultimately show ?thesis by (simp add: get_payment_def get_put_row finalized_def)
  qed
  then show ?thesis using assms(7,8) mem(2) by (auto simp: finalized_def refundability_def Let_def)
qed

definition sample_card_paid :: store where
  "sample_card_paid = sample_funding\<lparr>payments := [(sample_payment 1 1 700 PENDING (Some ''pi_1''))\<lparr>pay_gateway := ''stripe''\<rparr>]\<rparr>"

definition completed_again :: "string \<Rightarrow> webhook_event" where
  "completed_again i = (sample_event i PAYMENT_COMPLETED)\<lparr>ev_amount_cents := Some 700\<rparr>"

definition after_refund :: store where
  "after_refund = (case process no_plugin 5 sample_card_paid ''stripe'' (completed_again ''evt_1'') of
     Inr (_, t) \<Rightarrow> (case refund (sample_registry GW_SUCCEEDED) 6 ''a'' t 1 None None of Inr (_, u) \<Rightarrow> u | _ \<Rightarrow> t) | _ \<Rightarrow> sample_card_paid)"

theorem completion_revives_refund_witness:
  "\<exists>t q p u. process no_plugin 7 after_refund ''stripe'' (completed_again ''evt_2'') = Inr (True, t) \<and> get_payment t 1 = Some q \<and> refundability q = (True, None) \<and>
     refund (sample_registry GW_SUCCEEDED) 8 ''b'' t 1 None None = Inr (p, u) \<and> balance_of sample_card_paid 1 = 500 \<and> balance_of after_refund 1 = - 200 \<and> balance_of u 1 = - 900"
proof -
  let ?e = "completed_again ''evt_2''" and ?reg = "sample_registry GW_SUCCEEDED"
  let ?r = "process no_plugin 7 after_refund ''stripe'' ?e"
  have "(case ?r of Inl _ \<Rightarrow> None | Inr (b, t) \<Rightarrow> Some (b, case refund ?reg 8 ''b'' t 1 None None of Inl _ \<Rightarrow> None | Inr (p, u) \<Rightarrow> Some (balance_of u 1))) =
    Some (True, Some (- 900))" by code_simp
  then obtain t p u where r: "?r = Inr (True, t)" "refund ?reg 8 ''b'' t 1 None None = Inr (p, u)" "balance_of u 1 = - 900" by (auto split: sum.splits)
  let ?p = "the (get_payment after_refund 1)"
  have s: "map pay_id (payments after_refund) = [1]" "map event_key (webhook_events after_refund) = [(''stripe'', ''evt_1'')]" "pay_status ?p = REFUNDED" "pay_id ?p = 1"
    "payment_for_update after_refund ''stripe'' (or_empty (ev_external_ref ?e)) (ev_related_external_ref ?e) = Inr (Some ?p)" by code_simp+
  have e: "ev_action ?e = PAYMENT_COMPLETED" "strip (or_empty (ev_external_ref ?e)) \<noteq> []" "lower ''stripe'' \<in> {''stripe'', ''paypal''}" by code_simp+
  have "events_ok after_refund" "distinct (map pay_id (payments after_refund))" using s(1,2) by (simp_all add: events_ok_def)
  from completion_revives_refund [OF this(1) r(1) e(1) s(5) this(2) s(3) e(3,2)] obtain q where "get_payment t 1 = Some q" "refundability q = (True, None)"
    unfolding s(4) by blast
  moreover have "balance_of sample_card_paid 1 = 500" "balance_of after_refund 1 = - 200" by code_simp+
  ultimately show ?thesis using r by (intro exI conjI)
qed

lemma reverse_entry_balance:
  assumes ok: "ledger_ok s" and rv: "reverse_entry s (Some j) n d (Some k) m u = Inr (e, t)"
    and key: "\<forall>x \<in> set (ledger s). le_idempotency_key x \<noteq> Some k" and orig: "orig \<in> set (ledger s)" "le_id orig = n"
  shows "balance_of t j = balance_of s j - le_amount_cents orig"
  using rv
proof (cases rule: reverse_entryE)
  case again
  with key show ?thesis by auto
next
  case (fresh j' r y c)
  have y: "y = orig" using fresh(3,4) orig by (intro ledger_ids_inj [OF ok]) auto
  from fresh(10) show ?thesis
  proof (cases rule: append_lockedE)
    case replay
    with key fresh(8) show ?thesis by (auto simp: replayed_def)
  next
    case new
    then show ?thesis using fresh(1,2) get_resellerD [OF fresh(2)] y
      by (simp add: balance_of_def get_reseller_def get_put_row)
  qed
qed

text \<open>
  Refunding a wallet payment gives back exactly what was taken: with the debit entry of the
  payment on the ledger and a new event id, the balance rises by the amount of the payment, the
  invoice loses exactly that much cover and is marked failed, and the books stay in order.
\<close>

theorem credit_refund_is_exact:
  assumes ok: "funding_ok s" and p: "get_payment s n = Some p" "lower (pay_gateway p) = ''credit''" "pay_status p = SUCCEEDED"
    and i: "get_invoice s (pay_invoice_id p) = Some i" "inv_reseller_id i = Some rid"
    and e: "credit_debit_entry s p = Inr (Some e)" "e \<in> set (ledger s)" "le_amount_cents e = - pay_amount_cents p"
    and key: "\<forall>x \<in> set (ledger s). le_idempotency_key x \<noteq> Some (''admin-refund:'' @ show_int n @ '':'' @ uuid)"
    and r: "refund reg now uuid s n reason admin = Inr (p', t)"
  shows "balance_of t rid = balance_of s rid + pay_amount_cents p \<and>
    allocated_cents t (inv_id i) = allocated_cents s (inv_id i) - pay_amount_cents p \<and>
    get_invoice t (inv_id i) = Some (i\<lparr>inv_status := INV_FAILED, inv_paid_at := None\<rparr>) \<and> funding_ok t"
proof -
  have id: "pay_id p = n" "p \<in> set (payments s)" "inv_id i = pay_invoice_id p" using get_paymentD [OF p(1)] get_invoiceD [OF i(1)] by auto
  obtain note_text where rc: "refund_credit_payment now s p (''admin-refund:'' @ show_int n @ '':'' @ uuid) note_text admin = Inr (p', t)"
    using r p id by (auto simp: refund_def refundability_def Let_def split: if_splits)
  from rc obtain i' e' d m x s1 m' where ie: "get_invoice s (pay_invoice_id p) = Some i'" "credit_debit_entry s p = Inr (Some e')"
    and rv: "reverse_entry s (inv_reseller_id i') (le_id e') (Some d) (Some (''admin-refund:'' @ show_int n @ '':'' @ uuid)) m admin = Inr (x, s1)"
    and p': "p' = refunded now p m'" and t: "t = save_invoice (i'\<lparr>inv_status := INV_FAILED, inv_paid_at := None\<rparr>) (save_payment p' s1)"
    by (rule refund_creditE)
  have same: "i' = i" "e' = e" using ie i(1) e(1) by auto
  note rv = rv [unfolded same i(2)]
  have b: "balance_of s1 rid = balance_of s rid + pay_amount_cents p"
    using reverse_entry_balance [OF funding_okD(4) [OF ok] rv key e(2) refl] e(3) by simp
  note k = ledger_exec_funding_ok [OF ok rv [unfolded reverse_exec]]
  have al: "allocated_cents (save_payment p' s1) (inv_id i) = allocated_cents s1 (inv_id i) +
      (if pay_invoice_id p = inv_id i then (if pay_status p' = SUCCEEDED then pay_amount_cents p else 0) -
       (if pay_status p = SUCCEEDED then pay_amount_cents p else 0) else 0)"
    using funding_okD(1) [OF k(1)] id(2) k(3) by (intro allocated_save) (auto simp: p' refunded_def)
  have at: "allocated_cents t (inv_id i) = allocated_cents s (inv_id i) - pay_amount_cents p"
    using al p(3) id(3) allocated_cents_cong [OF k(3)] allocated_cents_cong [of t "save_payment p' s1"]
    by (simp add: t p' refunded_def)
  have "get_invoice s1 (inv_id i) = Some i" using i(1) id(3) k(2) by (simp add: get_invoice_def)
  then have gi: "get_invoice t (inv_id i) = Some (i\<lparr>inv_status := INV_FAILED, inv_paid_at := None\<rparr>)"
    by (simp add: t same get_invoice_def save_invoice_def save_payment_def get_put_row)
  have "balance_of t rid = balance_of s1 rid" by (simp add: t balance_of_def get_reseller_def save_invoice_def save_payment_def)
  with b at gi refund_credit_ok [OF ok p(1) rc] show ?thesis by simp
qed

lemma sample_credit_paid_ok: "funding_ok sample_credit_paid"
proof -
  let ?s = "sample_funding\<lparr>invoices := [sample_invoice 1 100001 300]\<rparr>"
  have ok: "funding_ok ?s"
    by (simp add: funding_ok_but_def ledger_ok_def invoices_ok_def payments_ok_but_def outbox_ok_def sample_funding_def
        sample_reseller_def sample_entry_def sample_invoice_def empty_store_def numbers_below_def FIRST_NUMBER_def
        chain_ok_def reversal_ok_def unique_on_def allocated_cents_def)
  have "\<not> isl (fund_invoice (\<lambda>_. None) 7 ?s 1 1 None)" by code_simp
  then obtain res t where f: "fund_invoice (\<lambda>_. None) 7 ?s 1 1 None = Inr (res, t)"
    by (cases "fund_invoice (\<lambda>_. None) 7 ?s 1 1 None") auto
  from ok f have "funding_ok t" by (rule fund_invoice_post) (simp add: funding_post_def)
  with f show ?thesis by (simp add: sample_credit_paid_def)
qed

theorem credit_refund_is_exact_witness:
  "\<exists>p' t. refund (\<lambda>_. None) 8 ''ab'' sample_credit_paid 1 None None = Inr (p', t) \<and> balance_of sample_credit_paid 1 = 200 \<and>
     balance_of t 1 = 500 \<and> funding_ok t"
proof -
  let ?s = "sample_credit_paid"
  have "(case get_payment ?s 1 of None \<Rightarrow> None | Some p \<Rightarrow>
      (case (get_invoice ?s (pay_invoice_id p), credit_debit_entry ?s p) of
         (Some i, Inr (Some e)) \<Rightarrow> Some (lower (pay_gateway p) = ''credit'' \<and> pay_status p = SUCCEEDED \<and> inv_reseller_id i = Some 1 \<and>
           pay_amount_cents p = 300 \<and> le_amount_cents e = - 300, List.member (map le_id (ledger ?s)) (le_id e), le_id e)
       | _ \<Rightarrow> None)) = Some (True, True, 2)" by code_simp
  then obtain p i e where rows: "get_payment ?s 1 = Some p" "lower (pay_gateway p) = ''credit''" "pay_status p = SUCCEEDED"
    "get_invoice ?s (pay_invoice_id p) = Some i" "inv_reseller_id i = Some 1" "credit_debit_entry ?s p = Inr (Some e)"
    and am: "pay_amount_cents p = 300" "le_amount_cents e = - 300" and le: "le_id e = 2"
    by (auto split: option.splits sum.splits)
  have "e \<in> set (ledger ?s)" using rows(6)
    by (auto simp: credit_debit_entry_def get_entry_def scalar_iffs filter_eq_Cons_iff dest: get_row_SomeD split: option.splits json.splits)
  moreover have "\<forall>x \<in> set (map le_idempotency_key (ledger ?s)). x \<noteq> Some (''admin-refund:'' @ show_int 1 @ '':'' @ ''ab'')" by code_simp
  moreover have "(case refund (\<lambda>_. None) 8 ''ab'' ?s 1 None None of Inl _ \<Rightarrow> None | Inr (p, t) \<Rightarrow> Some ()) = Some ()" by code_simp
  then obtain p' t where r: "refund (\<lambda>_. None) 8 ''ab'' ?s 1 None None = Inr (p', t)" by (auto split: sum.splits)
  ultimately have "balance_of t 1 = balance_of ?s 1 + 300 \<and> funding_ok t"
    using credit_refund_is_exact [OF sample_credit_paid_ok rows _ _ _ r] am by simp
  moreover have "balance_of ?s 1 = 200" by code_simp
  ultimately show ?thesis using r by auto
qed


text \<open>
  A completion event confirms its payment whatever the payment's status was: when such an event
  is applied, the payment it names is stored as succeeded. This includes a payment that had been
  refunded: a late completion marks it succeeded again and its invoice paid, although the ledger
  entry it once paid for stays reversed.
\<close>

theorem completion_confirms_any_status:
  assumes "events_ok s" "process env now s gateway ev = Inr (True, t)" "ev_action ev = PAYMENT_COMPLETED"
    "payment_for_update s gateway (or_empty (ev_external_ref ev)) (ev_related_external_ref ev) = Inr (Some p)"
  shows "\<exists>q \<in> set (payments t). pay_id q = pay_id p \<and> pay_status q = SUCCEEDED"
proof -
  let ?s = "s\<lparr>webhook_events := webhook_events s @ [\<lparr>we_gateway = gateway, we_event_id = ev_id ev, we_event_type = ev_type ev\<rparr>]\<rparr>"
  have fp: "first_payment ?s gateway refs = first_payment s gateway refs" for refs by (induction refs) simp_all
  have found: "payment_for_update ?s gateway (or_empty (ev_external_ref ev)) (ev_related_external_ref ev) = Inr (Some p)"
    using assms(4) unfolding payment_for_update_def fp .
  from assms(1,2) have "payment_succeeded now ?s gateway ev = Inr t"
    by (rule processE) (simp_all add: apply_event_def assms(3))
  then obtain i where "finalize_success now ?s (p\<lparr>pay_external_ref := ev_external_ref ev\<rparr>) = Inr (i, t)"
    using found by (auto simp: payment_succeeded_def Let_def ebind_Inr_iff raise_if_Inr_iff)
  then have "payments t = put_row pay_id (finalized now (p\<lparr>pay_external_ref := ev_external_ref ev\<rparr>)) (payments s)"
    by (simp add: finalize_success_payments)
  moreover have "p \<in> set (payments s)" using payment_for_update_Some [OF assms(4)] by simp
  ultimately show ?thesis
    by (intro bexI [of _ "finalized now (p\<lparr>pay_external_ref := ev_external_ref ev\<rparr>)"]) (auto simp: finalized_def put_row_def image_iff)
qed

definition deliver_all :: "store \<Rightarrow> webhook_event list \<Rightarrow> store" where
  "deliver_all = foldl (\<lambda>s ev. case process no_plugin 5 s ''stripe'' ev of Inr (_, t) \<Rightarrow> t | Inl _ \<Rightarrow> s)"

definition sample_refunded :: store where
  "sample_refunded = deliver_all sample_webhook [sample_event ''evt_1'' PAYMENT_COMPLETED, sample_event ''evt_2'' PAYMENT_REVERSED]"

theorem completion_confirms_any_status_witness:
  "map pay_status (payments sample_refunded) = [REFUNDED] \<and> balance_of sample_refunded 1 = 500 \<and>
   (\<exists>t. process no_plugin 6 sample_refunded ''stripe'' (sample_event ''evt_3'' PAYMENT_COMPLETED) = Inr (True, t) \<and>
     (\<exists>q. q \<in> set (payments t) \<and> pay_status q = SUCCEEDED) \<and> balance_of t 1 = 500 \<and> map inv_status (invoices t) = [OPEN, PAID])"
proof -
  let ?ev = "sample_event ''evt_3'' PAYMENT_COMPLETED"
  have r: "map pay_status (payments sample_refunded) = [REFUNDED] \<and> balance_of sample_refunded 1 = 500" by code_simp
  have ev: "events_ok sample_refunded" unfolding events_ok_def by code_simp
  have "(case process no_plugin 6 sample_refunded ''stripe'' ?ev of Inl _ \<Rightarrow> None
      | Inr (b, t) \<Rightarrow> Some (b, balance_of t 1, map inv_status (invoices t))) = Some (True, 500, [OPEN, PAID])" by code_simp
  then obtain t where p: "process no_plugin 6 sample_refunded ''stripe'' ?ev = Inr (True, t)" and b: "balance_of t 1 = 500"
    and st: "map inv_status (invoices t) = [OPEN, PAID]"
    by (auto split: sum.splits)
  have "(case payment_for_update sample_refunded ''stripe'' (or_empty (ev_external_ref ?ev)) (ev_related_external_ref ?ev) of
      Inr (Some p) \<Rightarrow> True | _ \<Rightarrow> False)" by code_simp
  then obtain q where "payment_for_update sample_refunded ''stripe'' (or_empty (ev_external_ref ?ev)) (ev_related_external_ref ?ev) = Inr (Some q)"
    by (auto split: sum.splits option.splits)
  then have "\<exists>q \<in> set (payments t). pay_status q = SUCCEEDED"
    using completion_confirms_any_status [OF ev p] by (auto simp: sample_event_def)
  then have "\<exists>q. q \<in> set (payments t) \<and> pay_status q = SUCCEEDED" by blast
  with r p b st show ?thesis by (intro conjI exI [of _ t]) simp_all
qed

end
