(* ===== verification/Recurring.thy ===== *)
theory Recurring
  imports Saved_Methods Webhooks "HOL-Library.Option_ord" "HOL-Library.Product_Lexorder"
begin

text \<open>
  Recurring billing, \<open>app/services/recurring_billing_service.py\<close>, and one iteration of its worker,
  \<open>app/workers/recurring_billing.py\<close>: the worker lease, the cycle of each due service billing, the
  payment attempt, the schedule of retries and the grace period, suspension for nonpayment, and
  recovery when an invoice is paid.

  An operation works on the open transaction; \<open>db.commit()\<close> makes its store the committed one. A
  step that raises returns the exception with the store as last committed, which is what the
  session's rollback leaves. Rows with a null sort key come first, as MySQL and SQLite order them.
\<close>

section \<open>Configuration and parameters\<close>

record recurring_config =
  rb_lease_seconds :: int
  rb_batch_size :: nat
  retry_day_offsets :: "int list"
  grace_days :: int

text \<open>The checks of the settings that concern recurring billing.\<close>

definition valid_recurring_config :: "recurring_config \<Rightarrow> bool" where
  "valid_recurring_config cfg \<longleftrightarrow>
     retry_day_offsets cfg \<noteq> [] \<and> list_all (\<lambda>d. 0 < d) (retry_day_offsets cfg) \<and>
     remdups (sort (retry_day_offsets cfg)) = retry_day_offsets cfg \<and>
     last (retry_day_offsets cfg) \<le> grace_days cfg \<and>
     0 < rb_lease_seconds cfg \<and> 0 < rb_batch_size cfg \<and> rb_batch_size cfg \<le> 1000"

text \<open>
  What the service calls outside the billing tables: the payment gateways, the power plugins, the
  database dialect, the text of a timestamp (whether it carries an offset depends on the driver),
  and the time at which the invoice of a cycle is funded.
\<close>

record recurring_env =
  rb_gateways :: registry
  rb_lifecycle :: lifecycle_env
  rb_dialect :: dialect
  isoformat :: "instant \<Rightarrow> string"
  fund_time :: "int \<Rightarrow> instant"

type_synonym 'a tx = "(exn \<times> store) + 'a"

text \<open>A step that starts from the committed store \<open>s\<close>.\<close>

definition since_commit :: "store \<Rightarrow> 'a res \<Rightarrow> 'a tx" where
  "since_commit s m = (case m of Inl e \<Rightarrow> Inl (e, s) | Inr x \<Rightarrow> Inr x)"

definition overdue_states :: "BillingCycleState list" where
  "overdue_states = [PAST_DUE, GRACE, CYCLE_PENDING_ACTION, SUSPENDED]"

definition terminal_states :: "BillingCycleState list" where
  "terminal_states = [CYCLE_PAID, CANCELLED, MANUAL_REVIEW]"

section \<open>The worker lease\<close>

definition lease_available :: "recurring_billing_lease \<Rightarrow> string \<Rightarrow> instant \<Rightarrow> bool" where
  "lease_available l owner now \<longleftrightarrow>
     lease_owner l = None \<or> (case lease_expires_at l of None \<Rightarrow> True | Some t \<Rightarrow> t \<le> now) \<or> lease_owner l = Some owner"

text \<open>The row of the lease is created on first use; the update counts the rows it changed.\<close>

definition acquire_lease :: "recurring_config \<Rightarrow> store \<Rightarrow> string \<Rightarrow> instant \<Rightarrow> bool \<times> store" where
  "acquire_lease cfg s owner now =
     (let l = (case lease s of None \<Rightarrow> \<lparr>lease_owner = None, lease_expires_at = None\<rparr> | Some l \<Rightarrow> l) in
      if lease_available l owner now
      then (True, s\<lparr>lease := Some (l\<lparr>lease_owner := Some owner,
             lease_expires_at := Some (now + seconds (rb_lease_seconds cfg))\<rparr>)\<rparr>)
      else (False, s\<lparr>lease := Some l\<rparr>))"

definition release_lease :: "store \<Rightarrow> string \<Rightarrow> store" where
  "release_lease s owner =
     (case lease s of
        None \<Rightarrow> s
      | Some l \<Rightarrow> if lease_owner l = Some owner
                  then s\<lparr>lease := Some (l\<lparr>lease_owner := None, lease_expires_at := None\<rparr>)\<rparr> else s)"

section \<open>Reading rows\<close>

definition billing_reseller :: "store \<Rightarrow> service_billing \<Rightarrow> reseller option" where
  "billing_reseller s b = (case sb_reseller_id b of None \<Rightarrow> None | Some i \<Rightarrow> get_reseller s i)"

definition cycle_invoice :: "store \<Rightarrow> billing_cycle \<Rightarrow> invoice option" where
  "cycle_invoice s c = (case bc_invoice_id c of None \<Rightarrow> None | Some i \<Rightarrow> get_invoice s i)"

text \<open>An attribute of a missing related object.\<close>

definition the_or_raise :: "string \<Rightarrow> 'a option \<Rightarrow> 'a res" where
  "the_or_raise attr r = (case r of None \<Rightarrow> Inl (AttributeError attr) | Some x \<Rightarrow> Inr x)"

text \<open>Refreshing an expired row after a commit.\<close>

definition reload :: "'a option \<Rightarrow> 'a res" where
  "reload r = (case r of None \<Rightarrow> Inl ObjectDeletedError | Some x \<Rightarrow> Inr x)"

text \<open>\<open>x or y\<close> on a nullable number.\<close>

definition int_or :: "int option \<Rightarrow> int \<Rightarrow> int" where
  "int_or x y = (case x of None \<Rightarrow> y | Some n \<Rightarrow> if n = 0 then y else n)"

definition notification_data :: "recurring_env \<Rightarrow> store \<Rightarrow> service_billing \<Rightarrow> billing_cycle \<Rightarrow> dict" where
  "notification_data env s b c =
     [(''invoice_id'', json_option_int (bc_invoice_id c)),
      (''invoice_number'', json_option_int (map_option inv_number (cycle_invoice s c))),
      (''service_id'', JInt (sb_service_id b)),
      (''service_name'', JStr (case get_service s (sb_service_id b) of None \<Rightarrow> [] | Some v \<Rightarrow> svc_name v)),
      (''amount_cents'', JInt (bc_amount_cents c)),
      (''currency'', JStr (bc_currency c)),
      (''grace_until'', json_option_str (map_option (isoformat env) (bc_grace_until c)))]"

definition cycle_key :: "billing_cycle \<Rightarrow> string \<Rightarrow> string" where
  "cycle_key c suffix = ''billing-cycle:'' @ show_int (bc_id c) @ '':'' @ suffix"

section \<open>Failures, holds and notifications\<close>

definition hold_for_nonpayment :: "instant \<Rightarrow> reseller \<Rightarrow> reseller" where
  "hold_for_nonpayment now r =
     r\<lparr>billing_hold_at := (if billing_hold r then billing_hold_at r else Some now),
       billing_hold := True, billing_hold_reason := Some ''nonpayment'', billing_hold_cleared_at := None\<rparr>"

definition apply_hold :: "instant \<Rightarrow> reseller \<Rightarrow> reseller" where
  "apply_hold now r = (if nonpayment_policy r \<noteq> BLOCK_NEW then r else hold_for_nonpayment now r)"

definition set_nonpayment_hold :: "instant \<Rightarrow> reseller \<Rightarrow> reseller" where
  "set_nonpayment_hold now r = hold_for_nonpayment now r"

definition safe_char :: "char \<Rightarrow> bool" where
  "safe_char ch \<longleftrightarrow> is_alpha_char ch \<or> (48 \<le> (of_char ch :: nat) \<and> (of_char ch :: nat) \<le> 57) \<or>
     ch \<in> {CHR ''_'', CHR ''.'', CHR ''-''}"

text \<open>\<open>_SAFE_CODE_RE.sub("_", code)\<close>: each run of other characters becomes one underscore.\<close>

fun replace_unsafe :: "bool \<Rightarrow> string \<Rightarrow> string" where
  "replace_unsafe in_run [] = []"
| "replace_unsafe in_run (ch # cs) =
     (if safe_char ch then ch # replace_unsafe False cs
      else if in_run then replace_unsafe True cs else CHR ''_'' # replace_unsafe True cs)"

definition last_failed_payment :: "store \<Rightarrow> int option \<Rightarrow> payment option" where
  "last_failed_payment s invoice_id =
     (case sort_key (\<lambda>p. - pay_id p) (filter (\<lambda>p. Some (pay_invoice_id p) = invoice_id \<and> pay_status p = FAILED) (payments s)) of
        [] \<Rightarrow> None | p # _ \<Rightarrow> Some p)"

definition last_safe_failure :: "store \<Rightarrow> int option \<Rightarrow> string option \<Rightarrow> string option \<Rightarrow> string \<times> string" where
  "last_safe_failure s invoice_id code message =
     (let raw = str_or code (str_or (case last_failed_payment s invoice_id of None \<Rightarrow> None | Some p \<Rightarrow> pay_failure_code p) ''payment_failed'');
          safe = take 128 (replace_unsafe False raw)
      in (if safe = [] then ''payment_failed'' else safe,
          take 500 (str_or message ''The recurring payment could not be completed'')))"

definition retry_time :: "recurring_config \<Rightarrow> billing_cycle \<Rightarrow> instant option" where
  "retry_time cfg c =
     (if 0 < bc_attempts c \<and> bc_attempts c \<le> int (length (retry_day_offsets cfg))
      then Some (bc_due_at c + days (retry_day_offsets cfg ! nat (bc_attempts c - 1)))
      else None)"

definition grace_end :: "recurring_config \<Rightarrow> billing_cycle \<Rightarrow> instant" where
  "grace_end cfg c = bc_due_at c + days (grace_days cfg)"

text \<open>The row changes of \<open>_record_failure\<close>, in its order: the cycle, its invoice, the billing.\<close>

definition failed_cycle :: "recurring_config \<Rightarrow> billing_cycle \<Rightarrow> string \<times> string \<Rightarrow> billing_cycle" where
  "failed_cycle cfg c failure =
     c\<lparr>bc_failure_code := Some (fst failure), bc_failure_message := Some (snd failure),
       bc_claim_token := None, bc_claim_expires_at := None,
       bc_grace_until := Some (grace_end cfg c), bc_next_retry_at := retry_time cfg c,
       bc_state := (if bc_attempts c = 1 then PAST_DUE else GRACE)\<rparr>"

definition failed_billing :: "service_billing \<Rightarrow> billing_cycle \<Rightarrow> service_billing" where
  "failed_billing b c =
     b\<lparr>sb_status := (if bc_attempts c = 1 then SB_PAST_DUE else SB_GRACE),
       sb_failed_attempts := bc_attempts c, sb_last_failure_code := bc_failure_code c,
       sb_last_failure_message := bc_failure_message c, sb_grace_until := bc_grace_until c,
       sb_next_retry_at := bc_next_retry_at c\<rparr>"

definition overdue_invoice :: "invoice \<Rightarrow> invoice" where
  "overdue_invoice i = (if inv_status i \<noteq> PENDING_ACTION then i\<lparr>inv_status := OVERDUE\<rparr> else i)"

definition failure_rows :: "instant \<Rightarrow> store \<Rightarrow> service_billing \<Rightarrow> billing_cycle \<Rightarrow> invoice \<Rightarrow> reseller \<Rightarrow> store" where
  "failure_rows now s b c i r =
     save_reseller (apply_hold now r) (save_billing b (save_invoice (overdue_invoice i) (save_cycle c s)))"

definition notify_failure :: "recurring_env \<Rightarrow> store \<Rightarrow> reseller \<Rightarrow> service_billing \<Rightarrow> billing_cycle \<Rightarrow> store res" where
  "notify_failure env s r b c =
     (let data = notification_data env s b c in
      ebind (notify s r ''cycle_charge_failed'' (cycle_key c (''failed:'' @ show_int (bc_attempts c))) data) (\<lambda>s1.
      if bc_attempts c = 2 then notify s1 r ''grace_warning'' (cycle_key c ''grace-warning'') data else Inr s1))"

definition counted :: "instant \<Rightarrow> bool \<Rightarrow> billing_cycle \<Rightarrow> billing_cycle" where
  "counted now increment c =
     (if increment then c\<lparr>bc_attempts := bc_attempts c + 1, bc_last_attempt_at := Some now\<rparr> else c)"

definition record_failure ::
  "recurring_config \<Rightarrow> recurring_env \<Rightarrow> instant \<Rightarrow> store \<Rightarrow> service_billing \<Rightarrow> billing_cycle
     \<Rightarrow> string option \<Rightarrow> string option \<Rightarrow> bool \<Rightarrow> store res" where
  "record_failure cfg env now s b c code message increment =
     (let c2 = failed_cycle cfg (counted now increment c) (last_safe_failure s (bc_invoice_id c) code message);
          b2 = failed_billing b c2 in
      ebind (the_or_raise ''status'' (cycle_invoice s c)) (\<lambda>i.
      ebind (the_or_raise ''nonpayment_policy'' (billing_reseller s b)) (\<lambda>r.
      notify_failure env (failure_rows now s b2 c2 i r) (apply_hold now r) b2 c2)))"

definition pending_cycle :: "recurring_config \<Rightarrow> billing_cycle \<Rightarrow> billing_cycle" where
  "pending_cycle cfg c =
     c\<lparr>bc_state := CYCLE_PENDING_ACTION, bc_grace_until := Some (grace_end cfg c), bc_next_retry_at := None\<rparr>"

definition pending_billing :: "service_billing \<Rightarrow> billing_cycle \<Rightarrow> service_billing" where
  "pending_billing b c =
     b\<lparr>sb_status := (if bc_attempts c \<le> 1 then SB_PAST_DUE else SB_GRACE), sb_failed_attempts := bc_attempts c,
       sb_grace_until := bc_grace_until c, sb_next_retry_at := None,
       sb_last_failure_code := Some ''payment_action_required'',
       sb_last_failure_message := Some ''Payment action is required''\<rparr>"

definition record_pending_action ::
  "recurring_config \<Rightarrow> recurring_env \<Rightarrow> instant \<Rightarrow> store \<Rightarrow> service_billing \<Rightarrow> billing_cycle \<Rightarrow> store res" where
  "record_pending_action cfg env now s b c =
     (let c2 = pending_cycle cfg c; b2 = pending_billing b c2 in
      ebind (the_or_raise ''nonpayment_policy'' (billing_reseller s b)) (\<lambda>r.
      let r2 = apply_hold now r;
          s2 = save_reseller r2 (save_billing b2 (save_cycle c2 s)) in
      notify s2 r2 ''payment_action_required'' (cycle_key c2 ''action-required'') (notification_data env s2 b2 c2)))"

definition schedule_after_pending_failure :: "recurring_config \<Rightarrow> store \<Rightarrow> service_billing \<Rightarrow> billing_cycle \<Rightarrow> store" where
  "schedule_after_pending_failure cfg s b c =
     (let c2 = c\<lparr>bc_next_retry_at := retry_time cfg c, bc_state := (if bc_attempts c \<le> 1 then PAST_DUE else GRACE)\<rparr>;
          b2 = b\<lparr>sb_status := (if bc_attempts c \<le> 1 then SB_PAST_DUE else SB_GRACE), sb_next_retry_at := bc_next_retry_at c2\<rparr>
      in save_billing b2 (save_cycle c2 s))"

section \<open>Cycles\<close>

definition current_cycle :: "store \<Rightarrow> service_billing \<Rightarrow> billing_cycle option" where
  "current_cycle s b =
     (case sort_key (\<lambda>c. (- bc_due_at c, - bc_id c))
             (filter (\<lambda>c. bc_service_billing_id c = sb_id b \<and> bc_state c \<notin> set terminal_states) (billing_cycles s)) of
        [] \<Rightarrow> None | c # _ \<Rightarrow> Some c)"

text \<open>The unique keys of the table: one cycle per billing and due time, one cycle per invoice.\<close>

definition insert_cycle :: "store \<Rightarrow> billing_cycle \<Rightarrow> store res" where
  "insert_cycle s c =
     (if (bc_service_billing_id c, bc_due_at c) \<in> (\<lambda>x. (bc_service_billing_id x, bc_due_at x)) ` set (billing_cycles s) \<or>
         bc_amount_cents c < 0 \<or> (bc_invoice_id c \<noteq> None \<and> bc_invoice_id c \<in> bc_invoice_id ` set (billing_cycles s))
      then Inl IntegrityError
      else Inr (s\<lparr>billing_cycles := billing_cycles s @ [c]\<rparr>))"

definition cycles_due :: "store \<Rightarrow> service_billing \<Rightarrow> instant \<Rightarrow> billing_cycle list" where
  "cycles_due s b due_at = filter (\<lambda>c. bc_service_billing_id c = sb_id b \<and> bc_due_at c = due_at) (billing_cycles s)"

definition valid_snapshot :: "service_billing \<Rightarrow> bool" where
  "valid_snapshot b \<longleftrightarrow> 0 < sb_monthly_price_cents b \<and>
     length (upper (strip (sb_currency b))) = 3 \<and> isalpha (upper (strip (sb_currency b)))"

definition new_cycle :: "store \<Rightarrow> service_billing \<Rightarrow> instant \<Rightarrow> billing_cycle" where
  "new_cycle s b due_at =
     (let currency = upper (strip (sb_currency b)) in
      \<lparr>bc_id = fresh_id bc_id (billing_cycles s), bc_service_billing_id = sb_id b, bc_invoice_id = None,
       bc_due_at = due_at, bc_amount_cents = max 0 (sb_monthly_price_cents b),
       bc_currency = (if length currency = 3 \<and> isalpha currency then currency else ''USD''),
       bc_state = (if valid_snapshot b then DUE else MANUAL_REVIEW), bc_attempts = 0,
       bc_last_attempt_at = None, bc_next_retry_at = None, bc_grace_until = None, bc_failure_code = None,
       bc_failure_message = None, bc_claim_token = None, bc_claim_expires_at = None, bc_paid_at = None,
       bc_completed_at = None\<rparr>)"

text \<open>The savepoint of \<open>_ensure_cycle\<close>: the cycle row, its invoice, and the billing anchor.\<close>

definition open_cycle ::
  "recurring_env \<Rightarrow> instant \<Rightarrow> store \<Rightarrow> service_billing \<Rightarrow> instant \<Rightarrow> (billing_cycle \<times> store) res" where
  "open_cycle env now s b due_at =
     (let c = new_cycle s b due_at;
          anchor = Some (int_or (sb_billing_anchor_day b) (day_of due_at)) in
      ebind (insert_cycle s c) (\<lambda>s1.
      if valid_snapshot b
      then
        ebind (the_or_raise ''name'' (get_service s1 (sb_service_id b))) (\<lambda>v.
        ebind (create_cycle (rb_dialect env) now s1 (sb_reseller_id b) (sb_service_id b) (sb_monthly_price_cents b)
                 (''Recurring service charge for '' @ svc_name v) (Some due_at) (upper (strip (sb_currency b)))) (\<lambda>(i, s2).
        let c2 = c\<lparr>bc_invoice_id := Some (inv_id i)\<rparr> in
        Inr (c2, save_billing (b\<lparr>sb_billing_anchor_day := anchor\<rparr>) (save_cycle c2 s2))))
      else
        let c2 = c\<lparr>bc_failure_code := Some ''invalid_billing_snapshot'',
                    bc_failure_message := Some ''Monthly price or currency requires manual review''\<rparr> in
        Inr (c2, save_billing (b\<lparr>sb_status := SB_MANUAL_REVIEW, sb_billing_anchor_day := anchor\<rparr>) (save_cycle c2 s1))))"

definition ensure_cycle ::
  "recurring_env \<Rightarrow> instant \<Rightarrow> store \<Rightarrow> service_billing \<Rightarrow> (billing_cycle \<times> store) res" where
  "ensure_cycle env now s b =
     (let due_at = (case sb_next_charge_at b of None \<Rightarrow> now | Some t \<Rightarrow> t) in
      ebind (scalar_one_or_none (cycles_due s b due_at)) (\<lambda>existing.
      case existing of
        Some c \<Rightarrow> Inr (c, s)
      | None \<Rightarrow>
          (case open_cycle env now s b due_at of
             Inr x \<Rightarrow> Inr x
           | Inl e \<Rightarrow>
               if e = IntegrityError
               then (case cycles_due s b due_at of [] \<Rightarrow> Inl NoResultFound | [c] \<Rightarrow> Inr (c, s) | _ \<Rightarrow> Inl MultipleResultsFound)
               else Inl e)))"

section \<open>Suspension\<close>

definition retries_exhausted :: "recurring_config \<Rightarrow> billing_cycle \<Rightarrow> bool" where
  "retries_exhausted cfg c \<longleftrightarrow> int (length (retry_day_offsets cfg)) < bc_attempts c"

definition should_suspend :: "recurring_config \<Rightarrow> instant \<Rightarrow> billing_cycle \<Rightarrow> bool" where
  "should_suspend cfg now c \<longleftrightarrow>
     (bc_state c = CYCLE_PENDING_ACTION \<or> retries_exhausted cfg c) \<and>
     (case bc_grace_until c of None \<Rightarrow> False | Some t \<Rightarrow> t \<le> now)"

definition suspension_rows :: "store \<Rightarrow> service_billing \<Rightarrow> service_billing list res" where
  "suspension_rows s b =
     ebind (the_or_raise ''nonpayment_policy'' (billing_reseller s b)) (\<lambda>r.
     if nonpayment_policy r \<noteq> SUSPEND_ALL then Inr [b]
     else Inr (sort_key sb_id (filter (\<lambda>x. sb_reseller_id x = sb_reseller_id b \<and> sb_status x \<noteq> SB_CANCELLED) (service_billings s))))"

text \<open>The answer: whether the row was marked as suspended, and whether the lifecycle failed.\<close>

definition mark_suspended :: "recurring_env \<Rightarrow> store \<Rightarrow> service_billing \<Rightarrow> billing_cycle \<Rightarrow> store res" where
  "mark_suspended env s b c =
     (let b2 = b\<lparr>sb_status := SUSPENDED_NONPAYMENT, sb_next_retry_at := None\<rparr>;
          s1 = save_billing b2 s in
      ebind (the_or_raise ''user'' (billing_reseller s1 b)) (\<lambda>r.
      notify s1 r ''service_suspended'' (cycle_key c (''suspended-service:'' @ show_int (sb_service_id b2))) (notification_data env s1 b2 c)))"

fun is_lifecycle_error :: "exn \<Rightarrow> bool" where
  "is_lifecycle_error (ServiceLifecycleError _) = True"
| "is_lifecycle_error _ = False"

definition suspend_billing_row ::
  "recurring_env \<Rightarrow> store \<Rightarrow> service_billing \<Rightarrow> billing_cycle \<Rightarrow> ((bool \<times> bool) \<times> store) res" where
  "suspend_billing_row env s b c =
     (case get_service s (sb_service_id b) of
        None \<Rightarrow> Inr ((False, False), s)
      | Some v \<Rightarrow>
          if svc_status v = SVC_TERMINATED then Inr ((False, False), s)
          else
            case suspend (rb_lifecycle env) s v of
              Inl e \<Rightarrow> if is_lifecycle_error e then Inr ((False, True), s) else Inl e
            | Inr (changed, s1) \<Rightarrow>
                if \<not> (changed \<or> sb_status b = SUSPENDED_NONPAYMENT) then Inr ((False, False), s1)
                else ebind (mark_suspended env s1 b c) (\<lambda>s2. Inr ((True, False), s2)))"

fun suspend_rows ::
  "recurring_env \<Rightarrow> store \<Rightarrow> int \<Rightarrow> billing_cycle \<Rightarrow> service_billing list \<Rightarrow> bool \<Rightarrow> bool \<Rightarrow> ((bool \<times> bool) \<times> store) res" where
  "suspend_rows env s target c [] target_suspended lifecycle_failed = Inr ((target_suspended, lifecycle_failed), s)"
| "suspend_rows env s target c (b # bs) target_suspended lifecycle_failed =
     ebind (suspend_billing_row env s b c) (\<lambda>((marked, failed), s1).
     suspend_rows env s1 target c bs (target_suspended \<or> (sb_id b = target \<and> marked)) (lifecycle_failed \<or> failed))"

definition record_suspension_failure :: "instant \<Rightarrow> store \<Rightarrow> service_billing \<Rightarrow> billing_cycle \<Rightarrow> store" where
  "record_suspension_failure now s b c =
     (let c2 = c\<lparr>bc_state := GRACE, bc_next_retry_at := Some (now + hours 1),
                 bc_failure_code := Some ''lifecycle_suspend_failed'',
                 bc_failure_message := Some ''Service suspension could not be completed''\<rparr>
      in save_billing (b\<lparr>sb_next_retry_at := bc_next_retry_at c2\<rparr>) (save_cycle c2 s))"

text \<open>The loop may have marked the billing row itself; \<open>live_billing\<close> is its state after the loop.\<close>

definition live_billing :: "store \<Rightarrow> service_billing \<Rightarrow> service_billing" where
  "live_billing s b = (case get_billing s (sb_id b) of None \<Rightarrow> b | Some b1 \<Rightarrow> b1)"

definition outside_suspension :: "service_billing \<Rightarrow> service_billing" where
  "outside_suspension b = b\<lparr>sb_status := SB_MANUAL_REVIEW, sb_last_failure_code := Some ''service_already_suspended'',
     sb_last_failure_message := Some ''Service was already suspended outside recurring billing''\<rparr>"

definition suspended_cycle :: "instant \<Rightarrow> bool \<Rightarrow> billing_cycle \<Rightarrow> billing_cycle" where
  "suspended_cycle now target_suspended c =
     (let c1 = (if target_suspended then c
                else c\<lparr>bc_failure_code := Some ''service_already_suspended'',
                       bc_failure_message := Some ''Service was already suspended outside recurring billing''\<rparr>)
      in c1\<lparr>bc_state := SUSPENDED, bc_completed_at := Some now, bc_next_retry_at := None\<rparr>)"

definition record_suspension :: "instant \<Rightarrow> store \<Rightarrow> service_billing \<Rightarrow> billing_cycle \<Rightarrow> bool \<Rightarrow> store res" where
  "record_suspension now s b c target_suspended =
     (let s1 = save_cycle (suspended_cycle now target_suspended c)
            (if target_suspended then s else save_billing (outside_suspension b) s) in
      ebind (the_or_raise ''billing_hold'' (billing_reseller s1 b)) (\<lambda>r.
      Inr (save_reseller (set_nonpayment_hold now r) s1)))"

definition suspend_for_nonpayment ::
  "recurring_env \<Rightarrow> instant \<Rightarrow> store \<Rightarrow> service_billing \<Rightarrow> billing_cycle \<Rightarrow> (bool \<times> store) res" where
  "suspend_for_nonpayment env now s b c =
     ebind (suspension_rows s b) (\<lambda>rows.
     ebind (suspend_rows env s (sb_id b) c rows False False) (\<lambda>((target_suspended, lifecycle_failed), s1).
     let b1 = live_billing s1 b in
     if lifecycle_failed \<and> \<not> target_suspended then Inr (False, record_suspension_failure now s1 b1 c)
     else ebind (record_suspension now s1 b1 c target_suspended) (\<lambda>s2. Inr (target_suspended, s2))))"

section \<open>Payment and recovery\<close>

definition has_overdue_cycles :: "store \<Rightarrow> int \<Rightarrow> int \<Rightarrow> bool" where
  "has_overdue_cycles s reseller_id excluding \<longleftrightarrow>
     list_ex (\<lambda>c. bc_state c \<in> set overdue_states \<and> bc_id c \<noteq> excluding \<and>
        (case get_billing s (bc_service_billing_id c) of None \<Rightarrow> False | Some b \<Rightarrow> sb_reseller_id b = Some reseller_id))
       (billing_cycles s)"

fun restore_rows :: "store \<Rightarrow> service_billing list \<Rightarrow> store res" where
  "restore_rows s [] = Inr s"
| "restore_rows s (b # bs) =
     ebind (the_or_raise ''status'' (get_service s (sb_service_id b))) (\<lambda>v.
     let s1 = (if svc_status v = SVC_SUSPENDED then snd (unsuspend s v) else s)
     in restore_rows (save_billing (b\<lparr>sb_status := SB_ACTIVE\<rparr>) s1) bs)"

definition restore_cascade :: "store \<Rightarrow> int \<Rightarrow> store res" where
  "restore_cascade s reseller_id =
     restore_rows s (filter (\<lambda>b. sb_reseller_id b = Some reseller_id \<and> sb_status b = SUSPENDED_NONPAYMENT) (service_billings s))"

definition paid_cycle :: "instant \<Rightarrow> invoice \<Rightarrow> billing_cycle \<Rightarrow> billing_cycle" where
  "paid_cycle now i c =
     c\<lparr>bc_state := CYCLE_PAID, bc_paid_at := Some (case inv_paid_at i of None \<Rightarrow> now | Some t \<Rightarrow> t),
       bc_completed_at := Some now, bc_failure_code := None, bc_failure_message := None,
       bc_next_retry_at := None, bc_claim_token := None, bc_claim_expires_at := None\<rparr>"

definition paid_billing :: "billing_cycle \<Rightarrow> service_billing \<Rightarrow> service_billing" where
  "paid_billing c b =
     (let anchor = Some (int_or (sb_billing_anchor_day b) (day_of (bc_due_at c))) in
      b\<lparr>sb_status := SB_ACTIVE, sb_failed_attempts := 0, sb_last_failure_code := None,
        sb_last_failure_message := None, sb_grace_until := None, sb_next_retry_at := None,
        sb_last_charged_at := bc_paid_at c, sb_billing_anchor_day := anchor,
        sb_next_charge_at := Some (next_calendar_month (bc_due_at c) anchor)\<rparr>)"

definition clear_hold :: "instant \<Rightarrow> reseller \<Rightarrow> reseller" where
  "clear_hold now r =
     (if 0 \<le> cached_balance_cents r \<and> (\<not> billing_hold r \<or> billing_hold_reason r = Some ''nonpayment'')
      then r\<lparr>billing_hold_cleared_at := (if billing_hold r then Some now else billing_hold_cleared_at r),
             billing_hold := False, billing_hold_reason := None\<rparr>
      else r)"

definition is_recovery :: "billing_cycle \<Rightarrow> service_billing \<Rightarrow> bool" where
  "is_recovery c b \<longleftrightarrow> bc_state c \<in> set overdue_states \<or> sb_status b \<in> set [SB_PAST_DUE, SB_GRACE, SUSPENDED_NONPAYMENT]"

text \<open>The three stages of \<open>_complete_paid_cycle\<close>: the service, the reseller, the notification.\<close>

definition resume_service :: "store \<Rightarrow> service_billing \<Rightarrow> store res" where
  "resume_service s b =
     (if sb_status b = SUSPENDED_NONPAYMENT
      then ebind (the_or_raise ''status'' (get_service s (sb_service_id b))) (\<lambda>v. Inr (snd (unsuspend s v)))
      else Inr s)"

definition restore_reseller :: "instant \<Rightarrow> store \<Rightarrow> reseller \<Rightarrow> int \<Rightarrow> store res" where
  "restore_reseller now s r cycle_id =
     (if has_overdue_cycles s (r_id r) cycle_id then Inr s
      else ebind (restore_cascade s (r_id r)) (\<lambda>s1. Inr (save_reseller (clear_hold now r) s1)))"

definition notify_recovery ::
  "recurring_env \<Rightarrow> store \<Rightarrow> reseller \<Rightarrow> bool \<Rightarrow> service_billing \<Rightarrow> billing_cycle \<Rightarrow> store res" where
  "notify_recovery env s r recovered b c =
     (if recovered then notify s r ''payment_recovered'' (cycle_key c ''payment-recovered'') (notification_data env s b c)
      else Inr s)"

definition complete_paid_cycle :: "recurring_env \<Rightarrow> instant \<Rightarrow> store \<Rightarrow> billing_cycle \<Rightarrow> store res" where
  "complete_paid_cycle env now s c =
     ebind (the_or_raise ''reseller'' (get_billing s (bc_service_billing_id c))) (\<lambda>b.
     ebind (the_or_raise ''paid_at'' (cycle_invoice s c)) (\<lambda>i.
     let c2 = paid_cycle now i c; b2 = paid_billing c2 b in
     ebind (resume_service (save_billing b2 (save_cycle c2 s)) b) (\<lambda>s2.
     ebind (the_or_raise ''id'' (billing_reseller s2 b)) (\<lambda>r.
     ebind (restore_reseller now s2 r (bc_id c)) (\<lambda>s4.
     notify_recovery env s4 r (is_recovery c b) b2 c2)))))"

definition cancelled_cycle :: "store \<Rightarrow> service_billing \<Rightarrow> billing_cycle option" where
  "cancelled_cycle s b =
     (case sort_key (\<lambda>c. - bc_id c)
             (filter (\<lambda>c. bc_service_billing_id c = sb_id b \<and> bc_state c \<notin> {CYCLE_PAID, CANCELLED}) (billing_cycles s)) of
        [] \<Rightarrow> None | c # _ \<Rightarrow> Some c)"

definition cancel_billing :: "instant \<Rightarrow> store \<Rightarrow> service_billing \<Rightarrow> store" where
  "cancel_billing now s b =
     (let s1 = save_billing (b\<lparr>sb_status := SB_CANCELLED, sb_next_charge_at := None, sb_next_retry_at := None\<rparr>) s in
      case cancelled_cycle s b of
        None \<Rightarrow> s1
      | Some c \<Rightarrow>
          let s2 = save_cycle (c\<lparr>bc_state := CANCELLED, bc_completed_at := Some now, bc_next_retry_at := None\<rparr>) s1 in
          (case cycle_invoice s2 c of
             None \<Rightarrow> s2
           | Some i \<Rightarrow> if inv_status i \<noteq> PAID then save_invoice (i\<lparr>inv_status := VOID\<rparr>) s2 else s2))"

definition mark_manual :: "store \<Rightarrow> service_billing \<Rightarrow> billing_cycle \<Rightarrow> string \<Rightarrow> string \<Rightarrow> store" where
  "mark_manual s b c code message =
     save_billing (b\<lparr>sb_status := SB_MANUAL_REVIEW, sb_last_failure_code := Some code,
         sb_last_failure_message := Some message, sb_next_retry_at := None\<rparr>)
       (save_cycle (c\<lparr>bc_state := MANUAL_REVIEW, bc_failure_code := Some code, bc_failure_message := Some message\<rparr>) s)"

section \<open>One billing\<close>

datatype billing_outcome = Processed | Paid | Failed | Pending_Action | Suspended_Out | Cancelled_Out | Manual_Review_Out

definition claimed_by_another_worker :: "billing_cycle \<Rightarrow> instant \<Rightarrow> string \<Rightarrow> bool" where
  "claimed_by_another_worker c now owner \<longleftrightarrow>
     bc_state c = PROCESSING \<and> (case bc_claim_expires_at c of None \<Rightarrow> False | Some t \<Rightarrow> now < t) \<and> bc_claim_token c \<noteq> Some owner"

definition retry_is_not_due :: "recurring_config \<Rightarrow> instant \<Rightarrow> billing_cycle \<Rightarrow> bool" where
  "retry_is_not_due cfg now c \<longleftrightarrow>
     (retries_exhausted cfg c \<and> (case bc_grace_until c of None \<Rightarrow> False | Some t \<Rightarrow> now < t)) \<or>
     ((case bc_next_retry_at c of None \<Rightarrow> False | Some t \<Rightarrow> now < t) \<and> bc_state c \<noteq> DUE)"

definition claim_cycle :: "recurring_config \<Rightarrow> instant \<Rightarrow> string \<Rightarrow> billing_cycle \<Rightarrow> billing_cycle" where
  "claim_cycle cfg now owner c =
     c\<lparr>bc_state := PROCESSING, bc_claim_token := Some owner,
       bc_claim_expires_at := Some (now + seconds (rb_lease_seconds cfg))\<rparr>"

definition fund_cycle ::
  "recurring_env \<Rightarrow> store \<Rightarrow> service_billing \<Rightarrow> billing_cycle \<Rightarrow> (funding_result \<times> store) res" where
  "fund_cycle env s b c =
     ebind (the_or_raise ''id'' (billing_reseller s b)) (\<lambda>r.
     ebind (the_or_raise ''id'' (cycle_invoice s c)) (\<lambda>i.
     fund_invoice (rb_gateways env) (fund_time env (bc_id c)) s (r_id r) (inv_id i) None))"

text \<open>What follows a funding that returned, before the commit.\<close>

definition settle_attempt ::
  "recurring_config \<Rightarrow> recurring_env \<Rightarrow> instant \<Rightarrow> store \<Rightarrow> service_billing \<Rightarrow> billing_cycle \<Rightarrow> funding_result \<Rightarrow> (billing_outcome \<times> store) res" where
  "settle_attempt cfg env now s b c funding =
     (let c2 = (counted now True c)\<lparr>bc_claim_token := None, bc_claim_expires_at := None\<rparr> in
      if fr_funded funding
      then
        ebind (the_or_raise ''id'' (bc_invoice_id c2)) (\<lambda>n.
        ebind (mark_paid_if_fully_allocated (fund_time env (bc_id c)) s n) (\<lambda>(_, s1).
        ebind (complete_paid_cycle env now s1 c2) (\<lambda>s2. Inr (Paid, s2))))
      else if fr_pending_action funding
      then ebind (record_pending_action cfg env now s b c2) (\<lambda>s1. Inr (Pending_Action, s1))
      else ebind (record_failure cfg env now s b c2 None None False) (\<lambda>s1. Inr (Failed, s1)))"

text \<open>The claim is committed before the gateways are called; a raise rolls back to it.\<close>

definition attempt_payment ::
  "recurring_config \<Rightarrow> recurring_env \<Rightarrow> instant \<Rightarrow> store \<Rightarrow> service_billing \<Rightarrow> billing_cycle \<Rightarrow> string \<Rightarrow> (billing_outcome \<times> store) tx" where
  "attempt_payment cfg env now s b c owner =
     (let c1 = claim_cycle cfg now owner c;
          s1 = save_cycle c1 s in
      case fund_cycle env s1 b c1 of
        Inl e \<Rightarrow>
          since_commit s1 (ebind (record_failure cfg env now s1 b c1 (Some (exn_name e)) (Some ''Payment processing failed'') True)
            (\<lambda>s2. Inr (Failed, s2)))
      | Inr (funding, s2) \<Rightarrow> since_commit s1 (settle_attempt cfg env now s2 b c1 funding))"

definition initial_cycle_outcome ::
  "recurring_env \<Rightarrow> instant \<Rightarrow> store \<Rightarrow> service_billing \<Rightarrow> billing_cycle \<Rightarrow> string \<Rightarrow> (billing_outcome option \<times> store) res" where
  "initial_cycle_outcome env now s b c owner =
     (if bc_state c = MANUAL_REVIEW then Inr (Some Manual_Review_Out, s)
      else case cycle_invoice s c of
        None \<Rightarrow>
          if bc_state c = CYCLE_ERROR then Inr (Some Manual_Review_Out, s)
          else Inr (Some Manual_Review_Out, mark_manual s b c ''missing_invoice'' ''Billing cycle has no invoice'')
      | Some i \<Rightarrow>
          if inv_status i = PAID then ebind (complete_paid_cycle env now s c) (\<lambda>s1. Inr (Some Paid, s1))
          else if claimed_by_another_worker c now owner then Inr (Some Processed, s)
          else Inr (None, s))"

definition handle_pending_action ::
  "recurring_config \<Rightarrow> recurring_env \<Rightarrow> store \<Rightarrow> service_billing \<Rightarrow> billing_cycle \<Rightarrow> (billing_outcome option \<times> store) res" where
  "handle_pending_action cfg env s b c =
     (if bc_state c \<noteq> CYCLE_PENDING_ACTION then Inr (None, s)
      else
        ebind (the_or_raise ''status'' (cycle_invoice s c)) (\<lambda>i.
        if inv_status i \<noteq> PENDING_ACTION then Inr (None, schedule_after_pending_failure cfg s b c)
        else
          ebind (the_or_raise ''user'' (billing_reseller s b)) (\<lambda>r.
          ebind (notify s r ''payment_action_required'' (cycle_key c ''action-required'') (notification_data env s b c)) (\<lambda>s1.
          Inr (Some Pending_Action, s1)))))"

definition suspension_outcome ::
  "recurring_config \<Rightarrow> recurring_env \<Rightarrow> instant \<Rightarrow> store \<Rightarrow> service_billing \<Rightarrow> billing_cycle \<Rightarrow> (billing_outcome option \<times> store) res" where
  "suspension_outcome cfg env now s b c =
     (if \<not> should_suspend cfg now c then Inr (None, s)
      else ebind (suspend_for_nonpayment env now s b c) (\<lambda>(suspended, s1).
        Inr (Some (if suspended then Suspended_Out else Failed), s1)))"

definition live_cycle :: "store \<Rightarrow> billing_cycle \<Rightarrow> billing_cycle" where
  "live_cycle s c = (case get_cycle s (bc_id c) of None \<Rightarrow> c | Some c1 \<Rightarrow> c1)"

text \<open>
  \<open>_process_billing\<close> once the cycle exists: the stages in order, each on the committed store of
  the one before; the rows are read again between them.
\<close>

definition process_cycle ::
  "recurring_config \<Rightarrow> recurring_env \<Rightarrow> instant \<Rightarrow> store \<Rightarrow> service_billing \<Rightarrow> billing_cycle \<Rightarrow> string \<Rightarrow> (billing_outcome \<times> store) tx" where
  "process_cycle cfg env now s b c owner =
     ebind (since_commit s (initial_cycle_outcome env now s b c owner)) (\<lambda>(initial, s1).
     case initial of
       Some out \<Rightarrow> Inr (out, s1)
     | None \<Rightarrow>
         ebind (since_commit s1 (suspension_outcome cfg env now s1 b c)) (\<lambda>(suspension, s2).
         case suspension of
           Some out \<Rightarrow> Inr (out, s2)
         | None \<Rightarrow>
             ebind (since_commit s2 (handle_pending_action cfg env s2 b c)) (\<lambda>(pending, s3).
             case pending of
               Some out \<Rightarrow> Inr (out, s3)
             | None \<Rightarrow>
                 let b3 = live_billing s3 b; c3 = live_cycle s3 c in
                 if retry_is_not_due cfg now c3 then Inr (Processed, s3)
                 else attempt_payment cfg env now s3 b3 c3 owner)))"

definition process_billing ::
  "recurring_config \<Rightarrow> recurring_env \<Rightarrow> instant \<Rightarrow> store \<Rightarrow> int \<Rightarrow> string \<Rightarrow> (billing_outcome \<times> store) tx" where
  "process_billing cfg env now s billing_id owner =
     ebind (since_commit s (reload (get_billing s billing_id))) (\<lambda>b.
     if (case get_service s (sb_service_id b) of None \<Rightarrow> True | Some v \<Rightarrow> svc_status v = SVC_TERMINATED)
     then Inr (Cancelled_Out, cancel_billing now s b)
     else
       ebind (case current_cycle s b of
                Some c \<Rightarrow> Inr (c, s)
              | None \<Rightarrow> since_commit s (ensure_cycle env now s b)) (\<lambda>(c, s1).
       process_cycle cfg env now s1 (live_billing s1 b) c owner))"

section \<open>A batch\<close>

record batch_result =
  br_processed :: nat
  br_paid :: nat
  br_failed :: nat
  br_pending_action :: nat
  br_suspended :: nat
  br_cancelled :: nat
  br_manual_review :: nat

definition empty_result :: batch_result where
  "empty_result = \<lparr>br_processed = 0, br_paid = 0, br_failed = 0, br_pending_action = 0, br_suspended = 0, br_cancelled = 0, br_manual_review = 0\<rparr>"

text \<open>Every outcome is a key of the result, \<open>processed\<close> too, which each billing has already counted once.\<close>

fun count_outcome :: "batch_result \<Rightarrow> billing_outcome \<Rightarrow> batch_result" where
  "count_outcome res Processed = res\<lparr>br_processed := br_processed res + 1\<rparr>"
| "count_outcome res Paid = res\<lparr>br_paid := br_paid res + 1\<rparr>"
| "count_outcome res Failed = res\<lparr>br_failed := br_failed res + 1\<rparr>"
| "count_outcome res Pending_Action = res\<lparr>br_pending_action := br_pending_action res + 1\<rparr>"
| "count_outcome res Suspended_Out = res\<lparr>br_suspended := br_suspended res + 1\<rparr>"
| "count_outcome res Cancelled_Out = res\<lparr>br_cancelled := br_cancelled res + 1\<rparr>"
| "count_outcome res Manual_Review_Out = res\<lparr>br_manual_review := br_manual_review res + 1\<rparr>"

definition recoverable :: "store \<Rightarrow> billing_cycle \<Rightarrow> bool" where
  "recoverable s c \<longleftrightarrow> bc_state c \<notin> {CYCLE_PAID, CANCELLED} \<and>
     (case cycle_invoice s c of None \<Rightarrow> False | Some i \<Rightarrow> inv_status i = PAID)"

fun recover_cycles ::
  "recurring_env \<Rightarrow> instant \<Rightarrow> store \<Rightarrow> int list \<Rightarrow> batch_result \<Rightarrow> (batch_result \<times> store) tx" where
  "recover_cycles env now s [] res = Inr (res, s)"
| "recover_cycles env now s (n # ns) res =
     ebind (since_commit s (ebind (reload (get_cycle s n)) (complete_paid_cycle env now s))) (\<lambda>s1.
     recover_cycles env now s1 ns (res\<lparr>br_processed := br_processed res + 1, br_paid := br_paid res + 1\<rparr>))"

definition recoverable_cycles :: "store \<Rightarrow> nat \<Rightarrow> int list" where
  "recoverable_cycles s limit = map bc_id (take limit (sort_key bc_id (filter (recoverable s) (billing_cycles s))))"

definition recover_paid_cycles ::
  "recurring_env \<Rightarrow> instant \<Rightarrow> store \<Rightarrow> nat \<Rightarrow> batch_result \<Rightarrow> (nat \<times> batch_result \<times> store) tx" where
  "recover_paid_cycles env now s limit res =
     (let ids = recoverable_cycles s limit in
      ebind (recover_cycles env now s ids res) (\<lambda>(res1, s1). Inr (length ids, res1, s1)))"

definition billing_due :: "instant \<Rightarrow> service_billing \<Rightarrow> bool" where
  "billing_due now b \<longleftrightarrow>
     (sb_status b = SB_ACTIVE \<and> (case sb_next_charge_at b of None \<Rightarrow> False | Some t \<Rightarrow> t \<le> now)) \<or>
     (sb_status b \<in> {SB_PAST_DUE, SB_GRACE} \<and>
        ((case sb_next_retry_at b of None \<Rightarrow> True | Some t \<Rightarrow> t \<le> now) \<or>
         (case sb_grace_until b of None \<Rightarrow> False | Some t \<Rightarrow> t \<le> now)))"

definition due_billings :: "instant \<Rightarrow> store \<Rightarrow> nat \<Rightarrow> int list" where
  "due_billings now s limit =
     map sb_id (take limit (sort_key (\<lambda>b. (sb_next_retry_at b, sb_next_charge_at b, sb_id b))
       (filter (billing_due now) (service_billings s))))"

fun process_billings ::
  "recurring_config \<Rightarrow> recurring_env \<Rightarrow> instant \<Rightarrow> store \<Rightarrow> int list \<Rightarrow> string \<Rightarrow> batch_result \<Rightarrow> (batch_result \<times> store) tx" where
  "process_billings cfg env now s [] owner res = Inr (res, s)"
| "process_billings cfg env now s (n # ns) owner res =
     ebind (process_billing cfg env now s n owner) (\<lambda>(out, s1).
     process_billings cfg env now s1 ns owner (count_outcome (res\<lparr>br_processed := br_processed res + 1\<rparr>) out))"

definition process_batch ::
  "recurring_config \<Rightarrow> recurring_env \<Rightarrow> instant \<Rightarrow> store \<Rightarrow> nat option \<Rightarrow> string \<Rightarrow> (batch_result \<times> store) tx" where
  "process_batch cfg env now s batch_size owner =
     (let limit = (case batch_size of None \<Rightarrow> rb_batch_size cfg | Some n \<Rightarrow> if n = 0 then rb_batch_size cfg else n) in
      ebind (recover_paid_cycles env now s limit empty_result) (\<lambda>(recovered, res, s1).
      let remaining = limit - recovered in
      if remaining = 0 then Inr (res, s1)
      else process_billings cfg env now s1 (due_billings now s1 remaining) owner res))"

text \<open>
  One iteration of the worker: \<open>now\<close> is the clock at the lease, \<open>later\<close> the clock at the batch.
  Whether the batch returns or raises, the lease is released on the committed store.
\<close>

definition run_recurring_billing_iteration ::
  "recurring_config \<Rightarrow> recurring_env \<Rightarrow> instant \<Rightarrow> instant \<Rightarrow> store \<Rightarrow> string \<Rightarrow> batch_result res \<times> store" where
  "run_recurring_billing_iteration cfg env now later s owner =
     (let (acquired, s1) = acquire_lease cfg s owner now in
      if \<not> acquired then (Inr empty_result, s1)
      else case process_batch cfg env later s1 None owner of
        Inl (e, s2) \<Rightarrow> (Inl e, release_lease s2 owner)
      | Inr (res, s2) \<Rightarrow> (Inr res, release_lease s2 owner))"

end
