(* ===== verification/Recurring_Books.thy ===== *)
theory Recurring_Books
  imports Recurring
begin

text \<open>
  The invariant of recurring billing: the books of the ledger, invoices, payments and outbox; one
  cycle per billing and due time and one cycle per invoice; payments and cycles refer to existing
  rows; the grace period of a cycle is counted from its due time. Every operation of the service
  keeps it, whatever gateways, plugins and clocks answer, and every exception leaves a committed store
  in which it holds.
\<close>

section \<open>What funding touches\<close>

definition funds_only :: "int \<Rightarrow> store \<Rightarrow> store \<Rightarrow> bool" where
  "funds_only n s t \<longleftrightarrow> same_rest s t \<and> map r_id (resellers t) = map r_id (resellers s) \<and>
     pay_invoice_id ` set (payments t) \<subseteq> insert n (pay_invoice_id ` set (payments s))"

lemma funds_only_refl [simp]: "funds_only n s s"
  by (auto simp: funds_only_def)

lemma funds_only_trans: "funds_only n s t \<Longrightarrow> funds_only n t u \<Longrightarrow> funds_only n s u"
  unfolding funds_only_def using same_rest_trans [of s t u] by (intro conjI) (simp, simp, blast)

lemma funds_only_ledger: "ledger_exec s x = Inr (e, t) \<Longrightarrow> funds_only n s t"
proof -
  assume l: "ledger_exec s x = Inr (e, t)"
  have a: "map r_id (resellers t) = map r_id (resellers s)" if "append_locked s r ty a c neg = Inr (e, t)" for r ty a c neg
    using that by (cases rule: append_lockedE) simp_all
  have "map r_id (resellers t) = map r_id (resellers s)"
    using l by (cases rule: ledger_exec_append) (simp, erule a)
  moreover have "payments t = payments s" by (subst ledger_exec_frame [OF l]) simp
  ultimately show ?thesis using same_rest_ledger [OF l] by (auto simp: funds_only_def)
qed

lemma funds_only_notify: "notify s r ev key d = Inr t \<Longrightarrow> funds_only n s t"
proof -
  assume a: "notify s r ev key d = Inr t"
  have "resellers t = resellers s" "payments t = payments s" by (subst notify_frame [OF a], simp)+
  then show ?thesis using same_rest_notify [OF a] by (auto simp: funds_only_def)
qed

lemma funds_only_mark: "mark_paid_if_fully_allocated now s m = Inr (i, t) \<Longrightarrow> funds_only n s t"
proof -
  assume a: "mark_paid_if_fully_allocated now s m = Inr (i, t)"
  have "resellers t = resellers s" "payments t = payments s" by (subst mark_paid_frame [OF a], simp)+
  then show ?thesis using same_rest_mark [OF a] by (auto simp: funds_only_def)
qed

lemma funds_only_save_payment: "pay_invoice_id p = n \<Longrightarrow> funds_only n s (save_payment p s)"
  by (auto simp: funds_only_def save_payment_def same_rest_def dest: set_put_row)

lemma funds_only_insert: "insert_payment s p = Inr t \<Longrightarrow> pay_invoice_id p = n \<Longrightarrow> funds_only n s t"
  by (auto simp: funds_only_def insert_payment_Inr same_rest_def)

lemma funds_only_finalize:
  assumes "finalize_success now s p = Inr (i, t)" "pay_invoice_id p = n"
  shows "funds_only n s t"
proof -
  from assms(1) obtain s1 where m: "mark_paid_if_fully_allocated now (save_payment (finalized now p) s) (pay_invoice_id p) = Inr (i, s1)"
    and ct: "credit_topup s1 i (finalized now p) = Inr (i, t)" by (rule finalize_successE)
  have "pay_invoice_id (finalized now p) = n" using assms(2) by (simp add: finalized_def)
  then have "funds_only n s s1" using funds_only_save_payment funds_only_mark [OF m] by (blast intro: funds_only_trans)
  moreover from ct have "funds_only n s1 t"
  proof (cases rule: credit_topupE)
    case (yes e s2 j r)
    then show ?thesis using funds_only_ledger [OF yes(5) [unfolded credit_exec]] funds_only_notify [OF yes(7)] by (blast intro: funds_only_trans)
  qed simp
  ultimately show ?thesis by (rule funds_only_trans)
qed

lemma funds_only_settle:
  assumes "settle_charge now s i p sec = Inr (res, t)" "pay_invoice_id p = n"
  shows "funds_only n s t"
proof (cases "pay_status p")
  case SUCCEEDED
  with assms(1) obtain j where "finalize_success now s p = Inr (j, t)" by (auto simp: settle_charge_def ebind_Inr_iff)
  then show ?thesis using assms(2) by (rule funds_only_finalize)
next
  case PENDING
  with assms(1) show ?thesis by (auto simp: settle_charge_def Let_def funds_only_def save_invoice_def same_rest_def)
qed (use assms(1) in \<open>auto simp: settle_charge_def\<close>)

lemma funds_only_charge:
  assumes "charge_method reg now s r i m amt = Inr (res, t)" "inv_id i = n"
  shows "funds_only n s t"
proof (cases "t = s \<and> res = result_of s i False None None")
  case False
  with assms(1) obtain gw outcome s1 where "insert_payment s (charge_payment now s i m amt outcome) = Inr s1"
    "settle_charge now s1 i (charge_payment now s i m amt outcome) (cr_client_secret outcome) = Inr (res, t)"
    by (rule charge_methodE)
  moreover have "pay_invoice_id (charge_payment now s i m amt outcome) = n" using assms(2) by (simp add: charge_payment_def Let_def)
  ultimately show ?thesis by (blast intro: funds_only_insert funds_only_settle funds_only_trans)
qed simp

lemma funds_only_loop:
  "charge_loop reg now s r i ms amt = Inr (res, t) \<Longrightarrow> inv_id i = n \<Longrightarrow> funds_only n s t"
proof (induction ms arbitrary: s)
  case (Cons m ms)
  then obtain res1 s1 where c: "charge_method reg now s r i m amt = Inr (res1, s1)"
    and "t = s1 \<or> charge_loop reg now s1 r i ms amt = Inr (res, t)" by (auto simp: ebind_Inr_iff split: if_splits)
  then show ?case using Cons.IH Cons.prems(2) funds_only_charge [OF c] by (blast intro: funds_only_trans)
qed simp

lemma funds_only_methods:
  "charge_methods reg now s r i ms amt = Inr (res, t) \<Longrightarrow> inv_id i = n \<Longrightarrow> funds_only n s t"
  by (auto simp: charge_methods_def ebind_Inr_iff split: if_splits intro: funds_only_loop funds_only_mark)

lemma funds_only_credit:
  assumes "apply_credit now s r i req = Inr (eo, t)" "inv_id i = n"
  shows "funds_only n s t"
proof -
  define a where "a = min (max 0 (cached_balance_cents (live_reseller s r))) req"
  show ?thesis
  proof (cases "a \<le> 0")
    case True
    with assms(1) show ?thesis by (simp add: apply_credit_def Let_def a_def [symmetric])
  next
    case False
    let ?p = "credit_payment now s i a"
    from False assms(1) obtain s1 e s2 i3 where p: "insert_payment s ?p = Inr s1"
      and d: "debit s1 (Some (r_id r)) a (credit_context s r i) False = Inr (e, s2)"
      and m: "mark_paid_if_fully_allocated now (save_payment (with_entry ?p e) s2) (inv_id i) = Inr (i3, t)"
      by (auto simp: apply_credit_def Let_def a_def [symmetric] ebind_Inr_iff)
    have "pay_invoice_id ?p = n" "pay_invoice_id (with_entry ?p e) = n" using assms(2) by (simp_all add: credit_payment_def with_entry_def)
    then have "funds_only n s s1" "funds_only n s1 s2" "funds_only n s2 (save_payment (with_entry ?p e) s2)"
      using funds_only_insert [OF p] funds_only_ledger [OF d [unfolded debit_exec]] funds_only_save_payment by simp_all
    then show ?thesis using funds_only_mark [OF m, of n] by (blast intro: funds_only_trans)
  qed
qed

lemma funds_only_rest:
  "fund_rest reg now s r i ms = Inr (res, t) \<Longrightarrow> inv_id i = n \<Longrightarrow> funds_only n s t"
  by (auto simp: fund_rest_def Let_def ebind_Inr_iff split: if_splits intro: funds_only_methods funds_only_mark)

lemma funds_only_after_credit:
  assumes "ebind (apply_credit now s r i req) (\<lambda>(_, s2). fund_rest reg now s2 r i ms) = Inr (res, t)" "inv_id i = n"
  shows "funds_only n s t"
proof -
  from assms(1) obtain e s2 where "apply_credit now s r i req = Inr (e, s2)" "fund_rest reg now s2 r i ms = Inr (res, t)"
    by (auto simp: ebind_Inr_iff)
  then show ?thesis using assms(2) by (blast intro: funds_only_credit funds_only_rest funds_only_trans)
qed

lemma funds_only_preference:
  assumes "fund_by_preference reg now s r i ms rem = Inr (res, t)" "inv_id i = n"
  shows "funds_only n s t"
proof (cases "charge_preference r = PAYMENT_FIRST")
  case False
  with assms show ?thesis by (intro funds_only_after_credit) (simp_all add: fund_by_preference_def)
next
  case True
  with assms(1) obtain first s1 where c: "charge_methods reg now s r i ms rem = Inr (first, s1)"
    and rest: "(if fr_funded first \<or> fr_pending_action first then Inr (first, s1)
      else ebind (apply_credit now s1 r i (fr_remaining_cents first)) (\<lambda>(_, s2). fund_rest reg now s2 r i ms)) = Inr (res, t)"
    by (auto simp: fund_by_preference_def ebind_Inr_iff)
  have "funds_only n s s1" using c assms(2) by (rule funds_only_methods)
  then show ?thesis using rest assms(2) by (cases "fr_funded first \<or> fr_pending_action first") (auto intro: funds_only_trans funds_only_after_credit)
qed

lemma funds_only_fund:
  assumes "fund_invoice reg now s rid n mid = Inr (res, t)"
  shows "funds_only n s t"
proof -
  from assms obtain r i where "lock_funding_rows s rid n = Inr (r, i)" by (auto simp: fund_invoice_def ebind_Inr_iff)
  then have "inv_id i = n" by (auto elim: lock_funding_rowsE)
  then show ?thesis using assms \<open>lock_funding_rows s rid n = Inr (r, i)\<close>
    by (auto simp: fund_invoice_def Let_def ebind_Inr_iff split: if_splits option.splits
        intro: funds_only_mark funds_only_methods funds_only_preference)
qed

section \<open>The invariant\<close>

definition cycle_core :: "billing_cycle \<Rightarrow> int \<times> int \<times> instant \<times> int option" where
  "cycle_core c = (bc_id c, bc_service_billing_id c, bc_due_at c, bc_invoice_id c)"

definition billing_core :: "service_billing \<Rightarrow> int \<times> int option \<times> int" where
  "billing_core b = (sb_id b, sb_reseller_id b, sb_service_id b)"

definition grace_ok :: "recurring_config \<Rightarrow> billing_cycle \<Rightarrow> bool" where
  "grace_ok cfg c \<longleftrightarrow> 0 \<le> bc_attempts c \<and> bc_grace_until c \<in> {None, Some (grace_end cfg c)}"

definition cycles_ok :: "recurring_config \<Rightarrow> store \<Rightarrow> bool" where
  "cycles_ok cfg s \<longleftrightarrow> distinct (map bc_id (billing_cycles s)) \<and>
     distinct (map (\<lambda>c. (bc_service_billing_id c, bc_due_at c)) (billing_cycles s)) \<and>
     unique_on bc_invoice_id (billing_cycles s) \<and> list_all (grace_ok cfg) (billing_cycles s) \<and>
     (\<forall>c \<in> set (billing_cycles s). \<forall>n. bc_invoice_id c = Some n \<longrightarrow> n \<in> inv_id ` set (invoices s)) \<and>
     distinct (map sb_id (service_billings s))"

definition recurring_ok :: "recurring_config \<Rightarrow> store \<Rightarrow> bool" where
  "recurring_ok cfg s \<longleftrightarrow> funding_ok s \<and> cycles_ok cfg s \<and>
     pay_invoice_id ` set (payments s) \<subseteq> inv_id ` set (invoices s)"

text \<open>Rows stay, and what identifies them and links them does not change.\<close>

definition same_rows :: "store \<Rightarrow> store \<Rightarrow> bool" where
  "same_rows s t \<longleftrightarrow> map cycle_core (billing_cycles t) = map cycle_core (billing_cycles s) \<and>
     map billing_core (service_billings t) = map billing_core (service_billings s) \<and>
     map r_id (resellers t) = map r_id (resellers s) \<and> map svc_id (services t) = map svc_id (services s) \<and>
     map inv_id (invoices t) = map inv_id (invoices s)"

lemma same_rows_refl [simp]: "same_rows s s"
  by (simp add: same_rows_def)

lemma same_rows_trans: "same_rows s t \<Longrightarrow> same_rows t u \<Longrightarrow> same_rows s u"
  by (simp add: same_rows_def)

definition tracked :: "store \<Rightarrow> billing_cycle \<Rightarrow> bool" where
  "tracked s c \<longleftrightarrow> cycle_core c \<in> cycle_core ` set (billing_cycles s)"

definition owned :: "store \<Rightarrow> service_billing \<Rightarrow> bool" where
  "owned s b \<longleftrightarrow> billing_core b \<in> billing_core ` set (service_billings s)"

lemma map_eq_image: "map f xs = map f ys \<Longrightarrow> f ` set xs = f ` set ys"
  by (metis list.set_map)

lemma sort_key_Cons: "sort_key f (filter P xs) = c # cs \<Longrightarrow> c \<in> set xs \<and> P c"
proof -
  assume "sort_key f (filter P xs) = c # cs"
  then have "c \<in> set (sort_key f (filter P xs))" by simp
  then show ?thesis by simp
qed

lemma same_rows_tracked: "same_rows s t \<Longrightarrow> tracked t c = tracked s c"
  by (auto simp: same_rows_def tracked_def dest!: map_eq_image)

lemma same_rows_owned: "same_rows s t \<Longrightarrow> owned t b = owned s b"
  by (auto simp: same_rows_def owned_def dest!: map_eq_image)

lemma funding_ok_cong:
  assumes "ledger t = ledger s" "resellers t = resellers s" "invoices t = invoices s" "invoice_sequence t = invoice_sequence s"
    "payments t = payments s" "outbox t = outbox s"
  shows "funding_ok_but E t = funding_ok_but E s"
proof -
  have "numbers_below t = numbers_below s" using assms by (intro numbers_below_cong) simp_all
  with assms show ?thesis
    by (simp add: funding_ok_but_def ledger_ok_def invoices_ok_def outbox_ok_def payments_ok_but_def allocated_cents_def)
qed

lemma put_row_core:
  assumes "distinct (map rid rs)" "core r \<in> core ` set rs" "\<And>x y. core x = core y \<Longrightarrow> rid x = rid y"
  shows "map core (put_row rid r rs) = map core rs"
proof -
  from assms(2) obtain r0 where r0: "r0 \<in> set rs" "core r0 = core r" by auto
  have "rid r0 = rid r" using r0(2) by (rule assms(3))
  then have "core (if rid x = rid r then r else x) = core x" if "x \<in> set rs" for x
    using r0 that assms(1) \<open>rid r0 = rid r\<close> by (auto simp: distinct_map inj_on_def)
  then show ?thesis by (simp add: put_row_def)
qed

lemma map_core_fields:
  "map cycle_core xs = map cycle_core ys \<Longrightarrow> map bc_id xs = map bc_id ys \<and>
     map (\<lambda>c. (bc_service_billing_id c, bc_due_at c)) xs = map (\<lambda>c. (bc_service_billing_id c, bc_due_at c)) ys \<and>
     map bc_invoice_id xs = map bc_invoice_id ys"
  by (induction xs ys rule: list_induct2') (auto simp: cycle_core_def)

lemma unique_on_cong: "map key xs = map key ys \<Longrightarrow> unique_on key xs = unique_on key ys"
  by (simp add: unique_on_def)

lemma map_billing_core: "map billing_core xs = map billing_core ys \<Longrightarrow> map sb_id xs = map sb_id ys"
  by (induction xs ys rule: list_induct2') (auto simp: billing_core_def)

text \<open>Rows that keep their identity and link keep the invariant of the cycles.\<close>

lemma cycles_ok_same_rows:
  assumes "cycles_ok cfg s" "same_rows s t" "list_all (grace_ok cfg) (billing_cycles t)"
  shows "cycles_ok cfg t"
proof -
  from assms(2) have m: "map cycle_core (billing_cycles t) = map cycle_core (billing_cycles s)" by (simp add: same_rows_def)
  note f = map_core_fields [OF m]
  have "bc_invoice_id ` set (billing_cycles t) = bc_invoice_id ` set (billing_cycles s)"
    using f by (intro map_eq_image) simp
  moreover have "inv_id ` set (invoices t) = inv_id ` set (invoices s)" using assms(2) by (auto simp: same_rows_def dest: map_eq_image)
  moreover have "map sb_id (service_billings t) = map sb_id (service_billings s)"
    using assms(2) by (intro map_billing_core) (simp add: same_rows_def)
  moreover have "unique_on bc_invoice_id (billing_cycles t) = unique_on bc_invoice_id (billing_cycles s)"
    using f by (intro unique_on_cong) simp
  moreover have "n \<in> inv_id ` set (invoices t)" if "c \<in> set (billing_cycles t)" "bc_invoice_id c = Some n" for c n
  proof -
    have "Some n \<in> bc_invoice_id ` set (billing_cycles s)" using that calculation(1) by force
    then show ?thesis using assms(1) calculation(2) by (force simp: cycles_ok_def)
  qed
  ultimately show ?thesis using assms(1,3) f by (simp add: cycles_ok_def)
qed

lemma save_cycle_ok:
  assumes "recurring_ok cfg s" "tracked s c" "grace_ok cfg c"
  shows "recurring_ok cfg (save_cycle c s) \<and> same_rows s (save_cycle c s)"
proof -
  have "map cycle_core (put_row bc_id c (billing_cycles s)) = map cycle_core (billing_cycles s)"
    using assms by (intro put_row_core) (auto simp: recurring_ok_def cycles_ok_def tracked_def cycle_core_def)
  then have r: "same_rows s (save_cycle c s)" by (simp add: same_rows_def save_cycle_def)
  have "list_all (grace_ok cfg) (billing_cycles (save_cycle c s))"
    using assms by (auto simp: save_cycle_def list_all_iff recurring_ok_def cycles_ok_def dest: set_put_row)
  then have "cycles_ok cfg (save_cycle c s)" using r assms(1) cycles_ok_same_rows [of cfg s "save_cycle c s"] by (simp add: recurring_ok_def)
  moreover have "funding_ok (save_cycle c s) = funding_ok s" by (rule funding_ok_cong) (simp_all add: save_cycle_def)
  ultimately show ?thesis using r assms(1) by (simp add: recurring_ok_def save_cycle_def)
qed

lemma save_billing_ok:
  assumes "recurring_ok cfg s" "owned s b"
  shows "recurring_ok cfg (save_billing b s) \<and> same_rows s (save_billing b s)"
proof -
  have "map billing_core (put_row sb_id b (service_billings s)) = map billing_core (service_billings s)"
    using assms by (intro put_row_core) (auto simp: recurring_ok_def cycles_ok_def owned_def billing_core_def)
  then have r: "same_rows s (save_billing b s)" by (simp add: same_rows_def save_billing_def)
  moreover have "funding_ok (save_billing b s) = funding_ok s" by (rule funding_ok_cong) (simp_all add: save_billing_def)
  ultimately show ?thesis using assms(1) cycles_ok_same_rows [of cfg s "save_billing b s"]
    by (auto simp: recurring_ok_def save_billing_def cycles_ok_def)
qed

lemma save_service_ok:
  "recurring_ok cfg s \<Longrightarrow> recurring_ok cfg (save_service v s) \<and> same_rows s (save_service v s)"
proof -
  assume "recurring_ok cfg s"
  moreover have "funding_ok (save_service v s) = funding_ok s" by (rule funding_ok_cong) (simp_all add: save_service_def)
  ultimately show ?thesis by (simp add: recurring_ok_def save_service_def cycles_ok_def same_rows_def)
qed

lemma save_reseller_ok:
  assumes "recurring_ok cfg s" "get_reseller s (r_id r) = Some r0" "cached_balance_cents r = cached_balance_cents r0"
  shows "recurring_ok cfg (save_reseller r s) \<and> same_rows s (save_reseller r s)"
proof -
  have f: "funding_ok s" using assms(1) by (simp add: recurring_ok_def)
  have n: "numbers_below (save_reseller r s) = numbers_below s" by (intro numbers_below_cong) (simp_all add: save_reseller_def)
  have "cached_balance_cents x = entry_total (r_id x) (ledger s)" if "x \<in> set (put_row r_id r (resellers s))" for x
    using put_row_memD [OF that] f assms(3) get_resellerD [OF assms(2)] by (auto simp: funding_ok_but_def ledger_ok_def)
  then have "funding_ok (save_reseller r s)" using f n
    by (simp add: funding_ok_but_def ledger_ok_def save_reseller_def invoices_ok_def outbox_ok_def payments_ok_but_def allocated_cents_def)
  then show ?thesis using assms(1) by (simp add: recurring_ok_def cycles_ok_def save_reseller_def same_rows_def)
qed

lemma same_invoices_ids: "same_invoices s t \<Longrightarrow> map inv_id (invoices t) = map inv_id (invoices s)"
proof -
  assume "same_invoices s t"
  then have "map inv_id (map invoice_core (invoices t)) = map inv_id (map invoice_core (invoices s))" by (simp add: same_invoices_def)
  moreover have "inv_id (invoice_core i) = inv_id i" for i by (simp add: invoice_core_def)
  ultimately show ?thesis by (simp add: comp_def)
qed

text \<open>Operations of the books keep the invariant when they keep the books and the rows.\<close>

lemma books_step:
  assumes ok: "recurring_ok cfg s" and f: "funding_ok t" "same_invoices s t" "funds_only n s t" and n: "n \<in> inv_id ` set (invoices s)"
  shows "recurring_ok cfg t \<and> same_rows s t"
proof -
  have ids: "map inv_id (invoices t) = map inv_id (invoices s)" using f(2) by (rule same_invoices_ids)
  then have i: "inv_id ` set (invoices t) = inv_id ` set (invoices s)" by (rule map_eq_image)
  have c: "billing_cycles t = billing_cycles s" "service_billings t = service_billings s" "services t = services s"
    using f(3) by (simp_all add: funds_only_def same_rest_def)
  then have r: "same_rows s t" using f(3) ids by (simp add: same_rows_def funds_only_def)
  have "cycles_ok cfg s" "list_all (grace_ok cfg) (billing_cycles t)" using ok c by (simp_all add: recurring_ok_def cycles_ok_def)
  then have "cycles_ok cfg t" using r cycles_ok_same_rows by blast
  moreover have "pay_invoice_id ` set (payments t) \<subseteq> inv_id ` set (invoices t)"
    using ok f(3) n unfolding i recurring_ok_def funds_only_def by blast
  ultimately show ?thesis using f(1) r by (simp add: recurring_ok_def)
qed

lemma notify_step:
  assumes "recurring_ok cfg s" "notify s r ev key d = Inr t"
  shows "recurring_ok cfg t \<and> same_rows s t"
proof -
  have f: "funding_ok s" using assms(1) by (simp add: recurring_ok_def)
  note k = notify_ok [OF f assms(2)]
  have eq: "billing_cycles t = billing_cycles s" "service_billings t = service_billings s" "services t = services s"
    using same_rest_notify [OF assms(2)] by (simp_all add: same_rest_def)
  then show ?thesis using assms(1) k by (simp add: recurring_ok_def cycles_ok_def same_rows_def)
qed

lemma save_invoice_ok:
  assumes "recurring_ok cfg s" "get_invoice s n = Some j" "invoice_core j' = invoice_core j" "inv_status j' \<noteq> PAID"
  shows "recurring_ok cfg (save_invoice j' s) \<and> same_rows s (save_invoice j' s)"
proof -
  have f: "funding_ok s" using assms(1) by (simp add: recurring_ok_def)
  note k = save_invoice_unpaid_ok [OF f assms(2-4)]
  have "map inv_id (invoices (save_invoice j' s)) = map inv_id (invoices s)" using k(2) by (rule same_invoices_ids)
  then show ?thesis using assms(1) k(1) map_eq_image [of inv_id "invoices (save_invoice j' s)" "invoices s"]
    by (auto simp: recurring_ok_def cycles_ok_def same_rows_def save_invoice_def)
qed

section \<open>Failures and holds\<close>

text \<open>
  One operation after another: each step leads from a store in which the invariant holds to such a
  store with the same rows.
\<close>

lemma step_trans:
  "recurring_ok cfg t \<and> same_rows s t \<Longrightarrow> (recurring_ok cfg t \<Longrightarrow> recurring_ok cfg u \<and> same_rows t u) \<Longrightarrow>
     recurring_ok cfg u \<and> same_rows s u"
  by (simp add: same_rows_def)

lemma hold_fields [simp]:
  "r_id (hold_for_nonpayment now r) = r_id r" "cached_balance_cents (hold_for_nonpayment now r) = cached_balance_cents r"
  "r_id (apply_hold now r) = r_id r" "cached_balance_cents (apply_hold now r) = cached_balance_cents r"
  "r_id (set_nonpayment_hold now r) = r_id r" "cached_balance_cents (set_nonpayment_hold now r) = cached_balance_cents r"
  "r_id (clear_hold now r) = r_id r" "cached_balance_cents (clear_hold now r) = cached_balance_cents r"
  by (simp_all add: hold_for_nonpayment_def apply_hold_def set_nonpayment_hold_def clear_hold_def)

lemma grace_end_cong: "bc_due_at c = bc_due_at c' \<Longrightarrow> grace_end cfg c = grace_end cfg c'"
  by (simp add: grace_end_def)

lemma failed_cycle_fields [simp]:
  "cycle_core (failed_cycle cfg c f) = cycle_core c" "bc_attempts (failed_cycle cfg c f) = bc_attempts c"
  "bc_id (failed_cycle cfg c f) = bc_id c" "bc_due_at (failed_cycle cfg c f) = bc_due_at c"
  by (simp_all add: failed_cycle_def cycle_core_def)

lemma failed_cycle_grace: "0 \<le> bc_attempts c \<Longrightarrow> grace_ok cfg (failed_cycle cfg c f)"
  by (simp add: grace_ok_def failed_cycle_def grace_end_def)

lemma the_or_raise_Inr: "the_or_raise a r = Inr x \<longleftrightarrow> r = Some x"
  by (cases r) (simp_all add: the_or_raise_def)

lemma reload_Inr: "reload r = Inr x \<longleftrightarrow> r = Some x"
  by (cases r) (simp_all add: reload_def)

lemma billing_resellerD: "billing_reseller s b = Some r \<Longrightarrow> get_reseller s (r_id r) = Some r"
  by (auto simp: billing_reseller_def split: option.splits dest: get_resellerD)

lemma cycle_invoiceD: "cycle_invoice s c = Some i \<Longrightarrow> get_invoice s (inv_id i) = Some i \<and> bc_invoice_id c = Some (inv_id i)"
  by (auto simp: cycle_invoice_def split: option.splits dest: get_invoiceD)

text \<open>The rows a failed or pending attempt writes.\<close>

lemma save_rows_ok:
  assumes ok: "recurring_ok cfg s" and c: "tracked s c" "grace_ok cfg c" and b: "owned s b"
    and r: "get_reseller s (r_id r) = Some r0" "cached_balance_cents r = cached_balance_cents r0"
  shows "recurring_ok cfg (save_reseller r (save_billing b (save_cycle c s))) \<and>
    same_rows s (save_reseller r (save_billing b (save_cycle c s)))"
proof -
  let ?s1 = "save_cycle c s" and ?s2 = "save_billing b (save_cycle c s)"
  have 1: "recurring_ok cfg ?s1" "same_rows s ?s1" using save_cycle_ok [OF ok c] by auto
  have "owned ?s1 b" using b same_rows_owned [OF 1(2)] by simp
  then have 2: "recurring_ok cfg ?s2" "same_rows ?s1 ?s2" using save_billing_ok [OF 1(1)] by auto
  have "get_reseller ?s2 (r_id r) = Some r0" using r(1) by (simp add: get_reseller_def save_billing_def save_cycle_def)
  from save_reseller_ok [OF 2(1) this r(2)] 1(2) 2(2) show ?thesis by (blast intro: same_rows_trans)
qed

lemma notify_failure_step:
  assumes "recurring_ok cfg s" "notify_failure env s r b c = Inr t"
  shows "recurring_ok cfg t \<and> same_rows s t"
proof -
  from assms(2) obtain s1 key d where n: "notify s r ''cycle_charge_failed'' key d = Inr s1"
    and r: "t = s1 \<or> (\<exists>k d. notify s1 r ''grace_warning'' k d = Inr t)"
    unfolding notify_failure_def Let_def ebind_Inr_iff by (metis Inr_inject)
  show ?thesis
    by (rule step_trans [OF notify_step [OF assms(1) n]]) (use r notify_step [of cfg s1] in auto)
qed

lemma failure_rows_step:
  assumes ok: "recurring_ok cfg s" and c: "tracked s c" "grace_ok cfg c" and b: "owned s b"
    and i: "get_invoice s (inv_id i) = Some i" and r: "get_reseller s (r_id r) = Some r"
  shows "recurring_ok cfg (failure_rows now s b c i r) \<and> same_rows s (failure_rows now s b c i r)"
proof -
  let ?s1 = "save_cycle c s" and ?s2 = "save_invoice (overdue_invoice i) (save_cycle c s)"
  have 1: "recurring_ok cfg ?s1" "same_rows s ?s1" using save_cycle_ok [OF ok c] by auto
  have "get_invoice ?s1 (inv_id i) = Some i" using i by (simp add: get_invoice_def save_cycle_def)
  then have 2: "recurring_ok cfg ?s2" "same_rows ?s1 ?s2"
    using save_invoice_ok [OF 1(1), of "inv_id i" i "overdue_invoice i"] by (auto simp: invoice_core_def overdue_invoice_def)
  have "owned ?s2 b" using b same_rows_owned [OF same_rows_trans [OF 1(2) 2(2)]] by simp
  then have 3: "recurring_ok cfg (save_billing b ?s2)" "same_rows ?s2 (save_billing b ?s2)" using save_billing_ok [OF 2(1)] by auto
  have "get_reseller (save_billing b ?s2) (r_id (apply_hold now r)) = Some r"
    using r by (simp add: get_reseller_def save_billing_def save_invoice_def save_cycle_def)
  from save_reseller_ok [OF 3(1) this] 1(2) 2(2) 3(2) show ?thesis
    unfolding failure_rows_def by (auto intro: same_rows_trans)
qed

lemma counted_fields [simp]:
  "cycle_core (counted now incr c) = cycle_core c" "bc_id (counted now incr c) = bc_id c" "bc_due_at (counted now incr c) = bc_due_at c"
  "bc_grace_until (counted now incr c) = bc_grace_until c" "bc_invoice_id (counted now incr c) = bc_invoice_id c"
  "bc_attempts (counted now incr c) = bc_attempts c + (if incr then 1 else 0)"
  by (simp_all add: counted_def cycle_core_def)

lemma owned_cong: "billing_core b' = billing_core b \<Longrightarrow> owned s b' = owned s b"
  by (simp add: owned_def)

lemma tracked_cong: "cycle_core c' = cycle_core c \<Longrightarrow> tracked s c' = tracked s c"
  by (simp add: tracked_def)

lemma billing_core_update [simp]:
  "billing_core (failed_billing b c) = billing_core b" "billing_core (pending_billing b c) = billing_core b"
  "billing_core (outside_suspension b) = billing_core b" "billing_core (paid_billing c b) = billing_core b"
  by (simp_all add: billing_core_def failed_billing_def pending_billing_def outside_suspension_def paid_billing_def Let_def)

lemma record_failure_step:
  assumes ok: "recurring_ok cfg s" and c: "tracked s c" "0 \<le> bc_attempts c" and b: "owned s b"
    and rf: "record_failure cfg env now s b c code message incr = Inr t"
  shows "recurring_ok cfg t \<and> same_rows s t"
proof -
  define c2 where "c2 = failed_cycle cfg (counted now incr c) (last_safe_failure s (bc_invoice_id c) code message)"
  from rf obtain i r where i: "cycle_invoice s c = Some i" and r: "billing_reseller s b = Some r"
    and n: "notify_failure env (failure_rows now s (failed_billing b c2) c2 i r) (apply_hold now r) (failed_billing b c2) c2 = Inr t"
    unfolding record_failure_def Let_def c2_def [symmetric] by (auto simp: ebind_Inr_iff the_or_raise_Inr)
  have "tracked s c2" using c(1) by (simp add: c2_def tracked_def)
  moreover have "grace_ok cfg c2" using c(2) unfolding c2_def by (intro failed_cycle_grace) simp
  moreover have "owned s (failed_billing b c2)" using b by (simp add: owned_def)
  ultimately have k: "recurring_ok cfg (failure_rows now s (failed_billing b c2) c2 i r) \<and> same_rows s (failure_rows now s (failed_billing b c2) c2 i r)"
    using cycle_invoiceD [OF i] billing_resellerD [OF r] by (intro failure_rows_step [OF ok]) simp_all
  then show ?thesis by (rule step_trans) (rule notify_failure_step [OF _ n])
qed

lemma record_pending_action_step:
  assumes ok: "recurring_ok cfg s" and c: "tracked s c" "0 \<le> bc_attempts c" and b: "owned s b"
    and rp: "record_pending_action cfg env now s b c = Inr t"
  shows "recurring_ok cfg t \<and> same_rows s t"
proof -
  let ?c = "pending_cycle cfg c" and ?b = "pending_billing b (pending_cycle cfg c)"
  from rp obtain r key d where r: "billing_reseller s b = Some r"
    and n: "notify (save_reseller (apply_hold now r) (save_billing ?b (save_cycle ?c s))) (apply_hold now r) ''payment_action_required'' key d = Inr t"
    unfolding record_pending_action_def Let_def by (auto simp: ebind_Inr_iff the_or_raise_Inr)
  have "tracked s ?c" using c(1) by (simp add: tracked_def pending_cycle_def cycle_core_def)
  moreover have "grace_ok cfg ?c" using c(2) by (simp add: grace_ok_def pending_cycle_def grace_end_def)
  moreover have "owned s ?b" using b by (simp add: owned_def)
  ultimately have "recurring_ok cfg (save_reseller (apply_hold now r) (save_billing ?b (save_cycle ?c s))) \<and>
      same_rows s (save_reseller (apply_hold now r) (save_billing ?b (save_cycle ?c s)))"
    using billing_resellerD [OF r] by (intro save_rows_ok [OF ok]) simp_all
  then show ?thesis by (rule step_trans) (rule notify_step [OF _ n])
qed

section \<open>Suspension\<close>

lemma suspend_step:
  assumes "recurring_ok cfg s" "suspend env s v = Inr (ch, t)"
  shows "recurring_ok cfg t \<and> same_rows s t"
  using assms(2)
proof (cases rule: suspendE)
  case act
  then show ?thesis using save_service_ok [OF assms(1)] by simp
qed (use assms(1) in simp)

lemma unsuspend_step:
  "recurring_ok cfg s \<Longrightarrow> recurring_ok cfg (snd (unsuspend s v)) \<and> same_rows s (snd (unsuspend s v))"
  using save_service_ok by (simp add: unsuspend_def)

lemma mark_suspended_step:
  assumes ok: "recurring_ok cfg s" and b: "owned s b" and m: "mark_suspended env s b c = Inr t"
  shows "recurring_ok cfg t \<and> same_rows s t"
proof -
  let ?b = "b\<lparr>sb_status := SUSPENDED_NONPAYMENT, sb_next_retry_at := None\<rparr>"
  from m obtain r key d where n: "notify (save_billing ?b s) r ''service_suspended'' key d = Inr t"
    unfolding mark_suspended_def Let_def ebind_Inr_iff by blast
  have "owned s ?b" using b by (simp add: owned_def billing_core_def)
  from save_billing_ok [OF ok this] show ?thesis by (rule step_trans) (rule notify_step [OF _ n])
qed

lemma suspend_billing_rowE:
  assumes "suspend_billing_row env s b c = Inr ((marked, failed), t)"
  obtains (skip) "t = s" "\<not> marked"
  | (suspended) v ch where "get_service s (sb_service_id b) = Some v" "suspend (rb_lifecycle env) s v = Inr (ch, t)" "\<not> marked" "\<not> ch"
  | (marked) v ch s1 where "get_service s (sb_service_id b) = Some v" "suspend (rb_lifecycle env) s v = Inr (ch, s1)"
      "ch \<or> sb_status b = SUSPENDED_NONPAYMENT" "mark_suspended env s1 b c = Inr t" "marked" "\<not> failed"
proof (cases "get_service s (sb_service_id b)")
  case None
  with assms show thesis by (intro skip) (simp_all add: suspend_billing_row_def)
next
  case (Some v)
  show thesis
  proof (cases "svc_status v = SVC_TERMINATED")
    case True
    with Some assms show thesis by (intro skip) (simp_all add: suspend_billing_row_def)
  next
    case False
    show thesis
    proof (cases "suspend (rb_lifecycle env) s v")
      case (Inl e)
      with Some False assms show thesis by (intro skip) (auto simp: suspend_billing_row_def split: if_splits)
    next
      case (Inr x)
      obtain ch s1 where x: "x = (ch, s1)" by (cases x)
      show thesis
      proof (cases "ch \<or> sb_status b = SUSPENDED_NONPAYMENT")
        case True
        with Some False Inr x assms have "mark_suspended env s1 b c = Inr t" "marked" "\<not> failed"
          by (auto simp: suspend_billing_row_def ebind_Inr_iff)
        with Some Inr x True show thesis by (intro marked) simp_all
      next
        case no: False
        with Some False Inr x assms have "t = s1" "\<not> marked" by (auto simp: suspend_billing_row_def)
        with Some Inr x no show thesis by (intro suspended) simp_all
      qed
    qed
  qed
qed

lemma suspend_billing_row_step:
  assumes ok: "recurring_ok cfg s" and b: "owned s b" and sr: "suspend_billing_row env s b c = Inr (res, t)"
  shows "recurring_ok cfg t \<and> same_rows s t"
proof -
  obtain mk fl where "res = (mk, fl)" by (cases res)
  with sr have "suspend_billing_row env s b c = Inr ((mk, fl), t)" by simp
  then show ?thesis
  proof (cases rule: suspend_billing_rowE)
    case skip
    then show ?thesis using ok by simp
  next
    case (suspended v ch)
    then show ?thesis using suspend_step [OF ok] by simp
  next
    case (marked v ch s1)
    have 1: "recurring_ok cfg s1 \<and> same_rows s s1" using suspend_step [OF ok marked(2)] .
    then have "owned s1 b" using b same_rows_owned by blast
    then show ?thesis using mark_suspended_step [OF _ _ marked(4)] by (intro step_trans [OF 1]) blast
  qed
qed

lemma suspend_rows_step:
  "recurring_ok cfg s \<Longrightarrow> list_all (owned s) bs \<Longrightarrow> suspend_rows env s n c bs x y = Inr (res, t) \<Longrightarrow>
     recurring_ok cfg t \<and> same_rows s t"
proof (induction bs arbitrary: s x y)
  case (Cons b bs)
  then obtain mk fl s1 where r: "suspend_billing_row env s b c = Inr ((mk, fl), s1)"
    and rest: "suspend_rows env s1 n c bs (x \<or> (sb_id b = n \<and> mk)) (y \<or> fl) = Inr (res, t)"
    by (auto simp: ebind_Inr_iff)
  have 1: "recurring_ok cfg s1 \<and> same_rows s s1" using Cons.prems r by (intro suspend_billing_row_step) auto
  then have "list_all (owned s1) bs" using Cons.prems(2) same_rows_owned [of s s1] by (simp add: list_all_iff)
  then show ?case using Cons.IH [OF _ _ rest] by (intro step_trans [OF 1]) blast
qed simp

lemma owned_member: "b \<in> set (service_billings s) \<Longrightarrow> owned s b"
  by (simp add: owned_def)

lemma tracked_member: "c \<in> set (billing_cycles s) \<Longrightarrow> tracked s c"
  by (simp add: tracked_def)

lemma owned_live: "owned s b \<Longrightarrow> owned s (live_billing s b)"
  by (auto simp: live_billing_def get_billing_def split: option.splits dest: get_row_SomeD intro: owned_member)

lemma suspension_rows_owned: "suspension_rows s b = Inr bs \<Longrightarrow> owned s b \<Longrightarrow> list_all (owned s) bs"
  by (auto simp: suspension_rows_def ebind_Inr_iff list_all_iff split: if_splits intro: owned_member)

lemma record_suspension_step:
  assumes ok: "recurring_ok cfg s" and c: "tracked s c" "grace_ok cfg c" and b: "owned s b"
    and rs: "record_suspension now s b c x = Inr t"
  shows "recurring_ok cfg t \<and> same_rows s t"
proof -
  let ?s1 = "if x then s else save_billing (outside_suspension b) s"
  let ?c = "suspended_cycle now x c"
  from rs obtain r where r: "billing_reseller (save_cycle ?c ?s1) b = Some r"
    and t: "t = save_reseller (set_nonpayment_hold now r) (save_cycle ?c ?s1)"
    by (auto simp: record_suspension_def Let_def ebind_Inr_iff the_or_raise_Inr)
  have "owned s (outside_suspension b)" using b by (simp add: owned_def)
  then have 1: "recurring_ok cfg ?s1 \<and> same_rows s ?s1" using save_billing_ok [OF ok] ok by simp
  have "tracked ?s1 ?c" using c(1) 1 same_rows_tracked [of s ?s1]
    by (simp add: tracked_def suspended_cycle_def cycle_core_def Let_def)
  moreover have "grace_ok cfg ?c" using c(2) by (simp add: grace_ok_def suspended_cycle_def grace_end_def Let_def)
  ultimately have 2: "recurring_ok cfg (save_cycle ?c ?s1) \<and> same_rows s (save_cycle ?c ?s1)"
    by (intro step_trans [OF 1] save_cycle_ok)
  have "get_reseller (save_cycle ?c ?s1) (r_id (set_nonpayment_hold now r)) = Some r" using billing_resellerD [OF r] by simp
  then show ?thesis unfolding t by (intro step_trans [OF 2]) (simp add: save_reseller_ok)
qed

lemma record_suspension_failure_step:
  assumes ok: "recurring_ok cfg s" and c: "tracked s c" "grace_ok cfg c" and b: "owned s b"
  shows "recurring_ok cfg (record_suspension_failure now s b c) \<and> same_rows s (record_suspension_failure now s b c)"
proof -
  define c2 where "c2 = c\<lparr>bc_state := GRACE, bc_next_retry_at := Some (now + hours 1),
    bc_failure_code := Some ''lifecycle_suspend_failed'', bc_failure_message := Some ''Service suspension could not be completed''\<rparr>"
  have "tracked s c2" "grace_ok cfg c2" using c by (simp_all add: c2_def tracked_def cycle_core_def grace_ok_def grace_end_def)
  from save_cycle_ok [OF ok this] have 1: "recurring_ok cfg (save_cycle c2 s) \<and> same_rows s (save_cycle c2 s)" .
  then have "owned (save_cycle c2 s) (b\<lparr>sb_next_retry_at := bc_next_retry_at c2\<rparr>)"
    using b same_rows_owned [of s "save_cycle c2 s" b] by (simp add: owned_def billing_core_def)
  then show ?thesis unfolding record_suspension_failure_def Let_def c2_def [symmetric]
    by (intro step_trans [OF 1] save_billing_ok)
qed

lemma suspend_for_nonpayment_step:
  assumes ok: "recurring_ok cfg s" and c: "tracked s c" "grace_ok cfg c" and b: "owned s b"
    and sn: "suspend_for_nonpayment env now s b c = Inr (x, t)"
  shows "recurring_ok cfg t \<and> same_rows s t"
proof -
  from sn obtain rows ts lf s1 where rows: "suspension_rows s b = Inr rows"
    and sr: "suspend_rows env s (sb_id b) c rows False False = Inr ((ts, lf), s1)"
    and "(if lf \<and> \<not> ts then Inr (False, record_suspension_failure now s1 (live_billing s1 b) c)
        else ebind (record_suspension now s1 (live_billing s1 b) c ts) (\<lambda>s2. Inr (ts, s2))) = Inr (x, t)"
    by (auto simp: suspend_for_nonpayment_def Let_def ebind_Inr_iff simp del: if_split_eq1 if_split_eq2)
  then have rest: "t = record_suspension_failure now s1 (live_billing s1 b) c \<or> (\<exists>x. record_suspension now s1 (live_billing s1 b) c x = Inr t)"
    by (auto simp: ebind_Inr_iff split: if_splits)
  have 1: "recurring_ok cfg s1 \<and> same_rows s s1" using ok suspension_rows_owned [OF rows b] sr by (rule suspend_rows_step)
  then have "tracked s1 c" "owned s1 (live_billing s1 b)" using c(1) b same_rows_tracked same_rows_owned owned_live by blast+
  then show ?thesis using rest record_suspension_step [OF _ _ c(2)] record_suspension_failure_step [OF _ _ c(2)]
    by (intro step_trans [OF 1]) blast
qed

lemma suspension_outcome_step:
  assumes "recurring_ok cfg s" "tracked s c" "grace_ok cfg c" "owned s b" "suspension_outcome cfg env now s b c = Inr (x, t)"
  shows "recurring_ok cfg t \<and> same_rows s t"
  using assms suspend_for_nonpayment_step [OF assms(1-4)]
  by (auto simp: suspension_outcome_def ebind_Inr_iff split: if_splits)

section \<open>Payment and recovery\<close>

lemma resume_service_step:
  assumes "recurring_ok cfg s" "resume_service s b = Inr t"
  shows "recurring_ok cfg t \<and> same_rows s t"
  using assms unsuspend_step [OF assms(1)]
  by (auto simp: resume_service_def ebind_Inr_iff split: if_splits)

lemma restore_rows_step:
  "recurring_ok cfg s \<Longrightarrow> list_all (owned s) bs \<Longrightarrow> restore_rows s bs = Inr t \<Longrightarrow> recurring_ok cfg t \<and> same_rows s t"
proof (induction bs arbitrary: s)
  case (Cons b bs)
  from Cons.prems(3) obtain v where v: "get_service s (sb_service_id b) = Some v"
    and rest: "restore_rows (save_billing (b\<lparr>sb_status := SB_ACTIVE\<rparr>) (if svc_status v = SVC_SUSPENDED then snd (unsuspend s v) else s)) bs = Inr t"
    by (auto simp: ebind_Inr_iff the_or_raise_Inr Let_def)
  let ?s1 = "if svc_status v = SVC_SUSPENDED then snd (unsuspend s v) else s"
  have 1: "recurring_ok cfg ?s1 \<and> same_rows s ?s1" using Cons.prems(1) unsuspend_step by simp
  have "owned ?s1 (b\<lparr>sb_status := SB_ACTIVE\<rparr>)" using Cons.prems(2) 1 same_rows_owned [of s ?s1 b]
    by (simp add: owned_def billing_core_def)
  then have 2: "recurring_ok cfg (save_billing (b\<lparr>sb_status := SB_ACTIVE\<rparr>) ?s1) \<and> same_rows s (save_billing (b\<lparr>sb_status := SB_ACTIVE\<rparr>) ?s1)"
    by (intro step_trans [OF 1] save_billing_ok)
  then have "list_all (owned (save_billing (b\<lparr>sb_status := SB_ACTIVE\<rparr>) ?s1)) bs"
    using Cons.prems(2) same_rows_owned [of s "save_billing (b\<lparr>sb_status := SB_ACTIVE\<rparr>) ?s1"] by (simp add: list_all_iff)
  then show ?case using Cons.IH [OF _ _ rest] by (intro step_trans [OF 2]) blast
qed simp

lemma restore_rows_resellers: "restore_rows s bs = Inr t \<Longrightarrow> resellers t = resellers s"
proof (induction bs arbitrary: s)
  case (Cons b bs)
  then show ?case by (fastforce simp: ebind_Inr_iff Let_def save_billing_def save_service_def unsuspend_def split: if_splits)
qed simp

lemma restore_reseller_step:
  assumes ok: "recurring_ok cfg s" and r: "get_reseller s (r_id r) = Some r" and rr: "restore_reseller now s r n = Inr t"
  shows "recurring_ok cfg t \<and> same_rows s t"
proof (cases "has_overdue_cycles s (r_id r) n")
  case True
  with rr ok show ?thesis by (simp add: restore_reseller_def)
next
  case False
  with rr obtain s1 where c: "restore_cascade s (r_id r) = Inr s1" and t: "t = save_reseller (clear_hold now r) s1"
    by (auto simp: restore_reseller_def ebind_Inr_iff)
  have 1: "recurring_ok cfg s1 \<and> same_rows s s1"
    using c unfolding restore_cascade_def by (intro restore_rows_step [OF ok]) (auto simp: list_all_iff intro: owned_member)
  have "resellers s1 = resellers s" using c unfolding restore_cascade_def by (rule restore_rows_resellers)
  then have "get_reseller s1 (r_id (clear_hold now r)) = Some r" using r by (simp add: get_reseller_def)
  then show ?thesis unfolding t by (intro step_trans [OF 1]) (simp add: save_reseller_ok)
qed

lemma notify_recovery_step:
  assumes "recurring_ok cfg s" "notify_recovery env s r x b c = Inr t"
  shows "recurring_ok cfg t \<and> same_rows s t"
  using assms notify_step [OF assms(1)] by (auto simp: notify_recovery_def split: if_splits)

lemma complete_paid_cycleE:
  assumes "complete_paid_cycle env now s c = Inr t"
  obtains b i r s1 s2 where "get_billing s (bc_service_billing_id c) = Some b" "cycle_invoice s c = Some i"
    "resume_service (save_billing (paid_billing (paid_cycle now i c) b) (save_cycle (paid_cycle now i c) s)) b = Inr s1"
    "billing_reseller s1 b = Some r" "restore_reseller now s1 r (bc_id c) = Inr s2"
    "notify_recovery env s2 r (is_recovery c b) (paid_billing (paid_cycle now i c) b) (paid_cycle now i c) = Inr t"
  using assms unfolding complete_paid_cycle_def Let_def by (auto simp: ebind_Inr_iff the_or_raise_Inr)

lemma paid_cycle_fields [simp]:
  "cycle_core (paid_cycle now i c) = cycle_core c" "bc_id (paid_cycle now i c) = bc_id c" "bc_due_at (paid_cycle now i c) = bc_due_at c"
  "bc_state (paid_cycle now i c) = CYCLE_PAID" "bc_attempts (paid_cycle now i c) = bc_attempts c"
  "bc_grace_until (paid_cycle now i c) = bc_grace_until c"
  by (simp_all add: paid_cycle_def cycle_core_def)

lemma grace_ok_paid: "grace_ok cfg c \<Longrightarrow> grace_ok cfg (paid_cycle now i c)"
  by (simp add: grace_ok_def grace_end_def)

lemma complete_paid_cycle_step:
  assumes ok: "recurring_ok cfg s" and c: "tracked s c" "grace_ok cfg c" and cp: "complete_paid_cycle env now s c = Inr t"
  shows "recurring_ok cfg t \<and> same_rows s t"
  using cp
proof (rule complete_paid_cycleE)
  fix b i r s1 s2
  let ?c = "paid_cycle now i c" and ?b = "paid_billing (paid_cycle now i c) b"
  assume b: "get_billing s (bc_service_billing_id c) = Some b"
    and rs: "resume_service (save_billing ?b (save_cycle ?c s)) b = Inr s1"
    and r: "billing_reseller s1 b = Some r" and rr: "restore_reseller now s1 r (bc_id c) = Inr s2"
    and n: "notify_recovery env s2 r (is_recovery c b) ?b ?c = Inr t"
  have 1: "recurring_ok cfg (save_cycle ?c s) \<and> same_rows s (save_cycle ?c s)"
    using c by (intro save_cycle_ok [OF ok]) (simp_all add: tracked_def grace_ok_paid)
  have "owned (save_cycle ?c s) ?b"
    using b by (auto simp: get_billing_def owned_def save_cycle_def dest: get_row_SomeD)
  then have 2: "recurring_ok cfg (save_billing ?b (save_cycle ?c s)) \<and> same_rows s (save_billing ?b (save_cycle ?c s))"
    by (intro step_trans [OF 1] save_billing_ok)
  have 3: "recurring_ok cfg s1 \<and> same_rows s s1" by (rule step_trans [OF 2]) (rule resume_service_step [OF _ rs])
  have 4: "recurring_ok cfg s2 \<and> same_rows s s2"
    by (rule step_trans [OF 3]) (rule restore_reseller_step [OF _ billing_resellerD [OF r] rr])
  show ?thesis by (rule step_trans [OF 4]) (rule notify_recovery_step [OF _ n])
qed

lemma fund_cycle_step:
  assumes ok: "recurring_ok cfg s" and f: "fund_cycle env s b c = Inr (res, t)"
  shows "recurring_ok cfg t \<and> same_rows s t"
proof -
  from f obtain r :: reseller and i where i: "cycle_invoice s c = Some i"
    and fi: "fund_invoice (rb_gateways env) (fund_time env (bc_id c)) s (r_id r) (inv_id i) None = Inr (res, t)"
    unfolding fund_cycle_def ebind_Inr_iff the_or_raise_Inr by blast
  have fo: "funding_ok s" using ok by (simp add: recurring_ok_def)
  have "funding_ok t" "same_invoices s t" using fund_invoice_post [OF fo fi] by (auto simp: funding_post_def)
  moreover have "inv_id i \<in> inv_id ` set (invoices s)" using cycle_invoiceD [OF i] by (auto dest: get_invoiceD)
  ultimately show ?thesis using funds_only_fund [OF fi] by (intro books_step [OF ok]) auto
qed

lemma mark_paid_step:
  assumes ok: "recurring_ok cfg s" and m: "mark_paid_if_fully_allocated now s n = Inr (i, t)"
  shows "recurring_ok cfg t \<and> same_rows s t"
proof -
  have fo: "funding_ok s" using ok by (simp add: recurring_ok_def)
  note k = mark_paid_ok [OF fo _ m]
  have "n \<in> inv_id ` set (invoices s)" using m
    by (auto simp: mark_paid_if_fully_allocated_def Let_def split: option.splits if_splits dest!: get_invoiceD)
  then show ?thesis using k(1,2) funds_only_mark [OF m] by (intro books_step [OF ok]) auto
qed

lemma settle_attemptE:
  assumes "settle_attempt cfg env now s b c funding = Inr (out, t)"
  obtains (paid) n i s1 where "fr_funded funding" "out = Paid" "bc_invoice_id c = Some n"
      "mark_paid_if_fully_allocated (fund_time env (bc_id c)) s n = Inr (i, s1)"
      "complete_paid_cycle env now s1 ((counted now True c)\<lparr>bc_claim_token := None, bc_claim_expires_at := None\<rparr>) = Inr t"
  | (pending) "\<not> fr_funded funding" "out = Pending_Action"
      "record_pending_action cfg env now s b ((counted now True c)\<lparr>bc_claim_token := None, bc_claim_expires_at := None\<rparr>) = Inr t"
  | (failed) "\<not> fr_funded funding" "out = Failed"
      "record_failure cfg env now s b ((counted now True c)\<lparr>bc_claim_token := None, bc_claim_expires_at := None\<rparr>) None None False = Inr t"
  using assms unfolding settle_attempt_def Let_def
  by (auto simp: ebind_Inr_iff the_or_raise_Inr split: if_splits)

lemma settle_attempt_step:
  assumes ok: "recurring_ok cfg s" and c: "tracked s c" "grace_ok cfg c" and b: "owned s b"
    and st: "settle_attempt cfg env now s b c funding = Inr (out, t)"
  shows "recurring_ok cfg t \<and> same_rows s t"
proof -
  let ?c = "(counted now True c)\<lparr>bc_claim_token := None, bc_claim_expires_at := None\<rparr>"
  have tc: "tracked s ?c" using c(1) by (simp add: tracked_def cycle_core_def counted_def)
  have gc: "grace_ok cfg ?c" "0 \<le> bc_attempts ?c" using c(2) by (simp_all add: grace_ok_def grace_end_def)
  from st show ?thesis
  proof (cases rule: settle_attemptE)
    case (paid n i s1)
    have 1: "recurring_ok cfg s1 \<and> same_rows s s1" using mark_paid_step [OF ok paid(4)] .
    then have "tracked s1 ?c" using tc same_rows_tracked by blast
    then show ?thesis by (intro step_trans [OF 1]) (rule complete_paid_cycle_step [OF _ _ gc(1) paid(5)])
  next
    case pending
    then show ?thesis using record_pending_action_step [OF ok tc gc(2) b] by blast
  next
    case failed
    then show ?thesis using record_failure_step [OF ok tc gc(2) b] by blast
  qed
qed

section \<open>Opening a cycle\<close>

text \<open>A new cycle is the only row recurring billing adds to its tables, besides the invoice.\<close>

definition opens :: "recurring_config \<Rightarrow> store \<Rightarrow> store \<Rightarrow> billing_cycle \<Rightarrow> bool" where
  "opens cfg s t c \<longleftrightarrow> recurring_ok cfg t \<and> tracked t c \<and> grace_ok cfg c \<and>
     map billing_core (service_billings t) = map billing_core (service_billings s) \<and>
     resellers t = resellers s \<and> services t = services s \<and> bc_service_billing_id c \<in> sb_id ` set (service_billings s) \<and>
     set (map cycle_core (billing_cycles t)) = insert (cycle_core c) (set (map cycle_core (billing_cycles s)))"

lemma create_cycle_books:
  assumes ok: "recurring_ok cfg s" and c: "create_cycle dia now s rid sid amt desc due cur = Inr (i, t)"
  shows "recurring_ok cfg t" "inv_id i = fresh_id inv_id (invoices s)" "invoices t = invoices s @ [i]"
    "billing_cycles t = billing_cycles s" "service_billings t = service_billings s" "resellers t = resellers s" "services t = services s"
proof -
  from c obtain q where q: "create_invoice dia s q = Inr (i, t)" by (auto simp: create_cycle_def)
  note k = create_invoice_Inr [OF q]
  show "inv_id i = fresh_id inv_id (invoices s)" by (rule k(3))
  show fr: "invoices t = invoices s @ [i]" "billing_cycles t = billing_cycles s" "service_billings t = service_billings s"
    "resellers t = resellers s" "services t = services s" by (simp_all add: k(1))
  have rest: "payments t = payments s" "ledger t = ledger s" "outbox t = outbox s" by (simp_all add: k(1))
  have "invoices_ok t" using ok create_invoice_ok [OF _ q] by (simp add: recurring_ok_def funding_ok_but_def)
  moreover have "allocated_cents t (inv_id i) = 0"
  proof -
    have "inv_id i \<notin> inv_id ` set (invoices s)" using k(3) fresh_id_notin by simp
    then have "filter (\<lambda>p. pay_invoice_id p = inv_id i \<and> pay_status p = SUCCEEDED) (payments s) = []"
      using ok unfolding recurring_ok_def filter_empty_conv by (metis image_subset_iff)
    then show ?thesis by (simp add: allocated_cents_def rest)
  qed
  moreover have "allocated_cents t n = allocated_cents s n" for n by (simp add: allocated_cents_def rest)
  moreover have "payments_ok s" "ledger_ok s" "outbox_ok s" "cycles_ok cfg s" "pay_invoice_id ` set (payments s) \<subseteq> inv_id ` set (invoices s)"
    using ok by (simp_all add: recurring_ok_def funding_ok_but_def)
  moreover have "payments_ok t" using calculation k(4,6) by (simp add: payments_ok_but_def fr rest)
  moreover have "ledger_ok t" "outbox_ok t" using calculation by (simp_all add: ledger_ok_def outbox_ok_def fr rest)
  moreover have "cycles_ok cfg t" using calculation by (auto simp: cycles_ok_def fr)
  ultimately show "recurring_ok cfg t" by (auto simp: recurring_ok_def funding_ok_but_def fr rest)
qed

lemma unique_on_map_filter:
  "unique_on key rs \<longleftrightarrow> distinct (map (\<lambda>r. the (key r)) (filter (\<lambda>r. key r \<noteq> None) rs))"
  by (simp add: unique_on_def filter_map comp_def)

lemma insert_cycle_ok:
  assumes ok: "recurring_ok cfg s" and i: "insert_cycle s c = Inr t" and c: "bc_id c = fresh_id bc_id (billing_cycles s)"
    "grace_ok cfg c" "bc_invoice_id c = None"
  shows "recurring_ok cfg t" "t = s\<lparr>billing_cycles := billing_cycles s @ [c]\<rparr>"
proof -
  show t: "t = s\<lparr>billing_cycles := billing_cycles s @ [c]\<rparr>" using i by (simp add: insert_cycle_def split: if_splits)
  have k: "(bc_service_billing_id c, bc_due_at c) \<notin> (\<lambda>x. (bc_service_billing_id x, bc_due_at x)) ` set (billing_cycles s)"
    using i by (auto simp: insert_cycle_def split: if_splits)
  have "distinct (map bc_id (billing_cycles s @ [c]))" using ok c(1)
    by (intro distinct_insert_row) (simp_all add: recurring_ok_def cycles_ok_def)
  moreover have "funding_ok t = funding_ok s" unfolding t by (rule funding_ok_cong) simp_all
  ultimately show "recurring_ok cfg t" using ok k c(2,3) unfolding recurring_ok_def cycles_ok_def t by (auto simp: unique_on_snoc)
qed

text \<open>Giving a fresh cycle its invoice.\<close>

lemma link_invoice_ok:
  assumes ok: "recurring_ok cfg s" and c: "c \<in> set (billing_cycles s)" and n: "n \<in> inv_id ` set (invoices s)"
    and fresh: "Some n \<notin> bc_invoice_id ` set (billing_cycles s)"
  shows "recurring_ok cfg (save_cycle (c\<lparr>bc_invoice_id := Some n\<rparr>) s)"
proof -
  let ?c = "c\<lparr>bc_invoice_id := Some n\<rparr>" and ?cs = "billing_cycles s"
  have d: "distinct (map bc_id ?cs)" using ok by (simp add: recurring_ok_def cycles_ok_def)
  have x: "x = c" if "x \<in> set ?cs" "bc_id x = bc_id c" for x using d c that by (auto simp: distinct_map dest: inj_onD)
  have "map (\<lambda>c. (bc_service_billing_id c, bc_due_at c)) (put_row bc_id ?c ?cs) = map (\<lambda>c. (bc_service_billing_id c, bc_due_at c)) ?cs"
    by (auto simp: put_row_def dest!: x)
  moreover have "unique_on bc_invoice_id (put_row bc_id ?c ?cs)"
    using ok d fresh by (intro unique_on_put_row) (force simp: recurring_ok_def cycles_ok_def)+
  moreover have "list_all (grace_ok cfg) (put_row bc_id ?c ?cs)"
    using ok c by (auto simp: recurring_ok_def cycles_ok_def list_all_iff grace_ok_def grace_end_def dest!: set_put_row)
  moreover have "\<forall>x \<in> set (put_row bc_id ?c ?cs). \<forall>m. bc_invoice_id x = Some m \<longrightarrow> m \<in> inv_id ` set (invoices s)"
    using ok n by (auto simp: recurring_ok_def cycles_ok_def dest!: set_put_row)
  moreover have "funding_ok (save_cycle ?c s) = funding_ok s" by (rule funding_ok_cong) (simp_all add: save_cycle_def)
  ultimately show ?thesis using ok d by (simp add: recurring_ok_def cycles_ok_def save_cycle_def)
qed

lemma new_cycle_fields [simp]:
  "bc_id (new_cycle s b due) = fresh_id bc_id (billing_cycles s)" "bc_invoice_id (new_cycle s b due) = None"
  "bc_service_billing_id (new_cycle s b due) = sb_id b" "bc_due_at (new_cycle s b due) = due"
  "bc_grace_until (new_cycle s b due) = None" "bc_attempts (new_cycle s b due) = 0" "0 \<le> bc_amount_cents (new_cycle s b due)"
  by (simp_all add: new_cycle_def Let_def)

lemma new_cycle_grace: "grace_ok cfg (new_cycle s b due)"
  by (simp add: grace_ok_def)

lemma open_cycleE:
  assumes "open_cycle env now s b due = Inr (c, t)"
  obtains (invoiced) s1 i s2 desc where "valid_snapshot b" "insert_cycle s (new_cycle s b due) = Inr s1"
      "create_cycle (rb_dialect env) now s1 (sb_reseller_id b) (sb_service_id b) (sb_monthly_price_cents b) desc (Some due) (upper (strip (sb_currency b))) = Inr (i, s2)"
      "c = (new_cycle s b due)\<lparr>bc_invoice_id := Some (inv_id i)\<rparr>"
      "t = save_billing (b\<lparr>sb_billing_anchor_day := Some (int_or (sb_billing_anchor_day b) (day_of due))\<rparr>) (save_cycle c s2)"
  | (manual) s1 where "\<not> valid_snapshot b" "insert_cycle s (new_cycle s b due) = Inr s1"
      "cycle_core c = cycle_core (new_cycle s b due)" "bc_attempts c = 0" "bc_grace_until c = None"
      "t = save_billing (b\<lparr>sb_status := SB_MANUAL_REVIEW, sb_billing_anchor_day := Some (int_or (sb_billing_anchor_day b) (day_of due))\<rparr>) (save_cycle c s1)"
proof -
  from assms obtain s1 where i: "insert_cycle s (new_cycle s b due) = Inr s1" by (auto simp: open_cycle_def Let_def ebind_Inr_iff)
  show thesis
  proof (cases "valid_snapshot b")
    case True
    with assms i obtain v :: service and i2 s2 where "create_cycle (rb_dialect env) now s1 (sb_reseller_id b) (sb_service_id b) (sb_monthly_price_cents b)
        (''Recurring service charge for '' @ svc_name v) (Some due) (upper (strip (sb_currency b))) = Inr (i2, s2)"
      "c = (new_cycle s b due)\<lparr>bc_invoice_id := Some (inv_id i2)\<rparr>"
      "t = save_billing (b\<lparr>sb_billing_anchor_day := Some (int_or (sb_billing_anchor_day b) (day_of due))\<rparr>) (save_cycle c s2)"
      unfolding open_cycle_def Let_def by (auto simp: ebind_Inr_iff the_or_raise_Inr)
    with True i show thesis by (rule invoiced)
  next
    case False
    with assms i show thesis by (intro manual) (auto simp: open_cycle_def Let_def cycle_core_def)
  qed
qed

lemma open_cycle_opens:
  assumes ok: "recurring_ok cfg s" and b: "b \<in> set (service_billings s)" and op: "open_cycle env now s b due = Inr (c, t)"
  shows "opens cfg s t c"
proof -
  let ?n = "new_cycle s b due"
  from op obtain s1 where ins: "insert_cycle s ?n = Inr s1" by (auto simp: open_cycle_def Let_def ebind_Inr_iff)
  have s1: "recurring_ok cfg s1" "s1 = s\<lparr>billing_cycles := billing_cycles s @ [?n]\<rparr>"
    using insert_cycle_ok [OF ok ins] new_cycle_grace by simp_all
  have last: "put_row bc_id c (billing_cycles s @ [?n]) = billing_cycles s @ [c]" if "bc_id c = bc_id ?n" for c
    using that fresh_id_notin [of bc_id "billing_cycles s"] by (intro put_row_last) force+
  have anchor: "recurring_ok cfg (save_billing b' u) \<and> map billing_core (service_billings (save_billing b' u)) = map billing_core (service_billings s)"
    if "recurring_ok cfg u" "service_billings u = service_billings s" "billing_core b' = billing_core b" for u b'
  proof -
    have "owned u b'" using that b by (force simp: owned_def)
    from save_billing_ok [OF that(1) this] that(2) show ?thesis by (simp add: same_rows_def)
  qed
  from op show ?thesis
  proof (cases rule: open_cycleE)
    case (invoiced s1' i s2 desc)
    with ins have s1': "s1' = s1" by simp
    note cc = create_cycle_books [OF s1(1) invoiced(3) [unfolded s1']]
    have fresh: "inv_id i \<notin> inv_id ` set (invoices s)" using cc(2) fresh_id_notin [of inv_id "invoices s"] by (simp add: s1(2))
    have "Some (inv_id i) \<notin> bc_invoice_id ` set (billing_cycles s2)"
    proof
      assume "Some (inv_id i) \<in> bc_invoice_id ` set (billing_cycles s2)"
      then obtain x where "x \<in> set (billing_cycles s)" "bc_invoice_id x = Some (inv_id i)" by (auto simp: cc(4) s1(2))
      with ok fresh show False by (auto simp: recurring_ok_def cycles_ok_def)
    qed
    then have l: "recurring_ok cfg (save_cycle c s2)"
      unfolding invoiced(4) by (intro link_invoice_ok cc(1)) (simp_all add: cc s1(2))
    from anchor [OF l, of "b\<lparr>sb_billing_anchor_day := Some (int_or (sb_billing_anchor_day b) (day_of due))\<rparr>"]
    have a: "recurring_ok cfg t" "map billing_core (service_billings t) = map billing_core (service_billings s)"
      by (simp_all add: invoiced(5) save_cycle_def cc s1(2) billing_core_def)
    have cs: "billing_cycles t = billing_cycles s @ [c]" using last [of c]
      by (simp add: invoiced(4,5) save_billing_def save_cycle_def cc(4) s1(2))
    have "grace_ok cfg c" using new_cycle_grace [of cfg s b due] by (simp add: invoiced(4) grace_ok_def)
    then show ?thesis using a cs b by (auto simp: opens_def tracked_def invoiced(4,5) save_billing_def save_cycle_def cc(6,7) s1(2))
  next
    case (manual s1')
    with ins have s1': "s1' = s1" by simp
    have id: "bc_id c = bc_id ?n" using manual(3) by (simp add: cycle_core_def)
    have g: "grace_ok cfg c" using manual(4,5) by (simp add: grace_ok_def)
    have "tracked s1 c" using manual(3) by (simp add: tracked_def s1(2))
    then have l: "recurring_ok cfg (save_cycle c s1)" using save_cycle_ok [OF s1(1) _ g] by simp
    from anchor [OF l, of "b\<lparr>sb_status := SB_MANUAL_REVIEW, sb_billing_anchor_day := Some (int_or (sb_billing_anchor_day b) (day_of due))\<rparr>"]
    have a: "recurring_ok cfg t" "map billing_core (service_billings t) = map billing_core (service_billings s)"
      by (simp_all add: manual(6) s1' save_cycle_def s1(2) billing_core_def)
    have cs: "billing_cycles t = billing_cycles s @ [c]" using last [OF id] by (simp add: manual(6) s1' save_billing_def save_cycle_def s1(2))
    have "bc_service_billing_id c = sb_id b" using manual(3) by (simp add: cycle_core_def)
    then show ?thesis using a cs b g by (auto simp: opens_def tracked_def manual(6) s1' save_billing_def save_cycle_def s1(2))
  qed
qed

lemma cycles_due_unique: "cycles_ok cfg s \<Longrightarrow> length (cycles_due s b due) \<le> 1"
proof -
  assume "cycles_ok cfg s"
  then have "unique_on (\<lambda>c. Some (bc_service_billing_id c, bc_due_at c)) (billing_cycles s)"
    by (simp add: cycles_ok_def unique_on_def comp_def)
  from unique_on_filter_length [OF this, of "(sb_id b, due)"] show ?thesis by (simp add: cycles_due_def)
qed

lemma member_opens:
  assumes "recurring_ok cfg s" "c \<in> set (billing_cycles s)" "bc_service_billing_id c \<in> sb_id ` set (service_billings s)"
  shows "opens cfg s s c"
  using assms by (auto simp: opens_def tracked_def recurring_ok_def cycles_ok_def list_all_iff)

lemma ensure_cycle_opens:
  assumes ok: "recurring_ok cfg s" and b: "b \<in> set (service_billings s)" and e: "ensure_cycle env now s b = Inr (c, t)"
  shows "opens cfg s t c"
proof -
  define due where "due = (case sb_next_charge_at b of None \<Rightarrow> now | Some d \<Rightarrow> d)"
  have mem: "opens cfg s s c" if "c \<in> set (cycles_due s b due)"
    using that b by (intro member_opens [OF ok]) (auto simp: cycles_due_def)
  have "t = s \<and> c \<in> set (cycles_due s b due) \<or> open_cycle env now s b due = Inr (c, t)"
  proof (cases "cycles_due s b due")
    case Nil
    with e show ?thesis unfolding ensure_cycle_def Let_def due_def [symmetric]
      by (cases "open_cycle env now s b due") (auto split: if_splits)
  next
    case (Cons x xs)
    then have "xs = []" using ok cycles_due_unique [of cfg s b due] by (simp add: recurring_ok_def)
    with e Cons show ?thesis unfolding ensure_cycle_def Let_def due_def [symmetric] by simp
  qed
  then show ?thesis using mem open_cycle_opens [OF ok b] by blast
qed

section \<open>Billings and batches\<close>

definition linked :: "store \<Rightarrow> bool" where
  "linked s \<longleftrightarrow>
     (\<forall>b \<in> set (service_billings s). sb_reseller_id b \<in> Some ` r_id ` set (resellers s) \<and> sb_service_id b \<in> svc_id ` set (services s)) \<and>
     (\<forall>c \<in> set (billing_cycles s). bc_service_billing_id c \<in> sb_id ` set (service_billings s))"

definition evolves :: "recurring_config \<Rightarrow> store \<Rightarrow> store \<Rightarrow> bool" where
  "evolves cfg s t \<longleftrightarrow> recurring_ok cfg t \<and> (linked s \<longrightarrow> linked t) \<and> map sb_id (service_billings t) = map sb_id (service_billings s)"

lemma linked_core:
  "linked s \<longleftrightarrow>
     (\<forall>x \<in> billing_core ` set (service_billings s). fst (snd x) \<in> Some ` r_id ` set (resellers s) \<and> snd (snd x) \<in> svc_id ` set (services s)) \<and>
     (\<forall>x \<in> cycle_core ` set (billing_cycles s). fst (snd x) \<in> fst ` billing_core ` set (service_billings s))"
  by (auto simp: linked_def billing_core_def cycle_core_def image_image)

lemma same_rows_evolves: "recurring_ok cfg t \<and> same_rows s t \<Longrightarrow> evolves cfg s t"
proof -
  assume a: "recurring_ok cfg t \<and> same_rows s t"
  then have m: "map billing_core (service_billings t) = map billing_core (service_billings s)"
    "map cycle_core (billing_cycles t) = map cycle_core (billing_cycles s)"
    "map r_id (resellers t) = map r_id (resellers s)" "map svc_id (services t) = map svc_id (services s)"
    by (simp_all add: same_rows_def)
  note e = m [THEN map_eq_image]
  show ?thesis using a map_billing_core [OF m(1)] unfolding evolves_def linked_core e by blast
qed

lemma opens_evolves: "opens cfg s t c \<Longrightarrow> evolves cfg s t"
proof -
  assume o: "opens cfg s t c"
  then have b: "billing_core ` set (service_billings t) = billing_core ` set (service_billings s)" by (intro map_eq_image) (simp add: opens_def)
  have c: "cycle_core ` set (billing_cycles t) = insert (cycle_core c) (cycle_core ` set (billing_cycles s))" using o by (simp add: opens_def)
  have "fst (snd (cycle_core c)) \<in> fst ` billing_core ` set (service_billings s)"
    using o by (simp add: opens_def cycle_core_def billing_core_def image_image)
  moreover have "map sb_id (service_billings t) = map sb_id (service_billings s)" using o by (intro map_billing_core) (simp add: opens_def)
  ultimately show ?thesis using o unfolding evolves_def linked_core b c by (auto simp: opens_def)
qed

lemma evolves_trans: "evolves cfg s t \<Longrightarrow> evolves cfg t u \<Longrightarrow> evolves cfg s u"
  by (simp add: evolves_def)

lemma evolves_ok: "evolves cfg s t \<Longrightarrow> recurring_ok cfg t"
  by (simp add: evolves_def)

lemma evolves_refl: "recurring_ok cfg s \<Longrightarrow> evolves cfg s s"
  by (simp add: evolves_def)

text \<open>The store a step leaves in the database: the one it returns, or the one last committed.\<close>

definition committed :: "('a \<times> store) tx \<Rightarrow> store" where
  "committed m = (case m of Inl (e, s) \<Rightarrow> s | Inr (x, s) \<Rightarrow> s)"

lemma committed_simps [simp]: "committed (Inl (e, s)) = s" "committed (Inr (x, s)) = s"
  by (simp_all add: committed_def)

lemma since_commit_Inl: "since_commit s m = Inl x \<longleftrightarrow> (\<exists>e. m = Inl e \<and> x = (e, s))"
  by (cases m) (auto simp: since_commit_def)

lemma since_commit_Inr: "since_commit s m = Inr x \<longleftrightarrow> m = Inr x"
  by (cases m) (auto simp: since_commit_def)

text \<open>A stage on the committed store \<open>s\<close>, then the rest.\<close>

lemma committed_stage:
  assumes "evolves cfg r s" "\<And>x t. m = Inr (x, t) \<Longrightarrow> evolves cfg r (committed (k (x, t)))"
  shows "evolves cfg r (committed (ebind (since_commit s m) k))"
proof (cases m)
  case (Inl e)
  with assms(1) show ?thesis by (simp add: since_commit_def)
next
  case (Inr y)
  with assms(2) show ?thesis by (cases y) (simp add: since_commit_def)
qed

lemma committed_since:
  assumes "evolves cfg r s" "\<And>x t. m = Inr (x, t) \<Longrightarrow> evolves cfg r t"
  shows "evolves cfg r (committed (since_commit s m))"
  using committed_stage [of cfg r s m Inr] assms by (cases m) (auto simp: since_commit_def)

lemma claim_cycle_fields [simp]:
  "cycle_core (claim_cycle cfg now owner c) = cycle_core c" "bc_attempts (claim_cycle cfg now owner c) = bc_attempts c"
  "bc_grace_until (claim_cycle cfg now owner c) = bc_grace_until c" "bc_due_at (claim_cycle cfg now owner c) = bc_due_at c"
  "bc_id (claim_cycle cfg now owner c) = bc_id c" "bc_invoice_id (claim_cycle cfg now owner c) = bc_invoice_id c"
  by (simp_all add: claim_cycle_def cycle_core_def)

lemma attempt_payment_evolves:
  assumes ok: "recurring_ok cfg s" and c: "tracked s c" "grace_ok cfg c" and b: "owned s b"
  shows "evolves cfg s (committed (attempt_payment cfg env now s b c owner))"
proof -
  let ?c = "claim_cycle cfg now owner c"
  have tc: "tracked s ?c" "grace_ok cfg ?c" "0 \<le> bc_attempts ?c" using c by (simp_all add: tracked_def grace_ok_def grace_end_def)
  have 1: "recurring_ok cfg (save_cycle ?c s) \<and> same_rows s (save_cycle ?c s)" using save_cycle_ok [OF ok tc(1,2)] .
  then have t1: "tracked (save_cycle ?c s) ?c" "owned (save_cycle ?c s) b" using tc(1) b same_rows_tracked same_rows_owned by blast+
  note e1 = same_rows_evolves [OF 1]
  show ?thesis
  proof (cases "fund_cycle env (save_cycle ?c s) b ?c")
    case (Inl e)
    have "evolves cfg s t" if "record_failure cfg env now (save_cycle ?c s) b ?c code msg True = Inr t" for code msg t
      using record_failure_step [OF _ t1(1) tc(3) t1(2) that] by (intro same_rows_evolves step_trans [OF 1])
    with Inl e1 show ?thesis unfolding attempt_payment_def Let_def
      by (auto simp: ebind_Inr_iff intro!: committed_since)
  next
    case (Inr x)
    obtain fn s2 where x: "x = (fn, s2)" by (cases x)
    have 2: "recurring_ok cfg s2 \<and> same_rows s s2" by (rule step_trans [OF 1]) (rule fund_cycle_step [OF _ Inr [unfolded x]])
    then have t2: "tracked s2 ?c" "owned s2 b" using tc(1) b same_rows_tracked same_rows_owned by blast+
    have "evolves cfg s t" if "settle_attempt cfg env now s2 b ?c fn = Inr (out, t)" for out t
      using settle_attempt_step [OF _ t2(1) tc(2) t2(2) that] by (intro same_rows_evolves step_trans [OF 2])
    with Inr x e1 show ?thesis unfolding attempt_payment_def Let_def by (auto intro!: committed_since)
  qed
qed

lemma initial_cycle_outcome_step:
  assumes ok: "recurring_ok cfg s" and c: "tracked s c" "grace_ok cfg c" and b: "owned s b"
    and ic: "initial_cycle_outcome env now s b c owner = Inr (x, t)"
  shows "recurring_ok cfg t \<and> same_rows s t"
proof -
  have mm: "recurring_ok cfg (mark_manual s b c code msg) \<and> same_rows s (mark_manual s b c code msg)" for code msg
  proof -
    define c2 where "c2 = c\<lparr>bc_state := MANUAL_REVIEW, bc_failure_code := Some code, bc_failure_message := Some msg\<rparr>"
    have "tracked s c2" "grace_ok cfg c2" using c by (simp_all add: c2_def tracked_def cycle_core_def grace_ok_def grace_end_def)
    from save_cycle_ok [OF ok this] have 1: "recurring_ok cfg (save_cycle c2 s) \<and> same_rows s (save_cycle c2 s)" .
    have "owned (save_cycle c2 s) (b\<lparr>sb_status := SB_MANUAL_REVIEW, sb_last_failure_code := Some code, sb_last_failure_message := Some msg, sb_next_retry_at := None\<rparr>)"
      using 1 b same_rows_owned [of s "save_cycle c2 s" b] by (simp add: owned_def billing_core_def)
    then show ?thesis unfolding mark_manual_def c2_def [symmetric] by (intro step_trans [OF 1] save_billing_ok)
  qed
  from ic have "t = s \<or> t = mark_manual s b c ''missing_invoice'' ''Billing cycle has no invoice'' \<or> complete_paid_cycle env now s c = Inr t"
    by (auto simp: initial_cycle_outcome_def ebind_Inr_iff split: if_splits option.splits)
  then show ?thesis using ok mm complete_paid_cycle_step [OF ok c] by auto
qed

lemma schedule_step:
  assumes ok: "recurring_ok cfg s" and c: "tracked s c" "grace_ok cfg c" and b: "owned s b"
  shows "recurring_ok cfg (schedule_after_pending_failure cfg s b c) \<and> same_rows s (schedule_after_pending_failure cfg s b c)"
proof -
  define c2 where "c2 = c\<lparr>bc_next_retry_at := retry_time cfg c, bc_state := (if bc_attempts c \<le> 1 then PAST_DUE else GRACE)\<rparr>"
  have "tracked s c2" "grace_ok cfg c2" using c by (simp_all add: c2_def tracked_def cycle_core_def grace_ok_def grace_end_def)
  from save_cycle_ok [OF ok this] have 1: "recurring_ok cfg (save_cycle c2 s) \<and> same_rows s (save_cycle c2 s)" .
  have "owned (save_cycle c2 s) (b\<lparr>sb_status := (if bc_attempts c \<le> 1 then SB_PAST_DUE else SB_GRACE), sb_next_retry_at := bc_next_retry_at c2\<rparr>)"
    using 1 b same_rows_owned [of s "save_cycle c2 s" b] by (simp add: owned_def billing_core_def)
  then show ?thesis unfolding schedule_after_pending_failure_def Let_def c2_def [symmetric] by (intro step_trans [OF 1] save_billing_ok)
qed

lemma handle_pending_action_step:
  assumes ok: "recurring_ok cfg s" and c: "tracked s c" "grace_ok cfg c" and b: "owned s b"
    and h: "handle_pending_action cfg env s b c = Inr (x, t)"
  shows "recurring_ok cfg t \<and> same_rows s t"
  using h ok schedule_step [OF ok c b] notify_step [OF ok]
  by (auto simp: handle_pending_action_def ebind_Inr_iff split: if_splits)

lemma live_cycle_ok:
  assumes "recurring_ok cfg s" "tracked s c" "grace_ok cfg c"
  shows "tracked s (live_cycle s c)" "grace_ok cfg (live_cycle s c)"
  using assms by (auto simp: live_cycle_def get_cycle_def recurring_ok_def cycles_ok_def list_all_iff
      split: option.splits dest: get_row_SomeD intro: tracked_member)

lemma process_cycle_evolves:
  assumes ok: "recurring_ok cfg s" and c: "tracked s c" "grace_ok cfg c" and b: "owned s b"
  shows "evolves cfg s (committed (process_cycle cfg env now s b c owner))"
  unfolding process_cycle_def
proof (rule committed_stage [OF evolves_refl [OF ok]], goal_cases initial)
  case (initial x1 s1)
  have 1: "recurring_ok cfg s1 \<and> same_rows s s1" using initial by (rule initial_cycle_outcome_step [OF ok c b])
  have r1: "recurring_ok cfg s1" "tracked s1 c" "owned s1 b" using 1 c b same_rows_tracked same_rows_owned by blast+
  show ?case
  proof (cases x1)
    case None
    have "evolves cfg s (committed (ebind (since_commit s1 (suspension_outcome cfg env now s1 b c)) k))"
      if k: "\<And>s2. recurring_ok cfg s2 \<Longrightarrow> tracked s2 c \<Longrightarrow> owned s2 b \<Longrightarrow> evolves cfg s s2 \<Longrightarrow> evolves cfg s (committed (k (None, s2)))"
        "\<And>out s2. evolves cfg s s2 \<Longrightarrow> evolves cfg s (committed (k (Some out, s2)))" for k :: "_ \<Rightarrow> (billing_outcome \<times> store) tx"
    proof (rule committed_stage [OF same_rows_evolves [OF 1]])
      fix x2 s2 assume "suspension_outcome cfg env now s1 b c = Inr (x2, s2)"
      then have 2: "recurring_ok cfg s2 \<and> same_rows s s2" using suspension_outcome_step [OF _ r1(2) c(2) r1(3)] by (intro step_trans [OF 1]) blast
      then have "tracked s2 c" "owned s2 b" using c b same_rows_tracked same_rows_owned by blast+
      then show "evolves cfg s (committed (k (x2, s2)))" using 2 k same_rows_evolves [OF 2] by (cases x2) auto
    qed
    moreover have "evolves cfg s (committed (ebind (since_commit s2 (handle_pending_action cfg env s2 b c)) (\<lambda>(pending, s3).
        case pending of Some out \<Rightarrow> Inr (out, s3) | None \<Rightarrow> let b3 = live_billing s3 b; c3 = live_cycle s3 c in
          if retry_is_not_due cfg now c3 then Inr (Processed, s3) else attempt_payment cfg env now s3 b3 c3 owner)))"
      if s2: "recurring_ok cfg s2" "tracked s2 c" "owned s2 b" "evolves cfg s s2" for s2
    proof (rule committed_stage [OF s2(4)])
      fix x3 s3 assume h: "handle_pending_action cfg env s2 b c = Inr (x3, s3)"
      have 3: "recurring_ok cfg s3 \<and> same_rows s2 s3" using handle_pending_action_step [OF s2(1,2) c(2) s2(3) h] .
      then have e3: "evolves cfg s s3" using s2(4) same_rows_evolves evolves_trans by blast
      have "tracked s3 c" "owned s3 b" using 3 s2 same_rows_tracked same_rows_owned by blast+
      then have "evolves cfg s3 (committed (attempt_payment cfg env now s3 (live_billing s3 b) (live_cycle s3 c) owner))"
        using 3 c(2) by (intro attempt_payment_evolves live_cycle_ok owned_live) simp_all
      then show "evolves cfg s (committed (case (x3, s3) of (pending, s3) \<Rightarrow> case pending of Some out \<Rightarrow> Inr (out, s3) | None \<Rightarrow>
          let b3 = live_billing s3 b; c3 = live_cycle s3 c in
          if retry_is_not_due cfg now c3 then Inr (Processed, s3) else attempt_payment cfg env now s3 b3 c3 owner))"
        using e3 by (auto simp: Let_def split: option.split intro: evolves_trans)
    qed
    ultimately show ?thesis using None by simp
  qed (use 1 same_rows_evolves in auto)
qed

lemma cancel_billing_step:
  assumes ok: "recurring_ok cfg s" and b: "b \<in> set (service_billings s)"
  shows "recurring_ok cfg (cancel_billing now s b) \<and> same_rows s (cancel_billing now s b)"
proof -
  let ?b = "b\<lparr>sb_status := SB_CANCELLED, sb_next_charge_at := None, sb_next_retry_at := None\<rparr>"
  have "owned s ?b" using b by (force simp: owned_def billing_core_def)
  from save_billing_ok [OF ok this] have 1: "recurring_ok cfg (save_billing ?b s) \<and> same_rows s (save_billing ?b s)" .
  show ?thesis
  proof (cases "cancelled_cycle s b")
    case None
    with 1 show ?thesis by (simp add: cancel_billing_def Let_def)
  next
    case (Some c)
    let ?c = "c\<lparr>bc_state := CANCELLED, bc_completed_at := Some now, bc_next_retry_at := None\<rparr>"
    let ?s2 = "save_cycle ?c (save_billing ?b s)"
    obtain cs where "sort_key (\<lambda>c. - bc_id c)
        (filter (\<lambda>c. bc_service_billing_id c = sb_id b \<and> bc_state c \<notin> {CYCLE_PAID, CANCELLED}) (billing_cycles s)) = c # cs"
      using Some unfolding cancelled_cycle_def by (simp split: list.splits)
    from sort_key_Cons [OF this] have c: "c \<in> set (billing_cycles s)" by simp
    then have "tracked s c" "grace_ok cfg c" using ok by (auto simp: recurring_ok_def cycles_ok_def list_all_iff intro: tracked_member)
    then have "tracked (save_billing ?b s) ?c" "grace_ok cfg ?c" using 1 same_rows_tracked [of s "save_billing ?b s" c]
      by (simp_all add: tracked_def cycle_core_def grace_ok_def grace_end_def)
    then have 2: "recurring_ok cfg ?s2 \<and> same_rows s ?s2" by (intro step_trans [OF 1] save_cycle_ok)
    have v: "recurring_ok cfg (save_invoice (i\<lparr>inv_status := VOID\<rparr>) ?s2) \<and> same_rows s (save_invoice (i\<lparr>inv_status := VOID\<rparr>) ?s2)"
      if "cycle_invoice ?s2 c = Some i" for i
      using cycle_invoiceD [OF that] by (intro step_trans [OF 2]) (rule save_invoice_ok, auto simp: invoice_core_def)
    show ?thesis using Some 2 v by (auto simp: cancel_billing_def Let_def split: option.split)
  qed
qed

lemma current_cycleD:
  assumes "current_cycle s b = Some c"
  shows "c \<in> set (billing_cycles s) \<and> bc_service_billing_id c = sb_id b \<and> bc_state c \<notin> set terminal_states"
proof -
  obtain cs where "sort_key (\<lambda>c. (- bc_due_at c, - bc_id c))
      (filter (\<lambda>c. bc_service_billing_id c = sb_id b \<and> bc_state c \<notin> set terminal_states) (billing_cycles s)) = c # cs"
    using assms unfolding current_cycle_def by (simp split: list.splits)
  from sort_key_Cons [OF this] show ?thesis by simp
qed

lemma opens_owned: "opens cfg s t c \<Longrightarrow> b \<in> set (service_billings s) \<Longrightarrow> owned t b"
  by (auto simp: opens_def owned_def dest!: map_eq_image)

lemma process_billing_evolves:
  assumes ok: "recurring_ok cfg s"
  shows "evolves cfg s (committed (process_billing cfg env now s n owner))"
proof (cases "get_billing s n")
  case None
  then show ?thesis using evolves_refl [OF ok] by (simp add: process_billing_def reload_def since_commit_def)
next
  case (Some b)
  then have b: "b \<in> set (service_billings s)" by (auto simp: get_billing_def dest: get_row_SomeD)
  have run: "evolves cfg s (committed (process_cycle cfg env now t (live_billing t b) c owner))" if "opens cfg s t c" for t c
  proof -
    have "recurring_ok cfg t" "tracked t c" "grace_ok cfg c" using that by (simp_all add: opens_def)
    moreover have "owned t (live_billing t b)" using opens_owned [OF that b] by (rule owned_live)
    ultimately show ?thesis using process_cycle_evolves opens_evolves [OF that] by (blast intro: evolves_trans)
  qed
  show ?thesis
  proof (cases "case get_service s (sb_service_id b) of None \<Rightarrow> True | Some v \<Rightarrow> svc_status v = SVC_TERMINATED")
    case True
    with Some show ?thesis using same_rows_evolves [OF cancel_billing_step [OF ok b]] by (simp add: process_billing_def reload_def since_commit_def)
  next
    case False
    show ?thesis
    proof (cases "current_cycle s b")
      case (Some c)
      have "opens cfg s s c" using current_cycleD [OF Some] b by (intro member_opens [OF ok]) auto
      from run [OF this] False Some \<open>get_billing s n = Some b\<close> show ?thesis by (simp add: process_billing_def reload_def since_commit_def)
    next
      case None
      have "evolves cfg s (committed (ebind (since_commit s (ensure_cycle env now s b)) (\<lambda>(c, s1). process_cycle cfg env now s1 (live_billing s1 b) c owner)))"
        using run ensure_cycle_opens [OF ok b] by (intro committed_stage [OF evolves_refl [OF ok]]) auto
      with False None \<open>get_billing s n = Some b\<close> show ?thesis by (simp add: process_billing_def reload_def since_commit_def)
    qed
  qed
qed

lemma recover_cycles_evolves:
  "recurring_ok cfg s \<Longrightarrow> evolves cfg s (committed (recover_cycles env now s ns res))"
proof (induction ns arbitrary: s res)
  case Nil
  then show ?case by (simp add: evolves_refl)
next
  case (Cons n ns)
  show ?case
  proof (cases "ebind (reload (get_cycle s n)) (complete_paid_cycle env now s)")
    case (Inl e)
    then show ?thesis using Cons.prems by (simp add: since_commit_def evolves_refl)
  next
    case (Inr s1)
    then obtain c where c: "get_cycle s n = Some c" and cp: "complete_paid_cycle env now s c = Inr s1"
      by (auto simp: ebind_Inr_iff reload_Inr)
    have "c \<in> set (billing_cycles s)" using c by (auto simp: get_cycle_def dest: get_row_SomeD)
    then have e: "evolves cfg s s1" using Cons.prems cp
      by (intro same_rows_evolves complete_paid_cycle_step [OF Cons.prems _ _ cp])
         (auto simp: recurring_ok_def cycles_ok_def list_all_iff intro: tracked_member)
    then show ?thesis using Inr evolves_trans [OF e Cons.IH [OF evolves_ok [OF e]]] by (simp add: since_commit_def)
  qed
qed

lemma process_billings_evolves:
  "recurring_ok cfg s \<Longrightarrow> evolves cfg s (committed (process_billings cfg env now s ns owner res))"
proof (induction ns arbitrary: s res)
  case Nil
  then show ?case by (simp add: evolves_refl)
next
  case (Cons n ns)
  have e: "evolves cfg s (committed (process_billing cfg env now s n owner))" using Cons.prems by (rule process_billing_evolves)
  show ?case
  proof (cases "process_billing cfg env now s n owner")
    case (Inl x)
    with e show ?thesis by (cases x) simp
  next
    case (Inr x)
    obtain out s1 where x: "x = (out, s1)" by (cases x)
    with Inr e have e1: "evolves cfg s s1" by simp
    show ?thesis using Inr x evolves_trans [OF e1 Cons.IH [OF evolves_ok [OF e1]]] by simp
  qed
qed

lemma process_batch_evolves:
  assumes ok: "recurring_ok cfg s"
  shows "evolves cfg s (committed (process_batch cfg env now s limit owner))"
proof -
  define l where "l = (case limit of None \<Rightarrow> rb_batch_size cfg | Some n \<Rightarrow> if n = 0 then rb_batch_size cfg else n)"
  have e: "evolves cfg s (committed (recover_cycles env now s (recoverable_cycles s l) empty_result))" using ok by (rule recover_cycles_evolves)
  show ?thesis
  proof (cases "recover_cycles env now s (recoverable_cycles s l) empty_result")
    case (Inl x)
    with e show ?thesis by (cases x) (simp add: process_batch_def Let_def l_def [symmetric] recover_paid_cycles_def)
  next
    case (Inr x)
    obtain res s1 where x: "x = (res, s1)" by (cases x)
    with Inr e have s1: "evolves cfg s s1" by simp
    then have "recurring_ok cfg s1" by (simp add: evolves_def)
    then have "evolves cfg s1 (committed (process_billings cfg env now s1 ns owner res))" for ns by (rule process_billings_evolves)
    with Inr x s1 show ?thesis
      by (simp add: process_batch_def Let_def l_def [symmetric] recover_paid_cycles_def) (blast intro: evolves_trans)
  qed
qed

lemma recurring_ok_lease: "recurring_ok cfg (s\<lparr>lease := l\<rparr>) = recurring_ok cfg s"
proof -
  have "funding_ok (s\<lparr>lease := l\<rparr>) = funding_ok s" by (rule funding_ok_cong) simp_all
  then show ?thesis by (simp add: recurring_ok_def cycles_ok_def)
qed

lemma acquire_lease_frame: "acquire_lease cfg s owner now = (x, t) \<Longrightarrow> t = s\<lparr>lease := lease t\<rparr>"
  by (auto simp: acquire_lease_def Let_def split: if_splits)

lemma release_lease_frame: "release_lease s owner = s\<lparr>lease := lease (release_lease s owner)\<rparr>"
  by (cases "lease s") (auto simp: release_lease_def)

lemma iteration_ok:
  assumes "recurring_ok cfg s" "run_recurring_billing_iteration cfg env now later s owner = (res, t)"
  shows "recurring_ok cfg t"
proof -
  obtain x s1 where a: "acquire_lease cfg s owner now = (x, s1)" by (cases "acquire_lease cfg s owner now")
  have s1: "recurring_ok cfg s1" using assms(1) by (subst acquire_lease_frame [OF a]) (simp add: recurring_ok_lease)
  have rel: "recurring_ok cfg (release_lease u owner)" if "recurring_ok cfg u" for u
    using that by (subst release_lease_frame) (simp add: recurring_ok_lease)
  have b: "recurring_ok cfg (committed (process_batch cfg env later s1 None owner))"
    using process_batch_evolves [OF s1] by (simp add: evolves_def)
  show ?thesis
  proof (cases "process_batch cfg env later s1 None owner")
    case (Inl y)
    then show ?thesis using assms(2) a s1 b rel by (cases y) (auto simp: run_recurring_billing_iteration_def split: if_splits)
  next
    case (Inr y)
    then show ?thesis using assms(2) a s1 b rel by (cases y) (auto simp: run_recurring_billing_iteration_def split: if_splits)
  qed
qed

end
