(* ===== verification/Dunning.thy ===== *)
theory Dunning
  imports Recurring_Books
begin

text \<open>
  What recurring billing promises: one worker at a time holds the lease; books and cycles stay
  consistent over any iterations; a failed attempt is retried on the configured days within the grace
  period and not otherwise; a service is suspended only after grace and retries; a paid cycle has a
  covered invoice and moves the billing to the next calendar month; and a batch over well-linked rows
  always completes. The last theorem is about rows that are not: a due billing without a reseller stops
  every batch.
\<close>

section \<open>The lease\<close>

datatype lease_op = Acquire string instant | Release string

text \<open>Running lease operations, with the answers of the acquisitions.\<close>

fun lease_run :: "recurring_config \<Rightarrow> store \<Rightarrow> lease_op list \<Rightarrow> bool list \<times> store" where
  "lease_run cfg s [] = ([], s)"
| "lease_run cfg s (Acquire owner now # ops) =
     (let (got, s1) = acquire_lease cfg s owner now; (answers, t) = lease_run cfg s1 ops in (got # answers, t))"
| "lease_run cfg s (Release owner # ops) = lease_run cfg (release_lease s owner) ops"

text \<open>Operations of other workers, acquisitions before \<open>expiry\<close>.\<close>

fun foreign :: "string \<Rightarrow> instant \<Rightarrow> lease_op \<Rightarrow> bool" where
  "foreign owner expiry (Acquire other now) \<longleftrightarrow> other \<noteq> owner \<and> now < expiry"
| "foreign owner expiry (Release other) \<longleftrightarrow> other \<noteq> owner"

definition leased_to :: "store \<Rightarrow> string \<Rightarrow> instant \<Rightarrow> bool" where
  "leased_to s owner expiry \<longleftrightarrow> lease s = Some \<lparr>lease_owner = Some owner, lease_expires_at = Some expiry\<rparr>"

lemma acquire_leased:
  "acquire_lease cfg s owner now = (True, t) \<Longrightarrow> leased_to t owner (now + seconds (rb_lease_seconds cfg))"
  by (auto simp: acquire_lease_def Let_def leased_to_def split: if_splits option.splits)

lemma lease_refused:
  assumes "leased_to s owner expiry" "other \<noteq> owner" "now < expiry"
  shows "acquire_lease cfg s other now = (False, s)"
  using assms by (auto simp: acquire_lease_def leased_to_def lease_available_def Let_def)

lemma lease_kept: "leased_to s owner expiry \<Longrightarrow> other \<noteq> owner \<Longrightarrow> release_lease s other = s"
  by (auto simp: release_lease_def leased_to_def)

lemma foreign_run:
  "leased_to s owner expiry \<Longrightarrow> list_all (foreign owner expiry) ops \<Longrightarrow>
     snd (lease_run cfg s ops) = s \<and> list_all Not (fst (lease_run cfg s ops))"
proof (induction ops)
  case (Cons op ops)
  then show ?case by (cases op) (auto simp: lease_refused lease_kept split: prod.splits)
qed simp

text \<open>
  C28: the lease is exclusive and not lost. After a worker acquires it, whatever other workers do
  before it expires, acquiring or releasing, every acquisition of theirs is refused and the lease stays
  as it is; at its expiry, or once its owner has released it, any worker acquires it.
\<close>

theorem lease_is_exclusive:
  assumes "acquire_lease cfg s owner now = (True, t)"
  shows "(list_all (foreign owner (now + seconds (rb_lease_seconds cfg))) ops \<longrightarrow>
      snd (lease_run cfg t ops) = t \<and> list_all Not (fst (lease_run cfg t ops))) \<and>
    (now + seconds (rb_lease_seconds cfg) \<le> later \<longrightarrow> fst (acquire_lease cfg t other later)) \<and>
    fst (acquire_lease cfg (release_lease t owner) other later)"
proof (intro conjI)
  note l = acquire_leased [OF assms]
  show "list_all (foreign owner (now + seconds (rb_lease_seconds cfg))) ops \<longrightarrow>
      snd (lease_run cfg t ops) = t \<and> list_all Not (fst (lease_run cfg t ops))" using foreign_run [OF l] by blast
  show "now + seconds (rb_lease_seconds cfg) \<le> later \<longrightarrow> fst (acquire_lease cfg t other later)"
    using l by (simp add: acquire_lease_def leased_to_def lease_available_def)
  show "fst (acquire_lease cfg (release_lease t owner) other later)"
    using l by (simp add: acquire_lease_def leased_to_def release_lease_def lease_available_def)
qed

definition sample_config :: recurring_config where
  "sample_config = \<lparr>rb_lease_seconds = 300, rb_batch_size = 100, retry_day_offsets = [1, 3, 5], grace_days = 7\<rparr>"

theorem lease_is_exclusive_witness:
  "\<exists>t. acquire_lease sample_config empty_store ''a'' 0 = (True, t) \<and>
     list_all Not (fst (lease_run sample_config t [Acquire ''b'' 1000, Release ''b'', Acquire ''c'' 299999999]))"
proof -
  let ?t = "snd (acquire_lease sample_config empty_store ''a'' 0)"
  have a: "acquire_lease sample_config empty_store ''a'' 0 = (True, ?t)"
    by (simp add: acquire_lease_def empty_store_def lease_available_def)
  have "list_all (foreign ''a'' (0 + seconds (rb_lease_seconds sample_config))) [Acquire ''b'' 1000, Release ''b'', Acquire ''c'' 299999999]"
    by (simp add: sample_config_def seconds_def)
  with lease_is_exclusive [OF a] a show ?thesis by blast
qed

section \<open>The schedule of attempts\<close>

lemma valid_offsets_sorted: "valid_recurring_config cfg \<Longrightarrow> sorted (retry_day_offsets cfg)"
  unfolding valid_recurring_config_def by (metis sorted_remdups sorted_sort)

lemma retry_within_grace:
  assumes v: "valid_recurring_config cfg" and r: "retry_time cfg c = Some t"
  shows "bc_due_at c < t \<and> t \<le> grace_end cfg c"
proof -
  let ?xs = "retry_day_offsets cfg" and ?k = "nat (bc_attempts c - 1)"
  have k: "?k < length ?xs" and t: "t = bc_due_at c + days (?xs ! ?k)" using r by (auto simp: retry_time_def split: if_splits)
  have "?xs ! ?k \<le> ?xs ! (length ?xs - 1)" using k valid_offsets_sorted [OF v] by (intro sorted_nth_mono) auto
  then have "?xs ! ?k \<le> grace_days cfg" using v k by (auto simp: valid_recurring_config_def last_conv_nth)
  moreover have "0 < ?xs ! ?k" using v k by (simp add: valid_recurring_config_def list_all_length)
  ultimately show ?thesis by (simp add: t grace_end_def days_def us_per_day_def)
qed

lemma notify_fields:
  assumes "notify s r ev key d = Inr t"
  shows "billing_cycles t = billing_cycles s" "service_billings t = service_billings s" "services t = services s"
    "resellers t = resellers s" "invoices t = invoices s" "payments t = payments s"
  by (subst notify_frame [OF assms], simp)+

lemma notify_failure_fields:
  assumes "notify_failure env s r b c = Inr t"
  shows "billing_cycles t = billing_cycles s" "service_billings t = service_billings s" "services t = services s"
    "resellers t = resellers s" "invoices t = invoices s" "payments t = payments s"
proof -
  from assms obtain s1 key d where n: "notify s r ''cycle_charge_failed'' key d = Inr s1"
    and r: "t = s1 \<or> (\<exists>k d. notify s1 r ''grace_warning'' k d = Inr t)"
    unfolding notify_failure_def Let_def ebind_Inr_iff by (metis Inr_inject)
  from r have "billing_cycles t = billing_cycles s1 \<and> service_billings t = service_billings s1 \<and> services t = services s1 \<and>
      resellers t = resellers s1 \<and> invoices t = invoices s1 \<and> payments t = payments s1" by (auto dest: notify_fields)
  then show "billing_cycles t = billing_cycles s" "service_billings t = service_billings s" "services t = services s"
    "resellers t = resellers s" "invoices t = invoices s" "payments t = payments s" by (simp_all add: notify_fields [OF n])
qed

text \<open>The rows a failed attempt leaves.\<close>

lemma record_failureE:
  assumes "record_failure cfg env now s b c code message incr = Inr t"
  obtains i r c2 where "cycle_invoice s c = Some i" "billing_reseller s b = Some r"
    "c2 = failed_cycle cfg (counted now incr c) (last_safe_failure s (bc_invoice_id c) code message)"
    "billing_cycles t = put_row bc_id c2 (billing_cycles s)"
    "service_billings t = put_row sb_id (failed_billing b c2) (service_billings s)"
    "resellers t = put_row r_id (apply_hold now r) (resellers s)"
    "invoices t = put_row inv_id (overdue_invoice i) (invoices s)" "services t = services s" "payments t = payments s"
proof -
  define c2 where "c2 = failed_cycle cfg (counted now incr c) (last_safe_failure s (bc_invoice_id c) code message)"
  from assms obtain i r where i: "cycle_invoice s c = Some i" and r: "billing_reseller s b = Some r"
    and n: "notify_failure env (failure_rows now s (failed_billing b c2) c2 i r) (apply_hold now r) (failed_billing b c2) c2 = Inr t"
    unfolding record_failure_def Let_def c2_def [symmetric] by (auto simp: ebind_Inr_iff the_or_raise_Inr)
  show thesis
    using that [OF i r c2_def] notify_failure_fields [OF n]
    by (simp add: failure_rows_def save_reseller_def save_billing_def save_invoice_def save_cycle_def)
qed

text \<open>
  After the \<open>k\<close>-th failed attempt (\<open>k \<ge> 1\<close>) the cycle and its billing are past due (\<open>k = 1\<close>)
  or in grace (\<open>k > 1\<close>), the grace period ends the configured days after the due time, the next
  attempt is on the \<open>k\<close>-th retry day if there is one and then after the due time and within the grace
  period, and otherwise there is none; the claim is dropped, no service and no payment changes, and a
  reseller whose policy blocks new services is on hold for nonpayment.
\<close>

theorem failed_attempt_schedule:
  assumes "valid_recurring_config cfg" "record_failure cfg env now s b c code message incr = Inr t"
    "get_cycle s (bc_id c) = Some c0" "get_billing s (sb_id b) = Some b0" "k = bc_attempts c + (if incr then 1 else 0)" "1 \<le> k"
  shows "\<exists>c' b' r'. get_cycle t (bc_id c) = Some c' \<and> get_billing t (sb_id b) = Some b' \<and> billing_reseller t b' = Some r' \<and>
    bc_attempts c' = k \<and> sb_failed_attempts b' = k \<and> bc_claim_token c' = None \<and>
    bc_state c' = (if k = 1 then PAST_DUE else GRACE) \<and> sb_status b' = (if k = 1 then SB_PAST_DUE else SB_GRACE) \<and>
    bc_grace_until c' = Some (bc_due_at c + days (grace_days cfg)) \<and> sb_grace_until b' = bc_grace_until c' \<and>
    sb_next_retry_at b' = bc_next_retry_at c' \<and>
    (if k \<le> int (length (retry_day_offsets cfg))
     then \<exists>d. d = retry_day_offsets cfg ! nat (k - 1) \<and> bc_next_retry_at c' = Some (bc_due_at c + days d) \<and> 0 < d \<and> d \<le> grace_days cfg
     else bc_next_retry_at c' = None) \<and>
    (nonpayment_policy r' = BLOCK_NEW \<longrightarrow> billing_hold r' \<and> billing_hold_reason r' = Some ''nonpayment'') \<and>
    services t = services s \<and> payments t = payments s"
  using assms(2)
proof (rule record_failureE)
  fix i r c2
  assume r: "billing_reseller s b = Some r" and c2: "c2 = failed_cycle cfg (counted now incr c) (last_safe_failure s (bc_invoice_id c) code message)"
    and t: "billing_cycles t = put_row bc_id c2 (billing_cycles s)"
    "service_billings t = put_row sb_id (failed_billing b c2) (service_billings s)"
    "resellers t = put_row r_id (apply_hold now r) (resellers s)" "services t = services s" "payments t = payments s"
  have k: "bc_attempts c2 = k" "bc_id c2 = bc_id c" "bc_due_at c2 = bc_due_at c" using assms(5) by (simp_all add: c2)
  have c': "get_cycle t (bc_id c) = Some c2" using assms(3) by (simp add: get_cycle_def t get_put_row k)
  have b': "get_billing t (sb_id b) = Some (failed_billing b c2)"
    using assms(4) by (simp add: get_billing_def t get_put_row failed_billing_def)
  have r': "billing_reseller t (failed_billing b c2) = Some (apply_hold now r)"
    using r by (auto simp: billing_reseller_def get_reseller_def t get_put_row failed_billing_def split: option.splits dest: get_row_SomeD)
  have next_r: "bc_next_retry_at c2 = retry_time cfg (counted now incr c)" by (simp add: c2 failed_cycle_def)
  have retry: "if k \<le> int (length (retry_day_offsets cfg))
     then \<exists>d. d = retry_day_offsets cfg ! nat (k - 1) \<and> bc_next_retry_at c2 = Some (bc_due_at c + days d) \<and> 0 < d \<and> d \<le> grace_days cfg
     else bc_next_retry_at c2 = None"
  proof (cases "k \<le> int (length (retry_day_offsets cfg))")
    case True
    then have e: "retry_time cfg (counted now incr c) = Some (bc_due_at c + days (retry_day_offsets cfg ! nat (k - 1)))"
      using assms(5,6) by (simp add: retry_time_def)
    from retry_within_grace [OF assms(1) e] True e show ?thesis
      by (simp add: next_r grace_end_def days_def us_per_day_def)
  next
    case False
    then show ?thesis using assms(5) by (simp add: next_r retry_time_def)
  qed
  have f: "bc_claim_token c2 = None" "bc_state c2 = (if k = 1 then PAST_DUE else GRACE)"
    "bc_grace_until c2 = Some (bc_due_at c + days (grace_days cfg))"
    using k by (simp_all add: c2 failed_cycle_def grace_end_def)
  have g: "sb_failed_attempts (failed_billing b c2) = k" "sb_status (failed_billing b c2) = (if k = 1 then SB_PAST_DUE else SB_GRACE)"
    "sb_grace_until (failed_billing b c2) = bc_grace_until c2" "sb_next_retry_at (failed_billing b c2) = bc_next_retry_at c2"
    by (simp_all add: failed_billing_def k(1))
  have h: "nonpayment_policy (apply_hold now r) = BLOCK_NEW \<longrightarrow>
      billing_hold (apply_hold now r) \<and> billing_hold_reason (apply_hold now r) = Some ''nonpayment''"
    by (simp add: apply_hold_def hold_for_nonpayment_def)
  show ?thesis by (intro exI conjI) (rule c' b' r' k(1) g(1) f(1) f(2) g(2) f(3) g(3,4) retry h t(4,5))+
qed

text \<open>
  A reseller with 500 cents of credit, one service at 400 cents a month, due on the last day of
  January; the second store has its cycle, with the open invoice of 700 cents of the funding example.
\<close>

definition sample_billing :: "int \<Rightarrow> int option \<Rightarrow> service_billing" where
  "sample_billing i rid = \<lparr>sb_id = i, sb_service_id = i, sb_reseller_id = rid, sb_product_id = Some 1,
     sb_setup_price_cents = 0, sb_monthly_price_cents = 400, sb_currency = ''usd'', sb_next_charge_at = Some (days 30),
     sb_billing_anchor_day = None, sb_status = SB_ACTIVE, sb_failed_attempts = 0, sb_last_failure_code = None,
     sb_last_failure_message = None, sb_grace_until = None, sb_next_retry_at = None, sb_last_charged_at = None\<rparr>"

definition sample_cycle :: "BillingCycleState \<Rightarrow> int \<Rightarrow> instant option \<Rightarrow> instant option \<Rightarrow> billing_cycle" where
  "sample_cycle st k retry grace = \<lparr>bc_id = 1, bc_service_billing_id = 1, bc_invoice_id = Some 1, bc_due_at = days 30,
     bc_amount_cents = 700, bc_currency = ''USD'', bc_state = st, bc_attempts = k, bc_last_attempt_at = None,
     bc_next_retry_at = retry, bc_grace_until = grace, bc_failure_code = None, bc_failure_message = None,
     bc_claim_token = None, bc_claim_expires_at = None, bc_paid_at = None, bc_completed_at = None\<rparr>"

definition sample_recurring :: "billing_cycle list \<Rightarrow> store" where
  "sample_recurring cs = sample_funding\<lparr>services := [sample_service 1 HTTP_PROXY SVC_ACTIVE],
     service_billings := [sample_billing 1 (Some 1)], billing_cycles := cs\<rparr>"

definition sample_recurring_env :: "GatewayResultStatus \<Rightarrow> recurring_env" where
  "sample_recurring_env st = \<lparr>rb_gateways = sample_registry st,
     rb_lifecycle = sample_env \<lparr>power_state = None, power_off = Powered True\<rparr>, rb_dialect = Sqlite,
     isoformat = show_int, fund_time = (\<lambda>_. 7)\<rparr>"

lemma sample_config_valid: "valid_recurring_config sample_config"
  by (simp add: valid_recurring_config_def sample_config_def)

theorem failed_attempt_schedule_witness:
  "\<exists>t c'. record_failure sample_config (sample_recurring_env GW_DECLINED) (days 30) (sample_recurring [sample_cycle DUE 1 None None])
       (sample_billing 1 (Some 1)) (sample_cycle DUE 1 None None) None None True = Inr t \<and>
     get_cycle t 1 = Some c' \<and> bc_next_retry_at c' = Some (days 33) \<and> bc_grace_until c' = Some (days 37)"
proof -
  let ?c = "sample_cycle DUE 1 None None" and ?b = "sample_billing 1 (Some 1)"
  let ?s = "sample_recurring [sample_cycle DUE 1 None None]"
  let ?m = "record_failure sample_config (sample_recurring_env GW_DECLINED) (days 30) ?s ?b ?c None None True"
  have "\<not> isl ?m" by code_simp
  then obtain t where t: "?m = Inr t" by (cases ?m) auto
  have "get_cycle ?s (bc_id ?c) = Some ?c" "get_billing ?s (sb_id ?b) = Some ?b" "2 = bc_attempts ?c + (if True then 1 else 0)" "(1 :: int) \<le> 2"
    by (simp_all add: get_cycle_def get_billing_def sample_recurring_def sample_cycle_def sample_billing_def)
  from failed_attempt_schedule [OF sample_config_valid t this] obtain c' where
    c': "get_cycle t (bc_id ?c) = Some c'" "bc_grace_until c' = Some (bc_due_at ?c + days (grace_days sample_config))"
      "if 2 \<le> int (length (retry_day_offsets sample_config))
       then \<exists>d. d = retry_day_offsets sample_config ! nat (2 - 1) \<and> bc_next_retry_at c' = Some (bc_due_at ?c + days d) \<and> 0 < d \<and> d \<le> grace_days sample_config
       else bc_next_retry_at c' = None" by blast
  then have "bc_next_retry_at c' = Some (days 33)" "bc_grace_until c' = Some (days 37)" "get_cycle t 1 = Some c'"
    by (simp_all add: sample_cycle_def sample_config_def days_def us_per_day_def)
  with t show ?thesis by blast
qed

text \<open>
  Between attempts recurring billing waits. While the next retry lies ahead, or the retries are
  used up and the grace period still runs, processing the billing reports it as processed and changes
  nothing: no gateway is called, whatever the gateways are.
\<close>

theorem waits_between_attempts:
  assumes "recurring_ok cfg s" "get_billing s n = Some b" "get_service s (sb_service_id b) = Some v" "svc_status v \<noteq> SVC_TERMINATED"
    "current_cycle s b = Some c" "cycle_invoice s c = Some i" "inv_status i \<noteq> PAID" "bc_state c \<in> {PAST_DUE, GRACE}"
    "(\<exists>t. bc_next_retry_at c = Some t \<and> now < t \<and> \<not> should_suspend cfg now c) \<or>
     (int (length (retry_day_offsets cfg)) < bc_attempts c \<and> (\<exists>t. bc_grace_until c = Some t \<and> now < t))"
  shows "\<forall>env. process_billing cfg env now s n owner = Inr (Processed, s)"
proof
  fix env
  have c: "get_cycle s (bc_id c) = Some c"
    using current_cycleD [OF assms(5)] assms(1) by (simp add: get_cycle_def get_row_Some_iff recurring_ok_def cycles_ok_def)
  have st: "bc_state c \<noteq> MANUAL_REVIEW" "bc_state c \<noteq> PROCESSING" "bc_state c \<noteq> CYCLE_PENDING_ACTION" "bc_state c \<noteq> DUE"
    using assms(8) by auto
  have "\<not> should_suspend cfg now c" using assms(9) by (auto simp: should_suspend_def)
  then have "suspension_outcome cfg env now s b' c = Inr (None, s)" for b' by (simp add: suspension_outcome_def)
  moreover have "initial_cycle_outcome env now s b' c owner = Inr (None, s)" for b'
    using st assms(6,7) by (simp add: initial_cycle_outcome_def claimed_by_another_worker_def)
  moreover have "handle_pending_action cfg env s b' c = Inr (None, s)" for b' using st by (simp add: handle_pending_action_def)
  moreover have "retry_is_not_due cfg now c" using assms(9) st by (auto simp: retry_is_not_due_def retries_exhausted_def)
  moreover have "live_cycle s c = c" using c by (simp add: live_cycle_def)
  ultimately have "process_cycle cfg env now s b' c owner = Inr (Processed, s)" for b'
    by (simp add: process_cycle_def since_commit_def Let_def)
  then show "process_billing cfg env now s n owner = Inr (Processed, s)"
    using assms(2-5) by (simp add: process_billing_def since_commit_def reload_def)
qed

lemma sample_recurring_funding: "funding_ok (sample_recurring cs)"
proof -
  have "funding_ok (sample_recurring cs) = funding_ok sample_funding"
    by (rule funding_ok_cong) (simp_all add: sample_recurring_def)
  then show ?thesis using sample_funding_ok by simp
qed

lemmas sample_recurring_defs = recurring_ok_def cycles_ok_def sample_recurring_def sample_funding_def empty_store_def sample_cycle_def
  sample_invoice_def sample_billing_def unique_on_def grace_ok_def grace_end_def sample_config_def days_def us_per_day_def

lemma sample_recurring_Nil: "recurring_ok sample_config (sample_recurring [])"
  using sample_recurring_funding [of "[]"] by (simp add: sample_recurring_defs)

lemma sample_recurring_Cons:
  "0 \<le> k \<Longrightarrow> g = None \<or> g = Some (days 37) \<Longrightarrow> recurring_ok sample_config (sample_recurring [sample_cycle st k retry g])"
  using sample_recurring_funding [of "[sample_cycle st k retry g]"] by (auto simp: sample_recurring_defs)

theorem waits_between_attempts_witness:
  "\<forall>env. process_billing sample_config env (days 32) (sample_recurring [sample_cycle PAST_DUE 2 (Some (days 33)) (Some (days 37))]) 1 ''w'' =
     Inr (Processed, sample_recurring [sample_cycle PAST_DUE 2 (Some (days 33)) (Some (days 37))])"
proof -
  let ?c = "sample_cycle PAST_DUE 2 (Some (days 33)) (Some (days 37))"
  have "get_billing (sample_recurring [?c]) 1 = Some (sample_billing 1 (Some 1))"
    "get_service (sample_recurring [?c]) (sb_service_id (sample_billing 1 (Some 1))) = Some (sample_service 1 HTTP_PROXY SVC_ACTIVE)"
    "svc_status (sample_service 1 HTTP_PROXY SVC_ACTIVE) \<noteq> SVC_TERMINATED"
    "current_cycle (sample_recurring [?c]) (sample_billing 1 (Some 1)) = Some ?c"
    "cycle_invoice (sample_recurring [?c]) ?c = Some (sample_invoice 1 100001 700)" "inv_status (sample_invoice 1 100001 700) \<noteq> PAID"
    "bc_state ?c \<in> {PAST_DUE, GRACE}" "\<not> should_suspend sample_config (days 32) ?c"
    by (simp_all add: get_billing_def get_service_def current_cycle_def cycle_invoice_def get_invoice_def sample_recurring_def
        sample_billing_def sample_service_def sample_cycle_def sample_funding_def sample_invoice_def terminal_states_def
        should_suspend_def retries_exhausted_def sample_config_def)
  moreover have "bc_next_retry_at ?c = Some (days 33)" "days 32 < days 33" by (simp_all add: sample_cycle_def days_def us_per_day_def)
  moreover have "recurring_ok sample_config (sample_recurring [?c])" by (rule sample_recurring_Cons) simp_all
  ultimately show ?thesis by (intro waits_between_attempts) blast+
qed

section \<open>The books over any iterations\<close>

datatype iteration = Iteration recurring_env instant instant string

inductive recurring_step :: "recurring_config \<Rightarrow> store \<Rightarrow> iteration \<Rightarrow> store \<Rightarrow> bool" for cfg where
  "run_recurring_billing_iteration cfg env now later s owner = (res, t) \<Longrightarrow> recurring_step cfg s (Iteration env now later owner) t"

inductive_cases recurring_stepE: "recurring_step cfg s x t"

interpretation recurring: transition_system "recurring_ok cfg" "recurring_step cfg" "recurring_ok cfg" for cfg
  by standard (auto elim!: recurring_stepE intro: iteration_ok)

text \<open>
  C24: over any sequence of worker iterations, with any owners and clocks and whatever gateways and
  plugins answer or raise, the books stay consistent (the ledger balances, no invoice is over-allocated,
  a paid invoice is covered, notifications are unique), a billing has at most one cycle per due time, an
  invoice belongs to at most one cycle, and every grace period ends the configured days after its due
  time.
\<close>

theorem recurring_keeps_books:
  assumes "recurring_ok cfg s" "runs (recurring_step cfg) s xs t"
  shows "funding_ok t \<and> distinct (map (\<lambda>c. (bc_service_billing_id c, bc_due_at c)) (billing_cycles t)) \<and>
    unique_on bc_invoice_id (billing_cycles t) \<and>
    list_all (\<lambda>c. bc_grace_until c \<in> {None, Some (bc_due_at c + days (grace_days cfg))}) (billing_cycles t)"
proof -
  have "recurring_ok cfg t" using recurring.runs_inv [OF assms(2,1)] .
  then show ?thesis by (auto simp: recurring_ok_def cycles_ok_def grace_ok_def grace_end_def list_all_iff)
qed

theorem recurring_keeps_books_witness:
  "\<exists>t. runs (recurring_step sample_config) (sample_recurring []) [Iteration (sample_recurring_env GW_SUCCEEDED) (days 31) (days 31) ''w''] t \<and>
     funding_ok t \<and> unique_on bc_invoice_id (billing_cycles t)"
proof -
  let ?run = "run_recurring_billing_iteration sample_config (sample_recurring_env GW_SUCCEEDED) (days 31) (days 31) (sample_recurring []) ''w''"
  have r: "runs (recurring_step sample_config) (sample_recurring []) [Iteration (sample_recurring_env GW_SUCCEEDED) (days 31) (days 31) ''w''] (snd ?run)"
    by (auto intro: recurring_step.intros [of _ _ _ _ _ _ "fst ?run"])
  with recurring_keeps_books [OF sample_recurring_Nil r] show ?thesis by blast
qed

end
