(* ===== verification/Nonpayment.thy ===== *)
theory Nonpayment
  imports Dunning
begin

text \<open>
  Suspension and recovery: which services recurring billing may suspend and when, and what a paid
  cycle leaves behind.
\<close>

section \<open>Which services are suspended\<close>

text \<open>Between two stores only services in \<open>X\<close> became suspended, and no service row came or went.\<close>

definition only_suspends :: "int set \<Rightarrow> store \<Rightarrow> store \<Rightarrow> bool" where
  "only_suspends X s t \<longleftrightarrow> map svc_id (services t) = map svc_id (services s) \<and>
     (\<forall>i v w. get_service s i = Some v \<longrightarrow> svc_status v \<noteq> SVC_SUSPENDED \<longrightarrow>
        get_service t i = Some w \<longrightarrow> svc_status w = SVC_SUSPENDED \<longrightarrow> i \<in> X)"

lemma only_suspends_refl [simp]: "only_suspends X s s"
  by (simp add: only_suspends_def)

lemma only_suspends_eq: "services t = services s \<Longrightarrow> only_suspends X s t"
  by (simp add: only_suspends_def get_service_def)

lemma get_service_ids: "map svc_id (services t) = map svc_id (services s) \<Longrightarrow> get_service t i = None \<longleftrightarrow> get_service s i = None"
  unfolding get_service_def get_row_None_iff by (metis list.set_map)

lemma only_suspends_trans:
  assumes "only_suspends X s t" "only_suspends X t u"
  shows "only_suspends X s u"
proof -
  have "i \<in> X" if h: "get_service s i = Some v" "svc_status v \<noteq> SVC_SUSPENDED" "get_service u i = Some w" "svc_status w = SVC_SUSPENDED" for i v w
  proof -
    obtain x where x: "get_service t i = Some x"
      using assms(1) h(1) get_service_ids [of t s i] by (cases "get_service t i") (auto simp: only_suspends_def)
    then show ?thesis using assms h by (cases "svc_status x = SVC_SUSPENDED") (auto simp: only_suspends_def)
  qed
  then show ?thesis using assms by (simp add: only_suspends_def)
qed

lemma only_suspends_mono: "only_suspends X s t \<Longrightarrow> X \<subseteq> Y \<Longrightarrow> only_suspends Y s t"
  by (auto simp: only_suspends_def)

lemma only_suspends_save:
  assumes "get_service s (svc_id v) = Some v0" "svc_status v = SVC_SUSPENDED \<longrightarrow> svc_status v0 = SVC_SUSPENDED \<or> svc_id v \<in> X"
  shows "only_suspends X s (save_service v s)"
proof -
  have "map svc_id (services (save_service v s)) = map svc_id (services s)" by (simp add: save_service_def)
  then show ?thesis using assms by (auto simp: only_suspends_def get_service_save split: if_splits)
qed

lemma suspend_only:
  assumes "get_service s i = Some v" "suspend env s v = Inr (ch, t)"
  shows "only_suspends {i} s t"
  using assms(2)
proof (cases rule: suspendE)
  case act
  have "svc_id v = i" using get_serviceD [OF assms(1)] by simp
  then show ?thesis using assms(1) act(2) only_suspends_save [of s "v\<lparr>svc_status := SVC_SUSPENDED\<rparr>" v "{i}"] by simp
qed simp

lemma unsuspend_only:
  assumes "get_service s i = Some v"
  shows "only_suspends {} s (snd (unsuspend s v))"
  using assms get_serviceD [OF assms] only_suspends_save [of s "v\<lparr>svc_status := SVC_ACTIVE\<rparr>" v "{}"] by (simp add: unsuspend_def)

lemma services_save [simp]:
  "services (save_billing b s) = services s" "services (save_cycle c s) = services s"
  "services (save_reseller r s) = services s" "services (save_invoice j s) = services s"
  by (simp_all add: save_billing_def save_cycle_def save_reseller_def save_invoice_def)

lemma get_service_saves [simp]:
  "get_service (save_billing b s) i = get_service s i" "get_service (save_cycle c s) i = get_service s i"
  by (simp_all add: get_service_def)

lemma suspend_billing_row_only:
  assumes "suspend_billing_row env s b c = Inr (res, t)"
  shows "only_suspends {sb_service_id b} s t"
proof -
  obtain mk fl where "res = (mk, fl)" by (cases res)
  with assms have "suspend_billing_row env s b c = Inr ((mk, fl), t)" by simp
  then show ?thesis
  proof (cases rule: suspend_billing_rowE)
    case (suspended v ch)
    then show ?thesis by (intro suspend_only)
  next
    case (marked v ch s1)
    from marked(4) obtain r key d where n: "notify (save_billing (b\<lparr>sb_status := SUSPENDED_NONPAYMENT, sb_next_retry_at := None\<rparr>) s1) r ''service_suspended'' key d = Inr t"
      unfolding mark_suspended_def Let_def ebind_Inr_iff by blast
    have "services t = services s1" using notify_fields(3) [OF n] by simp
    then show ?thesis using suspend_only [OF marked(1,2)] by (blast intro: only_suspends_trans only_suspends_eq)
  qed simp
qed

lemma suspend_rows_only:
  "suspend_rows env s n c bs x y = Inr (res, t) \<Longrightarrow> only_suspends (sb_service_id ` set bs) s t"
proof (induction bs arbitrary: s x y)
  case (Cons b bs)
  then obtain mk fl s1 where r: "suspend_billing_row env s b c = Inr ((mk, fl), s1)"
    and rest: "suspend_rows env s1 n c bs (x \<or> (sb_id b = n \<and> mk)) (y \<or> fl) = Inr (res, t)"
    by (auto simp: ebind_Inr_iff)
  have "only_suspends (sb_service_id ` set (b # bs)) s s1" using suspend_billing_row_only [OF r] by (rule only_suspends_mono) simp
  moreover have "only_suspends (sb_service_id ` set (b # bs)) s1 t" using Cons.IH [OF rest] by (rule only_suspends_mono) auto
  ultimately show ?case by (rule only_suspends_trans)
qed simp

text \<open>The billings whose services a suspension for nonpayment of \<open>b\<close> may reach.\<close>

definition in_reach :: "store \<Rightarrow> service_billing \<Rightarrow> service_billing \<Rightarrow> bool" where
  "in_reach s b x \<longleftrightarrow> x = b \<or>
     x \<in> set (service_billings s) \<and> sb_reseller_id x = sb_reseller_id b \<and> sb_status x \<noteq> SB_CANCELLED \<and>
     (\<exists>r. billing_reseller s b = Some r \<and> nonpayment_policy r = SUSPEND_ALL)"

lemma suspension_rows_reach: "suspension_rows s b = Inr bs \<Longrightarrow> x \<in> set bs \<Longrightarrow> in_reach s b x"
  by (auto simp: suspension_rows_def ebind_Inr_iff the_or_raise_Inr in_reach_def split: if_splits)

lemma suspend_for_nonpayment_only:
  assumes "suspend_for_nonpayment env now s b c = Inr (x, t)"
  shows "only_suspends (sb_service_id ` {y. in_reach s b y}) s t"
proof -
  from assms obtain rows ts lf s1 where rows: "suspension_rows s b = Inr rows"
    and sr: "suspend_rows env s (sb_id b) c rows False False = Inr ((ts, lf), s1)"
    and "(if lf \<and> \<not> ts then Inr (False, record_suspension_failure now s1 (live_billing s1 b) c)
        else ebind (record_suspension now s1 (live_billing s1 b) c ts) (\<lambda>s2. Inr (ts, s2))) = Inr (x, t)"
    by (auto simp: suspend_for_nonpayment_def Let_def ebind_Inr_iff simp del: if_split_eq1 if_split_eq2)
  then have "services t = services s1"
    by (auto simp: ebind_Inr_iff record_suspension_def record_suspension_failure_def Let_def split: if_splits)
  moreover have "only_suspends (sb_service_id ` {y. in_reach s b y}) s s1"
    using suspend_rows_only [OF sr] by (rule only_suspends_mono) (auto dest: suspension_rows_reach [OF rows])
  ultimately show ?thesis by (blast intro: only_suspends_trans only_suspends_eq)
qed

section \<open>Steps that suspend nothing\<close>

lemma resume_service_calm: "resume_service s b = Inr t \<Longrightarrow> only_suspends {} s t"
  by (auto simp: resume_service_def ebind_Inr_iff the_or_raise_Inr split: if_splits intro: unsuspend_only)

lemma restore_rows_calm: "restore_rows s bs = Inr t \<Longrightarrow> only_suspends {} s t"
proof (induction bs arbitrary: s)
  case (Cons b bs)
  from Cons.prems obtain v where v: "get_service s (sb_service_id b) = Some v"
    and rest: "restore_rows (save_billing (b\<lparr>sb_status := SB_ACTIVE\<rparr>) (if svc_status v = SVC_SUSPENDED then snd (unsuspend s v) else s)) bs = Inr t"
    by (auto simp: ebind_Inr_iff the_or_raise_Inr Let_def)
  have "only_suspends {} s (if svc_status v = SVC_SUSPENDED then snd (unsuspend s v) else s)" using unsuspend_only [OF v] by simp
  moreover have "only_suspends {} u (save_billing b' u)" for b' u by (rule only_suspends_eq) simp
  ultimately show ?case using Cons.IH [OF rest] by (blast intro: only_suspends_trans)
qed simp

lemma restore_reseller_calm:
  assumes "restore_reseller now s r n = Inr t"
  shows "only_suspends {} s t"
proof (cases "has_overdue_cycles s (r_id r) n")
  case False
  with assms obtain s1 where "restore_rows s (filter (\<lambda>b. sb_reseller_id b = Some (r_id r) \<and> sb_status b = SUSPENDED_NONPAYMENT) (service_billings s)) = Inr s1"
    and t: "t = save_reseller (clear_hold now r) s1" by (auto simp: restore_reseller_def restore_cascade_def ebind_Inr_iff)
  from restore_rows_calm [OF this(1)] t show ?thesis by (simp add: only_suspends_def get_service_def)
qed (use assms in \<open>simp add: restore_reseller_def\<close>)

lemma complete_paid_cycle_calm:
  assumes "complete_paid_cycle env now s c = Inr t"
  shows "only_suspends {} s t"
  using assms
proof (rule complete_paid_cycleE)
  fix b i r s1 s2
  assume 1: "resume_service (save_billing (paid_billing (paid_cycle now i c) b) (save_cycle (paid_cycle now i c) s)) b = Inr s1"
    and 2: "restore_reseller now s1 r (bc_id c) = Inr s2"
    and 3: "notify_recovery env s2 r (is_recovery c b) (paid_billing (paid_cycle now i c) b) (paid_cycle now i c) = Inr t"
  have "services t = services s2" using 3 by (auto simp: notify_recovery_def split: if_splits dest: notify_fields)
  moreover have "only_suspends {} s s1" using resume_service_calm [OF 1] by (simp add: only_suspends_def get_service_def)
  ultimately show ?thesis using restore_reseller_calm [OF 2] by (blast intro: only_suspends_trans only_suspends_eq)
qed

lemma record_pending_action_services: "record_pending_action cfg env now s b c = Inr t \<Longrightarrow> services t = services s"
  by (auto simp: record_pending_action_def Let_def ebind_Inr_iff dest!: notify_fields(3))

lemma record_failure_services: "record_failure cfg env now s b c code msg incr = Inr t \<Longrightarrow> services t = services s"
  by (erule record_failureE) simp

lemma settle_attempt_calm:
  assumes "settle_attempt cfg env now s b c funding = Inr (out, t)"
  shows "only_suspends {} s t"
  using assms
proof (cases rule: settle_attemptE)
  case (paid n i s1)
  have "services s1 = services s" using same_rest_mark [OF paid(4)] by (simp add: same_rest_def)
  then show ?thesis using complete_paid_cycle_calm [OF paid(5)] by (blast intro: only_suspends_trans only_suspends_eq)
qed (auto intro: only_suspends_eq dest: record_pending_action_services record_failure_services)

lemma fund_cycle_services: "fund_cycle env s b c = Inr (res, t) \<Longrightarrow> services t = services s"
proof -
  assume "fund_cycle env s b c = Inr (res, t)"
  then obtain r :: reseller and i :: invoice where "fund_invoice (rb_gateways env) (fund_time env (bc_id c)) s (r_id r) (inv_id i) None = Inr (res, t)"
    unfolding fund_cycle_def ebind_Inr_iff the_or_raise_Inr by blast
  from funds_only_fund [OF this] show ?thesis by (simp add: funds_only_def same_rest_def)
qed

lemma attempt_payment_calm: "only_suspends {} s (committed (attempt_payment cfg env now s b c owner))"
proof -
  let ?c = "claim_cycle cfg now owner c"
  have 1: "only_suspends {} s (save_cycle ?c s)" by (rule only_suspends_eq) simp
  show ?thesis
  proof (cases "fund_cycle env (save_cycle ?c s) b ?c")
    case (Inl e)
    show ?thesis
    proof (cases "record_failure cfg env now (save_cycle ?c s) b ?c (Some (exn_name e)) (Some ''Payment processing failed'') True")
      case (Inl e')
      with \<open>fund_cycle env (save_cycle ?c s) b ?c = Inl e\<close> 1 show ?thesis
        by (simp add: attempt_payment_def Let_def since_commit_def)
    next
      case (Inr t)
      with \<open>fund_cycle env (save_cycle ?c s) b ?c = Inl e\<close> record_failure_services [OF Inr] show ?thesis
        by (simp add: attempt_payment_def Let_def since_commit_def only_suspends_eq)
    qed
  next
    case (Inr x)
    obtain fn s2 where x: "x = (fn, s2)" by (cases x)
    have 2: "only_suspends {} s s2" using fund_cycle_services [OF Inr [unfolded x]] by (intro only_suspends_eq) simp
    show ?thesis
    proof (cases "settle_attempt cfg env now s2 b ?c fn")
      case (Inl e)
      with Inr x 1 show ?thesis by (simp add: attempt_payment_def Let_def since_commit_def)
    next
      case (Inr y)
      then show ?thesis using 2 \<open>fund_cycle env (save_cycle ?c s) b ?c = Inr x\<close> x settle_attempt_calm [of cfg env now s2 b ?c fn "fst y" "snd y"]
        by (cases y) (auto simp: attempt_payment_def Let_def since_commit_def intro: only_suspends_trans)
    qed
  qed
qed

lemma initial_cycle_outcome_calm: "initial_cycle_outcome env now s b c owner = Inr (x, t) \<Longrightarrow> only_suspends {} s t"
  by (auto simp: initial_cycle_outcome_def mark_manual_def ebind_Inr_iff split: if_splits option.splits
      intro: complete_paid_cycle_calm only_suspends_eq)

lemma handle_pending_action_services: "handle_pending_action cfg env s b c = Inr (x, t) \<Longrightarrow> services t = services s"
  by (auto simp: handle_pending_action_def schedule_after_pending_failure_def Let_def ebind_Inr_iff split: if_splits dest: notify_fields)

text \<open>Stages of a transaction for any property of the committed store.\<close>

lemma committed_stage_any:
  assumes "P s" "\<And>x t. m = Inr (x, t) \<Longrightarrow> P (committed (k (x, t)))"
  shows "P (committed (ebind (since_commit s m) k))"
  using assms by (cases m) (auto simp: since_commit_def)

lemma suspension_outcome_only:
  assumes "suspension_outcome cfg env now s b c = Inr (x, t)"
  shows "x = None \<and> t = s \<or> should_suspend cfg now c \<and> x \<noteq> None \<and> only_suspends (sb_service_id ` {y. in_reach s b y}) s t"
  using assms suspend_for_nonpayment_only [of env now s b c]
  by (fastforce simp: suspension_outcome_def ebind_Inr_iff split: if_splits)

lemma initial_cycle_outcome_None:
  "initial_cycle_outcome env now s b c owner = Inr (None, t) \<Longrightarrow> t = s \<and> (\<exists>i. cycle_invoice s c = Some i \<and> inv_status i \<noteq> PAID)"
  by (auto simp: initial_cycle_outcome_def ebind_Inr_iff split: if_splits option.splits)

text \<open>When the cycle may be suspended, and which services then.\<close>

definition suspendable :: "recurring_config \<Rightarrow> instant \<Rightarrow> store \<Rightarrow> service_billing \<Rightarrow> billing_cycle \<Rightarrow> int set" where
  "suspendable cfg now s b c =
     (if should_suspend cfg now c \<and> (\<exists>i. cycle_invoice s c = Some i \<and> inv_status i \<noteq> PAID)
      then sb_service_id ` {y. in_reach s b y} else {})"

lemma process_cycle_suspends: "only_suspends (suspendable cfg now s b c) s (committed (process_cycle cfg env now s b c owner))"
  unfolding process_cycle_def
proof (rule committed_stage_any [OF only_suspends_refl], goal_cases initial)
  case (initial x1 s1)
  let ?X = "suspendable cfg now s b c"
  have e: "only_suspends {} s t \<Longrightarrow> only_suspends ?X s t" for t by (erule only_suspends_mono) simp
  show ?case
  proof (cases x1)
    case (Some out)
    then show ?thesis using e initial_cycle_outcome_calm [OF initial] by simp
  next
    case None
    then have s1: "s1 = s" and open_i: "\<exists>i. cycle_invoice s c = Some i \<and> inv_status i \<noteq> PAID" using initial initial_cycle_outcome_None by blast+
    have pay: "only_suspends ?X s (committed (if retry_is_not_due cfg now c3 then Inr (Processed, s3) else attempt_payment cfg env now s3 b3 c3 owner))"
      if "services s3 = services s" for s3 b3 c3
    proof -
      have "only_suspends {} s s3" using that by (rule only_suspends_eq)
      then show ?thesis using e attempt_payment_calm [of s3 cfg env now b3 c3 owner] by (auto intro: only_suspends_trans)
    qed
    have "only_suspends ?X s (committed (ebind (since_commit s (handle_pending_action cfg env s b c)) (\<lambda>(pending, s3).
        case pending of Some out \<Rightarrow> Inr (out, s3) | None \<Rightarrow> let b3 = live_billing s3 b; c3 = live_cycle s3 c in
          if retry_is_not_due cfg now c3 then Inr (Processed, s3) else attempt_payment cfg env now s3 b3 c3 owner)))"
    proof (rule committed_stage_any [OF only_suspends_refl])
      fix x3 s3 assume "handle_pending_action cfg env s b c = Inr (x3, s3)"
      then have "services s3 = services s" by (rule handle_pending_action_services)
      then show "only_suspends ?X s (committed (case (x3, s3) of (pending, s3) \<Rightarrow> case pending of Some out \<Rightarrow> Inr (out, s3) | None \<Rightarrow>
          let b3 = live_billing s3 b; c3 = live_cycle s3 c in
          if retry_is_not_due cfg now c3 then Inr (Processed, s3) else attempt_payment cfg env now s3 b3 c3 owner))"
        using pay by (cases x3) (simp_all add: Let_def only_suspends_eq)
    qed
    moreover have "only_suspends ?X s s2" if "suspension_outcome cfg env now s b c = Inr (Some out, s2)" for out s2
      using suspension_outcome_only [OF that] open_i by (auto simp: suspendable_def)
    moreover have "s2 = s" if "suspension_outcome cfg env now s b c = Inr (None, s2)" for s2
      using suspension_outcome_only [OF that] by auto
    ultimately show ?thesis using None s1
      by (cases "suspension_outcome cfg env now s b c") (auto simp: since_commit_def split: option.split)
  qed
qed

section \<open>Properties\<close>

lemma should_suspend_grace:
  assumes "recurring_ok cfg s" "c \<in> set (billing_cycles s)" "should_suspend cfg now c"
  shows "bc_due_at c + days (grace_days cfg) \<le> now"
proof -
  have "grace_ok cfg c" using assms(1,2) by (auto simp: recurring_ok_def cycles_ok_def list_all_iff)
  with assms(3) show ?thesis by (auto simp: should_suspend_def grace_ok_def grace_end_def split: option.splits)
qed

lemma open_cycle_fresh:
  assumes "recurring_ok cfg s" "b \<in> set (service_billings s)" "open_cycle env now s b due = Inr (c, t)"
  shows "\<not> should_suspend cfg now' c" "services t = services s"
proof -
  have "bc_grace_until c = None" using assms(3) by (cases rule: open_cycleE) simp_all
  then show "\<not> should_suspend cfg now' c" by (simp add: should_suspend_def)
  show "services t = services s" using open_cycle_opens [OF assms] by (simp add: opens_def)
qed

lemma ensure_cycle_cases:
  assumes "recurring_ok cfg s" "ensure_cycle env now s b = Inr (c, t)"
  obtains "t = s" "c \<in> set (billing_cycles s)" "bc_service_billing_id c = sb_id b"
  | due where "open_cycle env now s b due = Inr (c, t)"
proof -
  define due where "due = (case sb_next_charge_at b of None \<Rightarrow> now | Some d \<Rightarrow> d)"
  show thesis
  proof (cases "cycles_due s b due")
    case Nil
    with assms(2) show thesis unfolding ensure_cycle_def Let_def due_def [symmetric]
      by (cases "open_cycle env now s b due") (auto split: if_splits intro: that(2) [of due])
  next
    case (Cons x xs)
    then have "xs = []" using assms(1) cycles_due_unique [of cfg s b due] by (simp add: recurring_ok_def)
    moreover have "x \<in> set (cycles_due s b due)" using Cons by simp
    ultimately show thesis using assms(2) Cons that(1) unfolding ensure_cycle_def Let_def due_def [symmetric]
      by (auto simp: cycles_due_def)
  qed
qed

lemma process_billing_suspends:
  assumes ok: "recurring_ok cfg s" and b: "get_billing s n = Some b"
  shows "\<exists>X. only_suspends X s (committed (process_billing cfg env now s n owner)) \<and>
    (X = {} \<or> (\<exists>c \<in> set (billing_cycles s). bc_service_billing_id c = n \<and> X = suspendable cfg now s b c))"
proof -
  have id: "sb_id b = n" "b \<in> set (service_billings s)" using b by (auto simp: get_billing_def dest: get_row_SomeD)
  have live: "live_billing s b = b" using b id by (simp add: live_billing_def)
  show ?thesis
  proof (cases "case get_service s (sb_service_id b) of None \<Rightarrow> True | Some v \<Rightarrow> svc_status v = SVC_TERMINATED")
    case True
    have "services (cancel_billing now s b) = services s" by (auto simp: cancel_billing_def Let_def split: option.split)
    with True b show ?thesis by (intro exI [of _ "{}"]) (simp add: process_billing_def reload_def since_commit_def only_suspends_eq)
  next
    case alive: False
    show ?thesis
    proof (cases "current_cycle s b")
      case (Some c)
      with alive b live have "process_billing cfg env now s n owner = process_cycle cfg env now s b c owner"
        by (simp add: process_billing_def reload_def since_commit_def)
      then show ?thesis using process_cycle_suspends [of cfg now s b c env owner] current_cycleD [OF Some] id by auto
    next
      case None
      with alive b have e: "process_billing cfg env now s n owner =
          ebind (since_commit s (ensure_cycle env now s b)) (\<lambda>(c, s1). process_cycle cfg env now s1 (live_billing s1 b) c owner)"
        by (simp add: process_billing_def reload_def since_commit_def)
      show ?thesis
      proof (cases "ensure_cycle env now s b")
        case (Inl x)
        then show ?thesis by (intro exI [of _ "{}"]) (simp add: e since_commit_def)
      next
        case (Inr x)
        obtain c t where x: "x = (c, t)" by (cases x)
        have p: "process_billing cfg env now s n owner = process_cycle cfg env now t (live_billing t b) c owner"
          by (simp add: e Inr x since_commit_def)
        from ok Inr [unfolded x] show ?thesis
        proof (cases rule: ensure_cycle_cases)
          case 1
          then show ?thesis using process_cycle_suspends [of cfg now s b c env owner] id live p by auto
        next
          case (2 due)
          note f = open_cycle_fresh [OF ok id(2) 2]
          have "suspendable cfg now t (live_billing t b) c = {}" using f(1) by (simp add: suspendable_def)
          then have "only_suspends {} t (committed (process_billing cfg env now s n owner))"
            using process_cycle_suspends [of cfg now t "live_billing t b" c env owner] p by simp
          then show ?thesis using f(2) by (intro exI [of _ "{}"]) (simp add: only_suspends_def get_service_def)
        qed
      qed
    qed
  qed
qed

text \<open>
  C25: a service is suspended for nonpayment only after the grace period and the retries. If
  processing a billing leaves a service suspended that was not, then the billing has a cycle with an
  unpaid invoice, the configured grace days have passed since its due time, and either every retry has
  been used or the payment waits for an action; and the service belongs to this billing or, under the
  policy that suspends all, to another uncancelled billing of the same reseller.
\<close>

theorem suspension_needs_grace:
  assumes "recurring_ok cfg s" "get_billing s n = Some b"
    "get_service s i = Some v" "svc_status v \<noteq> SVC_SUSPENDED"
    "get_service (committed (process_billing cfg env now s n owner)) i = Some w" "svc_status w = SVC_SUSPENDED"
  shows "\<exists>c j x. c \<in> set (billing_cycles s) \<and> bc_service_billing_id c = n \<and> cycle_invoice s c = Some j \<and> inv_status j \<noteq> PAID \<and>
    bc_due_at c + days (grace_days cfg) \<le> now \<and>
    (int (length (retry_day_offsets cfg)) < bc_attempts c \<or> bc_state c = CYCLE_PENDING_ACTION) \<and>
    sb_service_id x = i \<and> (x = b \<or> x \<in> set (service_billings s) \<and> sb_reseller_id x = sb_reseller_id b \<and>
      sb_status x \<noteq> SB_CANCELLED \<and> (\<exists>r. billing_reseller s b = Some r \<and> nonpayment_policy r = SUSPEND_ALL))"
proof -
  from process_billing_suspends [OF assms(1,2)] obtain X where
    X: "only_suspends X s (committed (process_billing cfg env now s n owner))"
      "X = {} \<or> (\<exists>c \<in> set (billing_cycles s). bc_service_billing_id c = n \<and> X = suspendable cfg now s b c)" by blast
  have "i \<in> X" using X(1) assms(3-6) unfolding only_suspends_def by blast
  with X(2) obtain c where c: "c \<in> set (billing_cycles s)" "bc_service_billing_id c = n" and iX: "i \<in> suspendable cfg now s b c" by blast
  then obtain j x where sh: "should_suspend cfg now c" and j: "cycle_invoice s c = Some j" "inv_status j \<noteq> PAID"
    and x: "in_reach s b x" "sb_service_id x = i" by (auto simp: suspendable_def split: if_splits)
  have "bc_due_at c + days (grace_days cfg) \<le> now" using assms(1) c(1) sh by (rule should_suspend_grace)
  moreover have "int (length (retry_day_offsets cfg)) < bc_attempts c \<or> bc_state c = CYCLE_PENDING_ACTION"
    using sh by (auto simp: should_suspend_def retries_exhausted_def)
  ultimately show ?thesis using c j x unfolding in_reach_def by blast
qed

theorem suspension_needs_grace_witness:
  "\<exists>w c. get_service (committed (process_billing sample_config (sample_recurring_env GW_DECLINED) (days 37)
       (sample_recurring [sample_cycle GRACE 4 None (Some (days 37))]) 1 ''w'')) 1 = Some w \<and> svc_status w = SVC_SUSPENDED \<and>
     c \<in> set (billing_cycles (sample_recurring [sample_cycle GRACE 4 None (Some (days 37))])) \<and> bc_due_at c + days 7 \<le> days 37"
proof -
  let ?s = "sample_recurring [sample_cycle GRACE 4 None (Some (days 37))]"
  let ?m = "get_service (committed (process_billing sample_config (sample_recurring_env GW_DECLINED) (days 37) ?s 1 ''w'')) 1"
  have "map_option svc_status ?m = Some SVC_SUSPENDED" by code_simp
  then obtain w where w: "?m = Some w" "svc_status w = SVC_SUSPENDED" by auto
  have ok: "recurring_ok sample_config ?s" by (rule sample_recurring_Cons) simp_all
  have s: "get_billing ?s 1 = Some (sample_billing 1 (Some 1))"
    "get_service ?s 1 = Some (sample_service 1 HTTP_PROXY SVC_ACTIVE)" "svc_status (sample_service 1 HTTP_PROXY SVC_ACTIVE) \<noteq> SVC_SUSPENDED"
    by (simp_all add: get_billing_def get_service_def sample_recurring_def sample_billing_def sample_service_def)
  from suspension_needs_grace [OF ok s w] w show ?thesis by (auto simp: sample_config_def)
qed

section \<open>Paid cycles\<close>

lemma restore_rows_other:
  "restore_rows s bs = Inr t \<Longrightarrow> n \<notin> sb_id ` set bs \<Longrightarrow>
     get_billing t n = get_billing s n \<and> billing_cycles t = billing_cycles s \<and> invoices t = invoices s \<and> payments t = payments s"
proof (induction bs arbitrary: s)
  case (Cons b bs)
  from Cons.prems(1) obtain v where
    rest: "restore_rows (save_billing (b\<lparr>sb_status := SB_ACTIVE\<rparr>) (if svc_status v = SVC_SUSPENDED then snd (unsuspend s v) else s)) bs = Inr t"
    by (auto simp: ebind_Inr_iff the_or_raise_Inr Let_def)
  let ?s1 = "if svc_status v = SVC_SUSPENDED then snd (unsuspend s v) else s"
  have "get_billing (save_billing (b\<lparr>sb_status := SB_ACTIVE\<rparr>) ?s1) n = get_billing s n" using Cons.prems(2)
    by (simp add: get_billing_def save_billing_def get_put_row unsuspend_def save_service_def)
  moreover have "billing_cycles (save_billing (b\<lparr>sb_status := SB_ACTIVE\<rparr>) ?s1) = billing_cycles s"
    "invoices (save_billing (b\<lparr>sb_status := SB_ACTIVE\<rparr>) ?s1) = invoices s" "payments (save_billing (b\<lparr>sb_status := SB_ACTIVE\<rparr>) ?s1) = payments s"
    by (simp_all add: save_billing_def unsuspend_def save_service_def)
  ultimately show ?case using Cons.IH [OF rest] Cons.prems(2) by auto
qed simp

lemma restore_reseller_other:
  assumes rr: "restore_reseller now s r m = Inr t" and d: "distinct (map sb_id (service_billings s))"
    and b: "get_billing s n = Some b" "sb_status b \<noteq> SUSPENDED_NONPAYMENT"
  shows "get_billing t n = Some b \<and> billing_cycles t = billing_cycles s \<and> invoices t = invoices s \<and> payments t = payments s"
proof (cases "has_overdue_cycles s (r_id r) m")
  case False
  let ?bs = "filter (\<lambda>b. sb_reseller_id b = Some (r_id r) \<and> sb_status b = SUSPENDED_NONPAYMENT) (service_billings s)"
  from False rr obtain s1 where s1: "restore_rows s ?bs = Inr s1" and t: "t = save_reseller (clear_hold now r) s1"
    by (auto simp: restore_reseller_def restore_cascade_def ebind_Inr_iff)
  have "n \<notin> sb_id ` set ?bs" using b d by (auto simp: get_billing_def get_row_Some_iff distinct_map dest: inj_onD)
  from restore_rows_other [OF s1 this] t b(1) show ?thesis by (simp add: save_reseller_def get_billing_def)
qed (use rr b in \<open>simp add: restore_reseller_def\<close>)

lemma complete_paid_cycle_result:
  assumes ok: "recurring_ok cfg s" and c: "tracked s c" and cp: "complete_paid_cycle env now s c = Inr t"
  obtains b i where "get_billing s (bc_service_billing_id c) = Some b" "cycle_invoice s c = Some i"
    "get_billing t (bc_service_billing_id c) = Some (paid_billing (paid_cycle now i c) b)"
    "billing_cycles t = put_row bc_id (paid_cycle now i c) (billing_cycles s)" "invoices t = invoices s" "payments t = payments s"
  using cp
proof (rule complete_paid_cycleE)
  fix b i r s1 s2
  let ?c = "paid_cycle now i c" and ?b = "paid_billing (paid_cycle now i c) b"
  let ?s0 = "save_billing (paid_billing (paid_cycle now i c) b) (save_cycle (paid_cycle now i c) s)"
  assume b: "get_billing s (bc_service_billing_id c) = Some b" and i: "cycle_invoice s c = Some i"
    and rs: "resume_service ?s0 b = Inr s1" and rr: "restore_reseller now s1 r (bc_id c) = Inr s2"
    and n: "notify_recovery env s2 r (is_recovery c b) ?b ?c = Inr t"
  have s1: "service_billings s1 = service_billings ?s0" "billing_cycles s1 = billing_cycles ?s0" "invoices s1 = invoices ?s0" "payments s1 = payments ?s0"
    using rs by (auto simp: resume_service_def unsuspend_def save_service_def ebind_Inr_iff split: if_splits)
  have bid: "sb_id b = bc_service_billing_id c" "sb_id ?b = sb_id b" "sb_status ?b = SB_ACTIVE"
    using b by (auto simp: get_billing_def paid_billing_def Let_def dest: get_row_SomeD)
  have g: "get_billing s1 (bc_service_billing_id c) = Some ?b"
    using b bid by (simp add: get_billing_def s1 save_billing_def save_cycle_def get_put_row)
  have "distinct (map sb_id (service_billings s1))" using ok by (simp add: s1 save_billing_def save_cycle_def recurring_ok_def cycles_ok_def)
  from restore_reseller_other [OF rr this g] bid(3)
  have "get_billing s2 (bc_service_billing_id c) = Some ?b \<and> billing_cycles s2 = billing_cycles ?s0 \<and> invoices s2 = invoices ?s0 \<and> payments s2 = payments ?s0"
    by (simp add: s1)
  moreover have "service_billings t = service_billings s2 \<and> billing_cycles t = billing_cycles s2 \<and> invoices t = invoices s2 \<and> payments t = payments s2"
    using n by (auto simp: notify_recovery_def split: if_splits dest: notify_fields)
  ultimately show thesis using b i by (intro that) (simp_all add: get_billing_def save_billing_def save_cycle_def)
qed

definition settled_cycle :: "store \<Rightarrow> int \<Rightarrow> bool" where
  "settled_cycle t n \<longleftrightarrow> (\<exists>c b i. get_billing t n = Some b \<and> c \<in> set (billing_cycles t) \<and> bc_service_billing_id c = n \<and>
     bc_state c = CYCLE_PAID \<and> bc_claim_token c = None \<and> cycle_invoice t c = Some i \<and> inv_status i = PAID \<and>
     allocated_cents t (inv_id i) = inv_amount_cents i \<and> sb_status b = SB_ACTIVE \<and> sb_failed_attempts b = 0 \<and>
     sb_next_retry_at b = None \<and> sb_next_charge_at b = Some (next_calendar_month (bc_due_at c) (sb_billing_anchor_day b)))"

lemma complete_paid_cycle_settled:
  assumes ok: "recurring_ok cfg s" and c: "tracked s c" "grace_ok cfg c" and n: "bc_service_billing_id c = n"
    and paid: "\<And>i. cycle_invoice s c = Some i \<Longrightarrow> inv_status i = PAID" and cp: "complete_paid_cycle env now s c = Inr t"
  shows "settled_cycle t n"
  using ok c(1) cp
proof (rule complete_paid_cycle_result)
  fix b i
  let ?c = "paid_cycle now i c" and ?b = "paid_billing (paid_cycle now i c) b"
  assume i: "cycle_invoice s c = Some i" and b: "get_billing t (bc_service_billing_id c) = Some ?b"
    and t: "billing_cycles t = put_row bc_id ?c (billing_cycles s)" "invoices t = invoices s" "payments t = payments s"
  have okt: "recurring_ok cfg t" using complete_paid_cycle_step [OF ok c cp] by simp
  have mem: "?c \<in> set (billing_cycles t)" using c(1) by (force simp: t put_row_def tracked_def cycle_core_def)
  have it: "cycle_invoice t ?c = Some i" using i by (auto simp: cycle_invoice_def paid_cycle_def get_invoice_def t split: option.splits)
  have im: "i \<in> set (invoices t)" using cycle_invoiceD [OF it] by (auto dest: get_invoiceD)
  have "inv_status i = PAID" using paid [OF i] .
  then have "allocated_cents t (inv_id i) = inv_amount_cents i"
    using okt im by (auto simp: recurring_ok_def funding_ok_but_def payments_ok_but_def)
  then show ?thesis using mem it b n \<open>inv_status i = PAID\<close> unfolding settled_cycle_def
    by (intro exI [of _ ?c] exI [of _ ?b] exI [of _ i]) (simp add: paid_billing_def paid_cycle_def Let_def)
qed

lemma mark_paid_keeps_paid:
  assumes ok: "funding_ok s" and p: "paid_in s n" and m: "mark_paid_if_fully_allocated now s n = Inr (i, t)"
  shows "get_invoice t n = Some i \<and> inv_status i = PAID"
proof -
  from p obtain j where j: "get_invoice s n = Some j" "inv_status j = PAID" by (auto simp: paid_in_def)
  have jm: "j \<in> set (invoices s)" "inv_id j = n" using get_invoiceD [OF j(1)] by auto
  have "\<forall>x \<in> set (invoices s). inv_status x = PAID \<longrightarrow> allocated_cents s (inv_id x) = inv_amount_cents x"
    using ok by (auto simp: funding_ok_but_def payments_ok_but_def)
  with jm j(2) have a: "allocated_cents s n = inv_amount_cents j" by auto
  from m show ?thesis
  proof (rule mark_paidE)
    fix i0 assume "get_invoice s n = Some i0" "inv_status i = PAID \<longleftrightarrow> allocated_cents s n = inv_amount_cents i0"
    with a j(1) have "inv_status i = PAID" by simp
    then show ?thesis using mark_paid_ok(6) [OF ok _ m] by simp
  qed
qed

lemma attempt_payment_paid:
  assumes ok: "recurring_ok cfg s" and c: "tracked s c" "grace_ok cfg c" and b: "owned s b" and n: "bc_service_billing_id c = n"
    and ap: "attempt_payment cfg env now s b c owner = Inr (Paid, t)"
  shows "settled_cycle t n"
proof -
  let ?c = "claim_cycle cfg now owner c"
  let ?c2 = "(counted now True ?c)\<lparr>bc_claim_token := None, bc_claim_expires_at := None\<rparr>"
  from ap obtain fn s2 where f: "fund_cycle env (save_cycle ?c s) b ?c = Inr (fn, s2)"
    and st: "settle_attempt cfg env now s2 b ?c fn = Inr (Paid, t)"
    by (auto simp: attempt_payment_def Let_def since_commit_def ebind_Inr_iff split: sum.splits)
  have "tracked s ?c" "grace_ok cfg ?c" using c by (simp_all add: tracked_def grace_ok_def grace_end_def)
  from save_cycle_ok [OF ok this] have 1: "recurring_ok cfg (save_cycle ?c s) \<and> same_rows s (save_cycle ?c s)" .
  have 2: "recurring_ok cfg s2 \<and> same_rows s s2" by (rule step_trans [OF 1]) (rule fund_cycle_step [OF _ f])
  from f obtain r :: reseller and i where i: "cycle_invoice (save_cycle ?c s) ?c = Some i"
    and fi: "fund_invoice (rb_gateways env) (fund_time env (bc_id ?c)) (save_cycle ?c s) (r_id r) (inv_id i) None = Inr (fn, s2)"
    unfolding fund_cycle_def ebind_Inr_iff the_or_raise_Inr by blast
  have fo: "funding_ok (save_cycle ?c s)" "funding_ok s2" using 1 2 by (simp_all add: recurring_ok_def)
  from st show ?thesis
  proof (cases rule: settle_attemptE)
    case (paid m j s3)
    have m: "m = inv_id i" using cycle_invoiceD [OF i] paid(3) by simp
    from fund_invoice_post [OF fo(1) fi] obtain i' where "get_invoice (save_cycle ?c s) (inv_id i) = Some i'" "funding_post (save_cycle ?c s) s2 i' fn" by blast
    then have "paid_in s2 m" using paid(1) m get_invoiceD by (auto simp: funding_post_def)
    then have pj: "get_invoice s3 m = Some j" "inv_status j = PAID" using mark_paid_keeps_paid [OF fo(2) _ paid(4)] by auto
    have 3: "recurring_ok cfg s3 \<and> same_rows s s3" by (rule step_trans [OF 2]) (rule mark_paid_step [OF _ paid(4)])
    have "tracked s3 ?c2" using c(1) 3 same_rows_tracked [of s s3 c] by (simp add: tracked_def cycle_core_def counted_def claim_cycle_def)
    moreover have "grace_ok cfg ?c2" using c(2) by (simp add: grace_ok_def grace_end_def)
    moreover have "bc_service_billing_id ?c2 = n" using n by (simp add: counted_def claim_cycle_def)
    moreover have "inv_status x = PAID" if "cycle_invoice s3 ?c2 = Some x" for x using that pj paid(3) by (simp add: cycle_invoice_def)
    ultimately show ?thesis using 3 paid(5) by (intro complete_paid_cycle_settled) simp_all
  qed simp_all
qed

lemma initial_cycle_outcome_paid:
  assumes "initial_cycle_outcome env now s b c owner = Inr (Some Paid, t)"
  obtains i where "cycle_invoice s c = Some i" "inv_status i = PAID" "complete_paid_cycle env now s c = Inr t"
  using assms by (auto simp: initial_cycle_outcome_def ebind_Inr_iff split: if_splits option.splits)

lemma process_cycle_paid:
  assumes ok: "recurring_ok cfg s" and c: "tracked s c" "grace_ok cfg c" and b: "owned s b" and n: "bc_service_billing_id c = n"
    and pc: "process_cycle cfg env now s b c owner = Inr (Paid, t)"
  shows "settled_cycle t n"
proof -
  from pc obtain x1 s1 where x1: "initial_cycle_outcome env now s b c owner = Inr (x1, s1)"
    by (auto simp: process_cycle_def since_commit_Inr ebind_Inr_iff)
  show ?thesis
  proof (cases x1)
    case (Some out)
    with pc x1 have "out = Paid" "s1 = t" by (simp_all add: process_cycle_def since_commit_def)
    with x1 Some obtain i where "cycle_invoice s c = Some i" "inv_status i = PAID" "complete_paid_cycle env now s c = Inr t"
      by (auto elim: initial_cycle_outcome_paid)
    then show ?thesis using ok c n by (intro complete_paid_cycle_settled) simp_all
  next
    case None
    then have "s1 = s" using x1 initial_cycle_outcome_None by blast
    with None x1 pc obtain s2 where s2: "suspension_outcome cfg env now s b c = Inr (None, s2)"
      and rest: "ebind (since_commit s2 (handle_pending_action cfg env s2 b c)) (\<lambda>(pending, s3).
        case pending of Some out \<Rightarrow> Inr (out, s3) | None \<Rightarrow> let b3 = live_billing s3 b; c3 = live_cycle s3 c in
          if retry_is_not_due cfg now c3 then Inr (Processed, s3) else attempt_payment cfg env now s3 b3 c3 owner) = Inr (Paid, t)"
      by (fastforce simp: process_cycle_def since_commit_def suspension_outcome_def ebind_Inr_iff split: sum.splits option.splits if_splits)
    have "s2 = s" using suspension_outcome_only [OF s2] by auto
    with rest obtain s3 where h: "handle_pending_action cfg env s b c = Inr (None, s3)"
      and ap: "attempt_payment cfg env now s3 (live_billing s3 b) (live_cycle s3 c) owner = Inr (Paid, t)"
      by (auto simp: since_commit_Inr ebind_Inr_iff Let_def handle_pending_action_def split: option.splits if_splits)
    have 3: "recurring_ok cfg s3 \<and> same_rows s s3" using handle_pending_action_step [OF ok c b h] .
    then have k: "tracked s3 c" "owned s3 b" using c b same_rows_tracked same_rows_owned by blast+
    have "bc_service_billing_id (live_cycle s3 c) = n"
    proof (cases "get_cycle s3 (bc_id c)")
      case (Some x)
      from k(1) obtain y where y: "y \<in> set (billing_cycles s3)" "cycle_core y = cycle_core c" by (auto simp: tracked_def)
      have "get_cycle s3 (bc_id c) = Some y"
        using y 3 by (simp add: get_cycle_def recurring_ok_def cycles_ok_def get_row_Some_iff cycle_core_def)
      then have "x = y" using Some by simp
      then show ?thesis using Some y n by (simp add: live_cycle_def cycle_core_def)
    qed (use n in \<open>simp add: live_cycle_def\<close>)
    then show ?thesis using ap 3 live_cycle_ok [OF _ k(1) c(2)] owned_live [OF k(2)] by (intro attempt_payment_paid) simp_all
  qed
qed

text \<open>
  C27: a billing reported as paid is settled. If processing a billing answers \<open>paid\<close>, then
  afterwards it has a paid, unclaimed cycle whose invoice is paid and exactly covered by succeeded
  payments, the billing is active with no failures and no retry, and its next charge is one calendar
  month after the due time of that cycle, on the anchor day.
\<close>

theorem paid_billing_is_settled:
  assumes "recurring_ok cfg s" "process_billing cfg env now s n owner = Inr (Paid, t)"
  shows "\<exists>c b i. get_billing t n = Some b \<and> c \<in> set (billing_cycles t) \<and> bc_service_billing_id c = n \<and>
    bc_state c = CYCLE_PAID \<and> bc_claim_token c = None \<and> cycle_invoice t c = Some i \<and> inv_status i = PAID \<and>
    allocated_cents t (inv_id i) = inv_amount_cents i \<and> sb_status b = SB_ACTIVE \<and> sb_failed_attempts b = 0 \<and>
    sb_next_retry_at b = None \<and> sb_next_charge_at b = Some (next_calendar_month (bc_due_at c) (sb_billing_anchor_day b))"
proof -
  from assms(2) obtain b where b: "get_billing s n = Some b" by (auto simp: process_billing_def since_commit_Inr ebind_Inr_iff reload_Inr)
  have id: "sb_id b = n" "b \<in> set (service_billings s)" using b by (auto simp: get_billing_def dest: get_row_SomeD)
  from assms(2) b obtain c s1 where "(case current_cycle s b of Some c \<Rightarrow> Inr (c, s) | None \<Rightarrow> since_commit s (ensure_cycle env now s b)) = Inr (c, s1)"
    and pc: "process_cycle cfg env now s1 (live_billing s1 b) c owner = Inr (Paid, t)"
    by (auto simp: process_billing_def reload_def since_commit_Inr ebind_Inr_iff split: if_splits)
  then have o: "opens cfg s s1 c \<and> bc_service_billing_id c = n"
  proof (cases "current_cycle s b")
    case (Some c')
    then show ?thesis using current_cycleD [OF Some] id \<open>(case current_cycle s b of Some c \<Rightarrow> Inr (c, s) | None \<Rightarrow> since_commit s (ensure_cycle env now s b)) = Inr (c, s1)\<close>
      member_opens [OF assms(1), of c'] by auto
  next
    case None
    then have e: "ensure_cycle env now s b = Inr (c, s1)"
      using \<open>(case current_cycle s b of Some c \<Rightarrow> Inr (c, s) | None \<Rightarrow> since_commit s (ensure_cycle env now s b)) = Inr (c, s1)\<close> by (simp add: since_commit_Inr)
    have "bc_service_billing_id c = n" using assms(1) e
    proof (cases rule: ensure_cycle_cases)
      case (2 due)
      then show ?thesis using id(1) by (cases rule: open_cycleE) (auto simp: cycle_core_def)
    qed (use id in simp)
    then show ?thesis using ensure_cycle_opens [OF assms(1) id(2) e] by simp
  qed
  then have "settled_cycle t n" using pc opens_owned [of cfg s s1 c b] id(2)
    by (intro process_cycle_paid [where c = c and s = s1]) (auto simp: opens_def intro: owned_live)
  then show ?thesis by (simp add: settled_cycle_def)
qed

theorem paid_billing_is_settled_witness:
  "\<exists>t b. process_billing sample_config (sample_recurring_env GW_SUCCEEDED) (days 31) (sample_recurring [sample_cycle DUE 0 None None]) 1 ''w'' = Inr (Paid, t) \<and>
     get_billing t 1 = Some b \<and> sb_status b = SB_ACTIVE \<and> sb_failed_attempts b = 0"
proof -
  let ?s = "sample_recurring [sample_cycle DUE 0 None None]"
  let ?m = "process_billing sample_config (sample_recurring_env GW_SUCCEEDED) (days 31) ?s 1 ''w''"
  have "map_sum (\<lambda>_. ()) fst ?m = Inr Paid" by code_simp
  then obtain t where t: "?m = Inr (Paid, t)" by (cases ?m) auto
  have "recurring_ok sample_config ?s" by (rule sample_recurring_Cons) simp_all
  from paid_billing_is_settled [OF this t] t show ?thesis by blast
qed

end
