(* ===== verification/Batch_Progress.thy ===== *)
theory Batch_Progress
  imports Nonpayment
begin

text \<open>
  Progress of recurring billing. Over rows that are linked as the foreign keys demand and whose
  billings all belong to a reseller, no operation raises, whatever the gateways and plugins answer: a
  failing gateway is recorded as a failed attempt and a failing plugin as a failed suspension. Two things break this: a due
  billing without a reseller, which the storefront creates, and a plugin that cannot be looked up. Each aborts every batch.
\<close>

section \<open>Operations that always return\<close>

abbreviation good :: "recurring_config \<Rightarrow> store \<Rightarrow> bool" where
  "good cfg s \<equiv> recurring_ok cfg s \<and> linked s"

lemma good_step: "good cfg s \<Longrightarrow> recurring_ok cfg t \<and> same_rows s t \<Longrightarrow> good cfg t"
  using same_rows_evolves by (auto simp: evolves_def)

lemma good_evolves: "good cfg s \<Longrightarrow> evolves cfg s t \<Longrightarrow> good cfg t"
  by (simp add: evolves_def)

lemma linked_reseller:
  assumes "linked s" "owned s b"
  shows "\<exists>r. billing_reseller s b = Some r"
proof -
  from assms(2) obtain x where "x \<in> set (service_billings s)" "billing_core x = billing_core b" by (auto simp: owned_def)
  moreover from this assms(1) have "sb_reseller_id x \<in> Some ` r_id ` set (resellers s)" unfolding linked_def by blast
  moreover have "sb_reseller_id x = sb_reseller_id b" using calculation(2) by (simp add: billing_core_def)
  ultimately have "sb_reseller_id b \<in> Some ` r_id ` set (resellers s)" by simp
  then obtain i where i: "sb_reseller_id b = Some i" "i \<in> r_id ` set (resellers s)" by auto
  then have "get_reseller s i \<noteq> None" by (simp add: get_reseller_def get_row_None_iff)
  with i show ?thesis by (auto simp: billing_reseller_def)
qed

lemma linked_service:
  assumes "linked s" "owned s b"
  shows "\<exists>v. get_service s (sb_service_id b) = Some v"
proof -
  from assms(2) obtain x where "x \<in> set (service_billings s)" "billing_core x = billing_core b" by (auto simp: owned_def)
  moreover from this assms(1) have "sb_service_id x \<in> svc_id ` set (services s)" unfolding linked_def by blast
  moreover have "sb_service_id x = sb_service_id b" using calculation(2) by (simp add: billing_core_def)
  ultimately have "sb_service_id b \<in> svc_id ` set (services s)" by simp
  then have "get_service s (sb_service_id b) \<noteq> None" by (simp add: get_service_def get_row_None_iff)
  then show ?thesis by auto
qed

lemma linked_billing:
  assumes "linked s" "tracked s c"
  shows "\<exists>b. get_billing s (bc_service_billing_id c) = Some b"
proof -
  from assms(2) obtain x where "x \<in> set (billing_cycles s)" "cycle_core x = cycle_core c" by (auto simp: tracked_def)
  moreover from this assms(1) have "bc_service_billing_id x \<in> sb_id ` set (service_billings s)" unfolding linked_def by blast
  moreover have "bc_service_billing_id x = bc_service_billing_id c" using calculation(2) by (simp add: cycle_core_def)
  ultimately have "bc_service_billing_id c \<in> sb_id ` set (service_billings s)" by simp
  then have "get_billing s (bc_service_billing_id c) \<noteq> None" by (simp add: get_billing_def get_row_None_iff)
  then show ?thesis by auto
qed

lemma notify_total: "recurring_ok cfg s \<Longrightarrow> \<exists>t. notify s r ev key d = Inr t"
  using enqueue_total [of s r ev key d None]
  by (auto simp: notify_def recurring_ok_def funding_ok_but_def split: prod.split)

lemma notify_failure_total: "recurring_ok cfg s \<Longrightarrow> \<exists>t. notify_failure env s r b c = Inr t"
proof -
  assume ok: "recurring_ok cfg s"
  let ?d = "notification_data env s b c"
  obtain s1 where s1: "notify s r ''cycle_charge_failed'' (cycle_key c (''failed:'' @ show_int (bc_attempts c))) ?d = Inr s1"
    using notify_total [OF ok] by blast
  have "recurring_ok cfg s1" using notify_step [OF ok s1] by simp
  then obtain s2 where "notify s1 r ''grace_warning'' (cycle_key c ''grace-warning'') ?d = Inr s2" using notify_total by blast
  with s1 show ?thesis unfolding notify_failure_def Let_def by (cases "bc_attempts c = 2") (simp_all del: append.simps)
qed

lemma record_failure_total:
  assumes g: "good cfg s" and c: "tracked s c" "0 \<le> bc_attempts c" and b: "owned s b" and i: "cycle_invoice s c = Some i"
  shows "\<exists>t. record_failure cfg env now s b c code msg incr = Inr t"
proof -
  define c2 where "c2 = failed_cycle cfg (counted now incr c) (last_safe_failure s (bc_invoice_id c) code msg)"
  obtain r where r: "billing_reseller s b = Some r" using linked_reseller g b by blast
  have "tracked s c2" using c(1) by (simp add: c2_def tracked_def)
  moreover have "grace_ok cfg c2" using c(2) unfolding c2_def by (intro failed_cycle_grace) simp
  moreover have "owned s (failed_billing b c2)" using b by (simp add: owned_def)
  ultimately have "recurring_ok cfg (failure_rows now s (failed_billing b c2) c2 i r)"
    using g cycle_invoiceD [OF i] billing_resellerD [OF r] failure_rows_step [of cfg s c2 "failed_billing b c2" i r now] by simp
  from notify_failure_total [OF this] i r show ?thesis
    by (simp add: record_failure_def Let_def c2_def [symmetric] the_or_raise_def)
qed

lemma record_pending_action_total:
  assumes g: "good cfg s" and c: "tracked s c" "0 \<le> bc_attempts c" and b: "owned s b"
  shows "\<exists>t. record_pending_action cfg env now s b c = Inr t"
proof -
  let ?c = "pending_cycle cfg c" and ?b = "pending_billing b (pending_cycle cfg c)"
  obtain r where r: "billing_reseller s b = Some r" using linked_reseller g b by blast
  have "tracked s ?c" using c(1) by (simp add: tracked_def pending_cycle_def cycle_core_def)
  moreover have "grace_ok cfg ?c" using c(2) by (simp add: grace_ok_def pending_cycle_def grace_end_def)
  moreover have "owned s ?b" using b by (simp add: owned_def)
  ultimately have "recurring_ok cfg (save_reseller (apply_hold now r) (save_billing ?b (save_cycle ?c s)))"
    using g billing_resellerD [OF r] save_rows_ok [of cfg s ?c ?b "apply_hold now r" r] by simp
  from notify_total [OF this] r show ?thesis by (simp add: record_pending_action_def Let_def the_or_raise_def)
qed

section \<open>Suspension always returns\<close>

text \<open>What is assumed of the lookup of plugins: it raises the errors of the lifecycle only.\<close>

definition finds_plugins :: "lifecycle_env \<Rightarrow> bool" where
  "finds_plugins env \<longleftrightarrow> (\<forall>v e. lifecycle_plugin env v = Inl e \<longrightarrow> is_lifecycle_error e)"

lemma suspend_error: "finds_plugins env \<Longrightarrow> suspend env s v = Inl e \<Longrightarrow> is_lifecycle_error e"
  by (auto simp: suspend_def ensure_powered_off_def finds_plugins_def ebind_Inl_iff Let_def
      split: if_splits option.splits power_off_result.splits)

lemma suspend_billing_row_total:
  assumes g: "good cfg s" and b: "owned s b" and env: "finds_plugins (rb_lifecycle env)"
  shows "\<exists>x. suspend_billing_row env s b c = Inr x"
proof -
  obtain v where v: "get_service s (sb_service_id b) = Some v" using linked_service g b by blast
  show ?thesis
  proof (cases "suspend (rb_lifecycle env) s v")
    case (Inl e)
    then show ?thesis using v suspend_error [OF env Inl] by (auto simp: suspend_billing_row_def)
  next
    case (Inr x)
    obtain ch s1 where x: "x = (ch, s1)" by (cases x)
    let ?b = "b\<lparr>sb_status := SUSPENDED_NONPAYMENT, sb_next_retry_at := None\<rparr>"
    have s1: "recurring_ok cfg s1 \<and> same_rows s s1" using g Inr x suspend_step by blast
    then have "owned s1 ?b" using b same_rows_owned [of s s1 b] by (simp add: owned_def billing_core_def)
    then have s2: "recurring_ok cfg (save_billing ?b s1) \<and> same_rows s (save_billing ?b s1)" by (intro step_trans [OF s1] save_billing_ok)
    then have "good cfg (save_billing ?b s1)" "owned (save_billing ?b s1) b" using good_step [OF g s2] b same_rows_owned by blast+
    then obtain r where "billing_reseller (save_billing ?b s1) b = Some r" using linked_reseller by blast
    moreover have "\<exists>t. notify (save_billing ?b s1) r ev key d = Inr t" for r ev key d using notify_total s2 by blast
    ultimately have "\<exists>t. mark_suspended env s1 b c = Inr t" by (simp add: mark_suspended_def Let_def the_or_raise_def)
    then show ?thesis using v Inr x by (auto simp: suspend_billing_row_def)
  qed
qed

lemma suspend_rows_total:
  assumes env: "finds_plugins (rb_lifecycle env)"
  shows "good cfg s \<Longrightarrow> list_all (owned s) bs \<Longrightarrow> \<exists>x. suspend_rows env s n c bs p q = Inr x"
proof (induction bs arbitrary: s p q)
  case (Cons b bs)
  then obtain mk fl s1 where r: "suspend_billing_row env s b c = Inr ((mk, fl), s1)" using suspend_billing_row_total [OF _ _ env] by fastforce
  have 1: "recurring_ok cfg s1 \<and> same_rows s s1" using Cons.prems r by (intro suspend_billing_row_step) auto
  then have "list_all (owned s1) bs" using Cons.prems(2) same_rows_owned [of s s1] by (simp add: list_all_iff)
  with Cons.IH [of s1] good_step [OF Cons.prems(1) 1] r show ?case by simp
qed simp

lemma suspend_for_nonpayment_total:
  assumes g: "good cfg s" and c: "tracked s c" "grace_ok cfg c" and b: "owned s b" and env: "finds_plugins (rb_lifecycle env)"
  shows "\<exists>x. suspend_for_nonpayment env now s b c = Inr x"
proof -
  obtain r where r: "billing_reseller s b = Some r" using linked_reseller g b by blast
  obtain rows where rows: "suspension_rows s b = Inr rows" using r by (cases "nonpayment_policy r = SUSPEND_ALL") (auto simp: suspension_rows_def the_or_raise_def)
  note o = suspension_rows_owned [OF rows b]
  obtain ts lf s1 where sr: "suspend_rows env s (sb_id b) c rows False False = Inr ((ts, lf), s1)"
    using suspend_rows_total [OF env g o] by fastforce
  have 1: "recurring_ok cfg s1 \<and> same_rows s s1" using suspend_rows_step [OF _ o sr] g by blast
  let ?b = "live_billing s1 b"
  have b1: "owned s1 ?b" "tracked s1 c" using b c 1 same_rows_owned same_rows_tracked owned_live by blast+
  have "\<exists>t. record_suspension now s1 ?b c ts = Inr t"
  proof -
    let ?s2 = "if ts then s1 else save_billing (outside_suspension ?b) s1"
    let ?c = "suspended_cycle now ts c"
    have "owned s1 (outside_suspension ?b)" using b1 by (simp add: owned_def)
    then have 2: "recurring_ok cfg ?s2 \<and> same_rows s1 ?s2" using save_billing_ok [of cfg s1 "outside_suspension ?b"] 1 by simp
    have "cycle_core ?c = cycle_core c" by (simp add: suspended_cycle_def cycle_core_def Let_def)
    moreover have "tracked ?s2 c" using b1(2) 2 same_rows_tracked by blast
    ultimately have "tracked ?s2 ?c" by (simp only: tracked_def)
    moreover have "grace_ok cfg ?c" using c(2) by (simp add: grace_ok_def suspended_cycle_def grace_end_def Let_def)
    ultimately have 3: "recurring_ok cfg (save_cycle ?c ?s2) \<and> same_rows s1 (save_cycle ?c ?s2)"
      by (intro step_trans [OF 2] save_cycle_ok)
    have "good cfg (save_cycle ?c ?s2)" using good_step [OF good_step [OF g 1] 3] .
    moreover have "owned (save_cycle ?c ?s2) ?b" using b1(1) 3 same_rows_owned by blast
    ultimately obtain r where "billing_reseller (save_cycle ?c ?s2) ?b = Some r" using linked_reseller by blast
    then show ?thesis by (simp add: record_suspension_def Let_def the_or_raise_def)
  qed
  then show ?thesis using rows sr by (auto simp: suspend_for_nonpayment_def Let_def)
qed

section \<open>Recovery and payment always return\<close>

lemma restore_rows_total:
  "good cfg s \<Longrightarrow> list_all (owned s) bs \<Longrightarrow> \<exists>t. restore_rows s bs = Inr t"
proof (induction bs arbitrary: s)
  case (Cons b bs)
  obtain v where v: "get_service s (sb_service_id b) = Some v" using linked_service Cons.prems by fastforce
  let ?s1 = "if svc_status v = SVC_SUSPENDED then snd (unsuspend s v) else s"
  let ?b = "b\<lparr>sb_status := SB_ACTIVE\<rparr>"
  have 1: "recurring_ok cfg ?s1 \<and> same_rows s ?s1" using Cons.prems(1) unsuspend_step [of cfg s v] by simp
  have "owned ?s1 ?b" using Cons.prems(2) 1 same_rows_owned [of s ?s1 b] by (simp add: owned_def billing_core_def)
  then have 2: "recurring_ok cfg (save_billing ?b ?s1) \<and> same_rows s (save_billing ?b ?s1)" by (intro step_trans [OF 1] save_billing_ok)
  then have "list_all (owned (save_billing ?b ?s1)) bs"
    using Cons.prems(2) same_rows_owned [of s "save_billing ?b ?s1"] by (simp add: list_all_iff)
  with Cons.IH [OF good_step [OF Cons.prems(1) 2]] v show ?case by (simp add: the_or_raise_def Let_def)
qed simp

lemma restore_reseller_total:
  assumes "good cfg s"
  shows "\<exists>t. restore_reseller now s r n = Inr t"
proof -
  have "\<exists>t. restore_cascade s (r_id r) = Inr t"
    unfolding restore_cascade_def using assms by (intro restore_rows_total) (auto simp: list_all_iff intro: owned_member)
  then show ?thesis by (auto simp: restore_reseller_def)
qed

lemma complete_paid_cycle_total:
  assumes g: "good cfg s" and c: "tracked s c" "grace_ok cfg c" and i: "cycle_invoice s c = Some i"
  shows "\<exists>t. complete_paid_cycle env now s c = Inr t"
proof -
  obtain b where b: "get_billing s (bc_service_billing_id c) = Some b" using linked_billing g c(1) by blast
  let ?c = "paid_cycle now i c" and ?b = "paid_billing (paid_cycle now i c) b"
  let ?s0 = "save_billing (paid_billing (paid_cycle now i c) b) (save_cycle (paid_cycle now i c) s)"
  have ob: "owned s b" using b by (auto simp: get_billing_def dest: get_row_SomeD intro: owned_member)
  have 0: "recurring_ok cfg (save_cycle ?c s) \<and> same_rows s (save_cycle ?c s)"
    using c g by (intro save_cycle_ok) (simp_all add: tracked_def grace_ok_paid)
  then have "owned (save_cycle ?c s) ?b" using ob same_rows_owned [of s "save_cycle ?c s" b] by (simp add: owned_def)
  then have 1: "recurring_ok cfg ?s0 \<and> same_rows s ?s0" by (intro step_trans [OF 0] save_billing_ok)
  have "owned ?s0 b" using ob 1 same_rows_owned by blast
  then obtain v where "get_service ?s0 (sb_service_id b) = Some v" using linked_service good_step [OF g 1] by blast
  then obtain s1 where s1: "resume_service ?s0 b = Inr s1" by (cases "sb_status b = SUSPENDED_NONPAYMENT") (auto simp: resume_service_def the_or_raise_def)
  have 2: "recurring_ok cfg s1 \<and> same_rows s s1" by (rule step_trans [OF 1]) (rule resume_service_step [OF _ s1])
  have "owned s1 b" using ob 2 same_rows_owned by blast
  then obtain r where r: "billing_reseller s1 b = Some r" using linked_reseller good_step [OF g 2] by blast
  obtain s2 where s2: "restore_reseller now s1 r (bc_id c) = Inr s2" using restore_reseller_total good_step [OF g 2] by blast
  have 3: "recurring_ok cfg s2 \<and> same_rows s s2"
    by (rule step_trans [OF 2]) (rule restore_reseller_step [OF _ billing_resellerD [OF r] s2])
  then have "\<exists>t. notify s2 r ev key d = Inr t" for ev key d using notify_total by blast
  then have "\<exists>t. notify_recovery env s2 r (is_recovery c b) ?b ?c = Inr t"
    unfolding notify_recovery_def by (cases "is_recovery c b") simp_all
  with b i s1 r s2 show ?thesis by (simp add: complete_paid_cycle_def Let_def the_or_raise_def)
qed

lemma good_invoice:
  assumes "recurring_ok cfg s" "tracked s c" "bc_invoice_id c = Some n"
  shows "\<exists>i. get_invoice s n = Some i"
proof -
  from assms(2) obtain x where x: "x \<in> set (billing_cycles s)" "cycle_core x = cycle_core c" by (auto simp: tracked_def)
  moreover from x assms(3) have "bc_invoice_id x = Some n" by (simp add: cycle_core_def)
  ultimately have "n \<in> inv_id ` set (invoices s)" using assms(1) by (auto simp: recurring_ok_def cycles_ok_def)
  then have "get_invoice s n \<noteq> None" by (simp add: get_invoice_def get_row_None_iff)
  then show ?thesis by auto
qed

lemma settle_attempt_total:
  assumes g: "good cfg s" and c: "tracked s c" "grace_ok cfg c" and b: "owned s b" and i: "bc_invoice_id c = Some n"
  shows "\<exists>x. settle_attempt cfg env now s b c fn = Inr x"
proof -
  let ?c = "(counted now True c)\<lparr>bc_claim_token := None, bc_claim_expires_at := None\<rparr>"
  have tc: "tracked s ?c" using c(1) by (simp add: tracked_def cycle_core_def counted_def)
  have gc: "grace_ok cfg ?c" "0 \<le> bc_attempts ?c" "bc_invoice_id ?c = Some n" using c(2) i by (simp_all add: grace_ok_def grace_end_def)
  obtain j where j: "get_invoice s n = Some j" using good_invoice g c(1) i by blast
  have "allocated_cents s n \<le> inv_amount_cents j"
    using g get_invoiceD [OF j] by (auto simp: recurring_ok_def funding_ok_but_def payments_ok_but_def)
  from mark_paid_total [OF j this] obtain j' s1 where m: "mark_paid_if_fully_allocated (fund_time env (bc_id c)) s n = Inr (j', s1)" by blast
  have 1: "recurring_ok cfg s1 \<and> same_rows s s1" using mark_paid_step [OF _ m] g by blast
  have t1: "tracked s1 ?c" using tc 1 same_rows_tracked by blast
  have "get_invoice s1 n = Some j'" using mark_paid_ok(6) [of "{}", OF _ _ m] g by (simp add: recurring_ok_def)
  then have "cycle_invoice s1 ?c = Some j'" using gc(3) by (simp add: cycle_invoice_def)
  then obtain t1 where "complete_paid_cycle env now s1 ?c = Inr t1" using complete_paid_cycle_total [OF good_step [OF g 1] t1 gc(1)] by blast
  moreover obtain t2 where "record_pending_action cfg env now s b ?c = Inr t2" using record_pending_action_total [OF g tc gc(2) b] by blast
  moreover have "cycle_invoice s ?c = Some j" using gc(3) j by (simp add: cycle_invoice_def)
  then obtain t3 where "record_failure cfg env now s b ?c None None False = Inr t3" using record_failure_total [OF g tc gc(2) b] by blast
  ultimately show ?thesis using m gc(3) by (auto simp: settle_attempt_def Let_def the_or_raise_def)
qed

lemma attempt_payment_total:
  assumes g: "good cfg s" and c: "tracked s c" "grace_ok cfg c" and b: "owned s b" and i: "bc_invoice_id c = Some n"
  shows "\<exists>x. attempt_payment cfg env now s b c owner = Inr x"
proof -
  let ?c = "claim_cycle cfg now owner c"
  have tc: "tracked s ?c" "grace_ok cfg ?c" "0 \<le> bc_attempts ?c" "bc_invoice_id ?c = Some n" using c i by (simp_all add: tracked_def grace_ok_def grace_end_def)
  have 1: "recurring_ok cfg (save_cycle ?c s) \<and> same_rows s (save_cycle ?c s)" using g tc(1,2) save_cycle_ok by blast
  have t1: "tracked (save_cycle ?c s) ?c" "owned (save_cycle ?c s) b" using tc(1) b 1 same_rows_tracked same_rows_owned by blast+
  show ?thesis
  proof (cases "fund_cycle env (save_cycle ?c s) b ?c")
    case (Inl e)
    obtain j where "cycle_invoice (save_cycle ?c s) ?c = Some j" using good_invoice 1 t1(1) tc(4) by (fastforce simp: cycle_invoice_def)
    then obtain t where "record_failure cfg env now (save_cycle ?c s) b ?c (Some (exn_name e)) (Some ''Payment processing failed'') True = Inr t"
      using record_failure_total [OF good_step [OF g 1] t1(1) tc(3) t1(2)] by blast
    with Inl show ?thesis by (simp add: attempt_payment_def Let_def since_commit_def)
  next
    case (Inr x)
    obtain fn s2 where x: "x = (fn, s2)" by (cases x)
    have 2: "recurring_ok cfg s2 \<and> same_rows s s2" by (rule step_trans [OF 1]) (rule fund_cycle_step [OF _ Inr [unfolded x]])
    have "tracked s2 ?c" "owned s2 b" using tc(1) b 2 same_rows_tracked same_rows_owned by blast+
    then obtain y where "settle_attempt cfg env now s2 b ?c fn = Inr y"
      using settle_attempt_total [OF good_step [OF g 2] _ tc(2) _ tc(4)] by blast
    with Inr x show ?thesis by (simp add: attempt_payment_def Let_def since_commit_def)
  qed
qed

section \<open>Billings and batches always return\<close>

lemma initial_cycle_outcome_total:
  assumes "good cfg s" "tracked s c" "grace_ok cfg c"
  shows "\<exists>x. initial_cycle_outcome env now s b c owner = Inr x"
proof (cases "cycle_invoice s c")
  case (Some i)
  with complete_paid_cycle_total [OF assms Some, of env now] show ?thesis by (auto simp: initial_cycle_outcome_def)
qed (simp add: initial_cycle_outcome_def)

lemma handle_pending_action_total:
  assumes "good cfg s" "owned s b" "cycle_invoice s c = Some i"
  shows "\<exists>x. handle_pending_action cfg env s b c = Inr x"
proof -
  obtain r where r: "billing_reseller s b = Some r" using linked_reseller assms by blast
  obtain t where "notify s r ''payment_action_required'' (cycle_key c ''action-required'') (notification_data env s b c) = Inr t"
    using notify_total assms(1) by blast
  with r assms(3) show ?thesis by (simp add: handle_pending_action_def the_or_raise_def)
qed

lemma process_cycle_total:
  assumes g: "good cfg s" and c: "tracked s c" "grace_ok cfg c" and b: "owned s b" and env: "finds_plugins (rb_lifecycle env)"
  shows "\<exists>x. process_cycle cfg env now s b c owner = Inr x"
proof -
  obtain x1 s1 where x1: "initial_cycle_outcome env now s b c owner = Inr (x1, s1)"
    using initial_cycle_outcome_total [OF g c] by fastforce
  show ?thesis
  proof (cases x1)
    case (Some out)
    with x1 show ?thesis by (simp add: process_cycle_def since_commit_def)
  next
    case None
    then have s1: "s1 = s" and "\<exists>i. cycle_invoice s c = Some i" using x1 initial_cycle_outcome_None by blast+
    then obtain i where i: "cycle_invoice s c = Some i" by blast
    obtain x2 s2 where x2: "suspension_outcome cfg env now s b c = Inr (x2, s2)"
      using suspend_for_nonpayment_total [OF g c b env, of now] by (cases "should_suspend cfg now c") (auto simp: suspension_outcome_def)
    obtain x3 s3 where x3: "handle_pending_action cfg env s b c = Inr (x3, s3)"
      using handle_pending_action_total [OF g b i] by fastforce
    have 3: "recurring_ok cfg s3 \<and> same_rows s s3" using handle_pending_action_step [OF _ c b x3] g by blast
    have k: "tracked s3 c" "owned s3 b" using c b 3 same_rows_tracked same_rows_owned by blast+
    have lc: "tracked s3 (live_cycle s3 c)" "grace_ok cfg (live_cycle s3 c)" using live_cycle_ok [OF _ k(1) c(2)] 3 by blast+
    have "bc_invoice_id (live_cycle s3 c) = Some (inv_id i)"
    proof (cases "get_cycle s3 (bc_id c)")
      case (Some x)
      from k(1) obtain y where y: "y \<in> set (billing_cycles s3)" "cycle_core y = cycle_core c" by (auto simp: tracked_def)
      have "get_cycle s3 (bc_id c) = Some y"
        using y 3 by (simp add: get_cycle_def recurring_ok_def cycles_ok_def get_row_Some_iff cycle_core_def)
      then show ?thesis using y cycle_invoiceD [OF i] by (simp add: live_cycle_def cycle_core_def)
    qed (use cycle_invoiceD [OF i] in \<open>simp add: live_cycle_def\<close>)
    then obtain x4 where x4: "attempt_payment cfg env now s3 (live_billing s3 b) (live_cycle s3 c) owner = Inr x4"
      using attempt_payment_total [OF good_step [OF g 3] lc owned_live [OF k(2)]] by blast
    have "s2 = s" if "x2 = None" using suspension_outcome_only [OF x2] that by auto
    then show ?thesis using None x1 s1 x2 x3 x4
      by (cases x2; cases x3) (auto simp: process_cycle_def since_commit_def Let_def)
  qed
qed

text \<open>A currency code that is already stripped and in capitals stays as it is.\<close>

lemma alpha_not_space: "is_alpha_char ch \<Longrightarrow> \<not> is_space ch"
  by (auto simp: is_alpha_char_def is_space_def Let_def)

lemma dropWhile_none: "\<forall>ch \<in> set ys. \<not> P ch \<Longrightarrow> dropWhile P ys = ys"
  by (cases ys) simp_all

lemma strip_alpha: "isalpha x \<Longrightarrow> strip x = x"
proof -
  assume "isalpha x"
  then have "\<forall>ch \<in> set x. \<not> is_space ch" by (auto simp: isalpha_def list_all_iff alpha_not_space)
  then have "dropWhile is_space x = x" "dropWhile is_space (rev x) = rev x" by (auto intro: dropWhile_none)
  then show ?thesis by (simp add: strip_def)
qed

lemma upper_char_idem: "upper_char (upper_char ch) = upper_char ch"
  by (auto simp: upper_char_def Let_def of_char_of)

lemma upper_upper: "upper (upper x) = upper x"
  by (simp add: upper_def upper_char_idem)

lemma ensure_cycle_total:
  assumes g: "good cfg s" and b: "b \<in> set (service_billings s)"
  shows "\<exists>x. ensure_cycle env now s b = Inr x"
proof -
  define due where "due = (case sb_next_charge_at b of None \<Rightarrow> now | Some d \<Rightarrow> d)"
  show ?thesis
  proof (cases "cycles_due s b due")
    case (Cons x xs)
    then have "xs = []" using g cycles_due_unique [of cfg s b due] by (simp add: recurring_ok_def)
    with Cons show ?thesis by (simp add: ensure_cycle_def Let_def due_def [symmetric])
  next
    case Nil
    let ?s1 = "s\<lparr>billing_cycles := billing_cycles s @ [new_cycle s b due]\<rparr>"
    have "(sb_id b, due) \<notin> (\<lambda>x. (bc_service_billing_id x, bc_due_at x)) ` set (billing_cycles s)"
      using Nil by (auto simp: cycles_due_def filter_empty_conv)
    then have ins: "insert_cycle s (new_cycle s b due) = Inr ?s1"
      using new_cycle_fields(7) [of s b due] by (simp add: insert_cycle_def not_less)
    have ok1: "recurring_ok cfg ?s1" using insert_cycle_ok(1) [OF _ ins] g new_cycle_grace by simp
    obtain v where v: "get_service s (sb_service_id b) = Some v" using linked_service g owned_member [OF b] by blast
    obtain r where "billing_reseller s b = Some r" using linked_reseller g owned_member [OF b] by blast
    then have rid: "sb_reseller_id b \<noteq> None" by (auto simp: billing_reseller_def split: option.splits)
    have "\<exists>x. open_cycle env now s b due = Inr x"
    proof (cases "valid_snapshot b")
      case True
      have uu: "upper (strip (upper (strip (sb_currency b)))) = upper (strip (sb_currency b)) \<Longrightarrow>
          \<exists>i t. create_cycle (rb_dialect env) now ?s1 (sb_reseller_id b) (sb_service_id b) (sb_monthly_price_cents b) desc (Some due) (upper (strip (sb_currency b))) = Inr (i, t)" for desc
        using True rid ok1 unfolding create_cycle_def
        by (intro invoice_create_succeeds) (simp_all add: valid_snapshot_def recurring_ok_def funding_ok_but_def)
      have "upper (strip (upper (strip (sb_currency b)))) = upper (strip (sb_currency b))"
        using True by (simp add: valid_snapshot_def strip_alpha upper_upper)
      from uu [OF this] obtain i t where "create_cycle (rb_dialect env) now ?s1 (sb_reseller_id b) (sb_service_id b) (sb_monthly_price_cents b)
          (''Recurring service charge for '' @ svc_name v) (Some due) (upper (strip (sb_currency b))) = Inr (i, t)" by blast
      moreover have "get_service ?s1 (sb_service_id b) = Some v" using v by (simp add: get_service_def)
      ultimately show ?thesis using ins True unfolding open_cycle_def Let_def the_or_raise_def by simp
    qed (simp add: open_cycle_def Let_def ins)
    then show ?thesis using Nil by (auto simp: ensure_cycle_def Let_def due_def [symmetric])
  qed
qed

lemma process_billing_total:
  assumes g: "good cfg s" and n: "get_billing s n = Some b" and env: "finds_plugins (rb_lifecycle env)"
  shows "\<exists>x. process_billing cfg env now s n owner = Inr x"
proof (cases "case get_service s (sb_service_id b) of None \<Rightarrow> True | Some v \<Rightarrow> svc_status v = SVC_TERMINATED")
  case True
  with n show ?thesis by (simp add: process_billing_def reload_def since_commit_def)
next
  case False
  have b: "b \<in> set (service_billings s)" using n by (auto simp: get_billing_def dest: get_row_SomeD)
  have run: "\<exists>x. process_cycle cfg env now t (live_billing t b) c owner = Inr x" if "opens cfg s t c" for t c
  proof -
    have "good cfg t" using good_evolves [OF g opens_evolves [OF that]] .
    moreover have "tracked t c" "grace_ok cfg c" using that by (simp_all add: opens_def)
    moreover have "owned t (live_billing t b)" using opens_owned [OF that b] by (rule owned_live)
    ultimately show ?thesis using env by (intro process_cycle_total)
  qed
  show ?thesis
  proof (cases "current_cycle s b")
    case (Some c)
    have "opens cfg s s c" using current_cycleD [OF Some] b g by (intro member_opens) auto
    from run [OF this] False Some n show ?thesis by (simp add: process_billing_def reload_def since_commit_def)
  next
    case None
    obtain c t where e: "ensure_cycle env now s b = Inr (c, t)" using ensure_cycle_total [OF g b] by fastforce
    have "opens cfg s t c" using ensure_cycle_opens [OF _ b e] g by blast
    from run [OF this] False None n e show ?thesis by (simp add: process_billing_def reload_def since_commit_def)
  qed
qed

section \<open>Batches\<close>

text \<open>Rows never go away, so the ids a batch collected stay valid.\<close>

lemma process_billing_evolves_to:
  "process_billing cfg env now s n owner = Inr (out, t) \<Longrightarrow> recurring_ok cfg s \<Longrightarrow> evolves cfg s t"
  using process_billing_evolves [of cfg s env now n owner] by simp

lemma evolves_ids: "evolves cfg s t \<Longrightarrow> sb_id ` set (service_billings t) = sb_id ` set (service_billings s)"
  by (intro map_eq_image) (simp add: evolves_def)

lemma get_billing_total: "n \<in> sb_id ` set (service_billings s) \<Longrightarrow> \<exists>b. get_billing s n = Some b"
  using get_row_None_iff [of sb_id n "service_billings s"] by (auto simp: get_billing_def)

lemma process_billings_total:
  assumes env: "finds_plugins (rb_lifecycle env)"
  shows "good cfg s \<Longrightarrow> set ns \<subseteq> sb_id ` set (service_billings s) \<Longrightarrow>
    \<exists>x. process_billings cfg env now s ns owner res = Inr x"
proof (induction ns arbitrary: s res)
  case (Cons n ns)
  obtain b where "get_billing s n = Some b" using get_billing_total Cons.prems(2) by fastforce
  then obtain out t where p: "process_billing cfg env now s n owner = Inr (out, t)"
    using process_billing_total [OF Cons.prems(1) _ env] by fastforce
  then have e: "evolves cfg s t" using Cons.prems(1) process_billing_evolves_to by blast
  have "set ns \<subseteq> sb_id ` set (service_billings t)" using evolves_ids [OF e] Cons.prems(2) by simp
  from Cons.IH [OF good_evolves [OF Cons.prems(1) e] this] p show ?case by simp
qed simp

lemma recover_cycles_total:
  "good cfg s \<Longrightarrow> \<forall>n \<in> set ns. \<exists>c. get_cycle s n = Some c \<and> bc_invoice_id c \<in> Some ` inv_id ` set (invoices s) \<Longrightarrow>
   \<exists>res' t. recover_cycles env now s ns res = Inr (res', t) \<and> evolves cfg s t"
proof (induction ns arbitrary: s res)
  case Nil
  then show ?case by (simp add: evolves_refl)
next
  case (Cons n ns)
  then obtain c where c: "get_cycle s n = Some c" "bc_invoice_id c \<in> Some ` inv_id ` set (invoices s)" by auto
  then obtain i where i: "cycle_invoice s c = Some i"
    using get_row_None_iff [of inv_id _ "invoices s"] by (fastforce simp: cycle_invoice_def get_invoice_def)
  have m: "c \<in> set (billing_cycles s)" using c by (auto simp: get_cycle_def dest: get_row_SomeD)
  then have k: "tracked s c" "grace_ok cfg c"
    using Cons.prems(1) by (auto simp: recurring_ok_def cycles_ok_def list_all_iff intro: tracked_member)
  obtain t where t: "complete_paid_cycle env now s c = Inr t"
    using complete_paid_cycle_total [OF Cons.prems(1) k i] by blast
  then have st: "recurring_ok cfg t \<and> same_rows s t" using complete_paid_cycle_step [OF _ k t] Cons.prems(1) by blast
  have "\<exists>c'. get_cycle t m = Some c' \<and> bc_invoice_id c' \<in> Some ` inv_id ` set (invoices t)" if m: "m \<in> set ns" for m
  proof -
    from Cons.prems(2) m obtain x where x: "get_cycle s m = Some x" "bc_invoice_id x \<in> Some ` inv_id ` set (invoices s)" by auto
    then have "tracked t x" using st same_rows_tracked [of s t x] tracked_member by (auto simp: get_cycle_def dest: get_row_SomeD)
    then obtain y where y: "y \<in> set (billing_cycles t)" "cycle_core y = cycle_core x" by (auto simp: tracked_def)
    have "inv_id ` set (invoices t) = inv_id ` set (invoices s)" using st by (intro map_eq_image) (simp add: same_rows_def)
    moreover have "get_cycle t m = Some y" using x(1) y st
      by (auto simp: get_cycle_def recurring_ok_def cycles_ok_def get_row_Some_iff cycle_core_def dest: get_row_SomeD)
    ultimately show ?thesis using x y by (simp add: cycle_core_def)
  qed
  then obtain res' u where u: "recover_cycles env now t ns (res\<lparr>br_processed := br_processed res + 1, br_paid := br_paid res + 1\<rparr>) = Inr (res', u)" "evolves cfg t u"
    using Cons.IH [OF good_step [OF Cons.prems(1) st]] by blast
  have "recover_cycles env now s (n # ns) res = Inr (res', u)" using u c t by (simp add: since_commit_def reload_def)
  moreover have "evolves cfg s u" using same_rows_evolves [OF st] u(2) by (rule evolves_trans)
  ultimately show ?case by blast
qed

lemma recoverable_cycles_found:
  assumes "recurring_ok cfg s" "n \<in> set (recoverable_cycles s l)"
  shows "\<exists>c. get_cycle s n = Some c \<and> bc_invoice_id c \<in> Some ` inv_id ` set (invoices s)"
proof -
  from assms(2) obtain c where c: "c \<in> set (billing_cycles s)" "bc_id c = n" "recoverable s c"
    by (fastforce simp: recoverable_cycles_def dest!: in_set_takeD)
  from c(3) obtain i where i: "cycle_invoice s c = Some i" by (auto simp: recoverable_def split: option.splits)
  have "get_cycle s n = Some c" using c assms(1) by (simp add: get_cycle_def recurring_ok_def cycles_ok_def get_row_Some_iff)
  moreover have "i \<in> set (invoices s)" "bc_invoice_id c = Some (inv_id i)"
    using cycle_invoiceD [OF i] by (auto simp: get_invoice_def dest: get_row_SomeD)
  ultimately show ?thesis by auto
qed

lemma due_billings_found: "set (due_billings now s l) \<subseteq> sb_id ` set (service_billings s)"
  by (auto simp: due_billings_def dest: in_set_takeD)

text \<open>
  C26: a batch always completes. When the books are consistent, the rows are linked (every billing
  names an existing service and reseller, every cycle an existing billing) and the lookup of a power plugin raises
  lifecycle errors only, an iteration of the worker returns its counts instead of raising, whatever the gateways answer or raise and
  whatever the plugins do: a failing gateway is recorded as a failed attempt and a failing plugin as a failed
  suspension, so that one service cannot keep the others from being billed.
\<close>

theorem batch_completes:
  assumes "recurring_ok cfg s" "linked s" "finds_plugins (rb_lifecycle env)"
  shows "\<exists>res t. run_recurring_billing_iteration cfg env now later s owner = (Inr res, t)"
proof -
  obtain acq s1 where acq: "acquire_lease cfg s owner now = (acq, s1)" by fastforce
  have "s1 = s\<lparr>lease := lease s1\<rparr>" using acquire_lease_frame [OF acq] .
  moreover have "good cfg (s\<lparr>lease := l\<rparr>)" for l using assms(1,2) by (simp add: recurring_ok_lease linked_def)
  ultimately have g: "good cfg s1" by metis
  obtain res t where r: "recover_cycles env later s1 (recoverable_cycles s1 (rb_batch_size cfg)) empty_result = Inr (res, t)" and e: "evolves cfg s1 t"
    using recover_cycles_total [OF g] recoverable_cycles_found g by blast
  have "\<exists>x. process_billings cfg env later t (due_billings later t k) owner res = Inr x" for k
    using process_billings_total [OF assms(3) good_evolves [OF g e] due_billings_found] .
  then have "\<exists>x. process_batch cfg env later s1 None owner = Inr x"
    using r by (simp add: process_batch_def recover_paid_cycles_def Let_def)
  then show ?thesis using acq by (auto simp: run_recurring_billing_iteration_def)
qed

lemma sample_linked: "linked (sample_recurring cs)" if "list_all (\<lambda>c. bc_service_billing_id c = 1) cs"
  using that by (auto simp: linked_def sample_recurring_defs sample_reseller_def sample_service_def list_all_iff)

theorem batch_completes_witness:
  "\<exists>res t. run_recurring_billing_iteration sample_config (sample_recurring_env GW_DECLINED) (days 31) (days 31) (sample_recurring []) ''w'' = (Inr res, t)"
  by (rule batch_completes [OF sample_recurring_Nil sample_linked])
     (auto simp: sample_recurring_env_def sample_env_def finds_plugins_def lifecycle_plugin_def split: if_splits)

section \<open>A billing without a reseller\<close>

lemma create_cycle_no_reseller:
  assumes "valid_snapshot b"
  shows "create_cycle dia now s None sid (sb_monthly_price_cents b) d due (upper (strip (sb_currency b))) =
    Inl (InvoiceError ''reseller_id or billing_account_id is required'')"
  using assms by (simp add: create_cycle_def create_invoice_def valid_snapshot_def strip_alpha upper_upper require_positive_cents_def Let_def)

lemma retail_billing_raises:
  assumes "get_billing s n = Some b" "sb_reseller_id b = None" "valid_snapshot b" "get_service s (sb_service_id b) = Some v"
    "svc_status v \<noteq> SVC_TERMINATED" "list_all (\<lambda>c. bc_service_billing_id c \<noteq> sb_id b) (billing_cycles s)"
  shows "process_billing cfg env now s n owner = Inl (InvoiceError ''reseller_id or billing_account_id is required'', s)"
proof -
  define due where "due = (case sb_next_charge_at b of None \<Rightarrow> now | Some d \<Rightarrow> d)"
  let ?s1 = "s\<lparr>billing_cycles := billing_cycles s @ [new_cycle s b due]\<rparr>"
  have "(sb_id b, due) \<notin> (\<lambda>x. (bc_service_billing_id x, bc_due_at x)) ` set (billing_cycles s)"
    using assms(6) by (auto simp: list_all_iff)
  then have ins: "insert_cycle s (new_cycle s b due) = Inr ?s1"
    using new_cycle_fields(7) [of s b due] by (simp add: insert_cycle_def not_less)
  have "get_service ?s1 (sb_service_id b) = Some v" using assms(4) by (simp add: get_service_def)
  then have "open_cycle env now s b due = Inl (InvoiceError ''reseller_id or billing_account_id is required'')"
    using assms(2,3) create_cycle_no_reseller [OF assms(3)] by (simp add: open_cycle_def Let_def ins the_or_raise_def)
  moreover have "cycles_due s b due = []" "current_cycle s b = None"
    using assms(6) by (auto simp: cycles_due_def current_cycle_def list_all_iff filter_empty_conv)
  ultimately show ?thesis using assms(1,4,5)
    by (simp add: process_billing_def reload_def since_commit_def ensure_cycle_def Let_def due_def [symmetric])
qed

text \<open>
  C29: a due billing without a reseller aborts the batch. The storefront creates billings that name a
  billing account and no reseller; recurring billing selects every due billing and creates the cycle's
  invoice for the reseller only. When such a billing is the first that is due, the batch raises
  \<open>InvoiceError\<close>, the transaction is rolled back and none of the billings behind it is processed,
  whatever they are; the store is as before, so the next batch meets the same billing.
\<close>

theorem retail_billing_stalls_batch:
  assumes "recoverable_cycles s (rb_batch_size cfg) = []" "0 < rb_batch_size cfg"
    "due_billings now s (rb_batch_size cfg) = n # ns" "get_billing s n = Some b" "sb_reseller_id b = None"
    "valid_snapshot b" "get_service s (sb_service_id b) = Some v" "svc_status v \<noteq> SVC_TERMINATED"
    "list_all (\<lambda>c. bc_service_billing_id c \<noteq> sb_id b) (billing_cycles s)"
  shows "process_batch cfg env now s None owner = Inl (InvoiceError ''reseller_id or billing_account_id is required'', s)"
  using assms(1-3) retail_billing_raises [OF assms(4-9)] by (simp add: process_batch_def recover_paid_cycles_def Let_def)

definition sample_retail :: store where
  "sample_retail = sample_funding\<lparr>services := [sample_service 1 HTTP_PROXY SVC_ACTIVE, sample_service 2 HTTP_PROXY SVC_ACTIVE],
     service_billings := [sample_billing 1 None, sample_billing 2 (Some 1)]\<rparr>"

theorem retail_billing_stalls_batch_witness:
  "process_batch sample_config (sample_recurring_env GW_SUCCEEDED) (days 31) sample_retail None ''w'' =
     Inl (InvoiceError ''reseller_id or billing_account_id is required'', sample_retail)"
proof (rule retail_billing_stalls_batch [of _ _ _ 1 "[2]" "sample_billing 1 None" "sample_service 1 HTTP_PROXY SVC_ACTIVE"])
  show "due_billings (days 31) sample_retail (rb_batch_size sample_config) = 1 # [2]" by code_simp
  show "valid_snapshot (sample_billing 1 None)" by code_simp
qed (simp_all add: recoverable_cycles_def sample_retail_def sample_funding_def empty_store_def sample_config_def get_billing_def
    get_service_def sample_billing_def sample_service_def)

section \<open>A plugin that cannot be looked up\<close>

lemma lookup_raises:
  assumes "svc_status v = SVC_ACTIVE" "needs_power_off v" "lifecycle_plugin (rb_lifecycle env) v = Inl e" "\<not> is_lifecycle_error e"
    "get_service s (sb_service_id b) = Some v" "billing_reseller s b = Some r" "nonpayment_policy r \<noteq> SUSPEND_ALL"
  shows "suspend_for_nonpayment env now s b c = Inl e"
  using assms by (simp add: suspend_for_nonpayment_def suspension_rows_def the_or_raise_def suspend_billing_row_def suspend_def ensure_powered_off_def)

lemma lookup_aborts_billing:
  assumes "get_billing s n = Some b" "get_service s (sb_service_id b) = Some v" "svc_status v = SVC_ACTIVE" "needs_power_off v"
    "lifecycle_plugin (rb_lifecycle env) v = Inl e" "\<not> is_lifecycle_error e" "billing_reseller s b = Some r" "nonpayment_policy r \<noteq> SUSPEND_ALL"
    "current_cycle s b = Some c" "should_suspend cfg now c" "bc_state c \<noteq> MANUAL_REVIEW" "\<not> claimed_by_another_worker c now owner"
    "cycle_invoice s c = Some i" "inv_status i \<noteq> PAID"
  shows "process_billing cfg env now s n owner = Inl (e, s)"
proof -
  have "sb_id b = n" using get_row_SomeD [OF assms(1) [unfolded get_billing_def]] by simp
  then have b: "live_billing s b = b" using assms(1) by (simp add: live_billing_def)
  have "initial_cycle_outcome env now s b c owner = Inr (None, s)"
    using assms(11-14) by (simp add: initial_cycle_outcome_def)
  moreover have "suspension_outcome cfg env now s b c = Inl e"
    using assms(10) lookup_raises [OF assms(3-6,2,7,8)] by (simp add: suspension_outcome_def)
  ultimately have "process_cycle cfg env now s b c owner = Inl (e, s)" by (simp add: process_cycle_def since_commit_def)
  then show ?thesis using assms(1-3,9) b by (simp add: process_billing_def reload_def since_commit_def)
qed

text \<open>
  A plugin that cannot be looked up aborts the batch. When the first due billing has passed its grace period with its retries used, no other worker has claimed its cycle, and
  the lookup of the power plugin of its active service raises anything but a lifecycle error, as the registry does for a plugin
  it does not know, the batch raises that exception, none of the billings behind it is processed, and the store is as before.
\<close>

theorem missing_plugin_stalls_batch:
  assumes "recoverable_cycles s (rb_batch_size cfg) = []" "0 < rb_batch_size cfg" "due_billings now s (rb_batch_size cfg) = n # ns"
    and rows: "get_billing s n = Some b" "get_service s (sb_service_id b) = Some v" "svc_status v = SVC_ACTIVE" "needs_power_off v"
    and lookup: "lifecycle_plugin (rb_lifecycle env) v = Inl e" "\<not> is_lifecycle_error e"
    and owner: "billing_reseller s b = Some r" "nonpayment_policy r \<noteq> SUSPEND_ALL"
    and cycle: "current_cycle s b = Some c" "should_suspend cfg now c" "bc_state c \<noteq> MANUAL_REVIEW" "\<not> claimed_by_another_worker c now w"
      "cycle_invoice s c = Some i" "inv_status i \<noteq> PAID"
  shows "process_batch cfg env now s None w = Inl (e, s)"
  using assms(1-3) lookup_aborts_billing [OF rows lookup owner cycle] by (simp add: process_batch_def recover_paid_cycles_def Let_def)

definition sample_machine_due :: store where
  "sample_machine_due = (sample_recurring [sample_cycle GRACE 4 None (Some (days 37))])\<lparr>services := [sample_service 1 BARE_METAL SVC_ACTIVE]\<rparr>"

definition sample_unknown_plugin :: recurring_env where
  "sample_unknown_plugin = (sample_recurring_env GW_DECLINED)\<lparr>rb_lifecycle :=
     \<lparr>plugin_resolver = None, proxmox_plugin = (\<lambda>_. Inl ''down''), linked_server_plugin = (\<lambda>_. Some (Inl (KeyError ''redfish'')))\<rparr>\<rparr>"

theorem missing_plugin_stalls_batch_witness:
  "process_batch sample_config sample_unknown_plugin (days 37) sample_machine_due None ''w'' = Inl (KeyError ''redfish'', sample_machine_due)"
proof (rule missing_plugin_stalls_batch [of _ _ _ 1 "[]" "sample_billing 1 (Some 1)" "sample_service 1 BARE_METAL SVC_ACTIVE" _ _
    "sample_reseller 1 500" "sample_cycle GRACE 4 None (Some (days 37))" _ "the (get_invoice sample_machine_due 1)"])
  show "recoverable_cycles sample_machine_due (rb_batch_size sample_config) = []" by code_simp
  show "due_billings (days 37) sample_machine_due (rb_batch_size sample_config) = 1 # []" by code_simp
  show "get_billing sample_machine_due 1 = Some (sample_billing 1 (Some 1))" by code_simp
  show "get_service sample_machine_due (sb_service_id (sample_billing 1 (Some 1))) = Some (sample_service 1 BARE_METAL SVC_ACTIVE)" by code_simp
  show "lifecycle_plugin (rb_lifecycle sample_unknown_plugin) (sample_service 1 BARE_METAL SVC_ACTIVE) = Inl (KeyError ''redfish'')" by code_simp
  show "billing_reseller sample_machine_due (sample_billing 1 (Some 1)) = Some (sample_reseller 1 500)" by code_simp
  show "current_cycle sample_machine_due (sample_billing 1 (Some 1)) = Some (sample_cycle GRACE 4 None (Some (days 37)))" by code_simp
  show "\<not> claimed_by_another_worker (sample_cycle GRACE 4 None (Some (days 37))) (days 37) ''w''" by code_simp
  show "should_suspend sample_config (days 37) (sample_cycle GRACE 4 None (Some (days 37)))" by code_simp
  show "cycle_invoice sample_machine_due (sample_cycle GRACE 4 None (Some (days 37))) = Some (the (get_invoice sample_machine_due 1))" by code_simp
  show "inv_status (the (get_invoice sample_machine_due 1)) \<noteq> PAID" by code_simp
  show "needs_power_off (sample_service 1 BARE_METAL SVC_ACTIVE)" "nonpayment_policy (sample_reseller 1 500) \<noteq> SUSPEND_ALL" by code_simp+
qed (simp_all add: sample_config_def sample_service_def sample_cycle_def)

end
