(* ===== verification/Vmid.thy ===== *)
theory Vmid
  imports Models
begin

text \<open>
  Reservation of Proxmox VM ids: \<open>app/services/vmid_allocator.py\<close> and
  \<open>app/dao/vmid_reservation_dao.py\<close>. A reservation ties a VM id of a cluster to a service and is
  never released: automatic allocation gives out exactly the free ids of the range, and a service keeps the id it was given. The Proxmox cluster itself is
  a parameter: a plugin that answers, or raises, when it is asked for the next id or whether an
  id is free.
\<close>

section \<open>State\<close>

record vmid_reservation =
  vr_id :: int
  vr_cluster_id :: int
  vr_service_id :: int
  vr_vmid :: int

record proxmox_cluster =
  pc_id :: int
  pc_vmid_min :: "int option"
  pc_vmid_max :: "int option"

record vmid_db =
  clusters :: "proxmox_cluster list"
  reservations :: "vmid_reservation list"

section \<open>Queries and inserts\<close>

definition get_by_service_id :: "vmid_db \<Rightarrow> int \<Rightarrow> vmid_reservation option" where
  "get_by_service_id s service_id =
     (case rev (sort_key vr_id (filter (\<lambda>r. vr_service_id r = service_id) (reservations s))) of
        [] \<Rightarrow> None | r # _ \<Rightarrow> Some r)"

definition get_by_cluster_vmid :: "vmid_db \<Rightarrow> int \<Rightarrow> int \<Rightarrow> vmid_reservation option" where
  "get_by_cluster_vmid s cluster_id vmid =
     List.find (\<lambda>r. vr_cluster_id r = cluster_id \<and> vr_vmid r = vmid) (reservations s)"

definition create_reservation :: "vmid_db \<Rightarrow> int \<Rightarrow> int \<Rightarrow> int \<Rightarrow> vmid_db res" where
  "create_reservation s cluster_id service_id vmid =
     (if (cluster_id, vmid) \<in> (\<lambda>r. (vr_cluster_id r, vr_vmid r)) ` set (reservations s) then Inl IntegrityError
      else Inr (s\<lparr>reservations := reservations s @
        [\<lparr>vr_id = fresh_id vr_id (reservations s), vr_cluster_id = cluster_id,
          vr_service_id = service_id, vr_vmid = vmid\<rparr>]\<rparr>))"

definition get_cluster :: "vmid_db \<Rightarrow> int \<Rightarrow> proxmox_cluster option" where
  "get_cluster s cluster_id = get_row pc_id cluster_id (clusters s)"

section \<open>Reservation\<close>

definition DEFAULT_VMID_MIN :: int where "DEFAULT_VMID_MIN = 200000"

definition DEFAULT_VMID_MAX :: int where "DEFAULT_VMID_MAX = 299999"

definition resolve_cluster_range :: "proxmox_cluster \<Rightarrow> (int \<times> int) res" where
  "resolve_cluster_range c =
     (let vmid_min = (case pc_vmid_min c of None \<Rightarrow> DEFAULT_VMID_MIN | Some v \<Rightarrow> v);
          vmid_max = (case pc_vmid_max c of None \<Rightarrow> DEFAULT_VMID_MAX | Some v \<Rightarrow> v) in
      if vmid_min \<le> 0 \<or> vmid_max \<le> 0 \<or> vmid_min > vmid_max
      then Inl (ValueError ''Invalid cluster VMID range'')
      else Inr (vmid_min, vmid_max))"

definition existing_sticky_reservation ::
  "vmid_reservation option \<Rightarrow> int \<Rightarrow> int option \<Rightarrow> int option res" where
  "existing_sticky_reservation existing cluster_id requested_vmid =
     (case existing of
        None \<Rightarrow> Inr None
      | Some r \<Rightarrow>
          (case requested_vmid of
             Some v \<Rightarrow> if v = vr_vmid r \<and> vr_cluster_id r = cluster_id then Inr (Some (vr_vmid r)) else Inr None
           | None \<Rightarrow>
               if vr_cluster_id r = cluster_id then Inr (Some (vr_vmid r))
               else Inl (ValueError ''cross-cluster reassignment requires an admin override workflow'')))"

definition reserve_explicit_vmid ::
  "vmid_db \<Rightarrow> int \<Rightarrow> int \<Rightarrow> int \<Rightarrow> int \<Rightarrow> int \<Rightarrow> bool \<Rightarrow> (int \<times> vmid_db) res" where
  "reserve_explicit_vmid s cluster_id service_id requested vmid_min vmid_max allow_outside_range =
     (if \<not> allow_outside_range \<and> (requested < vmid_min \<or> requested > vmid_max)
      then Inl (ValueError ''Requested VMID is outside cluster range'')
      else if requested \<le> 0 then Inl (ValueError ''Requested VMID must be positive'')
      else case get_by_cluster_vmid s cluster_id requested of
        Some _ \<Rightarrow> Inl (ValueError ''VMID is already reserved in cluster'')
      | None \<Rightarrow> ebind (create_reservation s cluster_id service_id requested) (\<lambda>t. Inr (requested, t)))"

text \<open>The loop over \<open>range(vmid_min, vmid_max + 1)\<close>, one lookup per id.\<close>

fun first_free :: "vmid_db \<Rightarrow> int \<Rightarrow> int list \<Rightarrow> int option" where
  "first_free s cluster_id [] = None"
| "first_free s cluster_id (v # vs) =
     (if get_by_cluster_vmid s cluster_id v = None then Some v else first_free s cluster_id vs)"

definition usable_suggestion :: "vmid_db \<Rightarrow> int \<Rightarrow> int \<Rightarrow> int \<Rightarrow> int option \<Rightarrow> int option" where
  "usable_suggestion s cluster_id vmid_min vmid_max suggested_vmid =
     (case suggested_vmid of
        None \<Rightarrow> None
      | Some v \<Rightarrow>
          if vmid_min \<le> v \<and> v \<le> vmid_max \<and> get_by_cluster_vmid s cluster_id v = None then Some v else None)"

definition reserve_next_free_vmid ::
  "vmid_db \<Rightarrow> int \<Rightarrow> int \<Rightarrow> int \<Rightarrow> int \<Rightarrow> int option \<Rightarrow> (int \<times> vmid_db) res" where
  "reserve_next_free_vmid s cluster_id service_id vmid_min vmid_max suggested_vmid =
     (case usable_suggestion s cluster_id vmid_min vmid_max suggested_vmid of
        Some v \<Rightarrow> ebind (create_reservation s cluster_id service_id v) (\<lambda>t. Inr (v, t))
      | None \<Rightarrow>
          (case first_free s cluster_id [vmid_min..vmid_max] of
             Some v \<Rightarrow> ebind (create_reservation s cluster_id service_id v) (\<lambda>t. Inr (v, t))
           | None \<Rightarrow> Inl (ValueError ''No free VMID left in cluster'')))"

definition reserve_vmid_for_service ::
  "vmid_db \<Rightarrow> int \<Rightarrow> int \<Rightarrow> int option \<Rightarrow> int option \<Rightarrow> bool \<Rightarrow> (int \<times> vmid_db) res" where
  "reserve_vmid_for_service s cluster_id service_id requested_vmid suggested_vmid allow_outside_range =
     ebind (existing_sticky_reservation (get_by_service_id s service_id) cluster_id requested_vmid) (\<lambda>sticky.
     case sticky of
       Some v \<Rightarrow> Inr (v, s)
     | None \<Rightarrow>
         (case get_cluster s cluster_id of
            None \<Rightarrow> Inl (ValueError ''Proxmox cluster not found'')
          | Some c \<Rightarrow>
              ebind (resolve_cluster_range c) (\<lambda>(vmid_min, vmid_max).
              case requested_vmid of
                Some v \<Rightarrow> reserve_explicit_vmid s cluster_id service_id v vmid_min vmid_max allow_outside_range
              | None \<Rightarrow> reserve_next_free_vmid s cluster_id service_id vmid_min vmid_max suggested_vmid)))"

section \<open>Alignment with Proxmox\<close>

record proxmox_plugin =
  check_vmid_available_for_new :: "int \<Rightarrow> bool res"
  vm_exists :: "bool res"
  get_next_vmid :: "int res"

type_synonym proxmox_registry = "proxmox_cluster \<Rightarrow> string \<Rightarrow> int \<Rightarrow> proxmox_plugin res"

definition validate_requested_vmid_on_proxmox :: "proxmox_plugin \<Rightarrow> int \<Rightarrow> bool \<Rightarrow> unit res" where
  "validate_requested_vmid_on_proxmox p requested_vmid adopt_existing =
     (if \<not> adopt_existing
      then ebind (check_vmid_available_for_new p requested_vmid) (\<lambda>ok.
        raise_if (\<not> ok) (ValueError ''VMID is not available for new allocation on Proxmox''))
      else ebind (vm_exists p) (\<lambda>found. raise_if (\<not> found) (ValueError ''No Proxmox guest with VMID on node'')))"

definition aligned_new ::
  "proxmox_registry \<Rightarrow> vmid_db \<Rightarrow> int \<Rightarrow> int \<Rightarrow> string \<Rightarrow> int option \<Rightarrow> bool \<Rightarrow> (int \<times> vmid_db) res" where
  "aligned_new reg s cluster_id service_id node_name requested_vmid adopt_existing =
     (case get_cluster s cluster_id of
        None \<Rightarrow> Inl (ValueError ''Proxmox cluster not found'')
      | Some c \<Rightarrow>
          (let placeholder = (case requested_vmid of None \<Rightarrow> 0 | Some v \<Rightarrow> v) in
           ebind (reg c (strip node_name) (if placeholder = 0 then 1 else placeholder)) (\<lambda>p.
           case requested_vmid of
             Some v \<Rightarrow>
               ebind (validate_requested_vmid_on_proxmox p v adopt_existing) (\<lambda>_.
               reserve_vmid_for_service s cluster_id service_id (Some v) None adopt_existing)
           | None \<Rightarrow>
               (let suggested = (case get_next_vmid p of Inl _ \<Rightarrow> None | Inr v \<Rightarrow> Some v) in
                reserve_vmid_for_service s cluster_id service_id None suggested False))))"

definition reserve_vmid_aligned_with_proxmox ::
  "proxmox_registry \<Rightarrow> vmid_db \<Rightarrow> int \<Rightarrow> int \<Rightarrow> string \<Rightarrow> int option \<Rightarrow> bool \<Rightarrow> (int \<times> vmid_db) res" where
  "reserve_vmid_aligned_with_proxmox reg s cluster_id service_id node_name requested_vmid adopt_existing =
     (case get_by_service_id s service_id of
        Some r \<Rightarrow>
          if vr_cluster_id r = cluster_id \<and> (requested_vmid = None \<or> requested_vmid = Some (vr_vmid r))
          then Inr (vr_vmid r, s)
          else aligned_new reg s cluster_id service_id node_name requested_vmid adopt_existing
      | None \<Rightarrow> aligned_new reg s cluster_id service_id node_name requested_vmid adopt_existing)"

section \<open>Laws of the queries\<close>

definition vmid_ok :: "vmid_db \<Rightarrow> bool" where
  "vmid_ok s \<longleftrightarrow> distinct (map (\<lambda>r. (vr_cluster_id r, vr_vmid r)) (reservations s)) \<and> distinct (map vr_id (reservations s))"

definition taken :: "vmid_db \<Rightarrow> int \<Rightarrow> int set" where
  "taken s cluster_id = vr_vmid ` {r \<in> set (reservations s). vr_cluster_id r = cluster_id}"

lemma get_by_cluster_vmid_None: "get_by_cluster_vmid s c v = None \<longleftrightarrow> v \<notin> taken s c"
  by (auto simp: get_by_cluster_vmid_def find_None_iff taken_def)

lemma create_reservation_Inr:
  "create_reservation s c sid v = Inr t \<longleftrightarrow> v \<notin> taken s c \<and>
     t = s\<lparr>reservations := reservations s @ [\<lparr>vr_id = fresh_id vr_id (reservations s), vr_cluster_id = c, vr_service_id = sid, vr_vmid = v\<rparr>]\<rparr>"
  by (auto simp: create_reservation_def taken_def)

lemma create_reservation_taken: "create_reservation s c sid v = Inr t \<Longrightarrow> insert v (taken s c) \<subseteq> taken t c"
  by (force simp: create_reservation_Inr taken_def)

lemma insort_key_snoc: "f x \<le> f r \<Longrightarrow> x \<noteq> r \<Longrightarrow> f x \<noteq> f r \<Longrightarrow> insort_key f x (ys @ [r]) = insort_key f x ys @ [r]"
  by (induction ys) auto

lemma sort_key_snoc: "\<forall>x \<in> set xs. f x < f r \<Longrightarrow> sort_key f (xs @ [r]) = sort_key f xs @ [r]"
  by (induction xs) (auto intro!: insort_key_snoc)

lemma get_by_service_id_created:
  assumes "create_reservation s c sid v = Inr t"
  shows "\<exists>r. get_by_service_id t sid = Some r \<and> vr_cluster_id r = c \<and> vr_vmid r = v"
proof -
  let ?r = "\<lparr>vr_id = fresh_id vr_id (reservations s), vr_cluster_id = c, vr_service_id = sid, vr_vmid = v\<rparr>"
  let ?mine = "\<lambda>r. vr_service_id r = sid"
  have t: "reservations t = reservations s @ [?r]" using assms by (simp add: create_reservation_Inr)
  have "\<forall>x \<in> set (filter ?mine (reservations s)). vr_id x < vr_id ?r" by (simp add: fresh_id_gt)
  from sort_key_snoc [OF this] have "get_by_service_id t sid = Some ?r" by (simp add: get_by_service_id_def t)
  then show ?thesis by simp
qed

lemma get_by_service_id_member: "get_by_service_id s sid = Some r \<Longrightarrow> r \<in> set (reservations s) \<and> vr_service_id r = sid"
proof -
  assume "get_by_service_id s sid = Some r"
  then obtain rs where "rev (sort_key vr_id (filter (\<lambda>r. vr_service_id r = sid) (reservations s))) = r # rs"
    by (auto simp: get_by_service_id_def split: list.splits)
  then have "r \<in> set (rev (sort_key vr_id (filter (\<lambda>r. vr_service_id r = sid) (reservations s))))" by simp
  then show ?thesis by auto
qed

lemma first_free_Some:
  "first_free s c vs = Some v \<longleftrightarrow> (\<exists>us ws. vs = us @ v # ws \<and> set us \<subseteq> taken s c \<and> v \<notin> taken s c)"
proof (induction vs)
  case (Cons x xs)
  show ?case
  proof (cases "x \<in> taken s c")
    case True
    have "(\<exists>us ws. x # xs = us @ v # ws \<and> set us \<subseteq> taken s c \<and> v \<notin> taken s c) \<longleftrightarrow>
        (\<exists>us ws. xs = us @ v # ws \<and> set us \<subseteq> taken s c \<and> v \<notin> taken s c)" (is "?l = ?r")
    proof
      assume ?l
      then show ?r using True by (auto simp: Cons_eq_append_conv; blast)
    next
      assume ?r
      then obtain us ws where "x # xs = (x # us) @ v # ws" "set (x # us) \<subseteq> taken s c" "v \<notin> taken s c" using True by auto
      then show ?l by blast
    qed
    with True Cons show ?thesis by (simp add: get_by_cluster_vmid_None)
  qed (auto simp: get_by_cluster_vmid_None Cons_eq_append_conv)
qed simp

lemma first_free_None: "first_free s c vs = None \<longleftrightarrow> set vs \<subseteq> taken s c"
  by (induction vs) (auto simp: get_by_cluster_vmid_None)

lemma first_free_upto:
  assumes "first_free s c [lo..hi] = Some v"
  shows "lo \<le> v \<and> v \<le> hi \<and> v \<notin> taken s c \<and> {lo..<v} \<subseteq> taken s c"
proof -
  from assms obtain us ws where vs: "[lo..hi] = us @ v # ws" and f: "set us \<subseteq> taken s c" "v \<notin> taken s c"
    by (auto simp: first_free_Some)
  then have b: "lo \<le> v \<and> v \<le> hi" by (metis atLeastAtMost_iff in_set_conv_decomp set_upto)
  have srt: "sorted (us @ v # ws)" "distinct (us @ v # ws)" using vs [symmetric] by simp_all
  have "w \<in> set us" if "lo \<le> w" "w < v" for w
  proof -
    have "w \<in> set (us @ v # ws)" using that b vs [symmetric] by simp
    then show ?thesis using that srt by (auto simp: sorted_append)
  qed
  with b f show ?thesis by auto
qed

section \<open>What a reservation does\<close>

text \<open>A successful reservation either finds the sticky one or creates exactly one row.\<close>

lemma existing_sticky_reservation_Inr:
  "existing_sticky_reservation e c req = Inr (Some v) \<Longrightarrow> \<exists>r. e = Some r \<and> vr_cluster_id r = c \<and> vr_vmid r = v"
  by (auto simp: existing_sticky_reservation_def split: option.splits if_splits)

lemma reserve_explicit_vmid_Inr:
  "reserve_explicit_vmid s c sid req lo hi out = Inr (v, t) \<Longrightarrow> create_reservation s c sid v = Inr t"
  by (auto simp: reserve_explicit_vmid_def ebind_Inr_iff split: option.splits if_splits)

lemma reserve_next_free_vmid_Inr:
  "reserve_next_free_vmid s c sid lo hi sug = Inr (v, t) \<Longrightarrow> create_reservation s c sid v = Inr t"
  by (auto simp: reserve_next_free_vmid_def ebind_Inr_iff split: option.splits)

lemma reserve_vmid_for_serviceE:
  assumes "reserve_vmid_for_service s c sid req sug out = Inr (v, t)"
  obtains (sticky) r where "t = s" "get_by_service_id s sid = Some r" "vr_cluster_id r = c" "vr_vmid r = v"
  | (created) "create_reservation s c sid v = Inr t"
proof -
  from assms obtain st where st: "existing_sticky_reservation (get_by_service_id s sid) c req = Inr st"
    and k: "(case st of Some v \<Rightarrow> Inr (v, s) | None \<Rightarrow>
         (case get_cluster s c of
            None \<Rightarrow> Inl (ValueError ''Proxmox cluster not found'')
          | Some k \<Rightarrow>
              ebind (resolve_cluster_range k) (\<lambda>(vmid_min, vmid_max).
              case req of
                Some v \<Rightarrow> reserve_explicit_vmid s c sid v vmid_min vmid_max out
              | None \<Rightarrow> reserve_next_free_vmid s c sid vmid_min vmid_max sug))) = Inr (v, t)"
    unfolding reserve_vmid_for_service_def ebind_Inr_iff by blast
  show thesis
  proof (cases st)
    case (Some w)
    then show thesis using k existing_sticky_reservation_Inr [of _ c req w] st sticky by auto
  next
    case None
    then show thesis
      using k created by (auto simp: ebind_Inr_iff split: option.splits dest: reserve_explicit_vmid_Inr reserve_next_free_vmid_Inr)
  qed
qed

lemma alignedE:
  assumes "reserve_vmid_aligned_with_proxmox reg s c sid node req adopt = Inr (v, t)"
  obtains (sticky) r where "t = s" "get_by_service_id s sid = Some r" "vr_cluster_id r = c" "vr_vmid r = v"
  | (created) "create_reservation s c sid v = Inr t"
proof (cases "aligned_new reg s c sid node req adopt = Inr (v, t)")
  case True
  then obtain req' sug out where "reserve_vmid_for_service s c sid req' sug out = Inr (v, t)"
    by (auto simp: aligned_new_def Let_def ebind_Inr_iff split: option.splits)
  then show thesis using sticky created by (rule reserve_vmid_for_serviceE)
next
  case False
  then show thesis
    using assms sticky by (auto simp: reserve_vmid_aligned_with_proxmox_def split: option.splits if_splits)
qed

datatype vmid_op =
    Reserve int int "int option" "int option" bool
  | Reserve_Aligned proxmox_registry int int string "int option" bool

fun vmid_exec :: "vmid_db \<Rightarrow> vmid_op \<Rightarrow> (int \<times> vmid_db) res" where
  "vmid_exec s (Reserve c sid req sug out) = reserve_vmid_for_service s c sid req sug out"
| "vmid_exec s (Reserve_Aligned reg c sid node req adopt) = reserve_vmid_aligned_with_proxmox reg s c sid node req adopt"

text \<open>A request that raises leaves the table as it was.\<close>

inductive vmid_step :: "vmid_db \<Rightarrow> vmid_op \<Rightarrow> vmid_db \<Rightarrow> bool" where
  "vmid_exec s x = Inr (v, t) \<Longrightarrow> vmid_step s x t"
| "vmid_exec s x = Inl e \<Longrightarrow> vmid_step s x s"

inductive_cases vmid_stepE: "vmid_step s x t"

fun op_service :: "vmid_op \<Rightarrow> int" where
  "op_service (Reserve c sid req sug out) = sid"
| "op_service (Reserve_Aligned reg c sid node req adopt) = sid"

lemma vmid_exec_creates:
  "vmid_exec s x = Inr (v, t) \<Longrightarrow> t = s \<or> (\<exists>c. create_reservation s c (op_service x) v = Inr t)"
  by (cases x) (auto elim!: reserve_vmid_for_serviceE alignedE)

lemma create_reservation_ok: "vmid_ok s \<Longrightarrow> create_reservation s c sid v = Inr t \<Longrightarrow> vmid_ok t"
  using fresh_id_notin [of vr_id "reservations s"] by (auto simp: vmid_ok_def create_reservation_Inr taken_def)

lemma vmid_step_ok: "vmid_ok s \<Longrightarrow> vmid_step s x t \<Longrightarrow> vmid_ok t"
  by (elim vmid_stepE) (auto dest!: vmid_exec_creates intro: create_reservation_ok)

interpretation vmid: transition_system vmid_ok vmid_step vmid_ok
  by unfold_locales (auto intro: vmid_step_ok)

interpretation vmids: allocator "\<lambda>s. reserve_next_free_vmid s c sid lo hi sug" "\<lambda>s. taken s c" vmid_ok for c sid lo hi sug
proof
  fix s n t
  assume ok: "vmid_ok s" and "reserve_next_free_vmid s c sid lo hi sug = Inr (n, t)"
  then have cr: "create_reservation s c sid n = Inr t" by (blast dest: reserve_next_free_vmid_Inr)
  then show "n \<notin> taken s c" by (simp add: create_reservation_Inr)
  show "insert n (taken s c) \<subseteq> taken t c" using cr by (rule create_reservation_taken)
  show "vmid_ok t" using ok cr by (rule create_reservation_ok)
qed

section \<open>Properties\<close>

definition sample_vmids :: vmid_db where
  "sample_vmids = \<lparr>clusters = [\<lparr>pc_id = 1, pc_vmid_min = Some 200, pc_vmid_max = Some 202\<rparr>],
     reservations = [\<lparr>vr_id = 1, vr_cluster_id = 1, vr_service_id = 10, vr_vmid = 200\<rparr>]\<rparr>"

text \<open>
  C33: automatic allocation is exact. For a service without a reservation and a cluster with a valid
  range, allocation succeeds exactly when some id of the range is unreserved; the id lies in the range
  and was free, it is the suggestion of Proxmox if that lies in the range and is free, and otherwise
  the least free id of the range; the only change is its row. Otherwise it raises and changes nothing.
\<close>

theorem vmid_allocation_exact:
  assumes "get_by_service_id s sid = None" "get_cluster s c = Some k" "resolve_cluster_range k = Inr (lo, hi)"
  shows "if {lo..hi} \<subseteq> taken s c
    then reserve_vmid_for_service s c sid None sug out = Inl (ValueError ''No free VMID left in cluster'')
    else \<exists>v t. reserve_vmid_for_service s c sid None sug out = Inr (v, t) \<and> lo \<le> v \<and> v \<le> hi \<and> v \<notin> taken s c \<and>
      (case usable_suggestion s c lo hi sug of Some w \<Rightarrow> v = w | None \<Rightarrow> {lo..<v} \<subseteq> taken s c) \<and>
      reservations t = reservations s @ [\<lparr>vr_id = fresh_id vr_id (reservations s), vr_cluster_id = c, vr_service_id = sid, vr_vmid = v\<rparr>]"
proof -
  have r: "reserve_vmid_for_service s c sid None sug out = reserve_next_free_vmid s c sid lo hi sug"
    using assms by (simp add: reserve_vmid_for_service_def existing_sticky_reservation_def)
  have cr: "create_reservation s c sid v = Inr (s\<lparr>reservations := reservations s @
      [\<lparr>vr_id = fresh_id vr_id (reservations s), vr_cluster_id = c, vr_service_id = sid, vr_vmid = v\<rparr>]\<rparr>)" if "v \<notin> taken s c" for v
    using that by (simp add: create_reservation_Inr)
  show ?thesis
  proof (cases "usable_suggestion s c lo hi sug")
    case (Some w)
    then have "lo \<le> w" "w \<le> hi" "w \<notin> taken s c"
      by (auto simp: usable_suggestion_def get_by_cluster_vmid_None split: option.splits if_splits)
    with Some cr [of w] show ?thesis by (auto simp: r reserve_next_free_vmid_def)
  next
    case None
    show ?thesis
    proof (cases "first_free s c [lo..hi]")
      case (Some v)
      with None first_free_upto [OF Some] cr [of v] show ?thesis by (auto simp: r reserve_next_free_vmid_def)
    next
      case f: None
      then have "{lo..hi} \<subseteq> taken s c" by (simp add: first_free_None)
      with None f show ?thesis by (simp add: r reserve_next_free_vmid_def)
    qed
  qed
qed

theorem vmid_allocation_exact_witness:
  "\<exists>v t. reserve_vmid_for_service sample_vmids 1 11 None (Some 999) False = Inr (v, t) \<and> v = 201 \<and> 200 \<le> v \<and> v \<le> 202 \<and> length (reservations t) = 2"
proof -
  let ?k = "\<lparr>pc_id = 1, pc_vmid_min = Some 200, pc_vmid_max = Some 202\<rparr>"
  have "get_by_service_id sample_vmids 11 = None" "get_cluster sample_vmids 1 = Some ?k" "resolve_cluster_range ?k = Inr (200, 202)"
    by (simp_all add: get_by_service_id_def get_cluster_def resolve_cluster_range_def sample_vmids_def)
  note e = vmid_allocation_exact [OF this, of "Some 999" False]
  have t: "taken sample_vmids 1 = {200}" by (auto simp: taken_def sample_vmids_def)
  have "201 \<in> {200..202 :: int}" "201 \<notin> taken sample_vmids 1" by (simp_all add: t)
  then have us: "usable_suggestion sample_vmids 1 200 202 (Some 999) = None" and ns: "\<not> {200..202} \<subseteq> taken sample_vmids 1"
    by (simp add: usable_suggestion_def, blast)
  from e [unfolded if_not_P [OF ns], unfolded us option.case t] obtain v u where v: "reserve_vmid_for_service sample_vmids 1 11 None (Some 999) False = Inr (v, u)"
      "200 \<le> v" "v \<le> 202" "v \<notin> {200}" "{200..<v} \<subseteq> {200}" and u: "reservations u = reservations sample_vmids @
        [\<lparr>vr_id = fresh_id vr_id (reservations sample_vmids), vr_cluster_id = 1, vr_service_id = 11, vr_vmid = v\<rparr>]"
    by blast
  have "length (reservations u) = 2" by (simp add: u sample_vmids_def)
  moreover
  have "201 \<notin> {200..<v}" using v(5) by fastforce
  ultimately show ?thesis using v by (intro exI [of _ v] exI [of _ u]) auto
qed

text \<open>A retry of a service's allocation finds the reservation of the first run.\<close>

interpretation sticky: idempotent_operation "\<lambda>s. reserve_vmid_aligned_with_proxmox reg s c sid node None False"
  "\<lambda>s v. \<exists>r. get_by_service_id s sid = Some r \<and> vr_cluster_id r = c \<and> vr_vmid r = v" "\<lambda>s. True" for reg c sid node
proof
  fix s v t
  assume "reserve_vmid_aligned_with_proxmox reg s c sid node None False = Inr (v, t)"
  then show "(\<exists>r. get_by_service_id t sid = Some r \<and> vr_cluster_id r = c \<and> vr_vmid r = v) \<and> True"
    by (rule alignedE) (auto dest: get_by_service_id_created)
qed (auto simp: reserve_vmid_aligned_with_proxmox_def)

text \<open>The reservations of a service are its own: requests for other services leave what is found for it.\<close>

lemma get_by_service_id_other: "create_reservation s c sid' v = Inr t \<Longrightarrow> sid' \<noteq> sid \<Longrightarrow> get_by_service_id t sid = get_by_service_id s sid"
  by (simp add: create_reservation_Inr get_by_service_id_def)

lemma vmid_step_other: "vmid_step s x t \<Longrightarrow> op_service x \<noteq> sid \<Longrightarrow> get_by_service_id t sid = get_by_service_id s sid"
  by (elim vmid_stepE) (auto dest!: vmid_exec_creates intro: get_by_service_id_other)

lemma vmid_runs_other: "runs vmid_step s xs t \<Longrightarrow> list_all (\<lambda>x. op_service x \<noteq> sid) xs \<Longrightarrow> get_by_service_id t sid = get_by_service_id s sid"
  by (induction rule: runs.induct) (simp_all add: vmid_step_other)

text \<open>
  C34: reservations are sticky. Once a service has been given a VM id in a cluster, running the allocation again any number of times, as
  re-provisioning does, returns without adding a row; and after any further requests for other services, those that raise included, the
  service is given the same id again and nothing is added, whatever Proxmox would answer by then and on whatever node.
\<close>

theorem vmid_reservation_sticky:
  assumes "reserve_vmid_aligned_with_proxmox reg s c sid node None False = Inr (v, t)"
    and "runs vmid_step t xs u" "list_all (\<lambda>x. op_service x \<noteq> sid) xs"
  shows "replay (\<lambda>s. reserve_vmid_aligned_with_proxmox reg s c sid node None False) (Suc k) s = Inr t \<and>
    reserve_vmid_aligned_with_proxmox reg' u c sid node' None False = Inr (v, u)"
proof -
  have "\<exists>r. get_by_service_id t sid = Some r \<and> vr_cluster_id r = c \<and> vr_vmid r = v"
    using sticky.perform_done [OF TrueI assms(1)] by blast
  with vmid_runs_other [OF assms(2,3)] have "\<exists>r. get_by_service_id u sid = Some r \<and> vr_cluster_id r = c \<and> vr_vmid r = v" by simp
  then show ?thesis using sticky.replay_once [OF TrueI assms(1)] sticky.done_again [OF TrueI] by blast
qed

definition sample_proxmox :: "int \<Rightarrow> proxmox_registry" where
  "sample_proxmox n = (\<lambda>_ _ _. Inr \<lparr>check_vmid_available_for_new = (\<lambda>_. Inr True), vm_exists = Inr False, get_next_vmid = Inr n\<rparr>)"

theorem vmid_reservation_sticky_witness:
  "\<exists>t u. replay (\<lambda>s. reserve_vmid_aligned_with_proxmox (sample_proxmox 202) s 1 11 ''n'' None False) 3 sample_vmids = Inr t \<and> length (reservations t) = 2 \<and>
     runs vmid_step t [Reserve 1 12 None None False] u \<and> length (reservations u) = 3 \<and>
     reserve_vmid_aligned_with_proxmox (sample_proxmox 7) u 1 11 ''m'' None False = Inr (202, u)"
proof -
  let ?t = "sample_vmids\<lparr>reservations := reservations sample_vmids @ [\<lparr>vr_id = 2, vr_cluster_id = 1, vr_service_id = 11, vr_vmid = 202\<rparr>]\<rparr>"
  let ?u = "?t\<lparr>reservations := reservations ?t @ [\<lparr>vr_id = 3, vr_cluster_id = 1, vr_service_id = 12, vr_vmid = 201\<rparr>]\<rparr>"
  have p: "reserve_vmid_aligned_with_proxmox (sample_proxmox 202) sample_vmids 1 11 ''n'' None False = Inr (202, ?t)" by code_simp
  have "vmid_exec ?t (Reserve 1 12 None None False) = Inr (201, ?u)" by code_simp
  note s = vmid_step.intros(1) [OF this]
  have r: "runs vmid_step ?t [Reserve 1 12 None None False] ?u" by (rule runs_Cons [where step = vmid_step, OF s], rule runs_Nil)
  have o: "list_all (\<lambda>x. op_service x \<noteq> 11) [Reserve 1 12 None None False]" by simp
  note st = vmid_reservation_sticky [OF p r o, of 2 "sample_proxmox 7" "''m''"]
  have "length (reservations ?t) = 2" "length (reservations ?u) = 3" by (simp_all add: sample_vmids_def)
  with st r show ?thesis by (intro exI [of _ ?t] exI [of _ ?u]) (simp add: numeral_eq_Suc)
qed

end
