(* ===== verification/Ip_Text.thy ===== *)
theory Ip_Text
  imports Base
begin

text \<open>
  What the address management uses of Python's \<open>ipaddress\<close> module: reading and printing
  IPv4 and IPv6 addresses, reading a network in CIDR notation without the strict check of its host bits,
  the usable hosts of a network, and the order of addresses, which raises between versions. An
  address is its version and its number; an IPv6 address may carry a scope id. A text that is
  no address is \<open>None\<close>, which \<open>ip_address\<close> and \<open>ip_network\<close> turn into a
  \<open>ValueError\<close>.
\<close>

section \<open>Splitting and joining text\<close>

fun split_on :: "char \<Rightarrow> string \<Rightarrow> string list" where
  "split_on c [] = [[]]"
| "split_on c (x # xs) =
     (if x = c then [] # split_on c xs
      else (case split_on c xs of [] \<Rightarrow> [[x]] | y # ys \<Rightarrow> (x # y) # ys))"

fun join_with :: "string \<Rightarrow> string list \<Rightarrow> string" where
  "join_with sep [] = []"
| "join_with sep [x] = x"
| "join_with sep (x # y # ys) = x @ sep @ join_with sep (y # ys)"

definition is_digit :: "char \<Rightarrow> bool" where
  "is_digit c \<longleftrightarrow> 48 \<le> (of_char c :: nat) \<and> (of_char c :: nat) \<le> 57"

definition isdigit :: "string \<Rightarrow> bool" where
  "isdigit s \<longleftrightarrow> s \<noteq> [] \<and> list_all is_digit s"

text \<open>All parts, unless one is missing.\<close>

fun all_some :: "'a option list \<Rightarrow> 'a list option" where
  "all_some [] = Some []"
| "all_some (x # xs) = (case (x, all_some xs) of (Some y, Some ys) \<Rightarrow> Some (y # ys) | _ \<Rightarrow> None)"

section \<open>Addresses\<close>

datatype address = V4 int | V6 int "string option"

subsection \<open>IPv4\<close>

definition parse_octet :: "string \<Rightarrow> int option" where
  "parse_octet s =
     (if \<not> isdigit s \<or> 3 < length s \<or> (s \<noteq> ''0'' \<and> hd s = CHR ''0'') then None
      else let n = int (read_digits s) in if 255 < n then None else Some n)"

definition ipv4_int :: "string \<Rightarrow> int option" where
  "ipv4_int s =
     (case all_some (map parse_octet (split_on CHR ''.'' s)) of
        Some [a, b, c, d] \<Rightarrow> Some (((a * 256 + b) * 256 + c) * 256 + d)
      | _ \<Rightarrow> None)"

definition ipv4_str :: "int \<Rightarrow> string" where
  "ipv4_str n = join_with ''.''
     (map show_int [n div 16777216 mod 256, n div 65536 mod 256, n div 256 mod 256, n mod 256])"

subsection \<open>IPv6\<close>

definition hex_value :: "char \<Rightarrow> nat option" where
  "hex_value c =
     (let n = of_char c :: nat in
      if 48 \<le> n \<and> n \<le> 57 then Some (n - 48)
      else if 97 \<le> n \<and> n \<le> 102 then Some (n - 87)
      else if 65 \<le> n \<and> n \<le> 70 then Some (n - 55) else None)"

definition parse_hextet :: "string \<Rightarrow> int option" where
  "parse_hextet s =
     (if s = [] \<or> list_ex (\<lambda>c. hex_value c = None) s \<or> 4 < length s then None
      else Some (foldl (\<lambda>n c. 16 * n + int (the (hex_value c))) 0 s))"

definition hex_digit :: "nat \<Rightarrow> char" where
  "hex_digit d = (if d < 10 then char_of (48 + d) else char_of (87 + d))"

function show_hex :: "int \<Rightarrow> string" where
  "show_hex n = (if n < 16 then [hex_digit (nat n)] else show_hex (n div 16) @ [hex_digit (nat (n mod 16))])"
  by auto

termination by (relation "measure nat") auto

declare show_hex.simps [simp del]

text \<open>An IPv4 tail is replaced by the two hextets it stands for.\<close>

definition ipv6_parts :: "string \<Rightarrow> string list option" where
  "ipv6_parts s =
     (let parts = split_on CHR '':'' s in
      if length parts < 3 then None
      else if CHR ''.'' \<in> set (last parts)
      then (case ipv4_int (last parts) of
              None \<Rightarrow> None
            | Some n \<Rightarrow> Some (butlast parts @ [show_hex (n div 65536 mod 65536), show_hex (n mod 65536)]))
      else Some parts)"

text \<open>The numbers of the hextets, with the ones skipped by \<open>::\<close> filled in as zeros.\<close>

definition ipv6_hextets :: "string list \<Rightarrow> int list option" where
  "ipv6_hextets parts =
     (case filter (\<lambda>i. parts ! i = []) [1..<length parts - 1] of
        [] \<Rightarrow> if length parts \<noteq> 8 then None else all_some (map parse_hextet parts)
      | [skip] \<Rightarrow>
          (let hi = (if hd parts = [] then skip - 1 else skip);
               lo = (if last parts = [] then length parts - skip - 2 else length parts - skip - 1) in
           if (hd parts = [] \<and> hi \<noteq> 0) \<or> (last parts = [] \<and> lo \<noteq> 0) \<or> 8 \<le> hi + lo then None
           else (case (all_some (map parse_hextet (take hi parts)), all_some (map parse_hextet (drop (length parts - lo) parts))) of
                   (Some his, Some los) \<Rightarrow> Some (his @ replicate (8 - (hi + lo)) 0 @ los)
                 | _ \<Rightarrow> None))
      | _ \<Rightarrow> None)"

definition ipv6_int :: "string \<Rightarrow> int option" where
  "ipv6_int s =
     (case ipv6_parts s of
        None \<Rightarrow> None
      | Some parts \<Rightarrow>
          if 9 < length parts then None
          else map_option (foldl (\<lambda>n h. n * 65536 + h) 0) (ipv6_hextets parts))"

text \<open>The longest run of zero hextets, the first of them when there are several.\<close>

fun longest_zeros :: "nat \<Rightarrow> string list \<Rightarrow> nat \<times> nat \<Rightarrow> nat \<times> nat \<Rightarrow> nat \<times> nat" where
  "longest_zeros i [] cur best = best"
| "longest_zeros i (h # hs) (start, len) (bstart, blen) =
     (if h = ''0''
      then let start' = (if len = 0 then i else start); len' = len + 1 in
           longest_zeros (i + 1) hs (start', len') (if blen < len' then (start', len') else (bstart, blen))
      else longest_zeros (i + 1) hs (0, 0) (bstart, blen))"

definition compress_hextets :: "string list \<Rightarrow> string list" where
  "compress_hextets hs =
     (let (start, len) = longest_zeros 0 hs (0, 0) (0, 0) in
      if len \<le> 1 then hs
      else (if start = 0 then [[]] else []) @ take start hs @ [[]] @ drop (start + len) hs @
           (if start + len = length hs then [[]] else []))"

definition ipv6_str :: "int \<Rightarrow> string" where
  "ipv6_str n = join_with '':''
     (compress_hextets (map (\<lambda>i. show_hex (n div 65536 ^ i mod 65536)) (rev [0..<8])))"

text \<open>The scope id follows a percent sign.\<close>

definition ipv6_address :: "string \<Rightarrow> address option" where
  "ipv6_address s =
     (if CHR ''/'' \<in> set s then None
      else case split_on CHR ''%'' s of
        [a] \<Rightarrow> map_option (\<lambda>n. V6 n None) (ipv6_int a)
      | [a, scope] \<Rightarrow> if scope = [] then None else map_option (\<lambda>n. V6 n (Some scope)) (ipv6_int a)
      | _ \<Rightarrow> None)"

definition ipv4_address :: "string \<Rightarrow> address option" where
  "ipv4_address s = (if CHR ''/'' \<in> set s then None else map_option V4 (ipv4_int s))"

definition ip_address :: "string \<Rightarrow> address res" where
  "ip_address s =
     (case ipv4_address s of
        Some a \<Rightarrow> Inr a
      | None \<Rightarrow> (case ipv6_address s of Some a \<Rightarrow> Inr a | None \<Rightarrow> Inl (ValueError ''not an IPv4 or IPv6 address'')))"

fun address_str :: "address \<Rightarrow> string" where
  "address_str (V4 n) = ipv4_str n"
| "address_str (V6 n None) = ipv6_str n"
| "address_str (V6 n (Some scope)) = ipv6_str n @ ''%'' @ scope"

text \<open>
  The order of addresses compares the numbers and raises between versions; equality looks at the
  scope id too, and \<open><=\<close> is \<open><\<close> or \<open>==\<close>.
\<close>

fun address_lt :: "address \<Rightarrow> address \<Rightarrow> bool res" where
  "address_lt (V4 a) (V4 b) = Inr (a < b)"
| "address_lt (V6 a _) (V6 b _) = Inr (a < b)"
| "address_lt _ _ = Inl (TypeError ''not of the same version'')"

definition address_ge :: "address \<Rightarrow> address \<Rightarrow> bool res" where
  "address_ge a b = ebind (address_lt a b) (\<lambda>lt. Inr (\<not> lt))"

definition address_le :: "address \<Rightarrow> address \<Rightarrow> bool res" where
  "address_le a b = ebind (address_lt a b) (\<lambda>lt. Inr (lt \<or> a = b))"

section \<open>Networks\<close>

text \<open>
  A network is its first address and its prefix length; an IPv6 network of one address keeps the
  scope id of the address it was read from, which it gives back as its only host.
\<close>

datatype network = Net4 int nat | Net6 int nat "string option"

definition prefix_from_prefix_string :: "nat \<Rightarrow> string \<Rightarrow> nat option" where
  "prefix_from_prefix_string width s =
     (if \<not> isdigit s then None else let p = read_digits s in if width < p then None else Some p)"

text \<open>A net mask, or else a host mask, written as an address.\<close>

definition netmask4 :: "nat \<Rightarrow> int" where
  "netmask4 p = 2 ^ 32 - 2 ^ (32 - p)"

definition prefix_from_ip_int :: "int \<Rightarrow> nat option" where
  "prefix_from_ip_int n = List.find (\<lambda>p. netmask4 p = n) [0..<33]"

definition prefix_from_ip_string :: "string \<Rightarrow> nat option" where
  "prefix_from_ip_string s =
     (case ipv4_int s of
        None \<Rightarrow> None
      | Some n \<Rightarrow>
          (case prefix_from_ip_int n of
             Some p \<Rightarrow> Some p
           | None \<Rightarrow> prefix_from_ip_int (2 ^ 32 - 1 - n)))"

definition prefix4 :: "string \<Rightarrow> nat option" where
  "prefix4 s = (case prefix_from_prefix_string 32 s of Some p \<Rightarrow> Some p | None \<Rightarrow> prefix_from_ip_string s)"

definition network_of :: "nat \<Rightarrow> nat \<Rightarrow> int \<Rightarrow> int" where
  "network_of width p n = n - n mod 2 ^ (width - p)"

definition ipv4_network :: "string \<Rightarrow> network option" where
  "ipv4_network s =
     (case split_on CHR ''/'' s of
        [a] \<Rightarrow> map_option (\<lambda>n. Net4 n 32) (ipv4_int a)
      | [a, m] \<Rightarrow>
          (case (ipv4_int a, prefix4 m) of
             (Some n, Some p) \<Rightarrow> Some (Net4 (network_of 32 p n) p)
           | _ \<Rightarrow> None)
      | _ \<Rightarrow> None)"

definition net6 :: "string \<Rightarrow> nat \<Rightarrow> network option" where
  "net6 a p =
     (case ipv6_address a of
        Some (V6 n scope) \<Rightarrow> Some (Net6 (network_of 128 p n) p (if p = 128 then scope else None))
      | _ \<Rightarrow> None)"

definition ipv6_network :: "string \<Rightarrow> network option" where
  "ipv6_network s =
     (case split_on CHR ''/'' s of
        [a] \<Rightarrow> net6 a 128
      | [a, m] \<Rightarrow> (case prefix_from_prefix_string 128 m of Some p \<Rightarrow> net6 a p | None \<Rightarrow> None)
      | _ \<Rightarrow> None)"

definition ip_network :: "string \<Rightarrow> network res" where
  "ip_network s =
     (case ipv4_network s of
        Some n \<Rightarrow> Inr n
      | None \<Rightarrow> (case ipv6_network s of Some n \<Rightarrow> Inr n | None \<Rightarrow> Inl (ValueError ''not an IPv4 or IPv6 network'')))"

text \<open>
  An IPv4 network leaves out its network and broadcast addresses, an IPv6 network only the
  former; networks of one or two addresses leave out none.
\<close>

fun hosts :: "network \<Rightarrow> address list" where
  "hosts (Net4 n p) =
     (if 31 \<le> p then map V4 [n..n + 2 ^ (32 - p) - 1] else map V4 [n + 1..n + 2 ^ (32 - p) - 2])"
| "hosts (Net6 n p scope) =
     (if p = 128 then [V6 n scope]
      else if p = 127 then map (\<lambda>x. V6 x None) [n..n + 1]
      else map (\<lambda>x. V6 x None) [n + 1..n + 2 ^ (128 - p) - 1])"

section \<open>Reading and printing are inverse\<close>

lemma split_on_nonempty [simp]: "split_on c s \<noteq> []"
  by (induction s) (auto split: list.splits)

lemma split_on_none: "c \<notin> set s \<Longrightarrow> split_on c s = [s]"
  by (induction s) auto

lemma split_on_append: "c \<notin> set a \<Longrightarrow> split_on c (a @ c # s) = a # split_on c s"
  by (induction a) auto

lemma join_split: "join_with [c] (split_on c s) = s"
proof (induction s)
  case (Cons x s)
  show ?case
  proof (cases "split_on c s")
    case (Cons y ys)
    with Cons.IH show ?thesis by (cases ys) auto
  qed simp
qed simp

lemma split_join: "parts \<noteq> [] \<Longrightarrow> \<forall>p \<in> set parts. c \<notin> set p \<Longrightarrow> split_on c (join_with [c] parts) = parts"
proof (induction "[c]" parts rule: join_with.induct)
  case (3 x y ys)
  then show ?case by (simp add: split_on_append)
qed (simp_all add: split_on_none)

text \<open>Digits without a superfluous leading zero are the decimal form of their number.\<close>

lemma read_digits_snoc: "read_digits (s @ [c]) = 10 * read_digits s + (of_char c - 48)"
  by (simp add: read_digits_def)

lemma read_digits_pos: "isdigit s \<Longrightarrow> hd s \<noteq> CHR ''0'' \<Longrightarrow> 0 < read_digits s"
proof (induction s rule: rev_induct)
  case (snoc c s)
  show ?case
  proof (cases s)
    case Nil
    have "char_of (48 :: nat) = CHR ''0''" by code_simp
    then have "c \<noteq> char_of (48 :: nat)" using snoc.prems(2) Nil by simp
    then have "(of_char c :: nat) \<noteq> 48" by (metis char_of_char)
    then show ?thesis using snoc.prems(1) Nil by (simp add: isdigit_def is_digit_def read_digits_def)
  next
    case (Cons d ds)
    then have "0 < read_digits s" using snoc by (simp add: isdigit_def)
    then show ?thesis by (simp add: read_digits_snoc)
  qed
qed (simp add: isdigit_def)

lemma show_read_digits: "isdigit s \<Longrightarrow> s = ''0'' \<or> hd s \<noteq> CHR ''0'' \<Longrightarrow> show_nat (read_digits s) = s"
proof (induction s rule: rev_induct)
  case (snoc c s)
  have c: "48 \<le> (of_char c :: nat)" "(of_char c :: nat) \<le> 57" using snoc.prems(1) by (simp_all add: isdigit_def is_digit_def)
  then have dc: "digit_char (of_char c - 48) = c" by (simp add: digit_char_def)
  show ?case
  proof (cases "s = []")
    case True
    then show ?thesis using c dc by (simp add: read_digits_def show_nat.simps)
  next
    case False
    then have s: "isdigit s" "hd s \<noteq> CHR ''0''" using snoc.prems by (auto simp: isdigit_def hd_append)
    then have "0 < read_digits s" by (rule read_digits_pos)
    define d where "d = (of_char c - 48 :: nat)"
    have d: "d < 10" "digit_char d = c" using c dc by (simp_all add: d_def)
    have "show_nat (10 * read_digits s + d) = show_nat (read_digits s) @ [digit_char d]"
      using \<open>0 < read_digits s\<close> d(1) by (simp add: show_nat.simps [of "10 * read_digits s + d"])
    then show ?thesis using snoc.IH s d by (simp add: read_digits_snoc d_def [symmetric])
  qed
qed (simp add: isdigit_def)

lemma show_nat_isdigit: "isdigit (show_nat n)"
  using show_nat_digits [of _ n] show_nat.simps [of n] by (auto simp: isdigit_def is_digit_def list_all_iff)

lemma show_nat_hd: "0 < n \<Longrightarrow> hd (show_nat n) \<noteq> CHR ''0''"
proof (induction n rule: show_nat.induct)
  case (1 n)
  show ?case
  proof (cases "n < 10")
    case True
    have "(of_char (digit_char n) :: nat) \<noteq> of_char CHR ''0''" using True "1.prems" by (simp add: of_digit_char)
    then show ?thesis using True by (auto simp: show_nat.simps [of n])
  next
    case False
    then have "hd (show_nat (n div 10)) \<noteq> CHR ''0''" using "1.IH" by simp
    moreover have "show_nat (n div 10) \<noteq> []" using show_nat_isdigit by (simp add: isdigit_def)
    ultimately show ?thesis using False by (simp add: show_nat.simps [of n])
  qed
qed

lemma show_nat_length: "n < 1000 \<Longrightarrow> length (show_nat n) \<le> 3"
  by (simp add: show_nat.simps [of n] show_nat.simps [of "n div 10"] show_nat.simps [of "n div 10 div 10"])

lemma parse_octet_show:
  assumes "0 \<le> n" "n < 256"
  shows "parse_octet (show_int n) = Some n"
proof (cases "n = 0")
  case True
  show ?thesis unfolding True by code_simp
next
  case False
  let ?s = "show_nat (nat n)"
  have "length ?s \<le> 3" "hd ?s \<noteq> CHR ''0''" using assms False by (simp_all add: show_nat_length show_nat_hd)
  then show ?thesis using assms show_nat_isdigit [of "nat n"] by (simp add: parse_octet_def show_int_def read_show_nat Let_def)
qed

lemma parse_octet_Some: "parse_octet s = Some n \<Longrightarrow> 0 \<le> n \<and> n < 256 \<and> show_int n = s"
  using show_read_digits [of s] by (auto simp: parse_octet_def show_int_def Let_def split: if_splits)

lemma show_octet_no_dot: "0 \<le> n \<Longrightarrow> CHR ''.'' \<notin> set (show_int n)"
  using show_nat_digits [of "CHR ''.''" "nat n"] by (auto simp: show_int_def)

lemma octets_number:
  fixes a b c d :: int
  assumes "0 \<le> a" "a < 256" "0 \<le> b" "b < 256" "0 \<le> c" "c < 256" "0 \<le> d" "d < 256"
  defines "n \<equiv> ((a * 256 + b) * 256 + c) * 256 + d"
  shows "n div 16777216 mod 256 = a" "n div 65536 mod 256 = b" "n div 256 mod 256 = c" "n mod 256 = d" "0 \<le> n" "n < 2 ^ 32"
proof -
  have step: "(x * 256 + y) div 256 = x" "(x * 256 + y) mod 256 = y" if "0 \<le> y" "y < 256" for x y :: int using that by simp_all
  have "n div 65536 = n div 256 div 256" "n div 16777216 = n div 256 div 256 div 256" by (simp_all add: zdiv_zmult2_eq)
  then show "n div 16777216 mod 256 = a" "n div 65536 mod 256 = b" "n div 256 mod 256 = c" "n mod 256 = d"
    using assms(1-8) unfolding n_def by (simp_all only: step) simp_all
  show "0 \<le> n" "n < 2 ^ 32" using assms(1-8) by (simp_all add: n_def)
qed

lemma number_octets:
  fixes n :: int
  assumes "0 \<le> n" "n < 2 ^ 32"
  shows "((n div 16777216 mod 256 * 256 + n div 65536 mod 256) * 256 + n div 256 mod 256) * 256 + n mod 256 = n"
proof -
  have "n div 65536 = n div 256 div 256" "n div 16777216 = n div 256 div 256 div 256" by (simp_all add: zdiv_zmult2_eq)
  moreover have "n div 16777216 < 256" "0 \<le> n div 16777216" using assms by simp_all
  then have "n div 16777216 mod 256 = n div 16777216" by simp
  ultimately show ?thesis by (metis div_mult_mod_eq)
qed

lemma all_some_map [simp]: "all_some (map Some ys) = Some ys"
  by (induction ys) simp_all

lemma all_some_Some: "all_some xs = Some ys \<Longrightarrow> xs = map Some ys"
  by (induction xs arbitrary: ys) (auto split: option.splits)

lemma four_cases:
  "(case ds of [a, b, c, d] \<Rightarrow> Some (f a b c d) | _ \<Rightarrow> None) = Some n \<Longrightarrow> \<exists>a b c d. ds = [a, b, c, d] \<and> n = f a b c d"
  by (auto split: list.splits)

lemma ipv4_int_str: "0 \<le> n \<Longrightarrow> n < 2 ^ 32 \<Longrightarrow> ipv4_int (ipv4_str n) = Some n"
proof -
  assume n: "0 \<le> n" "n < 2 ^ 32"
  let ?parts = "[n div 16777216 mod 256, n div 65536 mod 256, n div 256 mod 256, n mod 256]"
  have "split_on CHR ''.'' (ipv4_str n) = map show_int ?parts"
    unfolding ipv4_str_def by (rule split_join) (auto simp: show_octet_no_dot)
  then have "map parse_octet (split_on CHR ''.'' (ipv4_str n)) = map Some ?parts" by (simp add: parse_octet_show)
  then show ?thesis unfolding ipv4_int_def by (simp only: all_some_map option.case list.case number_octets [OF n])
qed

lemma ipv4_int_Some: "ipv4_int s = Some n \<Longrightarrow> 0 \<le> n \<and> n < 2 ^ 32 \<and> ipv4_str n = s"
proof -
  assume "ipv4_int s = Some n"
  then obtain ds where ds: "all_some (map parse_octet (split_on CHR ''.'' s)) = Some ds"
    and n: "(case ds of [a, b, c, d] \<Rightarrow> Some (((a * 256 + b) * 256 + c) * 256 + d) | _ \<Rightarrow> None) = Some n"
    unfolding ipv4_int_def by (cases "all_some (map parse_octet (split_on CHR ''.'' s))") simp_all
  from four_cases [OF n] obtain a b c d where "ds = [a, b, c, d]" and n: "n = ((a * 256 + b) * 256 + c) * 256 + d" by blast
  with all_some_Some [OF ds] have "map parse_octet (split_on CHR ''.'' s) = [Some a, Some b, Some c, Some d]" by simp
  then obtain w x y z where sp: "split_on CHR ''.'' s = [w, x, y, z]"
    and o: "parse_octet w = Some a" "parse_octet x = Some b" "parse_octet y = Some c" "parse_octet z = Some d"
    by (auto simp: map_eq_Cons_conv)
  note o' = o [THEN parse_octet_Some]
  have q: "n div 16777216 mod 256 = a" "n div 65536 mod 256 = b" "n div 256 mod 256 = c" "n mod 256 = d" "0 \<le> n" "n < 2 ^ 32"
    unfolding n by (rule octets_number; use o' in blast)+
  have "ipv4_str n = join_with ''.'' [show_int a, show_int b, show_int c, show_int d]" by (simp only: ipv4_str_def q list.map)
  also have "\<dots> = join_with ''.'' [w, x, y, z]" using o' by (elim conjE) (simp only:)
  also have "\<dots> = s" using join_split [of "CHR ''.''" s] by (simp add: sp)
  finally show ?thesis using q(5,6) by simp
qed

lemma ipv4_str_no_slash: "CHR ''/'' \<notin> set (ipv4_str n)"
proof -
  have "CHR ''/'' \<notin> set (show_int k)" if "0 \<le> k" for k
    using show_nat_digits [of "CHR ''/''" "nat k"] that by (auto simp: show_int_def)
  then show ?thesis by (simp add: ipv4_str_def)
qed

lemma ip_address_str: "0 \<le> n \<Longrightarrow> n < 2 ^ 32 \<Longrightarrow> ip_address (address_str (V4 n)) = Inr (V4 n)"
  by (simp add: ip_address_def ipv4_address_def ipv4_int_str ipv4_str_no_slash)

lemma ipv6_address_not_V4: "ipv6_address s \<noteq> Some (V4 n)"
  by (auto simp: ipv6_address_def split: list.splits if_splits)

lemma ip_address_V4: "ip_address s = Inr (V4 n) \<Longrightarrow> 0 \<le> n \<and> n < 2 ^ 32 \<and> address_str (V4 n) = s"
  using ipv4_int_Some [of s n] by (auto simp: ip_address_def ipv4_address_def ipv6_address_not_V4 split: option.splits if_splits)

section \<open>Networks and their hosts\<close>

lemma ipv4_network_Some:
  assumes "ipv4_network s = Some (Net4 n p)"
  shows "p \<le> 32 \<and> 0 \<le> n \<and> n + 2 ^ (32 - p) \<le> 2 ^ 32 \<and> n mod 2 ^ (32 - p) = 0"
proof -
  have pre: "q \<le> 32" if "prefix4 m = Some q" for m q
    using that by (auto simp: prefix4_def prefix_from_prefix_string_def prefix_from_ip_string_def prefix_from_ip_int_def
        Let_def find_Some_iff split: option.splits if_splits)
  have net: "0 \<le> network_of 32 q k \<and> network_of 32 q k + 2 ^ (32 - q) \<le> 2 ^ 32 \<and> network_of 32 q k mod 2 ^ (32 - q) = 0"
    if "0 \<le> k" "k < 2 ^ 32" "q \<le> 32" for q k
  proof -
    let ?w = "2 ^ (32 - q) :: int"
    have e: "network_of 32 q k = ?w * (k div ?w)" by (simp add: network_of_def minus_mod_eq_mult_div)
    have w: "?w * 2 ^ q = 2 ^ 32" using that(3) by (simp add: power_add [symmetric])
    have "k div ?w < 2 ^ q"
    proof (rule ccontr)
      assume "\<not> k div ?w < 2 ^ q"
      then have "?w * 2 ^ q \<le> ?w * (k div ?w)" by (intro mult_left_mono) simp_all
      also have "\<dots> \<le> k" using that(1) by (simp add: minus_mod_eq_mult_div [symmetric])
      finally show False using that(2) w by simp
    qed
    then have "?w * (k div ?w + 1) \<le> ?w * 2 ^ q" by (intro mult_left_mono) simp_all
    moreover have "0 \<le> ?w * (k div ?w)" using that(1) by (intro mult_nonneg_nonneg) (simp_all add: pos_imp_zdiv_nonneg_iff)
    ultimately show ?thesis using w by (simp add: e algebra_simps)
  qed
  show ?thesis
  proof (cases "split_on CHR ''/'' s")
    case (Cons a l)
    then show ?thesis using assms pre net ipv4_int_Some
      by (cases l; cases "tl l") (fastforce simp: ipv4_network_def split: option.splits)+
  qed simp
qed

lemma hosts_Net4: "set (hosts (Net4 n p)) = V4 ` (if 31 \<le> p then {n..n + 2 ^ (32 - p) - 1} else {n<..<n + 2 ^ (32 - p) - 1})"
  by auto

lemma distinct_hosts: "distinct (hosts net)"
  by (cases net) (auto simp: distinct_map inj_on_def)

end
