(* ===== verification/Ipam.thy ===== *)
theory Ipam
  imports Ip_Text Models "HOL-Library.Product_Lexorder"
begin

text \<open>
  IP address management: \<open>app/dao/ipam_dao.py\<close>, \<open>app/services/ip_allocation.py\<close>, the
  reconciliation of \<open>app/services/reconciliation_jobs.py\<close> and the rows of \<open>app/models/ipam.py\<close>.
  Subnets are seeded with one address row per usable host; an assignment gives a service a slot on an
  address, and a subnet may allow several slots per address. Every operation commits by itself: one that
  raises returns the exception with the store it has committed by then. \<open>now\<close> is the clock
  reading of a request. The foreign key of an assignment to its service is enforced.
\<close>

section \<open>State\<close>

record ip_subnet =
  sn_id :: int
  sn_name :: string
  sn_cidr :: string
  sn_location_id :: "int option"
  sn_range_start :: "string option"
  sn_range_end :: "string option"
  sn_tags :: "json list"
  sn_allocation_strategy :: string
  sn_enabled :: bool
  sn_max_resale_count :: int

record ip_row =
  ip_id :: int
  ip_subnet_id :: int
  ip_text :: string
  ip_state :: string
  ip_updated_at :: instant

record ip_assignment =
  as_id :: int
  as_service_id :: int
  as_ip_id :: int
  as_username :: "string option"
  as_password :: "string option"
  as_assigned_by :: "string option"
  as_assigned_at :: instant

record ip_history =
  hi_service_id :: int
  hi_ip_address :: string
  hi_subnet_cidr :: "string option"
  hi_action :: string
  hi_username :: "string option"
  hi_assigned_by :: "string option"
  hi_details :: dict
  hi_created_at :: instant

text \<open>The columns of a service that address management reads.\<close>

record service_row =
  so_id :: int
  so_owner_user_id :: "int option"
  so_status :: ServiceStatus

record ipam =
  subnets :: "ip_subnet list"
  addresses :: "ip_row list"
  assignments :: "ip_assignment list"
  history :: "ip_history list"
  service_rows :: "service_row list"

type_synonym 'a ipam_tx = "(exn \<times> ipam) + ('a \<times> ipam)"

section \<open>Subnets\<close>

definition MAX_SEED_HOSTS :: nat where "MAX_SEED_HOSTS = 4096"

definition optional_address :: "string option \<Rightarrow> address option res" where
  "optional_address t =
     (case t of None \<Rightarrow> Inr None | Some s \<Rightarrow> if s = [] then Inr None else ebind (ip_address s) (\<lambda>a. Inr (Some a)))"

definition above :: "address option \<Rightarrow> address \<Rightarrow> bool res" where
  "above start h = (case start of None \<Rightarrow> Inr True | Some a \<Rightarrow> address_ge h a)"

definition below :: "address option \<Rightarrow> address \<Rightarrow> bool res" where
  "below stop h = (case stop of None \<Rightarrow> Inr True | Some a \<Rightarrow> address_le h a)"

fun select_hosts :: "address option \<Rightarrow> address option \<Rightarrow> address list \<Rightarrow> address list res" where
  "select_hosts start stop [] = Inr []"
| "select_hosts start stop (h # hs) =
     ebind (above start h) (\<lambda>lo.
     ebind (if lo then below stop h else Inr False) (\<lambda>keep.
     ebind (select_hosts start stop hs) (\<lambda>rest. Inr (if keep then h # rest else rest))))"

definition hosts_in_range :: "string \<Rightarrow> string option \<Rightarrow> string option \<Rightarrow> address list res" where
  "hosts_in_range cidr range_start range_end =
     ebind (ip_network cidr) (\<lambda>net.
     ebind (optional_address range_start) (\<lambda>start.
     ebind (optional_address range_end) (\<lambda>stop.
     select_hosts start stop (hosts net))))"

text \<open>
  Seeding looks every host up before anything is flushed, so it leaves out the texts that are stored
  already and inserts the others at once.
\<close>

fun new_rows :: "instant \<Rightarrow> int \<Rightarrow> int \<Rightarrow> string list \<Rightarrow> ip_row list" where
  "new_rows now sid n [] = []"
| "new_rows now sid n (t # ts) =
     \<lparr>ip_id = n, ip_subnet_id = sid, ip_text = t, ip_state = ''free'', ip_updated_at = now\<rparr> # new_rows now sid (n + 1) ts"

definition seed_texts :: "ipam \<Rightarrow> address list \<Rightarrow> string list" where
  "seed_texts s hs = filter (\<lambda>t. t \<notin> ip_text ` set (addresses s)) (map address_str hs)"

definition seed_ips :: "instant \<Rightarrow> ipam \<Rightarrow> ip_subnet \<Rightarrow> address list \<Rightarrow> ipam res" where
  "seed_ips now s sn hs =
     (let ts = seed_texts s hs in
      if distinct ts
      then Inr (s\<lparr>addresses := addresses s @ new_rows now (sn_id sn) (fresh_id ip_id (addresses s)) ts\<rparr>)
      else Inl IntegrityError)"

definition new_subnet ::
  "ipam \<Rightarrow> string \<Rightarrow> string \<Rightarrow> int option \<Rightarrow> string option \<Rightarrow> string option \<Rightarrow> json list option \<Rightarrow> string \<Rightarrow> int \<Rightarrow> ip_subnet" where
  "new_subnet s name cidr location_id range_start range_end tags allocation_strategy max_resale_count =
     \<lparr>sn_id = fresh_id sn_id (subnets s), sn_name = name, sn_cidr = cidr, sn_location_id = location_id,
      sn_range_start = range_start, sn_range_end = range_end,
      sn_tags = (case tags of None \<Rightarrow> [] | Some ts \<Rightarrow> ts), sn_allocation_strategy = allocation_strategy,
      sn_enabled = True, sn_max_resale_count = max_resale_count\<rparr>"

definition create_subnet ::
  "instant \<Rightarrow> ipam \<Rightarrow> string \<Rightarrow> string \<Rightarrow> int option \<Rightarrow> string option \<Rightarrow> string option \<Rightarrow> json list option \<Rightarrow> string \<Rightarrow> int \<Rightarrow> ip_subnet ipam_tx" where
  "create_subnet now s name cidr location_id range_start range_end tags allocation_strategy max_resale_count =
     (case hosts_in_range cidr range_start range_end of
        Inl e \<Rightarrow> Inl (e, s)
      | Inr hs \<Rightarrow>
          if MAX_SEED_HOSTS < length hs then Inl (ValueError ''Subnet would seed too many IPs'', s)
          else if max_resale_count < 1 then Inl (ValueError ''max_resale_count must be at least 1'', s)
          else if cidr \<in> sn_cidr ` set (subnets s) then Inl (IntegrityError, s)
          else
            let sn = new_subnet s name cidr location_id range_start range_end tags allocation_strategy max_resale_count;
                s1 = s\<lparr>subnets := subnets s @ [sn]\<rparr> in
            case seed_ips now s1 sn hs of Inl e \<Rightarrow> Inl (e, s1) | Inr s2 \<Rightarrow> Inr (sn, s2))"

definition list_subnets :: "ipam \<Rightarrow> ip_subnet list" where
  "list_subnets s = sort_key sn_id (subnets s)"

definition get_subnet :: "ipam \<Rightarrow> int \<Rightarrow> ip_subnet option" where
  "get_subnet s i = get_row sn_id i (subnets s)"

record subnet_change =
  ch_name :: "string option"
  ch_enabled :: "bool option"
  ch_allocation_strategy :: "string option"
  ch_location_id :: "int option"
  ch_clear_location :: bool
  ch_max_resale_count :: "int option"

definition change_subnet :: "subnet_change \<Rightarrow> ip_subnet \<Rightarrow> ip_subnet" where
  "change_subnet c sn = sn\<lparr>
     sn_name := (case ch_name c of None \<Rightarrow> sn_name sn | Some v \<Rightarrow> v),
     sn_enabled := (case ch_enabled c of None \<Rightarrow> sn_enabled sn | Some v \<Rightarrow> v),
     sn_allocation_strategy := (case ch_allocation_strategy c of None \<Rightarrow> sn_allocation_strategy sn | Some v \<Rightarrow> v),
     sn_max_resale_count := (case ch_max_resale_count c of None \<Rightarrow> sn_max_resale_count sn | Some v \<Rightarrow> v),
     sn_location_id := (if ch_clear_location c then None
                        else case ch_location_id c of None \<Rightarrow> sn_location_id sn | Some v \<Rightarrow> Some v)\<rparr>"

definition update_subnet :: "ipam \<Rightarrow> int \<Rightarrow> subnet_change \<Rightarrow> ip_subnet option ipam_tx" where
  "update_subnet s i c =
     (case get_subnet s i of
        None \<Rightarrow> Inr (None, s)
      | Some sn \<Rightarrow>
          if (case ch_max_resale_count c of None \<Rightarrow> False | Some n \<Rightarrow> n < 1)
          then Inl (ValueError ''max_resale_count must be at least 1'', s)
          else Inr (Some (change_subnet c sn), s\<lparr>subnets := put_row sn_id (change_subnet c sn) (subnets s)\<rparr>))"

definition assignments_of :: "ipam \<Rightarrow> int \<Rightarrow> ip_assignment list" where
  "assignments_of s i = filter (\<lambda>a. as_ip_id a = i) (assignments s)"

definition addresses_of :: "ipam \<Rightarrow> int \<Rightarrow> ip_row list" where
  "addresses_of s i = filter (\<lambda>r. ip_subnet_id r = i) (addresses s)"

text \<open>
  The session deletes the addresses with their subnet and clears the address of their assignments,
  which the column does not allow.
\<close>

definition delete_subnet :: "ipam \<Rightarrow> int \<Rightarrow> unit ipam_tx" where
  "delete_subnet s i =
     (case get_subnet s i of
        None \<Rightarrow> Inl (ValueError ''Subnet not found'', s)
      | Some sn \<Rightarrow>
          if filter (\<lambda>r. ip_state r = ''assigned'') (addresses_of s i) \<noteq> []
          then Inl (ValueError ''Subnet has assigned IP(s); release them first'', s)
          else if list_ex (\<lambda>r. assignments_of s (ip_id r) \<noteq> []) (addresses_of s i) then Inl (IntegrityError, s)
          else Inr ((), s\<lparr>subnets := filter (\<lambda>x. sn_id x \<noteq> i) (subnets s),
                           addresses := filter (\<lambda>r. ip_subnet_id r \<noteq> i) (addresses s)\<rparr>))"

section \<open>Choosing an address\<close>

definition order_first_free :: "ip_row list \<Rightarrow> ip_row list" where
  "order_first_free = sort_key ip_id"

definition order_least_recently_used :: "ip_row list \<Rightarrow> ip_row list" where
  "order_least_recently_used = sort_key (\<lambda>r. (ip_updated_at r, ip_id r))"

definition order_spread_subnets :: "ip_row list \<Rightarrow> ip_row list" where
  "order_spread_subnets = sort_key (\<lambda>r. (ip_id r mod 2, ip_id r))"

definition resolve_strategy :: "string \<Rightarrow> ip_row list \<Rightarrow> ip_row list" where
  "resolve_strategy name =
     (if name = ''least_recently_used'' then order_least_recently_used
      else if name = ''spread_subnets'' then order_spread_subnets
      else order_first_free)"

definition get_service_row :: "ipam \<Rightarrow> int \<Rightarrow> service_row option" where
  "get_service_row s i = get_row so_id i (service_rows s)"

definition resolve_owner_user_id :: "ipam \<Rightarrow> int \<Rightarrow> int option" where
  "resolve_owner_user_id s service_id =
     (case get_service_row s service_id of None \<Rightarrow> None | Some v \<Rightarrow> so_owner_user_id v)"

definition resale_cap :: "ip_subnet \<Rightarrow> int" where
  "resale_cap sn = (if sn_max_resale_count sn = 0 then 1 else sn_max_resale_count sn)"

definition resellable :: "ipam \<Rightarrow> ip_subnet \<Rightarrow> int option \<Rightarrow> ip_row \<Rightarrow> bool" where
  "resellable s sn owner r \<longleftrightarrow>
     int (length (assignments_of s (ip_id r))) < resale_cap sn \<and>
     \<not> (owner \<noteq> None \<and>
        list_ex (\<lambda>a. case get_service_row s (as_service_id a) of None \<Rightarrow> False | Some v \<Rightarrow> so_owner_user_id v = owner)
          (assignments_of s (ip_id r)))"

definition candidate_ips :: "ipam \<Rightarrow> ip_subnet \<Rightarrow> int option \<Rightarrow> ip_row list" where
  "candidate_ips s sn owner =
     (let free = filter (\<lambda>r. ip_state r = ''free'') (addresses_of s (sn_id sn)) in
      if free \<noteq> [] then free
      else if resale_cap sn \<le> 1 then []
      else filter (resellable s sn owner) (filter (\<lambda>r. ip_state r = ''assigned'') (addresses_of s (sn_id sn))))"

definition order_subnets_for_assignment :: "ipam \<Rightarrow> ip_subnet list \<Rightarrow> int option \<Rightarrow> string option \<Rightarrow> ip_subnet list" where
  "order_subnets_for_assignment s sns subnet_id strategy =
     (if (subnet_id \<noteq> None \<and> subnet_id \<noteq> Some 0) \<or>
         lower (case strategy of None \<Rightarrow> [] | Some x \<Rightarrow> x) \<noteq> ''spread_subnets''
      then sns
      else sort_key (\<lambda>sn. length (filter (\<lambda>r. ip_state r = ''assigned'') (addresses_of s (sn_id sn)))) sns)"

section \<open>Assignments\<close>

text \<open>A row is written, and its change time set, only when its state changes.\<close>

definition set_state :: "instant \<Rightarrow> int \<Rightarrow> string \<Rightarrow> ipam \<Rightarrow> ipam" where
  "set_state now i st s = s\<lparr>addresses := map (\<lambda>r. if ip_id r = i \<and> ip_state r \<noteq> st
     then r\<lparr>ip_state := st, ip_updated_at := now\<rparr> else r) (addresses s)\<rparr>"

record assign_request =
  rq_service_id :: int
  rq_strategy :: "string option"
  rq_username :: "string option"
  rq_password :: "string option"
  rq_assigned_by :: "string option"

definition effective_strategy :: "assign_request \<Rightarrow> ip_subnet \<Rightarrow> string" where
  "effective_strategy q sn =
     (case rq_strategy q of None \<Rightarrow> sn_allocation_strategy sn | Some x \<Rightarrow> if x = [] then sn_allocation_strategy sn else x)"

definition select_ip :: "ipam \<Rightarrow> ip_subnet \<Rightarrow> int option \<Rightarrow> assign_request \<Rightarrow> ip_row option" where
  "select_ip s sn owner q =
     (case resolve_strategy (effective_strategy q sn) (candidate_ips s sn owner) of
        [] \<Rightarrow> None | r # _ \<Rightarrow> Some r)"

definition assignment_row :: "instant \<Rightarrow> int \<Rightarrow> assign_request \<Rightarrow> ip_row \<Rightarrow> ip_assignment" where
  "assignment_row now i q r = \<lparr>as_id = i, as_service_id = rq_service_id q,
     as_ip_id = ip_id r, as_username = rq_username q, as_password = rq_password q,
     as_assigned_by = rq_assigned_by q, as_assigned_at = now\<rparr>"

text \<open>
  The commit in two parts: the flush inserts the row under the id \<open>i\<close> the database gives it, or fails on a service
  that does not exist; the commit makes the row, the mark of the address and the history visible. The row \<open>r\<close> is updated only when it
  was not read as assigned.
\<close>

definition insert_assignment :: "instant \<Rightarrow> ipam \<Rightarrow> int \<Rightarrow> assign_request \<Rightarrow> ip_row \<Rightarrow> ip_assignment res" where
  "insert_assignment now s i q r =
     (if get_service_row s (rq_service_id q) = None
      then Inl (ValueError ''Selected IP was concurrently assigned to another service; retry allocation'')
      else Inr (assignment_row now i q r))"

definition publish_assignment :: "instant \<Rightarrow> ipam \<Rightarrow> ip_subnet \<Rightarrow> assign_request \<Rightarrow> ip_row \<Rightarrow> ip_assignment \<Rightarrow> ipam" where
  "publish_assignment now s sn q r a =
     (let s1 = (if ip_state r = ''assigned'' then s else set_state now (ip_id r) ''assigned'' s) in
      s1\<lparr>assignments := assignments s @ [a],
         history := history s @ [\<lparr>hi_service_id = rq_service_id q, hi_ip_address = ip_text r,
           hi_subnet_cidr = Some (sn_cidr sn), hi_action = ''assigned'', hi_username = rq_username q,
           hi_assigned_by = rq_assigned_by q, hi_details = [(''strategy'', JStr (effective_strategy q sn))],
           hi_created_at = now\<rparr>]\<rparr>)"

text \<open>Both parts with no other request between them.\<close>

definition commit_assignment :: "instant \<Rightarrow> ipam \<Rightarrow> ip_subnet \<Rightarrow> assign_request \<Rightarrow> ip_row \<Rightarrow> (ip_assignment \<times> ipam) res" where
  "commit_assignment now s sn q r =
     ebind (insert_assignment now s (fresh_id as_id (assignments s)) q r) (\<lambda>a. Inr (a, publish_assignment now s sn q r a))"

text \<open>
  The race guard: the assignments of the address are counted again after the commit, and one that
  is not among the first \<open>max_resale\<close> by id backs out.
\<close>

definition survives :: "ipam \<Rightarrow> int \<Rightarrow> int \<Rightarrow> ip_assignment \<Rightarrow> bool" where
  "survives s i max_resale a \<longleftrightarrow>
     int (length (assignments_of s i)) \<le> max_resale \<or>
     as_id a \<in> as_id ` set (take (nat max_resale) (sort_key as_id (assignments_of s i)))"

definition enforce_resale_cap :: "instant \<Rightarrow> ipam \<Rightarrow> int \<Rightarrow> int \<Rightarrow> ip_assignment \<Rightarrow> unit ipam_tx" where
  "enforce_resale_cap now s i max_resale a =
     (if survives s i max_resale a then Inr ((), s)
      else
        let s1 = s\<lparr>assignments := filter (\<lambda>x. as_id x \<noteq> as_id a) (assignments s)\<rparr>;
            remaining = filter (\<lambda>x. as_id x \<noteq> as_id a) (assignments_of s i) in
        Inl (ValueError ''Selected IP was concurrently assigned at capacity; retry allocation'',
             if remaining = [] then set_state now i ''free'' s1 else s1))"

definition try_assign_in_subnet :: "instant \<Rightarrow> ipam \<Rightarrow> ip_subnet \<Rightarrow> int option \<Rightarrow> assign_request \<Rightarrow> ip_assignment option ipam_tx" where
  "try_assign_in_subnet now s sn owner q =
     (case select_ip s sn owner q of
        None \<Rightarrow> Inr (None, s)
      | Some r \<Rightarrow>
          (case commit_assignment now s sn q r of
             Inl e \<Rightarrow> Inl (e, s)
           | Inr (a, s1) \<Rightarrow>
               ebind (enforce_resale_cap now s1 (ip_id r) (resale_cap sn) a) (\<lambda>(_, s2). Inr (Some a, s2))))"

fun assign_in :: "instant \<Rightarrow> ipam \<Rightarrow> ip_subnet list \<Rightarrow> int option \<Rightarrow> assign_request \<Rightarrow> ip_assignment ipam_tx" where
  "assign_in now s [] owner q = Inl (ValueError ''No free IP available in selected subnets'', s)"
| "assign_in now s (sn # sns) owner q =
     ebind (try_assign_in_subnet now s sn owner q) (\<lambda>(found, s1).
     case found of Some a \<Rightarrow> Inr (a, s1) | None \<Rightarrow> assign_in now s1 sns owner q)"

definition selected_subnets :: "ipam \<Rightarrow> int option \<Rightarrow> int list \<Rightarrow> ip_subnet list" where
  "selected_subnets s subnet_id subnet_ids =
     filter sn_enabled
       (case subnet_id of
          Some i \<Rightarrow> (case get_subnet s i of None \<Rightarrow> [] | Some sn \<Rightarrow> [sn])
        | None \<Rightarrow> if subnet_ids \<noteq> [] then filter (\<lambda>sn. sn_id sn \<in> set subnet_ids) (list_subnets s) else list_subnets s)"

definition assign_ip :: "instant \<Rightarrow> ipam \<Rightarrow> int option \<Rightarrow> int list \<Rightarrow> assign_request \<Rightarrow> ip_assignment ipam_tx" where
  "assign_ip now s subnet_id subnet_ids q =
     (let sns = selected_subnets s subnet_id subnet_ids in
      if sns = [] then Inl (ValueError ''No enabled subnets available'', s)
      else assign_in now s (order_subnets_for_assignment s sns subnet_id (rq_strategy q))
             (resolve_owner_user_id s (rq_service_id q)) q)"

definition get_assignment :: "ipam \<Rightarrow> int \<Rightarrow> ip_assignment option" where
  "get_assignment s i = get_row as_id i (assignments s)"

definition get_address :: "ipam \<Rightarrow> int \<Rightarrow> ip_row option" where
  "get_address s i = get_row ip_id i (addresses s)"

definition history_entry :: "instant \<Rightarrow> ipam \<Rightarrow> ip_assignment \<Rightarrow> string \<Rightarrow> string option \<Rightarrow> string option \<Rightarrow> ip_history" where
  "history_entry now s a action username actor =
     (let r = get_address s (as_ip_id a); sn = (case r of None \<Rightarrow> None | Some x \<Rightarrow> get_subnet s (ip_subnet_id x)) in
      \<lparr>hi_service_id = as_service_id a, hi_ip_address = (case r of None \<Rightarrow> [] | Some x \<Rightarrow> ip_text x),
       hi_subnet_cidr = map_option sn_cidr sn, hi_action = action, hi_username = username,
       hi_assigned_by = actor, hi_details = [], hi_created_at = now\<rparr>)"

definition release_ip :: "instant \<Rightarrow> ipam \<Rightarrow> int \<Rightarrow> string option \<Rightarrow> bool \<times> ipam" where
  "release_ip now s i released_by =
     (case get_assignment s i of
        None \<Rightarrow> (False, s)
      | Some a \<Rightarrow>
          let others = filter (\<lambda>x. as_id x \<noteq> as_id a) (assignments_of s (as_ip_id a));
              s1 = (if others = [] then set_state now (as_ip_id a) ''free'' s else s) in
          (True, s1\<lparr>assignments := filter (\<lambda>x. as_id x \<noteq> as_id a) (assignments s),
                     history := history s @ [history_entry now s a ''released'' (as_username a) released_by]\<rparr>))"

fun release_each :: "instant \<Rightarrow> ipam \<Rightarrow> int list \<Rightarrow> string option \<Rightarrow> nat \<times> ipam" where
  "release_each now s [] released_by = (0, s)"
| "release_each now s (i # is) released_by =
     (let (ok, s1) = release_ip now s i released_by; (n, s2) = release_each now s1 is released_by in
      (if ok then n + 1 else n, s2))"

definition get_assignment_by_service :: "ipam \<Rightarrow> int \<Rightarrow> ip_assignment list" where
  "get_assignment_by_service s service_id = filter (\<lambda>a. as_service_id a = service_id) (assignments s)"

definition release_all_for_service :: "instant \<Rightarrow> ipam \<Rightarrow> int \<Rightarrow> string option \<Rightarrow> nat \<times> ipam" where
  "release_all_for_service now s service_id released_by =
     release_each now s (map as_id (get_assignment_by_service s service_id)) released_by"

definition rotate_credentials ::
  "instant \<Rightarrow> ipam \<Rightarrow> int \<Rightarrow> string option \<Rightarrow> string option \<Rightarrow> string option \<Rightarrow> ip_assignment option \<times> ipam" where
  "rotate_credentials now s i username password rotated_by =
     (case get_assignment s i of
        None \<Rightarrow> (None, s)
      | Some a \<Rightarrow>
          let a1 = a\<lparr>as_username := username, as_password := password\<rparr> in
          (Some a1, s\<lparr>assignments := put_row as_id a1 (assignments s),
                       history := history s @ [history_entry now s a ''rotated'' username rotated_by]\<rparr>))"

definition used_slots :: "ipam \<Rightarrow> int \<Rightarrow> nat" where
  "used_slots s subnet_id =
     length (filter (\<lambda>a. \<exists>r \<in> set (addresses s). ip_id r = as_ip_id a \<and> ip_subnet_id r = subnet_id) (assignments s))"

section \<open>Reconciliation\<close>

text \<open>
  An assigned address is marked so, and the slots of terminated services are released; the last slot of
  an address frees it, whatever its state was. Then addresses marked assigned without a slot are freed.
\<close>

definition reconcile_assignment :: "instant \<Rightarrow> ipam \<Rightarrow> ip_assignment \<Rightarrow> nat \<times> ipam" where
  "reconcile_assignment now s a =
     (let terminated = (case get_service_row s (as_service_id a) of None \<Rightarrow> False | Some v \<Rightarrow> so_status v = SVC_TERMINATED);
          last_slot = (filter (\<lambda>x. as_id x \<noteq> as_id a) (assignments_of s (as_ip_id a)) = []);
          s1 = (if terminated \<and> last_slot then s else set_state now (as_ip_id a) ''assigned'' s) in
      if terminated
      then let (ok, s2) = release_ip now s1 (as_id a) (Some ''reconciliation'') in (if ok then 1 else 0, s2)
      else (0, s1))"

fun reconcile_active_assignments :: "instant \<Rightarrow> ipam \<Rightarrow> ip_assignment list \<Rightarrow> nat \<times> ipam" where
  "reconcile_active_assignments now s [] = (0, s)"
| "reconcile_active_assignments now s (a # as) =
     (let (n, s1) = reconcile_assignment now s a; (m, s2) = reconcile_active_assignments now s1 as in (n + m, s2))"

definition reclaim_orphan_assigned_ips :: "instant \<Rightarrow> ipam \<Rightarrow> nat \<times> ipam" where
  "reclaim_orphan_assigned_ips now s =
     (let orphan = (\<lambda>r. ip_state r = ''assigned'' \<and> ip_id r \<notin> as_ip_id ` set (assignments s)) in
      (length (filter orphan (addresses s)),
       s\<lparr>addresses := map (\<lambda>r. if orphan r then r\<lparr>ip_state := ''free'', ip_updated_at := now\<rparr> else r) (addresses s)\<rparr>))"

definition run_reconciliation_cycle :: "instant \<Rightarrow> ipam \<Rightarrow> ipam" where
  "run_reconciliation_cycle now s =
     snd (reclaim_orphan_assigned_ips now (snd (reconcile_active_assignments now s (assignments s))))"

end
