(* ===== verification/Ipam_Books.thy ===== *)
theory Ipam_Books
  imports Ipam
begin

text \<open>
  Correctness of address management. One invariant says that an address is marked assigned exactly
  when it has a slot, that texts are unique, that no slot dangles and that an address is never sold
  twice to one owner; every operation keeps it. Seeding is exact, an assignment takes a slot only within
  the cap, and the race guard keeps the cap when requests interleave between their reads and commits.
\<close>

section \<open>The invariant\<close>

definition slot_ids :: "ipam \<Rightarrow> int set" where
  "slot_ids s = as_ip_id ` set (assignments s)"

definition states_ok :: "ipam \<Rightarrow> bool" where
  "states_ok s \<longleftrightarrow> list_all (\<lambda>r. ip_state r = (if ip_id r \<in> slot_ids s then ''assigned'' else ''free'')) (addresses s)"

definition owners_ok :: "ipam \<Rightarrow> bool" where
  "owners_ok s \<longleftrightarrow> (\<forall>a \<in> set (assignments s). \<forall>b \<in> set (assignments s). as_ip_id a = as_ip_id b \<and> as_id a \<noteq> as_id b \<longrightarrow>
     resolve_owner_user_id s (as_service_id a) = None \<or>
     resolve_owner_user_id s (as_service_id a) \<noteq> resolve_owner_user_id s (as_service_id b))"

definition ipam_keys :: "ipam \<Rightarrow> bool" where
  "ipam_keys s \<longleftrightarrow> distinct (map sn_id (subnets s)) \<and> distinct (map ip_id (addresses s)) \<and>
     distinct (map as_id (assignments s)) \<and> distinct (map ip_text (addresses s)) \<and>
     list_all (\<lambda>sn. 1 \<le> sn_max_resale_count sn) (subnets s) \<and> slot_ids s \<subseteq> ip_id ` set (addresses s)"

definition ipam_ok :: "ipam \<Rightarrow> bool" where
  "ipam_ok s \<longleftrightarrow> ipam_keys s \<and> states_ok s \<and> owners_ok s"

lemma set_state_fields [simp]:
  "subnets (set_state now i st s) = subnets s" "assignments (set_state now i st s) = assignments s"
  "history (set_state now i st s) = history s" "service_rows (set_state now i st s) = service_rows s"
  "map ip_id (addresses (set_state now i st s)) = map ip_id (addresses s)"
  "map ip_text (addresses (set_state now i st s)) = map ip_text (addresses s)"
  by (auto simp: set_state_def)

lemma set_state_ids [simp]: "ip_id ` set (addresses (set_state now i st s)) = ip_id ` set (addresses s)"
  using set_state_fields(5) [of now i st s] by (metis list.set_map)

lemma set_state_row:
  "r \<in> set (addresses (set_state now i st s)) \<Longrightarrow>
     \<exists>x \<in> set (addresses s). ip_id r = ip_id x \<and> ip_state r = (if ip_id x = i then st else ip_state x)"
  by (auto simp: set_state_def)

lemma slot_ids_set_state [simp]: "slot_ids (set_state now i st s) = slot_ids s"
  by (simp add: slot_ids_def)

lemma owner_cong: "service_rows t = service_rows s \<Longrightarrow> resolve_owner_user_id t v = resolve_owner_user_id s v"
  by (simp add: resolve_owner_user_id_def get_service_row_def)

text \<open>What decides the invariant: the rows up to their history.\<close>

lemma owners_ok_subset:
  "owners_ok s \<Longrightarrow> service_rows t = service_rows s \<Longrightarrow> set (assignments t) \<subseteq> set (assignments s) \<Longrightarrow> owners_ok t"
  using owner_cong [of t s] unfolding owners_ok_def by (metis subsetD)

lemma assignments_of_Nil: "assignments_of s i = [] \<longleftrightarrow> i \<notin> slot_ids s"
  by (auto simp: assignments_of_def slot_ids_def filter_empty_conv)

lemma others_Nil:
  "distinct (map as_id (assignments s)) \<Longrightarrow> a \<in> set (assignments s) \<Longrightarrow>
   filter (\<lambda>x. as_id x \<noteq> as_id a) (assignments_of s i) = [] \<longleftrightarrow>
   i \<notin> as_ip_id ` set (filter (\<lambda>x. as_id x \<noteq> as_id a) (assignments s))"
  by (auto simp: assignments_of_def filter_empty_conv)

section \<open>Every operation keeps it\<close>

text \<open>Taking one slot away.\<close>

definition without_slot :: "instant \<Rightarrow> ipam \<Rightarrow> ip_assignment \<Rightarrow> ip_history list \<Rightarrow> ipam" where
  "without_slot now s a h =
     (if filter (\<lambda>x. as_id x \<noteq> as_id a) (assignments_of s (as_ip_id a)) = [] then set_state now (as_ip_id a) ''free'' s else s)
     \<lparr>assignments := filter (\<lambda>x. as_id x \<noteq> as_id a) (assignments s), history := h\<rparr>"

lemma states_okI:
  "(\<And>r. r \<in> set (addresses s) \<Longrightarrow> ip_state r = (if ip_id r \<in> slot_ids s then ''assigned'' else ''free'')) \<Longrightarrow> states_ok s"
  by (simp add: states_ok_def list_all_iff)

lemma states_okD:
  "states_ok s \<Longrightarrow> r \<in> set (addresses s) \<Longrightarrow> ip_state r = (if ip_id r \<in> slot_ids s then ''assigned'' else ''free'')"
  by (simp add: states_ok_def list_all_iff)

lemma without_slot_states:
  assumes ok: "states_ok s" "distinct (map as_id (assignments s))" and a: "a \<in> set (assignments s)"
  shows "states_ok (without_slot now s a h)"
proof (rule states_okI)
  let ?rest = "as_ip_id ` set (filter (\<lambda>x. as_id x \<noteq> as_id a) (assignments s))"
  fix r assume "r \<in> set (addresses (without_slot now s a h))"
  then have "\<exists>x \<in> set (addresses s). ip_id r = ip_id x \<and>
      ip_state r = (if as_ip_id a \<notin> ?rest \<and> ip_id x = as_ip_id a then ''free'' else ip_state x)"
    using set_state_row [of r now "as_ip_id a" "''free''" s] others_Nil [OF ok(2) a, of "as_ip_id a"]
    by (auto simp: without_slot_def split: if_splits)
  then obtain x where x: "x \<in> set (addresses s)" "ip_id r = ip_id x"
    "ip_state r = (if as_ip_id a \<notin> ?rest \<and> ip_id x = as_ip_id a then ''free'' else ip_state x)" by blast
  have "slot_ids s = insert (as_ip_id a) ?rest"
  proof -
    have "x = a" if "x \<in> set (assignments s)" "as_id x = as_id a" for x
      using that a ok(2) by (metis distinct_map inj_onD)
    then show ?thesis using a by (auto simp: slot_ids_def)
  qed
  moreover have "slot_ids (without_slot now s a h) = ?rest" by (simp add: without_slot_def slot_ids_def)
  ultimately show "ip_state r = (if ip_id r \<in> slot_ids (without_slot now s a h) then ''assigned'' else ''free'')"
    using x states_okD [OF ok(1) x(1)] by auto
qed

lemma without_slot_fields:
  "subnets (without_slot now s a h) = subnets s" "service_rows (without_slot now s a h) = service_rows s"
  "map ip_id (addresses (without_slot now s a h)) = map ip_id (addresses s)"
  "map ip_text (addresses (without_slot now s a h)) = map ip_text (addresses s)"
  "ip_id ` set (addresses (without_slot now s a h)) = ip_id ` set (addresses s)"
  "assignments (without_slot now s a h) = filter (\<lambda>x. as_id x \<noteq> as_id a) (assignments s)"
  by (simp_all add: without_slot_def)

lemma without_slot_keys: "ipam_keys s \<Longrightarrow> ipam_keys (without_slot now s a h)"
  by (auto simp: ipam_keys_def without_slot_fields distinct_map_filter slot_ids_def)

lemma without_slot_ok: "ipam_ok s \<Longrightarrow> a \<in> set (assignments s) \<Longrightarrow> ipam_ok (without_slot now s a h)"
  using without_slot_states [of s a now h] without_slot_keys [of s now a h] owners_ok_subset [of s "without_slot now s a h"]
  by (auto simp: ipam_ok_def ipam_keys_def without_slot_fields)

lemma get_assignmentD: "get_assignment s i = Some a \<Longrightarrow> a \<in> set (assignments s) \<and> as_id a = i"
  by (auto simp: get_assignment_def dest: get_row_SomeD)

lemma release_ip_without:
  "release_ip now s i by = (case get_assignment s i of None \<Rightarrow> (False, s)
     | Some a \<Rightarrow> (True, without_slot now s a (history s @ [history_entry now s a ''released'' (as_username a) by])))"
  by (auto simp: release_ip_def without_slot_def Let_def split: option.splits)

lemma release_ip_ok: "ipam_ok s \<Longrightarrow> ipam_ok (snd (release_ip now s i by))"
  by (auto simp: release_ip_without split: option.splits dest: get_assignmentD intro: without_slot_ok)

lemma release_each_ok: "ipam_ok s \<Longrightarrow> ipam_ok (snd (release_each now s is by))"
proof (induction "is" arbitrary: s)
  case (Cons i "is")
  obtain ok s1 where r: "release_ip now s i by = (ok, s1)" by fastforce
  with release_ip_ok [OF Cons.prems, of now i "by"] have "ipam_ok s1" by simp
  from Cons.IH [OF this] r show ?case by (auto simp: Let_def split: prod.splits)
qed simp

lemma rotate_credentials_ok: "ipam_ok s \<Longrightarrow> ipam_ok (snd (rotate_credentials now s i u p by))"
proof (cases "get_assignment s i")
  case (Some a)
  assume ok: "ipam_ok s"
  let ?a = "a\<lparr>as_username := u, as_password := p\<rparr>"
  let ?t = "snd (rotate_credentials now s i u p by)"
  have t: "assignments ?t = put_row as_id ?a (assignments s)" "addresses ?t = addresses s" "subnets ?t = subnets s" "service_rows ?t = service_rows s"
    using Some by (simp_all add: rotate_credentials_def Let_def)
  have old: "\<exists>y \<in> set (assignments s). as_id x = as_id y \<and> as_ip_id x = as_ip_id y \<and> as_service_id x = as_service_id y"
    if "x \<in> set (put_row as_id ?a (assignments s))" for x
    using put_row_memD [OF that] get_assignmentD [OF Some] by (elim disjE) (intro bexI [of _ a], auto)
  have "map as_ip_id (put_row as_id ?a (assignments s)) = map as_ip_id (assignments s)"
  proof -
    have "x = a" if "x \<in> set (assignments s)" "as_id x = as_id a" for x
      using that get_assignmentD [OF Some] ok by (metis distinct_map inj_onD ipam_keys_def ipam_ok_def)
    then show ?thesis by (auto simp: put_row_def)
  qed
  then have "slot_ids ?t = slot_ids s" unfolding slot_ids_def t by (metis list.set_map)
  moreover have "owners_ok ?t" unfolding owners_ok_def t(1)
    using ok old owner_cong [OF t(4)] unfolding ipam_ok_def owners_ok_def by metis
  moreover have "distinct (map as_id (assignments ?t))" using ok by (simp add: t ipam_ok_def ipam_keys_def)
  ultimately show ?thesis using ok by (simp add: ipam_ok_def ipam_keys_def states_ok_def t)
qed (simp add: rotate_credentials_def)

section \<open>Assignments keep it\<close>

lemma set_resolve_strategy [simp]: "set (resolve_strategy n rs) = set rs"
  by (simp add: resolve_strategy_def order_least_recently_used_def order_spread_subnets_def order_first_free_def)

lemma resolve_strategy_Nil [simp]: "resolve_strategy n rs = [] \<longleftrightarrow> rs = []"
  using set_resolve_strategy [of n rs] by (metis set_empty)

lemma select_ip_Some: "select_ip s sn owner q = Some r \<Longrightarrow> r \<in> set (candidate_ips s sn owner)"
  using set_resolve_strategy [of "effective_strategy q sn" "candidate_ips s sn owner"]
  by (auto simp: select_ip_def simp del: set_resolve_strategy split: list.splits)

lemma select_ip_None: "select_ip s sn owner q = None \<longleftrightarrow> candidate_ips s sn owner = []"
  using resolve_strategy_Nil [of "effective_strategy q sn" "candidate_ips s sn owner"]
  by (auto simp: select_ip_def simp del: resolve_strategy_Nil split: list.splits)

definition holds_slot :: "ipam \<Rightarrow> int \<Rightarrow> int \<Rightarrow> bool" where
  "holds_slot s owner i \<longleftrightarrow> list_ex (\<lambda>a. resolve_owner_user_id s (as_service_id a) = Some owner) (assignments_of s i)"

lemma resellable_slots:
  "resellable s sn owner r \<longleftrightarrow> int (length (assignments_of s (ip_id r))) < resale_cap sn \<and>
     (\<forall>u. owner = Some u \<longrightarrow> \<not> holds_slot s u (ip_id r))"
proof -
  have "(case get_service_row s v of None \<Rightarrow> False | Some x \<Rightarrow> so_owner_user_id x = Some u) = (resolve_owner_user_id s v = Some u)" for v u
    by (simp add: resolve_owner_user_id_def split: option.split)
  then show ?thesis by (cases owner) (simp_all add: resellable_def holds_slot_def)
qed

lemma resale_cap_pos: "1 \<le> sn_max_resale_count sn \<Longrightarrow> 1 \<le> resale_cap sn"
  by (simp add: resale_cap_def)

lemma candidate_slots:
  assumes ok: "ipam_ok s" and r: "r \<in> set (candidate_ips s sn owner)" and cap: "1 \<le> sn_max_resale_count sn"
  shows "r \<in> set (addresses s)" "ip_subnet_id r = sn_id sn" "int (length (assignments_of s (ip_id r))) < resale_cap sn"
    "\<forall>u. owner = Some u \<longrightarrow> \<not> holds_slot s u (ip_id r)"
proof -
  have free: "assignments_of s (ip_id x) = []" if "x \<in> set (addresses s)" "ip_state x = ''free''" for x
    using that ok states_okD [of s x] by (auto simp: ipam_ok_def assignments_of_Nil split: if_splits)
  show "r \<in> set (addresses s)" "ip_subnet_id r = sn_id sn"
    using r by (auto simp: candidate_ips_def addresses_of_def Let_def split: if_splits)
  have "assignments_of s (ip_id r) = [] \<or> resellable s sn owner r"
    using r free by (auto simp: candidate_ips_def addresses_of_def Let_def split: if_splits)
  then show "int (length (assignments_of s (ip_id r))) < resale_cap sn" "\<forall>u. owner = Some u \<longrightarrow> \<not> holds_slot s u (ip_id r)"
    using resale_cap_pos [OF cap] by (auto simp: resellable_slots holds_slot_def)
qed

text \<open>The store after the insert of a slot on \<open>r\<close>.\<close>

lemmas commit_defs = commit_assignment_def insert_assignment_def publish_assignment_def assignment_row_def ebind_Inr_iff ebind_Inl_iff Let_def

lemma commit_assignmentD:
  assumes "commit_assignment now s sn q r = Inr (a, t)"
  shows "a = assignment_row now (fresh_id as_id (assignments s)) q r" "get_service_row s (rq_service_id q) \<noteq> None" "assignments t = assignments s @ [a]"
    "subnets t = subnets s" "service_rows t = service_rows s" "map ip_id (addresses t) = map ip_id (addresses s)"
    "map ip_text (addresses t) = map ip_text (addresses s)" "slot_ids t = insert (ip_id r) (slot_ids s)"
    "assignments_of t (ip_id r) = assignments_of s (ip_id r) @ [a]"
    "addresses t = (if ip_state r = ''assigned'' then addresses s else addresses (set_state now (ip_id r) ''assigned'' s))"
  using assms by (auto simp: commit_defs slot_ids_def assignments_of_def split: if_splits)

lemma commit_states:
  assumes "states_ok s" "r \<in> set (addresses s)" "distinct (map ip_id (addresses s))" and c: "commit_assignment now s sn q r = Inr (a, t)"
  shows "states_ok t"
proof (rule states_okI)
  fix x assume x: "x \<in> set (addresses t)"
  have "\<exists>y \<in> set (addresses s). ip_id x = ip_id y \<and> ip_state x = (if ip_id y = ip_id r then ''assigned'' else ip_state y)"
  proof (cases "ip_state r = ''assigned''")
    case True
    have "ip_state x = ''assigned''" if "ip_id x = ip_id r" "x \<in> set (addresses s)"
      using that assms(2,3) True by (metis distinct_map inj_onD)
    then show ?thesis using x True commit_assignmentD(10) [OF c] by auto
  next
    case False
    then show ?thesis using x commit_assignmentD(10) [OF c] set_state_row [of x now "ip_id r" "''assigned''" s] by simp
  qed
  then obtain y where y: "y \<in> set (addresses s)" "ip_id x = ip_id y" "ip_state x = (if ip_id y = ip_id r then ''assigned'' else ip_state y)"
    by blast
  then show "ip_state x = (if ip_id x \<in> slot_ids t then ''assigned'' else ''free'')"
    using states_okD [OF assms(1) y(1)] commit_assignmentD(8) [OF c] by auto
qed

lemma commit_keys:
  assumes "ipam_keys s" "r \<in> set (addresses s)" and c: "commit_assignment now s sn q r = Inr (a, t)"
  shows "ipam_keys t"
proof -
  note d = commit_assignmentD [OF c]
  have "ip_id ` set (addresses t) = ip_id ` set (addresses s)" using d(6) by (metis list.set_map)
  moreover have "distinct (map as_id (assignments t))"
    using assms(1) fresh_id_notin [of as_id "assignments s"] by (simp add: d(1,3) ipam_keys_def assignment_row_def)
  ultimately show ?thesis using assms(1,2) d(4,6,7,8) by (auto simp: ipam_keys_def)
qed

lemma commit_owners:
  assumes ok: "owners_ok s" and free: "\<forall>u. resolve_owner_user_id s (rq_service_id q) = Some u \<longrightarrow> \<not> holds_slot s u (ip_id r)"
    and c: "commit_assignment now s sn q r = Inr (a, t)"
  shows "owners_ok t"
proof -
  note d = commit_assignmentD [OF c]
  have a: "as_ip_id a = ip_id r" "as_service_id a = rq_service_id q" by (simp_all add: d(1) assignment_row_def)
  have new: "resolve_owner_user_id s (as_service_id x) = None \<or> resolve_owner_user_id s (as_service_id x) \<noteq> resolve_owner_user_id s (as_service_id a)"
    if "x \<in> set (assignments s)" "as_ip_id x = as_ip_id a" for x
    using that free a by (cases "resolve_owner_user_id s (rq_service_id q)") (auto simp: holds_slot_def assignments_of_def list_ex_iff)
  show ?thesis
    unfolding owners_ok_def d(3) owner_cong [OF d(5)]
  proof (intro ballI impI)
    fix x y
    assume x: "x \<in> set (assignments s @ [a])" and y: "y \<in> set (assignments s @ [a])" and xy: "as_ip_id x = as_ip_id y \<and> as_id x \<noteq> as_id y"
    show "resolve_owner_user_id s (as_service_id x) = None \<or>
      resolve_owner_user_id s (as_service_id x) \<noteq> resolve_owner_user_id s (as_service_id y)"
    proof (cases "x = a")
      case True
      then have "y \<in> set (assignments s)" "as_ip_id y = as_ip_id a" using y xy by auto
      then show ?thesis using new [of y] True by (cases "resolve_owner_user_id s (as_service_id y)") (auto simp: not_None_eq [symmetric] simp del: not_None_eq)
    next
      case False
      then have xs: "x \<in> set (assignments s)" using x by simp
      show ?thesis
      proof (cases "y = a")
        case True
        then show ?thesis using new [OF xs] xy by simp
      next
        case False
        then show ?thesis using ok xs y xy unfolding owners_ok_def by simp
      qed
    qed
  qed
qed

lemma commit_ok:
  assumes "ipam_ok s" "r \<in> set (addresses s)" "\<forall>u. resolve_owner_user_id s (rq_service_id q) = Some u \<longrightarrow> \<not> holds_slot s u (ip_id r)"
    "commit_assignment now s sn q r = Inr (a, t)"
  shows "ipam_ok t"
  using assms commit_states [of s r now sn q a t] commit_keys [of s r now sn q a t] commit_owners [of s q r now sn a t]
  by (simp add: ipam_ok_def ipam_keys_def)

text \<open>In a run of its own a request always passes the race guard.\<close>

lemma try_assign_cases:
  assumes ok: "ipam_ok s" and cap: "1 \<le> sn_max_resale_count sn"
  obtains (none) "candidate_ips s sn owner = []" "try_assign_in_subnet now s sn owner q = Inr (None, s)"
  | (unknown) e where "get_service_row s (rq_service_id q) = None" "try_assign_in_subnet now s sn owner q = Inl (e, s)"
  | (some) r a t where "r \<in> set (candidate_ips s sn owner)" "commit_assignment now s sn q r = Inr (a, t)"
      "try_assign_in_subnet now s sn owner q = Inr (Some a, t)"
proof (cases "select_ip s sn owner q")
  case None
  then have "try_assign_in_subnet now s sn owner q = Inr (None, s)" by (simp add: try_assign_in_subnet_def)
  then show thesis using none None by (simp add: select_ip_None)
next
  case (Some r)
  show thesis
  proof (cases "commit_assignment now s sn q r")
    case (Inl e)
    then show thesis using Some unknown by (auto simp: try_assign_in_subnet_def commit_defs split: if_splits)
  next
    case (Inr x)
    obtain a t where x: "x = (a, t)" by (cases x)
    have r: "r \<in> set (candidate_ips s sn owner)" using Some by (rule select_ip_Some)
    have "survives t (ip_id r) (resale_cap sn) a"
      using candidate_slots(3) [OF ok r cap] commit_assignmentD(9) [OF Inr [unfolded x]] by (simp add: survives_def)
    then have "try_assign_in_subnet now s sn owner q = Inr (Some a, t)"
      using Some Inr x by (simp add: try_assign_in_subnet_def enforce_resale_cap_def)
    then show thesis using r Inr x some by blast
  qed
qed

lemma assign_in_cases:
  assumes ok: "ipam_ok s" and cap: "\<forall>sn \<in> set sns. 1 \<le> sn_max_resale_count sn"
  shows "(\<exists>e. assign_in now s sns owner q = Inl (e, s) \<and>
       (get_service_row s (rq_service_id q) = None \<or> (\<forall>sn \<in> set sns. candidate_ips s sn owner = []))) \<or>
     (\<exists>us sn vs r a t. sns = us @ sn # vs \<and> (\<forall>u \<in> set us. candidate_ips s u owner = []) \<and>
       r \<in> set (candidate_ips s sn owner) \<and> commit_assignment now s sn q r = Inr (a, t) \<and> assign_in now s sns owner q = Inr (a, t))"
  using cap
proof (induction sns)
  case (Cons sn sns)
  then have pos: "1 \<le> sn_max_resale_count sn" by simp
  from ok pos show ?case
  proof (cases rule: try_assign_cases [of s sn owner now q])
    case none
    from Cons.IH Cons.prems consider e where "assign_in now s sns owner q = Inl (e, s)"
        "get_service_row s (rq_service_id q) = None \<or> (\<forall>sn \<in> set sns. candidate_ips s sn owner = [])"
      | us sn' vs r a t where "sns = us @ sn' # vs" "\<forall>u \<in> set us. candidate_ips s u owner = []"
        "r \<in> set (candidate_ips s sn' owner)" "commit_assignment now s sn' q r = Inr (a, t)" "assign_in now s sns owner q = Inr (a, t)"
      by auto
    then show ?thesis
    proof cases
      case 1
      with none show ?thesis by auto
    next
      case 2
      then have "sn # sns = (sn # us) @ sn' # vs" "\<forall>u \<in> set (sn # us). candidate_ips s u owner = []" using none by simp_all
      moreover have "assign_in now s (sn # sns) owner q = Inr (a, t)" using 2 none by simp
      ultimately show ?thesis using 2(3,4) by blast
    qed
  next
    case unknown
    then show ?thesis by simp
  next
    case (some r a t)
    then have "sn # sns = [] @ sn # sns" "assign_in now s (sn # sns) owner q = Inr (a, t)" by simp_all
    with some show ?thesis by (metis empty_iff list.set(1))
  qed
qed simp

lemma selected_subnets_member: "sn \<in> set (selected_subnets s i is) \<Longrightarrow> sn \<in> set (subnets s)"
  by (auto simp: selected_subnets_def list_subnets_def get_subnet_def dest: get_row_SomeD [OF sym] split: option.splits if_splits)

lemma set_order_subnets [simp]: "set (order_subnets_for_assignment s sns i st) = set sns"
  by (simp add: order_subnets_for_assignment_def)

lemma assign_ip_cases:
  assumes ok: "ipam_ok s"
  shows "(\<exists>e. assign_ip now s i is q = Inl (e, s) \<and>
       (get_service_row s (rq_service_id q) = None \<or>
        (\<forall>sn \<in> set (selected_subnets s i is). candidate_ips s sn (resolve_owner_user_id s (rq_service_id q)) = []))) \<or>
     (\<exists>sn r a t. sn \<in> set (selected_subnets s i is) \<and> r \<in> set (candidate_ips s sn (resolve_owner_user_id s (rq_service_id q))) \<and>
       commit_assignment now s sn q r = Inr (a, t) \<and> assign_ip now s i is q = Inr (a, t))"
proof (cases "selected_subnets s i is = []")
  case True
  then show ?thesis by (simp add: assign_ip_def)
next
  case False
  let ?sns = "order_subnets_for_assignment s (selected_subnets s i is) i (rq_strategy q)"
  have "\<forall>sn \<in> set ?sns. 1 \<le> sn_max_resale_count sn"
    using ok selected_subnets_member by (auto simp: ipam_ok_def ipam_keys_def list_all_iff)
  from assign_in_cases [OF ok this, of now "resolve_owner_user_id s (rq_service_id q)" q] show ?thesis
  proof (elim disjE exE conjE, goal_cases)
    case (1 e)
    then show ?case using False by (intro disjI1 exI [of _ e]) (simp add: assign_ip_def)
  next
    case (2 e)
    then show ?case using False by (intro disjI1 exI [of _ e]) (simp add: assign_ip_def)
  next
    case (3 us sn vs r a t)
    then have "sn \<in> set ?sns" by simp
    then have "sn \<in> set (selected_subnets s i is)" by simp
    moreover have "assign_ip now s i is q = Inr (a, t)" using 3 False by (simp add: assign_ip_def)
    ultimately show ?case using 3 by blast
  qed
qed

definition ipam_committed :: "'a ipam_tx \<Rightarrow> ipam" where
  "ipam_committed m = (case m of Inl (e, s) \<Rightarrow> s | Inr (x, s) \<Rightarrow> s)"

lemma ipam_committed_simps [simp]: "ipam_committed (Inl (e, s)) = s" "ipam_committed (Inr (x, s)) = s"
  by (simp_all add: ipam_committed_def)

lemma assign_ip_ok: "ipam_ok s \<Longrightarrow> ipam_ok (ipam_committed (assign_ip now s i is q))"
proof -
  assume ok: "ipam_ok s"
  from assign_ip_cases [OF ok, of now i "is" q] show ?thesis
  proof (elim disjE exE conjE, goal_cases)
    case (3 sn r a t)
    then have "1 \<le> sn_max_resale_count sn"
      using ok selected_subnets_member [OF 3(1)] by (simp add: ipam_ok_def ipam_keys_def list_all_iff)
    from candidate_slots [OF ok 3(2) this] commit_ok [OF ok _ _ 3(3)] show ?case using 3(4) by simp
  qed (use ok in simp_all)
qed

section \<open>Subnets keep it\<close>

lemma new_rows_maps:
  "map ip_id (new_rows now i n ts) = [n..n + int (length ts) - 1]" "map ip_text (new_rows now i n ts) = ts"
  "list_all (\<lambda>r. ip_state r = ''free'' \<and> ip_subnet_id r = i) (new_rows now i n ts)"
  by (induction ts arbitrary: n) (simp_all add: upto_rec1)

lemma seed_ips_ok:
  assumes ok: "ipam_ok s" and seed: "seed_ips now s sn hs = Inr t"
  shows "ipam_ok t"
proof -
  let ?n = "fresh_id ip_id (addresses s)" and ?ts = "seed_texts s hs"
  let ?new = "new_rows now (sn_id sn) ?n ?ts"
  have d: "distinct ?ts" and t: "t = s\<lparr>addresses := addresses s @ ?new\<rparr>"
    using seed by (auto simp: seed_ips_def Let_def split: if_splits)
  have gt: "ip_id r < ip_id x" if "r \<in> set (addresses s)" "x \<in> set ?new" for r x
  proof -
    have "ip_id x \<in> set (map ip_id ?new)" using that(2) by simp
    then have "?n \<le> ip_id x" unfolding new_rows_maps(1) by simp
    then show ?thesis using fresh_id_gt [OF that(1), of ip_id] by simp
  qed
  have old: "slot_ids s \<subseteq> ip_id ` set (addresses s)" using ok by (simp add: ipam_ok_def ipam_keys_def)
  have "distinct (map ip_id (addresses t))"
  proof -
    have "ip_id ` set (addresses s) \<inter> ip_id ` set ?new = {}" using gt by fastforce
    moreover have "distinct (map ip_id ?new)" by (simp add: new_rows_maps(1))
    ultimately show ?thesis using ok by (simp add: t ipam_ok_def ipam_keys_def)
  qed
  moreover have "distinct (map ip_text (addresses t))"
  proof -
    have "set ?ts \<inter> ip_text ` set (addresses s) = {}" by (auto simp: seed_texts_def)
    then show ?thesis using ok d by (auto simp: t ipam_ok_def ipam_keys_def new_rows_maps(2))
  qed
  moreover have "states_ok t"
  proof (rule states_okI)
    fix r assume "r \<in> set (addresses t)"
    then consider "r \<in> set (addresses s)" | "r \<in> set ?new" by (auto simp: t)
    then show "ip_state r = (if ip_id r \<in> slot_ids t then ''assigned'' else ''free'')"
    proof cases
      case 1
      then show ?thesis using ok states_okD [of s r] by (simp add: ipam_ok_def t slot_ids_def)
    next
      case 2
      then have "ip_id r \<notin> slot_ids s" using old gt by fastforce
      then show ?thesis using 2 new_rows_maps(3) [of "sn_id sn" now ?n ?ts] by (auto simp: t slot_ids_def list_all_iff)
    qed
  qed
  moreover have "owners_ok t" using ok owners_ok_subset [of s t] by (simp add: ipam_ok_def t)
  ultimately show ?thesis using ok by (auto simp: ipam_ok_def ipam_keys_def t slot_ids_def)
qed

lemma new_subnet_ok:
  assumes "ipam_ok s" "sn_id sn = fresh_id sn_id (subnets s)" "1 \<le> sn_max_resale_count sn"
  shows "ipam_ok (s\<lparr>subnets := subnets s @ [sn]\<rparr>)"
  using assms fresh_id_notin [of sn_id "subnets s"] owners_ok_subset [of s "s\<lparr>subnets := subnets s @ [sn]\<rparr>"]
  by (auto simp: ipam_ok_def ipam_keys_def states_ok_def slot_ids_def)

lemma create_subnet_ok: "ipam_ok s \<Longrightarrow> ipam_ok (ipam_committed (create_subnet now s n c l rs re tg st m))"
proof -
  assume ok: "ipam_ok s"
  let ?sn = "new_subnet s n c l rs re tg st m"
  have s1: "ipam_ok (s\<lparr>subnets := subnets s @ [?sn]\<rparr>)" if "\<not> m < 1"
    using that ok by (intro new_subnet_ok) (simp_all add: new_subnet_def)
  show ?thesis
  proof (cases "hosts_in_range c rs re")
    case (Inr hs)
    then show ?thesis using ok s1 seed_ips_ok [OF s1, of now ?sn hs]
      by (cases "seed_ips now (s\<lparr>subnets := subnets s @ [?sn]\<rparr>) ?sn hs") (auto simp: create_subnet_def Let_def)
  qed (simp add: create_subnet_def ok)
qed

lemma update_subnet_ok: "ipam_ok s \<Longrightarrow> ipam_ok (ipam_committed (update_subnet s i c))"
proof (cases "get_subnet s i")
  case (Some sn)
  assume ok: "ipam_ok s"
  have sn: "sn \<in> set (subnets s)" using Some by (auto simp: get_subnet_def dest: get_row_SomeD)
  let ?sn = "change_subnet c sn" and ?t = "s\<lparr>subnets := put_row sn_id (change_subnet c sn) (subnets s)\<rparr>"
  have "ipam_ok ?t" if "\<not> (case ch_max_resale_count c of None \<Rightarrow> False | Some n \<Rightarrow> n < 1)"
  proof -
    have "1 \<le> sn_max_resale_count ?sn"
      using that ok sn by (auto simp: change_subnet_def ipam_ok_def ipam_keys_def list_all_iff split: option.splits)
    then have "list_all (\<lambda>x. 1 \<le> sn_max_resale_count x) (subnets ?t)"
      using ok by (auto simp: ipam_ok_def ipam_keys_def list_all_iff dest!: set_put_row)
    then show ?thesis using ok owners_ok_subset [of s ?t] by (simp add: ipam_ok_def ipam_keys_def states_ok_def slot_ids_def)
  qed
  then show ?thesis using Some ok by (simp add: update_subnet_def)
qed (simp add: update_subnet_def)

lemma delete_subnet_ok: "ipam_ok s \<Longrightarrow> ipam_ok (ipam_committed (delete_subnet s i))"
proof (cases "get_subnet s i = None \<or> filter (\<lambda>r. ip_state r = ''assigned'') (addresses_of s i) \<noteq> [] \<or>
    list_ex (\<lambda>r. assignments_of s (ip_id r) \<noteq> []) (addresses_of s i)")
  case False
  assume ok: "ipam_ok s"
  let ?t = "s\<lparr>subnets := filter (\<lambda>x. sn_id x \<noteq> i) (subnets s), addresses := filter (\<lambda>r. ip_subnet_id r \<noteq> i) (addresses s)\<rparr>"
  have empty: "ip_id r \<notin> slot_ids s" if "r \<in> set (addresses s)" "ip_subnet_id r = i" for r
    using False that by (auto simp: addresses_of_def list_ex_iff assignments_of_Nil)
  have "slot_ids s \<subseteq> ip_id ` set (addresses ?t)"
  proof
    fix x assume x: "x \<in> slot_ids s"
    then obtain r where "r \<in> set (addresses s)" "ip_id r = x" using ok by (auto simp: ipam_ok_def ipam_keys_def)
    then show "x \<in> ip_id ` set (addresses ?t)" using empty [of r] x by auto
  qed
  then have "ipam_ok ?t" using ok owners_ok_subset [of s ?t]
    by (auto simp: ipam_ok_def ipam_keys_def states_ok_def slot_ids_def list_all_iff distinct_map_filter)
  then show ?thesis using False by (auto simp: delete_subnet_def split: option.splits)
qed (auto simp: delete_subnet_def split: option.splits)

section \<open>Reconciliation\<close>

definition terminated :: "ipam \<Rightarrow> ip_assignment \<Rightarrow> bool" where
  "terminated s a \<longleftrightarrow> (case get_service_row s (as_service_id a) of None \<Rightarrow> False | Some v \<Rightarrow> so_status v = SVC_TERMINATED)"

definition marked :: "ipam \<Rightarrow> int \<Rightarrow> bool" where
  "marked s i \<longleftrightarrow> list_all (\<lambda>r. ip_id r = i \<longrightarrow> ip_state r = ''assigned'') (addresses s)"

definition known_states :: "ipam \<Rightarrow> bool" where
  "known_states s \<longleftrightarrow> list_all (\<lambda>r. ip_state r = ''free'' \<or> ip_state r = ''assigned'') (addresses s)"

text \<open>What one step, and then the loop, leaves: rows and services stay, marks are kept or made.\<close>

definition reconciles :: "ipam \<Rightarrow> ip_assignment set \<Rightarrow> ipam \<Rightarrow> bool" where
  "reconciles s A t \<longleftrightarrow> ipam_keys t \<and> service_rows t = service_rows s \<and> (known_states s \<longrightarrow> known_states t) \<and>
     assignments t = filter (\<lambda>a. \<not> (a \<in> A \<and> terminated s a)) (assignments s) \<and>
     (\<forall>b \<in> set (assignments t). marked s (as_ip_id b) \<or> b \<in> A \<longrightarrow> marked t (as_ip_id b))"

lemma terminated_cong: "service_rows t = service_rows s \<Longrightarrow> terminated t a = terminated s a"
  by (simp add: terminated_def get_service_row_def)

lemma marked_set_state:
  "marked (set_state now i ''assigned'' s) j \<longleftrightarrow> marked s j \<or> j = i"
  "j \<noteq> i \<Longrightarrow> marked (set_state now i st s) j \<longleftrightarrow> marked s j"
  by (auto simp: marked_def set_state_def list_all_iff)

lemma set_state_keys: "ipam_keys s \<Longrightarrow> ipam_keys (set_state now i st s)"
  by (simp add: ipam_keys_def)

lemma known_set_state: "known_states s \<Longrightarrow> st = ''free'' \<or> st = ''assigned'' \<Longrightarrow> known_states (set_state now i st s)"
  by (auto simp: known_states_def set_state_def list_all_iff)

lemma marked_without_slot:
  assumes "ipam_keys s" "a \<in> set (assignments s)" "b \<in> set (assignments (without_slot now s a h))" "marked s (as_ip_id b)"
  shows "marked (without_slot now s a h) (as_ip_id b)"
proof (cases "filter (\<lambda>x. as_id x \<noteq> as_id a) (assignments_of s (as_ip_id a)) = []")
  case True
  have "as_ip_id b \<noteq> as_ip_id a" using True assms(3) by (auto simp: without_slot_fields assignments_of_def filter_empty_conv)
  then show ?thesis using True assms(4) marked_set_state(2) [of "as_ip_id b" "as_ip_id a" now "''free''" s]
    by (simp add: without_slot_def marked_def)
next
  case False
  then show ?thesis using assms(4) by (simp add: without_slot_def marked_def)
qed

lemma reconcile_assignment_reconciles:
  assumes keys: "ipam_keys s" and a: "a \<in> set (assignments s)"
  shows "reconciles s {a} (snd (reconcile_assignment now s a))"
proof -
  let ?last = "filter (\<lambda>x. as_id x \<noteq> as_id a) (assignments_of s (as_ip_id a)) = []"
  let ?s1 = "if terminated s a \<and> ?last then s else set_state now (as_ip_id a) ''assigned'' s"
  have only: "x = a" if "x \<in> set (assignments s)" "as_id x = as_id a" for x
    using that a keys by (metis distinct_map inj_onD ipam_keys_def)
  have k1: "ipam_keys ?s1" using keys set_state_keys by auto
  have kn: "known_states s \<Longrightarrow> known_states ?s1" using known_set_state by auto
  show ?thesis
  proof (cases "terminated s a")
    case False
    then have "snd (reconcile_assignment now s a) = ?s1" by (simp add: reconcile_assignment_def terminated_def [symmetric])
    moreover have "reconciles s {a} ?s1" using False k1 kn by (auto simp: reconciles_def marked_set_state cong: filter_cong)
    ultimately show ?thesis by simp
  next
    case True
    have as1: "assignments ?s1 = assignments s" by simp
    have "get_assignment ?s1 (as_id a) = Some a"
      using a keys by (simp add: get_assignment_def get_row_Some_iff ipam_keys_def)
    then obtain h where t: "snd (reconcile_assignment now s a) = without_slot now ?s1 a h"
      using True by (simp add: reconcile_assignment_def terminated_def [symmetric] release_ip_without Let_def)
    let ?t = "without_slot now ?s1 a h"
    have f: "assignments ?t = filter (\<lambda>x. as_id x \<noteq> as_id a) (assignments s)" by (simp add: without_slot_fields)
    then have asg: "assignments ?t = filter (\<lambda>x. \<not> (x \<in> {a} \<and> terminated s x)) (assignments s)"
      using only True by (auto intro: filter_cong)
    have m: "marked ?t (as_ip_id b)" if b: "b \<in> set (assignments ?t)" "marked s (as_ip_id b)" for b
      using b a by (intro marked_without_slot [OF k1]) (auto simp: marked_set_state)
    have "known_states s \<Longrightarrow> known_states ?t"
      using kn known_set_state [of ?s1 "''free''" now "as_ip_id a"] by (auto simp: without_slot_def known_states_def)
    moreover have "service_rows ?t = service_rows s" by (simp add: without_slot_fields)
    moreover have "b \<noteq> a" if "b \<in> set (assignments ?t)" for b using that f by auto
    ultimately show ?thesis using m asg without_slot_keys [OF k1, of now a h] unfolding t reconciles_def by blast
  qed
qed

lemma reconcile_loop:
  assumes "ipam_keys s" "set as \<subseteq> set (assignments s)" "distinct as"
  shows "reconciles s (set as) (snd (reconcile_active_assignments now s as))"
  using assms
proof (induction "as" arbitrary: s)
  case Nil
  then show ?case by (simp add: reconciles_def)
next
  case (Cons a "as")
  let ?s1 = "snd (reconcile_assignment now s a)"
  have r1: "reconciles s {a} ?s1" using Cons.prems by (intro reconcile_assignment_reconciles) simp_all
  then have k1: "ipam_keys ?s1" and sv: "service_rows ?s1 = service_rows s" and a1: "assignments ?s1 = filter (\<lambda>x. \<not> (x \<in> {a} \<and> terminated s x)) (assignments s)"
    by (simp_all add: reconciles_def)
  let ?t = "snd (reconcile_active_assignments now ?s1 as)"
  have r2: "reconciles ?s1 (set as) ?t" using Cons.prems k1 a1 by (intro Cons.IH) auto
  have "reconciles s (set (a # as)) ?t"
    unfolding reconciles_def
  proof (intro conjI)
    show "assignments ?t = filter (\<lambda>x. \<not> (x \<in> set (a # as) \<and> terminated s x)) (assignments s)"
      using r2 a1 terminated_cong [OF sv] by (auto simp: reconciles_def intro: filter_cong)
    show "\<forall>b \<in> set (assignments ?t). marked s (as_ip_id b) \<or> b \<in> set (a # as) \<longrightarrow> marked ?t (as_ip_id b)"
      using r1 r2 by (auto simp: reconciles_def)
  qed (use r1 r2 in \<open>auto simp: reconciles_def\<close>)
  moreover have "snd (reconcile_active_assignments now s (a # as)) = ?t" by (simp add: case_prod_beta Let_def)
  ultimately show ?case by simp
qed

lemma reclaim_fields [simp]:
  "assignments (snd (reclaim_orphan_assigned_ips now s)) = assignments s" "service_rows (snd (reclaim_orphan_assigned_ips now s)) = service_rows s"
  "subnets (snd (reclaim_orphan_assigned_ips now s)) = subnets s"
  "map ip_id (addresses (snd (reclaim_orphan_assigned_ips now s))) = map ip_id (addresses s)"
  "map ip_text (addresses (snd (reclaim_orphan_assigned_ips now s))) = map ip_text (addresses s)"
  by (auto simp: reclaim_orphan_assigned_ips_def Let_def)

lemma reclaim_keys: "ipam_keys s \<Longrightarrow> ipam_keys (snd (reclaim_orphan_assigned_ips now s))"
proof -
  assume k: "ipam_keys s"
  have "ip_id ` set (addresses (snd (reclaim_orphan_assigned_ips now s))) = ip_id ` set (addresses s)"
    using reclaim_fields(4) [of now s] by (metis list.set_map)
  with k show ?thesis by (simp add: ipam_keys_def slot_ids_def)
qed

lemma reclaim_states:
  assumes "known_states s" "\<forall>b \<in> set (assignments s). marked s (as_ip_id b)"
  shows "states_ok (snd (reclaim_orphan_assigned_ips now s))"
proof (rule states_okI)
  let ?t = "snd (reclaim_orphan_assigned_ips now s)"
  have sl: "slot_ids ?t = as_ip_id ` set (assignments s)" by (simp add: slot_ids_def)
  fix r assume "r \<in> set (addresses ?t)"
  then obtain x where x: "x \<in> set (addresses s)" "ip_id r = ip_id x"
    "ip_state r = (if ip_state x = ''assigned'' \<and> ip_id x \<notin> as_ip_id ` set (assignments s) then ''free'' else ip_state x)"
    by (auto simp: reclaim_orphan_assigned_ips_def Let_def)
  moreover have "ip_state x = ''assigned''" if "ip_id x \<in> as_ip_id ` set (assignments s)"
    using that assms(2) x(1) by (auto simp: marked_def list_all_iff)
  ultimately show "ip_state r = (if ip_id r \<in> slot_ids ?t then ''assigned'' else ''free'')"
    using assms(1) by (auto simp: sl known_states_def list_all_iff)
qed

lemma reconciliation_result:
  fixes now :: instant
  assumes keys: "ipam_keys s" and known: "known_states s" and own: "owners_ok s"
  defines "t \<equiv> run_reconciliation_cycle now s"
  shows "ipam_ok t" "assignments t = filter (\<lambda>a. \<not> terminated s a) (assignments s)" "service_rows t = service_rows s"
proof -
  let ?s1 = "snd (reconcile_active_assignments now s (assignments s))"
  have r: "reconciles s (set (assignments s)) ?s1"
    using keys by (intro reconcile_loop) (auto simp: ipam_keys_def distinct_map)
  have t: "t = snd (reclaim_orphan_assigned_ips now ?s1)" by (simp add: t_def run_reconciliation_cycle_def)
  have k: "ipam_keys t" unfolding t using r by (intro reclaim_keys) (simp add: reconciles_def)
  show a: "assignments t = filter (\<lambda>a. \<not> terminated s a) (assignments s)"
    using r by (auto simp: t reconciles_def intro: filter_cong)
  show sv: "service_rows t = service_rows s" using r by (simp add: t reconciles_def)
  have "states_ok t" unfolding t using r known by (intro reclaim_states) (auto simp: reconciles_def)
  moreover have "owners_ok t" using owners_ok_subset [OF own sv] a by auto
  ultimately show "ipam_ok t" using k by (simp add: ipam_ok_def)
qed

lemma ipam_ok_known: "ipam_ok s \<Longrightarrow> known_states s"
  by (auto simp: ipam_ok_def known_states_def states_ok_def list_all_iff)

lemma reconciliation_ok: "ipam_ok s \<Longrightarrow> ipam_ok (run_reconciliation_cycle now s)"
  using reconciliation_result(1) [of s now] ipam_ok_known [of s] by (simp add: ipam_ok_def)

section \<open>Properties\<close>

datatype ipam_op =
    Create_Subnet string string "int option" "string option" "string option" "json list option" string int
  | Update_Subnet int subnet_change
  | Delete_Subnet int
  | Assign_Ip "int option" "int list" assign_request
  | Release_Ip int "string option"
  | Release_All int "string option"
  | Rotate int "string option" "string option" "string option"
  | Reconcile

fun ipam_apply :: "instant \<Rightarrow> ipam \<Rightarrow> ipam_op \<Rightarrow> ipam" where
  "ipam_apply now s (Create_Subnet n c l rs re tg st m) = ipam_committed (create_subnet now s n c l rs re tg st m)"
| "ipam_apply now s (Update_Subnet i c) = ipam_committed (update_subnet s i c)"
| "ipam_apply now s (Delete_Subnet i) = ipam_committed (delete_subnet s i)"
| "ipam_apply now s (Assign_Ip i is q) = ipam_committed (assign_ip now s i is q)"
| "ipam_apply now s (Release_Ip i by) = snd (release_ip now s i by)"
| "ipam_apply now s (Release_All v by) = snd (release_all_for_service now s v by)"
| "ipam_apply now s (Rotate i u p by) = snd (rotate_credentials now s i u p by)"
| "ipam_apply now s Reconcile = run_reconciliation_cycle now s"

inductive ipam_step :: "ipam \<Rightarrow> instant \<times> ipam_op \<Rightarrow> ipam \<Rightarrow> bool" where
  "ipam_step s (now, x) (ipam_apply now s x)"

inductive_cases ipam_stepE: "ipam_step s x t"

lemma ipam_apply_ok: "ipam_ok s \<Longrightarrow> ipam_ok (ipam_apply now s x)"
  by (cases x) (simp_all add: create_subnet_ok update_subnet_ok delete_subnet_ok assign_ip_ok release_ip_ok
      release_each_ok release_all_for_service_def rotate_credentials_ok reconciliation_ok)

interpretation ipam: transition_system ipam_ok ipam_step ipam_ok
  by unfold_locales (auto elim!: ipam_stepE intro: ipam_apply_ok)

text \<open>
  C30: address management stays consistent. After any sequence of operations, successful or not, no two
  address rows carry the same text, every slot is on an existing address, an address is marked assigned
  exactly when it carries a slot and free otherwise, and no address carries two slots of services of one
  owner.
\<close>

theorem ipam_stays_consistent:
  assumes "ipam_ok s" "runs ipam_step s xs t"
  shows "distinct (map ip_text (addresses t)) \<and> as_ip_id ` set (assignments t) \<subseteq> ip_id ` set (addresses t) \<and>
    list_all (\<lambda>r. ip_state r = (if assignments_of t (ip_id r) = [] then ''free'' else ''assigned'')) (addresses t) \<and>
    (\<forall>a \<in> set (assignments t). \<forall>b \<in> set (assignments t). as_ip_id a = as_ip_id b \<and> as_id a \<noteq> as_id b \<longrightarrow>
       resolve_owner_user_id t (as_service_id a) = None \<or>
       resolve_owner_user_id t (as_service_id a) \<noteq> resolve_owner_user_id t (as_service_id b))"
proof -
  have "ipam_ok t" using ipam.runs_inv [OF assms(2,1)] .
  then show ?thesis
    by (auto simp: ipam_ok_def ipam_keys_def states_ok_def owners_ok_def slot_ids_def list_all_iff assignments_of_Nil)
qed

definition sample_ipam :: ipam where
  "sample_ipam = \<lparr>subnets = [], addresses = [], assignments = [], history = [],
     service_rows = [\<lparr>so_id = 1, so_owner_user_id = Some 7, so_status = SVC_ACTIVE\<rparr>,
       \<lparr>so_id = 2, so_owner_user_id = Some 8, so_status = SVC_TERMINATED\<rparr>]\<rparr>"

definition sample_request :: "int \<Rightarrow> assign_request" where
  "sample_request v = \<lparr>rq_service_id = v, rq_strategy = None, rq_username = None, rq_password = None, rq_assigned_by = None\<rparr>"

lemma sample_ipam_ok: "ipam_ok sample_ipam"
  by (simp add: ipam_ok_def ipam_keys_def states_ok_def owners_ok_def slot_ids_def sample_ipam_def)

definition sample_ipam_ops :: "(instant \<times> ipam_op) list" where
  "sample_ipam_ops = [(1, Create_Subnet ''a'' ''10.0.0.0/30'' None None None None ''first_free'' 1), (2, Assign_Ip None [] (sample_request 1)),
     (3, Assign_Ip (Some 1) [] (sample_request 2))]"

lemma runs_ipam: "runs ipam_step s xs (fold (\<lambda>(now, x) t. ipam_apply now t x) xs s)"
  by (induction xs arbitrary: s) (auto intro!: ipam_step.intros)

theorem ipam_stays_consistent_witness:
  "\<exists>t. runs ipam_step sample_ipam sample_ipam_ops t \<and> map ip_text (addresses t) = [''10.0.0.1'', ''10.0.0.2''] \<and>
     map as_ip_id (assignments t) = [1, 2] \<and> list_all (\<lambda>r. ip_state r = ''assigned'') (addresses t)"
proof -
  define t where "t = fold (\<lambda>(now, x) t. ipam_apply now t x) sample_ipam_ops sample_ipam"
  have e: "map ip_text (addresses t) = [''10.0.0.1'', ''10.0.0.2'']" "map as_ip_id (assignments t) = [1, 2]" "map ip_id (addresses t) = [1, 2]"
    unfolding t_def by code_simp+
  have r: "runs ipam_step sample_ipam sample_ipam_ops t" unfolding t_def by (rule runs_ipam)
  have "as_ip_id ` set (assignments t) = {1, 2}" "ip_id ` set (addresses t) = {1, 2}"
    using arg_cong [OF e(2), of set] arg_cong [OF e(3), of set] by simp_all
  then have "assignments_of t (ip_id r) \<noteq> []" if "r \<in> set (addresses t)" for r
    using that unfolding assignments_of_Nil slot_ids_def by blast
  moreover have "list_all (\<lambda>r. ip_state r = (if assignments_of t (ip_id r) = [] then ''free'' else ''assigned'')) (addresses t)"
    using ipam_stays_consistent [OF sample_ipam_ok r] by (elim conjE) assumption
  ultimately have "list_all (\<lambda>r. ip_state r = ''assigned'') (addresses t)" by (simp add: list_all_iff)
  then show ?thesis using e(1,2) r by (intro exI [of _ t] conjI)
qed

text \<open>
  An assignment takes exactly one slot within the cap. When the request returns, the address lies in
  an enabled subnet of the requested scope, it was free or carried fewer slots than its subnet allows and
  none of the same owner, it carries one slot more and is marked assigned, the other slots are as before
  and one line of history is written. When it raises, the store is as before, and either the service is
  unknown or no subnet of the scope has a free or resellable address.
\<close>

theorem assign_ip_exact:
  assumes "ipam_ok s"
  shows "case assign_ip now s i ids q of
      Inr (a, t) \<Rightarrow> \<exists>sn r. sn \<in> set (selected_subnets s i ids) \<and> sn_enabled sn \<and> r \<in> set (addresses s) \<and> ip_subnet_id r = sn_id sn \<and>
        as_ip_id a = ip_id r \<and> as_service_id a = rq_service_id q \<and> int (length (assignments_of s (ip_id r))) < resale_cap sn \<and>
        \<not> (\<exists>u. resolve_owner_user_id s (rq_service_id q) = Some u \<and> holds_slot s u (ip_id r)) \<and>
        assignments t = assignments s @ [a] \<and> marked t (ip_id r) \<and> length (history t) = Suc (length (history s))
    | Inl (e, t) \<Rightarrow> t = s \<and> (get_service_row s (rq_service_id q) = None \<or>
        list_all (\<lambda>sn. candidate_ips s sn (resolve_owner_user_id s (rq_service_id q)) = []) (selected_subnets s i ids))"
  using assign_ip_cases [OF assms, of now i ids q]
proof (elim disjE exE conjE, goal_cases)
  case (3 sn r a t)
  note d = commit_assignmentD [OF 3(3)]
  have "1 \<le> sn_max_resale_count sn"
    using assms selected_subnets_member [OF 3(1)] by (simp add: ipam_ok_def ipam_keys_def list_all_iff)
  note c = candidate_slots [OF assms 3(2) this]
  have "states_ok t" "distinct (map ip_id (addresses s))" using commit_ok [OF assms c(1,4) 3(3)] assms by (simp_all add: ipam_ok_def ipam_keys_def)
  then have "marked t (ip_id r)" using d(8) by (auto simp: marked_def list_all_iff dest: states_okD)
  moreover have "length (history t) = Suc (length (history s))"
    using 3(3) by (auto simp: commit_defs split: if_splits)
  moreover have "sn_enabled sn" using 3(1) by (simp add: selected_subnets_def)
  moreover have "as_ip_id a = ip_id r" "as_service_id a = rq_service_id q" by (simp_all add: d(1) assignment_row_def)
  ultimately show ?case using 3(1,4) c d(3) by auto
qed (auto simp: list_all_iff)

definition sample_resale :: ipam where
  "sample_resale = sample_ipam\<lparr>subnets := [\<lparr>sn_id = 1, sn_name = ''a'', sn_cidr = ''10.0.0.1/32'', sn_location_id = None,
       sn_range_start = None, sn_range_end = None, sn_tags = [], sn_allocation_strategy = ''first_free'', sn_enabled = True, sn_max_resale_count = 2\<rparr>],
     addresses := [\<lparr>ip_id = 1, ip_subnet_id = 1, ip_text = ''10.0.0.1'', ip_state = ''assigned'', ip_updated_at = 0\<rparr>],
     assignments := [\<lparr>as_id = 1, as_service_id = 2, as_ip_id = 1, as_username = None, as_password = None, as_assigned_by = None, as_assigned_at = 0\<rparr>]\<rparr>"

lemma sample_resale_ok: "ipam_ok sample_resale"
  by (simp add: ipam_ok_def ipam_keys_def states_ok_def owners_ok_def slot_ids_def sample_resale_def sample_ipam_def)

theorem assign_ip_exact_witness:
  "\<exists>a t. assign_ip 5 sample_resale None [] (sample_request 1) = Inr (a, t) \<and> as_ip_id a = 1 \<and> length (assignments t) = 2 \<and> marked t 1"
proof -
  let ?m = "assign_ip 5 sample_resale None [] (sample_request 1)"
  have "\<not> isl ?m" by code_simp
  then obtain a t where m: "?m = Inr (a, t)" by (cases ?m) auto
  with assign_ip_exact [OF sample_resale_ok, where now = 5 and i = None and ids = "[]" and q = "sample_request 1"] obtain r where
    "r \<in> set (addresses sample_resale)" "as_ip_id a = ip_id r" "assignments t = assignments sample_resale @ [a]" "marked t (ip_id r)" by auto
  with m show ?thesis by (auto simp: sample_resale_def)
qed

text \<open>
  C32: reconciliation repairs the marks. From any store whose keys are in order, whatever its marks, one
  cycle gives a consistent store in which an address is marked assigned exactly when it carries a slot;
  it releases exactly the slots of terminated services and keeps all others in their order.
\<close>

theorem reconciliation_repairs:
  assumes "ipam_keys s" "known_states s" "owners_ok s"
  shows "ipam_ok (run_reconciliation_cycle now s) \<and>
    assignments (run_reconciliation_cycle now s) = filter (\<lambda>a. \<not> terminated s a) (assignments s)"
  using reconciliation_result [OF assms, of now] by blast

theorem reconciliation_repairs_witness:
  "ipam_ok (run_reconciliation_cycle 9 (set_state 3 1 ''free'' sample_resale)) \<and>
   assignments (run_reconciliation_cycle 9 (set_state 3 1 ''free'' sample_resale)) = []"
proof -
  let ?s = "set_state 3 1 ''free'' sample_resale"
  have "ipam_keys ?s" "known_states ?s" "owners_ok ?s"
    using sample_resale_ok owners_ok_subset [of sample_resale ?s] known_set_state [of sample_resale "''free''" 3 1] ipam_ok_known [OF sample_resale_ok]
    by (simp_all add: ipam_ok_def set_state_keys)
  from reconciliation_repairs [OF this, of 9] show ?thesis
    by (simp add: terminated_def get_service_row_def sample_resale_def sample_ipam_def)
qed

end
