(* ===== verification/Ipam_Races.thy ===== *)
theory Ipam_Races
  imports Ipam_Books
begin

text \<open>
  Two more properties of address management: seeding a subnet gives exactly the usable hosts, and
  concurrent requests. A request reads its candidates, inserts its slot, commits and then runs the race
  guard; between these points other requests may run. An address that may be sold once is never held twice; the
  guard fails for addresses that may be resold, because it counts by ids and ids are not given in the order of commits, and it does
  not look at the owners of the slots.
\<close>

section \<open>Seeding\<close>

lemma select_hosts_V4:
  "select_hosts start stop (map V4 xs) = Inr hs \<Longrightarrow>
     hs = map V4 (filter (\<lambda>x. (\<forall>a. start = Some (V4 a) \<longrightarrow> a \<le> x) \<and> (\<forall>a. stop = Some (V4 a) \<longrightarrow> x \<le> a)) xs)"
proof (induction xs arbitrary: hs)
  case (Cons x xs)
  then obtain lo keep rest where lo: "above start (V4 x) = Inr lo" and keep: "(if lo then below stop (V4 x) else Inr False) = Inr keep"
    and rest: "select_hosts start stop (map V4 xs) = Inr rest" and hs: "hs = (if keep then V4 x # rest else rest)"
    by (auto simp: ebind_Inr_iff)
  have "lo = (\<forall>a. start = Some (V4 a) \<longrightarrow> a \<le> x)"
    using lo by (cases start; cases "the start") (auto simp: above_def address_ge_def)
  moreover have "keep = (\<forall>a. stop = Some (V4 a) \<longrightarrow> x \<le> a)" if lo
    using keep that by (cases stop; cases "the stop") (auto simp: below_def address_le_def)
  ultimately show ?case using Cons.IH [OF rest] keep hs by (auto split: if_splits)
qed simp

lemma ipv4_str_inject: "0 \<le> x \<Longrightarrow> x < 2 ^ 32 \<Longrightarrow> 0 \<le> y \<Longrightarrow> y < 2 ^ 32 \<Longrightarrow> ipv4_str x = ipv4_str y \<Longrightarrow> x = y"
  using ipv4_int_str by (metis option.inject)

text \<open>
  A new subnet is seeded with exactly its usable hosts. For an IPv4 network, the rows added are
  free, belong to the new subnet, and their texts are exactly the addresses strictly between the network
  and broadcast addresses (all addresses of a network of one or two), from the first to the last address of
  the range, that had no row before; there are at most 4096 of them and no row is lost.
\<close>

theorem subnet_seeds_usable_hosts:
  assumes "create_subnet now s name c l rs re tg st m = Inr (sn, t)" "ip_network c = Inr (Net4 b p)"
  shows "\<exists>new. addresses t = addresses s @ new \<and> length new \<le> 4096 \<and>
    list_all (\<lambda>r. ip_state r = ''free'' \<and> ip_subnet_id r = sn_id sn) new \<and>
    set (map ip_text new) = ipv4_str ` {x \<in> (if 31 \<le> p then {b..b + 2 ^ (32 - p) - 1} else {b<..<b + 2 ^ (32 - p) - 1}).
       (\<forall>a. optional_address rs = Inr (Some (V4 a)) \<longrightarrow> a \<le> x) \<and> (\<forall>a. optional_address re = Inr (Some (V4 a)) \<longrightarrow> x \<le> a)}
      - ip_text ` set (addresses s)"
proof -
  from assms(1) obtain hs where hs: "hosts_in_range c rs re = Inr hs" and len: "length hs \<le> 4096"
    and seed: "seed_ips now (s\<lparr>subnets := subnets s @ [sn]\<rparr>) sn hs = Inr t"
    by (auto simp: create_subnet_def Let_def MAX_SEED_HOSTS_def split: sum.splits if_splits)
  from hs assms(2) obtain start stop where st: "optional_address rs = Inr start" "optional_address re = Inr stop"
    and sel: "select_hosts start stop (hosts (Net4 b p)) = Inr hs"
    by (auto simp: hosts_in_range_def ebind_Inr_iff)
  let ?range = "if 31 \<le> p then [b..b + 2 ^ (32 - p) - 1] else [b + 1..b + 2 ^ (32 - p) - 2]"
  have "hosts (Net4 b p) = map V4 ?range" by simp
  from select_hosts_V4 [OF sel [unfolded this]] have hs': "hs = map V4 (filter (\<lambda>x. (\<forall>a. start = Some (V4 a) \<longrightarrow> a \<le> x) \<and> (\<forall>a. stop = Some (V4 a) \<longrightarrow> x \<le> a)) ?range)" .
  let ?new = "new_rows now (sn_id sn) (fresh_id ip_id (addresses s)) (seed_texts s hs)"
  have t: "addresses t = addresses s @ ?new" using seed by (auto simp: seed_ips_def seed_texts_def Let_def split: if_splits)
  have "length ?new = length (seed_texts s hs)" using new_rows_maps(2) by (metis length_map)
  also have "\<dots> \<le> length hs" unfolding seed_texts_def by (metis length_filter_le length_map)
  finally have "length ?new \<le> 4096" using len by simp
  moreover have "set (map ip_text ?new) = ipv4_str ` {x \<in> (if 31 \<le> p then {b..b + 2 ^ (32 - p) - 1} else {b<..<b + 2 ^ (32 - p) - 1}).
       (\<forall>a. optional_address rs = Inr (Some (V4 a)) \<longrightarrow> a \<le> x) \<and> (\<forall>a. optional_address re = Inr (Some (V4 a)) \<longrightarrow> x \<le> a)}
      - ip_text ` set (addresses s)"
    unfolding new_rows_maps(2) seed_texts_def hs' st by auto
  ultimately show ?thesis using t new_rows_maps(3) [of "sn_id sn" now "fresh_id ip_id (addresses s)" "seed_texts s hs"] by blast
qed

theorem subnet_seeds_usable_hosts_witness:
  "\<exists>sn t. create_subnet 1 sample_ipam ''a'' ''10.0.0.0/29'' None (Some ''10.0.0.3'') None None ''first_free'' 1 = Inr (sn, t) \<and>
     ''10.0.0.6'' \<in> set (map ip_text (addresses t)) \<and> ''10.0.0.7'' \<notin> set (map ip_text (addresses t)) \<and> ''10.0.0.2'' \<notin> set (map ip_text (addresses t))"
proof -
  let ?m = "create_subnet 1 sample_ipam ''a'' ''10.0.0.0/29'' None (Some ''10.0.0.3'') None None ''first_free'' 1"
  have "\<not> isl ?m" by code_simp
  then obtain sn t where m: "?m = Inr (sn, t)" by (cases ?m) auto
  have n: "ip_network ''10.0.0.0/29'' = Inr (Net4 167772160 29)" by code_simp
  have o: "optional_address (Some ''10.0.0.3'') = Inr (Some (V4 167772163))" "optional_address None = Inr None" by code_simp+
  from subnet_seeds_usable_hosts [OF m n] obtain new where new: "addresses t = new" and
    x: "set (map ip_text new) = ipv4_str ` {x. 167772160 < x \<and> x < 167772167 \<and> 167772163 \<le> x}"
    by (auto simp: o sample_ipam_def)
  have e: "''10.0.0.6'' = ipv4_str 167772166" "''10.0.0.7'' = ipv4_str 167772167" "''10.0.0.2'' = ipv4_str 167772162" by code_simp+
  have i: "ipv4_str y \<in> ipv4_str ` {x. 167772160 < x \<and> x < 167772167 \<and> 167772163 \<le> x} \<longleftrightarrow> 167772163 \<le> y \<and> y < 167772167"
    if "0 \<le> y" "y < 2 ^ 32" for y
  proof
    assume "ipv4_str y \<in> ipv4_str ` {x. 167772160 < x \<and> x < 167772167 \<and> 167772163 \<le> x}"
    then obtain x where "ipv4_str y = ipv4_str x" "x < 167772167" "167772163 \<le> x" by auto
    then show "167772163 \<le> y \<and> y < 167772167" using ipv4_str_inject [OF that, of x] by simp
  qed auto
  have tx: "set (map ip_text (addresses t)) = ipv4_str ` {x. 167772160 < x \<and> x < 167772167 \<and> 167772163 \<le> x}" using new x by simp
  show ?thesis by (intro exI conjI, rule m) (simp_all only: tx e, simp_all add: i)
qed

section \<open>Concurrent requests\<close>

text \<open>
  The stages of the requests in flight: those that have read their candidate, with the row as it was read; those whose row is inserted
  under an id of the counter and not committed, which nobody else sees; and those that have committed and not run the guard. A request that
  found the address free updates it before its insert and keeps that lock until it commits; the reference of an inserted row
  excludes such an update, but not another insert. Slots are released through assignments whose request has returned.
\<close>

record race =
  rc_db :: ipam
  rc_next :: int
  rc_selected :: "(ip_subnet \<times> assign_request \<times> ip_row) list"
  rc_inserted :: "(ip_subnet \<times> assign_request \<times> ip_row \<times> ip_assignment) list"
  rc_committed :: "(ip_subnet \<times> ip_row \<times> ip_assignment) list"

datatype race_op = Select int assign_request | Insert nat | Commit nat | Guard nat | Release int

definition drop_nth :: "nat \<Rightarrow> 'a list \<Rightarrow> 'a list" where
  "drop_nth k xs = take k xs @ drop (Suc k) xs"

definition updates_row :: "ip_row \<Rightarrow> bool" where
  "updates_row r \<longleftrightarrow> ip_state r \<noteq> ''assigned''"

definition blocked :: "race \<Rightarrow> ip_row \<Rightarrow> bool" where
  "blocked s r \<longleftrightarrow> list_ex (\<lambda>(_, _, r', _). ip_id r' = ip_id r \<and> (updates_row r \<or> updates_row r')) (rc_inserted s)"

fun race_exec :: "instant \<Rightarrow> race \<Rightarrow> race_op \<Rightarrow> race option" where
  "race_exec now s (Select i q) =
     (case get_subnet (rc_db s) i of
        None \<Rightarrow> None
      | Some sn \<Rightarrow>
          (case select_ip (rc_db s) sn (resolve_owner_user_id (rc_db s) (rq_service_id q)) q of
             None \<Rightarrow> None | Some r \<Rightarrow> Some (s\<lparr>rc_selected := rc_selected s @ [(sn, q, r)]\<rparr>)))"
| "race_exec now s (Insert k) =
     (if k < length (rc_selected s)
      then (case rc_selected s ! k of (sn, q, r) \<Rightarrow>
        if blocked s r then None
        else (case insert_assignment now (rc_db s) (rc_next s) q r of
           Inl e \<Rightarrow> Some (s\<lparr>rc_selected := drop_nth k (rc_selected s)\<rparr>)
         | Inr a \<Rightarrow> Some (s\<lparr>rc_next := rc_next s + 1, rc_selected := drop_nth k (rc_selected s), rc_inserted := rc_inserted s @ [(sn, q, r, a)]\<rparr>)))
      else None)"
| "race_exec now s (Commit k) =
     (if k < length (rc_inserted s)
      then (case rc_inserted s ! k of (sn, q, r, a) \<Rightarrow>
        Some (s\<lparr>rc_db := publish_assignment now (rc_db s) sn q r a, rc_inserted := drop_nth k (rc_inserted s),
                rc_committed := rc_committed s @ [(sn, r, a)]\<rparr>))
      else None)"
| "race_exec now s (Guard k) =
     (if k < length (rc_committed s)
      then (case rc_committed s ! k of (sn, r, a) \<Rightarrow>
        Some (s\<lparr>rc_db := ipam_committed (enforce_resale_cap now (rc_db s) (ip_id r) (resale_cap sn) a),
                rc_committed := drop_nth k (rc_committed s)\<rparr>))
      else None)"
| "race_exec now s (Release i) =
     (if i \<in> (\<lambda>(sn, r, a). as_id a) ` set (rc_committed s) then None
      else Some (s\<lparr>rc_db := snd (release_ip now (rc_db s) i None)\<rparr>))"

inductive race_step :: "race \<Rightarrow> instant \<times> race_op \<Rightarrow> race \<Rightarrow> bool" where
  "race_exec now s x = Some t \<Longrightarrow> race_step s (now, x) t"

inductive_cases race_stepE: "race_step s x t"

text \<open>The cap of an address is that of its subnet; it does not change while requests run.\<close>

definition cap_at :: "ipam \<Rightarrow> int \<Rightarrow> int" where
  "cap_at s i = (case map_of (map (\<lambda>r. (ip_id r, ip_subnet_id r)) (addresses s)) i of
     None \<Rightarrow> 1 | Some n \<Rightarrow> (case get_subnet s n of None \<Rightarrow> 1 | Some sn \<Rightarrow> resale_cap sn))"

text \<open>The slots of an address taken before a given one.\<close>

definition rank :: "ipam \<Rightarrow> ip_assignment \<Rightarrow> int" where
  "rank s a = int (length (filter (\<lambda>b. as_id b < as_id a) (assignments_of s (as_ip_id a))))"

lemma survives_rank:
  assumes d: "distinct (map as_id (assignments s))" and a: "a \<in> set (assignments s)" and sv: "survives s (as_ip_id a) c a"
  shows "rank s a < c"
proof -
  let ?xs = "assignments_of s (as_ip_id a)"
  let ?ys = "sort_key as_id ?xs"
  have dx: "distinct (map as_id ?xs)" using d by (simp add: assignments_of_def distinct_map_filter)
  have ax: "a \<in> set ?xs" using a by (simp add: assignments_of_def)
  from sv consider "int (length ?xs) \<le> c" | "as_id a \<in> as_id ` set (take (nat c) ?ys)" by (auto simp: survives_def)
  then show ?thesis
  proof cases
    case 1
    have "length (filter (\<lambda>b. as_id b < as_id a) ?xs) < length ?xs" using ax by (intro length_filter_less [of a]) simp_all
    with 1 show ?thesis by (simp add: rank_def)
  next
    case 2
    then obtain y where y: "y \<in> set (take (nat c) ?ys)" "as_id y = as_id a" by auto
    then have "y \<in> set ?xs" by (auto dest: in_set_takeD)
    then have "y = a" using y(2) ax dx by (metis distinct_map inj_onD)
    with y obtain us vs where sp: "take (nat c) ?ys = us @ a # vs" by (meson split_list)
    have ys: "?ys = us @ a # vs @ drop (nat c) ?ys" using sp by (metis append_Cons append_assoc append_take_drop_id)
    have "sorted (map as_id ?ys)" by simp
    then have ge: "\<forall>b \<in> set (a # vs @ drop (nat c) ?ys). as_id a \<le> as_id b" by (subst (asm) ys) (auto simp: sorted_append)
    have "length (filter (\<lambda>b. as_id b < as_id a) ?xs) = length (filter (\<lambda>b. as_id b < as_id a) ?ys)"
      by (simp add: filter_sort)
    also have "\<dots> = length (filter (\<lambda>b. as_id b < as_id a) us)"
    proof -
      have "filter (\<lambda>b. as_id b < as_id a) (a # vs @ drop (nat c) ?ys) = []" using ge by (auto simp: filter_empty_conv not_less)
      then show ?thesis by (subst ys) (simp only: filter_append append_Nil2)
    qed
    also have "\<dots> \<le> length us" by simp
    also have "length us < nat c"
    proof -
      have "length (us @ a # vs) \<le> nat c" unfolding sp [symmetric] by simp
      then show ?thesis by simp
    qed
    finally show ?thesis by (simp add: rank_def)
  qed
qed

lemma ranks_cap:
  assumes d: "distinct (map as_id (assignments s))" and r: "\<And>a. a \<in> set (assignments_of s i) \<Longrightarrow> rank s a < c" and c: "0 \<le> c"
  shows "int (length (assignments_of s i)) \<le> c"
proof (cases "assignments_of s i = []")
  case False
  let ?xs = "assignments_of s i"
  obtain b where b: "b \<in> set ?xs" "\<forall>x \<in> set ?xs. as_id x \<le> as_id b"
  proof -
    have "Max (as_id ` set ?xs) \<in> as_id ` set ?xs" using False by (intro Max_in) simp_all
    then obtain b where "b \<in> set ?xs" "as_id b = Max (as_id ` set ?xs)" by auto
    then show thesis using that [of b] by simp
  qed
  have dx: "distinct (map as_id ?xs)" using d by (simp add: assignments_of_def distinct_map_filter)
  have "x = b" if "x \<in> set ?xs" "\<not> as_id x < as_id b" for x
    using that b dx by (metis distinct_map inj_onD linorder_neqE_linordered_idom not_less)
  then have "filter (\<lambda>x. \<not> as_id x < as_id b) ?xs = filter (\<lambda>x. x = b) ?xs" using b by (intro filter_cong) auto
  moreover have "length (filter (\<lambda>x. x = b) ?xs) \<le> 1" using dx by (auto simp: distinct_map distinct_length_filter card_le_Suc0_iff_eq)
  moreover have "length ?xs = length (filter (\<lambda>x. as_id x < as_id b) ?xs) + length (filter (\<lambda>x. \<not> as_id x < as_id b) ?xs)"
    by (simp add: sum_length_filter_compl)
  moreover have "rank s b = int (length (filter (\<lambda>x. as_id x < as_id b) ?xs))"
    using b(1) by (simp add: rank_def assignments_of_def)
  ultimately show ?thesis using r [OF b(1)] by simp
qed (simp add: c)

definition committed_ids :: "race \<Rightarrow> int set" where
  "committed_ids s = (\<lambda>(sn, r, a). as_id a) ` set (rc_committed s)"

definition race_db_ok :: "ipam \<Rightarrow> bool" where
  "race_db_ok s \<longleftrightarrow> distinct (map as_id (assignments s)) \<and> distinct (map ip_id (addresses s)) \<and>
     distinct (map sn_id (subnets s)) \<and> (\<forall>sn \<in> set (subnets s). 1 \<le> sn_max_resale_count sn)"

text \<open>What a request knows of the address it chose: its cap, and that an exclusive address was free.\<close>

definition choice_ok :: "ipam \<Rightarrow> ip_subnet \<Rightarrow> ip_row \<Rightarrow> bool" where
  "choice_ok d sn r \<longleftrightarrow> cap_at d (ip_id r) = resale_cap sn \<and> (resale_cap sn = 1 \<longrightarrow> updates_row r)"

text \<open>An inserted row: its id is not in use, and on an exclusive address it is the only one, behind all committed ones.\<close>

definition pending_ok :: "race \<Rightarrow> ip_subnet \<Rightarrow> ip_row \<Rightarrow> ip_assignment \<Rightarrow> bool" where
  "pending_ok s sn r a \<longleftrightarrow> choice_ok (rc_db s) sn r \<and> as_ip_id a = ip_id r \<and> as_id a < rc_next s \<and>
     as_id a \<notin> as_id ` set (assignments (rc_db s)) \<and>
     (cap_at (rc_db s) (ip_id r) = 1 \<longrightarrow> (\<forall>b \<in> set (assignments_of (rc_db s) (ip_id r)). as_id b < as_id a))"

definition alone :: "race \<Rightarrow> bool" where
  "alone s \<longleftrightarrow> distinct (map (\<lambda>(sn, q, r, a). as_id a) (rc_inserted s)) \<and>
     distinct (filter (\<lambda>i. cap_at (rc_db s) i = 1) (map (\<lambda>(sn, q, r, a). ip_id r) (rc_inserted s)))"

definition race_ok :: "race \<Rightarrow> bool" where
  "race_ok s \<longleftrightarrow> race_db_ok (rc_db s) \<and> (\<forall>a \<in> set (assignments (rc_db s)). as_id a < rc_next s) \<and>
     (\<forall>(sn, q, r) \<in> set (rc_selected s). choice_ok (rc_db s) sn r) \<and>
     (\<forall>(sn, q, r, a) \<in> set (rc_inserted s). pending_ok s sn r a) \<and> alone s \<and>
     (\<forall>(sn, r, a) \<in> set (rc_committed s). a \<in> set (assignments (rc_db s)) \<and> as_ip_id a = ip_id r \<and> cap_at (rc_db s) (ip_id r) = resale_cap sn) \<and>
     distinct (map (\<lambda>(sn, r, a). as_id a) (rc_committed s)) \<and>
     (\<forall>a \<in> set (assignments (rc_db s)). cap_at (rc_db s) (as_ip_id a) = 1 \<longrightarrow> as_id a \<in> committed_ids s \<or> rank (rc_db s) a < 1)"

lemma cap_at_pos: "race_db_ok s \<Longrightarrow> 1 \<le> cap_at s i"
  by (auto simp: cap_at_def race_db_ok_def get_subnet_def split: option.splits dest!: get_row_SomeD intro: resale_cap_pos)

lemma set_state_cores:
  "map (\<lambda>r. (ip_id r, ip_subnet_id r)) (addresses (set_state now i st s)) = map (\<lambda>r. (ip_id r, ip_subnet_id r)) (addresses s)"
  by (auto simp: set_state_def)

lemma cap_at_cong:
  "map (\<lambda>r. (ip_id r, ip_subnet_id r)) (addresses t) = map (\<lambda>r. (ip_id r, ip_subnet_id r)) (addresses s) \<Longrightarrow> subnets t = subnets s \<Longrightarrow>
     cap_at t i = cap_at s i"
  by (simp only: cap_at_def get_subnet_def)

text \<open>Stores that differ in marks, history and slots only.\<close>

definition same_pool :: "ipam \<Rightarrow> ipam \<Rightarrow> bool" where
  "same_pool s t \<longleftrightarrow> subnets t = subnets s \<and>
     map (\<lambda>r. (ip_id r, ip_subnet_id r)) (addresses t) = map (\<lambda>r. (ip_id r, ip_subnet_id r)) (addresses s)"

lemma same_pool_cap: "same_pool s t \<Longrightarrow> cap_at t i = cap_at s i"
  unfolding same_pool_def by (elim conjE) (rule cap_at_cong)

lemma same_pool_ok: "race_db_ok s \<Longrightarrow> same_pool s t \<Longrightarrow> distinct (map as_id (assignments t)) \<Longrightarrow> race_db_ok t"
proof -
  assume a: "race_db_ok s" "same_pool s t" "distinct (map as_id (assignments t))"
  have "map ip_id (addresses t) = map ip_id (addresses s)"
    using a(2) by (metis (no_types, lifting) same_pool_def fst_conv map_eq_conv map_map comp_def)
  with a show ?thesis by (simp add: race_db_ok_def same_pool_def)
qed

lemma without_slot_pool: "same_pool s (without_slot now s a h)"
  using set_state_cores [of now "as_ip_id a" "''free''" s] by (simp add: same_pool_def without_slot_def)

lemma rank_filter: "assignments t = filter P (assignments s) \<Longrightarrow> rank t b \<le> rank s b"
proof -
  assume t: "assignments t = filter P (assignments s)"
  have "filter (\<lambda>x. as_id x < as_id b) (assignments_of t (as_ip_id b)) = filter P (filter (\<lambda>x. as_id x < as_id b) (assignments_of s (as_ip_id b)))"
    by (simp add: assignments_of_def t conj_commute conj_left_commute)
  then show ?thesis unfolding rank_def using length_filter_le [of P "filter (\<lambda>x. as_id x < as_id b) (assignments_of s (as_ip_id b))"] by (simp only: of_nat_le_iff)
qed

lemma set_drop_nth: "k < length xs \<Longrightarrow> set xs = insert (xs ! k) (set (drop_nth k xs))"
  by (subst id_take_nth_drop [of k xs]) (auto simp: drop_nth_def)

lemma set_drop_nth_subset: "x \<in> set (drop_nth k xs) \<Longrightarrow> x \<in> set xs"
  by (auto simp: drop_nth_def dest: in_set_takeD in_set_dropD)

lemma map_drop_nth: "map f (drop_nth k xs) = drop_nth k (map f xs)"
  by (simp add: drop_nth_def take_map drop_map)

lemma distinct_drop_nth:
  assumes "distinct xs" "k < length xs"
  shows "distinct (drop_nth k xs)" "xs ! k \<notin> set (drop_nth k xs)"
proof -
  have "distinct (take k xs @ xs ! k # drop (Suc k) xs)" using assms id_take_nth_drop [of k xs] by simp
  then show "distinct (drop_nth k xs)" "xs ! k \<notin> set (drop_nth k xs)" unfolding drop_nth_def by simp_all
qed

lemma publish_fields:
  "assignments (publish_assignment now s sn q r a) = assignments s @ [a]"
  "same_pool s (publish_assignment now s sn q r a)"
  using set_state_cores [of now "ip_id r" "''assigned''" s] by (simp_all add: publish_assignment_def same_pool_def Let_def set_state_def)

lemma choice_pool: "same_pool s t \<Longrightarrow> choice_ok t sn r = choice_ok s sn r"
  by (simp add: choice_ok_def same_pool_cap)

lemma race_okD:
  assumes "race_ok s"
  shows "race_db_ok (rc_db s)" "a \<in> set (assignments (rc_db s)) \<Longrightarrow> as_id a < rc_next s"
    "(sn, q, r) \<in> set (rc_selected s) \<Longrightarrow> choice_ok (rc_db s) sn r" "(sn, q, r, a) \<in> set (rc_inserted s) \<Longrightarrow> pending_ok s sn r a" "alone s"
    "(sn, r, a) \<in> set (rc_committed s) \<Longrightarrow> a \<in> set (assignments (rc_db s)) \<and> as_ip_id a = ip_id r \<and> cap_at (rc_db s) (ip_id r) = resale_cap sn"
    "distinct (map (\<lambda>(sn, r, a). as_id a) (rc_committed s))"
    "a \<in> set (assignments (rc_db s)) \<Longrightarrow> cap_at (rc_db s) (as_ip_id a) = 1 \<Longrightarrow> as_id a \<in> committed_ids s \<or> rank (rc_db s) a < 1"
  using assms unfolding race_ok_def by blast+

lemma race_okI:
  assumes "race_db_ok (rc_db s)" "\<And>a. a \<in> set (assignments (rc_db s)) \<Longrightarrow> as_id a < rc_next s"
    "\<And>sn q r. (sn, q, r) \<in> set (rc_selected s) \<Longrightarrow> choice_ok (rc_db s) sn r"
    "\<And>sn q r a. (sn, q, r, a) \<in> set (rc_inserted s) \<Longrightarrow> pending_ok s sn r a" "alone s"
    "\<And>sn r a. (sn, r, a) \<in> set (rc_committed s) \<Longrightarrow> a \<in> set (assignments (rc_db s)) \<and> as_ip_id a = ip_id r \<and> cap_at (rc_db s) (ip_id r) = resale_cap sn"
    "distinct (map (\<lambda>(sn, r, a). as_id a) (rc_committed s))"
    "\<And>a. a \<in> set (assignments (rc_db s)) \<Longrightarrow> cap_at (rc_db s) (as_ip_id a) = 1 \<Longrightarrow> as_id a \<in> committed_ids s \<or> rank (rc_db s) a < 1"
  shows "race_ok s"
  using assms unfolding race_ok_def by blast

text \<open>Taking the slot \<open>a\<close> away, whose request no longer waits for the guard.\<close>

lemma race_remove:
  assumes ok: "race_ok s" and a: "a \<in> set (assignments (rc_db s))"
    and c: "set (rc_committed t) \<subseteq> set (rc_committed s)" "distinct (map (\<lambda>(sn, r, a). as_id a) (rc_committed t))"
    and ids: "committed_ids s \<subseteq> insert (as_id a) (committed_ids t)" "as_id a \<notin> committed_ids t"
    and db: "rc_db t = without_slot now (rc_db s) a h"
    and same: "rc_selected t = rc_selected s" "rc_inserted t = rc_inserted s" "rc_next t = rc_next s"
  shows "race_ok t"
proof -
  have p: "same_pool (rc_db s) (rc_db t)" unfolding db by (rule without_slot_pool)
  have asg: "assignments (rc_db t) = filter (\<lambda>x. as_id x \<noteq> as_id a) (assignments (rc_db s))" by (simp add: db without_slot_fields)
  note cap = same_pool_cap [OF p] and ch = choice_pool [OF p] and o = race_okD [OF ok]
  show ?thesis
  proof (rule race_okI)
    have "distinct (map as_id (assignments (rc_db t)))" using o(1) unfolding asg race_db_ok_def by (simp add: distinct_map_filter)
    from same_pool_ok [OF o(1) p this] show "race_db_ok (rc_db t)" .
    show "as_id x < rc_next t" if "x \<in> set (assignments (rc_db t))" for x using that o(2) same(3) by (simp add: asg)
    show "choice_ok (rc_db t) sn r" if "(sn, q, r) \<in> set (rc_selected t)" for sn q r using that o(3) same(1) ch by auto
    show "pending_ok t sn r x" if "(sn, q, r, x) \<in> set (rc_inserted t)" for sn q r x
      using o(4) [of sn q r x] that same(2,3) cap ch by (auto simp: pending_ok_def asg assignments_of_def)
    show "alone t" using o(5) same(2) cap by (simp add: alone_def)
    show "x \<in> set (assignments (rc_db t)) \<and> as_ip_id x = ip_id r \<and> cap_at (rc_db t) (ip_id r) = resale_cap sn"
      if "(sn, r, x) \<in> set (rc_committed t)" for sn r x
    proof -
      have "as_id x \<noteq> as_id a" using that ids(2) by (force simp: committed_ids_def)
      then show ?thesis using that c(1) o(6) [of sn r x] cap by (auto simp: asg)
    qed
    show "distinct (map (\<lambda>(sn, r, a). as_id a) (rc_committed t))" by (rule c(2))
    show "as_id b \<in> committed_ids t \<or> rank (rc_db t) b < 1" if "b \<in> set (assignments (rc_db t))" "cap_at (rc_db t) (as_ip_id b) = 1" for b
    proof -
      have b: "b \<in> set (assignments (rc_db s))" "as_id b \<noteq> as_id a" using that(1) by (auto simp: asg)
      then show ?thesis using ids(1) o(8) [OF b(1)] that(2) rank_filter [OF asg, of b] cap by auto
    qed
  qed
qed

section \<open>The guard under interleaving\<close>

lemma selected_choice:
  assumes ok: "race_db_ok s" and sn: "get_subnet s i = Some sn" and r: "select_ip s sn owner q = Some r"
  shows "choice_ok s sn r"
proof -
  have cand: "r \<in> set (candidate_ips s sn owner)" using select_ip_Some [OF r] .
  have "r \<in> set (addresses s)" "ip_subnet_id r = sn_id sn"
    using cand by (auto simp: candidate_ips_def addresses_of_def Let_def split: if_splits)
  moreover have "distinct (map fst (map (\<lambda>r. (ip_id r, ip_subnet_id r)) (addresses s)))"
    using ok by (simp add: race_db_ok_def comp_def)
  ultimately have "map_of (map (\<lambda>r. (ip_id r, ip_subnet_id r)) (addresses s)) (ip_id r) = Some (sn_id sn)"
    by (metis (mono_tags, lifting) map_of_is_SomeI imageI list.set_map)
  moreover have "sn_id sn = i" using get_row_SomeD [OF sn [unfolded get_subnet_def]] by blast
  moreover have "updates_row r" if "resale_cap sn = 1"
    using cand that by (auto simp: updates_row_def candidate_ips_def Let_def split: if_splits)
  ultimately show ?thesis using sn by (simp add: choice_ok_def cap_at_def)
qed

lemma race_select:
  assumes ok: "race_ok s" and ex: "race_exec now s (Select i q) = Some t"
  shows "race_ok t"
proof -
  from ex obtain sn r where sn: "get_subnet (rc_db s) i = Some sn"
    and r: "select_ip (rc_db s) sn (resolve_owner_user_id (rc_db s) (rq_service_id q)) q = Some r"
    and t: "t = s\<lparr>rc_selected := rc_selected s @ [(sn, q, r)]\<rparr>"
    by (auto split: option.splits)
  have "choice_ok (rc_db s) sn r" using selected_choice [OF race_okD(1) [OF ok] sn r] .
  with ok show ?thesis by (simp add: t race_ok_def committed_ids_def pending_ok_def alone_def)
qed

lemma race_insert:
  assumes ok: "race_ok s" and ex: "race_exec now s (Insert k) = Some t"
  shows "race_ok t"
proof -
  from ex have k: "k < length (rc_selected s)" by (auto split: if_splits)
  obtain sn q r where x: "rc_selected s ! k = (sn, q, r)" by (cases "rc_selected s ! k")
  from ex k x have nb: "\<not> blocked s r" by (auto split: if_splits)
  note o = race_okD [OF ok]
  have sel: "choice_ok (rc_db s) sn r" using o(3) nth_mem [OF k] x by simp
  show ?thesis
  proof (cases "insert_assignment now (rc_db s) (rc_next s) q r")
    case (Inl e)
    with ex k x nb have "t = s\<lparr>rc_selected := drop_nth k (rc_selected s)\<rparr>" by simp
    with ok show ?thesis by (auto simp: race_ok_def committed_ids_def pending_ok_def alone_def dest: set_drop_nth_subset)
  next
    case (Inr a)
    with ex k x nb have t: "t = s\<lparr>rc_next := rc_next s + 1, rc_selected := drop_nth k (rc_selected s), rc_inserted := rc_inserted s @ [(sn, q, r, a)]\<rparr>" by simp
    have a: "as_id a = rc_next s" "as_ip_id a = ip_id r" using Inr by (auto simp: insert_assignment_def assignment_row_def split: if_splits)
    have "as_id a \<notin> as_id ` set (assignments (rc_db s))" using o(2) a(1) by fastforce
    then have new: "pending_ok t sn r a" using sel a o(2) by (simp add: pending_ok_def t assignments_of_def)
    have lt: "as_id y < rc_next s" if "(sn', q', r', y) \<in> set (rc_inserted s)" for sn' q' r' y using o(4) [OF that] by (simp add: pending_ok_def)
    have "ip_id r \<notin> set (map (\<lambda>(sn, q, r, a). ip_id r) (rc_inserted s))" if "cap_at (rc_db s) (ip_id r) = 1"
      using nb sel that by (auto simp: blocked_def list_ex_iff choice_ok_def)
    moreover have "as_id a \<notin> set (map (\<lambda>(sn, q, r, a). as_id a) (rc_inserted s))" using lt a(1) by fastforce
    ultimately have al: "alone t" using o(5) by (simp add: alone_def t)
    show ?thesis
    proof (rule race_okI)
      show "pending_ok t sn' r' y" if "(sn', q', r', y) \<in> set (rc_inserted t)" for sn' q' r' y
        using that new o(4) [of sn' q' r' y] by (auto simp: t pending_ok_def)
      show "as_id y < rc_next t" if "y \<in> set (assignments (rc_db t))" for y using that o(2) [of y] by (simp add: t)
      show "choice_ok (rc_db t) sn' r'" if "(sn', q', r') \<in> set (rc_selected t)" for sn' q' r'
        using o(3) [OF set_drop_nth_subset] that by (simp add: t)
    qed (use al o in \<open>simp_all add: t committed_ids_def\<close>)
  qed
qed

lemma distinct_filter_drop:
  assumes "distinct (filter P (map f xs))" "k < length xs" "P (f (xs ! k))"
  shows "f (xs ! k) \<notin> set (map f (drop_nth k xs))"
proof -
  have "map f xs = map f (take k xs) @ f (xs ! k) # map f (drop (Suc k) xs)"
    by (subst id_take_nth_drop [OF assms(2)]) simp
  with assms(1,3) show ?thesis by (auto simp: drop_nth_def)
qed

lemma distinct_filter_drop_nth: "distinct (filter P xs) \<Longrightarrow> distinct (filter P (drop_nth k xs))"
proof -
  assume "distinct (filter P xs)"
  moreover have "filter P xs = filter P (take k xs) @ filter P (drop k xs)" by (metis append_take_drop_id filter_append)
  moreover have "drop k xs = [] \<or> drop k xs = xs ! k # drop (Suc k) xs" by (metis Cons_nth_drop_Suc drop_eq_Nil not_le)
  ultimately show ?thesis by (auto simp: drop_nth_def split: if_splits)
qed

lemma race_commit:
  assumes ok: "race_ok s" and ex: "race_exec now s (Commit k) = Some t"
  shows "race_ok t"
proof -
  from ex have k: "k < length (rc_inserted s)" by (auto split: if_splits)
  obtain sn q r a where x: "rc_inserted s ! k = (sn, q, r, a)" by (cases "rc_inserted s ! k")
  define u where "u = publish_assignment now (rc_db s) sn q r a"
  from ex k x have t: "t = s\<lparr>rc_db := u, rc_inserted := drop_nth k (rc_inserted s), rc_committed := rc_committed s @ [(sn, r, a)]\<rparr>"
    by (simp add: u_def)
  note p = publish_fields(2) [of "rc_db s" now sn q r a, folded u_def] and asg = publish_fields(1) [of now "rc_db s" sn q r a, folded u_def]
  note cap = same_pool_cap [OF p] and ch = choice_pool [OF p] and o = race_okD [OF ok]
  have pa: "pending_ok s sn r a" using o(4) nth_mem [OF k] x by simp
  then have a: "as_ip_id a = ip_id r" "as_id a \<notin> as_id ` set (assignments (rc_db s))" "as_id a < rc_next s" by (simp_all add: pending_ok_def)
  have al: "alone s" using o(5) .
  have other: "as_id y \<noteq> as_id a \<and> (cap_at (rc_db s) (ip_id r') = 1 \<longrightarrow> ip_id r' \<noteq> ip_id r)"
    if "(sn', q', r', y) \<in> set (drop_nth k (rc_inserted s))" for sn' q' r' y
  proof -
    have "as_id a \<notin> set (map (\<lambda>(sn, q, r, a). as_id a) (drop_nth k (rc_inserted s)))"
      using distinct_filter_drop [where P = "\<lambda>_. True" and f = "\<lambda>(sn, q, r, a). as_id a", OF _ k] al x by (simp add: alone_def)
    moreover have "ip_id r \<notin> set (map (\<lambda>(sn, q, r, a). ip_id r) (drop_nth k (rc_inserted s)))" if "cap_at (rc_db s) (ip_id r) = 1"
      using distinct_filter_drop [where P = "\<lambda>i. cap_at (rc_db s) i = 1" and f = "\<lambda>(sn, q, r, a). ip_id r", OF _ k] al x that by (simp add: alone_def)
    ultimately show ?thesis using that by (force simp: image_iff)
  qed
  have rk: "rank u b = rank (rc_db s) b" if "b \<in> set (assignments (rc_db s))" "cap_at (rc_db s) (as_ip_id b) = 1" for b
  proof (cases "as_ip_id b = ip_id r")
    case True
    then have "as_id b < as_id a" using pa that by (simp add: pending_ok_def assignments_of_def)
    then show ?thesis by (simp add: rank_def assignments_of_def asg)
  qed (simp add: rank_def assignments_of_def asg a(1))
  show ?thesis
  proof (rule race_okI)
    have "distinct (map as_id (assignments u))" using o(1) a(2) by (simp add: race_db_ok_def asg)
    from same_pool_ok [OF o(1) p this] show "race_db_ok (rc_db t)" by (simp add: t)
    show "as_id y < rc_next t" if "y \<in> set (assignments (rc_db t))" for y using that o(2) [of y] a(3) by (auto simp: t asg)
    show "choice_ok (rc_db t) sn' r'" if "(sn', q', r') \<in> set (rc_selected t)" for sn' q' r' using that o(3) [of sn' q' r'] ch by (simp add: t)
    show "pending_ok t sn' r' y" if "(sn', q', r', y) \<in> set (rc_inserted t)" for sn' q' r' y
      using o(4) [of sn' q' r' y] that other [of sn' q' r' y] set_drop_nth_subset [of _ k "rc_inserted s"] cap ch a(1)
      by (auto simp: t pending_ok_def asg assignments_of_def)
    have "distinct (drop_nth k (map (\<lambda>(sn, q, r, a). as_id a) (rc_inserted s)))" using al k by (intro distinct_drop_nth(1)) (simp_all add: alone_def)
    then show "alone t" using al cap distinct_filter_drop_nth by (auto simp: alone_def t map_drop_nth)
    show "y \<in> set (assignments (rc_db t)) \<and> as_ip_id y = ip_id r' \<and> cap_at (rc_db t) (ip_id r') = resale_cap sn'"
      if "(sn', r', y) \<in> set (rc_committed t)" for sn' r' y
      using that o(6) [of sn' r' y] a(1) pa cap by (auto simp: t asg pending_ok_def choice_ok_def)
    have "as_id a \<notin> committed_ids s" using o(6) a(2) by (fastforce simp: committed_ids_def)
    then show "distinct (map (\<lambda>(sn, r, a). as_id a) (rc_committed t))" using o(7) by (simp add: t committed_ids_def)
    show "as_id b \<in> committed_ids t \<or> rank (rc_db t) b < 1" if "b \<in> set (assignments (rc_db t))" "cap_at (rc_db t) (as_ip_id b) = 1" for b
      using that o(8) [of b] rk [of b] cap by (auto simp: t asg committed_ids_def)
  qed
qed

lemma committed_drop:
  assumes ok: "race_ok s" and k: "k < length (rc_committed s)" and x: "rc_committed s ! k = (sn, r, a)"
    and t: "rc_committed t = drop_nth k (rc_committed s)"
  shows "set (rc_committed t) \<subseteq> set (rc_committed s)" "distinct (map (\<lambda>(sn, r, a). as_id a) (rc_committed t))"
    "committed_ids s = insert (as_id a) (committed_ids t)" "as_id a \<notin> committed_ids t"
proof -
  let ?f = "\<lambda>(sn, r, a). as_id a"
  note d = distinct_drop_nth [of "map ?f (rc_committed s)" k]
  have m: "map ?f (rc_committed t) = drop_nth k (map ?f (rc_committed s))" by (simp add: t map_drop_nth)
  show "set (rc_committed t) \<subseteq> set (rc_committed s)" using t set_drop_nth_subset by auto
  show "distinct (map ?f (rc_committed t))" unfolding m using d(1) race_okD(7) [OF ok] k by simp
  have "set (rc_committed s) = insert (sn, r, a) (set (rc_committed t))" using set_drop_nth [OF k] x t by simp
  then show "committed_ids s = insert (as_id a) (committed_ids t)" by (simp add: committed_ids_def)
  have "committed_ids t = set (drop_nth k (map ?f (rc_committed s)))" unfolding committed_ids_def m [symmetric] by simp
  then show "as_id a \<notin> committed_ids t" using d(2) race_okD(7) [OF ok] k x by simp
qed

lemma race_guard:
  assumes ok: "race_ok s" and ex: "race_exec now s (Guard k) = Some t"
  shows "race_ok t"
proof -
  from ex have k: "k < length (rc_committed s)" by (auto split: if_splits)
  obtain sn r a where x: "rc_committed s ! k = (sn, r, a)" by (cases "rc_committed s ! k")
  have t: "t = s\<lparr>rc_db := ipam_committed (enforce_resale_cap now (rc_db s) (ip_id r) (resale_cap sn) a), rc_committed := drop_nth k (rc_committed s)\<rparr>"
    using ex k x by simp
  have a: "a \<in> set (assignments (rc_db s))" "as_ip_id a = ip_id r" "cap_at (rc_db s) (ip_id r) = resale_cap sn"
    using race_okD(6) [OF ok, of sn r a] nth_mem [OF k] x by simp_all
  have "rc_committed t = drop_nth k (rc_committed s)" by (simp add: t)
  note cd = committed_drop [OF ok k x this]
  show ?thesis
  proof (cases "survives (rc_db s) (ip_id r) (resale_cap sn) a")
    case True
    then have db: "rc_db t = rc_db s" "rc_selected t = rc_selected s" by (simp_all add: t enforce_resale_cap_def ipam_committed_def)
    have ra: "rank (rc_db s) a < cap_at (rc_db s) (as_ip_id a)"
      using survives_rank [of "rc_db s" a "resale_cap sn"] race_okD(1) [OF ok] a True by (simp add: race_db_ok_def)
    have eq: "b = a" if "b \<in> set (assignments (rc_db s))" "as_id b = as_id a" for b
      using that a(1) race_okD(1) [OF ok] unfolding race_db_ok_def distinct_map by (blast dest: inj_onD)
    have "as_id b \<in> committed_ids t \<or> rank (rc_db s) b < 1"
      if "b \<in> set (assignments (rc_db s))" "cap_at (rc_db s) (as_ip_id b) = 1" for b
      using that(2) race_okD(8) [OF ok that] cd(3) ra eq [OF that(1)] by (cases "as_id b = as_id a") auto
    moreover have "rc_inserted t = rc_inserted s" "rc_next t = rc_next s" by (simp_all add: t)
    moreover have "alone t" using race_okD(5) [OF ok] db calculation by (simp add: alone_def)
    moreover have "pending_ok t = pending_ok s" using db calculation by (simp add: pending_ok_def fun_eq_iff)
    ultimately show ?thesis using race_okD(1-4,6) [OF ok] cd(1,2) by (intro race_okI) (auto simp: db)
  next
    case False
    then have "rc_db t = without_slot now (rc_db s) a (history (rc_db s))"
      using a(2) by (simp add: t enforce_resale_cap_def ipam_committed_def without_slot_def Let_def set_state_def)
    then show ?thesis using cd by (intro race_remove [OF ok a(1) cd(1,2) _ cd(4)]) (simp_all add: t)
  qed
qed

lemma race_release:
  assumes ok: "race_ok s" and ex: "race_exec now s (Release i) = Some t"
  shows "race_ok t"
proof -
  have i: "i \<notin> committed_ids s" and t: "t = s\<lparr>rc_db := snd (release_ip now (rc_db s) i None)\<rparr>"
    using ex by (auto simp: committed_ids_def split: if_splits)
  show ?thesis
  proof (cases "get_assignment (rc_db s) i")
    case None
    then have "t = s" by (simp add: t release_ip_without)
    with ok show ?thesis by simp
  next
    case (Some a)
    have "as_id a = i" "a \<in> set (assignments (rc_db s))" using get_assignmentD [OF Some] by simp_all
    moreover have "rc_db t = without_slot now (rc_db s) a (history (rc_db s) @ [history_entry now (rc_db s) a ''released'' (as_username a) None])"
      using Some by (simp add: t release_ip_without)
    moreover have "committed_ids t = committed_ids s" by (simp add: t committed_ids_def)
    ultimately show ?thesis using i race_okD(7) [OF ok] by (intro race_remove [OF ok, of a t]) (auto simp: t)
  qed
qed

text \<open>Where requests start: no request in flight, every address within its cap.\<close>

definition race_init :: "race \<Rightarrow> bool" where
  "race_init s \<longleftrightarrow> rc_selected s = [] \<and> rc_inserted s = [] \<and> rc_committed s = [] \<and> ipam_keys (rc_db s) \<and>
     (\<forall>a \<in> set (assignments (rc_db s)). as_id a < rc_next s) \<and>
     (\<forall>r \<in> set (addresses (rc_db s)). int (length (assignments_of (rc_db s) (ip_id r))) \<le> cap_at (rc_db s) (ip_id r))"

lemma race_init_ok: "race_init s \<Longrightarrow> race_ok s"
proof -
  assume init: "race_init s"
  have db: "race_db_ok (rc_db s)" using init by (auto simp: race_init_def race_db_ok_def ipam_keys_def list_all_iff)
  have "rank (rc_db s) a < 1" if a: "a \<in> set (assignments (rc_db s))" "cap_at (rc_db s) (as_ip_id a) = 1" for a
  proof -
    have "a \<in> set (assignments_of (rc_db s) (as_ip_id a))" using a(1) by (simp add: assignments_of_def)
    then have "length (filter (\<lambda>b. as_id b < as_id a) (assignments_of (rc_db s) (as_ip_id a))) < length (assignments_of (rc_db s) (as_ip_id a))"
      by (rule length_filter_less) simp
    moreover have "as_ip_id a \<in> ip_id ` set (addresses (rc_db s))"
      using a init by (auto simp: race_init_def ipam_keys_def slot_ids_def)
    then have "int (length (assignments_of (rc_db s) (as_ip_id a))) \<le> cap_at (rc_db s) (as_ip_id a)" using init by (auto simp: race_init_def)
    ultimately show ?thesis unfolding rank_def a(2) by linarith
  qed
  with db init show ?thesis by (intro race_okI) (auto simp: race_init_def alone_def)
qed

interpretation races: transition_system race_init race_step race_ok
proof unfold_locales
  show "race_ok s" if "race_init s" for s using that by (rule race_init_ok)
  show "race_ok t" if ok: "race_ok s" and st: "race_step s x t" for s x t
  proof -
    from st obtain now y where "race_exec now s y = Some t" by (auto elim: race_stepE)
    with race_select [OF ok] race_insert [OF ok] race_commit [OF ok] race_guard [OF ok] race_release [OF ok] show ?thesis by (cases y) auto
  qed
qed

text \<open>
  C31: an exclusive address is sold once. From any store within its caps, however the requests interleave between their reads, their inserts,
  their commits and their guards, and whatever is released meanwhile, once every committed request has run the guard an address whose
  subnet allows one slot carries at most one.
\<close>

theorem exclusive_address_survives_races:
  assumes "race_init s" "runs race_step s xs t" "rc_committed t = []" "cap_at (rc_db t) i = 1"
  shows "length (assignments_of (rc_db t) i) \<le> 1"
proof -
  have ok: "race_ok t" using races.reachable_inv [OF assms(2,1)] .
  have "distinct (map as_id (assignments (rc_db t)))" using race_okD(1) [OF ok] by (simp add: race_db_ok_def)
  moreover have "rank (rc_db t) a < 1" if "a \<in> set (assignments_of (rc_db t) i)" for a
    using that race_okD(8) [OF ok, of a] assms(3,4) by (auto simp: assignments_of_def committed_ids_def)
  ultimately show ?thesis using ranks_cap [of "rc_db t" i 1] by simp
qed

fun race_all :: "race \<Rightarrow> (instant \<times> race_op) list \<Rightarrow> race option" where
  "race_all s [] = Some s"
| "race_all s ((now, x) # xs) = (case race_exec now s x of None \<Rightarrow> None | Some t \<Rightarrow> race_all t xs)"

lemma race_all_runs: "race_all s xs = Some t \<Longrightarrow> runs race_step s xs t"
  by (induction s xs rule: race_all.induct) (auto split: option.splits intro: race_step.intros)

definition sample_owner :: "int \<Rightarrow> int \<Rightarrow> service_row" where
  "sample_owner i u = \<lparr>so_id = i, so_owner_user_id = Some u, so_status = SVC_ACTIVE\<rparr>"

definition sample_race :: "int \<Rightarrow> string \<Rightarrow> ip_assignment list \<Rightarrow> service_row list \<Rightarrow> race" where
  "sample_race cap st taken_slots owners = \<lparr>rc_db = \<lparr>subnets = [\<lparr>sn_id = 1, sn_name = ''a'', sn_cidr = ''10.0.0.1/32'', sn_location_id = None,
       sn_range_start = None, sn_range_end = None, sn_tags = [], sn_allocation_strategy = ''first_free'', sn_enabled = True, sn_max_resale_count = cap\<rparr>],
     addresses = [\<lparr>ip_id = 1, ip_subnet_id = 1, ip_text = ''10.0.0.1'', ip_state = st, ip_updated_at = 0\<rparr>],
     assignments = taken_slots, history = [], service_rows = owners\<rparr>,
     rc_next = int (length taken_slots) + 1, rc_selected = [], rc_inserted = [], rc_committed = []\<rparr>"

definition sample_race_ops :: "(instant \<times> race_op) list" where
  "sample_race_ops = [(1, Select 1 (sample_request 1)), (1, Select 1 (sample_request 2)), (2, Insert 0), (2, Commit 0), (2, Insert 0), (2, Commit 0),
     (3, Guard 0), (3, Guard 0)]"

abbreviation "sample_exclusive \<equiv> sample_race 1 ''free'' [] [sample_owner 1 7, sample_owner 2 8]"

lemma sample_race_init: "race_init sample_exclusive"
  by (simp add: race_init_def sample_race_def ipam_keys_def slot_ids_def assignments_of_def cap_at_def get_subnet_def get_row_def resale_cap_def)

theorem exclusive_address_survives_races_witness:
  "\<exists>t. runs race_step sample_exclusive sample_race_ops t \<and> length (assignments_of (rc_db t) 1) \<le> 1 \<and> map as_service_id (assignments (rc_db t)) = [1]"
proof -
  define x where "x = race_all sample_exclusive sample_race_ops"
  have e: "map_option rc_committed x = Some []" "map_option (\<lambda>t. map as_service_id (assignments (rc_db t))) x = Some [1]"
    "map_option (\<lambda>t. cap_at (rc_db t) 1) x = Some 1" unfolding x_def by code_simp+
  then obtain t where t: "x = Some t" by (cases x) simp_all
  have r: "runs race_step sample_exclusive sample_race_ops t" using race_all_runs [OF t [unfolded x_def]] .
  have f: "rc_committed t = []" "map as_service_id (assignments (rc_db t)) = [1]" "cap_at (rc_db t) 1 = 1" using e by (simp_all only: t option.map option.inject)
  show ?thesis using exclusive_address_survives_races [OF sample_race_init r f(1,3)] r f(2) by (intro exI [of _ t] conjI)
qed

text \<open>
  A resold address can be oversold. Two requests insert their rows in one order and commit in the other: on an address with two slots
  of which one is taken, the later row is committed and counted first, the earlier one then counts as one of the first two, and
  both guards pass. All requests have returned and the address carries three slots of three owners.
\<close>

theorem resale_race_oversells:
  "\<exists>s t. race_init s \<and> ipam_ok (rc_db s) \<and> rc_selected t = [] \<and> rc_inserted t = [] \<and> rc_committed t = [] \<and> cap_at (rc_db t) 1 = 2 \<and>
     map as_id (assignments_of (rc_db t) 1) = [1, 3, 2] \<and>
     runs race_step s [(1, Select 1 (sample_request 1)), (1, Select 1 (sample_request 2)), (2, Insert 0), (2, Insert 0), (3, Commit 1), (3, Guard 0),
       (4, Commit 0), (4, Guard 0)] t"
proof -
  let ?s = "sample_race 2 ''assigned'' [assignment_row 0 1 (sample_request 3) \<lparr>ip_id = 1, ip_subnet_id = 1, ip_text = ''10.0.0.1'', ip_state = ''free'', ip_updated_at = 0\<rparr>]
    [sample_owner 1 7, sample_owner 2 8, sample_owner 3 9]"
  let ?xs = "[(1, Select 1 (sample_request 1)), (1, Select 1 (sample_request 2)), (2, Insert 0), (2, Insert 0), (3, Commit 1), (3, Guard 0), (4, Commit 0), (4, Guard 0)]"
  define x where "x = race_all ?s ?xs"
  have e: "map_option (\<lambda>t. (length (rc_selected t) = 0 \<and> length (rc_inserted t) = 0 \<and> length (rc_committed t) = 0, cap_at (rc_db t) 1, map as_id (assignments_of (rc_db t) 1))) x =
      Some (True, 2, [1, 3, 2])" unfolding x_def by code_simp
  then obtain t where t: "x = Some t" by (cases x) simp_all
  have "race_init ?s" "ipam_ok (rc_db ?s)"
    by (simp_all add: race_init_def sample_race_def ipam_ok_def states_ok_def owners_ok_def ipam_keys_def slot_ids_def assignments_of_def cap_at_def get_subnet_def
        get_row_def resale_cap_def assignment_row_def)
  moreover have "runs race_step ?s ?xs t" using race_all_runs [OF t [unfolded x_def]] .
  moreover have "rc_selected t = [] \<and> rc_inserted t = [] \<and> rc_committed t = [] \<and> cap_at (rc_db t) 1 = 2 \<and> map as_id (assignments_of (rc_db t) 1) = [1, 3, 2]"
    using e by (simp only: t option.map option.inject prod.inject length_0_conv simp_thms)
  ultimately show ?thesis by (intro exI [of _ ?s] exI [of _ t]) blast
qed

text \<open>
  The guard does not see owners. Two interleaved requests for services of one owner, on the only
  address of a subnet that allows two slots per address, both return: the owner holds two
  slots of the same address, which the choice of a candidate rules out for requests that do not overlap.
\<close>

abbreviation "sample_shared \<equiv> sample_race 2 ''free'' [] [sample_owner 1 7, sample_owner 2 7]"

theorem double_sale_race:
  "\<exists>t. runs race_step sample_shared sample_race_ops t \<and> ipam_ok (rc_db sample_shared) \<and> rc_committed t = [] \<and>
     map as_ip_id (assignments (rc_db t)) = [1, 1] \<and>
     map (\<lambda>a. resolve_owner_user_id (rc_db t) (as_service_id a)) (assignments (rc_db t)) = [Some 7, Some 7]"
proof -
  define x where "x = race_all sample_shared sample_race_ops"
  have e: "map_option (\<lambda>t. (rc_committed t, map as_ip_id (assignments (rc_db t)),
       map (\<lambda>a. resolve_owner_user_id (rc_db t) (as_service_id a)) (assignments (rc_db t)))) x = Some ([], [1, 1], [Some 7, Some 7])" unfolding x_def by code_simp
  then obtain t where t: "x = Some t" by (cases x) simp_all
  have "ipam_ok (rc_db sample_shared)"
    by (simp add: sample_race_def ipam_ok_def ipam_keys_def states_ok_def owners_ok_def slot_ids_def)
  with race_all_runs [OF t [unfolded x_def]] e show ?thesis by (intro exI [of _ t]) (simp only: t option.map option.inject prod.inject)
qed

end
