(* ===== verification/Catalog.thy ===== *)
theory Catalog
  imports Models "HOL-Library.List_Lexorder" "HOL-Library.Char_ord"
begin

text \<open>
  The product catalog as the reseller side reads it: products and families (\<open>app/models/product_catalog.py\<close>,
  \<open>app/dao/product_catalog_dao.py\<close>), their machine configuration (\<open>app/dao/vm_config_dao.py\<close>), prices, access rules and
  quotas with the reseller's own row before that of its group (\<open>app/dao/reseller_dao.py\<close>), client permissions
  (\<open>app/core/client_permissions.py\<close>, \<open>app/services/client_permission_resolver.py\<close>), and the part of
  \<open>ResellerBillingService\<close> that decides what a reseller may sell and what its clients may do.
  Numbers with a fraction do not occur in the modelled JSON values; names order by character code.
\<close>

section \<open>Values of JSON columns\<close>

fun json_truthy :: "json \<Rightarrow> bool" where
  "json_truthy JNull = False"
| "json_truthy (JBool b) = b"
| "json_truthy (JInt i) = (i \<noteq> 0)"
| "json_truthy (JStr s) = (s \<noteq> [])"
| "json_truthy (JObj d) = (d \<noteq> [])"
| "json_truthy (JList xs) = (xs \<noteq> [])"

text \<open>\<open>d.update(e)\<close>\<close>

definition dict_update :: "('k \<times> 'v) list \<Rightarrow> ('k \<times> 'v) list \<Rightarrow> ('k \<times> 'v) list" where
  "dict_update d e = foldl (\<lambda>m (k, v). dict_set m k v) d e"

text \<open>\<open>int(value)\<close>: digits may be grouped by single underscores and surrounded by white space.\<close>

definition is_decimal :: "char \<Rightarrow> bool" where
  "is_decimal c = (let n = of_char c :: nat in 48 \<le> n \<and> n \<le> 57)"

fun digit_groups :: "string \<Rightarrow> string option" where
  "digit_groups [] = None"
| "digit_groups [c] = (if is_decimal c then Some [c] else None)"
| "digit_groups (c # CHR ''_'' # cs) = (if is_decimal c then map_option ((#) c) (digit_groups cs) else None)"
| "digit_groups (c # cs) = (if is_decimal c then map_option ((#) c) (digit_groups cs) else None)"

definition int_of_digits :: "string \<Rightarrow> int option" where
  "int_of_digits s = map_option (\<lambda>ds. int (read_digits ds)) (digit_groups s)"

fun int_of_text :: "string \<Rightarrow> int option" where
  "int_of_text (CHR ''-'' # s) = map_option uminus (int_of_digits s)"
| "int_of_text (CHR ''+'' # s) = int_of_digits s"
| "int_of_text s = int_of_digits s"

fun py_int :: "json \<Rightarrow> int res" where
  "py_int (JInt i) = Inr i"
| "py_int (JBool b) = Inr (if b then 1 else 0)"
| "py_int (JStr s) = (case int_of_text (strip s) of None \<Rightarrow> Inl (ValueError ''invalid literal for int()'') | Some i \<Rightarrow> Inr i)"
| "py_int _ = Inl (TypeError ''int() argument must be a string or a number'')"

section \<open>Rows\<close>

record product_family =
  pf_id :: int
  pf_service_type :: string
  pf_defaults :: dict
  pf_enabled :: bool

record product =
  pd_id :: int
  pd_family_id :: "int option"
  pd_name :: string
  pd_code :: string
  pd_overrides :: dict
  pd_enabled :: bool
  pd_permission_set_id :: "int option"

record permission_set =
  ps_id :: int
  ps_permissions :: dict

record family_vm_config =
  fc_family_id :: int
  fc_config :: dict

record product_vm_config =
  vc_product_id :: int
  vc_extends_family :: bool
  vc_config :: dict

record product_price =
  bp_product_id :: int
  bp_setup_cents :: int
  bp_monthly_cents :: int
  bp_currency :: string

record group_price =
  gp_group_id :: int
  gp_product_id :: int
  gp_setup_cents :: "int option"
  gp_monthly_cents :: "int option"

record product_access =
  pa_reseller_id :: "int option"
  pa_group_id :: "int option"
  pa_product_id :: int
  pa_allowed :: bool

record stock_quota =
  sq_reseller_id :: "int option"
  sq_group_id :: "int option"
  sq_scope_type :: StockQuotaScope
  sq_scope_id :: int
  sq_max_services :: "int option"
  sq_max_cpu_cores :: "int option"
  sq_max_ram_mb :: "int option"
  sq_max_disk_gb :: "int option"
  sq_enabled :: bool

record client_policy =
  cp_reseller_id :: int
  cp_product_id :: int
  cp_visible :: bool
  cp_permissions :: dict

record catalog =
  families :: "product_family list"
  products :: "product list"
  permission_sets :: "permission_set list"
  family_vm_configs :: "family_vm_config list"
  product_vm_configs :: "product_vm_config list"
  product_prices :: "product_price list"
  group_prices :: "group_price list"
  product_accesses :: "product_access list"
  stock_quotas :: "stock_quota list"
  client_policies :: "client_policy list"

definition family_of :: "catalog \<Rightarrow> product \<Rightarrow> product_family option" where
  "family_of c p = (case pd_family_id p of None \<Rightarrow> None | Some i \<Rightarrow> get_row pf_id i (families c))"

definition permission_set_of :: "catalog \<Rightarrow> product \<Rightarrow> permission_set option" where
  "permission_set_of c p = (case pd_permission_set_id p of None \<Rightarrow> None | Some i \<Rightarrow> get_row ps_id i (permission_sets c))"

definition get_by_code :: "catalog \<Rightarrow> string \<Rightarrow> product option" where
  "get_by_code c code = List.find (\<lambda>p. pd_code p = code) (products c)"

definition get_all :: "catalog \<Rightarrow> product list" where
  "get_all c = sort_key pd_name (products c)"

section \<open>Machine configuration\<close>

function deep_merge :: "dict \<Rightarrow> dict \<Rightarrow> dict" where
  "deep_merge base [] = base"
| "deep_merge base ((k, v) # d) =
     deep_merge (dict_set base k
       (case (v, map_of base k) of (JObj e, Some (JObj b)) \<Rightarrow> JObj (deep_merge b e) | _ \<Rightarrow> v)) d"
  by pat_completeness auto

termination by (relation "measure (\<lambda>(b, d). size_list (size_prod (\<lambda>_. 0) size) d)") auto

definition resolve_effective_config :: "catalog \<Rightarrow> product \<Rightarrow> dict" where
  "resolve_effective_config c p =
     (let product_cfg = List.find (\<lambda>x. vc_product_id x = pd_id p) (product_vm_configs c);
          family_cfg = (case pd_family_id p of
             None \<Rightarrow> None
           | Some i \<Rightarrow> if i = 0 then None else List.find (\<lambda>x. fc_family_id x = i) (family_vm_configs c));
          family_data = (case family_cfg of None \<Rightarrow> [] | Some x \<Rightarrow> fc_config x) in
      case product_cfg of
        None \<Rightarrow> family_data
      | Some x \<Rightarrow> if vc_extends_family x then deep_merge family_data (vc_config x) else vc_config x)"

section \<open>Client permissions\<close>

definition PERMISSION_CATALOG :: "(string \<times> ServiceType list) list" where
  "PERMISSION_CATALOG =
     [(''service.view'', [BARE_METAL, VM, HTTP_PROXY]), (''service.portal'', [BARE_METAL, VM, HTTP_PROXY]),
      (''bms.power'', [BARE_METAL, HTTP_PROXY]), (''bms.ipmi'', [BARE_METAL, HTTP_PROXY]),
      (''bms.kvm'', [BARE_METAL, HTTP_PROXY]), (''bms.sol'', [BARE_METAL, HTTP_PROXY]),
      (''bms.virtual_media'', [BARE_METAL, HTTP_PROXY]), (''bms.reinstall'', [BARE_METAL, HTTP_PROXY]),
      (''bms.run_script'', [BARE_METAL, HTTP_PROXY]),
      (''vm.power'', [VM]), (''vm.console'', [VM]), (''vm.reinstall'', [VM]), (''vm.backups'', [VM]),
      (''vm.change_password'', [VM]), (''vm.reset_network'', [VM]), (''vm.manage_ssh_keys'', [VM]),
      (''proxy.view_credentials'', [HTTP_PROXY]), (''proxy.rotate_credentials'', [HTTP_PROXY])]"

fun DEFAULT_PERMISSIONS_BY_SERVICE_TYPE :: "ServiceType \<Rightarrow> (string \<times> bool) list" where
  "DEFAULT_PERMISSIONS_BY_SERVICE_TYPE BARE_METAL =
     [(''service.view'', True), (''service.portal'', True), (''bms.power'', True), (''bms.ipmi'', True),
      (''bms.kvm'', True), (''bms.sol'', True), (''bms.virtual_media'', True), (''bms.reinstall'', False),
      (''bms.run_script'', False)]"
| "DEFAULT_PERMISSIONS_BY_SERVICE_TYPE VM =
     [(''service.view'', True), (''service.portal'', True), (''vm.power'', True), (''vm.console'', True),
      (''vm.reinstall'', False), (''vm.backups'', True), (''vm.change_password'', True),
      (''vm.reset_network'', False), (''vm.manage_ssh_keys'', True)]"
| "DEFAULT_PERMISSIONS_BY_SERVICE_TYPE HTTP_PROXY =
     [(''service.view'', True), (''service.portal'', True), (''bms.power'', False), (''bms.ipmi'', False),
      (''bms.kvm'', False), (''bms.sol'', False), (''bms.virtual_media'', False),
      (''proxy.view_credentials'', True), (''proxy.rotate_credentials'', False)]"

definition service_type_of :: "string \<Rightarrow> ServiceType option" where
  "service_type_of v =
     (if v = ''bare_metal'' then Some BARE_METAL else if v = ''vm'' then Some VM
      else if v = ''http_proxy'' then Some HTTP_PROXY else None)"

definition applicable :: "ServiceType \<Rightarrow> string list" where
  "applicable ty = map fst (filter (\<lambda>(k, tys). ty \<in> set tys) PERMISSION_CATALOG)"

definition product_permission_ceiling :: "catalog \<Rightarrow> product \<Rightarrow> (string \<times> bool) list" where
  "product_permission_ceiling c p =
     (case family_of c p of
        None \<Rightarrow> []
      | Some f \<Rightarrow>
          (case service_type_of (pf_service_type f) of
             None \<Rightarrow> []
           | Some ty \<Rightarrow>
               let keys = applicable ty;
                   c0 = map (\<lambda>k. (k, False)) keys;
                   c1 = dict_update c0 (filter (\<lambda>(k, _). k \<in> set keys) (DEFAULT_PERMISSIONS_BY_SERVICE_TYPE ty)) in
               case permission_set_of c p of
                 None \<Rightarrow> c1
               | Some ps \<Rightarrow> dict_update c1 (map (\<lambda>(k, v). (k, json_truthy v)) (filter (\<lambda>(k, _). k \<in> set keys) (ps_permissions ps)))))"

definition get_client_product_policy :: "catalog \<Rightarrow> int \<Rightarrow> int \<Rightarrow> client_policy option res" where
  "get_client_product_policy c reseller_id product_id =
     scalar_one_or_none (filter (\<lambda>x. cp_reseller_id x = reseller_id \<and> cp_product_id x = product_id) (client_policies c))"

definition client_product_is_visible :: "catalog \<Rightarrow> int \<Rightarrow> int \<Rightarrow> bool res" where
  "client_product_is_visible c reseller_id product_id =
     ebind (get_client_product_policy c reseller_id product_id) (\<lambda>policy.
     Inr (case policy of None \<Rightarrow> True | Some x \<Rightarrow> cp_visible x))"

definition effective_client_product_permissions :: "catalog \<Rightarrow> int \<Rightarrow> product \<Rightarrow> (string \<times> bool) list res" where
  "effective_client_product_permissions c reseller_id p =
     (let ceiling = product_permission_ceiling c p in
      ebind (get_client_product_policy c reseller_id (pd_id p)) (\<lambda>policy.
      Inr (case policy of
             None \<Rightarrow> ceiling
           | Some x \<Rightarrow> map (\<lambda>(k, v). (k, v \<and> (case map_of (cp_permissions x) k of None \<Rightarrow> v | Some w \<Rightarrow> json_truthy w))) ceiling)))"

text \<open>The columns of a service and of its owner that decide permissions.\<close>

record service_access =
  sa_service_id :: int
  sa_service_type :: ServiceType
  sa_product_code :: "string option"
  sa_owner_permission_set_id :: "int option"
  sa_permission_set_id :: "int option"
  sa_permission_overrides :: dict

definition merge :: "dict \<Rightarrow> dict \<Rightarrow> dict" where
  "merge base overlay = (if overlay = [] then base else dict_update base overlay)"

definition preset :: "catalog \<Rightarrow> int option \<Rightarrow> dict" where
  "preset c i = (case i of
     None \<Rightarrow> []
   | Some n \<Rightarrow> if n = 0 then [] else case List.find (\<lambda>x. ps_id x = n) (permission_sets c) of None \<Rightarrow> [] | Some x \<Rightarrow> ps_permissions x)"

definition product_preset :: "catalog \<Rightarrow> string option \<Rightarrow> dict" where
  "product_preset c code = (case code of
     None \<Rightarrow> []
   | Some s \<Rightarrow> if s = [] then [] else case get_by_code c s of None \<Rightarrow> [] | Some p \<Rightarrow> preset c (pd_permission_set_id p))"

definition resolve_client_permissions :: "catalog \<Rightarrow> service_access \<Rightarrow> dict" where
  "resolve_client_permissions c v =
     (let p1 = map (\<lambda>(k, b). (k, JBool b)) (DEFAULT_PERMISSIONS_BY_SERVICE_TYPE (sa_service_type v));
          p2 = merge p1 (product_preset c (sa_product_code v));
          p3 = merge p2 (preset c (sa_owner_permission_set_id v));
          p4 = merge p3 (preset c (sa_permission_set_id v)) in
      merge p4 (sa_permission_overrides v))"

definition has_client_permission :: "catalog \<Rightarrow> service_access \<Rightarrow> string \<Rightarrow> bool" where
  "has_client_permission c v key =
     (case map_of (resolve_client_permissions c v) key of None \<Rightarrow> False | Some x \<Rightarrow> json_truthy x)"

definition require_client_permission :: "catalog \<Rightarrow> service_access \<Rightarrow> string \<Rightarrow> unit res" where
  "require_client_permission c v key =
     raise_if (\<not> has_client_permission c v key) (HTTPException 403 ''Client permission is not granted for this service'')"

section \<open>Prices, access and quotas\<close>

record effective_price =
  ep_product_id :: int
  ep_setup_cents :: int
  ep_monthly_cents :: int
  ep_currency :: string
  ep_setup_source :: string
  ep_monthly_source :: string

definition effective_of :: "product_price \<Rightarrow> group_price option \<Rightarrow> int \<Rightarrow> effective_price" where
  "effective_of base override product_id =
     (let setup = (case override of None \<Rightarrow> None | Some g \<Rightarrow> gp_setup_cents g);
          monthly = (case override of None \<Rightarrow> None | Some g \<Rightarrow> gp_monthly_cents g) in
      \<lparr>ep_product_id = product_id,
       ep_setup_cents = (case setup of None \<Rightarrow> bp_setup_cents base | Some v \<Rightarrow> v),
       ep_monthly_cents = (case monthly of None \<Rightarrow> bp_monthly_cents base | Some v \<Rightarrow> v),
       ep_currency = bp_currency base,
       ep_setup_source = (if setup = None then ''base'' else ''group''),
       ep_monthly_source = (if monthly = None then ''base'' else ''group'')\<rparr>)"

definition get_effective_price :: "store \<Rightarrow> catalog \<Rightarrow> int \<Rightarrow> int \<Rightarrow> effective_price option res" where
  "get_effective_price s c reseller_id product_id =
     (case get_reseller s reseller_id of
        None \<Rightarrow> Inr None
      | Some r \<Rightarrow>
          ebind (scalar_one_or_none (filter (\<lambda>x. bp_product_id x = product_id) (product_prices c))) (\<lambda>base.
          case base of
            None \<Rightarrow> Inr None
          | Some b \<Rightarrow>
              ebind (case r_group_id r of
                       None \<Rightarrow> Inr None
                     | Some g \<Rightarrow> scalar_one_or_none (filter (\<lambda>x. gp_group_id x = g \<and> gp_product_id x = product_id) (group_prices c)))
                (\<lambda>override. Inr (Some (effective_of b override product_id)))))"

definition product_is_allowed :: "store \<Rightarrow> catalog \<Rightarrow> int \<Rightarrow> int \<Rightarrow> bool res" where
  "product_is_allowed s c reseller_id product_id =
     (case get_reseller s reseller_id of
        None \<Rightarrow> Inr False
      | Some r \<Rightarrow>
          ebind (scalar_one_or_none (filter (\<lambda>x. pa_reseller_id x = Some reseller_id \<and> pa_product_id x = product_id) (product_accesses c)))
            (\<lambda>own. case own of
               Some x \<Rightarrow> Inr (pa_allowed x)
             | None \<Rightarrow>
                 (case r_group_id r of
                    None \<Rightarrow> Inr False
                  | Some g \<Rightarrow>
                      ebind (scalar_one_or_none (filter (\<lambda>x. pa_group_id x = Some g \<and> pa_product_id x = product_id) (product_accesses c)))
                        (\<lambda>rule. Inr (case rule of None \<Rightarrow> False | Some x \<Rightarrow> pa_allowed x)))))"

definition get_effective_stock_quota :: "store \<Rightarrow> catalog \<Rightarrow> int \<Rightarrow> StockQuotaScope \<Rightarrow> int \<Rightarrow> stock_quota option res" where
  "get_effective_stock_quota s c reseller_id scope_type scope_id =
     (case get_reseller s reseller_id of
        None \<Rightarrow> Inr None
      | Some r \<Rightarrow>
          (let here = (\<lambda>x. sq_scope_type x = scope_type \<and> sq_scope_id x = scope_id \<and> sq_enabled x) in
           ebind (scalar_one_or_none (filter (\<lambda>x. sq_reseller_id x = Some reseller_id \<and> here x) (stock_quotas c))) (\<lambda>direct.
           case direct of
             Some x \<Rightarrow> Inr (Some x)
           | None \<Rightarrow>
               (case r_group_id r of
                  None \<Rightarrow> Inr None
                | Some g \<Rightarrow> scalar_one_or_none (filter (\<lambda>x. sq_group_id x = Some g \<and> here x) (stock_quotas c))))))"

section \<open>What a reseller may sell\<close>

definition resolve_sellable_product :: "store \<Rightarrow> catalog \<Rightarrow> int \<Rightarrow> string \<Rightarrow> (product \<times> effective_price) res" where
  "resolve_sellable_product s c reseller_id product_code =
     (case get_by_code c product_code of
        None \<Rightarrow> Inl (ProductNotAvailableError ''Product not found'')
      | Some p \<Rightarrow>
          if \<not> pd_enabled p \<or> (case family_of c p of None \<Rightarrow> True | Some f \<Rightarrow> \<not> pf_enabled f)
          then Inl (ProductNotAvailableError ''Product not found'')
          else
            ebind (product_is_allowed s c reseller_id (pd_id p)) (\<lambda>ok.
            if \<not> ok then Inl (ProductNotAvailableError ''Product not found'')
            else
              ebind (get_effective_price s c reseller_id (pd_id p)) (\<lambda>price.
              case price of
                None \<Rightarrow> Inl (ProductNotAvailableError ''Product has no effective price'')
              | Some x \<Rightarrow> Inr (p, x))))"

fun sellable_among :: "store \<Rightarrow> catalog \<Rightarrow> int \<Rightarrow> product list \<Rightarrow> (product \<times> effective_price) list res" where
  "sellable_among s c reseller_id [] = Inr []"
| "sellable_among s c reseller_id (p # ps) =
     (case resolve_sellable_product s c reseller_id (pd_code p) of
        Inl (ProductNotAvailableError _) \<Rightarrow> sellable_among s c reseller_id ps
      | Inl e \<Rightarrow> Inl e
      | Inr x \<Rightarrow> ebind (sellable_among s c reseller_id ps) (\<lambda>xs. Inr (x # xs)))"

definition list_sellable_products :: "store \<Rightarrow> catalog \<Rightarrow> int \<Rightarrow> (product \<times> effective_price) list res" where
  "list_sellable_products s c reseller_id = sellable_among s c reseller_id (get_all c)"

section \<open>Laws of dictionaries\<close>

lemma map_of_dict_update: "map_of (dict_update d e) = map_of d ++ map_of (rev e)"
proof (induction e arbitrary: d)
  case (Cons x e)
  obtain k v where x: "x = (k, v)" by (cases x)
  have "dict_update d (x # e) = dict_update (dict_set d k v) e" by (simp add: dict_update_def x)
  then show ?case using Cons.IH [of "dict_set d k v"] by (auto simp: x map_add_def fun_eq_iff split: option.split)
qed (simp add: dict_update_def)

lemma map_of_update_dict: "distinct (map fst e) \<Longrightarrow> map_of (dict_update d e) = map_of d ++ map_of e"
  using map_of_inject_set [of "rev e" e] by (simp add: map_of_dict_update rev_map [symmetric])

lemma map_of_merge: "distinct (map fst e) \<Longrightarrow> map_of (merge d e) = map_of d ++ map_of e"
  by (simp add: merge_def map_of_update_dict)

lemma keys_dict_update: "set (map fst (dict_update d e)) = set (map fst d) \<union> set (map fst e)"
  using arg_cong [OF map_of_dict_update [of d e], of dom] by (simp add: dom_map_of_conv_image_fst Un_commute)

lemma map_of_ceiling: "map_of (map (\<lambda>(k, v). (k, f k v)) d) k = map_option (f k) (map_of d k)"
  by (induction d) auto

section \<open>Client permissions\<close>

text \<open>The layers of a permission, from the most to the least specific; the first one that sets a key decides.\<close>

definition layers :: "catalog \<Rightarrow> service_access \<Rightarrow> dict list" where
  "layers c v = [sa_permission_overrides v, preset c (sa_permission_set_id v), preset c (sa_owner_permission_set_id v),
     product_preset c (sa_product_code v), map (\<lambda>(k, b). (k, JBool b)) (DEFAULT_PERMISSIONS_BY_SERVICE_TYPE (sa_service_type v))]"

fun first_set :: "dict list \<Rightarrow> string \<Rightarrow> json option" where
  "first_set [] k = None"
| "first_set (d # ds) k = (case map_of d k of Some x \<Rightarrow> Some x | None \<Rightarrow> first_set ds k)"

lemma first_set_add: "map_of d ++ map_of e = m \<Longrightarrow> (case map_of e k of Some x \<Rightarrow> Some x | None \<Rightarrow> map_of d k) = m k"
  by (auto simp: map_add_def split: option.splits)

lemma resolve_first_set:
  assumes "list_all (\<lambda>d. distinct (map fst d)) (layers c v)"
  shows "map_of (resolve_client_permissions c v) k = first_set (layers c v) k"
  using assms by (simp add: layers_def resolve_client_permissions_def Let_def map_of_merge map_add_def split: option.split)

text \<open>
  Permissions are decided by the most specific layer. Over dictionaries without repeated keys, a client holds a
  permission exactly when the first of the service's overrides, the service's preset, the owner's preset, the
  product's preset and the built-in defaults that sets the key sets it to a true value; if none does, it is not held.
\<close>

theorem permission_layers:
  assumes "list_all (\<lambda>d. distinct (map fst d)) (layers c v)"
  shows "has_client_permission c v k \<longleftrightarrow> (\<exists>x. first_set (layers c v) k = Some x \<and> json_truthy x)"
  using resolve_first_set [OF assms] by (auto simp: has_client_permission_def split: option.splits)

definition sample_catalog :: catalog where
  "sample_catalog = \<lparr>families = [\<lparr>pf_id = 1, pf_service_type = ''vm'', pf_defaults = [(''cpu_cores'', JInt 2)], pf_enabled = True\<rparr>],
     products = [\<lparr>pd_id = 1, pd_family_id = Some 1, pd_name = ''VM S'', pd_code = ''vm-s'', pd_overrides = [], pd_enabled = True, pd_permission_set_id = Some 1\<rparr>],
     permission_sets = [\<lparr>ps_id = 1, ps_permissions = [(''vm.power'', JBool True), (''vm.console'', JBool False)]\<rparr>,
       \<lparr>ps_id = 2, ps_permissions = [(''vm.console'', JBool True), (''vm.reinstall'', JBool True)]\<rparr>],
     family_vm_configs = [], product_vm_configs = [],
     product_prices = [\<lparr>bp_product_id = 1, bp_setup_cents = 100, bp_monthly_cents = 600, bp_currency = ''USD''\<rparr>],
     group_prices = [], product_accesses = [\<lparr>pa_reseller_id = Some 1, pa_group_id = None, pa_product_id = 1, pa_allowed = True\<rparr>],
     stock_quotas = [\<lparr>sq_reseller_id = Some 1, sq_group_id = None, sq_scope_type = PRODUCT, sq_scope_id = 1, sq_max_services = Some 1,
       sq_max_cpu_cores = None, sq_max_ram_mb = None, sq_max_disk_gb = None, sq_enabled = True\<rparr>],
     client_policies = []\<rparr>"

definition sample_access :: service_access where
  "sample_access = \<lparr>sa_service_id = 1, sa_service_type = VM, sa_product_code = Some ''vm-s'', sa_owner_permission_set_id = Some 2,
     sa_permission_set_id = None, sa_permission_overrides = [(''vm.power'', JBool False)]\<rparr>"

theorem permission_layers_witness:
  "\<not> has_client_permission sample_catalog sample_access ''vm.power'' \<and> has_client_permission sample_catalog sample_access ''vm.console'' \<and>
   has_client_permission sample_catalog sample_access ''vm.backups'' \<and> \<not> has_client_permission sample_catalog sample_access ''bms.power''"
proof -
  have "list_all (\<lambda>d. distinct (map fst d)) (layers sample_catalog sample_access)" by code_simp
  note p = permission_layers [OF this]
  have "first_set (layers sample_catalog sample_access) ''vm.power'' = Some (JBool False)" "first_set (layers sample_catalog sample_access) ''vm.console'' = Some (JBool True)"
    "first_set (layers sample_catalog sample_access) ''vm.backups'' = Some (JBool True)" "first_set (layers sample_catalog sample_access) ''bms.power'' = None"
    by code_simp+
  then show ?thesis by (simp add: p)
qed

section \<open>Sellable products\<close>

text \<open>The unique constraints of the tables.\<close>

definition catalog_ok :: "catalog \<Rightarrow> bool" where
  "catalog_ok c \<longleftrightarrow> distinct (map pd_code (products c)) \<and> distinct (map pd_id (products c)) \<and> distinct (map bp_product_id (product_prices c)) \<and>
     distinct (map (\<lambda>x. (gp_group_id x, gp_product_id x)) (group_prices c)) \<and>
     unique_on (\<lambda>x. map_option (\<lambda>r. (r, pa_product_id x)) (pa_reseller_id x)) (product_accesses c) \<and>
     unique_on (\<lambda>x. map_option (\<lambda>g. (g, pa_product_id x)) (pa_group_id x)) (product_accesses c) \<and>
     unique_on (\<lambda>x. map_option (\<lambda>r. (r, sq_scope_type x, sq_scope_id x)) (sq_reseller_id x)) (stock_quotas c) \<and>
     unique_on (\<lambda>x. map_option (\<lambda>g. (g, sq_scope_type x, sq_scope_id x)) (sq_group_id x)) (stock_quotas c) \<and>
     distinct (map (\<lambda>x. (cp_reseller_id x, cp_product_id x)) (client_policies c))"

lemma scalar_unique_by:
  assumes "unique_on key rs" "\<And>x. P x \<longleftrightarrow> key x = Some k"
  shows "scalar_one_or_none (filter P rs) = Inr (List.find P rs)"
proof -
  have "P = (\<lambda>x. key x = Some k)" using assms(2) by blast
  then show ?thesis using scalar_unique [OF assms(1), of k] by simp
qed

lemma scalar_distinct_by:
  assumes "distinct (map key rs)" "\<And>x. P x \<longleftrightarrow> key x = k"
  shows "scalar_one_or_none (filter P rs) = Inr (List.find P rs)"
proof -
  have "unique_on (\<lambda>x. Some (key x)) rs" using assms(1) by (simp add: unique_on_def comp_def)
  then show ?thesis by (rule scalar_unique_by [of _ _ _ k]) (simp add: assms(2))
qed

text \<open>The rule that applies to a reseller, and the price it pays.\<close>

definition sale_rule :: "catalog \<Rightarrow> reseller \<Rightarrow> int \<Rightarrow> bool option" where
  "sale_rule c r i =
     (case List.find (\<lambda>x. pa_reseller_id x = Some (r_id r) \<and> pa_product_id x = i) (product_accesses c) of
        Some x \<Rightarrow> Some (pa_allowed x)
      | None \<Rightarrow> (case r_group_id r of None \<Rightarrow> None
          | Some g \<Rightarrow> map_option pa_allowed (List.find (\<lambda>x. pa_group_id x = Some g \<and> pa_product_id x = i) (product_accesses c))))"

definition price_for :: "catalog \<Rightarrow> reseller \<Rightarrow> int \<Rightarrow> effective_price option" where
  "price_for c r i =
     map_option (\<lambda>b. effective_of b (case r_group_id r of None \<Rightarrow> None
         | Some g \<Rightarrow> List.find (\<lambda>x. gp_group_id x = g \<and> gp_product_id x = i) (group_prices c)) i)
       (List.find (\<lambda>x. bp_product_id x = i) (product_prices c))"

lemma product_is_allowed_rule:
  assumes "catalog_ok c" "get_reseller s i = Some r"
  shows "product_is_allowed s c i p = Inr (sale_rule c r p = Some True)"
proof -
  have r: "r_id r = i" using assms(2) by (auto simp: get_reseller_def dest: get_row_SomeD)
  have own: "scalar_one_or_none (filter (\<lambda>x. pa_reseller_id x = Some i \<and> pa_product_id x = p) (product_accesses c)) =
      Inr (List.find (\<lambda>x. pa_reseller_id x = Some i \<and> pa_product_id x = p) (product_accesses c))"
    using assms(1) by (intro scalar_unique_by [of _ _ _ "(i, p)"]) (auto simp: catalog_ok_def)
  have grp: "scalar_one_or_none (filter (\<lambda>x. pa_group_id x = Some g \<and> pa_product_id x = p) (product_accesses c)) =
      Inr (List.find (\<lambda>x. pa_group_id x = Some g \<and> pa_product_id x = p) (product_accesses c))" for g
    using assms(1) by (intro scalar_unique_by [where key = "\<lambda>x. map_option (\<lambda>g. (g, pa_product_id x)) (pa_group_id x)" and k = "(g, p)"]) (auto simp: catalog_ok_def)
  show ?thesis using assms(2) by (simp add: product_is_allowed_def sale_rule_def r own grp split: option.split)
qed

lemma get_effective_price_for:
  assumes "catalog_ok c" "get_reseller s i = Some r"
  shows "get_effective_price s c i p = Inr (price_for c r p)"
proof -
  have base: "scalar_one_or_none (filter (\<lambda>x. bp_product_id x = p) (product_prices c)) = Inr (List.find (\<lambda>x. bp_product_id x = p) (product_prices c))"
    using assms(1) by (intro scalar_distinct_by [of _ _ _ p]) (auto simp: catalog_ok_def)
  have grp: "scalar_one_or_none (filter (\<lambda>x. gp_group_id x = g \<and> gp_product_id x = p) (group_prices c)) =
      Inr (List.find (\<lambda>x. gp_group_id x = g \<and> gp_product_id x = p) (group_prices c))" for g
    using assms(1) by (intro scalar_distinct_by [of _ _ _ "(g, p)"]) (auto simp: catalog_ok_def)
  show ?thesis using assms(2) by (simp add: get_effective_price_def price_for_def base grp split: option.split)
qed

definition sellable :: "catalog \<Rightarrow> reseller \<Rightarrow> product \<Rightarrow> effective_price \<Rightarrow> bool" where
  "sellable c r p x \<longleftrightarrow> pd_enabled p \<and> (case family_of c p of None \<Rightarrow> False | Some f \<Rightarrow> pf_enabled f) \<and>
     sale_rule c r (pd_id p) = Some True \<and> price_for c r (pd_id p) = Some x"

lemma get_by_code_product: "catalog_ok c \<Longrightarrow> p \<in> set (products c) \<Longrightarrow> get_by_code c (pd_code p) = Some p"
proof -
  assume c: "catalog_ok c" and p: "p \<in> set (products c)"
  have "List.find (\<lambda>q. pd_code q = pd_code p) (products c) \<noteq> None" using p by (auto simp: find_None_iff)
  then obtain q where "List.find (\<lambda>q. pd_code q = pd_code p) (products c) = Some q" by blast
  moreover from this have "q \<in> set (products c)" "pd_code q = pd_code p" by (auto simp: find_Some_iff)
  ultimately show ?thesis using c p by (auto simp: get_by_code_def catalog_ok_def distinct_map dest: inj_onD)
qed

lemma resolve_sellable_Inr:
  assumes "catalog_ok c" "get_reseller s i = Some r"
  shows "resolve_sellable_product s c i code = Inr (p, x) \<longleftrightarrow> get_by_code c code = Some p \<and> sellable c r p x"
  unfolding resolve_sellable_product_def product_is_allowed_rule [OF assms] get_effective_price_for [OF assms]
  by (auto simp: sellable_def split: option.splits)

lemma resolve_sellable_Inl:
  assumes "catalog_ok c" "get_reseller s i = Some r" "resolve_sellable_product s c i code = Inl e"
  shows "\<exists>m. e = ProductNotAvailableError m"
  using assms(3) unfolding resolve_sellable_product_def product_is_allowed_rule [OF assms(1,2)] get_effective_price_for [OF assms(1,2)]
  by (auto split: option.splits if_splits)

lemma sellable_among_exact:
  assumes "catalog_ok c" "get_reseller s i = Some r" "set ps \<subseteq> set (products c)"
  shows "\<exists>xs. sellable_among s c i ps = Inr xs \<and> set xs = {(p, x). p \<in> set ps \<and> sellable c r p x} \<and> map fst xs = filter (\<lambda>p. \<exists>x. sellable c r p x) ps"
  using assms(3)
proof (induction ps)
  case (Cons p ps)
  then obtain xs where xs: "sellable_among s c i ps = Inr xs" "set xs = {(q, x). q \<in> set ps \<and> sellable c r q x}"
    "map fst xs = filter (\<lambda>p. \<exists>x. sellable c r p x) ps" by auto
  have g: "get_by_code c (pd_code p) = Some p" using Cons.prems get_by_code_product [OF assms(1)] by simp
  note res = resolve_sellable_Inr [OF assms(1,2), of "pd_code p"]
  show ?case
  proof (cases "resolve_sellable_product s c i (pd_code p)")
    case (Inl e)
    then obtain m where "e = ProductNotAvailableError m" using resolve_sellable_Inl [OF assms(1,2)] by blast
    moreover have "\<not> sellable c r p x" for x using res [of p x] g Inl by simp
    ultimately show ?thesis using xs Inl by auto
  next
    case (Inr y)
    obtain q x where y: "y = (q, x)" by fastforce
    have q: "q = p" "sellable c r p x" using res [of q x] g Inr y by simp_all
    have one: "sellable c r p x' \<longleftrightarrow> x' = x" for x' using q(2) by (auto simp: sellable_def)
    have "sellable_among s c i (p # ps) = Inr ((p, x) # xs)" using Inr y q(1) xs(1) by simp
    moreover have "set ((p, x) # xs) = {(q, x). q \<in> set (p # ps) \<and> sellable c r q x}" unfolding list.set(2) xs(2) using one by auto
    ultimately show ?thesis using xs(3) q(2) by (intro exI [of _ "(p, x) # xs"]) auto
  qed
qed simp

text \<open>
  A reseller sees exactly what it can order. Over tables that keep their unique constraints, the listing never fails and holds, once
  each, the enabled products of enabled families that the reseller's own access rule, or without one that of its
  group, allows and that have a base price; each comes with the price its order is charged, in which a group price
  replaces setup and monthly amounts one by one.
\<close>

theorem sellable_products_exact:
  assumes "catalog_ok c" "get_reseller s i = Some r"
  shows "\<exists>xs. list_sellable_products s c i = Inr xs \<and> distinct xs \<and>
    set xs = {(p, x). p \<in> set (products c) \<and> sellable c r p x} \<and>
    (\<forall>p x. (p, x) \<in> set xs \<longleftrightarrow> p \<in> set (products c) \<and> resolve_sellable_product s c i (pd_code p) = Inr (p, x))"
proof -
  obtain xs where xs: "list_sellable_products s c i = Inr xs" "set xs = {(p, x). p \<in> set (get_all c) \<and> sellable c r p x}"
    "map fst xs = filter (\<lambda>p. \<exists>x. sellable c r p x) (get_all c)"
    using sellable_among_exact [OF assms, of "get_all c"] by (auto simp: list_sellable_products_def get_all_def)
  have "distinct (get_all c)" using assms(1) by (auto simp: get_all_def catalog_ok_def distinct_map)
  then have "distinct (map fst xs)" unfolding xs(3) by simp
  then have "distinct xs" by (simp add: distinct_map)
  with xs show ?thesis using get_by_code_product [OF assms(1)] resolve_sellable_Inr [OF assms] by (auto simp: get_all_def)
qed

definition sample_shop :: store where
  "sample_shop = empty_store\<lparr>resellers := [sample_reseller 1 0]\<rparr>"

lemma sample_catalog_ok: "catalog_ok sample_catalog"
  by (simp add: catalog_ok_def sample_catalog_def unique_on_def)

theorem sellable_products_exact_witness:
  "\<exists>xs. list_sellable_products sample_shop sample_catalog 1 = Inr xs \<and> map (\<lambda>(p, x). (pd_code p, ep_monthly_cents x)) xs = [(''vm-s'', 600)] \<and> distinct xs"
proof -
  have g: "get_reseller sample_shop 1 = Some (sample_reseller 1 0)" by (simp add: sample_shop_def get_reseller_def sample_reseller_def)
  from sellable_products_exact [OF sample_catalog_ok g] obtain xs where xs: "list_sellable_products sample_shop sample_catalog 1 = Inr xs" "distinct xs"
    by blast
  have "(case list_sellable_products sample_shop sample_catalog 1 of Inl _ \<Rightarrow> [] | Inr xs \<Rightarrow> map (\<lambda>(p, x). (pd_code p, ep_monthly_cents x)) xs) = [(''vm-s'', 600)]"
    by code_simp
  with xs show ?thesis by simp
qed

end
