(* ===== verification/Clients.thy ===== *)
theory Clients
  imports Models
begin

text \<open>
  The client accounts of a reseller: \<open>ensure_client_user\<close> of \<open>app/services/reseller_billing_service.py\<close>
  with the queries of \<open>app/dao/user_dao.py\<close> and the unique columns of \<open>app/models/user.py\<close>. A client is found by the
  reseller's own id for it, or an account is created under a user name and an e-mail address nobody has. The SHA-256
  digest in generated names is a parameter; what is shown holds for any.
\<close>

section \<open>Rows and queries\<close>

record user =
  u_id :: int
  u_username :: string
  u_email :: string
  u_is_reseller :: bool
  u_reseller_id :: "int option"
  u_external_user_id :: "string option"
  u_external_username :: "string option"
  u_external_email :: "string option"

type_synonym 'a users_tx = "(exn \<times> user list) + ('a \<times> user list)"

definition get_by_username :: "user list \<Rightarrow> string \<Rightarrow> user option" where
  "get_by_username us name = List.find (\<lambda>u. u_username u = name) us"

definition get_by_email :: "user list \<Rightarrow> string \<Rightarrow> user option" where
  "get_by_email us email = List.find (\<lambda>u. u_email u = email) us"

definition get_by_reseller_identity :: "user list \<Rightarrow> int \<Rightarrow> string \<Rightarrow> user option" where
  "get_by_reseller_identity us reseller_id external_user_id =
     List.find (\<lambda>u. u_reseller_id u = Some reseller_id \<and> u_external_user_id u = Some external_user_id) us"

definition identity :: "user \<Rightarrow> (int \<times> string) option" where
  "identity u = (case (u_reseller_id u, u_external_user_id u) of (Some r, Some x) \<Rightarrow> Some (r, x) | _ \<Rightarrow> None)"

definition create_user :: "user list \<Rightarrow> user \<Rightarrow> user users_tx" where
  "create_user us u =
     (if u_username u \<in> u_username ` set us \<or> u_email u \<in> u_email ` set us \<or>
         (identity u \<noteq> None \<and> identity u \<in> identity ` set us)
      then Inl (IntegrityError, us) else Inr (u, us @ [u]))"

section \<open>Generated names\<close>

definition is_safe :: "char \<Rightarrow> bool" where
  "is_safe c = (let n = of_char c :: nat in is_alpha_char c \<or> (48 \<le> n \<and> n \<le> 57) \<or> c \<in> set ''_.-'')"

text \<open>\<open>_USERNAME_SAFE_RE.sub("-", hint)\<close>: each run of other characters becomes one dash.\<close>

function sub_unsafe :: "string \<Rightarrow> string" where
  "sub_unsafe [] = []"
| "sub_unsafe (c # cs) =
     (if is_safe c then c # sub_unsafe cs else CHR ''-'' # sub_unsafe (dropWhile (\<lambda>x. \<not> is_safe x) cs))"
  by pat_completeness auto

termination by (relation "measure length") (auto simp: length_dropWhile_le le_imp_less_Suc)

definition strip_marks :: "string \<Rightarrow> string" where
  "strip_marks s = (let m = (\<lambda>c. c \<in> set ''.-_'') in rev (dropWhile m (rev (dropWhile m s))))"

text \<open>
  The candidates of a search: the first name, then the numbered ones. The loop ends because numbered names
  differ and only finitely many are taken.
\<close>

definition numbered :: "string \<Rightarrow> string \<Rightarrow> string \<Rightarrow> nat \<Rightarrow> string" where
  "numbered name pre post n = (if n = 0 then name else pre @ ''-'' @ show_nat n @ post)"

lemma numbered_inj: "0 < m \<Longrightarrow> 0 < n \<Longrightarrow> numbered name pre post m = numbered name pre post n \<Longrightarrow> m = n"
  by (simp add: numbered_def)

lemma finite_taken_numbers: "finite {k. 0 < k \<and> numbered name pre post k \<in> set taken}"
proof -
  have "inj_on (numbered name pre post) {k. 0 < k \<and> numbered name pre post k \<in> set taken}"
    by (auto intro!: inj_onI dest: numbered_inj)
  moreover have "finite (numbered name pre post ` {k. 0 < k \<and> numbered name pre post k \<in> set taken})"
    by (rule finite_subset [of _ "set taken"]) auto
  ultimately show ?thesis by (rule finite_imageD [rotated])
qed

definition taken_from :: "string list \<Rightarrow> string \<Rightarrow> string \<Rightarrow> string \<Rightarrow> nat \<Rightarrow> nat set" where
  "taken_from taken name pre post n = {k. n \<le> k \<and> 0 < k \<and> numbered name pre post k \<in> set taken}"

lemma finite_taken_from: "finite (taken_from taken name pre post n)"
  by (rule finite_subset [OF _ finite_taken_numbers [of name pre post taken]]) (auto simp: taken_from_def)

function free_name :: "string list \<Rightarrow> string \<Rightarrow> string \<Rightarrow> string \<Rightarrow> nat \<Rightarrow> string" where
  "free_name taken name pre post n =
     (if numbered name pre post n \<in> set taken then free_name taken name pre post (Suc n) else numbered name pre post n)"
  by pat_completeness auto

termination
proof (relation "measure (\<lambda>(taken, name, pre, post, n). card (taken_from taken name pre post n) + (if n = 0 then 1 else 0))")
  fix taken :: "string list" and name pre post n
  assume t: "numbered name pre post n \<in> set taken"
  have sub: "taken_from taken name pre post (Suc n) \<subseteq> taken_from taken name pre post n" by (auto simp: taken_from_def)
  show "((taken, name, pre, post, Suc n), taken, name, pre, post, n) \<in>
      measure (\<lambda>(taken, name, pre, post, n). card (taken_from taken name pre post n) + (if n = 0 then 1 else 0))"
  proof (cases "n = 0")
    case True
    then show ?thesis using card_mono [OF finite_taken_from sub] by simp
  next
    case False
    then have "n \<in> taken_from taken name pre post n" "n \<notin> taken_from taken name pre post (Suc n)" using t by (auto simp: taken_from_def)
    then have "taken_from taken name pre post (Suc n) \<subset> taken_from taken name pre post n" using sub by blast
    then show ?thesis using psubset_card_mono [OF finite_taken_from] False by simp
  qed
qed auto

declare free_name.simps [simp del]

definition unique_client_username :: "user list \<Rightarrow> int \<Rightarrow> string \<Rightarrow> string option \<Rightarrow> string \<Rightarrow> string" where
  "unique_client_username us reseller_id external_user_id external_username digest =
     (let hint = (case external_username of Some n \<Rightarrow> if n = [] then ''client-'' @ external_user_id else n | None \<Rightarrow> ''client-'' @ external_user_id);
          stripped = strip_marks (sub_unsafe hint);
          safe_hint = (if stripped = [] then ''client'' else stripped);
          base = take 220 (''rf-r'' @ show_int reseller_id @ ''-'' @ safe_hint);
          root = (if get_by_username us base = None then base else take 207 base @ ''-'' @ digest) in
      free_name (map u_username us) root (take 240 root) [] 0)"

definition client_domain :: string where "client_domain = ''@clients.rackflow.local''"

definition unique_client_email :: "user list \<Rightarrow> int \<Rightarrow> string option \<Rightarrow> string \<Rightarrow> string" where
  "unique_client_email us reseller_id external_email digest =
     (let requested = lower (strip (case external_email of None \<Rightarrow> [] | Some e \<Rightarrow> e)) in
      if requested \<noteq> [] \<and> get_by_email us requested = None then requested
      else let root = ''r'' @ show_int reseller_id @ ''-'' @ digest in
        free_name (map u_email us) (root @ client_domain) root client_domain 0)"

section \<open>Finding or creating the client\<close>

definition refreshed :: "user \<Rightarrow> string option \<Rightarrow> string option \<Rightarrow> user" where
  "refreshed u external_username external_email = u\<lparr>
     u_external_username := (if external_username \<noteq> None \<and> external_username \<noteq> Some [] then external_username else u_external_username u),
     u_external_email := (if external_email \<noteq> None \<and> external_email \<noteq> Some [] then external_email else u_external_email u)\<rparr>"

definition refresh_existing_client :: "user list \<Rightarrow> user \<Rightarrow> string option \<Rightarrow> string option \<Rightarrow> user users_tx" where
  "refresh_existing_client us u external_username external_email =
     (let v = refreshed u external_username external_email in Inr (v, put_row u_id v us))"

definition new_client ::
  "(string \<Rightarrow> string) \<Rightarrow> user list \<Rightarrow> int \<Rightarrow> string \<Rightarrow> string option \<Rightarrow> string option \<Rightarrow> user" where
  "new_client sha256 us reseller_id x external_username external_email =
     (let digest = take 12 (sha256 (show_int reseller_id @ '':'' @ x)) in
      \<lparr>u_id = fresh_id u_id us, u_username = unique_client_username us reseller_id x external_username digest,
       u_email = unique_client_email us reseller_id external_email digest, u_is_reseller = False,
       u_reseller_id = Some reseller_id, u_external_user_id = Some x,
       u_external_username = external_username, u_external_email = external_email\<rparr>)"

definition ensure_client_user ::
  "(string \<Rightarrow> string) \<Rightarrow> user list \<Rightarrow> reseller \<Rightarrow> string \<Rightarrow> string option \<Rightarrow> string option \<Rightarrow> user users_tx" where
  "ensure_client_user sha256 us r external_user_id external_username external_email =
     (let x = strip external_user_id in
      if x = [] then Inl (ResellerBillingError ''external_user_id is required'', us)
      else case get_by_reseller_identity us (r_id r) x of
        Some u \<Rightarrow>
          if u_id u = r_user_id r \<or> u_is_reseller u
          then Inl (ResellerBillingError ''Reseller account cannot own deployed services'', us)
          else refresh_existing_client us u external_username external_email
      | None \<Rightarrow>
          ebind (create_user us (new_client sha256 us (r_id r) x external_username external_email)) (\<lambda>(u, us1).
          if u_id u = r_user_id r \<or> u_is_reseller u
          then Inl (ResellerBillingError ''Reseller account cannot own deployed services'', us1)
          else Inr (u, us1)))"

section \<open>Generated names are free\<close>

lemma free_name_fresh: "free_name taken name pre post n \<notin> set taken"
  by (induction taken name pre post n rule: free_name.induct) (metis free_name.simps)

lemma free_name_numbered:
  "\<exists>k. free_name taken name pre post n = numbered name pre post k \<and> n \<le> k \<and> (\<forall>j. n \<le> j \<and> j < k \<longrightarrow> numbered name pre post j \<in> set taken)"
proof (induction taken name pre post n rule: free_name.induct)
  case (1 taken name pre post n)
  show ?case
  proof (cases "numbered name pre post n \<in> set taken")
    case True
    with "1" obtain k where k: "free_name taken name pre post (Suc n) = numbered name pre post k" "Suc n \<le> k"
      "\<forall>j. Suc n \<le> j \<and> j < k \<longrightarrow> numbered name pre post j \<in> set taken" by blast
    moreover have "j = n \<or> Suc n \<le> j" if "n \<le> j" for j using that by linarith
    ultimately show ?thesis using True by (intro exI [of _ k]) (auto simp: free_name.simps [of taken name pre post n])
  next
    case False
    then show ?thesis by (intro exI [of _ n]) (auto simp: free_name.simps [of taken name pre post n])
  qed
qed

text \<open>The number in a generated name is at most the number of names taken.\<close>

lemma free_name_bound:
  "\<exists>k \<le> Suc (length taken). free_name taken name pre post 0 = numbered name pre post k"
proof -
  obtain k where k: "free_name taken name pre post 0 = numbered name pre post k" "\<forall>j. j < k \<longrightarrow> numbered name pre post j \<in> set taken"
    using free_name_numbered [of taken name pre post 0] by auto
  have "numbered name pre post ` {0<..<k} \<subseteq> set taken" using k(2) by auto
  then have "card (numbered name pre post ` {0<..<k}) \<le> length taken" by (meson List.finite_set card_length card_mono le_trans)
  moreover have "inj_on (numbered name pre post) {0<..<k}" by (auto intro!: inj_onI dest: numbered_inj)
  ultimately have "k - 1 \<le> length taken" by (simp add: card_image)
  with k(1) show ?thesis by (intro exI [of _ k]) simp
qed

lemma show_nat_digits_le: "n < 10 ^ d \<Longrightarrow> 0 < d \<Longrightarrow> length (show_nat n) \<le> d"
proof (induction d arbitrary: n)
  case (Suc d)
  show ?case
  proof (cases "n < 10")
    case False
    then have "0 < d" using Suc.prems(1) by (cases d) auto
    moreover have "n div 10 < 10 ^ d" using Suc.prems(1) by (simp add: less_mult_imp_div_less mult.commute)
    ultimately show ?thesis using Suc.IH [of "n div 10"] False by (simp add: show_nat.simps [of n])
  qed (simp add: show_nat.simps [of n])
qed simp

text \<open>
  Generated user names fit their column. With a digest of at most twelve characters, a generated user name is not taken and has at most
  255 characters, as long as there are fewer than a quadrillion accounts.
\<close>

theorem client_username_fits:
  assumes "length digest \<le> 12" "length us < 10 ^ 15"
  shows "unique_client_username us rid x n digest \<notin> u_username ` set us \<and> length (unique_client_username us rid x n digest) \<le> 255"
proof -
  define base where "base = take 220 (''rf-r'' @ show_int rid @ ''-'' @ (let stripped = strip_marks (sub_unsafe
    (case n of Some n \<Rightarrow> if n = [] then ''client-'' @ x else n | None \<Rightarrow> ''client-'' @ x)) in if stripped = [] then ''client'' else stripped))"
  define root where "root = (if get_by_username us base = None then base else take 207 base @ ''-'' @ digest)"
  have "length base \<le> 220" unfolding base_def length_take by (rule min.cobounded2)
  then have root: "length root \<le> 220" using assms(1) by (simp add: root_def min_def)
  have u: "unique_client_username us rid x n digest = free_name (map u_username us) root (take 240 root) [] 0"
    by (simp add: unique_client_username_def root_def base_def Let_def)
  obtain k where k: "k \<le> Suc (length us)" "free_name (map u_username us) root (take 240 root) [] 0 = numbered root (take 240 root) [] k"
    using free_name_bound [of "map u_username us" root "take 240 root" "[]"] by auto
  have "k < 10 ^ 16" using k(1) assms(2) by simp
  then have "length (show_nat k) \<le> 16" using show_nat_digits_le [of k 16] by simp
  then have "length (numbered root (take 240 root) [] k) \<le> 255" using root by (simp add: numbered_def)
  then show ?thesis using free_name_fresh [of "map u_username us" root "take 240 root" "[]" 0] by (simp add: u k(2))
qed

section \<open>One account per client\<close>

definition users_ok :: "user list \<Rightarrow> bool" where
  "users_ok us \<longleftrightarrow> distinct (map u_id us) \<and> distinct (map u_username us) \<and> distinct (map u_email us) \<and> unique_on identity us"

lemma identity_Some: "identity u = Some (r, x) \<longleftrightarrow> u_reseller_id u = Some r \<and> u_external_user_id u = Some x"
  by (auto simp: identity_def split: option.splits)

lemma get_by_identity: "get_by_reseller_identity us r x = List.find (\<lambda>u. identity u = Some (r, x)) us"
  by (simp add: get_by_reseller_identity_def identity_Some)

lemma client_email_fresh: "unique_client_email us rid e digest \<notin> u_email ` set us"
  using free_name_fresh [of "map u_email us"]
  by (auto simp: unique_client_email_def Let_def get_by_email_def find_None_iff)

lemma client_username_fresh: "unique_client_username us rid x n digest \<notin> u_username ` set us"
  using free_name_fresh [of "map u_username us"] by (auto simp: unique_client_username_def Let_def)

lemma refreshed_fields [simp]:
  "u_id (refreshed u n e) = u_id u" "u_username (refreshed u n e) = u_username u" "u_email (refreshed u n e) = u_email u"
  "u_is_reseller (refreshed u n e) = u_is_reseller u" "identity (refreshed u n e) = identity u"
  "refreshed (refreshed u n e) n e = refreshed u n e"
  by (simp_all add: refreshed_def identity_def)

lemma users_ok_member:
  "users_ok us \<Longrightarrow> u \<in> set us \<Longrightarrow> identity u = Some (r, x) \<Longrightarrow> get_by_reseller_identity us r x = Some u"
  unfolding get_by_identity users_ok_def using scalar_unique [of identity us "(r, x)"] unique_on_filter_single [of identity us u "(r, x)"] by simp

lemma put_row_map: "distinct (map rid xs) \<Longrightarrow> x \<in> set xs \<Longrightarrow> rid v = rid x \<Longrightarrow> f v = f x \<Longrightarrow> map f (put_row rid v xs) = map f xs"
  by (auto simp: put_row_def distinct_map dest: inj_onD)

lemma users_ok_put:
  assumes "users_ok us" "u \<in> set us" "u_id v = u_id u" "u_username v = u_username u" "u_email v = u_email u" "identity v = identity u"
  shows "users_ok (put_row u_id v us)"
proof -
  have d: "distinct (map u_id us)" using assms(1) by (simp add: users_ok_def)
  note m = put_row_map [OF d assms(2,3)]
  show ?thesis using assms(1) by (simp only: users_ok_def unique_on_def m [OF assms(3)] m [OF assms(4)] m [OF assms(5)] m [OF assms(6)])
qed

lemma put_row_mem: "x \<in> set xs \<Longrightarrow> rid v = rid x \<Longrightarrow> v \<in> set (put_row rid v xs)"
  by (auto simp: put_row_def)

lemma put_row_again: "put_row rid v (put_row rid v xs) = put_row rid v xs"
  by (auto simp: put_row_def)

lemma find_SomeD: "List.find P xs = Some u \<Longrightarrow> u \<in> set xs \<and> P u"
  by (auto simp: find_Some_iff)

definition client_of :: "user list \<Rightarrow> reseller \<Rightarrow> string \<Rightarrow> user \<Rightarrow> bool" where
  "client_of us r x u \<longleftrightarrow> u \<in> set us \<and> identity u = Some (r_id r, strip x) \<and> \<not> u_is_reseller u \<and> u_id u \<noteq> r_user_id r"

lemma ensure_existing:
  assumes "users_ok us" "client_of us r x u" "strip x \<noteq> []"
  shows "ensure_client_user sha us r x n e = Inr (refreshed u n e, put_row u_id (refreshed u n e) us)"
  using assms users_ok_member [of us u "r_id r" "strip x"]
  by (simp add: client_of_def ensure_client_user_def refresh_existing_client_def Let_def)

lemma new_client_fields:
  "u_id (new_client sha us i x n e) = fresh_id u_id us" "identity (new_client sha us i x n e) = Some (i, x)"
  "\<not> u_is_reseller (new_client sha us i x n e)" "refreshed (new_client sha us i x n e) n e = new_client sha us i x n e"
  "u_username (new_client sha us i x n e) \<notin> u_username ` set us" "u_email (new_client sha us i x n e) \<notin> u_email ` set us"
  using client_username_fresh client_email_fresh by (auto simp: new_client_def Let_def identity_def refreshed_def)

lemma ensure_new:
  assumes ok: "users_ok us" and none: "\<forall>u \<in> set us. identity u \<noteq> Some (r_id r, strip x)" and x: "strip x \<noteq> []" and r: "r_user_id r \<in> u_id ` set us"
    and "u = new_client sha us (r_id r) (strip x) n e"
  shows "ensure_client_user sha us r x n e = Inr (u, us @ [u])" "users_ok (us @ [u])" "client_of (us @ [u]) r x u"
proof -
  note u_def = assms(5)
  note f = new_client_fields [of sha us "r_id r" "strip x" n e, folded u_def]
  have id: "u_id u \<noteq> r_user_id r" "u_id u \<notin> u_id ` set us" using r fresh_id_notin [of u_id us] f(1) by auto
  have "get_by_reseller_identity us (r_id r) (strip x) = None" using none by (simp add: get_by_identity find_None_iff)
  moreover have "create_user us u = Inr (u, us @ [u])" using f none by (force simp: create_user_def)
  ultimately show "ensure_client_user sha us r x n e = Inr (u, us @ [u])" using x f(3) id(1) by (simp add: ensure_client_user_def u_def [symmetric] Let_def)
  show "users_ok (us @ [u])" using ok f(2,5,6) id(2) none by (auto simp: users_ok_def unique_on_snoc)
  show "client_of (us @ [u]) r x u" using f id(1) by (simp add: client_of_def)
qed

text \<open>
  One account per client. While user names, addresses and identities are unique and the reseller has an account, asking for
  a client either fails without a change, because the id is blank or names a reseller account, or returns the account with that
  identity: uniqueness is kept, no other account changes, and asking again returns the same account and changes nothing.
\<close>

theorem client_account_exact:
  assumes "users_ok us" "r_user_id r \<in> u_id ` set us"
  shows "case ensure_client_user sha us r x n e of
      Inl (ex, us') \<Rightarrow> us' = us \<and> (strip x = [] \<or> (\<exists>u \<in> set us. identity u = Some (r_id r, strip x) \<and> (u_id u = r_user_id r \<or> u_is_reseller u)))
    | Inr (u, us') \<Rightarrow> users_ok us' \<and> client_of us' r x u \<and> (\<forall>v \<in> set us. u_id v \<noteq> u_id u \<longrightarrow> v \<in> set us') \<and>
        ensure_client_user sha us' r x n e = Inr (u, us')"
proof (cases "strip x = []")
  case True
  then show ?thesis by (simp add: ensure_client_user_def Let_def)
next
  case x: False
  show ?thesis
  proof (cases "\<exists>u \<in> set us. identity u = Some (r_id r, strip x)")
    case True
    then obtain u where u: "u \<in> set us" "identity u = Some (r_id r, strip x)" by blast
    show ?thesis
    proof (cases "u_id u = r_user_id r \<or> u_is_reseller u")
      case True
      then show ?thesis using u x users_ok_member [OF assms(1) u] by (auto simp: ensure_client_user_def Let_def)
    next
      case False
      let ?v = "refreshed u n e" and ?us = "put_row u_id (refreshed u n e) us"
      have c: "client_of us r x u" using u False by (simp add: client_of_def)
      have ok: "users_ok ?us" using users_ok_put [OF assms(1) u(1)] by simp
      have cv: "client_of ?us r x ?v" using u False put_row_mem [OF u(1), of u_id ?v] by (simp add: client_of_def)
      have "v \<in> set ?us" if "v \<in> set us" "u_id v \<noteq> u_id u" for v using that by (force simp: put_row_def)
      then show ?thesis using ensure_existing [OF assms(1) c x, of sha n e] ensure_existing [OF ok cv x, of sha n e] ok cv by (simp add: put_row_again)
    qed
  next
    case False
    note new = ensure_new [OF assms(1) _ x assms(2) refl, of sha n e]
    let ?u = "new_client sha us (r_id r) (strip x) n e"
    have n: "ensure_client_user sha us r x n e = Inr (?u, us @ [?u])" "users_ok (us @ [?u])" "client_of (us @ [?u]) r x ?u" using False by (auto intro!: new)
    have "u_id ?u \<notin> u_id ` set us" using new_client_fields(1) [of sha us "r_id r" "strip x" n e] fresh_id_notin [of u_id us] by simp
    then have "(if u_id v = u_id ?u then ?u else v) = v" if "v \<in> set us" for v using that by (metis imageI)
    then have p: "put_row u_id ?u (us @ [?u]) = us @ [?u]" by (simp add: put_row_def map_idI)
    show ?thesis using n ensure_existing [OF n(2,3) x, of sha n e] by (simp add: new_client_fields(4) p)
  qed
qed

definition sample_users :: "user list" where
  "sample_users = [\<lparr>u_id = 101, u_username = ''rf-r1-joe-doe'', u_email = ''joe@example.com'', u_is_reseller = True, u_reseller_id = None,
     u_external_user_id = None, u_external_username = None, u_external_email = None\<rparr>]"

lemma sample_users_ok: "users_ok sample_users"
  by (simp add: users_ok_def sample_users_def unique_on_def identity_def)

theorem client_username_fits_witness:
  "unique_client_username sample_users 1 ''7'' (Some ''joe doe!'') ''abcdef012345'' \<notin> u_username ` set sample_users \<and>
   length (unique_client_username sample_users 1 ''7'' (Some ''joe doe!'') ''abcdef012345'') \<le> 255 \<and>
   unique_client_username sample_users 1 ''7'' (Some ''joe doe!'') ''abcdef012345'' = ''rf-r1-joe-doe-abcdef012345''"
proof -
  have "unique_client_username sample_users 1 ''7'' (Some ''joe doe!'') ''abcdef012345'' = ''rf-r1-joe-doe-abcdef012345''" by code_simp
  then show ?thesis using client_username_fits [of "''abcdef012345''" sample_users 1 "''7''" "Some ''joe doe!''"] by (simp add: sample_users_def)
qed

theorem client_account_exact_witness:
  "\<exists>u us. ensure_client_user (\<lambda>_. ''abcdef0123456789'') sample_users (sample_reseller 1 0) ''7'' (Some ''joe doe!'') None = Inr (u, us) \<and>
     u_username u = ''rf-r1-joe-doe-abcdef012345'' \<and> users_ok us \<and>
     ensure_client_user (\<lambda>_. ''abcdef0123456789'') us (sample_reseller 1 0) ''7'' (Some ''joe doe!'') None = Inr (u, us)"
proof -
  define m where "m = ensure_client_user (\<lambda>_. ''abcdef0123456789'') sample_users (sample_reseller 1 0) ''7'' (Some ''joe doe!'') None"
  have "(case m of Inl _ \<Rightarrow> None | Inr (u, us) \<Rightarrow> Some (u_username u)) = Some ''rf-r1-joe-doe-abcdef012345''" unfolding m_def by code_simp
  then obtain u us where m: "m = Inr (u, us)" "u_username u = ''rf-r1-joe-doe-abcdef012345''" by (auto split: sum.splits)
  have "r_user_id (sample_reseller 1 0) \<in> u_id ` set sample_users" by (simp add: sample_reseller_def sample_users_def)
  note a = client_account_exact [OF sample_users_ok this, where sha = "\<lambda>_. ''abcdef0123456789''" and x = "''7''" and n = "Some ''joe doe!''" and e = None, folded m_def]
  have "users_ok us \<and> ensure_client_user (\<lambda>_. ''abcdef0123456789'') us (sample_reseller 1 0) ''7'' (Some ''joe doe!'') None = Inr (u, us)"
    using a unfolding m(1) sum.case prod.case by (elim conjE) (intro conjI)
  with m show ?thesis unfolding m_def by (intro exI [of _ u] exI [of _ us] conjI) (simp_all only: simp_thms)
qed

end
