(* ===== verification/Deploy.thy ===== *)
theory Deploy
  imports Payments Catalog Clients
begin

text \<open>
  Deployment of a service by a reseller: quotas, the deploy charge with its idempotency key, its completion and its
  compensation (\<open>app/services/reseller_billing_service.py\<close>), and the handler that puts them together
  (\<open>_create_service\<close> of \<open>app/api/reseller.py\<close>). Provisioning itself, the clean-up of a half-made
  service and the hash of a request are parameters. \<open>now\<close> is the clock reading of the request. An
  operation that raises returns what is committed by then.
\<close>

section \<open>Quotas\<close>

fun int_value :: "dict \<Rightarrow> string list \<Rightarrow> int" where
  "int_value specs [] = 0"
| "int_value specs (k # ks) =
     (case map_of specs k of
        None \<Rightarrow> int_value specs ks
      | Some v \<Rightarrow> if v = JNull \<or> v = JStr [] then int_value specs ks
          else (case py_int v of Inl _ \<Rightarrow> 0 | Inr i \<Rightarrow> max 0 i))"

definition resource_values :: "dict \<Rightarrow> int \<times> int \<times> int" where
  "resource_values specs =
     (let cpu = int_value specs [''cpu_cores'', ''cpu_count'', ''cores''];
          ram_mb = int_value specs [''ram_mb'', ''memory_mb''];
          ram = (if ram_mb = 0 then int_value specs [''ram_gb'', ''memory_gb''] * 1024 else ram_mb);
          disk = int_value specs [''disk_gb'', ''storage_gb'', ''disk_size_gb''] in
      (cpu, ram, disk))"

definition effective_specs :: "catalog \<Rightarrow> product \<Rightarrow> dict" where
  "effective_specs c p =
     (let specs = resolve_effective_config c p in
      if specs \<noteq> [] then specs
      else dict_update (case family_of c p of None \<Rightarrow> [] | Some f \<Rightarrow> pf_defaults f) (pd_overrides p))"

definition billing_matches_scope :: "store \<Rightarrow> service_billing \<Rightarrow> StockQuotaScope \<Rightarrow> int \<Rightarrow> bool" where
  "billing_matches_scope s b scope_type scope_id =
     (if scope_type = PRODUCT then sb_product_id b = Some scope_id
      else case get_service s (sb_service_id b) of
        None \<Rightarrow> False
      | Some v \<Rightarrow>
          (case scope_type of
             SERVER_GROUP \<Rightarrow>
               (case map_of (svc_config v) ''server_group_id'' of
                  None \<Rightarrow> False
                | Some x \<Rightarrow> (case py_int x of Inl _ \<Rightarrow> False | Inr i \<Rightarrow> i = scope_id))
           | PROXMOX_CLUSTER \<Rightarrow>
               (case svc_vm v of None \<Rightarrow> False | Some vm \<Rightarrow> vm_cluster_id vm = Some scope_id)
           | PRODUCT \<Rightarrow> False))"

definition quota_scopes :: "int \<Rightarrow> json option \<Rightarrow> int option \<Rightarrow> (StockQuotaScope \<times> int) list res" where
  "quota_scopes product_id server_group_id proxmox_cluster_id =
     ebind (case server_group_id of
              None \<Rightarrow> Inr []
            | Some x \<Rightarrow> if x = JNull then Inr [] else ebind (py_int x) (\<lambda>i. Inr [(SERVER_GROUP, i)])) (\<lambda>groups.
     Inr ((PRODUCT, product_id) # groups @
       (case proxmox_cluster_id of None \<Rightarrow> [] | Some i \<Rightarrow> [(PROXMOX_CLUSTER, i)])))"

fun quotas_of :: "store \<Rightarrow> catalog \<Rightarrow> int \<Rightarrow> (StockQuotaScope \<times> int) list \<Rightarrow> stock_quota list res" where
  "quotas_of s c reseller_id [] = Inr []"
| "quotas_of s c reseller_id ((ty, i) # scopes) =
     ebind (get_effective_stock_quota s c reseller_id ty i) (\<lambda>q.
     ebind (quotas_of s c reseller_id scopes) (\<lambda>qs.
     Inr (case q of None \<Rightarrow> qs | Some x \<Rightarrow> x # qs)))"

definition locked_quotas :: "store \<Rightarrow> catalog \<Rightarrow> int \<Rightarrow> (StockQuotaScope \<times> int) list \<Rightarrow> stock_quota list res" where
  "locked_quotas s c reseller_id scopes =
     ebind (quotas_of s c reseller_id scopes) (\<lambda>qs. if qs = [] then Inl QuotaNotAllocatedError else Inr qs)"

definition billing_specs :: "store \<Rightarrow> service_billing \<Rightarrow> dict res" where
  "billing_specs s b =
     (case get_service s (sb_service_id b) of
        None \<Rightarrow> Inr []
      | Some v \<Rightarrow>
          (case map_of (svc_product_snapshot v) ''effective_specs'' of
             None \<Rightarrow> Inr []
           | Some (JObj d) \<Rightarrow> Inr d
           | Some _ \<Rightarrow> Inl (AttributeError ''get'')))"

fun used_resources :: "store \<Rightarrow> service_billing list \<Rightarrow> (int \<times> int \<times> int) res" where
  "used_resources s [] = Inr (0, 0, 0)"
| "used_resources s (b # bs) =
     ebind (billing_specs s b) (\<lambda>specs.
     ebind (used_resources s bs) (\<lambda>(cpu, ram, disk).
     case resource_values specs of (x, y, z) \<Rightarrow> Inr (x + cpu, y + ram, z + disk)))"

definition over :: "int option \<Rightarrow> int \<Rightarrow> bool" where
  "over limit amount = (case limit of None \<Rightarrow> False | Some n \<Rightarrow> n < amount)"

definition enforce_quota :: "store \<Rightarrow> stock_quota \<Rightarrow> service_billing list \<Rightarrow> int \<times> int \<times> int \<Rightarrow> unit res" where
  "enforce_quota s q matching requested =
     (if over (sq_max_services q) (int (length matching) + 1) then Inl (QuotaExceededError ''Service-count quota exceeded'')
      else
        ebind (used_resources s matching) (\<lambda>(cpu, ram, disk).
        case requested of (x, y, z) \<Rightarrow>
          if over (sq_max_cpu_cores q) (cpu + x) then Inl (QuotaExceededError ''CPU quota exceeded'')
          else if over (sq_max_ram_mb q) (ram + y) then Inl (QuotaExceededError ''RAM quota exceeded'')
          else if over (sq_max_disk_gb q) (disk + z) then Inl (QuotaExceededError ''disk quota exceeded'')
          else Inr ()))"

definition list_service_billings :: "store \<Rightarrow> int \<Rightarrow> ServiceBillingStatus list \<Rightarrow> service_billing list" where
  "list_service_billings s reseller_id statuses =
     sort_key sb_service_id (filter (\<lambda>b. sb_reseller_id b = Some reseller_id \<and>
       (statuses = [] \<or> sb_status b \<in> set statuses)) (service_billings s))"

definition counted_statuses :: "ServiceBillingStatus list" where
  "counted_statuses = [SB_ACTIVE, SB_PAST_DUE, SB_GRACE, SUSPENDED_NONPAYMENT]"

definition scope_billings :: "store \<Rightarrow> int \<Rightarrow> StockQuotaScope \<Rightarrow> int \<Rightarrow> service_billing list" where
  "scope_billings s reseller_id scope_type scope_id =
     filter (\<lambda>b. billing_matches_scope s b scope_type scope_id) (list_service_billings s reseller_id counted_statuses)"

fun enforce_each :: "store \<Rightarrow> int \<Rightarrow> int \<times> int \<times> int \<Rightarrow> stock_quota list \<Rightarrow> unit res" where
  "enforce_each s reseller_id requested [] = Inr ()"
| "enforce_each s reseller_id requested (q # qs) =
     ebind (enforce_quota s q (scope_billings s reseller_id (sq_scope_type q) (sq_scope_id q)) requested) (\<lambda>_.
     enforce_each s reseller_id requested qs)"

definition enforce_quotas :: "store \<Rightarrow> catalog \<Rightarrow> int \<Rightarrow> product \<Rightarrow> json option \<Rightarrow> int option \<Rightarrow> unit res" where
  "enforce_quotas s c reseller_id p server_group_id proxmox_cluster_id =
     (case get_reseller s reseller_id of
        None \<Rightarrow> Inl (ResellerBillingError ''Reseller not found'')
      | Some _ \<Rightarrow>
          ebind (quota_scopes (pd_id p) server_group_id proxmox_cluster_id) (\<lambda>scopes.
          ebind (locked_quotas s c reseller_id scopes) (\<lambda>quotas.
          enforce_each s reseller_id (resource_values (effective_specs c p)) quotas)))"

section \<open>The idempotency key\<close>

definition get_provisioning_request :: "store \<Rightarrow> int \<Rightarrow> string \<Rightarrow> provisioning_request option res" where
  "get_provisioning_request s reseller_id k =
     scalar_one_or_none (filter (\<lambda>q. pr_reseller_id q = reseller_id \<and> pr_idempotency_key q = k) (provisioning_requests s))"

definition request_invoice :: "store \<Rightarrow> provisioning_request \<Rightarrow> invoice option" where
  "request_invoice s q = (case pr_invoice_id q of None \<Rightarrow> None | Some i \<Rightarrow> get_invoice s i)"

definition request_service :: "store \<Rightarrow> provisioning_request \<Rightarrow> service option" where
  "request_service s q = (case pr_service_id q of None \<Rightarrow> None | Some i \<Rightarrow> get_service s i)"

definition present :: "string option \<Rightarrow> bool" where
  "present k \<longleftrightarrow> k \<noteq> None \<and> k \<noteq> Some []"

definition lookup_idempotent_result ::
  "store \<Rightarrow> reseller \<Rightarrow> string option \<Rightarrow> string \<Rightarrow> (int \<times> int) option res" where
  "lookup_idempotent_result s r idempotency_key request_hash =
     (if \<not> present idempotency_key then Inr None
      else ebind (get_provisioning_request s (r_id r) (the idempotency_key)) (\<lambda>found.
      case found of
        None \<Rightarrow> Inr None
      | Some q \<Rightarrow>
          if pr_request_hash q \<noteq> request_hash
          then Inl (IdempotencyConflictError ''Idempotency-Key was already used with a different request'')
          else if pr_status q = REQ_SUCCEEDED \<and> request_service s q \<noteq> None \<and> request_invoice s q \<noteq> None
          then Inr (Some (svc_id (the (request_service s q)), inv_id (the (request_invoice s q))))
          else case request_invoice s q of
            Some i \<Rightarrow>
              if pr_status q = INSUFFICIENT_CREDIT
              then (if inv_status i = PAID then Inr None
                    else Inl (DeployCreditRequiredError (inv_amount_cents i) (cached_balance_cents r) (inv_id i) False None None))
              else Inl (IdempotencyConflictError ''Idempotent request is not finished'')
          | None \<Rightarrow> Inl (IdempotencyConflictError ''Idempotent request is not finished'')))"

section \<open>The deploy charge\<close>

record prepared_charge =
  pc_product :: product
  pc_price :: effective_price
  pc_invoice_id :: int
  pc_entry_ids :: "int list"
  pc_request_id :: "int option"

definition invoice_debits :: "store \<Rightarrow> int \<Rightarrow> ledger_entry list" where
  "invoice_debits s i = filter (\<lambda>e. le_invoice_id e = Some i \<and> le_amount_cents e < 0) (ledger s)"

definition new_request :: "store \<Rightarrow> int \<Rightarrow> string \<Rightarrow> string \<Rightarrow> provisioning_request" where
  "new_request s reseller_id k request_hash =
     \<lparr>pr_id = fresh_id pr_id (provisioning_requests s), pr_reseller_id = reseller_id, pr_idempotency_key = k,
      pr_request_hash = request_hash, pr_invoice_id = None, pr_service_id = None, pr_status = REQ_PROCESSING, pr_error_message = None\<rparr>"

text \<open>The request row, and the invoice to go on with when the request was waiting for it and it has been paid.\<close>

definition prepare_deploy_idempotency ::
  "store \<Rightarrow> int \<Rightarrow> string option \<Rightarrow> string \<Rightarrow> (provisioning_request option \<times> invoice option \<times> store) res" where
  "prepare_deploy_idempotency s reseller_id idempotency_key request_hash =
     (if \<not> present idempotency_key then Inr (None, None, s)
      else ebind (get_provisioning_request s reseller_id (the idempotency_key)) (\<lambda>found.
      case found of
        None \<Rightarrow>
          (let q = new_request s reseller_id (the idempotency_key) request_hash in
           Inr (Some q, None, s\<lparr>provisioning_requests := provisioning_requests s @ [q]\<rparr>))
      | Some q \<Rightarrow>
          if pr_request_hash q \<noteq> request_hash
          then Inl (IdempotencyConflictError ''Idempotency-Key was already used with a different request'')
          else case request_invoice s q of
            Some i \<Rightarrow>
              if pr_status q = INSUFFICIENT_CREDIT \<and> inv_status i = PAID
              then (let q1 = q\<lparr>pr_status := REQ_PROCESSING\<rparr> in Inr (Some q1, Some i, save_request q1 s))
              else Inl (IdempotencyConflictError ''Idempotent request is not finished'')
          | None \<Rightarrow> Inl (IdempotencyConflictError ''Idempotent request is not finished'')))"

definition deploy_description :: "product \<Rightarrow> effective_price \<Rightarrow> string" where
  "deploy_description p x = ''Deploy '' @ pd_code p @ '': setup '' @ show_int (ep_setup_cents x) @ '' + first month '' @ show_int (ep_monthly_cents x)"

definition link_request :: "provisioning_request option \<Rightarrow> int \<Rightarrow> store \<Rightarrow> store" where
  "link_request q i s = (case q of None \<Rightarrow> s | Some x \<Rightarrow> save_request (x\<lparr>pr_invoice_id := Some i\<rparr>) s)"

definition prepare_deploy_charge ::
  "dialect \<Rightarrow> registry \<Rightarrow> instant \<Rightarrow> store \<Rightarrow> reseller \<Rightarrow> product \<Rightarrow> effective_price \<Rightarrow> string option \<Rightarrow> string \<Rightarrow>
     (exn \<times> store) + (prepared_charge \<times> store)" where
  "prepare_deploy_charge dia reg now s r p x idempotency_key request_hash =
     (let total_cents = ep_setup_cents x + ep_monthly_cents x in
      if total_cents \<le> 0 then Inl (ResellerBillingError ''Deploy charge must be a positive integer number of cents'', s)
      else case prepare_deploy_idempotency s (r_id r) idempotency_key request_hash of
        Inl e \<Rightarrow> Inl (e, s)
      | Inr (q, Some i, s1) \<Rightarrow>
          Inr (\<lparr>pc_product = p, pc_price = x, pc_invoice_id = inv_id i,
                pc_entry_ids = map le_id (invoice_debits s1 (inv_id i)), pc_request_id = map_option pr_id q\<rparr>, s1)
      | Inr (q, None, s1) \<Rightarrow>
          (case create_deploy dia now s1 (r_id r) total_cents (deploy_description p x) None (ep_currency x) of
             Inl e \<Rightarrow> Inl (e, s)
           | Inr (i, s2) \<Rightarrow>
               let s3 = link_request q (inv_id i) s2;
                   available_before = max 0 (cached_balance_cents (live_reseller s3 r)) in
               case fund_invoice reg now s3 (r_id r) (inv_id i) None of
                 Inl e \<Rightarrow> Inl (e, s)
               | Inr (funding, s4) \<Rightarrow>
                   if \<not> fr_funded funding
                   then Inl (DeployCreditRequiredError total_cents available_before (inv_id i) (fr_pending_action funding)
                          (fr_client_secret funding) (fr_payment_id funding),
                        case q of None \<Rightarrow> s4
                        | Some y \<Rightarrow> save_request (y\<lparr>pr_invoice_id := Some (inv_id i), pr_status := INSUFFICIENT_CREDIT\<rparr>) s4)
                   else
                     (case mark_paid_if_fully_allocated now s4 (inv_id i) of
                        Inl e \<Rightarrow> Inl (e, s)
                      | Inr (_, s5) \<Rightarrow>
                          Inr (\<lparr>pc_product = p, pc_price = x, pc_invoice_id = inv_id i,
                                pc_entry_ids = map le_id (invoice_debits s5 (inv_id i)), pc_request_id = map_option pr_id q\<rparr>, s5))))"

section \<open>Completion and compensation\<close>

definition deploy_billing :: "instant \<Rightarrow> store \<Rightarrow> int \<Rightarrow> int \<Rightarrow> prepared_charge \<Rightarrow> service_billing" where
  "deploy_billing now s reseller_id service_id ch =
     \<lparr>sb_id = fresh_id sb_id (service_billings s), sb_service_id = service_id, sb_reseller_id = Some reseller_id,
      sb_product_id = Some (pd_id (pc_product ch)), sb_setup_price_cents = ep_setup_cents (pc_price ch),
      sb_monthly_price_cents = ep_monthly_cents (pc_price ch), sb_currency = ep_currency (pc_price ch),
      sb_next_charge_at = Some (one_month_after now), sb_billing_anchor_day = None, sb_status = SB_ACTIVE,
      sb_failed_attempts = 0, sb_last_failure_code = None, sb_last_failure_message = None, sb_grace_until = None,
      sb_next_retry_at = None, sb_last_charged_at = Some now\<rparr>"

definition insert_billing :: "store \<Rightarrow> service_billing \<Rightarrow> store res" where
  "insert_billing s b =
     (if sb_setup_price_cents b < 0 \<or> sb_monthly_price_cents b < 0 \<or> sb_service_id b \<in> sb_service_id ` set (service_billings s)
      then Inl IntegrityError
      else Inr (s\<lparr>service_billings := service_billings s @ [b]\<rparr>))"

definition map_row :: "('r \<Rightarrow> int) \<Rightarrow> int set \<Rightarrow> ('r \<Rightarrow> 'r) \<Rightarrow> 'r list \<Rightarrow> 'r list" where
  "map_row rid ids f rs = map (\<lambda>x. if rid x \<in> ids then f x else x) rs"

definition update_request :: "int option \<Rightarrow> (provisioning_request \<Rightarrow> provisioning_request) \<Rightarrow> store \<Rightarrow> store" where
  "update_request q f s = s\<lparr>provisioning_requests := map_row pr_id (set_option q) f (provisioning_requests s)\<rparr>"

definition finalize_deploy :: "instant \<Rightarrow> store \<Rightarrow> int \<Rightarrow> int \<Rightarrow> prepared_charge \<Rightarrow> (service_billing \<times> store) res" where
  "finalize_deploy now s reseller_id service_id ch =
     (let b = deploy_billing now s reseller_id service_id ch in
      ebind (insert_billing s b) (\<lambda>s1.
      let s2 = s1\<lparr>invoices := map_row inv_id {pc_invoice_id ch} (\<lambda>i. i\<lparr>inv_service_id := Some service_id\<rparr>) (invoices s1),
                  ledger := map_row le_id (set (pc_entry_ids ch)) (\<lambda>e. e\<lparr>le_service_id := Some service_id\<rparr>) (ledger s1)\<rparr> in
      Inr (b, update_request (pc_request_id ch) (\<lambda>q. q\<lparr>pr_service_id := Some service_id, pr_status := REQ_SUCCEEDED\<rparr>) s2)))"

definition refund_key :: "int \<Rightarrow> int \<Rightarrow> string" where
  "refund_key invoice_id entry_id = ''reseller-deploy-refund:'' @ show_int invoice_id @ '':'' @ show_int entry_id"

fun reverse_entries :: "store \<Rightarrow> reseller \<Rightarrow> int \<Rightarrow> string \<Rightarrow> int list \<Rightarrow> store res" where
  "reverse_entries s r invoice_id reason [] = Inr s"
| "reverse_entries s r invoice_id reason (n # ns) =
     ebind (reverse_entry s (Some (r_id r)) n (Some (''Failed deploy refund for invoice '' @ show_int invoice_id))
       (Some (refund_key invoice_id n)) [(''reason'', JStr (take 500 reason))] (Some (r_user_id r))) (\<lambda>(_, t).
     reverse_entries t r invoice_id reason ns)"

text \<open>
  Compensation works on the session that has failed and does not roll it back. \<open>broken\<close> says that a flush or a commit of it failed:
  until a rollback every use of such a session, its own commit included, raises \<open>PendingRollbackError\<close>.
\<close>

definition compensate_failed_deploy :: "bool \<Rightarrow> store \<Rightarrow> reseller \<Rightarrow> prepared_charge \<Rightarrow> string \<Rightarrow> store res" where
  "compensate_failed_deploy broken s r ch reason =
     (if broken then Inl PendingRollbackError
      else ebind (reverse_entries s r (pc_invoice_id ch) reason (pc_entry_ids ch)) (\<lambda>s1.
        Inr (update_request (pc_request_id ch) (\<lambda>q. q\<lparr>pr_status := REQ_FAILED, pr_error_message := Some (take 2000 reason)\<rparr>)
          (s1\<lparr>invoices := map_row inv_id {pc_invoice_id ch} (\<lambda>i. i\<lparr>inv_status := VOID\<rparr>) (invoices s1)\<rparr>))))"

section \<open>The handler\<close>

record deploy_db =
  db_store :: store
  db_catalog :: catalog
  db_users :: "user list"
  db_access :: "service_access list"
  db_external :: "(int \<times> string) list"

type_synonym 'a deploy_tx = "(exn \<times> deploy_db) + ('a \<times> deploy_db)"

record deploy_body =
  dq_product_code :: "string option"
  dq_service_type :: "string option"
  dq_external_service_id :: "string option"
  dq_external_user_id :: string
  dq_external_username :: "string option"
  dq_external_email :: "string option"
  dq_service_config :: dict
  dq_proxmox_cluster_id :: "int option"

text \<open>
  What the handler is given: the parameters above and the outcome of provisioning, which commits
  what it has made even when it fails. A failure says whether it was a flush or a commit, which leaves the session broken;
  the rows are then the committed ones. \<open>reason\<close> renders an exception.
\<close>

record deploy_env =
  de_dialect :: dialect
  de_registry :: registry
  de_sha256 :: "string \<Rightarrow> string"
  de_request_hash :: "string \<Rightarrow> deploy_body \<Rightarrow> string"
  de_provision :: "deploy_db \<Rightarrow> user \<Rightarrow> deploy_body \<Rightarrow> string \<Rightarrow> (exn \<times> bool \<times> deploy_db) + (service \<times> deploy_db)"
  de_cleanup :: "deploy_db \<Rightarrow> user \<Rightarrow> deploy_body \<Rightarrow> service option \<Rightarrow> deploy_db"
  de_reason :: "exn \<Rightarrow> string"

definition create_request_context :: "deploy_env \<Rightarrow> string \<Rightarrow> deploy_body \<Rightarrow> string option \<Rightarrow> (string \<times> string option \<times> string) res" where
  "create_request_context env kind body idempotency_key =
     (let product_code = strip (case dq_product_code body of None \<Rightarrow> [] | Some c \<Rightarrow> c);
          k = strip (case idempotency_key of None \<Rightarrow> [] | Some x \<Rightarrow> x) in
      if product_code = [] then Inl (HTTPException 400 ''product_code is required for reseller provisioning'')
      else if 255 < length k then Inl (HTTPException 400 ''Idempotency-Key must be at most 255 characters'')
      else Inr (product_code, if k = [] then None else Some k, de_request_hash env kind body))"

definition credit_required :: "exn \<Rightarrow> exn" where
  "credit_required e = (case e of
     DeployCreditRequiredError _ _ _ pending _ _ \<Rightarrow> HTTPException 402 (if pending then ''payment_action_required'' else ''insufficient_credit'')
   | _ \<Rightarrow> e)"

definition idempotent_replay_payload :: "store \<Rightarrow> reseller \<Rightarrow> string option \<Rightarrow> string \<Rightarrow> (int \<times> int) option res" where
  "idempotent_replay_payload s r k request_hash =
     (case lookup_idempotent_result s r k request_hash of
        Inl (IdempotencyConflictError m) \<Rightarrow> Inl (HTTPException 409 m)
      | Inl e \<Rightarrow> Inl (credit_required e)
      | Inr v \<Rightarrow> Inr v)"

definition enforce_deploy_billing_state :: "reseller \<Rightarrow> unit res" where
  "enforce_deploy_billing_state r =
     (if \<not> billing_hold r \<and> 0 \<le> cached_balance_cents r then Inr ()
      else Inl (HTTPException 402 (if billing_hold r then ''billing_hold'' else ''negative_balance'')))"

definition resolve_product_for_api :: "store \<Rightarrow> catalog \<Rightarrow> int \<Rightarrow> string \<Rightarrow> (product \<times> effective_price) res" where
  "resolve_product_for_api s c reseller_id product_code =
     (case resolve_sellable_product s c reseller_id product_code of
        Inl (ProductNotAvailableError m) \<Rightarrow> Inl (HTTPException 404 m) | x \<Rightarrow> x)"

definition expected_type :: "string \<Rightarrow> deploy_body \<Rightarrow> string" where
  "expected_type kind body =
     (if kind = ''vm'' then ''vm''
      else lower (case dq_service_type body of None \<Rightarrow> ''bare_metal'' | Some t \<Rightarrow> if t = [] then ''bare_metal'' else t))"

definition external_service_in_use :: "deploy_db \<Rightarrow> int \<Rightarrow> string \<Rightarrow> bool" where
  "external_service_in_use d reseller_id x =
     list_ex (\<lambda>b. sb_reseller_id b = Some reseller_id \<and> (sb_service_id b, x) \<in> set (db_external d)) (service_billings (db_store d))"

definition validate_create_product_and_identity :: "deploy_db \<Rightarrow> int \<Rightarrow> product \<Rightarrow> deploy_body \<Rightarrow> string \<Rightarrow> unit res" where
  "validate_create_product_and_identity d reseller_id p body kind =
     (case family_of (db_catalog d) p of
        None \<Rightarrow> Inl (AttributeError ''service_type'')
      | Some f \<Rightarrow>
          if pf_service_type f \<noteq> expected_type kind body then Inl (HTTPException 400 ''Product belongs to another service_type'')
          else if present (dq_external_service_id body) \<and> external_service_in_use d reseller_id (the (dq_external_service_id body))
          then Inl (HTTPException 409 ''external_service_id is already in use'')
          else Inr ())"

definition is_reseller_billing_error :: "exn \<Rightarrow> bool" where
  "is_reseller_billing_error e = (case e of
     ResellerBillingError _ \<Rightarrow> True | ProductNotAvailableError _ \<Rightarrow> True | QuotaNotAllocatedError \<Rightarrow> True | QuotaExceededError _ \<Rightarrow> True
   | IdempotencyConflictError _ \<Rightarrow> True | DeployCreditRequiredError _ _ _ _ _ _ \<Rightarrow> True | _ \<Rightarrow> False)"

definition enforce_create_quotas :: "deploy_db \<Rightarrow> int \<Rightarrow> product \<Rightarrow> deploy_body \<Rightarrow> string \<Rightarrow> unit res" where
  "enforce_create_quotas d reseller_id p body kind =
     (let server_group_id = (if kind \<noteq> ''vm'' then map_of (dq_service_config body) ''server_group_id'' else None);
          proxmox_cluster_id = (if kind = ''vm'' then dq_proxmox_cluster_id body else None) in
      case enforce_quotas (db_store d) (db_catalog d) reseller_id p server_group_id proxmox_cluster_id of
        Inl e \<Rightarrow> Inl (if e = QuotaNotAllocatedError then HTTPException 403 ''No product or matching resource quota is allocated''
                     else if is_reseller_billing_error e then HTTPException 409 (exn_name e) else e)
      | Inr () \<Rightarrow> Inr ())"

definition prepare_charge ::
  "deploy_env \<Rightarrow> instant \<Rightarrow> deploy_db \<Rightarrow> reseller \<Rightarrow> product \<Rightarrow> effective_price \<Rightarrow> string option \<Rightarrow> string \<Rightarrow> prepared_charge deploy_tx" where
  "prepare_charge env now d r p x k request_hash =
     (case prepare_deploy_charge (de_dialect env) (de_registry env) now (db_store d) r p x k request_hash of
        Inr (ch, s) \<Rightarrow> Inr (ch, d\<lparr>db_store := s\<rparr>)
      | Inl (DeployCreditRequiredError a b c e f g, s) \<Rightarrow> Inl (credit_required (DeployCreditRequiredError a b c e f g), d\<lparr>db_store := s\<rparr>)
      | Inl (e, s) \<Rightarrow> Inl (if is_reseller_billing_error e then HTTPException 400 (exn_name e) else e, d\<lparr>db_store := s\<rparr>))"

definition denials :: "(string \<times> bool) list \<Rightarrow> dict" where
  "denials ps = map (\<lambda>(k, _). (k, JBool False)) (filter (\<lambda>(_, allowed). \<not> allowed) ps)"

definition set_overrides :: "int \<Rightarrow> dict \<Rightarrow> deploy_db \<Rightarrow> deploy_db" where
  "set_overrides i ov d = d\<lparr>db_access := map (\<lambda>a. if sa_service_id a = i then a\<lparr>sa_permission_overrides := ov\<rparr> else a) (db_access d)\<rparr>"

text \<open>
  The body of the \<open>try\<close>: a failure after provisioning carries the service. The completion fails in its commit only, which undoes
  its own changes and leaves the session broken.
\<close>

definition provision_and_finalize ::
  "deploy_env \<Rightarrow> instant \<Rightarrow> deploy_db \<Rightarrow> reseller \<Rightarrow> user \<Rightarrow> deploy_body \<Rightarrow> string \<Rightarrow> prepared_charge \<Rightarrow>
     (exn \<times> service option \<times> bool \<times> deploy_db) + (service \<times> deploy_db)" where
  "provision_and_finalize env now d r owner body kind ch =
     (case de_provision env d owner body kind of
        Inl (e, broken, d1) \<Rightarrow> Inl (e, None, broken, d1)
      | Inr (v, d1) \<Rightarrow>
          (case effective_client_product_permissions (db_catalog d1) (r_id r) (pc_product ch) of
             Inl e \<Rightarrow> Inl (e, Some v, False, d1)
           | Inr ps \<Rightarrow>
               (case finalize_deploy now (db_store d1) (r_id r) (svc_id v) ch of
                  Inl e \<Rightarrow> Inl (e, Some v, True, d1)
                | Inr (_, s) \<Rightarrow> Inr (v, set_overrides (svc_id v) (denials ps) (d1\<lparr>db_store := s\<rparr>)))))"

definition provision_charged_service ::
  "deploy_env \<Rightarrow> instant \<Rightarrow> deploy_db \<Rightarrow> reseller \<Rightarrow> user \<Rightarrow> deploy_body \<Rightarrow> string \<Rightarrow> prepared_charge \<Rightarrow> service deploy_tx" where
  "provision_charged_service env now d r owner body kind ch =
     (case provision_and_finalize env now d r owner body kind ch of
        Inr x \<Rightarrow> Inr x
      | Inl (e, v, broken, d1) \<Rightarrow>
          (case compensate_failed_deploy broken (db_store d1) r ch (de_reason env e) of
             Inl e1 \<Rightarrow> Inl (e1, d1)
           | Inr s \<Rightarrow>
               Inl (case e of ProvisioningError st m \<Rightarrow> HTTPException st m | _ \<Rightarrow> e,
                    de_cleanup env (d1\<lparr>db_store := s\<rparr>) owner body v)))"

record deploy_payload =
  dp_service_id :: int
  dp_invoice_id :: int
  dp_idempotent_replay :: bool

definition create_new_service ::
  "deploy_env \<Rightarrow> instant \<Rightarrow> deploy_db \<Rightarrow> reseller \<Rightarrow> string \<Rightarrow> deploy_body \<Rightarrow> string \<Rightarrow> string option \<Rightarrow> string \<Rightarrow> deploy_payload deploy_tx" where
  "create_new_service env now d r kind body product_code k request_hash =
     (case ebind (enforce_deploy_billing_state r) (\<lambda>_.
           ebind (resolve_product_for_api (db_store d) (db_catalog d) (r_id r) product_code) (\<lambda>(p, x).
           ebind (client_product_is_visible (db_catalog d) (r_id r) (pd_id p)) (\<lambda>visible.
           ebind (raise_if (\<not> visible) (HTTPException 404 ''Product not found'')) (\<lambda>_.
           ebind (validate_create_product_and_identity d (r_id r) p body kind) (\<lambda>_. Inr (p, x)))))) of
        Inl e \<Rightarrow> Inl (e, d)
      | Inr (p, x) \<Rightarrow>
          (case ensure_client_user (de_sha256 env) (db_users d) r (dq_external_user_id body) (dq_external_username body) (dq_external_email body) of
             Inl (e, us) \<Rightarrow> Inl (e, d\<lparr>db_users := us\<rparr>)
           | Inr (owner, us) \<Rightarrow>
               let d1 = d\<lparr>db_users := us\<rparr> in
               case enforce_create_quotas d1 (r_id r) p body kind of
                 Inl e \<Rightarrow> Inl (e, d1)
               | Inr () \<Rightarrow>
                   (case prepare_charge env now d1 r p x k request_hash of
                      Inl z \<Rightarrow> Inl z
                    | Inr (ch, d2) \<Rightarrow>
                        (case provision_charged_service env now d2 r owner body kind ch of
                           Inl z \<Rightarrow> Inl z
                         | Inr (v, d3) \<Rightarrow> Inr (\<lparr>dp_service_id = svc_id v, dp_invoice_id = pc_invoice_id ch, dp_idempotent_replay = False\<rparr>, d3)))))"

definition create_service ::
  "deploy_env \<Rightarrow> instant \<Rightarrow> deploy_db \<Rightarrow> reseller \<Rightarrow> string \<Rightarrow> deploy_body \<Rightarrow> string option \<Rightarrow> deploy_payload deploy_tx" where
  "create_service env now d r kind body idempotency_key =
     (case create_request_context env kind body idempotency_key of
        Inl e \<Rightarrow> Inl (e, d)
      | Inr (product_code, k, request_hash) \<Rightarrow>
          (case idempotent_replay_payload (db_store d) r k request_hash of
             Inl e \<Rightarrow> Inl (e, d)
           | Inr (Some (v, i)) \<Rightarrow> Inr (\<lparr>dp_service_id = v, dp_invoice_id = i, dp_idempotent_replay = True\<rparr>, d)
           | Inr None \<Rightarrow> create_new_service env now d r kind body product_code k request_hash))"

end
