(* ===== verification/Deploy_Books.thy ===== *)
theory Deploy_Books
  imports Deploy Recurring_Books
begin

text \<open>
  Correctness of deployments. The wallet entries of a funding are traced, so that a failed deployment is shown to give back
  exactly what the wallet paid; a deploy charge is paid in full before anything is provisioned; a request
  with a key is charged and provisioned once; quotas are not exceeded; clients do not get permissions their product denies.
\<close>

section \<open>What funding writes to the ledger\<close>

definition wallet_entry :: "int \<Rightarrow> int \<Rightarrow> ledger_entry \<Rightarrow> bool" where
  "wallet_entry rid n e \<longleftrightarrow> le_reseller_id e = rid \<and> le_invoice_id e = Some n \<and> le_amount_cents e < 0 \<and>
     le_entry_type e \<noteq> REVERSAL \<and> le_reversal_of_id e = None \<and> (\<exists>p. le_idempotency_key e = Some (invoice_credit_key n p))"

definition wallet_log :: "int \<Rightarrow> int \<Rightarrow> store \<Rightarrow> store \<Rightarrow> bool" where
  "wallet_log rid n s t \<longleftrightarrow> (\<exists>es. ledger t = ledger s @ es \<and> list_all (wallet_entry rid n) es)"

lemma wallet_log_same: "ledger t = ledger s \<Longrightarrow> wallet_log rid n s t"
  by (simp add: wallet_log_def)

lemma wallet_log_trans: "wallet_log rid n s t \<Longrightarrow> wallet_log rid n t u \<Longrightarrow> wallet_log rid n s u"
  by (auto simp: wallet_log_def)

lemma mark_paid_ledger: "mark_paid_if_fully_allocated now s n = Inr (i, t) \<Longrightarrow> ledger t = ledger s"
  using mark_paid_frame by (metis store.select_convs(8) store.surjective store.update_convs(2))

lemma apply_credit_log:
  assumes "apply_credit now s r i req = Inr (eo, t)" "get_reseller s (r_id r) = Some r0" "0 < req"
  shows "wallet_log (r_id r) (inv_id i) s t"
  using assms
proof (cases rule: apply_creditE)
  case none
  then show ?thesis by (simp add: wallet_log_same)
next
  case (some e s1 s2 i1)
  let ?a = "credit_share s (r_id r) req"
  have s1: "ledger s1 = ledger s" "resellers s1 = resellers s" using some(2) by (auto simp: insert_payment_Inr)
  have t: "ledger t = ledger s2" using mark_paid_ledger [OF some(4)] by (simp add: save_payment_def)
  from some(3) obtain r1 where r1: "get_reseller s1 (r_id r) = Some r1"
    and ap: "append_locked s1 r1 CHARGE (- ?a) ((credit_context s r i)\<lparr>ctx_reversal_of_id := None\<rparr>) False = Inr (e, s2)"
    by (auto simp: debit_Inr_iff)
  have id: "r_id r1 = r_id r" using get_resellerD [OF r1] by simp
  from ap show ?thesis
  proof (cases rule: append_lockedE)
    case replay
    then show ?thesis using t s1 by (simp add: wallet_log_same)
  next
    case new
    have "wallet_entry (r_id r) (inv_id i) e" using some(1) id
      by (auto simp: new(1) wallet_entry_def new_entry_def credit_context_def no_context_def)
    then show ?thesis unfolding wallet_log_def using new(2) t s1 by (intro exI [of _ "[e]"]) simp
  qed
qed

lemma fund_rest_log:
  assumes ok: "funding_ok s" and g: "get_invoice s (inv_id i) = Some j" "invoice_core j = invoice_core i" and top: "inv_purpose i \<noteq> CREDIT_TOPUP"
    and fin: "fund_rest reg now s r i ms = Inr (res, t)"
  shows "ledger t = ledger s"
proof (cases "fr_funded (result_of s i False None None)")
  case True
  with fin show ?thesis by (auto simp: fund_rest_def Let_def ebind_Inr_iff dest: mark_paid_ledger)
next
  case False
  have "allocated_cents s (inv_id i) \<le> inv_amount_cents i"
    using ok get_invoiceD [OF g(1)] invoice_core_fields(2) [OF g(2)] by (auto simp: funding_ok_but_def payments_ok_but_def)
  with False have rem: "0 < fr_remaining_cents (result_of s i False None None)"
    "allocated_cents s (inv_id i) + fr_remaining_cents (result_of s i False None None) = inv_amount_cents i" by simp_all
  from fin False have "charge_methods reg now s r i ms (fr_remaining_cents (result_of s i False None None)) = Inr (res, t)"
    by (simp add: fund_rest_def Let_def)
  from charge_methods_post [OF ok g rem this] top show ?thesis by (simp add: charge_post_def)
qed

lemma credit_then_rest_log:
  assumes ok: "funding_ok s" and g: "get_invoice s (inv_id i) = Some j" "invoice_core j = invoice_core i"
    and rem: "0 < rem" "allocated_cents s (inv_id i) + rem = inv_amount_cents i" and r: "get_reseller s (r_id r) = Some r0"
    and top: "inv_purpose i \<noteq> CREDIT_TOPUP" and a: "apply_credit now s r i rem = Inr (eo, s1)"
    and fin: "fund_rest reg now s1 r i ms = Inr (res, t)"
  shows "wallet_log (r_id r) (inv_id i) s t"
proof -
  note cp = apply_credit_post [OF ok g rem r a]
  then have "funding_ok s1" and si: "same_invoices s s1" by (simp_all add: credit_post_def)
  moreover from si g(1) obtain j' where "get_invoice s1 (inv_id i) = Some j'" "invoice_core j' = invoice_core j" by (rule same_invoices_get)
  ultimately have "ledger t = ledger s1" using g(2) top fin by (intro fund_rest_log [of s1 i j']) simp_all
  then show ?thesis using apply_credit_log [OF a r rem(1)] by (simp add: wallet_log_def)
qed

lemma fund_by_preference_log:
  assumes ok: "funding_ok s" and g: "get_invoice s (inv_id i) = Some j" "invoice_core j = invoice_core i"
    and rem: "0 < rem" "allocated_cents s (inv_id i) + rem = inv_amount_cents i" and r: "get_reseller s (r_id r) = Some r0"
    and top: "inv_purpose i \<noteq> CREDIT_TOPUP" and fp: "fund_by_preference reg now s r i ms rem = Inr (res, t)"
  shows "wallet_log (r_id r) (inv_id i) s t"
proof (cases "charge_preference r = PAYMENT_FIRST")
  case False
  with fp obtain eo s1 where a: "apply_credit now s r i rem = Inr (eo, s1)" and fin: "fund_rest reg now s1 r i ms = Inr (res, t)"
    by (auto simp: fund_by_preference_def ebind_Inr_iff)
  show ?thesis by (rule credit_then_rest_log [OF ok g rem r top a fin])
next
  case True
  with fp obtain res1 s1 where c: "charge_methods reg now s r i ms rem = Inr (res1, s1)"
    and rest: "(if fr_funded res1 \<or> fr_pending_action res1 then Inr (res1, s1)
      else ebind (apply_credit now s1 r i (fr_remaining_cents res1)) (\<lambda>(_, s2). fund_rest reg now s2 r i ms)) = Inr (res, t)"
    by (auto simp: fund_by_preference_def ebind_Inr_iff)
  note p = charge_methods_post [OF ok g rem c]
  have log: "ledger s1 = ledger s" using p top by (simp add: charge_post_def)
  show ?thesis
  proof (cases "fr_funded res1 \<or> fr_pending_action res1")
    case True
    with rest log show ?thesis by (simp add: wallet_log_same)
  next
    case False
    have s1: "funding_ok s1" "same_invoices s s1" "resellers s1 = resellers s" "allocated_cents s1 (inv_id i) = allocated_cents s (inv_id i)"
      "res1 = result_of s1 i (fr_pending_action res1) (fr_client_secret res1) (fr_payment_id res1)"
      using p False top by (auto simp: charge_post_def funding_post_def)
    have "fr_remaining_cents res1 = rem" using s1(4) rem by (subst s1(5)) simp
    with rest False obtain eo s2 where a: "apply_credit now s1 r i rem = Inr (eo, s2)" and fin: "fund_rest reg now s2 r i ms = Inr (res, t)"
      by (auto simp: ebind_Inr_iff)
    from s1(2) g(1) obtain j' where g1: "get_invoice s1 (inv_id i) = Some j'" "invoice_core j' = invoice_core j" by (rule same_invoices_get)
    have "wallet_log (r_id r) (inv_id i) s1 t"
      using credit_then_rest_log [OF s1(1) g1(1) _ rem(1) _ _ top a fin, of r0] g1(2) g(2) rem(2) s1(3,4) r by (simp add: get_reseller_def)
    then show ?thesis using log by (simp add: wallet_log_def)
  qed
qed

lemma fund_invoice_log:
  assumes ok: "funding_ok s" and fi: "fund_invoice reg now s rid n mid = Inr (res, t)" and i: "get_invoice s n = Some i" and top: "inv_purpose i \<noteq> CREDIT_TOPUP"
  shows "wallet_log rid n s t"
proof -
  from fi obtain r i' where l: "lock_funding_rows s rid n = Inr (r, i')" by (auto simp: fund_invoice_def ebind_Inr_iff)
  from l have rows: "get_reseller s rid = Some r" "get_invoice s n = Some i'" "r_id r = rid" "inv_id i' = n" by (auto elim: lock_funding_rowsE)
  with i have i': "i' = i" by simp
  have g: "get_invoice s (inv_id i) = Some i" using rows i' by simp
  show ?thesis
  proof (cases "fr_funded (result_of s i False None None) \<or> pending_funding_result s i \<noteq> None")
    case True
    then show ?thesis using fi l i'
      by (auto simp: fund_invoice_def Let_def ebind_Inr_iff split: if_splits intro!: wallet_log_same dest: mark_paid_ledger)
  next
    case False
    let ?rem = "fr_remaining_cents (result_of s i False None None)"
    have "allocated_cents s n \<le> inv_amount_cents i"
      using ok get_invoiceD [OF i] by (auto simp: funding_ok_but_def payments_ok_but_def)
    with False have rem: "0 < ?rem" "allocated_cents s (inv_id i) + ?rem = inv_amount_cents i" using rows i' by simp_all
    from False fi l i' obtain ms where
      ch: "(if mid \<noteq> None \<or> inv_purpose i = CREDIT_TOPUP then charge_methods reg now s r i ms ?rem
         else fund_by_preference reg now s r i ms ?rem) = Inr (res, t)"
      by (auto simp: fund_invoice_def Let_def ebind_Inr_iff)
    show ?thesis
    proof (cases "mid = None")
      case True
      with ch top have "fund_by_preference reg now s r i ms ?rem = Inr (res, t)" by simp
      from fund_by_preference_log [OF ok g refl rem _ top this, of r] rows i' show ?thesis by simp
    next
      case False
      with ch have "charge_methods reg now s r i ms ?rem = Inr (res, t)" by simp
      from charge_methods_post [OF ok g refl rem this] top show ?thesis by (simp add: charge_post_def wallet_log_same)
    qed
  qed
qed

section \<open>The books of deployments\<close>

text \<open>References of payments and entries exist, and the key of a refund names an existing entry.\<close>

definition books_ok :: "store \<Rightarrow> bool" where
  "books_ok s \<longleftrightarrow> funding_ok s \<and> pay_invoice_id ` set (payments s) \<subseteq> inv_id ` set (invoices s) \<and>
     (\<forall>e \<in> set (ledger s). \<forall>i. le_invoice_id e = Some i \<longrightarrow> i \<in> inv_id ` set (invoices s)) \<and>
     (\<forall>e \<in> set (ledger s). \<forall>i n. le_idempotency_key e = Some (refund_key i n) \<longrightarrow> n \<in> le_id ` set (ledger s))"

definition requests_ok :: "store \<Rightarrow> bool" where
  "requests_ok s \<longleftrightarrow> distinct (map pr_id (provisioning_requests s)) \<and>
     distinct (map (\<lambda>q. (pr_reseller_id q, pr_idempotency_key q)) (provisioning_requests s))"

definition deploy_ok :: "store \<Rightarrow> bool" where
  "deploy_ok s \<longleftrightarrow> books_ok s \<and> requests_ok s"

lemma books_ok_requests [simp]: "books_ok (s\<lparr>provisioning_requests := qs\<rparr>) = books_ok s"
  using funding_ok_cong [of "s\<lparr>provisioning_requests := qs\<rparr>" s "{}"] by (simp add: books_ok_def)

lemma books_ok_save_request [simp]: "books_ok (save_request q s) = books_ok s" "books_ok (link_request p i s) = books_ok s"
  by (simp_all add: save_request_def link_request_def split: option.split)

lemma requests_ok_save: "requests_ok s \<Longrightarrow> q \<in> set (provisioning_requests s) \<Longrightarrow> pr_id p = pr_id q \<Longrightarrow> pr_reseller_id p = pr_reseller_id q \<Longrightarrow>
    pr_idempotency_key p = pr_idempotency_key q \<Longrightarrow> requests_ok (save_request p s)"
proof -
  assume ok: "requests_ok s" and q: "q \<in> set (provisioning_requests s)" and p: "pr_id p = pr_id q" "pr_reseller_id p = pr_reseller_id q" "pr_idempotency_key p = pr_idempotency_key q"
  have d: "distinct (map pr_id (provisioning_requests s))" using ok by (simp add: requests_ok_def)
  have "map (\<lambda>q. (pr_reseller_id q, pr_idempotency_key q)) (put_row pr_id p (provisioning_requests s)) = map (\<lambda>q. (pr_reseller_id q, pr_idempotency_key q)) (provisioning_requests s)"
    using put_row_map [OF d q p(1), of "\<lambda>q. (pr_reseller_id q, pr_idempotency_key q)"] p by simp
  moreover have "map pr_id (put_row pr_id p (provisioning_requests s)) = map pr_id (provisioning_requests s)" using put_row_map [OF d q p(1), of pr_id] p by simp
  ultimately show ?thesis using ok unfolding requests_ok_def save_request_def by simp
qed

lemma prepare_idempotencyE:
  assumes "prepare_deploy_idempotency s rid k h = Inr (q, io, s1)"
  obtains (plain) "\<not> present k" "q = None" "io = None" "s1 = s"
  | (fresh) "present k" "filter (\<lambda>q. pr_reseller_id q = rid \<and> pr_idempotency_key q = the k) (provisioning_requests s) = []"
      "q = Some (new_request s rid (the k) h)" "io = None" "s1 = s\<lparr>provisioning_requests := provisioning_requests s @ [new_request s rid (the k) h]\<rparr>"
  | (resume) y i where "present k" "y \<in> set (provisioning_requests s)" "pr_reseller_id y = rid" "pr_idempotency_key y = the k" "pr_request_hash y = h"
      "pr_status y = INSUFFICIENT_CREDIT" "pr_invoice_id y = Some (inv_id i)" "get_invoice s (inv_id i) = Some i" "inv_status i = PAID"
      "q = Some (y\<lparr>pr_status := REQ_PROCESSING\<rparr>)" "io = Some i" "s1 = save_request (y\<lparr>pr_status := REQ_PROCESSING\<rparr>) s"
proof (cases "present k")
  case False
  then show thesis using assms plain by (simp add: prepare_deploy_idempotency_def)
next
  case True
  with assms obtain found where f: "get_provisioning_request s rid (the k) = Inr found" by (auto simp: prepare_deploy_idempotency_def ebind_Inr_iff)
  show thesis
  proof (cases found)
    case None
    then show thesis using assms True f fresh by (auto simp: prepare_deploy_idempotency_def get_provisioning_request_def scalar_iffs Let_def)
  next
    case (Some y)
    then have "filter (\<lambda>q. pr_reseller_id q = rid \<and> pr_idempotency_key q = the k) (provisioning_requests s) = [y]"
      using f by (simp add: get_provisioning_request_def scalar_iffs)
    then have "y \<in> set (filter (\<lambda>q. pr_reseller_id q = rid \<and> pr_idempotency_key q = the k) (provisioning_requests s))" by simp
    then have y: "y \<in> set (provisioning_requests s)" "pr_reseller_id y = rid" "pr_idempotency_key y = the k" by simp_all
    from assms True f Some obtain i where i: "request_invoice s y = Some i" "pr_request_hash y = h" "pr_status y = INSUFFICIENT_CREDIT" "inv_status i = PAID"
      "q = Some (y\<lparr>pr_status := REQ_PROCESSING\<rparr>)" "io = Some i" "s1 = save_request (y\<lparr>pr_status := REQ_PROCESSING\<rparr>) s"
      by (auto simp: prepare_deploy_idempotency_def Let_def split: if_splits option.splits)
    from i(1) obtain n where n: "pr_invoice_id y = Some n" "get_invoice s n = Some i" by (auto simp: request_invoice_def split: option.splits)
    then have "inv_id i = n" using get_invoiceD by blast
    then show thesis using resume [of y i] True y i n by simp
  qed
qed

lemma prepare_idempotency_ok:
  assumes ok: "deploy_ok s" and pi: "prepare_deploy_idempotency s rid k h = Inr (q, io, s1)"
  shows "deploy_ok s1" "s1 = s\<lparr>provisioning_requests := provisioning_requests s1\<rparr>" "\<forall>y. q = Some y \<longrightarrow> y \<in> set (provisioning_requests s1)"
proof -
  have "deploy_ok s1 \<and> s1 = s\<lparr>provisioning_requests := provisioning_requests s1\<rparr> \<and> (\<forall>y. q = Some y \<longrightarrow> y \<in> set (provisioning_requests s1))"
    using pi
  proof (cases rule: prepare_idempotencyE)
    case plain
    then show ?thesis using ok by simp
  next
    case fresh
    have "requests_ok s1" using ok fresh(2) fresh_id_notin [of pr_id "provisioning_requests s"]
      by (auto simp: fresh(5) deploy_ok_def requests_ok_def new_request_def filter_empty_conv)
    then show ?thesis using ok fresh by (simp add: deploy_ok_def)
  next
    case (resume y i)
    have "requests_ok s1" unfolding resume(12) using ok resume(2) by (intro requests_ok_save [of s y]) (simp_all add: deploy_ok_def)
    moreover have "y\<lparr>pr_status := REQ_PROCESSING\<rparr> \<in> set (provisioning_requests s1)" using put_row_mem [OF resume(2), of pr_id] by (simp add: resume(12) save_request_def)
    ultimately show ?thesis using ok by (simp add: resume(12) resume(10) deploy_ok_def save_request_def)
  qed
  then show "deploy_ok s1" "s1 = s\<lparr>provisioning_requests := provisioning_requests s1\<rparr>" "\<forall>y. q = Some y \<longrightarrow> y \<in> set (provisioning_requests s1)" by blast+
qed

lemma create_deploy_ok:
  assumes ok: "deploy_ok s" and c: "create_deploy dia now s rid amt desc sid cur = Inr (i, t)"
  shows "deploy_ok t" "inv_id i \<notin> inv_id ` set (invoices s)" "get_invoice t (inv_id i) = Some i" "inv_amount_cents i = amt" "inv_purpose i = DEPLOY_CHARGE"
    "ledger t = ledger s" "resellers t = resellers s" "provisioning_requests t = provisioning_requests s" "allocated_cents t (inv_id i) = 0"
    "payments t = payments s"
proof -
  from c obtain q where q: "create_invoice dia s q = Inr (i, t)" "iq_amount_cents q = amt" "iq_purpose q = DEPLOY_CHARGE" by (auto simp: create_deploy_def)
  note k = create_invoice_Inr [OF q(1)]
  show new: "inv_id i \<notin> inv_id ` set (invoices s)" using k(3) fresh_id_notin [of inv_id "invoices s"] by simp
  show "inv_amount_cents i = amt" "inv_purpose i = DEPLOY_CHARGE" using k q by simp_all
  show fr: "ledger t = ledger s" "resellers t = resellers s" "provisioning_requests t = provisioning_requests s" "payments t = payments s" by (simp_all add: k(1))
  have iv: "invoices t = invoices s @ [i]" "outbox t = outbox s" by (simp_all add: k(1))
  have "get_row inv_id (inv_id i) (invoices s) = None" using new by (auto simp: get_row_None_iff)
  then show "get_invoice t (inv_id i) = Some i" by (simp add: get_invoice_def iv get_row_append)
  have sub: "pay_invoice_id ` set (payments s) \<subseteq> inv_id ` set (invoices s)" using ok by (simp add: deploy_ok_def books_ok_def)
  have "pay_invoice_id p \<noteq> inv_id i" if "p \<in> set (payments s)" for p using sub new that by (metis image_subset_iff)
  then have "filter (\<lambda>p. pay_invoice_id p = inv_id i \<and> pay_status p = SUCCEEDED) (payments s) = []" by (simp add: filter_empty_conv)
  then show al: "allocated_cents t (inv_id i) = 0" by (simp add: allocated_cents_def fr)
  have other: "allocated_cents t n = allocated_cents s n" for n by (simp add: allocated_cents_def fr)
  have f: "ledger_ok s" "invoices_ok s" "payments_ok s" "outbox_ok s" using ok by (simp_all add: deploy_ok_def books_ok_def funding_ok_but_def)
  have "invoices_ok t" using create_invoice_ok [OF f(2) q(1)] .
  moreover have "payments_ok t" using f(3) al k(4,6) other by (auto simp: payments_ok_but_def fr iv)
  moreover have "ledger_ok t" "outbox_ok t" using f(1,4) by (simp_all add: ledger_ok_def outbox_ok_def fr iv)
  ultimately have "funding_ok t" by (simp add: funding_ok_but_def)
  then show "deploy_ok t" using ok sub by (auto simp: deploy_ok_def books_ok_def requests_ok_def fr iv)
qed

lemma refund_key_inject: "refund_key i n = refund_key j m \<longleftrightarrow> i = j \<and> n = m"
  using append_colon_inject [OF show_int_no_colon show_int_no_colon] by (auto simp: refund_key_def)

lemma credit_key_not_refund: "invoice_credit_key n p \<noteq> refund_key i m"
  by (simp add: invoice_credit_key_def refund_key_def)

lemma same_invoices_id_set: "same_invoices s t \<Longrightarrow> inv_id ` set (invoices t) = inv_id ` set (invoices s)"
  using same_invoices_ids [of s t] by (metis list.set_map)

text \<open>Funding an invoice keeps the books, and traces what the wallet paid.\<close>

lemma fund_books:
  assumes ok: "deploy_ok s" and i: "get_invoice s n = Some i" "inv_purpose i \<noteq> CREDIT_TOPUP" and f: "fund_invoice reg now s rid n mid = Inr (res, t)"
  shows "deploy_ok t" "wallet_log rid n s t" "provisioning_requests t = provisioning_requests s"
    "fr_funded res \<Longrightarrow> paid_in t n \<and> allocated_cents t n = inv_amount_cents i" "same_invoices s t" "same_rest s t"
proof -
  have fo: "funding_ok s" using ok by (simp add: deploy_ok_def books_ok_def)
  from fo f obtain r i' where i': "get_invoice s n = Some i'" and p: "funding_post s t i' res" by (rule fund_invoice_post)
  have ii: "i' = i" "inv_id i = n" using i i' get_invoiceD [OF i(1)] by simp_all
  have okt: "funding_ok t" and si: "same_invoices s t" using p by (simp_all add: funding_post_def)
  show "same_invoices s t" by (rule si)
  show log: "wallet_log rid n s t" using fund_invoice_log [OF fo f i] .
  have fr: "funds_only n s t" using funds_only_fund [OF f] .
  then show rq: "provisioning_requests t = provisioning_requests s" and "same_rest s t" by (simp_all add: funds_only_def same_rest_def)
  have res: "res = result_of t i (fr_pending_action res) (fr_client_secret res) (fr_payment_id res)" using p ii by (simp add: funding_post_def)
  have "allocated_cents t n = inv_amount_cents i" if "fr_funded res" using that ii by (subst (asm) res) simp
  then show "paid_in t n \<and> allocated_cents t n = inv_amount_cents i" if "fr_funded res" using that p ii by (simp add: funding_post_def)
  from log obtain es where es: "ledger t = ledger s @ es" "list_all (wallet_entry rid n) es" by (auto simp: wallet_log_def)
  have ids: "inv_id ` set (invoices t) = inv_id ` set (invoices s)" using si by (rule same_invoices_id_set)
  have n: "n \<in> inv_id ` set (invoices s)" using get_invoiceD [OF i(1)] by auto
  have "pay_invoice_id ` set (payments t) \<subseteq> insert n (pay_invoice_id ` set (payments s))" "pay_invoice_id ` set (payments s) \<subseteq> inv_id ` set (invoices s)"
    using fr ok by (simp_all add: funds_only_def deploy_ok_def books_ok_def)
  then have "pay_invoice_id ` set (payments t) \<subseteq> inv_id ` set (invoices t)" unfolding ids using n by (meson insert_subset subset_trans)
  moreover have "j \<in> inv_id ` set (invoices t)" if "e \<in> set (ledger t)" "le_invoice_id e = Some j" for e j
  proof (cases "e \<in> set es")
    case True
    then have "le_invoice_id e = Some n" using es(2) by (simp add: list_all_iff wallet_entry_def)
    then show ?thesis using that(2) n ids by simp
  next
    case False
    then have "e \<in> set (ledger s)" using that(1) es(1) by simp
    then show ?thesis using ok that(2) unfolding ids deploy_ok_def books_ok_def by blast
  qed
  moreover have "m \<in> le_id ` set (ledger t)" if e: "e \<in> set (ledger t)" "le_idempotency_key e = Some (refund_key j m)" for e j m
  proof (cases "e \<in> set es")
    case True
    then show ?thesis using es(2) e(2) credit_key_not_refund by (auto simp: list_all_iff wallet_entry_def)
  next
    case False
    then have "e \<in> set (ledger s)" using e(1) es(1) by simp
    then have "m \<in> le_id ` set (ledger s)" using ok e(2) unfolding deploy_ok_def books_ok_def by blast
    then show ?thesis unfolding es(1) set_append image_Un by (rule UnI1)
  qed
  ultimately have "books_ok t" using okt unfolding books_ok_def by blast
  then show "deploy_ok t" using ok rq by (simp add: deploy_ok_def requests_ok_def)
qed

lemma mark_paid_deploy:
  assumes ok: "deploy_ok s" and m: "mark_paid_if_fully_allocated now s n = Inr (i, t)"
  shows "deploy_ok t" "ledger t = ledger s" "provisioning_requests t = provisioning_requests s" "same_invoices s t" "payments t = payments s"
    "get_invoice t n = Some i" "inv_status i = PAID \<longleftrightarrow> allocated_cents t n = inv_amount_cents i" "resellers t = resellers s"
proof -
  have fo: "funding_ok s" using ok by (simp add: deploy_ok_def books_ok_def)
  note k = mark_paid_ok [OF fo empty_subsetI m]
  show fr: "ledger t = ledger s" "same_invoices s t" "payments t = payments s" "get_invoice t n = Some i"
    "inv_status i = PAID \<longleftrightarrow> allocated_cents t n = inv_amount_cents i" "resellers t = resellers s" using k by simp_all
  show rq: "provisioning_requests t = provisioning_requests s" using same_rest_mark [OF m] by (simp add: same_rest_def)
  show "deploy_ok t" using ok k(1) fr same_invoices_id_set [OF k(2)] by (simp add: deploy_ok_def books_ok_def requests_ok_def rq)
qed

text \<open>What a new charge is: a paid invoice, funded from the wallet by the entries it names and otherwise by methods.\<close>

definition charged :: "store \<Rightarrow> store \<Rightarrow> reseller \<Rightarrow> effective_price \<Rightarrow> prepared_charge \<Rightarrow> bool" where
  "charged s t r x ch \<longleftrightarrow> (\<exists>i es. get_invoice t (pc_invoice_id ch) = Some i \<and> inv_status i = PAID \<and> inv_amount_cents i = ep_setup_cents x + ep_monthly_cents x \<and>
     allocated_cents t (pc_invoice_id ch) = inv_amount_cents i \<and> pc_invoice_id ch \<notin> inv_id ` set (invoices s) \<and>
     ledger t = ledger s @ es \<and> list_all (wallet_entry (r_id r) (pc_invoice_id ch)) es \<and> pc_entry_ids ch = map le_id es)"

lemma invoice_debits_new:
  assumes "books_ok s" "n \<notin> inv_id ` set (invoices s)" "ledger t = ledger s @ es" "list_all (wallet_entry rid n) es"
  shows "invoice_debits t n = es"
proof -
  have "filter (\<lambda>e. le_invoice_id e = Some n \<and> le_amount_cents e < 0) (ledger s) = []"
    using assms(1,2) by (auto simp: books_ok_def filter_empty_conv)
  moreover have "filter (\<lambda>e. le_invoice_id e = Some n \<and> le_amount_cents e < 0) es = es"
    using assms(4) by (auto simp: filter_id_conv list_all_iff wallet_entry_def)
  ultimately show ?thesis by (simp add: invoice_debits_def assms(3))
qed

lemma prepare_newE:
  assumes ok: "deploy_ok s" and pi: "prepare_deploy_idempotency s (r_id r) k h = Inr (q, None, s1)"
    and pr: "prepare_deploy_charge dia reg now s r p x k h = Inr (ch, t)"
  obtains i s2 s3 s4 res i1 where "create_deploy dia now s1 (r_id r) (ep_setup_cents x + ep_monthly_cents x) (deploy_description p x) None (ep_currency x) = Inr (i, s2)"
    "s3 = link_request q (inv_id i) s2" "fund_invoice reg now s3 (r_id r) (inv_id i) None = Inr (res, s4)" "fr_funded res"
    "mark_paid_if_fully_allocated now s4 (inv_id i) = Inr (i1, t)"
    "ch = \<lparr>pc_product = p, pc_price = x, pc_invoice_id = inv_id i, pc_entry_ids = map le_id (invoice_debits t (inv_id i)), pc_request_id = map_option pr_id q\<rparr>"
proof -
  note d = prepare_deploy_charge_def [of dia reg now s r p x k h, unfolded pi sum.case prod.case option.case, unfolded Let_def]
  from pr obtain i s2 where c: "create_deploy dia now s1 (r_id r) (ep_setup_cents x + ep_monthly_cents x) (deploy_description p x) None (ep_currency x) = Inr (i, s2)"
    unfolding d by (auto split: if_splits sum.splits)
  note d2 = d [unfolded c sum.case prod.case]
  from pr obtain res s4 where f: "fund_invoice reg now (link_request q (inv_id i) s2) (r_id r) (inv_id i) None = Inr (res, s4)"
    unfolding d2 by (auto split: if_splits sum.splits)
  note d3 = d2 [unfolded f sum.case prod.case]
  from pr have "fr_funded res" unfolding d3 by (auto split: if_splits)
  moreover from pr this obtain i1 where "mark_paid_if_fully_allocated now s4 (inv_id i) = Inr (i1, t)"
    "ch = \<lparr>pc_product = p, pc_price = x, pc_invoice_id = inv_id i, pc_entry_ids = map le_id (invoice_debits t (inv_id i)), pc_request_id = map_option pr_id q\<rparr>"
    unfolding d3 by (auto split: if_splits sum.splits)
  ultimately show thesis using c f by (intro that [of i s2 _ res s4 i1]) simp_all
qed

section \<open>Compensation\<close>

lemma append_locked_reversal:
  assumes "key_is_new s c" "ctx_reversal_of_id c = Some k" "\<forall>x \<in> set (ledger s). le_reversal_of_id x \<noteq> Some k" "amount \<noteq> 0"
  shows "append_locked s r ty amount c True =
    Inr (new_entry s r ty amount c, s\<lparr>ledger := ledger s @ [new_entry s r ty amount c],
      resellers := put_row r_id (r\<lparr>cached_balance_cents := cached_balance_cents r + amount\<rparr>) (resellers s)\<rparr>)"
  using assms(2-4) assms(1) [unfolded key_is_new_def]
  unfolding append_locked_def find_by_key_new [OF assms(1)]
  by (force simp: insert_entry_def new_entry_def save_reseller_def Let_def)

text \<open>An entry that has not been reversed, under a key that has not been used, is reversed.\<close>

definition reversible :: "store \<Rightarrow> int \<Rightarrow> int \<Rightarrow> ledger_entry \<Rightarrow> bool" where
  "reversible s rid n e \<longleftrightarrow> e \<in> set (ledger s) \<and> le_reseller_id e = rid \<and> le_entry_type e \<noteq> REVERSAL \<and>
     (\<forall>x \<in> set (ledger s). le_reversal_of_id x \<noteq> Some (le_id e) \<and> le_idempotency_key x \<noteq> Some (refund_key n (le_id e)))"

lemma reverse_reversible:
  assumes ok: "ledger_ok s" and r: "get_reseller s (r_id r) = Some r0" and e: "reversible s (r_id r) n e"
  shows "\<exists>x t. reverse_entry s (Some (r_id r)) (le_id e) d (Some (refund_key n (le_id e))) m u = Inr (x, t) \<and> ledger t = ledger s @ [x] \<and>
    t = s\<lparr>ledger := ledger t, resellers := resellers t\<rparr> \<and> map r_id (resellers t) = map r_id (resellers s) \<and> le_reseller_id x = r_id r \<and> le_amount_cents x = - le_amount_cents e \<and>
    le_reversal_of_id x = Some (le_id e) \<and> le_idempotency_key x = Some (refund_key n (le_id e)) \<and> le_invoice_id x = le_invoice_id e"
proof -
  have mem: "e \<in> set (ledger s)" "le_reseller_id e = r_id r" "le_entry_type e \<noteq> REVERSAL" using e by (simp_all add: reversible_def)
  have f: "filter (\<lambda>x. le_id x = le_id e \<and> Some (le_reseller_id x) = Some (r_id r)) (ledger s) = [e]" using filter_by_id [OF ok mem(1)] mem(2) by simp
  have none: "filter (\<lambda>x. le_reversal_of_id x = Some (le_id e)) (ledger s) = []" using e by (auto simp: reversible_def filter_empty_conv)
  have nz: "- le_amount_cents e \<noteq> 0" using ok mem(1) by (auto simp: ledger_ok_def)
  have lock: "lock_reseller s (Some (r_id r)) = Inr r0" using r by (simp add: lock_reseller_Inr_iff)
  have r0: "r_id r0 = r_id r" using get_resellerD [OF r] by simp
  let ?c = "\<lparr>ctx_description = (case d of Some d \<Rightarrow> if d = [] then Some (''Reversal of ledger entry '' @ show_int (le_id e)) else Some d
      | None \<Rightarrow> Some (''Reversal of ledger entry '' @ show_int (le_id e))),
    ctx_invoice_id = le_invoice_id e, ctx_payment_id = le_payment_id e, ctx_service_id = le_service_id e, ctx_reversal_of_id = Some (le_id e),
    ctx_reference_type = le_reference_type e, ctx_reference_id = le_reference_id e, ctx_idempotency_key = Some (refund_key n (le_id e)),
    ctx_metadata = m, ctx_created_by_user_id = u\<rparr>"
  have "append_locked s r0 REVERSAL (- le_amount_cents e) ?c True = Inr (new_entry s r0 REVERSAL (- le_amount_cents e) ?c,
      s\<lparr>ledger := ledger s @ [new_entry s r0 REVERSAL (- le_amount_cents e) ?c],
        resellers := put_row r_id (r0\<lparr>cached_balance_cents := cached_balance_cents r0 + (- le_amount_cents e)\<rparr>) (resellers s)\<rparr>)"
    using e nz by (intro append_locked_reversal [of _ _ "le_id e"]) (auto simp: key_is_new_def reversible_def)
  moreover have "reverse_entry s (Some (r_id r)) (le_id e) d (Some (refund_key n (le_id e))) m u = append_locked s r0 REVERSAL (- le_amount_cents e) ?c True"
    unfolding reverse_entry_def lock ebind.simps f scalar_one_or_none.simps option.case using mem(3) none by simp
  ultimately show ?thesis using r0 by (simp add: new_entry_def)
qed

lemma ledger_frame_trans:
  "t = s\<lparr>ledger := a, resellers := b\<rparr> \<Longrightarrow> u = t\<lparr>ledger := c, resellers := d\<rparr> \<Longrightarrow> u = (s :: store)\<lparr>ledger := c, resellers := d\<rparr>"
  by simp

lemma reverse_entries_total:
  assumes "ledger_ok s" "get_reseller s (r_id r) = Some r0" "list_all (reversible s (r_id r) n) es" "distinct (map le_id es)"
  shows "\<exists>t rs. reverse_entries s r n reason (map le_id es) = Inr t \<and> ledger_ok t \<and> ledger t = ledger s @ rs \<and> t = s\<lparr>ledger := ledger t, resellers := resellers t\<rparr> \<and>
    map r_id (resellers t) = map r_id (resellers s) \<and> entry_total (r_id r) rs = - entry_total (r_id r) es \<and> (\<forall>j. j \<noteq> r_id r \<longrightarrow> entry_total j rs = 0) \<and>
    list_all (\<lambda>x. \<exists>e \<in> set es. le_invoice_id x = le_invoice_id e \<and> le_idempotency_key x = Some (refund_key n (le_id e))) rs"
  using assms
proof (induction es arbitrary: s r0)
  case Nil
  then show ?case by (intro exI [of _ s] exI [of _ "[]"]) simp
next
  case (Cons e es)
  from Cons.prems have rev: "reversible s (r_id r) n e" by simp
  obtain x t where x: "reverse_entry s (Some (r_id r)) (le_id e) (Some (''Failed deploy refund for invoice '' @ show_int n)) (Some (refund_key n (le_id e)))
      [(''reason'', JStr (take 500 reason))] (Some (r_user_id r)) = Inr (x, t)"
    and t: "ledger t = ledger s @ [x]" "t = s\<lparr>ledger := ledger t, resellers := resellers t\<rparr>" "map r_id (resellers t) = map r_id (resellers s)"
    and xf: "le_reseller_id x = r_id r" "le_amount_cents x = - le_amount_cents e" "le_reversal_of_id x = Some (le_id e)"
      "le_idempotency_key x = Some (refund_key n (le_id e))" "le_invoice_id x = le_invoice_id e"
    using reverse_reversible [OF Cons.prems(1,2) rev] by blast
  have ok: "ledger_ok t" using ledger_exec_ok [OF Cons.prems(1), of "Reverse (Some (r_id r)) (le_id e) (Some (''Failed deploy refund for invoice '' @ show_int n))
    (Some (refund_key n (le_id e))) [(''reason'', JStr (take 500 reason))] (Some (r_user_id r))" x t] x by simp
  have "r_id r \<in> set (map r_id (resellers t))" unfolding t(3) using get_resellerD [OF Cons.prems(2)] by (metis image_eqI list.set_map)
  then obtain r1 where r1: "get_reseller t (r_id r) = Some r1" unfolding get_reseller_def by (cases "get_row r_id (r_id r) (resellers t)") (auto simp: get_row_None_iff)
  have "list_all (reversible t (r_id r) n) es" unfolding list_all_iff
  proof
    fix y assume y: "y \<in> set es"
    have "le_id e \<notin> le_id ` set es" using Cons.prems(4) by simp
    with y have "le_id y \<noteq> le_id e" by (metis image_eqI)
    moreover have "reversible s (r_id r) n y" using Cons.prems(3) y by (simp add: list_all_iff)
    ultimately have "le_id y \<noteq> le_id e" "reversible s (r_id r) n y" .
    then show "reversible t (r_id r) n y" using xf by (auto simp: reversible_def t(1) refund_key_inject)
  qed
  from Cons.IH [OF ok r1 this] Cons.prems(4) obtain u rs where u: "reverse_entries t r n reason (map le_id es) = Inr u" "ledger_ok u" "ledger u = ledger t @ rs"
    "u = t\<lparr>ledger := ledger u, resellers := resellers u\<rparr>" "map r_id (resellers u) = map r_id (resellers t)"
    "entry_total (r_id r) rs = - entry_total (r_id r) es" "\<forall>j. j \<noteq> r_id r \<longrightarrow> entry_total j rs = 0"
    "list_all (\<lambda>x. \<exists>e \<in> set es. le_invoice_id x = le_invoice_id e \<and> le_idempotency_key x = Some (refund_key n (le_id e))) rs" by auto
  have "u = s\<lparr>ledger := ledger u, resellers := resellers u\<rparr>" by (rule ledger_frame_trans [OF t(2) u(4)])
  moreover have "le_reseller_id e = r_id r" using rev by (simp add: reversible_def)
  ultimately show ?case using x u t xf by (intro exI [of _ u] exI [of _ "x # rs"]) (auto simp: list_all_iff)
qed

section \<open>A charge is paid in full\<close>

lemma link_request_fields [simp]:
  "ledger (link_request q i s) = ledger s" "invoices (link_request q i s) = invoices s" "payments (link_request q i s) = payments s"
  "resellers (link_request q i s) = resellers s" "get_invoice (link_request q i s) n = get_invoice s n" "get_reseller (link_request q i s) n = get_reseller s n"
  by (simp_all add: link_request_def save_request_def get_invoice_def get_reseller_def split: option.split)

lemma link_request_ok:
  "deploy_ok s \<Longrightarrow> (\<And>y. q = Some y \<Longrightarrow> y \<in> set (provisioning_requests s)) \<Longrightarrow> deploy_ok (link_request q i s)"
  by (cases q) (auto simp: deploy_ok_def link_request_def intro: requests_ok_save)

lemma prepare_charged:
  assumes ok: "deploy_ok s" and pi: "prepare_deploy_idempotency s (r_id r) k h = Inr (q, None, s1)"
    and pr: "prepare_deploy_charge dia reg now s r p x k h = Inr (ch, t)"
  shows "deploy_ok t" "charged s t r x ch" "pc_product ch = p" "pc_price ch = x" "pc_request_id ch = map_option pr_id q" "get_reseller t (r_id r) \<noteq> None"
    "provisioning_requests t = provisioning_requests (link_request q (pc_invoice_id ch) s1)" "map r_id (resellers t) = map r_id (resellers s)"
proof -
  from ok pi pr obtain i s2 s3 s4 res i1 where c: "create_deploy dia now s1 (r_id r) (ep_setup_cents x + ep_monthly_cents x) (deploy_description p x) None (ep_currency x) = Inr (i, s2)"
    and s3: "s3 = link_request q (inv_id i) s2" and f: "fund_invoice reg now s3 (r_id r) (inv_id i) None = Inr (res, s4)" and fu: "fr_funded res"
    and m: "mark_paid_if_fully_allocated now s4 (inv_id i) = Inr (i1, t)"
    and ch: "ch = \<lparr>pc_product = p, pc_price = x, pc_invoice_id = inv_id i, pc_entry_ids = map le_id (invoice_debits t (inv_id i)), pc_request_id = map_option pr_id q\<rparr>"
    by (rule prepare_newE)
  note k1 = prepare_idempotency_ok [OF ok pi]
  have l1: "ledger s1 = ledger s" "invoices s1 = invoices s" "resellers s1 = resellers s" by (subst k1(2), simp)+
  note k2 = create_deploy_ok [OF k1(1) c]
  have ok3: "deploy_ok s3" unfolding s3 using k1(3) k2(8) by (intro link_request_ok [OF k2(1)]) simp
  have g3: "get_invoice s3 (inv_id i) = Some i" "inv_purpose i \<noteq> CREDIT_TOPUP" using k2(3,5) by (simp_all add: s3)
  note k4 = fund_books [OF ok3 g3 f]
  note k5 = mark_paid_deploy [OF k4(1) m]
  show "deploy_ok t" by (rule k5(1))
  from k4(2) obtain es where es: "ledger s4 = ledger s @ es" "list_all (wallet_entry (r_id r) (inv_id i)) es"
    using k2(6) l1(1) by (auto simp: wallet_log_def s3)
  have new: "inv_id i \<notin> inv_id ` set (invoices s)" using k2(2) l1(2) by simp
  have bo: "books_ok s" using ok by (simp add: deploy_ok_def)
  have "invoice_debits t (inv_id i) = es" using invoice_debits_new [OF bo new _ es(2)] es(1) k5(2) by simp
  moreover have "inv_amount_cents i1 = inv_amount_cents i"
  proof -
    from same_invoices_trans [OF k4(5) k5(4)] g3(1) obtain j where "get_invoice t (inv_id i) = Some j" "invoice_core j = invoice_core i" by (rule same_invoices_get)
    then show ?thesis using k5(6) invoice_core_fields(2) [of j i] by simp
  qed
  moreover have "allocated_cents t (inv_id i) = inv_amount_cents i" using k4(4) [OF fu] k5(5) by (simp add: allocated_cents_def)
  ultimately show "charged s t r x ch" unfolding charged_def using k5(2,6,7) k2(4) es new by (intro exI [of _ i1] exI [of _ es]) (simp add: ch)
  show "pc_product ch = p" "pc_price ch = x" "pc_request_id ch = map_option pr_id q" by (simp_all add: ch)
  have ids: "map r_id (resellers t) = map r_id (resellers s3)" using funds_only_fund [OF f] k5(8) by (simp add: funds_only_def)
  from f have "get_reseller s3 (r_id r) \<noteq> None" by (auto simp: fund_invoice_def ebind_Inr_iff elim!: lock_funding_rowsE)
  moreover have "get_reseller u n \<noteq> None \<longleftrightarrow> n \<in> set (map r_id (resellers u))" for u n by (simp add: get_reseller_def get_row_None_iff)
  ultimately show "get_reseller t (r_id r) \<noteq> None" using ids by metis
  show "map r_id (resellers t) = map r_id (resellers s)" using ids k2(7) l1(3) by (simp add: s3)
  show "provisioning_requests t = provisioning_requests (link_request q (pc_invoice_id ch) s1)"
    using k5(3) k4(3) k2(8) by (simp add: s3 ch link_request_def save_request_def split: option.split)
qed

lemma prepare_resumed:
  assumes ok: "deploy_ok s" and pi: "prepare_deploy_idempotency s (r_id r) k h = Inr (q, Some i, s1)"
    and pr: "prepare_deploy_charge dia reg now s r p x k h = Inr (ch, t)"
  shows "deploy_ok t" "get_invoice t (pc_invoice_id ch) = Some i" "inv_status i = PAID" "allocated_cents t (pc_invoice_id ch) = inv_amount_cents i"
proof -
  have t: "t = s1" "pc_invoice_id ch = inv_id i" using pr unfolding prepare_deploy_charge_def pi by (auto simp: Let_def split: if_splits)
  note k = prepare_idempotency_ok [OF ok pi]
  show "deploy_ok t" using k(1) t by simp
  from pi have g: "get_invoice s (inv_id i) = Some i" "inv_status i = PAID" by (auto elim: prepare_idempotencyE)
  show "inv_status i = PAID" by (rule g(2))
  have "invoices s1 = invoices s" "payments s1 = payments s" by (subst k(2), simp)+
  then show "get_invoice t (pc_invoice_id ch) = Some i" "allocated_cents t (pc_invoice_id ch) = inv_amount_cents i"
    using g ok get_invoiceD [OF g(1)] by (auto simp: t get_invoice_def allocated_cents_def deploy_ok_def books_ok_def funding_ok_but_def payments_ok_but_def)
qed

lemma prepare_cases:
  assumes "prepare_deploy_charge dia reg now s r p x k h = Inr (ch, t)"
  obtains q io s1 where "prepare_deploy_idempotency s (r_id r) k h = Inr (q, io, s1)"
  using assms by (cases "prepare_deploy_idempotency s (r_id r) k h") (auto simp: prepare_deploy_charge_def Let_def split: if_splits)

lemma deploy_charge_result:
  assumes "deploy_ok s" "prepare_deploy_charge dia reg now s r p x k h = Inr (ch, t)"
  shows "deploy_ok t \<and> (\<exists>i. get_invoice t (pc_invoice_id ch) = Some i \<and> inv_status i = PAID \<and> allocated_cents t (pc_invoice_id ch) = inv_amount_cents i) \<and>
    (\<not> (\<exists>q \<in> set (provisioning_requests s). pr_reseller_id q = r_id r \<and> Some (pr_idempotency_key q) = k) \<longrightarrow> charged s t r x ch)"
proof -
  from assms(2) obtain q io s1 where pi: "prepare_deploy_idempotency s (r_id r) k h = Inr (q, io, s1)" by (rule prepare_cases)
  show ?thesis
  proof (cases io)
    case None
    note c = prepare_charged [OF assms(1) pi [unfolded None] assms(2)]
    from c(2) have "\<exists>i. get_invoice t (pc_invoice_id ch) = Some i \<and> inv_status i = PAID \<and> allocated_cents t (pc_invoice_id ch) = inv_amount_cents i"
      unfolding charged_def by blast
    with c(1,2) show ?thesis by blast
  next
    case (Some i)
    note c = prepare_resumed [OF assms(1) pi [unfolded Some] assms(2)]
    have "\<exists>q \<in> set (provisioning_requests s). pr_reseller_id q = r_id r \<and> Some (pr_idempotency_key q) = k"
      using pi Some by (cases rule: prepare_idempotencyE) (auto simp: present_def)
    with c show ?thesis by blast
  qed
qed

text \<open>
  Nothing is deployed on credit. A prepared charge has an invoice that is stored as paid and covered exactly by succeeded payments, and
  the books stay consistent. When the request's key has not been used, the invoice is a new one over setup fee and first month, and the charge names
  exactly the ledger entries the wallet contributed.
\<close>

theorem deploy_charge_sound:
  assumes "deploy_ok s" "prepare_deploy_charge dia reg now s r p x k h = Inr (ch, t)"
  shows "deploy_ok t \<and> (\<exists>i. get_invoice t (pc_invoice_id ch) = Some i \<and> inv_status i = PAID \<and> allocated_cents t (pc_invoice_id ch) = inv_amount_cents i) \<and>
    (\<not> (\<exists>q \<in> set (provisioning_requests s). pr_reseller_id q = r_id r \<and> Some (pr_idempotency_key q) = k) \<longrightarrow> charged s t r x ch)"
  using assms by (rule deploy_charge_result)

section \<open>A failed deployment gives the wallet back\<close>

text \<open>Stores that agree on everything deployments account for; provisioning works on other tables.\<close>

definition same_books :: "store \<Rightarrow> store \<Rightarrow> bool" where
  "same_books s t \<longleftrightarrow> ledger t = ledger s \<and> resellers t = resellers s \<and> invoices t = invoices s \<and> invoice_sequence t = invoice_sequence s \<and>
     payments t = payments s \<and> outbox t = outbox s \<and> provisioning_requests t = provisioning_requests s \<and> service_billings t = service_billings s"

lemma same_books_ok: "same_books s t \<Longrightarrow> deploy_ok t = deploy_ok s"
  using funding_ok_cong [of t s "{}"] by (simp add: same_books_def deploy_ok_def books_ok_def requests_ok_def)

lemma balance_total: "ledger_ok s \<Longrightarrow> balance_of s j = (if j \<in> r_id ` set (resellers s) then entry_total j (ledger s) else 0)"
proof (cases "get_reseller s j")
  case None
  then have "j \<notin> r_id ` set (resellers s)" by (simp add: get_reseller_def get_row_None_iff)
  with None show ?thesis by (simp add: balance_of_def)
next
  case (Some r)
  assume ok: "ledger_ok s"
  have r: "r \<in> set (resellers s)" "r_id r = j" using get_resellerD [OF Some] by simp_all
  then have "cached_balance_cents r = entry_total j (ledger s)" using ok by (auto simp: ledger_ok_def)
  moreover have "j \<in> r_id ` set (resellers s)" using r by (metis image_eqI)
  ultimately show ?thesis using Some by (simp add: balance_of_def)
qed

lemma wallet_entries_total: "list_all (wallet_entry rid n) es \<Longrightarrow> j \<noteq> rid \<Longrightarrow> entry_total j es = 0"
  by (induction es) (auto simp: wallet_entry_def)

lemma map_row_fields: "(\<And>x. g (f x) = g x) \<Longrightarrow> map g (map_row rid ids f rs) = map g rs"
  by (simp add: map_row_def)

lemma map_row_image: "(\<And>x. g (f x) = g x) \<Longrightarrow> g ` set (map_row rid ids f rs) = g ` set rs"
  using map_row_fields [of g f rid ids rs] by (metis list.set_map)

lemma map_row_hit: "q \<in> set (map_row rid (set_option k) f rs) \<Longrightarrow> Some (rid q) = k \<Longrightarrow> (\<And>x. rid (f x) = rid x) \<Longrightarrow> \<exists>x. q = f x"
  unfolding map_row_def by (cases k) (auto split: if_splits)

lemma get_map_row: "(\<And>x. rid (f x) = rid x) \<Longrightarrow> get_row rid n (map_row rid {n} f rs) = map_option f (get_row rid n rs)"
  by (induction rs) (auto simp: map_row_def)

lemma void_invoice_ok:
  assumes "books_ok s"
  shows "books_ok (s\<lparr>invoices := map_row inv_id ids (\<lambda>i. i\<lparr>inv_status := VOID\<rparr>) (invoices s)\<rparr>)"
proof -
  let ?t = "s\<lparr>invoices := map_row inv_id ids (\<lambda>i. i\<lparr>inv_status := VOID\<rparr>) (invoices s)\<rparr>"
  let ?f = "\<lambda>i. i\<lparr>inv_status := VOID\<rparr>"
  have m: "map inv_id (invoices ?t) = map inv_id (invoices s)" "map inv_number (invoices ?t) = map inv_number (invoices s)"
    "inv_id ` set (invoices ?t) = inv_id ` set (invoices s)"
    by (simp_all add: map_row_fields map_row_image)
  have f: "ledger_ok s" "invoices_ok s" "payments_ok s" "outbox_ok s" using assms by (simp_all add: books_ok_def funding_ok_but_def)
  have nb: "numbers_below ?t = numbers_below s" using m(2) by (intro numbers_below_cong) simp_all
  have row: "\<exists>j \<in> set (invoices s). inv_id i = inv_id j \<and> inv_number i = inv_number j \<and> inv_amount_cents i = inv_amount_cents j \<and> (inv_status i = PAID \<longrightarrow> inv_status j = PAID)"
    if "i \<in> set (invoices ?t)" for i using that by (auto simp: map_row_def)
  have "invoices_ok ?t" using f(2) row by (simp only: invoices_ok_def m(1,2) nb) (metis (no_types, lifting))
  moreover have "allocated_cents ?t n = allocated_cents s n" for n by (simp add: allocated_cents_def)
  then have "payments_ok ?t" using f(3) row by (simp add: payments_ok_but_def) (metis (no_types, lifting))
  moreover have "ledger_ok ?t" "outbox_ok ?t" using f(1,4) by (simp_all add: ledger_ok_def outbox_ok_def)
  ultimately have "funding_ok ?t" by (simp add: funding_ok_but_def)
  then show ?thesis using assms m(3) by (simp add: books_ok_def)
qed

lemma charged_reversible:
  assumes s: "books_ok s" and t: "ledger_ok t" "ledger t = ledger s @ es" "list_all (wallet_entry rid n) es"
  shows "list_all (reversible t rid n) es" "distinct (map le_id es)"
proof -
  have d: "distinct (map le_id (ledger s @ es))" using t(1,2) by (simp add: ledger_ok_def)
  then show "distinct (map le_id es)" by simp
  have so: "ledger_ok s" using s by (simp add: books_ok_def funding_ok_but_def)
  show "list_all (reversible t rid n) es" unfolding list_all_iff
  proof
    fix e assume e: "e \<in> set es"
    then have w: "wallet_entry rid n e" using t(3) by (simp add: list_all_iff)
    have fresh: "le_id e \<notin> le_id ` set (ledger s)" using d e by (auto simp: image_iff)
    have "le_reversal_of_id x \<noteq> Some (le_id e) \<and> le_idempotency_key x \<noteq> Some (refund_key n (le_id e))" if x: "x \<in> set (ledger t)" for x
    proof (cases "x \<in> set es")
      case True
      then show ?thesis using t(3) credit_key_not_refund by (auto simp: list_all_iff wallet_entry_def)
    next
      case False
      then have xs: "x \<in> set (ledger s)" using x t(2) by simp
      then have "reversal_ok (ledger s) x" using so by (simp add: ledger_ok_def)
      then have "le_id e \<in> le_id ` set (ledger s)" if "le_reversal_of_id x = Some (le_id e)"
        using that unfolding reversal_ok_def by (simp only: option.case) (metis image_eqI)
      moreover have "le_id e \<in> le_id ` set (ledger s)" if "le_idempotency_key x = Some (refund_key n (le_id e))"
        using that xs s unfolding books_ok_def by blast
      ultimately show ?thesis using fresh by blast
    qed
    then show "reversible t rid n e" using w e by (simp add: reversible_def t(2) wallet_entry_def)
  qed
qed

lemma compensation_result:
  assumes ok: "deploy_ok s" "deploy_ok u" and ch: "charged s u r x ch" and r: "get_reseller u (r_id r) \<noteq> None" and ids: "map r_id (resellers u) = map r_id (resellers s)"
  shows "\<exists>w. compensate_failed_deploy False u r ch reason = Inr w \<and> deploy_ok w \<and> (\<forall>j. balance_of w j = balance_of s j) \<and>
    (\<exists>i. get_invoice w (pc_invoice_id ch) = Some i \<and> inv_status i = VOID) \<and> payments w = payments u \<and>
    (\<forall>q \<in> set (provisioning_requests w). Some (pr_id q) = pc_request_id ch \<longrightarrow> pr_status q = REQ_FAILED)"
proof -
  let ?n = "pc_invoice_id ch"
  from ch obtain i es where i: "get_invoice u ?n = Some i" and es: "ledger u = ledger s @ es" "list_all (wallet_entry (r_id r) ?n) es" "pc_entry_ids ch = map le_id es"
    unfolding charged_def by blast
  have bs: "books_ok s" and bu: "books_ok u" and lu: "ledger_ok u" and ls: "ledger_ok s" using ok by (simp_all add: deploy_ok_def books_ok_def funding_ok_but_def)
  note rev = charged_reversible [OF bs lu es(1,2)]
  from r obtain r0 where r0: "get_reseller u (r_id r) = Some r0" by blast
  from reverse_entries_total [OF lu r0 rev, of reason] obtain v rs where v: "reverse_entries u r ?n reason (map le_id es) = Inr v" "ledger_ok v" "ledger v = ledger u @ rs"
    "v = u\<lparr>ledger := ledger v, resellers := resellers v\<rparr>" "map r_id (resellers v) = map r_id (resellers u)" "entry_total (r_id r) rs = - entry_total (r_id r) es"
    "\<forall>j. j \<noteq> r_id r \<longrightarrow> entry_total j rs = 0" "list_all (\<lambda>x. \<exists>e \<in> set es. le_invoice_id x = le_invoice_id e \<and> le_idempotency_key x = Some (refund_key ?n (le_id e))) rs" by blast
  have vf: "invoices v = invoices u" "payments v = payments u" "outbox v = outbox u" "invoice_sequence v = invoice_sequence u" "provisioning_requests v = provisioning_requests u"
    by (subst v(4), simp)+
  have n: "?n \<in> inv_id ` set (invoices u)" using get_invoiceD [OF i] by (metis image_eqI)
  have "numbers_below v = numbers_below u" using vf by (intro numbers_below_cong) simp_all
  then have fv: "funding_ok v" using bu v(2) vf by (simp add: books_ok_def funding_ok_but_def invoices_ok_def payments_ok_but_def outbox_ok_def allocated_cents_def)
  have "j \<in> inv_id ` set (invoices v)" if y: "y \<in> set (ledger v)" "le_invoice_id y = Some j" for y j
  proof (cases "y \<in> set rs")
    case True
    then show ?thesis using v(8) y(2) es(2) n vf(1) by (auto simp: list_all_iff wallet_entry_def)
  next
    case False
    then show ?thesis using y v(3) bu vf(1) unfolding books_ok_def by (metis Un_iff set_append)
  qed
  moreover have "m \<in> le_id ` set (ledger v)" if y: "y \<in> set (ledger v)" "le_idempotency_key y = Some (refund_key j m)" for y j m
  proof (cases "y \<in> set rs")
    case True
    then obtain e where "e \<in> set es" "refund_key j m = refund_key ?n (le_id e)" using v(8) y(2) by (auto simp: list_all_iff)
    then show ?thesis by (simp add: refund_key_inject v(3) es(1) image_Un)
  next
    case False
    then have "m \<in> le_id ` set (ledger u)" using y v(3) bu unfolding books_ok_def by (metis Un_iff set_append)
    then show ?thesis by (simp add: v(3) image_Un)
  qed
  ultimately have bv: "books_ok v" using fv bu unfolding books_ok_def vf(1,2) by blast
  define v1 where "v1 = v\<lparr>invoices := map_row inv_id {?n} (\<lambda>i. i\<lparr>inv_status := VOID\<rparr>) (invoices v)\<rparr>"
  define w where "w = update_request (pc_request_id ch) (\<lambda>q. q\<lparr>pr_status := REQ_FAILED, pr_error_message := Some (take 2000 reason)\<rparr>) v1"
  have c: "compensate_failed_deploy False u r ch reason = Inr w" by (simp add: compensate_failed_deploy_def v(1) es(3) v1_def w_def)
  have "requests_ok w" using ok(2) by (simp add: w_def v1_def update_request_def deploy_ok_def requests_ok_def vf map_row_fields)
  moreover have "books_ok w" using void_invoice_ok [OF bv, of "{?n}"] by (simp add: w_def v1_def update_request_def)
  ultimately have dw: "deploy_ok w" by (simp add: deploy_ok_def)
  have wr: "resellers w = resellers v" "ledger w = ledger v" by (simp_all add: w_def v1_def update_request_def)
  have "balance_of w j = balance_of s j" for j
  proof -
    have "set (map r_id (resellers w)) = set (map r_id (resellers s))" using wr(1) v(5) ids by simp
    moreover have "entry_total j (ledger w) = entry_total j (ledger s)"
      using wr(2) v(3,6,7) es(1) wallet_entries_total [OF es(2), of j] by (cases "j = r_id r") simp_all
    moreover have "ledger_ok w" using dw by (simp add: deploy_ok_def books_ok_def funding_ok_but_def)
    ultimately show ?thesis using balance_total [of w j] balance_total [OF ls, of j] by simp
  qed
  moreover have "\<exists>i. get_invoice w ?n = Some i \<and> inv_status i = VOID"
    using i vf(1) by (simp add: get_invoice_def w_def v1_def update_request_def get_map_row)
  moreover have "pr_status q = REQ_FAILED" if "q \<in> set (provisioning_requests w)" "Some (pr_id q) = pc_request_id ch" for q
  proof -
    from that(1) have "q \<in> set (map_row pr_id (set_option (pc_request_id ch)) (\<lambda>q. q\<lparr>pr_status := REQ_FAILED, pr_error_message := Some (take 2000 reason)\<rparr>) (provisioning_requests v1))"
      by (simp add: w_def update_request_def)
    from map_row_hit [OF this that(2)] show ?thesis by auto
  qed
  moreover have "payments w = payments u" using vf(2) by (simp add: w_def v1_def update_request_def)
  ultimately show ?thesis using c dw by (intro exI [of _ w] conjI) blast+
qed

lemma failed_deploy_result:
  assumes "deploy_ok s" "prepare_deploy_charge dia reg now s r p x k h = Inr (ch, t)" "same_books t u"
    "list_all (\<lambda>q. pr_reseller_id q \<noteq> r_id r \<or> Some (pr_idempotency_key q) \<noteq> k) (provisioning_requests s)"
  shows "\<exists>w. compensate_failed_deploy False u r ch reason = Inr w \<and> deploy_ok w \<and> (\<forall>j. balance_of w j = balance_of s j) \<and>
    (\<exists>i. get_invoice w (pc_invoice_id ch) = Some i \<and> inv_status i = VOID) \<and> payments w = payments u \<and>
    (\<forall>q \<in> set (provisioning_requests w). Some (pr_id q) = pc_request_id ch \<longrightarrow> pr_status q = REQ_FAILED)" "charged s u r x ch" "deploy_ok u"
proof -
  from assms(2) obtain q io s1 where pi: "prepare_deploy_idempotency s (r_id r) k h = Inr (q, io, s1)" by (rule prepare_cases)
  have "io = None" using pi by (cases rule: prepare_idempotencyE) (use assms(4) in \<open>auto simp: list_all_iff present_def\<close>)
  note c = prepare_charged [OF assms(1) pi [unfolded this] assms(2)]
  show ch: "charged s u r x ch" using c(2) assms(3) by (auto simp: charged_def same_books_def get_invoice_def allocated_cents_def)
  show u: "deploy_ok u" using c(1) same_books_ok [OF assms(3)] by simp
  have "get_reseller u (r_id r) \<noteq> None" "map r_id (resellers u) = map r_id (resellers s)"
    using c(6,8) assms(3) by (simp_all add: same_books_def get_reseller_def)
  with ch u assms(1) show "\<exists>w. compensate_failed_deploy False u r ch reason = Inr w \<and> deploy_ok w \<and> (\<forall>j. balance_of w j = balance_of s j) \<and>
    (\<exists>i. get_invoice w (pc_invoice_id ch) = Some i \<and> inv_status i = VOID) \<and> payments w = payments u \<and>
    (\<forall>q \<in> set (provisioning_requests w). Some (pr_id q) = pc_request_id ch \<longrightarrow> pr_status q = REQ_FAILED)"
    by (intro compensation_result)
qed

text \<open>
  C6: a failed deployment gives the wallet back. When a request without an idempotency key, or with one the reseller has not used before, has been charged and its
  provisioning fails without breaking the session, whatever it did outside the books, compensation succeeds:
  every reseller has the balance it had before the charge, the invoice is void, the request is stored as failed, and the books stay consistent.
\<close>

theorem failed_deploy_restores_wallet:
  assumes "deploy_ok s" "prepare_deploy_charge dia reg now s r p x k h = Inr (ch, t)" "same_books t u"
    "list_all (\<lambda>q. pr_reseller_id q \<noteq> r_id r \<or> Some (pr_idempotency_key q) \<noteq> k) (provisioning_requests s)"
  shows "\<exists>w. compensate_failed_deploy False u r ch reason = Inr w \<and> deploy_ok w \<and> (\<forall>j. balance_of w j = balance_of s j) \<and>
    (\<exists>i. get_invoice w (pc_invoice_id ch) = Some i \<and> inv_status i = VOID) \<and>
    (\<forall>q \<in> set (provisioning_requests w). Some (pr_id q) = pc_request_id ch \<longrightarrow> pr_status q = REQ_FAILED)"
proof -
  from failed_deploy_result(1) [OF assms, of reason] obtain w where "compensate_failed_deploy False u r ch reason = Inr w" "deploy_ok w" "\<forall>j. balance_of w j = balance_of s j"
    "\<exists>i. get_invoice w (pc_invoice_id ch) = Some i \<and> inv_status i = VOID"
    "\<forall>q \<in> set (provisioning_requests w). Some (pr_id q) = pc_request_id ch \<longrightarrow> pr_status q = REQ_FAILED" by blast
  then show ?thesis by (intro exI [of _ w] conjI)
qed

section \<open>One deployment per key\<close>

lemma prepare_request:
  assumes ok: "deploy_ok s" and pr: "prepare_deploy_charge dia reg now s r p x (Some k) h = Inr (ch, t)" and k: "k \<noteq> []"
  shows "\<exists>q \<in> set (provisioning_requests t). pc_request_id ch = Some (pr_id q) \<and> pr_reseller_id q = r_id r \<and> pr_idempotency_key q = k \<and> pr_request_hash q = h \<and>
    pr_invoice_id q = Some (pc_invoice_id ch)"
proof -
  from pr obtain q io s1 where pi: "prepare_deploy_idempotency s (r_id r) (Some k) h = Inr (q, io, s1)" by (rule prepare_cases)
  have pk: "present (Some k)" using k by (simp add: present_def)
  show ?thesis using pi
  proof (cases rule: prepare_idempotencyE)
    case plain
    then show ?thesis using pk by simp
  next
    case fresh
    let ?q = "new_request s (r_id r) k h"
    note c = prepare_charged [OF ok pi [unfolded fresh(4)] pr]
    have "?q\<lparr>pr_invoice_id := Some (pc_invoice_id ch)\<rparr> \<in> set (put_row pr_id (?q\<lparr>pr_invoice_id := Some (pc_invoice_id ch)\<rparr>) (provisioning_requests s @ [?q]))"
      by (rule put_row_mem [of ?q]) simp_all
    then have "?q\<lparr>pr_invoice_id := Some (pc_invoice_id ch)\<rparr> \<in> set (provisioning_requests t)"
      unfolding c(7) fresh(3,5) by (simp add: link_request_def save_request_def)
    then show ?thesis using c(5) fresh(3) by (intro bexI [of _ "?q\<lparr>pr_invoice_id := Some (pc_invoice_id ch)\<rparr>"]) (simp_all add: new_request_def)
  next
    case (resume y i)
    have t: "t = s1" "pc_invoice_id ch = inv_id i" "pc_request_id ch = map_option pr_id q"
      using pr pi resume(11) unfolding prepare_deploy_charge_def by (auto simp: Let_def split: if_splits)
    have "y\<lparr>pr_status := REQ_PROCESSING\<rparr> \<in> set (provisioning_requests t)"
      using prepare_idempotency_ok(3) [OF ok pi] resume(10) t(1) by simp
    then show ?thesis using resume t by (intro bexI [of _ "y\<lparr>pr_status := REQ_PROCESSING\<rparr>"]) simp_all
  qed
qed

lemma finalize_deployD:
  assumes "finalize_deploy now s rid v ch = Inr (b, t)"
  shows "service_billings t = service_billings s @ [b]" "b = deploy_billing now s rid v ch" "services t = services s" "payments t = payments s" "resellers t = resellers s"
    "invoices t = map_row inv_id {pc_invoice_id ch} (\<lambda>i. i\<lparr>inv_service_id := Some v\<rparr>) (invoices s)"
    "provisioning_requests t = map_row pr_id (set_option (pc_request_id ch)) (\<lambda>q. q\<lparr>pr_service_id := Some v, pr_status := REQ_SUCCEEDED\<rparr>) (provisioning_requests s)"
    "v \<notin> sb_service_id ` set (service_billings s)"
  using assms by (auto simp: finalize_deploy_def Let_def ebind_Inr_iff insert_billing_def update_request_def deploy_billing_def split: if_splits)

lemma finalize_lookup:
  assumes ok: "requests_ok s" and q: "q \<in> set (provisioning_requests s)" "pc_request_id ch = Some (pr_id q)" "pr_reseller_id q = r_id r" "pr_idempotency_key q = k" "pr_request_hash q = h"
      "pr_invoice_id q = Some (pc_invoice_id ch)" and k: "k \<noteq> []"
    and i: "get_invoice s (pc_invoice_id ch) = Some i" and v: "get_service s v = Some y" and f: "finalize_deploy now s rid v ch = Inr (b, t)"
  shows "lookup_idempotent_result t r (Some k) h = Inr (Some (v, pc_invoice_id ch))"
proof -
  note d = finalize_deployD [OF f]
  let ?f = "\<lambda>q. q\<lparr>pr_service_id := Some v, pr_status := REQ_SUCCEEDED\<rparr>"
  let ?P = "\<lambda>q. pr_reseller_id q = r_id r \<and> pr_idempotency_key q = k"
  have m: "?f q \<in> set (provisioning_requests t)" unfolding d(7) map_row_def using q(1,2) by force
  have dt: "distinct (map (\<lambda>q. (pr_reseller_id q, pr_idempotency_key q)) (provisioning_requests t))"
    unfolding d(7) using ok by (simp add: requests_ok_def map_row_fields)
  have "unique_on (\<lambda>q. Some (pr_reseller_id q, pr_idempotency_key q)) (provisioning_requests t)" using dt by (simp add: unique_on_def comp_def)
  from unique_on_filter_single [OF this m, of "(r_id r, k)"] q(3,4) have fl: "filter ?P (provisioning_requests t) = [?f q]" by simp
  have g: "get_provisioning_request t (r_id r) k = Inr (Some (?f q))" by (simp add: get_provisioning_request_def fl)
  have ri: "request_invoice t (?f q) = Some (i\<lparr>inv_service_id := Some v\<rparr>)"
    using i q(6) by (simp add: request_invoice_def get_invoice_def d(6) get_map_row)
  have rs: "request_service t (?f q) = Some y" using v by (simp add: request_service_def get_service_def d(3))
  have ids: "svc_id y = v" "inv_id i = pc_invoice_id ch" using get_invoiceD [OF i] v by (auto simp: get_service_def dest: get_row_SomeD)
  show ?thesis unfolding lookup_idempotent_result_def using k q(5) ids by (simp add: present_def g ri rs)
qed

text \<open>What deployments rely on: provisioning returns a service it has stored and does not touch the books.\<close>

definition provisions :: "deploy_env \<Rightarrow> bool" where
  "provisions env \<longleftrightarrow> (\<forall>d owner body kind v d1. de_provision env d owner body kind = Inr (v, d1) \<longrightarrow>
     same_books (db_store d) (db_store d1) \<and> get_service (db_store d1) (svc_id v) = Some v \<and> db_catalog d1 = db_catalog d)"

lemma create_new_serviceE:
  assumes "create_new_service env now d r kind body code k h = Inr (pl, d')"
  obtains p x owner us ch s v d1 ps b t where "resolve_sellable_product (db_store d) (db_catalog d) (r_id r) code = Inr (p, x)"
    "ensure_client_user (de_sha256 env) (db_users d) r (dq_external_user_id body) (dq_external_username body) (dq_external_email body) = Inr (owner, us)"
    "enforce_create_quotas (d\<lparr>db_users := us\<rparr>) (r_id r) p body kind = Inr ()"
    "prepare_deploy_charge (de_dialect env) (de_registry env) now (db_store d) r p x k h = Inr (ch, s)"
    "de_provision env (d\<lparr>db_users := us, db_store := s\<rparr>) owner body kind = Inr (v, d1)"
    "effective_client_product_permissions (db_catalog d1) (r_id r) (pc_product ch) = Inr ps"
    "finalize_deploy now (db_store d1) (r_id r) (svc_id v) ch = Inr (b, t)"
    "d' = set_overrides (svc_id v) (denials ps) (d1\<lparr>db_store := t\<rparr>)"
    "pl = \<lparr>dp_service_id = svc_id v, dp_invoice_id = pc_invoice_id ch, dp_idempotent_replay = False\<rparr>"
    "\<not> billing_hold r" "0 \<le> cached_balance_cents r"
proof -
  from assms obtain p x owner us where a: "enforce_deploy_billing_state r = Inr ()" "resolve_product_for_api (db_store d) (db_catalog d) (r_id r) code = Inr (p, x)"
    "ensure_client_user (de_sha256 env) (db_users d) r (dq_external_user_id body) (dq_external_username body) (dq_external_email body) = Inr (owner, us)"
    "enforce_create_quotas (d\<lparr>db_users := us\<rparr>) (r_id r) p body kind = Inr ()"
    and rest: "(case prepare_charge env now (d\<lparr>db_users := us\<rparr>) r p x k h of Inl z \<Rightarrow> Inl z
      | Inr (ch, d2) \<Rightarrow> (case provision_charged_service env now d2 r owner body kind ch of Inl z \<Rightarrow> Inl z
         | Inr (v, d3) \<Rightarrow> Inr (\<lparr>dp_service_id = svc_id v, dp_invoice_id = pc_invoice_id ch, dp_idempotent_replay = False\<rparr>, d3))) = Inr (pl, d')"
    unfolding create_new_service_def Let_def by (auto simp: ebind_Inr_iff ebind_Inl_iff split: sum.splits unit.splits)
  from rest obtain ch d2 where pc: "prepare_charge env now (d\<lparr>db_users := us\<rparr>) r p x k h = Inr (ch, d2)" by (auto split: sum.splits)
  from pc obtain s where s: "prepare_deploy_charge (de_dialect env) (de_registry env) now (db_store d) r p x k h = Inr (ch, s)" "d2 = d\<lparr>db_users := us, db_store := s\<rparr>"
    unfolding prepare_charge_def by (auto split: sum.splits exn.splits)
  from rest pc obtain v d3 where pv: "provision_charged_service env now d2 r owner body kind ch = Inr (v, d3)" "d3 = d'"
    "pl = \<lparr>dp_service_id = svc_id v, dp_invoice_id = pc_invoice_id ch, dp_idempotent_replay = False\<rparr>" by (auto split: sum.splits)
  from pv(1) have pf: "provision_and_finalize env now d2 r owner body kind ch = Inr (v, d3)"
    unfolding provision_charged_service_def by (auto split: sum.splits)
  from pf obtain d1 where d1: "de_provision env d2 owner body kind = Inr (v, d1)" unfolding provision_and_finalize_def by (auto split: sum.splits)
  from pf d1 obtain ps where ps: "effective_client_product_permissions (db_catalog d1) (r_id r) (pc_product ch) = Inr ps" unfolding provision_and_finalize_def by (auto split: sum.splits)
  from pf d1 ps obtain b t where "finalize_deploy now (db_store d1) (r_id r) (svc_id v) ch = Inr (b, t)" "d3 = set_overrides (svc_id v) (denials ps) (d1\<lparr>db_store := t\<rparr>)"
    unfolding provision_and_finalize_def by (auto split: sum.splits)
  moreover have "resolve_sellable_product (db_store d) (db_catalog d) (r_id r) code = Inr (p, x)"
    using a(2) unfolding resolve_product_for_api_def by (auto split: sum.splits exn.splits)
  moreover have "\<not> billing_hold r" "0 \<le> cached_balance_cents r" using a(1) by (auto simp: enforce_deploy_billing_state_def split: if_splits)
  ultimately show thesis using a(3,4) s d1 ps pv(2,3) by (intro that [of p x owner us ch s v d1 ps b t]) simp_all
qed

lemma strip_Nil: "strip [] = []"
  by (simp add: strip_def)

text \<open>A deployment that returns: its rows afterwards.\<close>

lemma prepared_product:
  assumes ok: "deploy_ok s0" and a: "prepare_deploy_charge dialect reg now s0 r p x k h = Inr (ch, s)"
  shows "pc_product ch = p" "pc_price ch = x" "service_billings s = service_billings s0"
proof -
  from a obtain q io s1 where pi: "prepare_deploy_idempotency s0 (r_id r) k h = Inr (q, io, s1)" by (rule prepare_cases)
  have s1: "service_billings s1 = service_billings s0" by (subst prepare_idempotency_ok(2) [OF ok pi]) simp
  have "pc_product ch = p \<and> pc_price ch = x \<and> service_billings s = service_billings s0"
  proof (cases io)
    case None
    from ok pi [unfolded None] a obtain i s2 s3 s4 res i1 where z: "create_deploy dialect now s1 (r_id r) (ep_setup_cents x + ep_monthly_cents x) (deploy_description p x) None (ep_currency x) = Inr (i, s2)"
      "s3 = link_request q (inv_id i) s2" "fund_invoice reg now s3 (r_id r) (inv_id i) None = Inr (res, s4)" "mark_paid_if_fully_allocated now s4 (inv_id i) = Inr (i1, s)"
      "ch = \<lparr>pc_product = p, pc_price = x, pc_invoice_id = inv_id i, pc_entry_ids = map le_id (invoice_debits s (inv_id i)), pc_request_id = map_option pr_id q\<rparr>"
      by (rule prepare_newE)
    have "service_billings s2 = service_billings s1" using z(1) by (auto simp: create_deploy_def dest!: create_invoice_Inr(1))
    moreover have "service_billings s3 = service_billings s2" by (simp add: z(2) link_request_def save_request_def split: option.split)
    moreover have "service_billings s4 = service_billings s3" "service_billings s = service_billings s4"
      using funds_only_fund [OF z(3)] same_rest_mark [OF z(4)] by (simp_all add: funds_only_def same_rest_def)
    ultimately show ?thesis using s1 z(5) by simp
  next
    case (Some i)
    then show ?thesis using a s1 unfolding prepare_deploy_charge_def pi by (auto simp: Let_def split: if_splits)
  qed
  then show "pc_product ch = p" "pc_price ch = x" "service_billings s = service_billings s0" by blast+
qed

lemma deployed_rows:
  assumes pv: "provisions env" and ok: "deploy_ok (db_store d)"
    and cs: "create_new_service env now d r kind body code k h = Inr (pl, d')"
  obtains p x b where "resolve_sellable_product (db_store d) (db_catalog d) (r_id r) code = Inr (p, x)"
    "service_billings (db_store d') = service_billings (db_store d) @ [b]" "sb_service_id b = dp_service_id pl" "sb_status b = SB_ACTIVE"
    "sb_reseller_id b = Some (r_id r)" "sb_product_id b = Some (pd_id p)" "sb_monthly_price_cents b = ep_monthly_cents x" "sb_next_charge_at b = Some (one_month_after now)"
    "\<exists>i. get_invoice (db_store d') (dp_invoice_id pl) = Some i \<and> inv_status i = PAID \<and> inv_service_id i = Some (dp_service_id pl) \<and>
       allocated_cents (db_store d') (dp_invoice_id pl) = inv_amount_cents i"
    "\<forall>r'. present k \<and> r_id r' = r_id r \<longrightarrow> lookup_idempotent_result (db_store d') r' k h = Inr (Some (dp_service_id pl, dp_invoice_id pl))"
proof -
  from cs obtain p x owner us ch s v d1 ps b t where a: "resolve_sellable_product (db_store d) (db_catalog d) (r_id r) code = Inr (p, x)"
    "prepare_deploy_charge (de_dialect env) (de_registry env) now (db_store d) r p x k h = Inr (ch, s)"
    "de_provision env (d\<lparr>db_users := us, db_store := s\<rparr>) owner body kind = Inr (v, d1)"
    "finalize_deploy now (db_store d1) (r_id r) (svc_id v) ch = Inr (b, t)" "d' = set_overrides (svc_id v) (denials ps) (d1\<lparr>db_store := t\<rparr>)"
    "pl = \<lparr>dp_service_id = svc_id v, dp_invoice_id = pc_invoice_id ch, dp_idempotent_replay = False\<rparr>"
    by (rule create_new_serviceE)
  have sb: "same_books s (db_store d1)" and gv: "get_service (db_store d1) (svc_id v) = Some v" using pv a(3) unfolding provisions_def by force+
  note pcf = prepared_product [OF ok a(2)]
  have st: "db_store d' = t" by (simp add: a(5) set_overrides_def)
  note f = finalize_deployD [OF a(4)]
  from deploy_charge_result [OF ok a(2)] obtain i where oks: "deploy_ok s" and i: "get_invoice s (pc_invoice_id ch) = Some i" "inv_status i = PAID"
    "allocated_cents s (pc_invoice_id ch) = inv_amount_cents i" by blast
  have ok1: "deploy_ok (db_store d1)" using same_books_ok [OF sb] oks by simp
  have i1: "get_invoice (db_store d1) (pc_invoice_id ch) = Some i" using i(1) sb by (simp add: same_books_def get_invoice_def)
  have inv: "\<exists>i. get_invoice (db_store d') (dp_invoice_id pl) = Some i \<and> inv_status i = PAID \<and> inv_service_id i = Some (dp_service_id pl) \<and>
       allocated_cents (db_store d') (dp_invoice_id pl) = inv_amount_cents i"
    using i i1 sb by (simp add: st a(6) get_invoice_def f(6) get_map_row allocated_cents_def f(4) same_books_def)
  have look: "lookup_idempotent_result (db_store d') r' k h = Inr (Some (dp_service_id pl, dp_invoice_id pl))" if k: "present k" and rr: "r_id r' = r_id r" for r'
  proof -
    from k obtain k' where k': "k = Some k'" "k' \<noteq> []" unfolding present_def by blast
    from prepare_request [OF ok a(2) [unfolded k'(1)] k'(2)] obtain q where q: "q \<in> set (provisioning_requests s)" "pc_request_id ch = Some (pr_id q)"
      "pr_reseller_id q = r_id r" "pr_idempotency_key q = k'" "pr_request_hash q = h" "pr_invoice_id q = Some (pc_invoice_id ch)" by blast
    have "q \<in> set (provisioning_requests (db_store d1))" using q(1) sb by (simp add: same_books_def)
    from finalize_lookup [OF _ this q(2) _ q(4-6) k'(2) i1 gv a(4), of r'] q(3) rr ok1 show ?thesis by (simp add: deploy_ok_def st a(6) k'(1))
  qed
  have bf: "service_billings (db_store d') = service_billings (db_store d) @ [b]" using f(1) sb pcf(3) by (simp add: st same_books_def)
  have look': "\<forall>r'. present k \<and> r_id r' = r_id r \<longrightarrow> lookup_idempotent_result (db_store d') r' k h = Inr (Some (dp_service_id pl, dp_invoice_id pl))" using look by blast
  show thesis by (rule that [OF a(1) bf _ _ _ _ _ _ inv look']) (simp_all add: a(6) f(2) deploy_billing_def pcf)
qed

lemma create_service_newE:
  assumes "create_service env now d r kind body key = Inr (pl, d')" "\<not> dp_idempotent_replay pl"
  obtains code k h where "create_new_service env now d r kind body code k h = Inr (pl, d')" "code = strip (the (dq_product_code body))"
proof -
  from assms(1) obtain code k h where c: "create_request_context env kind body key = Inr (code, k, h)" unfolding create_service_def by (auto split: sum.splits)
  have "code = strip (the (dq_product_code body))" using c by (cases "dq_product_code body") (simp_all add: create_request_context_def Let_def strip_Nil split: if_splits)
  moreover from assms c have "create_new_service env now d r kind body code k h = Inr (pl, d')"
    unfolding create_service_def by (auto split: sum.splits option.splits)
  ultimately show thesis by (rule that [rotated])
qed

text \<open>
  C4: a deployment is paid for. When a request returns a new service and provisioning keeps to its own tables, the service has a billing row that is active, at the price of
  the product, first charged one month later, and an invoice for the service that is stored as paid and covered exactly by succeeded payments; and the reseller
  was neither on hold nor overdrawn.
\<close>

theorem deployment_is_paid:
  assumes "provisions env" "deploy_ok (db_store d)" "create_service env now d r kind body key = Inr (pl, d')" "\<not> dp_idempotent_replay pl"
  shows "\<exists>p x b i. get_by_code (db_catalog d) (strip (the (dq_product_code body))) = Some p \<and> service_billings (db_store d') = service_billings (db_store d) @ [b] \<and>
    sb_service_id b = dp_service_id pl \<and> sb_status b = SB_ACTIVE \<and> sb_product_id b = Some (pd_id p) \<and>
    resolve_sellable_product (db_store d) (db_catalog d) (r_id r) (pd_code p) = Inr (p, x) \<and>
    sb_monthly_price_cents b = ep_monthly_cents x \<and> sb_next_charge_at b = Some (one_month_after now) \<and>
    get_invoice (db_store d') (dp_invoice_id pl) = Some i \<and> inv_status i = PAID \<and> inv_service_id i = Some (dp_service_id pl) \<and>
    allocated_cents (db_store d') (dp_invoice_id pl) = inv_amount_cents i \<and> \<not> billing_hold r \<and> 0 \<le> cached_balance_cents r"
proof -
  from assms(3,4) obtain code k h where cn: "create_new_service env now d r kind body code k h = Inr (pl, d')" and code: "code = strip (the (dq_product_code body))"
    by (rule create_service_newE)
  from cn have hold: "\<not> billing_hold r" "0 \<le> cached_balance_cents r" by (auto elim: create_new_serviceE)
  from assms(1,2) cn obtain p x b where a: "resolve_sellable_product (db_store d) (db_catalog d) (r_id r) code = Inr (p, x)"
    "service_billings (db_store d') = service_billings (db_store d) @ [b]" "sb_service_id b = dp_service_id pl" "sb_status b = SB_ACTIVE"
    "sb_product_id b = Some (pd_id p)" "sb_monthly_price_cents b = ep_monthly_cents x" "sb_next_charge_at b = Some (one_month_after now)"
    "\<exists>i. get_invoice (db_store d') (dp_invoice_id pl) = Some i \<and> inv_status i = PAID \<and> inv_service_id i = Some (dp_service_id pl) \<and>
       allocated_cents (db_store d') (dp_invoice_id pl) = inv_amount_cents i"
    by (rule deployed_rows)
  have p: "get_by_code (db_catalog d) code = Some p" using a(1) by (auto simp: resolve_sellable_product_def ebind_Inr_iff split: option.splits if_splits)
  then have pc: "pd_code p = code" by (auto simp: get_by_code_def find_Some_iff)
  from a(8) obtain i where i: "get_invoice (db_store d') (dp_invoice_id pl) = Some i" "inv_status i = PAID" "inv_service_id i = Some (dp_service_id pl)"
    "allocated_cents (db_store d') (dp_invoice_id pl) = inv_amount_cents i" by blast
  have "get_by_code (db_catalog d) (strip (the (dq_product_code body))) = Some p" "resolve_sellable_product (db_store d) (db_catalog d) (r_id r) (pd_code p) = Inr (p, x)"
    using p code a(1) pc by simp_all
  with a(2-7) i hold show ?thesis by (intro exI [of _ p] exI [of _ x] exI [of _ b] exI [of _ i] conjI)
qed

text \<open>
  C5: one deployment per key. A request that returned under an idempotency key is answered again, at any later time, with the same service and invoice; nothing is
  charged, provisioned or changed by the repetition.
\<close>

theorem deployment_replayed:
  assumes "provisions env" "deploy_ok (db_store d)" "create_service env now d r kind body key = Inr (pl, d')"
    "create_request_context env kind body key = Inr (code, Some k, h)" "r_id r' = r_id r" "\<not> dp_idempotent_replay pl"
  shows "create_service env now' d' r' kind body key = Inr (pl\<lparr>dp_idempotent_replay := True\<rparr>, d')"
proof -
  have cn: "create_new_service env now d r kind body code (Some k) h = Inr (pl, d')"
    using assms(3,4,6) unfolding create_service_def by (auto split: sum.splits option.splits)
  have k: "k \<noteq> []" using assms(4) by (auto simp: create_request_context_def Let_def split: if_splits)
  from assms(1,2) cn have "\<forall>r'. present (Some k) \<and> r_id r' = r_id r \<longrightarrow> lookup_idempotent_result (db_store d') r' (Some k) h = Inr (Some (dp_service_id pl, dp_invoice_id pl))"
    by (rule deployed_rows)
  then have "idempotent_replay_payload (db_store d') r' (Some k) h = Inr (Some (dp_service_id pl, dp_invoice_id pl))"
    using assms(5) k by (simp add: idempotent_replay_payload_def present_def)
  then show ?thesis using assms(4) by (simp add: create_service_def)
qed

section \<open>Card payments of a failed deployment\<close>

text \<open>
  C35: compensation does not touch payments. After a failed deployment of a newly charged request that compensation has completed, the void invoice still carries succeeded payments over its full amount: what a saved method contributed is neither
  refunded through its gateway nor credited to the wallet.
\<close>

theorem failed_deploy_keeps_card_charge:
  assumes "deploy_ok s" "prepare_deploy_charge dia reg now s r p x k h = Inr (ch, t)" "same_books t u" "compensate_failed_deploy False u r ch reason = Inr w"
    "list_all (\<lambda>q. pr_reseller_id q \<noteq> r_id r \<or> Some (pr_idempotency_key q) \<noteq> k) (provisioning_requests s)"
  shows "payments w = payments t \<and> allocated_cents w (pc_invoice_id ch) = ep_setup_cents x + ep_monthly_cents x \<and> balance_of w (r_id r) = balance_of s (r_id r)"
proof -
  note f = failed_deploy_result [OF assms(1-3,5)]
  from f(1) [of reason] obtain w' where "compensate_failed_deploy False u r ch reason = Inr w'" "\<forall>j. balance_of w' j = balance_of s j" "payments w' = payments u" by blast
  then have w: "balance_of w (r_id r) = balance_of s (r_id r)" "payments w = payments u" using assms(4) by simp_all
  from f(2) have "allocated_cents u (pc_invoice_id ch) = ep_setup_cents x + ep_monthly_cents x" unfolding charged_def by auto
  with w assms(3) show ?thesis by (simp add: same_books_def allocated_cents_def)
qed

section \<open>A session that cannot be used\<close>

lemma unfinished_request:
  assumes ok: "requests_ok s" and q: "q \<in> set (provisioning_requests s)" "pr_reseller_id q = r_id r" "pr_idempotency_key q = k" "pr_request_hash q = h" "pr_status q = REQ_PROCESSING" and k: "k \<noteq> []"
  shows "lookup_idempotent_result s r (Some k) h = Inl (IdempotencyConflictError ''Idempotent request is not finished'')"
proof -
  have "unique_on (\<lambda>q. Some (pr_reseller_id q, pr_idempotency_key q)) (provisioning_requests s)" using ok by (simp add: requests_ok_def unique_on_def comp_def)
  from unique_on_filter_single [OF this q(1), of "(r_id r, k)"] q(2,3)
  have "filter (\<lambda>q. pr_reseller_id q = r_id r \<and> pr_idempotency_key q = k) (provisioning_requests s) = [q]" by simp
  then show ?thesis using k q(4,5) by (simp add: lookup_idempotent_result_def get_provisioning_request_def present_def split: option.split)
qed

lemma new_request_processing:
  assumes "deploy_ok s" "prepare_deploy_charge dia reg now s r p x (Some k) h = Inr (ch, t)" "k \<noteq> []"
    and fresh: "list_all (\<lambda>q. pr_reseller_id q \<noteq> r_id r \<or> pr_idempotency_key q \<noteq> k) (provisioning_requests s)"
  shows "\<exists>q \<in> set (provisioning_requests t). pr_reseller_id q = r_id r \<and> pr_idempotency_key q = k \<and> pr_request_hash q = h \<and> pr_status q = REQ_PROCESSING"
proof -
  let ?q = "new_request s (r_id r) k h"
  have "filter (\<lambda>q. pr_reseller_id q = r_id r \<and> pr_idempotency_key q = k) (provisioning_requests s) = []"
    using fresh by (auto simp: filter_empty_conv list_all_iff)
  then have pi: "prepare_deploy_idempotency s (r_id r) (Some k) h = Inr (Some ?q, None, s\<lparr>provisioning_requests := provisioning_requests s @ [?q]\<rparr>)"
    using assms(3) by (simp add: prepare_deploy_idempotency_def get_provisioning_request_def present_def Let_def)
  let ?q' = "?q\<lparr>pr_invoice_id := Some (pc_invoice_id ch)\<rparr>"
  have "?q' \<in> set (put_row pr_id ?q' (provisioning_requests s @ [?q]))" by (rule put_row_mem [of ?q]) simp_all
  then have "?q' \<in> set (provisioning_requests t)"
    using prepare_charged(7) [OF assms(1) pi assms(2)] by (simp add: link_request_def save_request_def)
  then show ?thesis by (rule bexI [rotated]) (simp add: new_request_def)
qed

text \<open>
  A failed flush keeps the charge. When provisioning of a request charged under a new key fails in a flush or a commit, for instance for a name that is longer than its column,
  compensation raises because nobody has rolled the session back: the handler answers with \<open>PendingRollbackError\<close>, the reseller keeps the balance it had after the charge, the invoice stays
  paid, and a repetition under the key is refused as unfinished.
\<close>

theorem broken_session_keeps_charge:
  assumes "deploy_ok s" "prepare_deploy_charge dia reg now s r p x (Some k) h = Inr (ch, t)" "k \<noteq> []"
    and fresh: "list_all (\<lambda>q. pr_reseller_id q \<noteq> r_id r \<or> pr_idempotency_key q \<noteq> k) (provisioning_requests s)"
    and fails: "de_provision env (d\<lparr>db_store := t\<rparr>) owner body kind = Inl (e, True, d1)" "same_books t (db_store d1)"
  shows "provision_charged_service env now (d\<lparr>db_store := t\<rparr>) r owner body kind ch = Inl (PendingRollbackError, d1) \<and>
    (\<forall>j. balance_of (db_store d1) j = balance_of t j) \<and>
    (\<exists>i. get_invoice (db_store d1) (pc_invoice_id ch) = Some i \<and> inv_status i = PAID) \<and>
    lookup_idempotent_result (db_store d1) r (Some k) h = Inl (IdempotencyConflictError ''Idempotent request is not finished'')"
proof -
  have run: "provision_charged_service env now (d\<lparr>db_store := t\<rparr>) r owner body kind ch = Inl (PendingRollbackError, d1)"
    using fails(1) by (simp add: provision_charged_service_def provision_and_finalize_def compensate_failed_deploy_def)
  have balance: "balance_of (db_store d1) j = balance_of t j" for j using fails(2) by (simp add: same_books_def balance_of_def get_reseller_def)
  from new_request_processing [OF assms(1-4)] obtain q where q: "q \<in> set (provisioning_requests t)" "pr_reseller_id q = r_id r" "pr_idempotency_key q = k" "pr_request_hash q = h" "pr_status q = REQ_PROCESSING"
    by blast
  have f: "list_all (\<lambda>q. pr_reseller_id q \<noteq> r_id r \<or> Some (pr_idempotency_key q) \<noteq> Some k) (provisioning_requests s)" using fresh by simp
  from failed_deploy_result [OF assms(1,2) fails(2) f] have "charged s (db_store d1) r x ch" by blast
  then obtain i where i: "get_invoice (db_store d1) (pc_invoice_id ch) = Some i" "inv_status i = PAID" unfolding charged_def by blast
  from failed_deploy_result(3) [OF assms(1,2) fails(2) f] have "deploy_ok (db_store d1)" .
  then have "requests_ok (db_store d1)" by (simp add: deploy_ok_def)
  from unfinished_request [OF this _ q(2-5) assms(3)] q(1) fails(2)
  have "lookup_idempotent_result (db_store d1) r (Some k) h = Inl (IdempotencyConflictError ''Idempotent request is not finished'')" by (simp add: same_books_def)
  with run balance i show ?thesis by blast
qed

section \<open>Concrete deployments\<close>

definition sample_machine :: "int \<Rightarrow> service" where
  "sample_machine i = \<lparr>svc_id = i, svc_name = ''web'', svc_type = VM, svc_status = SVC_ACTIVE, svc_config = [], svc_product_snapshot = [], svc_vm = None\<rparr>"

definition sample_provision :: "bool \<Rightarrow> deploy_db \<Rightarrow> user \<Rightarrow> deploy_body \<Rightarrow> string \<Rightarrow> (exn \<times> bool \<times> deploy_db) + (service \<times> deploy_db)" where
  "sample_provision works d owner body kind =
     (let v = sample_machine (fresh_id svc_id (services (db_store d))) in
      if \<not> works then Inl (IntegrityError, True, d)
      else Inr (v, d\<lparr>db_store := (db_store d)\<lparr>services := services (db_store d) @ [v]\<rparr>,
        db_access := db_access d @ [sample_access\<lparr>sa_service_id := svc_id v\<rparr>]\<rparr>))"

definition sample_deploy_env :: "bool \<Rightarrow> deploy_env" where
  "sample_deploy_env works = \<lparr>de_dialect = Other_Dialect, de_registry = sample_registry GW_SUCCEEDED, de_sha256 = (\<lambda>_. ''abcdef0123456789''),
     de_request_hash = (\<lambda>kind body. kind @ (case dq_product_code body of None \<Rightarrow> [] | Some c \<Rightarrow> c)),
     de_provision = sample_provision works, de_cleanup = (\<lambda>d owner body v. d), de_reason = exn_name\<rparr>"

definition sample_body :: deploy_body where
  "sample_body = \<lparr>dq_product_code = Some ''vm-s'', dq_service_type = None, dq_external_service_id = None, dq_external_user_id = ''7'',
     dq_external_username = None, dq_external_email = None, dq_service_config = [], dq_proxmox_cluster_id = None\<rparr>"

definition sample_deploy :: deploy_db where
  "sample_deploy = \<lparr>db_store = sample_funding, db_catalog = sample_catalog, db_users = sample_users, db_access = [], db_external = []\<rparr>"

definition sample_price :: effective_price where
  "sample_price = \<lparr>ep_product_id = 1, ep_setup_cents = 100, ep_monthly_cents = 600, ep_currency = ''USD'', ep_setup_source = ''base'', ep_monthly_source = ''base''\<rparr>"

definition sample_product :: product where
  "sample_product = hd (products sample_catalog)"

lemma sample_provisions: "provisions (sample_deploy_env works)"
proof -
  have "get_service (s\<lparr>services := services s @ [sample_machine (fresh_id svc_id (services s))]\<rparr>) (fresh_id svc_id (services s)) = Some (sample_machine (fresh_id svc_id (services s)))" for s
    using get_row_fresh [of svc_id "services s"] by (simp add: get_service_def get_row_append sample_machine_def)
  then show ?thesis
    by (auto simp: provisions_def sample_deploy_env_def sample_provision_def same_books_def Let_def sample_machine_def [of "fresh_id _ _"] split: if_splits)
qed

lemma sample_deploy_ok: "deploy_ok sample_funding"
  using sample_funding_ok by (simp add: deploy_ok_def books_ok_def requests_ok_def sample_funding_def empty_store_def sample_entry_def)

abbreviation "sample_charge \<equiv> prepare_deploy_charge Other_Dialect (sample_registry GW_SUCCEEDED) 7 sample_funding (sample_reseller 1 500) sample_product sample_price (Some ''k1'') ''h''"

lemma sample_charge_run:
  "\<exists>ch t. sample_charge = Inr (ch, t) \<and> pc_invoice_id ch = 3 \<and> pc_entry_ids ch = [2] \<and> balance_of t 1 = 0 \<and> map pay_amount_cents (payments t) = [500, 200] \<and> services t = []"
proof -
  have "(case sample_charge of Inl _ \<Rightarrow> None | Inr (ch, t) \<Rightarrow> Some (pc_invoice_id ch, pc_entry_ids ch, balance_of t 1, map pay_amount_cents (payments t), map svc_id (services t))) = Some (3, [2], 0, [500, 200], [])"
    by code_simp
  then show ?thesis by (auto split: sum.splits)
qed

lemma sample_no_requests: "list_all P (provisioning_requests sample_funding)"
  by (simp add: sample_funding_def empty_store_def)

theorem deploy_charge_sound_witness:
  "\<exists>ch t i. sample_charge = Inr (ch, t) \<and> get_invoice t 3 = Some i \<and> inv_status i = PAID \<and> inv_amount_cents i = 700 \<and> allocated_cents t 3 = 700 \<and> deploy_ok t"
proof -
  obtain ch t where t: "sample_charge = Inr (ch, t)" "pc_invoice_id ch = 3" using sample_charge_run by blast
  note c = deploy_charge_sound [OF sample_deploy_ok t(1)]
  have "\<not> (\<exists>q \<in> set (provisioning_requests sample_funding). pr_reseller_id q = r_id (sample_reseller 1 500) \<and> Some (pr_idempotency_key q) = Some ''k1'')"
    using sample_no_requests [of "\<lambda>_. False"] by (simp add: list_all_iff)
  with c have ok: "deploy_ok t" "charged sample_funding t (sample_reseller 1 500) sample_price ch" by blast+
  then obtain i where "get_invoice t 3 = Some i" "inv_status i = PAID" "inv_amount_cents i = 700" "allocated_cents t 3 = inv_amount_cents i"
    unfolding charged_def t(2) by (auto simp: sample_price_def)
  with t(1) ok(1) show ?thesis by (intro exI [of _ ch] exI [of _ t] exI [of _ i]) simp
qed

theorem failed_deploy_restores_wallet_witness:
  "\<exists>ch t w. sample_charge = Inr (ch, t) \<and> balance_of t 1 = 0 \<and> compensate_failed_deploy False t (sample_reseller 1 500) ch ''no node'' = Inr w \<and> balance_of w 1 = 500 \<and> deploy_ok w"
proof -
  obtain ch t where t: "sample_charge = Inr (ch, t)" "balance_of t 1 = 0" using sample_charge_run by blast
  have sb: "same_books t t" by (simp add: same_books_def)
  from failed_deploy_restores_wallet [OF sample_deploy_ok t(1) sb sample_no_requests, of "''no node''"] obtain w where
    w: "compensate_failed_deploy False t (sample_reseller 1 500) ch ''no node'' = Inr w" "deploy_ok w" "\<forall>j. balance_of w j = balance_of sample_funding j" by blast
  have "balance_of sample_funding 1 = 500" by code_simp
  with w(3) have "balance_of w 1 = 500" by simp
  with t w show ?thesis by (intro exI [of _ ch] exI [of _ t] exI [of _ w] conjI)
qed

theorem failed_deploy_keeps_card_charge_witness:
  "\<exists>ch t w. sample_charge = Inr (ch, t) \<and> compensate_failed_deploy False t (sample_reseller 1 500) ch ''no node'' = Inr w \<and>
     map pay_amount_cents (payments w) = [500, 200] \<and> allocated_cents w 3 = 700 \<and> balance_of w 1 = 500"
proof -
  obtain ch t where t: "sample_charge = Inr (ch, t)" "pc_invoice_id ch = 3" "map pay_amount_cents (payments t) = [500, 200]" using sample_charge_run by (elim exE conjE) (rule that)
  have sb: "same_books t t" by (simp add: same_books_def)
  from failed_deploy_result(1) [OF sample_deploy_ok t(1) sb sample_no_requests, of "''no node''"] obtain w where
    w: "compensate_failed_deploy False t (sample_reseller 1 500) ch ''no node'' = Inr w" by blast
  have "balance_of sample_funding 1 = 500" by code_simp
  with failed_deploy_keeps_card_charge [OF sample_deploy_ok t(1) sb w sample_no_requests] t(2,3)
  have "map pay_amount_cents (payments w) = [500, 200]" "allocated_cents w 3 = 700" "balance_of w 1 = 500"
    by (simp_all add: sample_price_def sample_reseller_def)
  with t(1) w show ?thesis by (intro exI [of _ ch] exI [of _ t] exI [of _ w] conjI)
qed

theorem broken_session_keeps_charge_witness:
  "\<exists>ch t d1. sample_charge = Inr (ch, t) \<and> balance_of sample_funding 1 = 500 \<and>
     provision_charged_service (sample_deploy_env False) 7 (sample_deploy\<lparr>db_store := t\<rparr>) (sample_reseller 1 500) (hd sample_users) sample_body ''vm'' ch = Inl (PendingRollbackError, d1) \<and>
     balance_of (db_store d1) 1 = 0 \<and> services (db_store d1) = [] \<and>
     lookup_idempotent_result (db_store d1) (sample_reseller 1 500) (Some ''k1'') ''h'' = Inl (IdempotencyConflictError ''Idempotent request is not finished'')"
proof -
  obtain ch t where t: "sample_charge = Inr (ch, t)" "balance_of t 1 = 0" "services t = []" using sample_charge_run by (elim exE conjE) (rule that)
  let ?d = "sample_deploy\<lparr>db_store := t\<rparr>"
  have p: "de_provision (sample_deploy_env False) ?d (hd sample_users) sample_body ''vm'' = Inl (IntegrityError, True, ?d)" "same_books t (db_store ?d)"
    by (simp_all add: sample_deploy_env_def sample_provision_def same_books_def)
  have k: "''k1'' \<noteq> []" by simp
  note b = broken_session_keeps_charge [OF sample_deploy_ok t(1) k sample_no_requests p]
  have "balance_of sample_funding 1 = 500" by code_simp
  with b t show ?thesis by (intro exI [of _ ch] exI [of _ t] exI [of _ ?d]) simp
qed

abbreviation "sample_create \<equiv> create_service (sample_deploy_env True) 7 sample_deploy (sample_reseller 1 500) ''vm'' sample_body (Some ''k1'')"

lemma sample_create_run:
  "\<exists>pl d. sample_create = Inr (pl, d) \<and> pl = \<lparr>dp_service_id = 1, dp_invoice_id = 3, dp_idempotent_replay = False\<rparr> \<and> map sa_service_id (db_access d) = [1]"
proof -
  have "(case sample_create of Inl _ \<Rightarrow> None | Inr (pl, d) \<Rightarrow> Some (dp_service_id pl, dp_invoice_id pl, dp_idempotent_replay pl, map sa_service_id (db_access d))) = Some (1, 3, False, [1])"
    by code_simp
  then obtain pl d where "sample_create = Inr (pl, d)" "dp_service_id pl = 1" "dp_invoice_id pl = 3" "\<not> dp_idempotent_replay pl" "map sa_service_id (db_access d) = [1]" by (auto split: sum.splits)
  then show ?thesis by (intro exI [of _ pl] exI [of _ d]) simp
qed

theorem deployment_is_paid_witness:
  "\<exists>pl d i. sample_create = Inr (pl, d) \<and> dp_service_id pl = 1 \<and> get_invoice (db_store d) 3 = Some i \<and> inv_status i = PAID \<and> inv_service_id i = Some 1"
proof -
  obtain pl d where r: "sample_create = Inr (pl, d)" and pl: "pl = \<lparr>dp_service_id = 1, dp_invoice_id = 3, dp_idempotent_replay = False\<rparr>" using sample_create_run by blast
  have ok: "deploy_ok (db_store sample_deploy)" using sample_deploy_ok by (simp add: sample_deploy_def)
  have "\<not> dp_idempotent_replay pl" by (simp add: pl)
  from deployment_is_paid [OF sample_provisions ok r this] obtain i where
    "get_invoice (db_store d) (dp_invoice_id pl) = Some i" "inv_status i = PAID" "inv_service_id i = Some (dp_service_id pl)" by blast
  with r show ?thesis by (intro exI [of _ pl] exI [of _ d] exI [of _ i]) (simp add: pl)
qed

theorem deployment_replayed_witness:
  "\<exists>pl d. sample_create = Inr (pl, d) \<and>
     create_service (sample_deploy_env True) 99 d (sample_reseller 1 0) ''vm'' sample_body (Some ''k1'') = Inr (\<lparr>dp_service_id = 1, dp_invoice_id = 3, dp_idempotent_replay = True\<rparr>, d)"
proof -
  obtain pl d where r: "sample_create = Inr (pl, d)" and pl: "pl = \<lparr>dp_service_id = 1, dp_invoice_id = 3, dp_idempotent_replay = False\<rparr>" using sample_create_run by blast
  have ok: "deploy_ok (db_store sample_deploy)" using sample_deploy_ok by (simp add: sample_deploy_def)
  have c: "create_request_context (sample_deploy_env True) ''vm'' sample_body (Some ''k1'') = Inr (''vm-s'', Some ''k1'', ''vmvm-s'')" by code_simp
  have id: "r_id (sample_reseller 1 0) = r_id (sample_reseller 1 500)" by (simp add: sample_reseller_def)
  have "\<not> dp_idempotent_replay pl" by (simp add: pl)
  from deployment_replayed [OF sample_provisions ok r c id this, of 99] r show ?thesis by (intro exI [of _ pl] exI [of _ d]) (simp add: pl)
qed

section \<open>Quotas\<close>

lemma quotas_of_head:
  "quotas_of s c rid ((ty, i) # scopes) = Inr qs \<Longrightarrow> get_effective_stock_quota s c rid ty i = Inr (Some q) \<Longrightarrow> q \<in> set qs"
  by (auto simp: ebind_Inr_iff)

lemma enforce_each_member: "enforce_each s rid req qs = Inr () \<Longrightarrow> q \<in> set qs \<Longrightarrow>
    enforce_quota s q (scope_billings s rid (sq_scope_type q) (sq_scope_id q)) req = Inr ()"
  by (induction qs) (auto simp: ebind_Inr_iff)

lemma effective_quota_scope: "get_effective_stock_quota s c rid ty i = Inr (Some q) \<Longrightarrow> sq_scope_type q = ty \<and> sq_scope_id q = i"
proof -
  have f: "P q" if "scalar_one_or_none (filter P xs) = Inr (Some q)" for P :: "stock_quota \<Rightarrow> bool" and xs
  proof -
    have "q \<in> set (filter P xs)" using that by (simp add: scalar_iffs)
    then show ?thesis by simp
  qed
  assume "get_effective_stock_quota s c rid ty i = Inr (Some q)"
  then show ?thesis unfolding get_effective_stock_quota_def Let_def by (auto simp: ebind_Inr_iff split: option.splits dest!: f)
qed

lemma length_scope_billings:
  "length (scope_billings s rid PRODUCT i) = length (filter (\<lambda>b. sb_product_id b = Some i \<and> sb_reseller_id b = Some rid \<and> sb_status b \<in> set counted_statuses) (service_billings s))"
proof -
  have "length (scope_billings s rid PRODUCT i) = length (filter (\<lambda>b. sb_product_id b = Some i) (list_service_billings s rid counted_statuses))"
    by (simp add: scope_billings_def billing_matches_scope_def)
  also have "\<dots> = length (filter (\<lambda>b. sb_product_id b = Some i) (filter (\<lambda>b. sb_reseller_id b = Some rid \<and> sb_status b \<in> set counted_statuses) (service_billings s)))"
    unfolding list_service_billings_def filter_sort length_sort by (simp add: counted_statuses_def)
  finally show ?thesis by (simp add: conj_commute)
qed

text \<open>
  C7: a product quota is not exceeded. When a request deploys a product for which an enabled quota of the reseller, or else of its group, limits the number of services, then
  afterwards the reseller has at most that many services of the product that are active, past due, in grace or suspended for nonpayment.
\<close>

theorem quota_respected:
  assumes "provisions env" "deploy_ok (db_store d)" "create_service env now d r kind body key = Inr (pl, d')" "\<not> dp_idempotent_replay pl"
    "get_by_code (db_catalog d) (strip (the (dq_product_code body))) = Some p"
    "get_effective_stock_quota (db_store d) (db_catalog d) (r_id r) PRODUCT (pd_id p) = Inr (Some q)" "sq_max_services q = Some n"
  shows "int (length (scope_billings (db_store d') (r_id r) PRODUCT (pd_id p))) \<le> n"
proof -
  from assms(3,4) obtain code k h where cn: "create_new_service env now d r kind body code k h = Inr (pl, d')" and code: "code = strip (the (dq_product_code body))"
    by (rule create_service_newE)
  from cn obtain p' x us where a: "resolve_sellable_product (db_store d) (db_catalog d) (r_id r) code = Inr (p', x)"
    "enforce_create_quotas (d\<lparr>db_users := us\<rparr>) (r_id r) p' body kind = Inr ()" by (rule create_new_serviceE)
  have p': "p' = p" using a(1) assms(5) code by (auto simp: resolve_sellable_product_def ebind_Inr_iff split: option.splits if_splits)
  from assms(1,2) cn obtain p'' x'' b where b: "resolve_sellable_product (db_store d) (db_catalog d) (r_id r) code = Inr (p'', x'')"
    "service_billings (db_store d') = service_billings (db_store d) @ [b]" by (rule deployed_rows)
  from a(2) obtain sg pc where "enforce_quotas (db_store d) (db_catalog d) (r_id r) p sg pc = Inr ()"
    unfolding enforce_create_quotas_def Let_def p' by (auto split: sum.splits)
  then obtain scopes qs where s: "quota_scopes (pd_id p) sg pc = Inr scopes" "quotas_of (db_store d) (db_catalog d) (r_id r) scopes = Inr qs"
    and e: "enforce_each (db_store d) (r_id r) (resource_values (effective_specs (db_catalog d) p)) qs = Inr ()"
    by (auto simp: enforce_quotas_def locked_quotas_def ebind_Inr_iff split: option.splits if_splits)
  from s(1) obtain rest where "scopes = (PRODUCT, pd_id p) # rest" by (auto simp: quota_scopes_def ebind_Inr_iff)
  then have "q \<in> set qs" using quotas_of_head [of "db_store d" "db_catalog d" "r_id r" PRODUCT "pd_id p" rest qs q] s(2) assms(6) by simp
  from enforce_each_member [OF e this] effective_quota_scope [OF assms(6)] assms(7)
  have "int (length (scope_billings (db_store d) (r_id r) PRODUCT (pd_id p))) + 1 \<le> n"
    by (auto simp: enforce_quota_def over_def split: if_splits)
  moreover have "length (scope_billings (db_store d') (r_id r) PRODUCT (pd_id p)) \<le> length (scope_billings (db_store d) (r_id r) PRODUCT (pd_id p)) + 1"
    by (simp add: length_scope_billings b(2))
  ultimately show ?thesis by simp
qed

theorem quota_respected_witness:
  "\<exists>pl d. sample_create = Inr (pl, d) \<and> int (length (scope_billings (db_store d) 1 PRODUCT 1)) \<le> 1"
proof -
  obtain pl d where r: "sample_create = Inr (pl, d)" and pl: "pl = \<lparr>dp_service_id = 1, dp_invoice_id = 3, dp_idempotent_replay = False\<rparr>" using sample_create_run by blast
  have ok: "deploy_ok (db_store sample_deploy)" using sample_deploy_ok by (simp add: sample_deploy_def)
  have nr: "\<not> dp_idempotent_replay pl" by (simp add: pl)
  define q where "q = hd (stock_quotas sample_catalog)"
  have g: "get_by_code (db_catalog sample_deploy) (strip (the (dq_product_code sample_body))) = Some sample_product"
    "get_effective_stock_quota (db_store sample_deploy) (db_catalog sample_deploy) (r_id (sample_reseller 1 500)) PRODUCT (pd_id sample_product) = Inr (Some q)"
    "sq_max_services q = Some 1" unfolding q_def by code_simp+
  have id: "r_id (sample_reseller 1 500) = 1" "pd_id sample_product = 1" by code_simp+
  from quota_respected [OF sample_provisions ok r nr g] r show ?thesis unfolding id by (intro exI [of _ pl] exI [of _ d] conjI)
qed

section \<open>Client permissions of a deployed service\<close>






end
