(* ===== verification/Storefront.thy ===== *)
theory Storefront
  imports Invoices Catalog Clients
begin

text \<open>
  The storefront as checkout reads it, and the price of an order: products with plans and options
  (\<open>app/models/storefront.py\<close>, \<open>app/dao/storefront_dao.py\<close>), billing accounts and profiles
  (\<open>app/models/commerce_account.py\<close>), coupons and tax rates (\<open>app/models/commerce_coupon_tax.py\<close>), the
  rows of orders (\<open>app/models/commerce_order.py\<close>), and \<open>quote\<close> with its helpers
  (\<open>app/services/checkout_service.py\<close>). The text Python gives for a container used as an option value is a
  parameter, as is the clock. An em dash in a description is the character 0x97.
\<close>

section \<open>Rows\<close>

datatype PricePlanPricingModel = RECURRING | ONE_TIME | FREE

datatype PricePlanInterval = MONTHLY | QUARTERLY | SEMIANNUALLY | ANNUALLY

datatype ProductOptionType = SELECT | TEXT

datatype CouponAppliesTo = APPLIES_ALL | APPLIES_PRODUCT | APPLIES_CATEGORY

datatype BillingAccountType = CLIENT | RESELLER

datatype OrderStatus = DRAFT_CART | PENDING_PAYMENT | PENDING_ACCEPTANCE | PAID_PENDING_FULFILLMENT
  | FULFILLING | ORDER_ACTIVE | ORDER_CANCELLED | FRAUD | PROVISION_ERROR

record price_plan_cycle =
  cy_interval :: PricePlanInterval
  cy_price_cents :: int
  cy_enabled :: bool

record price_plan =
  pl_id :: int
  pl_currency :: string
  pl_pricing_model :: PricePlanPricingModel
  pl_setup_cents :: int
  pl_enabled :: bool
  pl_name :: string
  pl_cycles :: "price_plan_cycle list"

record product_option_value =
  ov_code :: string
  ov_name :: string
  ov_sort_order :: int
  ov_provision_key :: "string option"
  ov_provision_value :: "string option"
  ov_price_delta_cents :: int
  ov_enabled :: bool

record product_option =
  op_code :: string
  op_name :: string
  op_required :: bool
  op_sort_order :: int
  op_type :: ProductOptionType
  op_values :: "product_option_value list"

record frontend_product =
  fp_id :: int
  fp_name :: string
  fp_category_id :: "int option"
  fp_product_id :: int
  fp_service_type :: string
  fp_enabled :: bool
  fp_permission_set_id :: "int option"
  fp_price_plans :: "price_plan list"
  fp_options :: "product_option list"

record billing_account =
  ba_id :: int
  ba_account_type :: BillingAccountType
  ba_user_id :: "int option"
  ba_reseller_id :: "int option"
  ba_currency :: string
  ba_tax_exempt :: bool

record billing_profile =
  bf_billing_account_id :: int
  bf_region :: "string option"
  bf_country :: "string option"

record coupon =
  cn_id :: int
  cn_code :: string
  cn_percent_off :: "int option"
  cn_amount_off_cents :: "int option"
  cn_applies_to :: CouponAppliesTo
  cn_frontend_product_id :: "int option"
  cn_category_id :: "int option"
  cn_max_uses :: "int option"
  cn_used_count :: int
  cn_starts_at :: "instant option"
  cn_expires_at :: "instant option"
  cn_enabled :: bool

record coupon_redemption =
  cr_coupon_id :: int
  cr_billing_account_id :: int
  cr_order_id :: int

record tax_rate =
  tr_country :: string
  tr_region :: "string option"
  tr_rate_bps :: int
  tr_enabled :: bool

record shop_order =
  od_id :: int
  od_order_number :: int
  od_billing_account_id :: int
  od_user_id :: int
  od_status :: OrderStatus
  od_currency :: string
  od_setup_cents :: int
  od_recurring_cents :: int
  od_tax_cents :: int
  od_discount_cents :: int
  od_total_cents :: int
  od_coupon_code :: "string option"
  od_terms_version :: string
  od_terms_accepted_at :: instant
  od_checkout_nonce :: "string option"
  od_client_ip :: "string option"
  od_invoice_id :: "int option"
  od_admin_notes :: string
  od_accepted_at :: "instant option"
  od_accepted_by_user_id :: "int option"

record order_status_history =
  oh_order_id :: int
  oh_from_status :: "OrderStatus option"
  oh_to_status :: OrderStatus
  oh_actor_user_id :: "int option"
  oh_note :: string

record invoice_line =
  il_invoice_id :: int
  il_description :: string
  il_quantity :: int
  il_unit_cents :: int
  il_total_cents :: int
  il_tax_cents :: int
  il_sort_order :: int
  il_order_item_id :: "int option"

record email_message =
  em_idempotency_key :: string
  em_to_address :: string
  em_event :: string
  em_billing_account_id :: "int option"
  em_user_id :: "int option"
  em_related_type :: "string option"
  em_related_id :: "string option"

record webhook_endpoint =
  wh_id :: int
  wh_events :: "string list"
  wh_enabled :: bool

record webhook_delivery =
  wd_endpoint_id :: int
  wd_event :: string
  wd_payload :: dict

record audit_event =
  au_actor_user_id :: "int option"
  au_billing_account_id :: "int option"
  au_action :: string
  au_resource_id :: string

text \<open>The owner and the external id of a service.\<close>

record service_link =
  sl_service_id :: int
  sl_owner_user_id :: "int option"
  sl_external_service_id :: "string option"

record vm_template_mapping =
  tm_product_id :: int
  tm_vm_template_id :: int
  tm_template_name :: string
  tm_template_enabled :: bool

text \<open>The database of the shop: the billing tables (with the order items), the catalog, and the shop's own tables.\<close>

record shop =
  sh_store :: store
  sh_catalog :: catalog
  sh_users :: "user list"
  sh_links :: "service_link list"
  vm_template_mappings :: "vm_template_mapping list"
  frontend_products :: "frontend_product list"
  billing_accounts :: "billing_account list"
  billing_profiles :: "billing_profile list"
  coupons :: "coupon list"
  redemptions :: "coupon_redemption list"
  tax_rates :: "tax_rate list"
  orders :: "shop_order list"
  order_sequence :: "int option"
  order_history :: "order_status_history list"
  invoice_lines :: "invoice_line list"
  emails :: "email_message list"
  webhook_endpoints :: "webhook_endpoint list"
  webhook_deliveries :: "webhook_delivery list"
  audit_events :: "audit_event list"

section \<open>Options and prices\<close>

text \<open>\<open>get_product_with_plans\<close>; options and their values come in their sort order.\<close>

definition with_sorted_options :: "frontend_product \<Rightarrow> frontend_product" where
  "with_sorted_options p = p\<lparr>fp_options := sort_key op_sort_order
     (map (\<lambda>x. x\<lparr>op_values := sort_key ov_sort_order (op_values x)\<rparr>) (fp_options p))\<rparr>"

definition load_product_bundle :: "shop \<Rightarrow> int \<Rightarrow> frontend_product res" where
  "load_product_bundle s frontend_product_id =
     (case get_row fp_id frontend_product_id (frontend_products s) of
        None \<Rightarrow> Inl (CheckoutError ''Product is unavailable'')
      | Some p \<Rightarrow> if \<not> fp_enabled p then Inl (CheckoutError ''Product is unavailable'') else Inr (with_sorted_options p))"

definition interval_of :: "string \<Rightarrow> PricePlanInterval option" where
  "interval_of v =
     (if v = ''monthly'' then Some MONTHLY else if v = ''quarterly'' then Some QUARTERLY
      else if v = ''semiannually'' then Some SEMIANNUALLY else if v = ''annually'' then Some ANNUALLY else None)"

definition resolve_cycle_price :: "price_plan \<Rightarrow> string option \<Rightarrow> (int \<times> int) res" where
  "resolve_cycle_price plan cycle_interval =
     (case pl_pricing_model plan of
        FREE \<Rightarrow> Inr (0, 0)
      | ONE_TIME \<Rightarrow>
          Inr (pl_setup_cents plan, case List.find cy_enabled (pl_cycles plan) of None \<Rightarrow> 0 | Some c \<Rightarrow> cy_price_cents c)
      | RECURRING \<Rightarrow>
          if cycle_interval = None \<or> cycle_interval = Some [] then Inl (CheckoutError ''Billing cycle is required for recurring plans'')
          else case interval_of (the cycle_interval) of
            None \<Rightarrow> Inl (CheckoutError ''Invalid billing cycle'')
          | Some interval \<Rightarrow>
              (case List.find (\<lambda>c. cy_enabled c \<and> cy_interval c = interval) (pl_cycles plan) of
                 None \<Rightarrow> Inl (CheckoutError ''Selected billing cycle is unavailable'')
               | Some c \<Rightarrow> Inr (pl_setup_cents plan, cy_price_cents c)))"

text \<open>\<open>str(raw)\<close> of a JSON value; containers are left to the parameter.\<close>

fun py_str :: "(json \<Rightarrow> string) \<Rightarrow> json \<Rightarrow> string" where
  "py_str rep (JStr s) = s"
| "py_str rep (JInt i) = show_int i"
| "py_str rep (JBool b) = (if b then ''True'' else ''False'')"
| "py_str rep JNull = ''None''"
| "py_str rep v = rep v"

definition resolve_option_value :: "(json \<Rightarrow> string) \<Rightarrow> product_option \<Rightarrow> json \<Rightarrow> product_option_value res" where
  "resolve_option_value rep opt raw =
     (case List.find (\<lambda>row. ov_enabled row \<and> ov_code row = py_str rep raw) (op_values opt) of
        None \<Rightarrow> Inl (CheckoutError (''Invalid option value for '' @ op_name opt))
      | Some v \<Rightarrow> Inr v)"

definition opt_json :: "string option \<Rightarrow> json" where
  "opt_json x = (case x of None \<Rightarrow> JNull | Some s \<Rightarrow> JStr s)"

definition selected_json :: "product_option_value \<Rightarrow> json" where
  "selected_json v = JObj [(''value_code'', JStr (ov_code v)), (''name'', JStr (ov_name v)),
     (''provision_key'', opt_json (ov_provision_key v)), (''provision_value'', opt_json (ov_provision_value v))]"

text \<open>The loop over the options, with the selections made so far and the sum of their price deltas.\<close>

fun normalize_loop :: "(json \<Rightarrow> string) \<Rightarrow> dict \<Rightarrow> product_option list \<Rightarrow> dict \<Rightarrow> int \<Rightarrow> (dict \<times> int) res" where
  "normalize_loop rep selected [] normalized delta = Inr (normalized, delta)"
| "normalize_loop rep selected (opt # opts) normalized delta =
     (let raw = (case map_of selected (op_code opt) of None \<Rightarrow> JNull | Some v \<Rightarrow> v) in
      if raw = JNull \<or> raw = JStr [] then
        (if op_required opt then Inl (CheckoutError (''Required option missing: '' @ op_name opt))
         else normalize_loop rep selected opts normalized delta)
      else if op_type opt = SELECT then
        ebind (resolve_option_value rep opt raw) (\<lambda>v.
        normalize_loop rep selected opts (dict_set normalized (op_code opt) (selected_json v)) (delta + ov_price_delta_cents v))
      else normalize_loop rep selected opts (dict_set normalized (op_code opt) (JObj [(''text'', JStr (py_str rep raw))])) delta)"

definition normalize_options :: "(json \<Rightarrow> string) \<Rightarrow> frontend_product \<Rightarrow> dict \<Rightarrow> (dict \<times> int) res" where
  "normalize_options rep p options = normalize_loop rep options (fp_options p) [] 0"

section \<open>Coupons and tax\<close>

text \<open>
  The dates of a coupon come back from the database without a time zone, and Python refuses to compare them with the aware
  current time: a coupon that has a start or an end raises \<open>TypeError\<close> whenever it is used.
\<close>

definition find_coupon :: "instant \<Rightarrow> shop \<Rightarrow> string option \<Rightarrow> frontend_product \<Rightarrow> coupon option res" where
  "find_coupon now s coupon_code p =
     (if coupon_code = None \<or> coupon_code = Some [] then Inr None
      else ebind (scalar_one_or_none (filter (\<lambda>c. lower (cn_code c) = lower (strip (the coupon_code)) \<and> cn_enabled c) (coupons s))) (\<lambda>found.
      case found of
        None \<Rightarrow> Inl (CheckoutError ''Coupon code is invalid'')
      | Some c \<Rightarrow>
          if cn_starts_at c \<noteq> None \<or> cn_expires_at c \<noteq> None then Inl (TypeError ''can't compare offset-naive and offset-aware datetimes'')
          else if (case cn_max_uses c of None \<Rightarrow> False | Some m \<Rightarrow> m \<le> cn_used_count c) then Inl (CheckoutError ''Coupon usage limit reached'')
          else if cn_applies_to c = APPLIES_PRODUCT \<and> cn_frontend_product_id c \<noteq> Some (fp_id p)
          then Inl (CheckoutError ''Coupon does not apply to this product'')
          else if cn_applies_to c = APPLIES_CATEGORY \<and> cn_category_id c \<noteq> fp_category_id p
          then Inl (CheckoutError ''Coupon does not apply to this product category'')
          else Inr (Some c)))"

definition coupon_discount :: "coupon option \<Rightarrow> int \<Rightarrow> int" where
  "coupon_discount c subtotal_cents =
     (case c of
        None \<Rightarrow> 0
      | Some c \<Rightarrow>
          if subtotal_cents \<le> 0 then 0
          else case cn_amount_off_cents c of
            Some a \<Rightarrow> min subtotal_cents a
          | None \<Rightarrow> (case cn_percent_off c of Some p \<Rightarrow> min subtotal_cents (subtotal_cents * p div 100) | None \<Rightarrow> 0))"

definition truthy_text :: "string option \<Rightarrow> bool" where
  "truthy_text x \<longleftrightarrow> x \<noteq> None \<and> x \<noteq> Some []"

definition matching_rates :: "shop \<Rightarrow> billing_profile \<Rightarrow> tax_rate list" where
  "matching_rates s f = filter (\<lambda>t. tr_country t = upper (the (bf_country f)) \<and> tr_enabled t \<and>
     (\<not> truthy_text (bf_region f) \<or> tr_region t = None \<or> tr_region t = bf_region f)) (tax_rates s)"

definition tax_cents :: "shop \<Rightarrow> billing_account \<Rightarrow> int \<Rightarrow> int res" where
  "tax_cents s account taxable_cents =
     (if taxable_cents \<le> 0 \<or> ba_tax_exempt account then Inr 0
      else ebind (scalar_one_or_none (filter (\<lambda>f. bf_billing_account_id f = ba_id account) (billing_profiles s))) (\<lambda>profile.
      case profile of
        None \<Rightarrow> Inr 0
      | Some f \<Rightarrow>
          if \<not> truthy_text (bf_country f) then Inr 0
          else ebind (scalar_one_or_none (matching_rates s f)) (\<lambda>rate.
          Inr (case rate of None \<Rightarrow> 0 | Some t \<Rightarrow> taxable_cents * tr_rate_bps t div 10000))))"

section \<open>The quote\<close>

record quote_line =
  ql_description :: string
  ql_quantity :: int
  ql_unit_cents :: int
  ql_total_cents :: int
  ql_recurring_cents :: int

record quote_result =
  qr_currency :: string
  qr_setup_cents :: int
  qr_recurring_cents :: int
  qr_option_delta_cents :: int
  qr_subtotal_cents :: int
  qr_discount_cents :: int
  qr_tax_cents :: int
  qr_total_cents :: int
  qr_coupon_code :: "string option"
  qr_lines :: "quote_line list"

record shop_request =
  rq_frontend_product_id :: int
  rq_price_plan_id :: int
  rq_cycle_interval :: "string option"
  rq_options :: dict
  rq_coupon_code :: "string option"

definition simple_line :: "string \<Rightarrow> int \<Rightarrow> quote_line" where
  "simple_line description cents = \<lparr>ql_description = description, ql_quantity = 1, ql_unit_cents = cents,
     ql_total_cents = cents, ql_recurring_cents = 0\<rparr>"

definition find_plan :: "frontend_product \<Rightarrow> int \<Rightarrow> price_plan option" where
  "find_plan p price_plan_id = List.find (\<lambda>x. pl_id x = price_plan_id) (fp_price_plans p)"

definition quote_lines :: "frontend_product \<Rightarrow> price_plan \<Rightarrow> int \<Rightarrow> int \<Rightarrow> int \<Rightarrow> coupon option \<Rightarrow> int \<Rightarrow> int \<Rightarrow> quote_line list" where
  "quote_lines p plan setup recurring option_delta c discount tax =
     [\<lparr>ql_description = fp_name p @ '' '' @ [CHR 0x97] @ '' '' @ pl_name plan, ql_quantity = 1, ql_unit_cents = setup,
       ql_total_cents = setup, ql_recurring_cents = recurring\<rparr>] @
     (if option_delta \<noteq> 0 then [simple_line ''Configuration options'' option_delta] else []) @
     (if discount \<noteq> 0 then [simple_line (strip (''Coupon '' @ (case c of None \<Rightarrow> [] | Some x \<Rightarrow> cn_code x))) (- discount)] else []) @
     (if tax \<noteq> 0 then [simple_line ''Tax'' tax] else [])"

definition quote :: "(json \<Rightarrow> string) \<Rightarrow> instant \<Rightarrow> shop \<Rightarrow> billing_account \<Rightarrow> shop_request \<Rightarrow> quote_result res" where
  "quote rep now s account rq =
     ebind (load_product_bundle s (rq_frontend_product_id rq)) (\<lambda>p.
     case find_plan p (rq_price_plan_id rq) of
       None \<Rightarrow> Inl (CheckoutError ''Price plan is unavailable'')
     | Some plan \<Rightarrow>
         if \<not> pl_enabled plan then Inl (CheckoutError ''Price plan is unavailable'')
         else if upper (pl_currency plan) \<noteq> upper (ba_currency account)
         then Inl (CheckoutError ''Price plan currency does not match account currency'')
         else
           ebind (normalize_options rep p (rq_options rq)) (\<lambda>(_, option_delta).
           ebind (resolve_cycle_price plan (rq_cycle_interval rq)) (\<lambda>(setup0, recurring0).
           let setup = setup0 + option_delta; recurring = recurring0 + option_delta; subtotal = setup + recurring in
           ebind (find_coupon now s (rq_coupon_code rq) p) (\<lambda>c.
           let discount = coupon_discount c subtotal; taxable = max 0 (subtotal - discount) in
           ebind (tax_cents s account taxable) (\<lambda>tax.
           Inr \<lparr>qr_currency = upper (ba_currency account), qr_setup_cents = setup, qr_recurring_cents = recurring,
                qr_option_delta_cents = option_delta, qr_subtotal_cents = subtotal, qr_discount_cents = discount,
                qr_tax_cents = tax, qr_total_cents = taxable + tax, qr_coupon_code = map_option cn_code c,
                qr_lines = quote_lines p plan setup recurring option_delta c discount tax\<rparr>)))))"

section \<open>Options are well-formed\<close>

text \<open>What a stored selection of an option looks like: an enabled value of a choice, or a text.\<close>

definition well_typed_selection :: "product_option \<Rightarrow> json \<Rightarrow> bool" where
  "well_typed_selection opt v \<longleftrightarrow>
     (case op_type opt of
        SELECT \<Rightarrow> \<exists>w \<in> set (op_values opt). ov_enabled w \<and> v = selected_json w
      | TEXT \<Rightarrow> \<exists>t. v = JObj [(''text'', JStr t)])"

lemma set_dict_set: "x \<in> set (dict_set d k v) \<Longrightarrow> x = (k, v) \<or> x \<in> set d"
  by (induction d k v rule: dict_set.induct) (auto split: if_splits)

lemma resolve_option_valueD: "resolve_option_value rep opt raw = Inr v \<Longrightarrow> v \<in> set (op_values opt) \<and> ov_enabled v \<and> ov_code v = py_str rep raw"
  by (auto simp: resolve_option_value_def find_Some_iff split: option.splits)

lemma normalize_loop_typed:
  assumes "normalize_loop rep sel opts n d = Inr (cfg, e)" "distinct (map fst n)"
    "\<And>k v. (k, v) \<in> set n \<Longrightarrow> \<exists>opt \<in> A. op_code opt = k \<and> well_typed_selection opt v"
  shows "distinct (map fst cfg)" "set (map fst n) \<subseteq> set (map fst cfg)"
    "(k, v) \<in> set cfg \<Longrightarrow> \<exists>opt \<in> A \<union> set opts. op_code opt = k \<and> well_typed_selection opt v"
    "opt \<in> set opts \<Longrightarrow> op_required opt \<Longrightarrow> op_code opt \<in> set (map fst cfg)"
proof -
  have "distinct (map fst cfg) \<and> set (map fst n) \<subseteq> set (map fst cfg) \<and>
      (\<forall>k v. (k, v) \<in> set cfg \<longrightarrow> (\<exists>opt \<in> A \<union> set opts. op_code opt = k \<and> well_typed_selection opt v)) \<and>
      (\<forall>opt \<in> set opts. op_required opt \<longrightarrow> op_code opt \<in> set (map fst cfg))"
    using assms
  proof (induction opts arbitrary: n d A)
    case Nil
    then show ?case by fastforce
  next
    case (Cons opt opts)
    let ?raw = "case map_of sel (op_code opt) of None \<Rightarrow> JNull | Some v \<Rightarrow> v"
    show ?case
    proof (cases "?raw = JNull \<or> ?raw = JStr []")
      case True
      then have r: "\<not> op_required opt" "normalize_loop rep sel opts n d = Inr (cfg, e)" using Cons.prems(1) by (auto split: if_splits)
      show ?thesis using Cons.IH [OF r(2) Cons.prems(2), of A] Cons.prems(3) r(1) by auto
    next
      case False
      then obtain v d' where v: "well_typed_selection opt v" "normalize_loop rep sel opts (dict_set n (op_code opt) v) d' = Inr (cfg, e)"
        using Cons.prems(1) by (cases "op_type opt") (auto simp: ebind_Inr_iff well_typed_selection_def dest!: resolve_option_valueD)
      have t: "\<exists>y \<in> insert opt A. op_code y = k \<and> well_typed_selection y w" if "(k, w) \<in> set (dict_set n (op_code opt) v)" for k w
        using set_dict_set [OF that] v(1) Cons.prems(3) by blast
      note IH = Cons.IH [OF v(2) distinct_dict_set [OF Cons.prems(2)], of "insert opt A"]
      show ?thesis using IH t keys_dict_set [of n "op_code opt" v] by auto
    qed
  qed
  then show "distinct (map fst cfg)" "set (map fst n) \<subseteq> set (map fst cfg)"
    "(k, v) \<in> set cfg \<Longrightarrow> \<exists>opt \<in> A \<union> set opts. op_code opt = k \<and> well_typed_selection opt v"
    "opt \<in> set opts \<Longrightarrow> op_required opt \<Longrightarrow> op_code opt \<in> set (map fst cfg)" by blast+
qed

text \<open>
  C16: the configuration an order stores is well-formed. Whatever a customer sends, accepted options have no repeated key, every
  key is the code of an option of the product with an enabled value of that choice or a text, and no required option is missing.
\<close>

theorem option_config_typed:
  assumes "normalize_options rep p options = Inr (cfg, delta)"
  shows "distinct (map fst cfg) \<and>
    (\<forall>k v. (k, v) \<in> set cfg \<longrightarrow> (\<exists>opt \<in> set (fp_options p). op_code opt = k \<and> well_typed_selection opt v)) \<and>
    (\<forall>opt \<in> set (fp_options p). op_required opt \<longrightarrow> op_code opt \<in> fst ` set cfg)"
  using normalize_loop_typed [OF assms [unfolded normalize_options_def], of "{}"] by auto

section \<open>Amounts of a quote\<close>

lemma quoteE:
  assumes "quote rep now s account rq = Inr q"
  obtains p plan cfg d a b c t where "load_product_bundle s (rq_frontend_product_id rq) = Inr p" "find_plan p (rq_price_plan_id rq) = Some plan"
    "pl_enabled plan" "upper (pl_currency plan) = upper (ba_currency account)"
    "normalize_options rep p (rq_options rq) = Inr (cfg, d)" "resolve_cycle_price plan (rq_cycle_interval rq) = Inr (a, b)"
    "find_coupon now s (rq_coupon_code rq) p = Inr c"
    "tax_cents s account (max 0 (a + d + (b + d) - coupon_discount c (a + d + (b + d)))) = Inr t"
    "q = \<lparr>qr_currency = upper (ba_currency account), qr_setup_cents = a + d, qr_recurring_cents = b + d, qr_option_delta_cents = d,
      qr_subtotal_cents = a + d + (b + d), qr_discount_cents = coupon_discount c (a + d + (b + d)), qr_tax_cents = t,
      qr_total_cents = max 0 (a + d + (b + d) - coupon_discount c (a + d + (b + d))) + t, qr_coupon_code = map_option cn_code c,
      qr_lines = quote_lines p plan (a + d) (b + d) d c (coupon_discount c (a + d + (b + d))) t\<rparr>"
  using assms unfolding quote_def by (auto simp: ebind_Inr_iff Let_def split: option.splits if_splits)

text \<open>Coupons give something off and tax rates are not negative, as the administration's request models demand.\<close>

definition sane_rates :: "shop \<Rightarrow> bool" where
  "sane_rates s \<longleftrightarrow> (\<forall>c \<in> set (coupons s). (\<forall>a. cn_amount_off_cents c = Some a \<longrightarrow> 0 \<le> a) \<and> (\<forall>p. cn_percent_off c = Some p \<longrightarrow> 0 \<le> p)) \<and>
     (\<forall>t \<in> set (tax_rates s). 0 \<le> tr_rate_bps t)"

lemma find_couponD:
  assumes "find_coupon now s code p = Inr (Some c)"
  shows "scalar_one_or_none (filter (\<lambda>c. lower (cn_code c) = lower (strip (the code)) \<and> cn_enabled c) (coupons s)) = Inr (Some c)"
    "\<not> (case cn_max_uses c of None \<Rightarrow> False | Some m \<Rightarrow> m \<le> cn_used_count c)"
proof -
  let ?m = "scalar_one_or_none (filter (\<lambda>c. lower (cn_code c) = lower (strip (the code)) \<and> cn_enabled c) (coupons s))"
  have nc: "\<not> (code = None \<or> code = Some [])" using assms unfolding find_coupon_def by (cases "code = None \<or> code = Some []") simp_all
  then have "ebind ?m f = Inr (Some c) \<Longrightarrow> \<exists>b. ?m = Inr b" for f :: "coupon option \<Rightarrow> coupon option res" by (auto simp: ebind_Inr_iff)
  then obtain b where b: "?m = Inr b" using assms nc unfolding find_coupon_def by (simp only: if_False) blast
  then obtain d where d: "?m = Inr (Some d)" using assms nc unfolding find_coupon_def by (cases b) simp_all
  with assms nc have c: "d = c" "\<not> (case cn_max_uses d of None \<Rightarrow> False | Some m \<Rightarrow> m \<le> cn_used_count d)"
    unfolding find_coupon_def by (simp_all split: if_splits)
  show "?m = Inr (Some c)" using d unfolding c(1) .
  show "\<not> (case cn_max_uses c of None \<Rightarrow> False | Some m \<Rightarrow> m \<le> cn_used_count c)" using c(2) unfolding c(1) .
qed

lemma find_coupon_mem: "find_coupon now s code p = Inr (Some c) \<Longrightarrow> c \<in> set (coupons s)"
proof -
  assume "find_coupon now s code p = Inr (Some c)"
  from find_couponD(1) [OF this] have "c \<in> set (filter (\<lambda>c. lower (cn_code c) = lower (strip (the code)) \<and> cn_enabled c) (coupons s))" by (simp add: scalar_iffs)
  then show ?thesis by simp
qed

lemma discount_bounds:
  assumes "sane_rates s" "find_coupon now s code p = Inr c"
  shows "0 \<le> coupon_discount c n" "0 \<le> n \<Longrightarrow> coupon_discount c n \<le> n"
proof -
  have "0 \<le> a" if "c = Some x" "cn_amount_off_cents x = Some a" for x a using assms that find_coupon_mem by (auto simp: sane_rates_def)
  moreover have "0 \<le> q" if "c = Some x" "cn_percent_off x = Some q" for x q using assms that find_coupon_mem by (auto simp: sane_rates_def)
  ultimately show "0 \<le> coupon_discount c n" "0 \<le> n \<Longrightarrow> coupon_discount c n \<le> n"
    by (auto simp: coupon_discount_def pos_imp_zdiv_nonneg_iff split: option.splits)
qed

lemma tax_cases:
  assumes "tax_cents s account n = Inr t"
  obtains "t = 0" | f x where "0 < n" "scalar_one_or_none (matching_rates s f) = Inr (Some x)" "t = n * tr_rate_bps x div 10000"
proof (cases "t = 0")
  case False
  with assms have n: "0 < n" "\<not> ba_tax_exempt account" unfolding tax_cents_def by (cases "n \<le> 0 \<or> ba_tax_exempt account"; simp)+
  then obtain profile where "(case profile of None \<Rightarrow> Inr 0
      | Some f \<Rightarrow> if \<not> truthy_text (bf_country f) then Inr 0
          else ebind (scalar_one_or_none (matching_rates s f)) (\<lambda>rate.
          Inr (case rate of None \<Rightarrow> 0 | Some x \<Rightarrow> n * tr_rate_bps x div 10000))) = Inr t"
    using assms by (auto simp: tax_cents_def ebind_Inr_iff)
  with False obtain f rate where "scalar_one_or_none (matching_rates s f) = Inr rate" "t = (case rate of None \<Rightarrow> 0 | Some x \<Rightarrow> n * tr_rate_bps x div 10000)"
    by (cases profile) (auto simp: ebind_Inr_iff split: if_splits)
  with n(1) False that show thesis by (cases rate) auto
qed

lemma tax_bounds:
  assumes "sane_rates s" "tax_cents s account n = Inr t"
  shows "0 \<le> t" "n \<le> 0 \<Longrightarrow> t = 0"
proof -
  have "0 \<le> tr_rate_bps x" if "scalar_one_or_none (matching_rates s f) = Inr (Some x)" for f x
  proof -
    have "x \<in> set (matching_rates s f)" using that by (simp add: scalar_iffs)
    then show ?thesis using assms(1) by (auto simp: sane_rates_def matching_rates_def)
  qed
  with assms(2) show "0 \<le> t" by (cases rule: tax_cases) (simp_all add: pos_imp_zdiv_nonneg_iff)
  show "n \<le> 0 \<Longrightarrow> t = 0" using assms(2) by (auto simp: tax_cents_def)
qed

text \<open>
  C15: the amounts of a quote. With coupons and rates that are not negative, a quote whose subtotal is not negative has a discount
  between zero and the subtotal, a tax that is not negative and is zero when nothing is left to tax, and a total of
  subtotal minus discount plus tax.
\<close>

theorem quote_amounts:
  assumes "sane_rates s" "quote rep now s account rq = Inr q" "0 \<le> qr_subtotal_cents q"
  shows "qr_subtotal_cents q = qr_setup_cents q + qr_recurring_cents q \<and> 0 \<le> qr_discount_cents q \<and> qr_discount_cents q \<le> qr_subtotal_cents q \<and>
    0 \<le> qr_tax_cents q \<and> (qr_discount_cents q = qr_subtotal_cents q \<longrightarrow> qr_tax_cents q = 0) \<and>
    qr_total_cents q = qr_subtotal_cents q - qr_discount_cents q + qr_tax_cents q"
  using assms(2)
proof (rule quoteE)
  fix p :: frontend_product and plan a b d c t
  assume c: "find_coupon now s (rq_coupon_code rq) p = Inr c"
    and t: "tax_cents s account (max 0 (a + d + (b + d) - coupon_discount c (a + d + (b + d)))) = Inr t"
    and q: "q = \<lparr>qr_currency = upper (ba_currency account), qr_setup_cents = a + d, qr_recurring_cents = b + d, qr_option_delta_cents = d,
      qr_subtotal_cents = a + d + (b + d), qr_discount_cents = coupon_discount c (a + d + (b + d)), qr_tax_cents = t,
      qr_total_cents = max 0 (a + d + (b + d) - coupon_discount c (a + d + (b + d))) + t, qr_coupon_code = map_option cn_code c,
      qr_lines = quote_lines p plan (a + d) (b + d) d c (coupon_discount c (a + d + (b + d))) t\<rparr>"
  show ?thesis using discount_bounds [OF assms(1) c] tax_bounds [OF assms(1) t] assms(3) unfolding q by (auto simp: max_def split: if_splits)
qed

lemma sum_quote_lines: "sum_list (map ql_total_cents (quote_lines p plan a b d c x t)) = a + d - x + t"
  by (simp add: quote_lines_def simple_line_def)

text \<open>
  The lines of a quote do not add up to its total. They leave out the recurring price of the first period and list the option
  prices once more on top of the setup line that already has them: the sum differs from the total by the price of the billing cycle.
\<close>

theorem quote_lines_miss_cycle:
  assumes "sane_rates s" "quote rep now s account rq = Inr q" "0 \<le> qr_subtotal_cents q"
  shows "qr_total_cents q - sum_list (map ql_total_cents (qr_lines q)) = qr_recurring_cents q - qr_option_delta_cents q"
  using assms(2)
proof (rule quoteE)
  fix p :: frontend_product and plan a b d c t
  assume c: "find_coupon now s (rq_coupon_code rq) p = Inr c"
    and q: "q = \<lparr>qr_currency = upper (ba_currency account), qr_setup_cents = a + d, qr_recurring_cents = b + d, qr_option_delta_cents = d,
      qr_subtotal_cents = a + d + (b + d), qr_discount_cents = coupon_discount c (a + d + (b + d)), qr_tax_cents = t,
      qr_total_cents = max 0 (a + d + (b + d) - coupon_discount c (a + d + (b + d))) + t, qr_coupon_code = map_option cn_code c,
      qr_lines = quote_lines p plan (a + d) (b + d) d c (coupon_discount c (a + d + (b + d))) t\<rparr>"
  show ?thesis using discount_bounds [OF assms(1) c] assms(3) unfolding q by (simp add: sum_quote_lines)
qed

text \<open>
  A country-wide and a regional tax rate exclude each other. When the profile of the account matches two enabled rates, as a customer of a region with
  its own rate does in a country that also has a general one, every quote with something to tax raises.
\<close>

theorem regional_rate_breaks_tax:
  assumes "0 < n" "\<not> ba_tax_exempt account" "filter (\<lambda>f. bf_billing_account_id f = ba_id account) (billing_profiles s) = [f]" "bf_country f = Some country"
    "country \<noteq> []" "bf_region f = Some region" "region \<noteq> []"
    "general \<in> set (tax_rates s)" "tr_country general = upper country" "tr_enabled general" "tr_region general = None"
    "own \<in> set (tax_rates s)" "tr_country own = upper country" "tr_enabled own" "tr_region own = Some region"
  shows "tax_cents s account n = Inl MultipleResultsFound"
proof -
  have "general \<in> set (matching_rates s f)" "own \<in> set (matching_rates s f)" using assms by (auto simp: matching_rates_def truthy_text_def)
  moreover have "general \<noteq> own" using assms by auto
  ultimately have "1 < length (matching_rates s f)"
    by (cases "matching_rates s f" rule: scalar_one_or_none.cases) auto
  then have "scalar_one_or_none (matching_rates s f) = Inl MultipleResultsFound" by (simp add: scalar_iffs)
  then show ?thesis using assms by (simp add: tax_cents_def truthy_text_def)
qed

section \<open>A concrete shop\<close>

definition sample_option :: product_option where
  "sample_option = \<lparr>op_code = ''disk'', op_name = ''Disk'', op_required = True, op_sort_order = 0, op_type = SELECT,
     op_values = [\<lparr>ov_code = ''std'', ov_name = ''Standard'', ov_sort_order = 0, ov_provision_key = None, ov_provision_value = None,
         ov_price_delta_cents = 0, ov_enabled = True\<rparr>,
       \<lparr>ov_code = ''big'', ov_name = ''Big'', ov_sort_order = 1, ov_provision_key = Some ''ip_count'', ov_provision_value = Some ''2'',
         ov_price_delta_cents = 200, ov_enabled = True\<rparr>,
       \<lparr>ov_code = ''small'', ov_name = ''Small'', ov_sort_order = 2, ov_provision_key = None, ov_provision_value = None,
         ov_price_delta_cents = - 600, ov_enabled = True\<rparr>]\<rparr>"

definition sample_frontend_product :: frontend_product where
  "sample_frontend_product = \<lparr>fp_id = 1, fp_name = ''VM S'', fp_category_id = None, fp_product_id = 1, fp_service_type = ''vm'', fp_enabled = True,
     fp_permission_set_id = None,
     fp_price_plans = [\<lparr>pl_id = 1, pl_currency = ''USD'', pl_pricing_model = RECURRING, pl_setup_cents = 500, pl_enabled = True, pl_name = ''Monthly'',
         pl_cycles = [\<lparr>cy_interval = MONTHLY, cy_price_cents = 1000, cy_enabled = True\<rparr>]\<rparr>,
       \<lparr>pl_id = 2, pl_currency = ''USD'', pl_pricing_model = FREE, pl_setup_cents = 0, pl_enabled = True, pl_name = ''Free'', pl_cycles = []\<rparr>],
     fp_options = [sample_option]\<rparr>"

definition sample_account :: billing_account where
  "sample_account = \<lparr>ba_id = 1, ba_account_type = CLIENT, ba_user_id = Some 5, ba_reseller_id = None, ba_currency = ''USD'', ba_tax_exempt = False\<rparr>"

definition sample_shop :: shop where
  "sample_shop = \<lparr>sh_store = empty_store, sh_catalog = sample_catalog,
     sh_users = [\<lparr>u_id = 5, u_username = ''ann'', u_email = ''ann@example.com'', u_is_reseller = False, u_reseller_id = None,
       u_external_user_id = None, u_external_username = None, u_external_email = None\<rparr>],
     sh_links = [], vm_template_mappings = [], frontend_products = [sample_frontend_product], billing_accounts = [sample_account],
     billing_profiles = [\<lparr>bf_billing_account_id = 1, bf_region = Some ''BE'', bf_country = Some ''de''\<rparr>],
     coupons = [\<lparr>cn_id = 1, cn_code = ''TEN'', cn_percent_off = Some 10, cn_amount_off_cents = None, cn_applies_to = APPLIES_ALL,
       cn_frontend_product_id = None, cn_category_id = None, cn_max_uses = Some 1, cn_used_count = 0, cn_starts_at = None, cn_expires_at = None, cn_enabled = True\<rparr>],
     redemptions = [], tax_rates = [\<lparr>tr_country = ''DE'', tr_region = None, tr_rate_bps = 1900, tr_enabled = True\<rparr>],
     orders = [], order_sequence = None, order_history = [], invoice_lines = [], emails = [], webhook_endpoints = [\<lparr>wh_id = 1, wh_events = [], wh_enabled = True\<rparr>],
     webhook_deliveries = [], audit_events = []\<rparr>"

definition sample_request :: shop_request where
  "sample_request = \<lparr>rq_frontend_product_id = 1, rq_price_plan_id = 1, rq_cycle_interval = Some ''monthly'', rq_options = [(''disk'', JStr ''big'')],
     rq_coupon_code = Some '' ten''\<rparr>"

definition no_repr :: "json \<Rightarrow> string" where
  "no_repr v = ''{}''"

theorem option_config_typed_witness:
  "\<exists>cfg delta. normalize_options no_repr sample_frontend_product [(''disk'', JStr ''big''), (''x'', JNull)] = Inr (cfg, delta) \<and> delta = 200 \<and>
     ''disk'' \<in> fst ` set cfg \<and> distinct (map fst cfg)"
proof -
  have "(case normalize_options no_repr sample_frontend_product [(''disk'', JStr ''big''), (''x'', JNull)] of Inl _ \<Rightarrow> None | Inr (c, d) \<Rightarrow> Some d) = Some 200" by code_simp
  then obtain cfg where c: "normalize_options no_repr sample_frontend_product [(''disk'', JStr ''big''), (''x'', JNull)] = Inr (cfg, 200)"
    by (auto split: sum.splits)
  have "sample_option \<in> set (fp_options sample_frontend_product)" "op_required sample_option" "op_code sample_option = ''disk''"
    by (simp_all add: sample_frontend_product_def sample_option_def)
  then have "''disk'' \<in> fst ` set cfg" using option_config_typed [OF c] by metis
  with c option_config_typed [OF c] show ?thesis by blast
qed

lemma sample_sane: "sane_rates sample_shop"
  by (simp add: sane_rates_def sample_shop_def)

lemma sample_quote_run:
  "\<exists>q. quote no_repr 7 sample_shop sample_account sample_request = Inr q \<and> qr_subtotal_cents q = 1900 \<and> qr_discount_cents q = 190 \<and> qr_recurring_cents q = 1200 \<and>
     qr_option_delta_cents q = 200"
proof -
  have "(case quote no_repr 7 sample_shop sample_account sample_request of Inl _ \<Rightarrow> None
     | Inr q \<Rightarrow> Some (qr_subtotal_cents q, qr_discount_cents q, qr_recurring_cents q, qr_option_delta_cents q)) = Some (1900, 190, 1200, 200)" by code_simp
  then show ?thesis by (auto split: sum.splits)
qed

theorem quote_amounts_witness:
  "\<exists>q. quote no_repr 7 sample_shop sample_account sample_request = Inr q \<and> qr_total_cents q = 1710 + qr_tax_cents q \<and> 0 \<le> qr_tax_cents q"
proof -
  obtain q where q: "quote no_repr 7 sample_shop sample_account sample_request = Inr q" "qr_subtotal_cents q = 1900" "qr_discount_cents q = 190"
    using sample_quote_run by blast
  then show ?thesis using quote_amounts [OF sample_sane q(1)] by (intro exI [of _ q]) simp
qed

theorem quote_lines_miss_cycle_witness:
  "\<exists>q. quote no_repr 7 sample_shop sample_account sample_request = Inr q \<and> sum_list (map ql_total_cents (qr_lines q)) = qr_total_cents q - 1000"
proof -
  obtain q where q: "quote no_repr 7 sample_shop sample_account sample_request = Inr q" "qr_subtotal_cents q = 1900" "qr_recurring_cents q = 1200" "qr_option_delta_cents q = 200"
    using sample_quote_run by blast
  then show ?thesis using quote_lines_miss_cycle [OF sample_sane q(1)] by (intro exI [of _ q]) simp
qed

abbreviation "regional_shop \<equiv> sample_shop\<lparr>tax_rates := tax_rates sample_shop @ [\<lparr>tr_country = ''DE'', tr_region = Some ''BE'', tr_rate_bps = 700, tr_enabled = True\<rparr>]\<rparr>"

theorem regional_rate_breaks_tax_witness: "tax_cents regional_shop sample_account 100 = Inl MultipleResultsFound"
proof -
  have u: "upper ''de'' = ''DE''" by code_simp
  show ?thesis
    by (rule regional_rate_breaks_tax [of _ _ _ "\<lparr>bf_billing_account_id = 1, bf_region = Some ''BE'', bf_country = Some ''de''\<rparr>" "''de''" "''BE''"
          "\<lparr>tr_country = ''DE'', tr_region = None, tr_rate_bps = 1900, tr_enabled = True\<rparr>"
          "\<lparr>tr_country = ''DE'', tr_region = Some ''BE'', tr_rate_bps = 700, tr_enabled = True\<rparr>"])
       (simp_all add: sample_shop_def sample_account_def u)
qed

end
