(* ===== verification/Checkout.thy ===== *)
theory Checkout
  imports Storefront Deploy
begin

text \<open>
  Placing and fulfilling orders, \<open>app/services/checkout_service.py\<close> with the data access of
  \<open>app/dao/order_dao.py\<close> and \<open>sequence_dao.py\<close>, the billing row of a fulfilled item
  (\<open>app/services/commerce_recurring_service.py\<close>), the messages it queues
  (\<open>email_message_service.py\<close>, \<open>commerce_webhook_service.py\<close>), the entry of provisioning
  (\<open>provisioning/service.py\<close>) and the administrator's handlers (\<open>app/api/commerce_admin.py\<close>).
  Placing an order commits nothing on the way, so an exception leaves the shop as it was. Fulfilment runs in a session of a
  committed and a working state, because provisioning commits and may roll back; what creates the machines is a parameter
  on sessions. The texts of e-mails, the address and agent in the audit trail, and the billing account of a
  billing row are left out.
\<close>

section \<open>Numbers, rows and messages\<close>

definition seq_initial :: "int list \<Rightarrow> int \<Rightarrow> int" where
  "seq_initial column first_number =
     max first_number ((case column of [] \<Rightarrow> 0 | n # ns \<Rightarrow> fold max ns n) + 1)"

definition seq_allocate :: "dialect \<Rightarrow> int option \<Rightarrow> int list \<Rightarrow> int \<Rightarrow> (int \<times> int option) res" where
  "seq_allocate dia seq column first_number =
     (let seq1 = (case seq of None \<Rightarrow> Some (seq_initial column first_number) | Some v \<Rightarrow> Some v) in
      case dia of
        Sqlite \<Rightarrow>
          (case seq1 of
             None \<Rightarrow> Inl (SequenceError ''Could not allocate sequence'')
           | Some v \<Rightarrow> Inr ((v + 1) - 1, Some (v + 1)))
      | Other_Dialect \<Rightarrow> Inr (the seq1, Some (the seq1 + 1)))"

definition allocate_order_number :: "dialect \<Rightarrow> shop \<Rightarrow> (int \<times> shop) res" where
  "allocate_order_number dia s =
     ebind (seq_allocate dia (order_sequence s) (map od_order_number (orders s)) 100001) (\<lambda>(n, q).
     Inr (n, s\<lparr>order_sequence := q\<rparr>))"

definition insert_order :: "shop \<Rightarrow> shop_order \<Rightarrow> shop res" where
  "insert_order s x =
     (if od_order_number x \<in> od_order_number ` set (orders s) \<or>
         (od_checkout_nonce x \<noteq> None \<and> od_checkout_nonce x \<in> od_checkout_nonce ` set (orders s))
      then Inl IntegrityError else Inr (s\<lparr>orders := orders s @ [x]\<rparr>))"

definition map_order :: "int \<Rightarrow> (shop_order \<Rightarrow> shop_order) \<Rightarrow> shop \<Rightarrow> shop" where
  "map_order i f s = s\<lparr>orders := map (\<lambda>x. if od_id x = i then f x else x) (orders s)\<rparr>"

definition map_item :: "int \<Rightarrow> (order_item \<Rightarrow> order_item) \<Rightarrow> shop \<Rightarrow> shop" where
  "map_item i f s = s\<lparr>sh_store := (sh_store s)\<lparr>order_items := map (\<lambda>x. if oi_id x = i then f x else x) (order_items (sh_store s))\<rparr>\<rparr>"

definition insert_item :: "shop \<Rightarrow> order_item \<Rightarrow> shop" where
  "insert_item s x = s\<lparr>sh_store := (sh_store s)\<lparr>order_items := order_items (sh_store s) @ [x]\<rparr>\<rparr>"

definition append_history :: "int \<Rightarrow> OrderStatus option \<Rightarrow> OrderStatus \<Rightarrow> int option \<Rightarrow> string \<Rightarrow> shop \<Rightarrow> shop" where
  "append_history order_id from_status to_status actor note s = s\<lparr>order_history := order_history s @
     [\<lparr>oh_order_id = order_id, oh_from_status = from_status, oh_to_status = to_status, oh_actor_user_id = actor, oh_note = note\<rparr>]\<rparr>"

definition enqueue_email :: "string \<Rightarrow> string \<Rightarrow> string \<Rightarrow> int \<Rightarrow> int \<Rightarrow> string \<Rightarrow> string \<Rightarrow> shop \<Rightarrow> shop res" where
  "enqueue_email to_address event key account_id user_id related_type related_id s =
     (let email = strip to_address in
      if email = [] \<or> CHR ''@'' \<notin> set email then Inl (ValueError ''Email recipient is unavailable'')
      else if take 255 key \<in> em_idempotency_key ` set (emails s) then Inr s
      else Inr (s\<lparr>emails := emails s @ [\<lparr>em_idempotency_key = take 255 key, em_to_address = take 320 email, em_event = take 64 event,
        em_billing_account_id = Some account_id, em_user_id = Some user_id, em_related_type = Some (take 64 related_type),
        em_related_id = Some (take 255 related_id)\<rparr>]\<rparr>))"

definition COMMERCE_WEBHOOK_EVENTS :: "string list" where
  "COMMERCE_WEBHOOK_EVENTS = [''order.paid'', ''invoice.paid'', ''ticket.created'']"

definition endpoint_wants :: "webhook_endpoint \<Rightarrow> string \<Rightarrow> bool" where
  "endpoint_wants e event = (if wh_events e = [] then True else event \<in> set (wh_events e))"

definition enqueue_webhook :: "string \<Rightarrow> dict \<Rightarrow> shop \<Rightarrow> shop" where
  "enqueue_webhook event payload s =
     (if event \<notin> set COMMERCE_WEBHOOK_EVENTS then s
      else s\<lparr>webhook_deliveries := webhook_deliveries s @
        map (\<lambda>e. \<lparr>wd_endpoint_id = wh_id e, wd_event = event, wd_payload = payload\<rparr>)
          (filter (\<lambda>e. endpoint_wants e event) (filter wh_enabled (webhook_endpoints s)))\<rparr>)"

section \<open>Placing an order\<close>

fun invoice_lines_of :: "int \<Rightarrow> int \<Rightarrow> int \<Rightarrow> int \<Rightarrow> quote_line list \<Rightarrow> invoice_line list" where
  "invoice_lines_of invoice_id tax order_item_id pos [] = []"
| "invoice_lines_of invoice_id tax order_item_id pos (l # ls) =
     (if ql_total_cents l = 0 then invoice_lines_of invoice_id tax order_item_id pos ls
      else \<lparr>il_invoice_id = invoice_id, il_description = take 512 (ql_description l), il_quantity = ql_quantity l,
             il_unit_cents = ql_unit_cents l, il_total_cents = ql_total_cents l,
             il_tax_cents = (if ql_description l = ''Tax'' then tax else 0), il_sort_order = pos,
             il_order_item_id = (if pos = 0 then Some order_item_id else None)\<rparr>
           # invoice_lines_of invoice_id tax order_item_id (pos + 1) ls)"

definition create_commerce_invoice ::
  "dialect \<Rightarrow> instant \<Rightarrow> shop \<Rightarrow> billing_account \<Rightarrow> shop_order \<Rightarrow> quote_result \<Rightarrow> int \<Rightarrow> (invoice \<times> shop) res" where
  "create_commerce_invoice dia now s account x q order_item_id =
     (if qr_total_cents q \<le> 0 then Inl (CheckoutError ''Cannot create invoice for zero total'')
      else
        ebind (allocate_number dia (sh_store s)) (\<lambda>(number, st).
        let i = \<lparr>inv_id = fresh_id inv_id (invoices st), inv_number = number,
                 inv_reseller_id = (if ba_account_type account = RESELLER then ba_reseller_id account else None),
                 inv_service_id = None, inv_billing_account_id = Some (ba_id account), inv_order_id = Some (od_id x),
                 inv_purpose = ORDER_CHARGE, inv_status = OPEN, inv_amount_cents = qr_total_cents q, inv_currency = qr_currency q,
                 inv_description = Some (''Order #'' @ show_int (od_order_number x)), inv_due_at = Some now, inv_paid_at = None\<rparr> in
        ebind (insert_invoice st i) (\<lambda>st1.
        Inr (i, map_order (od_id x) (\<lambda>y. y\<lparr>od_invoice_id := Some (inv_id i)\<rparr>)
          (s\<lparr>sh_store := st1, invoice_lines := invoice_lines s @ invoice_lines_of (inv_id i) (qr_tax_cents q) order_item_id 0 (qr_lines q)\<rparr>)))))"

definition redeem_coupon_for_order ::
  "instant \<Rightarrow> shop \<Rightarrow> billing_account \<Rightarrow> int \<Rightarrow> quote_result \<Rightarrow> frontend_product \<Rightarrow> shop res" where
  "redeem_coupon_for_order now s account order_id q p =
     (if \<not> truthy_text (qr_coupon_code q) then Inr s
      else
        ebind (find_coupon now s (qr_coupon_code q) p) (\<lambda>found.
        case found of
          None \<Rightarrow> Inr s
        | Some c \<Rightarrow>
            if (cn_id c, order_id) \<in> (\<lambda>r. (cr_coupon_id r, cr_order_id r)) ` set (redemptions s) then Inl IntegrityError
            else Inr (s\<lparr>coupons := put_row cn_id (c\<lparr>cn_used_count := cn_used_count c + 1\<rparr>) (coupons s),
                       redemptions := redemptions s @ [\<lparr>cr_coupon_id = cn_id c, cr_billing_account_id = ba_id account, cr_order_id = order_id\<rparr>]\<rparr>)))"

definition enqueue_checkout_emails :: "shop \<Rightarrow> billing_account \<Rightarrow> shop_order \<Rightarrow> int \<Rightarrow> invoice option \<Rightarrow> shop" where
  "enqueue_checkout_emails s account x user_id bill =
     (case get_row u_id user_id (sh_users s) of
        None \<Rightarrow> s
      | Some u \<Rightarrow>
          if u_email u = [] then s
          else case enqueue_email (u_email u) ''order_confirmation'' (''order:'' @ show_int (od_id x) @ '':confirmation'')
                      (ba_id account) user_id ''order'' (show_int (od_id x)) s of
            Inl _ \<Rightarrow> s
          | Inr s1 \<Rightarrow>
              (case bill of
                 None \<Rightarrow> s1
               | Some i \<Rightarrow>
                   (case enqueue_email (u_email u) ''invoice_created'' (''invoice:'' @ show_int (inv_id i) @ '':created'')
                            (ba_id account) user_id ''invoice'' (show_int (inv_id i)) s1 of
                      Inl _ \<Rightarrow> s1 | Inr s2 \<Rightarrow> s2)))"

definition new_order ::
  "string \<Rightarrow> instant \<Rightarrow> shop \<Rightarrow> int \<Rightarrow> billing_account \<Rightarrow> int \<Rightarrow> quote_result \<Rightarrow> string \<Rightarrow> string option \<Rightarrow> shop_order" where
  "new_order terms now s number account user_id q nonce client_ip =
     \<lparr>od_id = fresh_id od_id (orders s), od_order_number = number, od_billing_account_id = ba_id account, od_user_id = user_id,
      od_status = (if qr_total_cents q = 0 then PENDING_ACCEPTANCE else PENDING_PAYMENT), od_currency = qr_currency q,
      od_setup_cents = qr_setup_cents q, od_recurring_cents = qr_recurring_cents q, od_tax_cents = qr_tax_cents q,
      od_discount_cents = qr_discount_cents q, od_total_cents = qr_total_cents q, od_coupon_code = qr_coupon_code q,
      od_terms_version = terms, od_terms_accepted_at = now, od_checkout_nonce = Some nonce, od_client_ip = client_ip,
      od_invoice_id = None, od_admin_notes = [], od_accepted_at = None, od_accepted_by_user_id = None\<rparr>"

definition new_item :: "shop \<Rightarrow> int \<Rightarrow> shop_request \<Rightarrow> quote_result \<Rightarrow> dict \<Rightarrow> string \<Rightarrow> order_item" where
  "new_item s order_id rq q cfg name =
     \<lparr>oi_id = fresh_id oi_id (order_items (sh_store s)), oi_order_id = order_id, oi_frontend_product_id = rq_frontend_product_id rq,
      oi_price_plan_id = rq_price_plan_id rq, oi_cycle_interval = rq_cycle_interval rq, oi_quantity = 1,
      oi_setup_cents = qr_setup_cents q, oi_recurring_cents = qr_recurring_cents q, oi_currency = qr_currency q, oi_config = cfg,
      oi_name_snapshot = name, oi_fulfill_status = ITEM_PENDING, oi_service_id = None, oi_error_message = None\<rparr>"

record checkout_request =
  ck_account :: billing_account
  ck_user_id :: int
  ck_order :: shop_request
  ck_nonce :: string
  ck_terms_version :: "string option"
  ck_client_ip :: "string option"

record shop_settings =
  ss_dialect :: dialect
  ss_repr :: "json \<Rightarrow> string"
  ss_terms_version :: string

text \<open>The rows of a new order, after its price is known.\<close>

definition record_order ::
  "shop_settings \<Rightarrow> instant \<Rightarrow> shop \<Rightarrow> checkout_request \<Rightarrow> frontend_product \<Rightarrow> dict \<Rightarrow> quote_result \<Rightarrow> (shop_order \<times> shop) res" where
  "record_order st now s ck p cfg q =
     ebind (allocate_order_number (ss_dialect st) s) (\<lambda>(number, s1).
     let account = ck_account ck;
         terms = (if truthy_text (ck_terms_version ck) then the (ck_terms_version ck) else ss_terms_version st);
         x = new_order terms now s1 number account (ck_user_id ck) q (strip (ck_nonce ck)) (ck_client_ip ck) in
     ebind (insert_order s1 x) (\<lambda>s2.
     let it = new_item s2 (od_id x) (ck_order ck) q cfg (fp_name p);
         s3 = append_history (od_id x) None (od_status x) (Some (ck_user_id ck)) ''Order placed'' (insert_item s2 it) in
     ebind (redeem_coupon_for_order now s3 account (od_id x) q p) (\<lambda>s4.
     ebind (if 0 < qr_total_cents q
            then ebind (create_commerce_invoice (ss_dialect st) now s4 account x q (oi_id it)) (\<lambda>(i, s5). Inr (Some i, s5))
            else Inr (None, s4)) (\<lambda>(bill, s5).
     Inr (x\<lparr>od_invoice_id := map_option inv_id bill\<rparr>, enqueue_checkout_emails s5 account x (ck_user_id ck) bill)))))"

definition place_order :: "shop_settings \<Rightarrow> instant \<Rightarrow> shop \<Rightarrow> checkout_request \<Rightarrow> (shop_order \<times> shop) res" where
  "place_order st now s ck =
     (if strip (ck_nonce ck) = [] then Inl (CheckoutError ''Checkout nonce is required'')
      else ebind (scalar_one_or_none (filter (\<lambda>x. od_checkout_nonce x = Some (strip (ck_nonce ck))) (orders s))) (\<lambda>existing.
      case existing of
        Some x \<Rightarrow> Inr (x, s)
      | None \<Rightarrow>
          ebind (load_product_bundle s (rq_frontend_product_id (ck_order ck))) (\<lambda>p.
          if find_plan p (rq_price_plan_id (ck_order ck)) = None then Inl (CheckoutError ''Price plan is unavailable'')
          else
            ebind (normalize_options (ss_repr st) p (rq_options (ck_order ck))) (\<lambda>(cfg, _).
            ebind (quote (ss_repr st) now s (ck_account ck) (ck_order ck)) (\<lambda>q.
            record_order st now s ck p cfg q)))))"

section \<open>Provisioning\<close>

record provision_request =
  pq_name :: string
  pq_service_type :: ServiceType
  pq_owner_user_id :: "int option"
  pq_product_code :: "string option"
  pq_external_service_id :: "string option"
  pq_description :: "string option"
  pq_service_config :: dict
  pq_permission_set_id :: "int option"
  pq_server_group_id :: "int option"
  pq_server_id :: "int option"
  pq_template_id :: "json option"
  pq_vm_template_id :: "int option"
  pq_proxmox_cluster_id :: "int option"
  pq_proxmox_node_name :: "json option"
  pq_proxmox_vmid :: "int option"
  pq_ip_count :: "int option"
  pq_subnet_id :: "int option"
  pq_subnet_group_id :: "int option"
  pq_allocation_strategy :: "json option"

text \<open>A session: what is committed, and the working state.\<close>

type_synonym session = "shop \<times> shop"

text \<open>
  The three creators of \<open>provisioning/\<close> and the repetition of a bare-metal order, on sessions: they commit what they
  create and may roll the session back. A failure says whether a flush or a commit failed and was not rolled back, which leaves
  the session unusable. \<open>fe_text\<close> renders an exception.
\<close>

record fulfil_env =
  fe_create :: "session \<Rightarrow> provision_request \<Rightarrow> ((exn \<times> bool) + service) \<times> session"
  fe_resume :: "session \<Rightarrow> service \<Rightarrow> provision_request \<Rightarrow> ((exn \<times> bool) + service) \<times> session"
  fe_text :: "exn \<Rightarrow> string"

definition ALLOWED_PROVISION_KEYS :: "string list" where
  "ALLOWED_PROVISION_KEYS = [''server_group_id'', ''server_id'', ''template_id'', ''vm_template_id'', ''proxmox_cluster_id'',
     ''proxmox_node_name'', ''proxmox_vmid'', ''ip_count'', ''subnet_id'', ''subnet_group_id'', ''allocation_strategy'']"

definition blank :: "json option \<Rightarrow> bool" where
  "blank v \<longleftrightarrow> v = None \<or> v = Some JNull \<or> v = Some (JStr [])"

fun provision_keys_from_item_config :: "dict \<Rightarrow> dict \<Rightarrow> dict" where
  "provision_keys_from_item_config [] out = out"
| "provision_keys_from_item_config ((_, v) # cfg) out =
     (case v of
        JObj d \<Rightarrow>
          (case map_of d ''provision_key'' of
             Some (JStr k) \<Rightarrow>
               if k \<in> set ALLOWED_PROVISION_KEYS \<and> \<not> blank (map_of d ''provision_value'')
               then provision_keys_from_item_config cfg (dict_set out k (the (map_of d ''provision_value'')))
               else provision_keys_from_item_config cfg out
           | _ \<Rightarrow> provision_keys_from_item_config cfg out)
      | _ \<Rightarrow> provision_keys_from_item_config cfg out)"

definition int_key :: "dict \<Rightarrow> string \<Rightarrow> int option res" where
  "int_key keys name =
     (if blank (map_of keys name) then Inr None else ebind (py_int (the (map_of keys name))) (\<lambda>i. Inr (Some i)))"

definition map_service_type :: "string \<Rightarrow> ServiceType" where
  "map_service_type raw = (case service_type_of (lower (strip raw)) of None \<Rightarrow> BARE_METAL | Some t \<Rightarrow> t)"

definition default_vm_template_id :: "shop \<Rightarrow> product \<Rightarrow> int option" where
  "default_vm_template_id s p =
     (case sort_key (\<lambda>m. lower (tm_template_name m))
             (filter (\<lambda>m. tm_product_id m = pd_id p \<and> tm_template_enabled m) (vm_template_mappings s)) of
        [] \<Rightarrow> None | m # _ \<Rightarrow> Some (tm_vm_template_id m))"

definition apply_catalog_defaults :: "shop \<Rightarrow> provision_request \<Rightarrow> provision_request res" where
  "apply_catalog_defaults s req =
     (if \<not> truthy_text (pq_product_code req) then Inr req
      else case get_by_code (sh_catalog s) (the (pq_product_code req)) of
        None \<Rightarrow> Inr req
      | Some p \<Rightarrow>
          let specs = dict_update (case family_of (sh_catalog s) p of None \<Rightarrow> [] | Some f \<Rightarrow> pf_defaults f) (pd_overrides p) in
          case pq_service_type req of
            BARE_METAL \<Rightarrow>
              if pq_server_group_id req \<noteq> None \<or> pq_server_id req \<noteq> None then Inr req
              else if blank (map_of specs ''server_group_id'') then Inr req
              else ebind (py_int (the (map_of specs ''server_group_id''))) (\<lambda>g. Inr (req\<lparr>pq_server_group_id := Some g\<rparr>))
          | VM \<Rightarrow>
              (let req1 = (if pq_vm_template_id req = None then req\<lparr>pq_vm_template_id := default_vm_template_id s p\<rparr> else req) in
               if pq_proxmox_cluster_id req1 = None \<and> \<not> blank (map_of specs ''proxmox_cluster_id'')
               then ebind (py_int (the (map_of specs ''proxmox_cluster_id''))) (\<lambda>g. Inr (req1\<lparr>pq_proxmox_cluster_id := Some g\<rparr>))
               else Inr req1)
          | HTTP_PROXY \<Rightarrow> Inr req)"

definition is_retry_of :: "shop \<Rightarrow> service \<Rightarrow> provision_request \<Rightarrow> bool" where
  "is_retry_of s existing req \<longleftrightarrow> pq_service_type req = BARE_METAL \<and> svc_type existing = BARE_METAL \<and>
     svc_status existing \<noteq> SVC_TERMINATED \<and> truthy_text (pq_external_service_id req) \<and>
     (case get_row sl_service_id (svc_id existing) (sh_links s) of
        None \<Rightarrow> False
      | Some l \<Rightarrow> sl_external_service_id l = pq_external_service_id req \<and> sl_owner_user_id l = pq_owner_user_id req)"

definition provisioning_create :: "fulfil_env \<Rightarrow> session \<Rightarrow> provision_request \<Rightarrow> ((exn \<times> bool) + service) \<times> session" where
  "provisioning_create env z req =
     (case List.find (\<lambda>v. svc_name v = pq_name req) (services (sh_store (snd z))) of
        Some existing \<Rightarrow>
          if is_retry_of (snd z) existing req then fe_resume env z existing req
          else (Inl (ProvisioningError 400 ''Service with this name already exists'', False), z)
      | None \<Rightarrow>
          (case apply_catalog_defaults (snd z) req of
             Inl e \<Rightarrow> (Inl (e, False), z)
           | Inr req1 \<Rightarrow> fe_create env z req1))"

definition item_name :: "shop_order \<Rightarrow> order_item \<Rightarrow> string" where
  "item_name x it = (if oi_name_snapshot it \<noteq> [] then oi_name_snapshot it
     else ''order-'' @ show_int (od_order_number x) @ ''-'' @ show_int (oi_id it))"

definition item_request :: "shop \<Rightarrow> shop_order \<Rightarrow> order_item \<Rightarrow> frontend_product \<Rightarrow> provision_request res" where
  "item_request s x it p =
     (let prod = get_row pd_id (fp_product_id p) (products (sh_catalog s));
          catalog_type = (case prod of None \<Rightarrow> [] | Some y \<Rightarrow> (case family_of (sh_catalog s) y of None \<Rightarrow> [] | Some f \<Rightarrow> pf_service_type f));
          keys = provision_keys_from_item_config (oi_config it) [] in
      ebind (int_key keys ''server_group_id'') (\<lambda>server_group_id.
      ebind (int_key keys ''server_id'') (\<lambda>server_id.
      ebind (int_key keys ''vm_template_id'') (\<lambda>vm_template_id.
      ebind (int_key keys ''proxmox_cluster_id'') (\<lambda>proxmox_cluster_id.
      ebind (int_key keys ''proxmox_vmid'') (\<lambda>proxmox_vmid.
      ebind (int_key keys ''ip_count'') (\<lambda>ip_count.
      ebind (int_key keys ''subnet_id'') (\<lambda>subnet_id.
      ebind (int_key keys ''subnet_group_id'') (\<lambda>subnet_group_id.
      Inr \<lparr>pq_name = item_name x it, pq_service_type = map_service_type (if catalog_type \<noteq> [] then catalog_type else fp_service_type p),
           pq_owner_user_id = Some (od_user_id x), pq_product_code = map_option pd_code prod, pq_external_service_id = None,
           pq_description = Some (''Order #'' @ show_int (od_order_number x)), pq_service_config = oi_config it,
           pq_permission_set_id = fp_permission_set_id p, pq_server_group_id = server_group_id, pq_server_id = server_id,
           pq_template_id = map_of keys ''template_id'', pq_vm_template_id = vm_template_id, pq_proxmox_cluster_id = proxmox_cluster_id,
           pq_proxmox_node_name = map_of keys ''proxmox_node_name'', pq_proxmox_vmid = proxmox_vmid, pq_ip_count = ip_count,
           pq_subnet_id = subnet_id, pq_subnet_group_id = subnet_group_id, pq_allocation_strategy = map_of keys ''allocation_strategy''\<rparr>)))))))))"

definition provision_order_item :: "fulfil_env \<Rightarrow> session \<Rightarrow> shop_order \<Rightarrow> order_item \<Rightarrow> ((exn \<times> bool) + service) \<times> session" where
  "provision_order_item env z x it =
     (case ebind (load_product_bundle (snd z) (oi_frontend_product_id it)) (item_request (snd z) x it) of
        Inl e \<Rightarrow> (Inl (e, False), z)
      | Inr req \<Rightarrow>
          (case provisioning_create env z req of
             (Inl (ProvisioningError n m, broken), z1) \<Rightarrow> (Inl (CheckoutError m, broken), z1)
           | r \<Rightarrow> r))"

section \<open>Fulfilment\<close>

definition retail_billing :: "instant \<Rightarrow> shop \<Rightarrow> service \<Rightarrow> order_item \<Rightarrow> billing_account \<Rightarrow> price_plan \<Rightarrow> int option \<Rightarrow> service_billing" where
  "retail_billing now s v it account plan product_id =
     (let next_charge = next_due_at now (oi_cycle_interval it) in
      \<lparr>sb_id = fresh_id sb_id (service_billings (sh_store s)), sb_service_id = svc_id v, sb_reseller_id = ba_reseller_id account,
       sb_product_id = product_id, sb_setup_price_cents = oi_setup_cents it, sb_monthly_price_cents = oi_recurring_cents it,
       sb_currency = upper (if oi_currency it \<noteq> [] then oi_currency it else if pl_currency plan \<noteq> [] then pl_currency plan else ''USD''),
       sb_next_charge_at = Some next_charge, sb_billing_anchor_day = Some (day_of next_charge), sb_status = SB_ACTIVE,
       sb_failed_attempts = 0, sb_last_failure_code = None, sb_last_failure_message = None, sb_grace_until = None,
       sb_next_retry_at = None, sb_last_charged_at = Some now\<rparr>)"

definition ensure_for_fulfilled_item ::
  "instant \<Rightarrow> shop \<Rightarrow> service \<Rightarrow> order_item \<Rightarrow> billing_account \<Rightarrow> price_plan \<Rightarrow> int option \<Rightarrow> (service_billing option \<times> shop) res" where
  "ensure_for_fulfilled_item now s v it account plan product_id =
     (if pl_pricing_model plan \<noteq> RECURRING then Inr (None, s)
      else if oi_recurring_cents it \<le> 0 then Inr (None, s)
      else ebind (scalar_one_or_none (filter (\<lambda>b. sb_service_id b = svc_id v) (service_billings (sh_store s)))) (\<lambda>existing.
      case existing of
        Some b \<Rightarrow> Inr (Some b, s)
      | None \<Rightarrow>
          (let b = retail_billing now s v it account plan product_id in
           ebind (insert_billing (sh_store s) b) (\<lambda>st. Inr (Some b, s\<lparr>sh_store := st\<rparr>)))))"

definition item_failed :: "fulfil_env \<Rightarrow> order_item \<Rightarrow> exn \<Rightarrow> shop \<Rightarrow> shop" where
  "item_failed env it e = map_item (oi_id it) (\<lambda>y. y\<lparr>oi_fulfill_status := ITEM_FAILED, oi_error_message := Some (take 2000 (fe_text env e))\<rparr>)"

text \<open>
  One item. A database error of provisioning that was not rolled back, or a failed insert of the billing row, leaves the session
  unusable, so that the next access raises and what was not committed is lost; every other failure is recorded in the item.
\<close>

definition fulfill_order_item ::
  "fulfil_env \<Rightarrow> instant \<Rightarrow> session \<Rightarrow> shop_order \<Rightarrow> order_item \<Rightarrow> (exn \<times> session) + (string option \<times> session)" where
  "fulfill_order_item env now z x it =
     (let failure = (\<lambda>e. ''Item '' @ show_int (oi_id it) @ '': '' @ fe_text env e);
          z0 = (fst z, map_item (oi_id it) (\<lambda>y. y\<lparr>oi_fulfill_status := ITEM_FULFILLING\<rparr>) (snd z)) in
      case provision_order_item env z0 x it of
        (Inl (e, broken), (c, w)) \<Rightarrow>
          if broken then Inl (PendingRollbackError, (c, c)) else Inr (Some (failure e), (c, item_failed env it e w))
      | (Inr v, (c, w)) \<Rightarrow>
          (let w1 = map_item (oi_id it) (\<lambda>y. y\<lparr>oi_service_id := Some (svc_id v)\<rparr>) w;
               finished = map_item (oi_id it) (\<lambda>y. y\<lparr>oi_fulfill_status := ITEM_FULFILLED\<rparr>) in
           case load_product_bundle w1 (oi_frontend_product_id it) of
             Inl e \<Rightarrow> Inr (Some (failure e), (c, item_failed env it e w1))
           | Inr p \<Rightarrow>
               (case (find_plan p (oi_price_plan_id it), get_row ba_id (od_billing_account_id x) (billing_accounts w1)) of
                  (Some plan, Some account) \<Rightarrow>
                    (case ensure_for_fulfilled_item now w1 v it account plan (Some (fp_product_id p)) of
                       Inl e \<Rightarrow>
                         if e = IntegrityError then Inl (PendingRollbackError, (c, c))
                         else Inr (Some (failure e), (c, item_failed env it e w1))
                     | Inr (_, w2) \<Rightarrow> Inr (None, (c, finished w2)))
                | _ \<Rightarrow> Inr (None, (c, finished w1)))))"

fun fulfill_items ::
  "fulfil_env \<Rightarrow> instant \<Rightarrow> session \<Rightarrow> shop_order \<Rightarrow> order_item list \<Rightarrow> (exn \<times> session) + (string list \<times> session)" where
  "fulfill_items env now z x [] = Inr ([], z)"
| "fulfill_items env now z x (it # its) =
     ebind (fulfill_order_item env now z x it) (\<lambda>(failure, z1).
     ebind (fulfill_items env now z1 x its) (\<lambda>(failures, z2).
     Inr (case failure of None \<Rightarrow> failures | Some m \<Rightarrow> m # failures, z2)))"

definition list_for_order :: "shop \<Rightarrow> int \<Rightarrow> order_item list" where
  "list_for_order s order_id = sort_key oi_id (filter (\<lambda>it. oi_order_id it = order_id) (order_items (sh_store s)))"

fun join_lines :: "string list \<Rightarrow> string" where
  "join_lines [] = []"
| "join_lines [l] = l"
| "join_lines (l # ls) = l @ [CHR 0x0A] @ join_lines ls"

definition failure_notes :: "string list \<Rightarrow> string" where
  "failure_notes errors = [CHR 0x0A] @ ''Provision failures:'' @ [CHR 0x0A] @ join_lines errors @ [CHR 0x0A] @
     ''Refund path stub: manual review required.''"

definition finish_order :: "shop_order \<Rightarrow> string list \<Rightarrow> shop \<Rightarrow> shop" where
  "finish_order x errors s =
     (if errors \<noteq> [] then
        append_history (od_id x) (Some FULFILLING) PROVISION_ERROR None ''Provisioning failed''
          (map_order (od_id x) (\<lambda>y. y\<lparr>od_status := PROVISION_ERROR, od_admin_notes := strip (od_admin_notes y @ failure_notes errors)\<rparr>) s)
      else
        (let s1 = append_history (od_id x) (Some FULFILLING) ORDER_ACTIVE None ''Fulfillment complete''
               (map_order (od_id x) (\<lambda>y. y\<lparr>od_status := ORDER_ACTIVE\<rparr>) s);
             s2 = enqueue_webhook ''order.paid'' [(''order_id'', JInt (od_id x)), (''order_number'', JInt (od_order_number x)),
               (''billing_account_id'', JInt (od_billing_account_id x)), (''total_cents'', JInt (od_total_cents x)), (''currency'', JStr (od_currency x))] s1 in
         case od_invoice_id x of
           None \<Rightarrow> s2
         | Some i \<Rightarrow> enqueue_webhook ''invoice.paid'' [(''invoice_id'', JInt i), (''order_id'', JInt (od_id x)),
             (''billing_account_id'', JInt (od_billing_account_id x))] s2))"

definition mark_paid_and_fulfill :: "fulfil_env \<Rightarrow> instant \<Rightarrow> session \<Rightarrow> int \<Rightarrow> (exn \<times> session) + session" where
  "mark_paid_and_fulfill env now z order_id =
     (case get_row od_id order_id (orders (snd z)) of
        None \<Rightarrow> Inl (CheckoutError ''Order not found'', z)
      | Some x \<Rightarrow>
          if od_status x \<notin> {PENDING_PAYMENT, PENDING_ACCEPTANCE} then Inl (CheckoutError ''Order cannot be fulfilled from its status'', z)
          else
            (let w = append_history order_id (Some (od_status x)) FULFILLING None ''Payment received; fulfillment started''
                   (map_order order_id (\<lambda>y. y\<lparr>od_status := FULFILLING\<rparr>) (snd z)) in
             ebind (fulfill_items env now (fst z, w) x (list_for_order w order_id)) (\<lambda>(errors, (c, w1)).
             Inr (c, finish_order x errors w1))))"

section \<open>The administrator's handlers\<close>

definition audit :: "int option \<Rightarrow> int \<Rightarrow> string \<Rightarrow> int \<Rightarrow> shop \<Rightarrow> shop" where
  "audit actor account_id action order_id s = s\<lparr>audit_events := audit_events s @
     [\<lparr>au_actor_user_id = actor, au_billing_account_id = Some account_id, au_action = take 64 action, au_resource_id = show_int order_id\<rparr>]\<rparr>"

text \<open>The end of both fulfilment handlers: an exception leaves what is committed, success commits the working state.\<close>

definition fulfil_and_commit ::
  "fulfil_env \<Rightarrow> instant \<Rightarrow> session \<Rightarrow> int option \<Rightarrow> shop_order \<Rightarrow> string \<Rightarrow> (exn \<times> shop) + shop" where
  "fulfil_and_commit env now z admin x action =
     (case mark_paid_and_fulfill env now z (od_id x) of
        Inl (CheckoutError m, (c, w)) \<Rightarrow> Inl (HTTPException 400 m, c)
      | Inl (e, (c, w)) \<Rightarrow> Inl (e, c)
      | Inr (c, w) \<Rightarrow> Inr (audit admin (od_billing_account_id x) action (od_id x) w))"

definition accept_order :: "fulfil_env \<Rightarrow> instant \<Rightarrow> shop \<Rightarrow> int \<Rightarrow> int option \<Rightarrow> (exn \<times> shop) + shop" where
  "accept_order env now s order_id admin =
     (case get_row od_id order_id (orders s) of
        None \<Rightarrow> Inl (HTTPException 404 ''Order not found'', s)
      | Some x \<Rightarrow>
          if od_status x \<notin> {PENDING_ACCEPTANCE, PENDING_PAYMENT, PAID_PENDING_FULFILLMENT}
          then Inl (HTTPException 400 ''Order cannot be accepted from its status'', s)
          else
            (let s1 = map_order order_id (\<lambda>y. y\<lparr>od_accepted_at := Some now, od_accepted_by_user_id := admin\<rparr>) s;
                 s2 = (if od_status x = PENDING_ACCEPTANCE
                       then map_order order_id (\<lambda>y. y\<lparr>od_status := PAID_PENDING_FULFILLMENT\<rparr>)
                         (append_history order_id (Some PENDING_ACCEPTANCE) PAID_PENDING_FULFILLMENT admin ''Order accepted by admin'' s1)
                       else s1) in
             fulfil_and_commit env now (s, s2) admin x ''order.accept''))"

definition retry_fulfill_order :: "fulfil_env \<Rightarrow> instant \<Rightarrow> shop \<Rightarrow> int \<Rightarrow> int option \<Rightarrow> (exn \<times> shop) + shop" where
  "retry_fulfill_order env now s order_id admin =
     (case get_row od_id order_id (orders s) of
        None \<Rightarrow> Inl (HTTPException 404 ''Order not found'', s)
      | Some x \<Rightarrow>
          if od_status x \<notin> {PROVISION_ERROR, PAID_PENDING_FULFILLMENT, FULFILLING}
          then Inl (HTTPException 400 ''Order cannot be re-fulfilled from its status'', s)
          else fulfil_and_commit env now (s, s) admin x ''order.retry_fulfill'')"

definition cancel_order :: "shop \<Rightarrow> int \<Rightarrow> int option \<Rightarrow> (exn \<times> shop) + shop" where
  "cancel_order s order_id admin =
     (case get_row od_id order_id (orders s) of
        None \<Rightarrow> Inl (HTTPException 404 ''Order not found'', s)
      | Some x \<Rightarrow>
          if od_status x \<in> {ORDER_ACTIVE, ORDER_CANCELLED} then Inl (HTTPException 400 ''Order cannot be cancelled from its status'', s)
          else Inr (audit admin (od_billing_account_id x) ''order.cancel'' order_id
            (append_history order_id (Some (od_status x)) ORDER_CANCELLED admin ''Cancelled by admin''
              (map_order order_id (\<lambda>y. y\<lparr>od_status := ORDER_CANCELLED\<rparr>) s))))"

end
