(* ===== verification/Orders.thy ===== *)
theory Orders
  imports Checkout
begin

text \<open>
  What checkout guarantees. An order is placed once per nonce, its invoice is for its total, coupons are never used beyond their
  limit, and the statuses of all orders follow one automaton, whatever requests arrive and whatever
  provisioning does with its session. The automaton also shows what the handlers cannot do: a free order is never fulfilled and a
  failed one never fulfilled again. Single requests are followed through every branch of fulfilment.
\<close>

section \<open>Order numbers\<close>

definition order_numbers_below :: "shop \<Rightarrow> int" where
  "order_numbers_below s = (case order_sequence s of None \<Rightarrow> seq_initial (map od_order_number (orders s)) 100001 | Some v \<Rightarrow> v)"

lemma allocate_order_number_eq:
  "allocate_order_number dia s = Inr (order_numbers_below s, s\<lparr>order_sequence := Some (order_numbers_below s + 1)\<rparr>)"
  by (simp add: allocate_order_number_def seq_allocate_def order_numbers_below_def Let_def split: dialect.split option.split)

interpretation order_numbers: allocator "allocate_order_number dia" "\<lambda>s. {n. n < order_numbers_below s}" "\<lambda>_. True" for dia
  by unfold_locales (auto simp: allocate_order_number_eq order_numbers_below_def)

lemma seq_initial_above: "x \<in> set column \<Longrightarrow> x < seq_initial column first"
proof -
  assume "x \<in> set column"
  then obtain n ns where c: "column = n # ns" and x: "x = n \<or> x \<in> set ns" by (cases column) auto
  then have "x \<le> fold max ns n" using fold_max_ge [of n ns] fold_max_upper [of x ns n] by auto
  then show ?thesis by (simp add: seq_initial_def c)
qed

section \<open>What placing an order writes\<close>

lemmas shop_writes = map_order_def map_item_def insert_item_def append_history_def

lemma enqueue_email_frame: "enqueue_email a b k i u t r s = Inr s' \<Longrightarrow> \<exists>e. s' = s\<lparr>emails := e\<rparr>"
proof -
  assume "enqueue_email a b k i u t r s = Inr s'"
  then have "s' = s \<or> (\<exists>e. s' = s\<lparr>emails := e\<rparr>)" by (auto simp: enqueue_email_def Let_def split: if_splits)
  moreover have "s = s\<lparr>emails := emails s\<rparr>" by simp
  ultimately show ?thesis by metis
qed

lemma checkout_emails_frame: "\<exists>e. enqueue_checkout_emails s account x u bill = s\<lparr>emails := e\<rparr>"
proof -
  have r: "\<exists>e. s = s\<lparr>emails := e\<rparr>" for s :: shop by (rule exI [of _ "emails s"]) simp
  have t: "\<exists>e. s2 = s\<lparr>emails := e\<rparr>" if "\<exists>e. s1 = s\<lparr>emails := e\<rparr>" "\<exists>e. s2 = s1\<lparr>emails := e\<rparr>" for s1 s2 :: shop using that by auto
  show ?thesis unfolding enqueue_checkout_emails_def
    by (auto split: option.splits sum.splits intro: r t dest!: enqueue_email_frame)
qed

lemma invoice_created:
  assumes "create_commerce_invoice dia now s account x q n = Inr (i, s')"
  obtains ls where "s' = map_order (od_id x) (\<lambda>y. y\<lparr>od_invoice_id := Some (inv_id i)\<rparr>) (s\<lparr>sh_store := (sh_store s)\<lparr>
      invoice_sequence := Some (numbers_below (sh_store s) + 1), invoices := invoices (sh_store s) @ [i]\<rparr>, invoice_lines := ls\<rparr>)"
    "inv_id i = fresh_id inv_id (invoices (sh_store s))" "inv_number i = numbers_below (sh_store s)" "inv_amount_cents i = qr_total_cents q"
    "inv_order_id i = Some (od_id x)" "inv_status i = OPEN" "inv_currency i = qr_currency q" "0 < qr_total_cents q"
proof -
  from assms have q: "0 < qr_total_cents q" by (cases "0 < qr_total_cents q") (simp_all add: create_commerce_invoice_def)
  with assms obtain st1 where i: "insert_invoice ((sh_store s)\<lparr>invoice_sequence := Some (numbers_below (sh_store s) + 1)\<rparr>) i = Inr st1"
    "s' = map_order (od_id x) (\<lambda>y. y\<lparr>od_invoice_id := Some (inv_id i)\<rparr>)
      (s\<lparr>sh_store := st1, invoice_lines := invoice_lines s @ invoice_lines_of (inv_id i) (qr_tax_cents q) n 0 (qr_lines q)\<rparr>)"
    and f: "inv_id i = fresh_id inv_id (invoices (sh_store s))" "inv_number i = numbers_below (sh_store s)" "inv_amount_cents i = qr_total_cents q"
    "inv_order_id i = Some (od_id x)" "inv_status i = OPEN" "inv_currency i = qr_currency q"
    by (auto simp: create_commerce_invoice_def ebind_Inr_iff allocate_number_eq Let_def)
  from i(1) have "st1 = (sh_store s)\<lparr>invoice_sequence := Some (numbers_below (sh_store s) + 1), invoices := invoices (sh_store s) @ [i]\<rparr>"
    by (simp add: insert_invoice_def split: if_splits)
  with i(2) f q show thesis by (intro that) simp_all
qed

text \<open>The coupon step: nothing without a code, and otherwise one more use of the coupon and its redemption.\<close>

lemma redeemedE:
  assumes "redeem_coupon_for_order now s account n q p = Inr s'"
  obtains "s' = s" | c where "find_coupon now s (qr_coupon_code q) p = Inr (Some c)"
    "s' = s\<lparr>coupons := put_row cn_id (c\<lparr>cn_used_count := cn_used_count c + 1\<rparr>) (coupons s),
       redemptions := redemptions s @ [\<lparr>cr_coupon_id = cn_id c, cr_billing_account_id = ba_id account, cr_order_id = n\<rparr>]\<rparr>"
proof (cases "truthy_text (qr_coupon_code q)")
  case False
  with assms that(1) show thesis by (simp add: redeem_coupon_for_order_def)
next
  case True
  with assms obtain found where f: "find_coupon now s (qr_coupon_code q) p = Inr found"
    unfolding redeem_coupon_for_order_def by (auto simp: ebind_Inr_iff)
  show thesis
  proof (cases found)
    case None
    with f True assms that(1) show thesis by (simp add: redeem_coupon_for_order_def)
  next
    case (Some c)
    with f True assms that(2) [of c] show thesis by (simp add: redeem_coupon_for_order_def split: if_splits)
  qed
qed

lemma find_coupon_cong: "coupons s = coupons s' \<Longrightarrow> find_coupon now s = find_coupon now s'"
  by (intro ext) (simp add: find_coupon_def)

lemma map_order_fresh: "map (\<lambda>y. if od_id y = fresh_id od_id xs then f y else y) xs = xs"
  using fresh_id_gt [of _ xs od_id] by (intro map_idI) fastforce

text \<open>What the rows of the shop are after an order was recorded.\<close>

definition recorded :: "instant \<Rightarrow> shop \<Rightarrow> checkout_request \<Rightarrow> frontend_product \<Rightarrow> dict \<Rightarrow> quote_result \<Rightarrow> shop_order \<Rightarrow> shop \<Rightarrow> bool" where
  "recorded now s ck p cfg q x s' \<longleftrightarrow>
     orders s' = orders s @ [x] \<and> od_id x = fresh_id od_id (orders s) \<and> od_order_number x = order_numbers_below s \<and>
     order_sequence s' = Some (order_numbers_below s + 1) \<and> od_checkout_nonce x = Some (strip (ck_nonce ck)) \<and>
     od_checkout_nonce x \<notin> od_checkout_nonce ` set (orders s) \<and>
     od_status x = (if qr_total_cents q = 0 then PENDING_ACCEPTANCE else PENDING_PAYMENT) \<and> od_total_cents x = qr_total_cents q \<and> od_currency x = qr_currency q \<and>
     order_history s' = order_history s @ [\<lparr>oh_order_id = od_id x, oh_from_status = None, oh_to_status = od_status x,
       oh_actor_user_id = Some (ck_user_id ck), oh_note = ''Order placed''\<rparr>] \<and>
     (\<exists>n. order_items (sh_store s') = order_items (sh_store s) @ [new_item n (od_id x) (ck_order ck) q cfg (fp_name p)]) \<and>
     services (sh_store s') = services (sh_store s) \<and> service_billings (sh_store s') = service_billings (sh_store s) \<and> frontend_products s' = frontend_products s \<and>
     (coupons s' = coupons s \<and> redemptions s' = redemptions s \<or>
      (\<exists>c. find_coupon now s (qr_coupon_code q) p = Inr (Some c) \<and> coupons s' = put_row cn_id (c\<lparr>cn_used_count := cn_used_count c + 1\<rparr>) (coupons s) \<and>
         redemptions s' = redemptions s @ [\<lparr>cr_coupon_id = cn_id c, cr_billing_account_id = ba_id (ck_account ck), cr_order_id = od_id x\<rparr>])) \<and>
     (if 0 < qr_total_cents q
      then \<exists>i. invoices (sh_store s') = invoices (sh_store s) @ [i] \<and> invoice_sequence (sh_store s') = Some (numbers_below (sh_store s) + 1) \<and>
        od_invoice_id x = Some (inv_id i) \<and> inv_id i = fresh_id inv_id (invoices (sh_store s)) \<and> inv_number i = numbers_below (sh_store s) \<and>
        inv_amount_cents i = od_total_cents x \<and> inv_order_id i = Some (od_id x) \<and> inv_status i = OPEN \<and> inv_currency i = od_currency x
      else invoices (sh_store s') = invoices (sh_store s) \<and> invoice_sequence (sh_store s') = invoice_sequence (sh_store s) \<and> od_invoice_id x = None)"

lemma record_order_recorded:
  assumes "record_order st now s ck p cfg q = Inr (x, s')"
  shows "recorded now s ck p cfg q x s'"
proof -
  define terms where "terms = (if truthy_text (ck_terms_version ck) then the (ck_terms_version ck) else ss_terms_version st)"
  define s1 where "s1 = s\<lparr>order_sequence := Some (order_numbers_below s + 1)\<rparr>"
  define x0 where "x0 = new_order terms now s1 (order_numbers_below s) (ck_account ck) (ck_user_id ck) q (strip (ck_nonce ck)) (ck_client_ip ck)"
  define s2 where "s2 = s1\<lparr>orders := orders s1 @ [x0]\<rparr>"
  define it where "it = new_item s2 (od_id x0) (ck_order ck) q cfg (fp_name p)"
  define s3 where "s3 = append_history (od_id x0) None (od_status x0) (Some (ck_user_id ck)) ''Order placed'' (insert_item s2 it)"
  from assms have o: "insert_order s1 x0 = Inr s2"
    by (auto simp: record_order_def allocate_order_number_eq Let_def ebind_Inr_iff insert_order_def s1_def x0_def terms_def s2_def split: if_splits)
  with assms obtain s4 bill s5 where r: "redeem_coupon_for_order now s3 (ck_account ck) (od_id x0) q p = Inr s4"
    and b: "(if 0 < qr_total_cents q
            then ebind (create_commerce_invoice (ss_dialect st) now s4 (ck_account ck) x0 q (oi_id it)) (\<lambda>(i, s5). Inr (Some i, s5))
            else Inr (None, s4)) = Inr (bill, s5)"
    and x: "x = x0\<lparr>od_invoice_id := map_option inv_id bill\<rparr>" and s': "s' = enqueue_checkout_emails s5 (ck_account ck) x0 (ck_user_id ck) bill"
    unfolding record_order_def allocate_order_number_eq Let_def ebind.simps case_prod_conv
    unfolding s1_def [symmetric] terms_def [symmetric] x0_def [symmetric] o ebind.simps
    unfolding it_def [symmetric] s3_def [symmetric] by (auto simp: ebind_Inr_iff)
  have n: "od_checkout_nonce x0 \<notin> od_checkout_nonce ` set (orders s)" "od_id x0 = fresh_id od_id (orders s)" "od_invoice_id x0 = None"
    using o by (auto simp: insert_order_def x0_def new_order_def s1_def split: if_splits)
  obtain e where e: "s' = s5\<lparr>emails := e\<rparr>" using checkout_emails_frame s' by blast
  have s3: "orders s3 = orders s @ [x0]" "order_sequence s3 = Some (order_numbers_below s + 1)" "coupons s3 = coupons s" "redemptions s3 = redemptions s"
    "frontend_products s3 = frontend_products s" "sh_store s3 = (sh_store s)\<lparr>order_items := order_items (sh_store s) @ [it]\<rparr>"
    "order_history s3 = order_history s @ [\<lparr>oh_order_id = od_id x0, oh_from_status = None, oh_to_status = od_status x0,
       oh_actor_user_id = Some (ck_user_id ck), oh_note = ''Order placed''\<rparr>]"
    by (simp_all add: s3_def s2_def s1_def append_history_def insert_item_def)
  have s4: "orders s4 = orders s3" "order_sequence s4 = order_sequence s3" "frontend_products s4 = frontend_products s3" "sh_store s4 = sh_store s3" "order_history s4 = order_history s3"
    "coupons s4 = coupons s \<and> redemptions s4 = redemptions s \<or>
      (\<exists>c. find_coupon now s (qr_coupon_code q) p = Inr (Some c) \<and> coupons s4 = put_row cn_id (c\<lparr>cn_used_count := cn_used_count c + 1\<rparr>) (coupons s) \<and>
         redemptions s4 = redemptions s @ [\<lparr>cr_coupon_id = cn_id c, cr_billing_account_id = ba_id (ck_account ck), cr_order_id = od_id x0\<rparr>])"
    using r by (rule redeemedE; simp add: s3 find_coupon_cong [OF s3(3)])+
  note x0 = x0_def new_order_def
  have nb: "numbers_below (sh_store s3) = numbers_below (sh_store s)" by (simp add: s3(6) numbers_below_def initial_next_value_def largest_number_def split: option.split)
  show ?thesis
  proof (cases "0 < qr_total_cents q")
    case False
    then have "s5 = s4" "bill = None" using b by simp_all
    with False n s4 s3 show ?thesis unfolding recorded_def x e it_def by (simp add: x0) blast
  next
    case True
    then obtain i where i: "create_commerce_invoice (ss_dialect st) now s4 (ck_account ck) x0 q (oi_id it) = Inr (i, s5)" "bill = Some i"
      using b by (auto simp: ebind_Inr_iff)
    from i(1) obtain ls where c: "s5 = map_order (od_id x0) (\<lambda>y. y\<lparr>od_invoice_id := Some (inv_id i)\<rparr>) (s4\<lparr>sh_store := (sh_store s4)\<lparr>
        invoice_sequence := Some (numbers_below (sh_store s4) + 1), invoices := invoices (sh_store s4) @ [i]\<rparr>, invoice_lines := ls\<rparr>)"
      and f: "inv_id i = fresh_id inv_id (invoices (sh_store s4))" "inv_number i = numbers_below (sh_store s4)" "inv_amount_cents i = qr_total_cents q"
      "inv_order_id i = Some (od_id x0)" "inv_status i = OPEN" "inv_currency i = qr_currency q" by (rule invoice_created)
    have "orders s5 = orders s @ [x]"
      using map_order_fresh [of "orders s" "\<lambda>y. y\<lparr>od_invoice_id := Some (inv_id i)\<rparr>"] n(2)
      by (simp add: c map_order_def s4 s3 x i(2))
    with True n s4 s3 f nb c i show ?thesis unfolding recorded_def e it_def by (simp add: x0 map_order_def x) blast
  qed
qed

section \<open>One order per nonce\<close>

lemma place_orderE:
  assumes "place_order st now s ck = Inr (x, s')"
  obtains "filter (\<lambda>y. od_checkout_nonce y = Some (strip (ck_nonce ck))) (orders s) = [x]" "s' = s"
  | p cfg d q where "filter (\<lambda>y. od_checkout_nonce y = Some (strip (ck_nonce ck))) (orders s) = []"
      "load_product_bundle s (rq_frontend_product_id (ck_order ck)) = Inr p" "normalize_options (ss_repr st) p (rq_options (ck_order ck)) = Inr (cfg, d)"
      "quote (ss_repr st) now s (ck_account ck) (ck_order ck) = Inr q" "record_order st now s ck p cfg q = Inr (x, s')"
proof (cases "scalar_one_or_none (filter (\<lambda>y. od_checkout_nonce y = Some (strip (ck_nonce ck))) (orders s))")
  case (Inl e)
  with assms show thesis by (auto simp: place_order_def split: if_splits)
next
  case (Inr found)
  show thesis
  proof (cases found)
    case (Some y)
    with Inr assms that(1) show thesis by (auto simp: place_order_def scalar_iffs split: if_splits)
  next
    case None
    with Inr assms obtain p cfg d q where r: "load_product_bundle s (rq_frontend_product_id (ck_order ck)) = Inr p"
      "normalize_options (ss_repr st) p (rq_options (ck_order ck)) = Inr (cfg, d)"
      "quote (ss_repr st) now s (ck_account ck) (ck_order ck) = Inr q" "record_order st now s ck p cfg q = Inr (x, s')"
      unfolding place_order_def by (auto simp: ebind_Inr_iff split: if_splits)
    from Inr None have "filter (\<lambda>y. od_checkout_nonce y = Some (strip (ck_nonce ck))) (orders s) = []" by (simp add: scalar_iffs)
    from that(2) [OF this r] show thesis .
  qed
qed

lemma placed_nonce:
  assumes "place_order st now s ck = Inr (x, s')"
  shows "filter (\<lambda>y. od_checkout_nonce y = Some (strip (ck_nonce ck))) (orders s') = [x]" "strip (ck_nonce ck) \<noteq> []"
proof -
  show "strip (ck_nonce ck) \<noteq> []" using assms by (auto simp: place_order_def)
  from assms show "filter (\<lambda>y. od_checkout_nonce y = Some (strip (ck_nonce ck))) (orders s') = [x]"
  proof (cases rule: place_orderE)
    case (2 p cfg d q)
    from record_order_recorded [OF 2(5)] show ?thesis using 2(1) by (simp add: recorded_def)
  qed simp
qed

lemma place_again:
  assumes "filter (\<lambda>y. od_checkout_nonce y = Some (strip (ck_nonce ck))) (orders s) = [x]" "strip (ck_nonce ck) \<noteq> []"
  shows "place_order st now s ck = Inr (x, s)"
  using assms by (simp add: place_order_def)

interpretation checkout_requests: idempotent_operation "\<lambda>s. place_order st now s ck"
  "\<lambda>s x. filter (\<lambda>y. od_checkout_nonce y = Some (strip (ck_nonce ck))) (orders s) = [x] \<and> strip (ck_nonce ck) \<noteq> []" "\<lambda>_. True" for st now ck
proof (unfold_locales, goal_cases)
  case (1 s r t)
  with placed_nonce [OF 1(2)] show ?case by simp
next
  case (2 s r)
  with place_again [of ck s r st now] show ?case by simp
qed

lemma order_placed_once_helper:
  assumes "place_order st now s ck = Inr (x, s')" "strip (ck_nonce ck') = strip (ck_nonce ck)"
  shows "place_order st' now' s' ck' = Inr (x, s')"
  using placed_nonce [OF assms(1)] assms(2) by (intro place_again) simp_all

text \<open>
  C13: an order is placed once. Any later checkout with the same nonce, whatever else it asks for and whenever it comes, returns the
  order already placed, as it is stored, and changes nothing; so repeating the request any number of times leaves the shop of its first run.
\<close>

theorem order_placed_once:
  assumes "place_order st now s ck = Inr (x, s')"
  shows "x \<in> set (orders s') \<and> od_checkout_nonce x = Some (strip (ck_nonce ck)) \<and>
    (\<forall>st' now' ck'. strip (ck_nonce ck') = strip (ck_nonce ck) \<longrightarrow> place_order st' now' s' ck' = Inr (x, s')) \<and>
    replay (\<lambda>s. place_order st now s ck) (Suc k) s = Inr s'"
proof -
  have "x \<in> set (filter (\<lambda>y. od_checkout_nonce y = Some (strip (ck_nonce ck))) (orders s'))" using placed_nonce(1) [OF assms] by simp
  then have "x \<in> set (orders s')" "od_checkout_nonce x = Some (strip (ck_nonce ck))" by simp_all
  with order_placed_once_helper [OF assms] checkout_requests.replay_once [OF TrueI assms] show ?thesis by blast
qed

section \<open>The invariant of the shop\<close>

definition order_ok :: "store \<Rightarrow> shop_order \<Rightarrow> bool" where
  "order_ok st x \<longleftrightarrow>
     (0 < od_total_cents x \<longrightarrow> (\<exists>i \<in> set (invoices st). od_invoice_id x = Some (inv_id i) \<and> inv_amount_cents i = od_total_cents x \<and>
        inv_order_id i = Some (od_id x) \<and> inv_currency i = od_currency x)) \<and>
     (od_total_cents x = 0 \<longrightarrow> od_status x \<in> {PENDING_ACCEPTANCE, ORDER_CANCELLED}) \<and> (od_status x = PENDING_ACCEPTANCE \<longrightarrow> od_total_cents x = 0)"

definition coupons_ok :: "shop \<Rightarrow> bool" where
  "coupons_ok s \<longleftrightarrow> distinct (map cn_id (coupons s)) \<and>
     (\<forall>c \<in> set (coupons s). cn_used_count c = int (length (filter (\<lambda>r. cr_coupon_id r = cn_id c) (redemptions s))) \<and>
        (\<forall>m. cn_max_uses c = Some m \<longrightarrow> cn_used_count c \<le> m))"

definition shop_ok :: "shop \<Rightarrow> bool" where
  "shop_ok s \<longleftrightarrow> distinct (map od_id (orders s)) \<and> distinct (map od_order_number (orders s)) \<and> unique_on od_checkout_nonce (orders s) \<and>
     (\<forall>x \<in> set (orders s). od_order_number x < order_numbers_below s \<and> order_ok (sh_store s) x) \<and> invoices_ok (sh_store s) \<and> coupons_ok s"

text \<open>The rows the invariant speaks of.\<close>

definition core :: "shop \<Rightarrow> shop_order list \<times> int option \<times> coupon list \<times> coupon_redemption list \<times> invoice list \<times> int option" where
  "core s = (orders s, order_sequence s, coupons s, redemptions s, invoices (sh_store s), invoice_sequence (sh_store s))"

lemma shop_ok_core: "core s = core t \<Longrightarrow> shop_ok s \<longleftrightarrow> shop_ok t"
proof -
  assume c: "core s = core t"
  then have "numbers_below (sh_store s) = numbers_below (sh_store t)"
    by (auto simp: core_def numbers_below_def initial_next_value_def largest_number_def split: option.splits)
  then have "invoices_ok (sh_store s) = invoices_ok (sh_store t)" using c by (simp add: core_def invoices_ok_def)
  then show ?thesis using c by (simp add: core_def shop_ok_def coupons_ok_def order_ok_def order_numbers_below_def split: option.split)
qed

lemma find_coupon_uses:
  assumes "find_coupon now s code p = Inr (Some c)" "cn_max_uses c = Some m"
  shows "cn_used_count c < m"
  using find_couponD(2) [OF assms(1)] assms(2) by simp

lemma redeem_ok:
  assumes "coupons_ok s" "find_coupon now s code p = Inr (Some c)"
    "coupons t = put_row cn_id (c\<lparr>cn_used_count := cn_used_count c + 1\<rparr>) (coupons s)" "redemptions t = redemptions s @ [r]" "cr_coupon_id r = cn_id c"
  shows "coupons_ok t"
proof -
  have c: "c \<in> set (coupons s)" by (rule find_coupon_mem [OF assms(2)])
  let ?c = "c\<lparr>cn_used_count := cn_used_count c + 1\<rparr>"
  have "cn_used_count d = int (length (filter (\<lambda>r. cr_coupon_id r = cn_id d) (redemptions t))) \<and> (\<forall>m. cn_max_uses d = Some m \<longrightarrow> cn_used_count d \<le> m)"
    if d: "d \<in> set (coupons t)" for d
  proof (cases "d = ?c")
    case True
    then show ?thesis using assms(1,4,5) c find_coupon_uses [OF assms(2)] by (auto simp: coupons_ok_def)
  next
    case False
    with put_row_memD [OF d [unfolded assms(3)]] have "d \<in> set (coupons s)" "cn_id d \<noteq> cn_id c" by auto
    then show ?thesis using assms(1,4,5) by (auto simp: coupons_ok_def)
  qed
  moreover have "map cn_id (put_row cn_id ?c (coupons s)) = map cn_id (coupons s)" using map_put_row [of cn_id ?c] by simp
  then have "distinct (map cn_id (coupons t))" using assms(1,3) by (simp add: coupons_ok_def)
  ultimately show ?thesis unfolding coupons_ok_def by blast
qed

lemma coupons_ok_same: "coupons t = coupons s \<Longrightarrow> redemptions t = redemptions s \<Longrightarrow> coupons_ok t \<longleftrightarrow> coupons_ok s"
  by (simp add: coupons_ok_def)

lemma invoices_ok_insert:
  assumes "invoices_ok s" "invoices t = invoices s @ [i]" "invoice_sequence t = Some (numbers_below s + 1)" "inv_id i = fresh_id inv_id (invoices s)"
    "inv_number i = numbers_below s" "0 < inv_amount_cents i"
  shows "invoices_ok t"
proof -
  have "distinct (map inv_id (invoices s @ [i]))" using assms(1,4) by (intro distinct_insert_row) (auto simp: invoices_ok_def)
  moreover have "numbers_below t = numbers_below s + 1" using assms(3) by (simp add: numbers_below_def)
  ultimately show ?thesis using assms by (auto simp: invoices_ok_def)
qed

lemma recorded_ok:
  assumes ok: "shop_ok s" and r: "recorded now s ck p cfg q x s'"
  shows "shop_ok s'"
proof -
  have os: "orders s' = orders s @ [x]" "od_id x = fresh_id od_id (orders s)" "od_order_number x = order_numbers_below s"
    "order_sequence s' = Some (order_numbers_below s + 1)" "od_checkout_nonce x \<notin> od_checkout_nonce ` set (orders s)"
    using r unfolding recorded_def by blast+
  from os(4) have nb: "order_numbers_below s' = order_numbers_below s + 1" by (simp add: order_numbers_below_def [of s'])
  have d: "distinct (map od_id (orders s'))" "distinct (map od_order_number (orders s'))" "unique_on od_checkout_nonce (orders s')"
    using ok os nb distinct_insert_row [of od_id "orders s" x] by (auto simp: shop_ok_def unique_on_snoc image_iff)
  have c: "coupons_ok s'"
  proof -
    have cs: "coupons_ok s" using ok by (simp add: shop_ok_def)
    consider "coupons s' = coupons s" "redemptions s' = redemptions s"
      | c where "find_coupon now s (qr_coupon_code q) p = Inr (Some c)" "coupons s' = put_row cn_id (c\<lparr>cn_used_count := cn_used_count c + 1\<rparr>) (coupons s)"
        "redemptions s' = redemptions s @ [\<lparr>cr_coupon_id = cn_id c, cr_billing_account_id = ba_id (ck_account ck), cr_order_id = od_id x\<rparr>]"
      using r unfolding recorded_def by blast
    then show ?thesis
    proof cases
      case (2 c)
      from redeem_ok [OF cs 2] show ?thesis by simp
    qed (use cs coupons_ok_same in blast)
  qed
  have i: "invoices_ok (sh_store s') \<and> order_ok (sh_store s') x \<and> set (invoices (sh_store s)) \<subseteq> set (invoices (sh_store s'))"
  proof (cases "0 < qr_total_cents q")
    case True
    with r obtain i where i: "invoices (sh_store s') = invoices (sh_store s) @ [i]" "invoice_sequence (sh_store s') = Some (numbers_below (sh_store s) + 1)"
      "od_invoice_id x = Some (inv_id i)" "inv_id i = fresh_id inv_id (invoices (sh_store s))" "inv_number i = numbers_below (sh_store s)"
      "inv_amount_cents i = od_total_cents x" "inv_order_id i = Some (od_id x)" "inv_currency i = od_currency x" "od_total_cents x = qr_total_cents q" "od_status x = PENDING_PAYMENT"
      by (auto simp: recorded_def)
    have "invoices_ok (sh_store s)" using ok by (simp add: shop_ok_def)
    from invoices_ok_insert [OF this i(1,2,4,5)] i True show ?thesis by (auto simp: order_ok_def)
  next
    case False
    with r have "invoices (sh_store s') = invoices (sh_store s)" "invoice_sequence (sh_store s') = invoice_sequence (sh_store s)" by (simp_all add: recorded_def)
    then have "invoices_ok (sh_store s') = invoices_ok (sh_store s)"
      by (simp add: invoices_ok_def numbers_below_def initial_next_value_def largest_number_def split: option.split)
    with False r ok show ?thesis by (auto simp: recorded_def order_ok_def shop_ok_def)
  qed
  have "order_ok (sh_store s') y" if "y \<in> set (orders s)" for y
  proof -
    have "order_ok (sh_store s) y" using ok that by (simp add: shop_ok_def)
    then show ?thesis using i unfolding order_ok_def by blast
  qed
  moreover have "od_order_number y < order_numbers_below s'" if "y \<in> set (orders s')" for y
    using that ok os nb by (fastforce simp: shop_ok_def)
  ultimately show ?thesis using d c i os(1) by (auto simp: shop_ok_def)
qed

section \<open>Provisioning and the rows of the shop\<close>

text \<open>
  What is assumed of the creators: they keep to their own tables. Afterwards the shop's rows in the working state are the ones the session
  had, or, after a rollback, the committed ones; and what is committed is what was, or the working state.
\<close>

definition provisioner :: "fulfil_env \<Rightarrow> bool" where
  "provisioner env \<longleftrightarrow> (\<forall>z req v r z'. fe_create env z req = (r, z') \<or> fe_resume env z v req = (r, z') \<longrightarrow>
     core (snd z') \<in> {core (fst z), core (snd z)} \<and> core (fst z') \<in> {core (fst z), core (snd z)})"

definition session_core :: "session \<Rightarrow> _ set" where
  "session_core z = {core (fst z), core (snd z)}"

lemma core_simps [simp]:
  "core (map_item i f s) = core s" "core (append_history i a b c n s) = core s" "core (audit u j act k s) = core s" "core (enqueue_webhook ev p s) = core s"
  "core (item_failed env it err s) = core s"
  by (simp_all add: core_def shop_writes audit_def enqueue_webhook_def item_failed_def)

lemma provisioning_core:
  assumes "provisioner env" "provisioning_create env z req = (r, z')"
  shows "session_core z' \<subseteq> session_core z"
proof -
  have "z' = z \<or> (\<exists>v q. fe_create env z q = (r, z') \<or> fe_resume env z v q = (r, z'))"
    using assms(2) unfolding provisioning_create_def by (auto split: option.splits sum.splits if_splits)
  then show ?thesis
  proof
    assume "\<exists>v q. fe_create env z q = (r, z') \<or> fe_resume env z v q = (r, z')"
    with assms(1) have "core (snd z') \<in> {core (fst z), core (snd z)}" "core (fst z') \<in> {core (fst z), core (snd z)}"
      unfolding provisioner_def by blast+
    then show ?thesis by (auto simp: session_core_def)
  qed simp
qed

lemma provision_item_core:
  assumes "provisioner env" "provision_order_item env z x it = (r, z')"
  shows "session_core z' \<subseteq> session_core z"
proof (cases "ebind (load_product_bundle (snd z) (oi_frontend_product_id it)) (item_request (snd z) x it)")
  case (Inl e)
  with assms(2) show ?thesis by (simp add: provision_order_item_def)
next
  case (Inr req)
  obtain r1 z1 where p: "provisioning_create env z req = (r1, z1)" by (rule prod.exhaust)
  with Inr assms(2) have "z' = z1" unfolding provision_order_item_def by (auto split: sum.splits exn.splits)
  with provisioning_core [OF assms(1) p] show ?thesis by simp
qed

lemma ensure_core:
  assumes "ensure_for_fulfilled_item now s v it account plan i = Inr (b, s')"
  shows "core s' = core s" "orders s' = orders s"
proof -
  have "s' = s \<or> (\<exists>st. insert_billing (sh_store s) (retail_billing now s v it account plan i) = Inr st \<and> s' = s\<lparr>sh_store := st\<rparr>)"
    using assms unfolding ensure_for_fulfilled_item_def Let_def by (auto simp: ebind_Inr_iff split: if_splits option.splits)
  then show "core s' = core s" "orders s' = orders s" by (auto simp: insert_billing_def core_def split: if_splits)
qed

text \<open>The outcome of one item, by what provisioning answered.\<close>

lemma fulfill_item_cases:
  assumes "provision_order_item env (fst z, map_item (oi_id it) (\<lambda>y. y\<lparr>oi_fulfill_status := ITEM_FULFILLING\<rparr>) (snd z)) x it = (r, (c, w))"
  shows "fulfill_order_item env now z x it = Inr (m, z') \<Longrightarrow> fst z' = c \<and> core (snd z') = core w"
    and "fulfill_order_item env now z x it = Inl (e, z') \<Longrightarrow> z' = (c, c) \<and> e = PendingRollbackError"
proof -
  note d = fulfill_order_item_def Let_def assms prod.case
  have "case fulfill_order_item env now z x it of Inl (e, z') \<Rightarrow> z' = (c, c) \<and> e = PendingRollbackError | Inr (m, z') \<Rightarrow> fst z' = c \<and> core (snd z') = core w"
  proof (cases r)
    case (Inl eb)
    then show ?thesis unfolding d by (cases eb) simp
  next
    case (Inr v)
    let ?w = "map_item (oi_id it) (\<lambda>y. y\<lparr>oi_service_id := Some (svc_id v)\<rparr>) w"
    show ?thesis
    proof (cases "load_product_bundle ?w (oi_frontend_product_id it)")
      case (Inl e)
      then show ?thesis unfolding d Inr by simp
    next
      case p: (Inr p)
      show ?thesis
      proof (cases "find_plan p (oi_price_plan_id it) = None \<or> get_row ba_id (od_billing_account_id x) (billing_accounts ?w) = None")
        case True
        then consider "find_plan p (oi_price_plan_id it) = None"
          | plan where "find_plan p (oi_price_plan_id it) = Some plan" "get_row ba_id (od_billing_account_id x) (billing_accounts ?w) = None" by auto
        then show ?thesis by cases (simp_all add: d Inr p)
      next
        case False
        then obtain plan account where a: "find_plan p (oi_price_plan_id it) = Some plan"
          "get_row ba_id (od_billing_account_id x) (billing_accounts ?w) = Some account" by auto
        show ?thesis
          by (cases "ensure_for_fulfilled_item now ?w v it account plan (Some (fp_product_id p))")
             (auto simp: d Inr p a dest!: ensure_core(1))
      qed
    qed
  qed
  then show "fulfill_order_item env now z x it = Inr (m, z') \<Longrightarrow> fst z' = c \<and> core (snd z') = core w"
    "fulfill_order_item env now z x it = Inl (e, z') \<Longrightarrow> z' = (c, c) \<and> e = PendingRollbackError" by auto
qed

lemma fulfill_item_core:
  assumes "provisioner env"
  shows "fulfill_order_item env now z x it = Inr (m, z') \<Longrightarrow> session_core z' \<subseteq> session_core z"
    and "fulfill_order_item env now z x it = Inl (e, z') \<Longrightarrow> session_core z' \<subseteq> session_core z"
proof -
  let ?z = "(fst z, map_item (oi_id it) (\<lambda>y. y\<lparr>oi_fulfill_status := ITEM_FULFILLING\<rparr>) (snd z))"
  obtain r c w where p: "provision_order_item env ?z x it = (r, (c, w))" by (metis surj_pair)
  from provision_item_core [OF assms p] have k: "core c \<in> session_core z" "core w \<in> session_core z" by (auto simp: session_core_def)
  show "session_core z' \<subseteq> session_core z" if "fulfill_order_item env now z x it = Inr (m, z')"
    using k fulfill_item_cases(1) [OF p that] by (simp add: session_core_def)
  show "session_core z' \<subseteq> session_core z" if "fulfill_order_item env now z x it = Inl (e, z')"
    using k fulfill_item_cases(2) [OF p that] by (simp add: session_core_def)
qed

lemma fulfill_items_core:
  assumes "provisioner env"
  shows "fulfill_items env now z x its = Inr (m, z') \<Longrightarrow> session_core z' \<subseteq> session_core z"
    and "fulfill_items env now z x its = Inl (e, z') \<Longrightarrow> session_core z' \<subseteq> session_core z"
proof (induction its arbitrary: z m)
  case (Cons it its)
  { case 1
    then obtain f z1 ms where a: "fulfill_order_item env now z x it = Inr (f, z1)" "fulfill_items env now z1 x its = Inr (ms, z')"
      by (auto simp: ebind_Inr_iff)
    from Cons.IH(1) [OF a(2)] fulfill_item_core(1) [OF assms a(1)] show ?case by blast }
  { case 2
    then consider "fulfill_order_item env now z x it = Inl (e, z')" | f z1 where "fulfill_order_item env now z x it = Inr (f, z1)" "fulfill_items env now z1 x its = Inl (e, z')"
      by (auto simp: ebind_Inl_iff)
    then show ?case
    proof cases
      case 1
      then show ?thesis by (rule fulfill_item_core(2) [OF assms])
    next
      case (2 f z1)
      from Cons.IH(2) [OF 2(2)] fulfill_item_core(1) [OF assms 2(1)] show ?thesis by blast
    qed }
qed simp_all

section \<open>The automaton of an order\<close>

text \<open>The statuses an order may move to; \<open>None\<close> before it is placed.\<close>

fun order_allowed :: "OrderStatus option \<Rightarrow> OrderStatus \<Rightarrow> bool" where
  "order_allowed None b \<longleftrightarrow> b = PENDING_PAYMENT \<or> b = PENDING_ACCEPTANCE"
| "order_allowed (Some a) b \<longleftrightarrow> a = PENDING_PAYMENT \<and> b = FULFILLING \<or> a = FULFILLING \<and> (b = ORDER_ACTIVE \<or> b = PROVISION_ERROR) \<or>
     a \<noteq> ORDER_ACTIVE \<and> a \<noteq> ORDER_CANCELLED \<and> b = ORDER_CANCELLED"

inductive order_step :: "(int \<Rightarrow> OrderStatus option) \<Rightarrow> int \<times> OrderStatus \<Rightarrow> (int \<Rightarrow> OrderStatus option) \<Rightarrow> bool" where
  move: "order_allowed (m i) b \<Longrightarrow> order_step m (i, b) (m(i \<mapsto> b))"

inductive_simps order_step_iff: "order_step m e m'"

definition statuses :: "shop \<Rightarrow> int \<Rightarrow> OrderStatus option" where
  "statuses s i = map_option od_status (get_row od_id i (orders s))"

text \<open>One order given a new status; nothing else that the invariant reads has changed.\<close>

definition same_order :: "shop_order \<Rightarrow> shop_order \<Rightarrow> bool" where
  "same_order x y \<longleftrightarrow> od_id x = od_id y \<and> od_order_number x = od_order_number y \<and> od_checkout_nonce x = od_checkout_nonce y \<and>
     od_total_cents x = od_total_cents y \<and> od_invoice_id x = od_invoice_id y \<and> od_currency x = od_currency y"

definition restated :: "int \<Rightarrow> OrderStatus \<Rightarrow> shop \<Rightarrow> shop \<Rightarrow> bool" where
  "restated i b s t \<longleftrightarrow> (\<exists>f. core t = core (map_order i f s) \<and> (\<forall>y. same_order (f y) y \<and> od_status (f y) = b))"

lemma orders_core: "core s = core t \<Longrightarrow> orders s = orders t"
  by (simp add: core_def)

lemma core_map_order_cong: "core s = core t \<Longrightarrow> core (map_order i f s) = core (map_order i f t)"
  by (simp add: core_def map_order_def)

lemma map_order_comp:
  assumes "\<And>y. od_id (f y) = od_id y"
  shows "map_order i g (map_order i f s) = map_order i (g \<circ> f) s"
  using assms by (simp add: map_order_def comp_def)

lemma restated_again:
  assumes "core t = core s \<or> restated i a s t" "core u = core (map_order i g t)" "\<And>y. same_order (g y) y \<and> od_status (g y) = b"
  shows "restated i b s u"
  using assms(1)
proof
  assume "core t = core s"
  then show ?thesis using assms(2,3) core_map_order_cong [of t s i g] unfolding restated_def by metis
next
  assume "restated i a s t"
  then obtain f where f: "core t = core (map_order i f s)" "\<And>y. same_order (f y) y" unfolding restated_def by blast
  have "core u = core (map_order i (g \<circ> f) s)"
    using assms(2) core_map_order_cong [OF f(1), of i g] map_order_comp [of f i g s] f(2) by (simp add: same_order_def)
  moreover have "same_order ((g \<circ> f) y) y \<and> od_status ((g \<circ> f) y) = b" for y using assms(3) [of "f y"] f(2) [of y] by (simp add: same_order_def)
  ultimately show ?thesis unfolding restated_def by blast
qed

lemma restated_rows:
  assumes "restated i b s t" "get_row od_id i (orders s) = Some x"
  obtains f where "orders t = map (\<lambda>y. if od_id y = i then f y else y) (orders s)" "\<And>y. same_order (f y) y" "\<And>y. od_status (f y) = b"
  using assms(1) unfolding restated_def core_def map_order_def by auto

lemma get_row_map_order:
  "(\<And>y. od_id (f y) = od_id y) \<Longrightarrow> get_row od_id j (map (\<lambda>y. if od_id y = i then f y else y) xs) = map_option (\<lambda>y. if j = i then f y else y) (get_row od_id j xs)"
  by (induction xs) auto

lemma restated_statuses:
  assumes "restated i b s t" "get_row od_id i (orders s) = Some x"
  shows "statuses t = (statuses s)(i \<mapsto> b)"
proof -
  from assms obtain f where f: "orders t = map (\<lambda>y. if od_id y = i then f y else y) (orders s)" "\<And>y. same_order (f y) y" "\<And>y. od_status (f y) = b"
    by (rule restated_rows) blast
  have "od_id (f y) = od_id y" for y using f(2) [of y] by (simp add: same_order_def)
  then show ?thesis using assms(2) f(3) by (auto simp: statuses_def f(1) get_row_map_order fun_eq_iff option.map_comp comp_def)
qed

lemma restated_ok:
  assumes ok: "shop_ok s" and r: "restated i b s t" and x: "get_row od_id i (orders s) = Some x"
    and b: "od_total_cents x = 0 \<longrightarrow> b \<in> {PENDING_ACCEPTANCE, ORDER_CANCELLED}" "b = PENDING_ACCEPTANCE \<longrightarrow> od_total_cents x = 0"
  shows "shop_ok t"
proof -
  from r obtain f where c: "core t = core (map_order i f s)" and f: "\<And>y. same_order (f y) y" "\<And>y. od_status (f y) = b" unfolding restated_def by blast
  let ?g = "\<lambda>y. if od_id y = i then f y else y"
  let ?t = "map_order i f s"
  have g: "same_order (?g y) y" for y using f(1) [of y] by (simp add: same_order_def)
  have m: "orders ?t = map ?g (orders s)" "sh_store ?t = sh_store s" "order_sequence ?t = order_sequence s" "coupons ?t = coupons s" "redemptions ?t = redemptions s"
    by (simp_all add: map_order_def)
  have e: "map od_id (orders ?t) = map od_id (orders s)" "map od_order_number (orders ?t) = map od_order_number (orders s)"
    using g unfolding m by (auto simp: same_order_def)
  have u: "unique_on od_checkout_nonce (orders ?t)" using ok g unfolding m by (subst unique_on_map) (auto simp: shop_ok_def same_order_def)
  have nb: "order_numbers_below ?t = order_numbers_below s" by (simp only: order_numbers_below_def e m(3))
  have "od_order_number y < order_numbers_below s \<and> order_ok (sh_store s) y" if "y \<in> set (orders ?t)" for y
  proof -
    from that obtain z where z: "z \<in> set (orders s)" "y = ?g z" unfolding m by auto
    have zo: "od_order_number z < order_numbers_below s" "order_ok (sh_store s) z" using ok z(1) by (auto simp: shop_ok_def)
    show ?thesis
    proof (cases "od_id z = i")
      case True
      have "x \<in> set (orders s)" "od_id x = i" using get_row_SomeD [OF x] by auto
      then have "z = x" using ok z(1) True by (auto simp: shop_ok_def distinct_map dest: inj_onD)
      then show ?thesis using zo z(2) True f [of x] b by (auto simp: same_order_def order_ok_def)
    qed (use zo z(2) in simp)
  qed
  with ok e u nb have "shop_ok ?t" unfolding shop_ok_def coupons_ok_def m(2-5) by auto
  then show ?thesis using shop_ok_core [OF c] by simp
qed

section \<open>The handlers as steps\<close>

lemma mark_paid_result:
  assumes "provisioner env" "get_row od_id i (orders w) = Some x" "od_status x = PENDING_PAYMENT"
    and "core w = core s \<or> core w = core (map_order i f s)" "\<And>y. same_order (f y) y"
  shows "mark_paid_and_fulfill env now (s, w) i = Inr (c, t) \<Longrightarrow> restated i ORDER_ACTIVE s t \<or> restated i PROVISION_ERROR s t"
    and "mark_paid_and_fulfill env now (s, w) i = Inl (e, (c, t)) \<Longrightarrow> core c = core s \<or> restated i FULFILLING s c"
proof -
  let ?w = "append_history i (Some (od_status x)) FULFILLING None ''Payment received; fulfillment started'' (map_order i (\<lambda>y. y\<lparr>od_status := FULFILLING\<rparr>) w)"
  have x: "od_id x = i" using get_row_SomeD [OF assms(2)] by simp
  have w: "restated i FULFILLING s ?w"
  proof -
    have "core ?w = core (map_order i (\<lambda>y. y\<lparr>od_status := FULFILLING\<rparr>) s) \<or> core ?w = core (map_order i ((\<lambda>y. y\<lparr>od_status := FULFILLING\<rparr>) \<circ> f) s)"
      using assms(4,5) core_map_order_cong [of w s] core_map_order_cong [of w "map_order i f s"] map_order_comp [of f i "\<lambda>y. y\<lparr>od_status := FULFILLING\<rparr>" s]
      by (auto simp: same_order_def)
    then show ?thesis using assms(5) unfolding restated_def by (auto simp: same_order_def)
  qed
  have d: "mark_paid_and_fulfill env now (s, w) i =
      ebind (fulfill_items env now (s, ?w) x (list_for_order ?w i)) (\<lambda>(errors, (c, w1)). Inr (c, finish_order x errors w1))"
    using assms(2,3) by (simp add: mark_paid_and_fulfill_def Let_def)
  have k: "core u = core s \<or> restated i FULFILLING s u" if "core u \<in> session_core (s, ?w)" for u
    using that w unfolding session_core_def restated_def by auto
  { assume h: "mark_paid_and_fulfill env now (s, w) i = Inr (c, t)"
    from h [unfolded d] obtain errors w1 where f: "fulfill_items env now (s, ?w) x (list_for_order ?w i) = Inr (errors, (c, w1))" "t = finish_order x errors w1"
      by (auto simp: ebind_Inr_iff)
    have "core w1 \<in> session_core (s, ?w)" using fulfill_items_core(1) [OF assms(1) f(1)] by (auto simp: session_core_def)
    note w1 = k [OF this]
    show "restated i ORDER_ACTIVE s t \<or> restated i PROVISION_ERROR s t"
    proof (cases "errors = []")
      case True
      have "core t = core (map_order i (\<lambda>y. y\<lparr>od_status := ORDER_ACTIVE\<rparr>) w1)" by (simp add: f(2) finish_order_def True x Let_def split: option.split)
      from restated_again [OF w1 this, of ORDER_ACTIVE] show ?thesis by (simp add: same_order_def)
    next
      case False
      have "core t = core (map_order i (\<lambda>y. y\<lparr>od_status := PROVISION_ERROR, od_admin_notes := strip (od_admin_notes y @ failure_notes errors)\<rparr>) w1)"
        by (simp add: f(2) finish_order_def False x)
      from restated_again [OF w1 this, of PROVISION_ERROR] show ?thesis by (simp add: same_order_def)
    qed }
  assume h: "mark_paid_and_fulfill env now (s, w) i = Inl (e, (c, t))"
  from h [unfolded d] have "fulfill_items env now (s, ?w) x (list_for_order ?w i) = Inl (e, (c, t))" by (auto simp: ebind_Inl_iff)
  from fulfill_items_core(2) [OF assms(1) this] have "core c \<in> session_core (s, ?w)" by (auto simp: session_core_def)
  then show "core c = core s \<or> restated i FULFILLING s c" by (rule k)
qed

lemma fulfil_and_commit_outcome:
  "mark_paid_and_fulfill env now z (od_id x) = Inl (e, (c, w)) \<Longrightarrow> \<exists>e'. fulfil_and_commit env now z admin x action = Inl (e', c)"
  "mark_paid_and_fulfill env now z (od_id x) = Inr (c, w) \<Longrightarrow> fulfil_and_commit env now z admin x action = Inr (audit admin (od_billing_account_id x) action (od_id x) w)"
  by (cases e; simp add: fulfil_and_commit_def) (simp add: fulfil_and_commit_def)

text \<open>The shop a handler leaves, whether it returns or raises.\<close>

definition left_by :: "(exn \<times> shop) + shop \<Rightarrow> shop" where
  "left_by r = (case r of Inl (e, c) \<Rightarrow> c | Inr w \<Rightarrow> w)"

lemma retry_never_helper: "\<exists>code m. retry_fulfill_order env now s i admin = Inl (HTTPException code m, s)"
proof (cases "get_row od_id i (orders s)")
  case (Some x)
  then have "od_id x = i" using get_row_SomeD by fastforce
  then show ?thesis using Some by (auto simp: retry_fulfill_order_def fulfil_and_commit_def mark_paid_and_fulfill_def)
qed (simp add: retry_fulfill_order_def)

lemma accept_free_helper:
  assumes "get_row od_id i (orders s) = Some x" "od_status x \<noteq> PENDING_PAYMENT"
  shows "\<exists>m. accept_order env now s i admin = Inl (HTTPException 400 m, s)"
proof -
  have i: "od_id x = i" using get_row_SomeD [OF assms(1)] by simp
  let ?u = "\<lambda>y. y\<lparr>od_accepted_at := Some now, od_accepted_by_user_id := admin\<rparr>"
  have g: "get_row od_id i (orders (map_order i ?u t)) = map_option ?u (get_row od_id i (orders t))"
    "get_row od_id i (orders (map_order i (\<lambda>y. y\<lparr>od_status := b\<rparr>) t)) = map_option (\<lambda>y. y\<lparr>od_status := b\<rparr>) (get_row od_id i (orders t))" for t b
    by (simp_all add: map_order_def get_row_map_order)
  have a: "orders (append_history j p q r n t) = orders t" for j p q r n t by (simp add: append_history_def)
  show ?thesis using assms i
    by (cases "od_status x") (auto simp: accept_order_def fulfil_and_commit_def mark_paid_and_fulfill_def Let_def g a)
qed

lemma accept_result:
  assumes "provisioner env" "get_row od_id i (orders s) = Some x" "od_status x = PENDING_PAYMENT"
  shows "accept_order env now s i admin = Inr t \<Longrightarrow> restated i ORDER_ACTIVE s t \<or> restated i PROVISION_ERROR s t"
    and "accept_order env now s i admin = Inl (e, t) \<Longrightarrow> core t = core s \<or> restated i FULFILLING s t"
proof -
  let ?u = "\<lambda>y. y\<lparr>od_accepted_at := Some now, od_accepted_by_user_id := admin\<rparr>"
  have i: "od_id x = i" using get_row_SomeD [OF assms(2)] by simp
  have d: "accept_order env now s i admin = fulfil_and_commit env now (s, map_order i ?u s) admin x ''order.accept''"
    using assms by (simp add: accept_order_def Let_def)
  have g: "get_row od_id i (orders (map_order i ?u s)) = Some (?u x)" using assms(2) by (simp add: map_order_def get_row_map_order)
  have u: "od_status (?u x) = PENDING_PAYMENT" "core (map_order i ?u s) = core s \<or> core (map_order i ?u s) = core (map_order i ?u s)" "\<And>y. same_order (?u y) y"
    using assms(3) by (simp_all add: same_order_def)
  note m = mark_paid_result [OF assms(1) g u]
  { assume a: "accept_order env now s i admin = Inr t"
    from a [unfolded d] obtain c w where "mark_paid_and_fulfill env now (s, map_order i ?u s) i = Inr (c, w)" "t = audit admin (od_billing_account_id x) ''order.accept'' i w"
      unfolding fulfil_and_commit_def by (auto simp: i split: sum.splits exn.splits)
    then show "restated i ORDER_ACTIVE s t \<or> restated i PROVISION_ERROR s t" using m(1) by (simp add: restated_def) }
  assume a: "accept_order env now s i admin = Inl (e, t)"
  from a [unfolded d] obtain e' w where "mark_paid_and_fulfill env now (s, map_order i ?u s) i = Inl (e', (t, w))"
    unfolding fulfil_and_commit_def by (auto simp: i split: sum.splits exn.splits)
  then show "core t = core s \<or> restated i FULFILLING s t" by (rule m(2))
qed

section \<open>Any requests in any order\<close>

datatype shop_event = PlaceOrder shop_settings instant checkout_request | AcceptOrder instant int "int option"
  | RetryOrder instant int "int option" | CancelOrder int "int option"

inductive shop_step :: "fulfil_env \<Rightarrow> shop \<Rightarrow> shop_event \<Rightarrow> shop \<Rightarrow> bool" for env where
  place: "place_order st now s ck = Inr (x, t) \<Longrightarrow> shop_step env s (PlaceOrder st now ck) t"
| accept: "t = left_by (accept_order env now s i admin) \<Longrightarrow> shop_step env s (AcceptOrder now i admin) t"
| retry: "t = left_by (retry_fulfill_order env now s i admin) \<Longrightarrow> shop_step env s (RetryOrder now i admin) t"
| cancel: "t = left_by (cancel_order s i admin) \<Longrightarrow> shop_step env s (CancelOrder i admin) t"

lemma cancel_result:
  "core (left_by (cancel_order s i admin)) = core s \<or>
   (\<exists>x. get_row od_id i (orders s) = Some x \<and> od_status x \<notin> {ORDER_ACTIVE, ORDER_CANCELLED} \<and> restated i ORDER_CANCELLED s (left_by (cancel_order s i admin)))"
proof (cases "get_row od_id i (orders s)")
  case (Some x)
  show ?thesis
  proof (cases "od_status x \<in> {ORDER_ACTIVE, ORDER_CANCELLED}")
    case False
    let ?t = "left_by (cancel_order s i admin)"
    have "core ?t = core (map_order i (\<lambda>y. y\<lparr>od_status := ORDER_CANCELLED\<rparr>) s)" using Some False by (simp add: cancel_order_def left_by_def)
    then have "restated i ORDER_CANCELLED s ?t" unfolding restated_def by (intro exI [of _ "\<lambda>y. y\<lparr>od_status := ORDER_CANCELLED\<rparr>"]) (simp add: same_order_def)
    with Some False show ?thesis by blast
  qed (simp add: Some cancel_order_def left_by_def)
qed (simp add: cancel_order_def left_by_def)

lemma step_cases:
  assumes "provisioner env" "shop_step env s e t"
  obtains "core t = core s"
  | now ck p cfg q x where "recorded now s ck p cfg q x t"
  | i x b where "get_row od_id i (orders s) = Some x" "restated i b s t"
      "od_status x = PENDING_PAYMENT \<and> b \<in> {FULFILLING, ORDER_ACTIVE, PROVISION_ERROR} \<or> od_status x \<notin> {ORDER_ACTIVE, ORDER_CANCELLED} \<and> b = ORDER_CANCELLED"
  using assms(2)
proof cases
  case (place st now ck x)
  from place(2) show thesis
  proof (cases rule: place_orderE)
    case 1
    then show thesis using that(1) by simp
  next
    case (2 p cfg d q)
    from that(2) [OF record_order_recorded [OF 2(5)]] show thesis .
  qed
next
  case (accept now i admin)
  show thesis
  proof (cases "\<exists>x. get_row od_id i (orders s) = Some x \<and> od_status x = PENDING_PAYMENT")
    case True
    then obtain x where x: "get_row od_id i (orders s) = Some x" "od_status x = PENDING_PAYMENT" by blast
    have "core t = core s \<or> (\<exists>b \<in> {FULFILLING, ORDER_ACTIVE, PROVISION_ERROR}. restated i b s t)"
    proof (cases "accept_order env now s i admin")
      case (Inl r)
      then have "accept_order env now s i admin = Inl (fst r, t)" using accept(2) by (simp add: left_by_def split: prod.splits)
      from accept_result(2) [OF assms(1) x this] show ?thesis by blast
    next
      case (Inr u)
      then have "accept_order env now s i admin = Inr t" using accept(2) by (simp add: left_by_def)
      from accept_result(1) [OF assms(1) x this] show ?thesis by blast
    qed
    with that(1) that(3) [OF x(1)] x(2) show thesis by blast
  next
    case False
    then have "t = s" using accept_free_helper [of i s _ env now admin] accept(2)
      by (cases "get_row od_id i (orders s)") (auto simp: left_by_def accept_order_def)
    then show thesis using that(1) by simp
  qed
next
  case (retry now i admin)
  then have "t = s" using retry_never_helper [of env now s i admin] by (auto simp: left_by_def)
  then show thesis using that(1) by simp
next
  case (cancel i admin)
  from cancel_result [of s i admin] show thesis unfolding cancel(2) [symmetric] using that(1,3) by blast
qed

lemma step_ok:
  assumes "provisioner env" "shop_ok s" "shop_step env s e t"
  shows "shop_ok t"
  using assms(1,3)
proof (cases rule: step_cases)
  case 1
  then show ?thesis using assms(2) shop_ok_core by blast
next
  case (2 now ck p cfg q x)
  then show ?thesis by (rule recorded_ok [OF assms(2)])
next
  case (3 i x b)
  have "x \<in> set (orders s)" using get_row_SomeD [OF 3(1)] by blast
  then have "order_ok (sh_store s) x" using assms(2) by (simp add: shop_ok_def)
  with 3(3) show ?thesis by (intro restated_ok [OF assms(2) 3(2,1)]) (auto simp: order_ok_def)
qed

lemma statuses_core: "core s = core t \<Longrightarrow> statuses s = statuses t"
  by (simp add: core_def statuses_def fun_eq_iff)

lemma step_refines:
  assumes "provisioner env" "shop_ok s" "shop_step env s e t"
  shows "\<exists>bs. runs order_step (statuses s) bs (statuses t)"
  using assms(1,3)
proof (cases rule: step_cases)
  case 1
  then show ?thesis using statuses_core [of t s] by (metis runs_Nil)
next
  case (2 now ck p cfg q x)
  have x: "orders t = orders s @ [x]" "od_id x = fresh_id od_id (orders s)" "od_status x \<in> {PENDING_PAYMENT, PENDING_ACCEPTANCE}"
    using 2 unfolding recorded_def by auto
  have "statuses s (od_id x) = None" by (simp add: statuses_def x(2) get_row_fresh)
  moreover have "statuses t = (statuses s)(od_id x \<mapsto> od_status x)"
    by (auto simp: statuses_def x(1) get_row_append get_row_fresh fun_eq_iff x(2) split: option.split)
  ultimately have "order_step (statuses s) (od_id x, od_status x) (statuses t)" using x(3) by (auto simp: order_step_iff)
  then show ?thesis by (meson runs_Nil runs_Cons)
next
  case (3 i x b)
  have t: "statuses t = (statuses s)(i \<mapsto> b)" by (rule restated_statuses [OF 3(2,1)])
  have i: "statuses s i = Some (od_status x)" by (simp add: statuses_def 3(1))
  consider "od_status x = PENDING_PAYMENT" "b = ORDER_ACTIVE \<or> b = PROVISION_ERROR" | "order_allowed (Some (od_status x)) b" using 3(3) by auto
  then show ?thesis
  proof cases
    case 1
    have "order_step (statuses s) (i, FULFILLING) ((statuses s)(i \<mapsto> FULFILLING))" using i 1 by (intro move) simp
    moreover have "order_step ((statuses s)(i \<mapsto> FULFILLING)) (i, b) ((statuses s)(i \<mapsto> FULFILLING, i \<mapsto> b))" using 1 by (intro move) auto
    ultimately show ?thesis unfolding t by (intro exI [of _ "[(i, FULFILLING), (i, b)]"]) (auto simp: fun_upd_upd)
  next
    case 2
    then have "order_step (statuses s) (i, b) (statuses t)" using i unfolding t by (intro move) simp
    then show ?thesis by (meson runs_Nil runs_Cons)
  qed
qed

interpretation shop_orders: refinement "shop_step env" order_step statuses "\<lambda>s. provisioner env \<and> shop_ok s" for env
  by unfold_locales (auto dest: step_ok step_refines)

interpretation shop_system: transition_system "\<lambda>s. provisioner env \<and> shop_ok s" "shop_step env" "\<lambda>s. provisioner env \<and> shop_ok s" for env
  by unfold_locales (auto dest: step_ok)

text \<open>
  C11: the shop stays consistent. Over any sequence of checkouts, acceptances, retries and cancellations, whatever provisioning does within its own tables:
  order numbers, ids and nonces stay unique, every order with something to pay has an invoice over exactly its total, and every coupon has been used exactly as often as
  redemptions record and never more often than its limit.
\<close>

theorem shop_stays_consistent:
  assumes "provisioner env" "shop_ok s" "runs (shop_step env) s es t"
  shows "distinct (map od_id (orders t)) \<and> distinct (map od_order_number (orders t)) \<and> unique_on od_checkout_nonce (orders t) \<and>
    (\<forall>x \<in> set (orders t). 0 < od_total_cents x \<longrightarrow> (\<exists>i \<in> set (invoices (sh_store t)). od_invoice_id x = Some (inv_id i) \<and>
       inv_amount_cents i = od_total_cents x \<and> inv_order_id i = Some (od_id x))) \<and>
    (\<forall>c \<in> set (coupons t). cn_used_count c = int (length (filter (\<lambda>r. cr_coupon_id r = cn_id c) (redemptions t))) \<and>
       (\<forall>m. cn_max_uses c = Some m \<longrightarrow> cn_used_count c \<le> m))"
proof -
  have ok: "shop_ok t" using shop_system.runs_inv [OF assms(3)] assms(1,2) by blast
  then have "\<forall>x \<in> set (orders t). 0 < od_total_cents x \<longrightarrow> (\<exists>i \<in> set (invoices (sh_store t)). od_invoice_id x = Some (inv_id i) \<and>
       inv_amount_cents i = od_total_cents x \<and> inv_order_id i = Some (od_id x))" unfolding shop_ok_def order_ok_def by blast
  moreover have "\<forall>c \<in> set (coupons t). cn_used_count c = int (length (filter (\<lambda>r. cr_coupon_id r = cn_id c) (redemptions t))) \<and>
       (\<forall>m. cn_max_uses c = Some m \<longrightarrow> cn_used_count c \<le> m)" using ok unfolding shop_ok_def coupons_ok_def by blast
  ultimately show ?thesis using ok by (simp only: shop_ok_def simp_thms)
qed

text \<open>
  C12: the shop refines the automaton of an order. Whatever the requests and whether or not provisioning rolls its session back, the statuses of all orders move only
  as the automaton allows: placed, then fulfilled from a pending payment to active or failed, and cancelled unless active.
\<close>

theorem orders_refine_automaton:
  assumes "provisioner env" "shop_ok s" "runs (shop_step env) s es t"
  shows "\<exists>bs. runs order_step (statuses s) bs (statuses t)"
  using shop_orders.runs_refine [OF assms(3)] assms(1,2) by blast

text \<open>
  A free order is never fulfilled. However often an order with nothing to pay is accepted or retried, it stays pending or is
  cancelled: accepting it moves it to a status that fulfilment refuses, and the refusal undoes the move.
\<close>

theorem free_order_never_active:
  assumes "provisioner env" "shop_ok s" "runs (shop_step env) s es t" "x \<in> set (orders t)" "od_total_cents x = 0"
  shows "od_status x \<in> {PENDING_ACCEPTANCE, ORDER_CANCELLED} \<and> left_by (accept_order env now t (od_id x) admin) = t"
proof -
  have ok: "shop_ok t" using shop_system.runs_inv [OF assms(3)] assms(1,2) by blast
  then have s: "od_status x \<in> {PENDING_ACCEPTANCE, ORDER_CANCELLED}" using assms(4,5) unfolding shop_ok_def order_ok_def by blast
  have "get_row od_id (od_id x) (orders t) = Some x" using ok assms(4) by (simp add: shop_ok_def get_row_Some_iff)
  from accept_free_helper [OF this, of env now admin] s show ?thesis by (auto simp: left_by_def)
qed

text \<open>
  A failed order cannot be fulfilled again. The handler for retrying accepts exactly the statuses that fulfilment refuses, so
  it raises for every order and leaves the shop as it was.
\<close>

theorem retry_never_succeeds: "\<exists>code m. retry_fulfill_order env now s i admin = Inl (HTTPException code m, s)"
  by (rule retry_never_helper)

section \<open>One order followed through fulfilment\<close>

lemma item_request_name:
  assumes "item_request s x it p = Inr req"
  shows "pq_name req = item_name x it" "pq_external_service_id req = None"
  using assms unfolding item_request_def Let_def by (auto simp: ebind_Inr_iff)

text \<open>The order and the shop when fulfilment starts, after the acceptance of a pending payment.\<close>

definition accepted :: "instant \<Rightarrow> int option \<Rightarrow> shop_order \<Rightarrow> shop_order" where
  "accepted now admin x = x\<lparr>od_accepted_at := Some now, od_accepted_by_user_id := admin\<rparr>"

definition started :: "instant \<Rightarrow> int option \<Rightarrow> int \<Rightarrow> shop \<Rightarrow> shop" where
  "started now admin i s = append_history i (Some PENDING_PAYMENT) FULFILLING None ''Payment received; fulfillment started''
     (map_order i (\<lambda>y. y\<lparr>od_status := FULFILLING\<rparr>) (map_order i (accepted now admin) s))"

lemma started_frame [simp]:
  "sh_store (started now admin i s) = sh_store s" "frontend_products (started now admin i s) = frontend_products s"
  "sh_catalog (started now admin i s) = sh_catalog s" "billing_accounts (started now admin i s) = billing_accounts s"
  "vm_template_mappings (started now admin i s) = vm_template_mappings s" "map od_id (orders (started now admin i s)) = map od_id (orders s)"
  by (auto simp: started_def append_history_def map_order_def accepted_def)

lemma get_map_order: "(\<And>y. od_id (f y) = od_id y) \<Longrightarrow> get_row od_id i (orders (map_order i f s)) = map_option f (get_row od_id i (orders s))"
  by (simp add: map_order_def get_row_map_order)

lemma started_status: "get_row od_id i (orders s) = Some x \<Longrightarrow> statuses (started now admin i s) i = Some FULFILLING"
proof -
  assume "get_row od_id i (orders s) = Some x"
  then have "get_row od_id i (orders (map_order i (\<lambda>y. y\<lparr>od_status := FULFILLING\<rparr>) (map_order i (accepted now admin) s))) = Some ((accepted now admin x)\<lparr>od_status := FULFILLING\<rparr>)"
    by (simp add: get_map_order accepted_def)
  then show ?thesis by (simp add: statuses_def started_def append_history_def)
qed

lemma item_name_accepted [simp]: "item_name (accepted now admin x) it = item_name x it"
  by (simp add: item_name_def accepted_def)

lemma accept_unfold:
  assumes "get_row od_id i (orders s) = Some x" "od_status x = PENDING_PAYMENT" "list_for_order s i = [it]"
  shows "fulfill_order_item env now (s, started now admin i s) (accepted now admin x) it = Inr (m, (c, u)) \<Longrightarrow>
      accept_order env now s i admin = Inr (audit admin (od_billing_account_id x) ''order.accept'' i
        (finish_order (accepted now admin x) (case m of None \<Rightarrow> [] | Some f \<Rightarrow> [f]) u))"
    and "fulfill_order_item env now (s, started now admin i s) (accepted now admin x) it = Inl (PendingRollbackError, (c, u)) \<Longrightarrow>
      accept_order env now s i admin = Inl (PendingRollbackError, c)"
proof -
  let ?y = "accepted now admin x" and ?w = "started now admin i s"
  have i: "od_id x = i" using get_row_SomeD [OF assms(1)] by simp
  have a: "accepted now admin = (\<lambda>y. y\<lparr>od_accepted_at := Some now, od_accepted_by_user_id := admin\<rparr>)" by (simp add: accepted_def fun_eq_iff)
  have d: "accept_order env now s i admin = fulfil_and_commit env now (s, map_order i (accepted now admin) s) admin x ''order.accept''"
    using assms(1,2) by (simp add: accept_order_def Let_def a)
  have g: "get_row od_id i (orders (map_order i (accepted now admin) s)) = Some ?y" using assms(1) by (simp add: map_order_def get_row_map_order accepted_def)
  have "list_for_order ?w i = [it]" using assms(3) by (simp add: list_for_order_def)
  then have m: "mark_paid_and_fulfill env now (s, map_order i (accepted now admin) s) i =
      ebind (fulfill_items env now (s, ?w) ?y [it]) (\<lambda>(errors, (c, w1)). Inr (c, finish_order ?y errors w1))"
    using assms(2) g by (simp add: mark_paid_and_fulfill_def Let_def started_def accepted_def)
  show "fulfill_order_item env now (s, ?w) ?y it = Inr (m, (c, u)) \<Longrightarrow>
      accept_order env now s i admin = Inr (audit admin (od_billing_account_id x) ''order.accept'' i (finish_order ?y (case m of None \<Rightarrow> [] | Some f \<Rightarrow> [f]) u))"
    unfolding d fulfil_and_commit_def i m by (simp split: option.split)
  show "fulfill_order_item env now (s, ?w) ?y it = Inl (PendingRollbackError, (c, u)) \<Longrightarrow> accept_order env now s i admin = Inl (PendingRollbackError, c)"
    unfolding d fulfil_and_commit_def i m by simp
qed

lemma finish_status:
  assumes "od_id x \<in> od_id ` set (orders w)"
  shows "statuses (finish_order x errors w) (od_id x) = Some (if errors = [] then ORDER_ACTIVE else PROVISION_ERROR)"
    and "sh_store (finish_order x errors w) = sh_store w"
proof -
  from assms obtain y where "get_row od_id (od_id x) (orders w) = Some y" by (metis get_row_None_iff not_None_eq)
  then show "statuses (finish_order x errors w) (od_id x) = Some (if errors = [] then ORDER_ACTIVE else PROVISION_ERROR)"
    by (simp add: finish_order_def Let_def statuses_def enqueue_webhook_def append_history_def map_order_def get_row_map_order split: option.split)
  show "sh_store (finish_order x errors w) = sh_store w"
    by (simp add: finish_order_def Let_def enqueue_webhook_def append_history_def map_order_def split: option.split)
qed

lemma name_taken:
  assumes "v \<in> set (services (sh_store (snd z)))" "svc_name v = item_name x it"
  shows "\<exists>e. provision_order_item env z x it = (Inl (e, False), z)"
proof (cases "ebind (load_product_bundle (snd z) (oi_frontend_product_id it)) (item_request (snd z) x it)")
  case (Inl e)
  then show ?thesis by (simp add: provision_order_item_def)
next
  case (Inr req)
  then have r: "pq_name req = item_name x it" "pq_external_service_id req = None" by (auto simp: ebind_Inr_iff dest: item_request_name)
  obtain y where y: "List.find (\<lambda>v. svc_name v = pq_name req) (services (sh_store (snd z))) = Some y"
    using assms r(1) by (metis (mono_tags, lifting) find_None_iff not_None_eq)
  have "provisioning_create env z req = (Inl (ProvisioningError 400 ''Service with this name already exists'', False), z)"
    using y r(2) by (simp add: provisioning_create_def is_retry_of_def truthy_text_def)
  with Inr show ?thesis by (simp add: provision_order_item_def)
qed

text \<open>
  C37: a product of the storefront is sold once. A service is named after the product that was ordered, and provisioning refuses a name
  that is in use: while a service of that name exists, accepting a paid order of the product fails it, and no service is created.
\<close>

theorem second_sale_fails:
  assumes "get_row od_id i (orders s) = Some x" "od_status x = PENDING_PAYMENT" "list_for_order s i = [it]"
    "v \<in> set (services (sh_store s))" "svc_name v = item_name x it"
  shows "\<exists>t. accept_order env now s i admin = Inr t \<and> statuses t i = Some PROVISION_ERROR \<and> services (sh_store t) = services (sh_store s)"
proof -
  let ?y = "accepted now admin x" and ?w = "started now admin i s"
  let ?z = "(s, map_item (oi_id it) (\<lambda>y. y\<lparr>oi_fulfill_status := ITEM_FULFILLING\<rparr>) ?w)"
  have i: "od_id x = i" "x \<in> set (orders s)" using get_row_SomeD [OF assms(1)] by simp_all
  have "v \<in> set (services (sh_store (snd ?z)))" using assms(4) by (simp add: map_item_def)
  then obtain e where e: "provision_order_item env ?z ?y it = (Inl (e, False), ?z)" using name_taken [of v ?z ?y it env] assms(5) by auto
  define u where "u = item_failed env it e (snd ?z)"
  define m where "m = ''Item '' @ show_int (oi_id it) @ '': '' @ fe_text env e"
  have f: "fulfill_order_item env now (s, ?w) ?y it = Inr (Some m, (s, u))" using e by (simp add: fulfill_order_item_def Let_def u_def m_def)
  have "map od_id (orders u) = map od_id (orders s)" by (simp add: u_def item_failed_def map_item_def)
  then have "od_id ` set (orders u) = od_id ` set (orders s)" by (metis image_set)
  then have o: "od_id ?y \<in> od_id ` set (orders u)" using i by (auto simp: accepted_def)
  have sv: "services (sh_store u) = services (sh_store s)" by (simp add: u_def item_failed_def map_item_def)
  let ?t = "audit admin (od_billing_account_id x) ''order.accept'' i (finish_order ?y [m] u)"
  have "statuses ?t i = Some PROVISION_ERROR" using finish_status(1) [OF o, of "[m]"] i by (simp add: audit_def statuses_def accepted_def)
  moreover have "services (sh_store ?t) = services (sh_store s)" using finish_status(2) [OF o, of "[m]"] sv by (simp add: audit_def)
  ultimately show ?thesis using accept_unfold(1) [OF assms(1-3) f] by (intro exI [of _ ?t]) simp
qed

text \<open>What is assumed of creators that succeed: they commit the session with one new service, and leave all other rows.\<close>

definition creates :: "fulfil_env \<Rightarrow> bool" where
  "creates env \<longleftrightarrow> (\<forall>z req. \<exists>v st l. fe_create env z req = (Inr v, ((snd z)\<lparr>sh_store := st, sh_links := l\<rparr>, (snd z)\<lparr>sh_store := st, sh_links := l\<rparr>)) \<and>
     st = (sh_store (snd z))\<lparr>services := services (sh_store (snd z)) @ [v]\<rparr> \<and> svc_id v = fresh_id svc_id (services (sh_store (snd z))))"

text \<open>An order of one item that can be provisioned: product, plan and account are there, the request is complete and the name is free.\<close>

definition ready :: "shop \<Rightarrow> shop_order \<Rightarrow> order_item \<Rightarrow> frontend_product \<Rightarrow> price_plan \<Rightarrow> billing_account \<Rightarrow> bool" where
  "ready s x it p plan account \<longleftrightarrow> get_row od_id (od_id x) (orders s) = Some x \<and> od_status x = PENDING_PAYMENT \<and> list_for_order s (od_id x) = [it] \<and>
     load_product_bundle s (oi_frontend_product_id it) = Inr p \<and> find_plan p (oi_price_plan_id it) = Some plan \<and>
     get_row ba_id (od_billing_account_id x) (billing_accounts s) = Some account \<and> item_name x it \<notin> svc_name ` set (services (sh_store s)) \<and>
     (case item_request s x it p of Inl _ \<Rightarrow> False | Inr req \<Rightarrow> (case apply_catalog_defaults s req of Inl _ \<Rightarrow> False | Inr _ \<Rightarrow> True)) \<and>
     (\<forall>b \<in> set (service_billings (sh_store s)). sb_service_id b < fresh_id svc_id (services (sh_store s)))"

lemma load_bundle_cong: "frontend_products s = frontend_products t \<Longrightarrow> load_product_bundle s = load_product_bundle t"
  by (simp add: fun_eq_iff load_product_bundle_def)

lemma item_request_cong:
  assumes "sh_catalog s = sh_catalog t"
  shows "item_request s x it p = item_request t x it p"
  unfolding item_request_def assms ..

lemma defaults_cong:
  assumes "sh_catalog s = sh_catalog t" "vm_template_mappings s = vm_template_mappings t"
  shows "apply_catalog_defaults s req = apply_catalog_defaults t req"
  unfolding apply_catalog_defaults_def default_vm_template_id_def assms ..

lemma accepted_sels: "od_user_id (accepted now admin x) = od_user_id x" "od_order_number (accepted now admin x) = od_order_number x"
  by (simp_all add: accepted_def)

lemma item_request_accepted: "item_request s (accepted now admin x) it p = item_request s x it p"
  unfolding item_request_def item_name_accepted accepted_sels ..

lemma ready_provisions:
  fixes now admin
  assumes "creates env" "ready s x it p plan account"
    and w_def: "w = map_item (oi_id it) (\<lambda>y. y\<lparr>oi_fulfill_status := ITEM_FULFILLING\<rparr>) (started now admin (od_id x) s)"
  obtains v l u where "u = w\<lparr>sh_store := (sh_store w)\<lparr>services := services (sh_store s) @ [v]\<rparr>, sh_links := l\<rparr>" "svc_id v = fresh_id svc_id (services (sh_store s))"
    "provision_order_item env (s, w) (accepted now admin x) it = (Inr v, (u, u))"
proof -
  have w: "sh_catalog w = sh_catalog s" "frontend_products w = frontend_products s" "vm_template_mappings w = vm_template_mappings s" "services (sh_store w) = services (sh_store s)"
    by (simp_all add: w_def map_item_def)
  from assms(2) obtain req req1 where r: "item_request s x it p = Inr req" "apply_catalog_defaults s req = Inr req1"
    unfolding ready_def by (auto split: sum.splits)
  have "ebind (load_product_bundle w (oi_frontend_product_id it)) (item_request w (accepted now admin x) it) = Inr req"
    using assms(2) r(1) load_bundle_cong [OF w(2)] item_request_cong [OF w(1)] by (simp add: ready_def item_request_accepted)
  moreover have "provisioning_create env (s, w) req = fe_create env (s, w) req1"
  proof -
    have "pq_name req \<notin> svc_name ` set (services (sh_store s))" using assms(2) item_request_name(1) [OF r(1)] by (simp add: ready_def)
    then have "List.find (\<lambda>v. svc_name v = pq_name req) (services (sh_store w)) = None" unfolding find_None_iff w(4) by (metis image_eqI)
    then show ?thesis using r(2) defaults_cong [OF w(1,3)] by (simp add: provisioning_create_def)
  qed
  moreover obtain v st l where "fe_create env (s, w) req1 = (Inr v, (w\<lparr>sh_store := st, sh_links := l\<rparr>, w\<lparr>sh_store := st, sh_links := l\<rparr>))"
    "st = (sh_store w)\<lparr>services := services (sh_store s) @ [v]\<rparr>" "svc_id v = fresh_id svc_id (services (sh_store s))"
    using assms(1) w(4) unfolding creates_def by (metis snd_conv)
  ultimately show thesis by (intro that [where u = "w\<lparr>sh_store := st, sh_links := l\<rparr>" and v = v and l = l]) (simp_all add: provision_order_item_def)
qed

text \<open>
  C36: a discount option without a setup fee strands the order. When the option prices of a recurring order are negative beyond the setup fee, the
  price per period being positive, accepting the paid order creates the service and then raises: the order stays in fulfilment, which
  no handler leaves except by cancelling, and the service has no billing row.
\<close>

theorem negative_setup_strands_order:
  assumes "creates env" "ready s x it p plan account" "pl_pricing_model plan = RECURRING" "0 < oi_recurring_cents it" "oi_setup_cents it < 0"
  shows "\<exists>c v. accept_order env now s (od_id x) admin = Inl (PendingRollbackError, c) \<and> statuses c (od_id x) = Some FULFILLING \<and>
    services (sh_store c) = services (sh_store s) @ [v] \<and> service_billings (sh_store c) = service_billings (sh_store s)"
proof -
  let ?w = "map_item (oi_id it) (\<lambda>y. y\<lparr>oi_fulfill_status := ITEM_FULFILLING\<rparr>) (started now admin (od_id x) s)"
  from assms(1,2) obtain v l u where u: "u = ?w\<lparr>sh_store := (sh_store ?w)\<lparr>services := services (sh_store s) @ [v]\<rparr>, sh_links := l\<rparr>"
    and v: "svc_id v = fresh_id svc_id (services (sh_store s))" and p: "provision_order_item env (s, ?w) (accepted now admin x) it = (Inr v, (u, u))"
    by (rule ready_provisions [OF _ _ refl])
  define w1 where "w1 = map_item (oi_id it) (\<lambda>y. y\<lparr>oi_service_id := Some (svc_id v)\<rparr>) u"
  have w1: "frontend_products w1 = frontend_products s" "billing_accounts w1 = billing_accounts s" "service_billings (sh_store w1) = service_billings (sh_store s)"
    by (simp_all add: w1_def u map_item_def)
  have nb: "filter (\<lambda>b. sb_service_id b = svc_id v) (service_billings (sh_store w1)) = []"
    using assms(2) unfolding w1(3) v by (auto simp: ready_def filter_empty_conv)
  have en: "ensure_for_fulfilled_item now w1 v it account plan (Some (fp_product_id p)) = Inl IntegrityError"
    using assms(3-5) nb by (simp add: ensure_for_fulfilled_item_def insert_billing_def retail_billing_def Let_def)
  have "fulfill_order_item env now (s, started now admin (od_id x) s) (accepted now admin x) it = Inl (PendingRollbackError, (u, u))"
    using p en assms(2) load_bundle_cong [OF w1(1)] w1(2) unfolding fulfill_order_item_def Let_def w1_def
    by (simp add: ready_def accepted_def)
  from accept_unfold(2) [OF _ _ _ this] assms(2) have a: "accept_order env now s (od_id x) admin = Inl (PendingRollbackError, u)" by (simp add: ready_def)
  have "orders u = orders (started now admin (od_id x) s)" by (simp add: u map_item_def)
  then have "statuses u (od_id x) = Some FULFILLING"
    using started_status [of "od_id x" s x now admin] assms(2) by (simp add: statuses_def ready_def)
  with a show ?thesis by (intro exI [of _ u] exI [of _ v]) (simp add: u map_item_def)
qed

text \<open>
  C14: an accepted order is fulfilled. When an order of one item with a recurring plan awaits payment and can be provisioned, provisioning succeeds, the price per period is
  positive and the setup price is not negative, accepting the order makes it active, whether or not its invoice was paid: its item is fulfilled with the one new service,
  and that service is billed at the price of the order, first at the end of the billing interval.
\<close>

theorem paid_order_is_fulfilled:
  assumes "creates env" "ready s x it p plan account" "pl_pricing_model plan = RECURRING" "0 < oi_recurring_cents it" "0 \<le> oi_setup_cents it" "it \<in> set (order_items (sh_store s))"
  shows "\<exists>t v b. accept_order env now s (od_id x) admin = Inr t \<and> statuses t (od_id x) = Some ORDER_ACTIVE \<and> services (sh_store t) = services (sh_store s) @ [v] \<and>
    it\<lparr>oi_fulfill_status := ITEM_FULFILLED, oi_service_id := Some (svc_id v)\<rparr> \<in> set (order_items (sh_store t)) \<and>
    service_billings (sh_store t) = service_billings (sh_store s) @ [b] \<and> sb_service_id b = svc_id v \<and> sb_monthly_price_cents b = oi_recurring_cents it \<and>
    sb_next_charge_at b = Some (next_due_at now (oi_cycle_interval it)) \<and> sb_status b = SB_ACTIVE \<and> sb_reseller_id b = ba_reseller_id account"
proof -
  let ?w = "map_item (oi_id it) (\<lambda>y. y\<lparr>oi_fulfill_status := ITEM_FULFILLING\<rparr>) (started now admin (od_id x) s)"
  from assms(1,2) obtain v l u where u: "u = ?w\<lparr>sh_store := (sh_store ?w)\<lparr>services := services (sh_store s) @ [v]\<rparr>, sh_links := l\<rparr>"
    and v: "svc_id v = fresh_id svc_id (services (sh_store s))" and p: "provision_order_item env (s, ?w) (accepted now admin x) it = (Inr v, (u, u))"
    by (rule ready_provisions [OF _ _ refl])
  define w1 where "w1 = map_item (oi_id it) (\<lambda>y. y\<lparr>oi_service_id := Some (svc_id v)\<rparr>) u"
  have w1: "frontend_products w1 = frontend_products s" "billing_accounts w1 = billing_accounts s" "service_billings (sh_store w1) = service_billings (sh_store s)"
    by (simp_all add: w1_def u map_item_def)
  have nb: "filter (\<lambda>b. sb_service_id b = svc_id v) (service_billings (sh_store w1)) = []" "svc_id v \<notin> sb_service_id ` set (service_billings (sh_store w1))"
    using assms(2) unfolding w1(3) v by (auto simp: ready_def filter_empty_conv)
  define b where "b = retail_billing now w1 v it account plan (Some (fp_product_id p))"
  define w2 where "w2 = w1\<lparr>sh_store := (sh_store w1)\<lparr>service_billings := service_billings (sh_store s) @ [b]\<rparr>\<rparr>"
  have bf: "sb_service_id b = svc_id v" "sb_monthly_price_cents b = oi_recurring_cents it" "sb_setup_price_cents b = oi_setup_cents it"
    "sb_next_charge_at b = Some (next_due_at now (oi_cycle_interval it))" "sb_status b = SB_ACTIVE" "sb_reseller_id b = ba_reseller_id account"
    by (simp_all add: b_def retail_billing_def Let_def)
  have en: "ensure_for_fulfilled_item now w1 v it account plan (Some (fp_product_id p)) = Inr (Some b, w2)"
    using assms(3-5) nb bf by (simp add: ensure_for_fulfilled_item_def insert_billing_def Let_def b_def [symmetric] w2_def w1(3))
  define w3 where "w3 = map_item (oi_id it) (\<lambda>y. y\<lparr>oi_fulfill_status := ITEM_FULFILLED\<rparr>) w2"
  have "fulfill_order_item env now (s, started now admin (od_id x) s) (accepted now admin x) it = Inr (None, (u, w3))"
    using p en assms(2) load_bundle_cong [OF w1(1)] w1(2) unfolding fulfill_order_item_def Let_def w1_def w3_def
    by (simp add: ready_def accepted_def)
  from accept_unfold(1) [OF _ _ _ this] assms(2)
  have a: "accept_order env now s (od_id x) admin = Inr (audit admin (od_billing_account_id x) ''order.accept'' (od_id x) (finish_order (accepted now admin x) [] w3))"
    by (simp add: ready_def)
  have "map od_id (orders w3) = map od_id (orders s)" by (simp add: w3_def w2_def w1_def u map_item_def)
  then have "od_id ` set (orders w3) = od_id ` set (orders s)" by (metis image_set)
  then have o: "od_id (accepted now admin x) \<in> od_id ` set (orders w3)" using assms(2) by (auto simp: accepted_def ready_def dest: get_row_SomeD)
  let ?t = "audit admin (od_billing_account_id x) ''order.accept'' (od_id x) (finish_order (accepted now admin x) [] w3)"
  have st: "sh_store ?t = sh_store w3" using finish_status(2) [OF o, of "[]"] by (simp add: audit_def)
  have "statuses ?t (od_id x) = Some ORDER_ACTIVE" using finish_status(1) [OF o, of "[]"] by (simp add: audit_def statuses_def accepted_def)
  moreover have "it\<lparr>oi_fulfill_status := ITEM_FULFILLED, oi_service_id := Some (svc_id v)\<rparr> \<in> set (order_items (sh_store ?t))"
    unfolding st using assms(6) by (auto simp: w3_def w2_def w1_def u map_item_def image_image intro!: image_eqI [of _ _ it])
  moreover have "services (sh_store ?t) = services (sh_store s) @ [v]" "service_billings (sh_store ?t) = service_billings (sh_store s) @ [b]"
    unfolding st by (simp_all add: w3_def w2_def w1_def u map_item_def)
  ultimately show ?thesis using a bf(1,2,4-6) by (intro exI [of _ ?t] exI [of _ v] exI [of _ b] conjI)
qed

section \<open>Concrete orders\<close>

definition sample_settings :: shop_settings where
  "sample_settings = \<lparr>ss_dialect = Sqlite, ss_repr = no_repr, ss_terms_version = ''v1''\<rparr>"

definition sample_checkout :: "int \<Rightarrow> string \<Rightarrow> string \<Rightarrow> checkout_request" where
  "sample_checkout plan choice nonce = \<lparr>ck_account = sample_account, ck_user_id = 5,
     ck_order = sample_request\<lparr>rq_price_plan_id := plan, rq_options := [(''disk'', JStr choice)], rq_coupon_code := None\<rparr>,
     ck_nonce = nonce, ck_terms_version = None, ck_client_ip = None\<rparr>"

definition sample_service :: "int \<Rightarrow> string \<Rightarrow> service" where
  "sample_service i name = \<lparr>svc_id = i, svc_name = name, svc_type = VM, svc_status = SVC_ACTIVE, svc_config = [], svc_product_snapshot = [], svc_vm = None\<rparr>"

definition sample_create :: "session \<Rightarrow> provision_request \<Rightarrow> ((exn \<times> bool) + service) \<times> session" where
  "sample_create z req =
     (let st = sh_store (snd z); v = sample_service (fresh_id svc_id (services st)) (pq_name req);
          t = (snd z)\<lparr>sh_store := st\<lparr>services := services st @ [v]\<rparr>, sh_links := sh_links (snd z) @ [\<lparr>sl_service_id = svc_id v, sl_owner_user_id = pq_owner_user_id req, sl_external_service_id = None\<rparr>]\<rparr> in (Inr v, (t, t)))"

definition sample_env :: fulfil_env where
  "sample_env = \<lparr>fe_create = sample_create, fe_resume = (\<lambda>z v req. (Inl (ProvisioningError 500 ''unavailable'', False), z)), fe_text = (\<lambda>e. ''error'')\<rparr>"

lemma sample_env_creates: "creates sample_env"
  unfolding creates_def sample_env_def sample_create_def Let_def fulfil_env.select_convs by (metis sample_service_def service.select_convs(1))

lemma sample_env_provisioner: "provisioner sample_env"
  by (auto simp: provisioner_def sample_env_def sample_create_def Let_def core_def)

definition sample_order :: "int \<Rightarrow> string \<Rightarrow> shop_order \<times> shop" where
  "sample_order plan choice = (case place_order sample_settings 7 sample_shop (sample_checkout plan choice '' n1 '') of Inl _ \<Rightarrow> undefined | Inr r \<Rightarrow> r)"

definition placed_well :: "int \<Rightarrow> string \<Rightarrow> bool" where
  "placed_well plan choice = (case place_order sample_settings 7 sample_shop (sample_checkout plan choice '' n1 '') of Inl _ \<Rightarrow> False | Inr _ \<Rightarrow> True)"

lemma sample_order_placed:
  assumes "placed_well plan choice"
  shows "place_order sample_settings 7 sample_shop (sample_checkout plan choice '' n1 '') = Inr (fst (sample_order plan choice), snd (sample_order plan choice))"
  using assms by (simp add: placed_well_def sample_order_def split: sum.splits)

lemma sample_placed: "placed_well 1 ''big''" "placed_well 1 ''small''" "placed_well 2 ''std''"
  by code_simp+

lemma sample_shop_ok: "shop_ok sample_shop"
  by (simp add: shop_ok_def coupons_ok_def sample_shop_def unique_on_def) code_simp

theorem order_placed_once_witness:
  "\<exists>x s'. place_order sample_settings 7 sample_shop (sample_checkout 1 ''big'' '' n1 '') = Inr (x, s') \<and>
     place_order sample_settings 9 s' (sample_checkout 1 ''small'' ''n1'') = Inr (x, s')"
proof -
  have n: "strip (ck_nonce (sample_checkout 1 ''small'' ''n1'')) = strip (ck_nonce (sample_checkout 1 ''big'' '' n1 ''))" by code_simp
  note p = sample_order_placed [OF sample_placed(1)]
  show ?thesis using order_placed_once [OF p, THEN conjunct2, THEN conjunct2, THEN conjunct1, rule_format, OF n, of sample_settings 9] p by blast
qed

text \<open>The order is placed and accepted.\<close>

abbreviation "sample_events plan choice \<equiv> [PlaceOrder sample_settings 7 (sample_checkout plan choice '' n1 ''), AcceptOrder 8 1 (Some 9)]"

abbreviation "sample_end plan choice \<equiv> left_by (accept_order sample_env 8 (snd (sample_order plan choice)) 1 (Some 9))"

lemma sample_run:
  assumes "placed_well plan choice"
  shows "runs (shop_step sample_env) sample_shop (sample_events plan choice) (sample_end plan choice)"
  using shop_step.place [OF sample_order_placed [OF assms], of sample_env] by (blast intro: runs.intros shop_step.accept [OF refl])

theorem shop_stays_consistent_witness:
  "\<exists>t. runs (shop_step sample_env) sample_shop (sample_events 1 ''big'') t \<and> map od_status (orders t) = [ORDER_ACTIVE] \<and> map od_total_cents (orders t) = [2261] \<and>
     distinct (map od_order_number (orders t))"
proof -
  have "map od_status (orders (sample_end 1 ''big'')) = [ORDER_ACTIVE]" "map od_total_cents (orders (sample_end 1 ''big'')) = [2261]" by code_simp+
  moreover note sample_run [OF sample_placed(1)]
  moreover from shop_stays_consistent [OF sample_env_provisioner sample_shop_ok this] have "distinct (map od_order_number (orders (sample_end 1 ''big'')))" by blast
  ultimately show ?thesis by (intro exI conjI)
qed

theorem orders_refine_automaton_witness:
  "\<exists>bs. runs order_step (statuses sample_shop) bs (statuses (sample_end 1 ''big'')) \<and> statuses sample_shop 1 = None \<and> statuses (sample_end 1 ''big'') 1 = Some ORDER_ACTIVE"
proof -
  have "statuses sample_shop 1 = None" "statuses (sample_end 1 ''big'') 1 = Some ORDER_ACTIVE" by code_simp+
  then show ?thesis using orders_refine_automaton [OF sample_env_provisioner sample_shop_ok sample_run [OF sample_placed(1)]] by blast
qed

theorem free_order_never_active_witness:
  "\<exists>x. orders (sample_end 2 ''std'') = [x] \<and> od_total_cents x = 0 \<and> left_by (accept_order sample_env 10 (sample_end 2 ''std'') (od_id x) None) = sample_end 2 ''std''"
proof -
  have "map od_total_cents (orders (sample_end 2 ''std'')) = [0]" by code_simp
  then obtain x where x: "orders (sample_end 2 ''std'') = [x]" "od_total_cents x = 0" by auto
  then have "x \<in> set (orders (sample_end 2 ''std''))" by simp
  from free_order_never_active [OF sample_env_provisioner sample_shop_ok sample_run [OF sample_placed(3)] this x(2)] x show ?thesis by blast
qed

text \<open>The one order of a shop and what its fulfilment reads.\<close>

definition sample_ready :: "string \<Rightarrow> int \<Rightarrow> int \<Rightarrow> bool" where
  "sample_ready choice setup recurring \<longleftrightarrow>
     (let s = snd (sample_order 1 choice) in
      case (orders s, order_items (sh_store s), load_product_bundle s 1) of
        ([x], [it], Inr p) \<Rightarrow> ready s x it p (hd (fp_price_plans p)) sample_account \<and> pl_pricing_model (hd (fp_price_plans p)) = RECURRING \<and>
          oi_setup_cents it = setup \<and> oi_recurring_cents it = recurring
      | _ \<Rightarrow> False)"

lemma sample_ready: "sample_ready ''big'' 700 1200" "sample_ready ''small'' (- 100) 400"
  by code_simp+

lemma sample_readyE:
  assumes "sample_ready choice setup recurring"
  obtains x it p where "ready (snd (sample_order 1 choice)) x it p (hd (fp_price_plans p)) sample_account" "pl_pricing_model (hd (fp_price_plans p)) = RECURRING"
    "oi_setup_cents it = setup" "oi_recurring_cents it = recurring" "it \<in> set (order_items (sh_store (snd (sample_order 1 choice))))"
    "x \<in> set (orders (snd (sample_order 1 choice)))"
  using assms unfolding sample_ready_def Let_def by (auto split: list.splits sum.splits)

theorem negative_setup_strands_order_witness:
  "\<exists>(x :: shop_order) c v. accept_order sample_env 8 (snd (sample_order 1 ''small'')) (od_id x) None = Inl (PendingRollbackError, c) \<and> statuses c (od_id x) = Some FULFILLING \<and>
     services (sh_store c) = services (sh_store (snd (sample_order 1 ''small''))) @ [v]"
proof -
  from sample_ready(2) obtain x it p where r: "ready (snd (sample_order 1 ''small'')) x it p (hd (fp_price_plans p)) sample_account"
    "pl_pricing_model (hd (fp_price_plans p)) = RECURRING" "oi_setup_cents it = - 100" "oi_recurring_cents it = 400" by (rule sample_readyE)
  then have "0 < oi_recurring_cents it" "oi_setup_cents it < 0" by simp_all
  from negative_setup_strands_order [OF sample_env_creates r(1,2) this, of 8 None]
  obtain c v where "accept_order sample_env 8 (snd (sample_order 1 ''small'')) (od_id x) None = Inl (PendingRollbackError, c)"
    "statuses c (od_id x) = Some FULFILLING" "services (sh_store c) = services (sh_store (snd (sample_order 1 ''small''))) @ [v]" by blast
  then show ?thesis by blast
qed

theorem paid_order_is_fulfilled_witness:
  "\<exists>(x :: shop_order) t b. accept_order sample_env 8 (snd (sample_order 1 ''big'')) (od_id x) None = Inr t \<and> statuses t (od_id x) = Some ORDER_ACTIVE \<and>
     service_billings (sh_store t) = service_billings (sh_store (snd (sample_order 1 ''big''))) @ [b] \<and> sb_monthly_price_cents b = 1200"
proof -
  from sample_ready(1) obtain x it p where r: "ready (snd (sample_order 1 ''big'')) x it p (hd (fp_price_plans p)) sample_account"
    "pl_pricing_model (hd (fp_price_plans p)) = RECURRING" "oi_setup_cents it = 700" "oi_recurring_cents it = 1200"
    "it \<in> set (order_items (sh_store (snd (sample_order 1 ''big''))))" by (rule sample_readyE)
  then have "0 < oi_recurring_cents it" "0 \<le> oi_setup_cents it" by simp_all
  from paid_order_is_fulfilled [OF sample_env_creates r(1,2) this r(5), of 8 None, unfolded r(4)]
  obtain t b where "accept_order sample_env 8 (snd (sample_order 1 ''big'')) (od_id x) None = Inr t" "statuses t (od_id x) = Some ORDER_ACTIVE"
    "service_billings (sh_store t) = service_billings (sh_store (snd (sample_order 1 ''big''))) @ [b]" "sb_monthly_price_cents b = 1200" by blast
  then show ?thesis by blast
qed

text \<open>The shop after the first sale of the product, with a second order placed.\<close>

definition second_order :: "shop_order \<times> shop" where
  "second_order = (case place_order sample_settings 9 (sample_end 1 ''big'') (sample_checkout 1 ''std'' ''n2'') of Inl _ \<Rightarrow> undefined | Inr r \<Rightarrow> r)"

definition name_clash :: "shop_order \<Rightarrow> shop \<Rightarrow> bool" where
  "name_clash x s \<longleftrightarrow> get_row od_id 2 (orders s) = Some x \<and> od_status x = PENDING_PAYMENT \<and>
     (case list_for_order s 2 of [it] \<Rightarrow> list_ex (\<lambda>v. svc_name v = item_name x it) (services (sh_store s)) | _ \<Rightarrow> False)"

lemma second_order_clash: "case second_order of (x, s) \<Rightarrow> name_clash x s"
  by code_simp

theorem second_sale_fails_witness:
  "\<exists>t. accept_order sample_env 10 (snd second_order) 2 None = Inr t \<and> statuses t 2 = Some PROVISION_ERROR"
proof -
  have c: "name_clash (fst second_order) (snd second_order)" using second_order_clash by (simp add: case_prod_beta)
  then obtain it where it: "list_for_order (snd second_order) 2 = [it]" by (auto simp: name_clash_def split: list.splits)
  with c obtain v where "v \<in> set (services (sh_store (snd second_order)))" "svc_name v = item_name (fst second_order) it"
    by (auto simp: name_clash_def list_ex_iff)
  with c it show ?thesis using second_sale_fails [of 2 "snd second_order" "fst second_order" it v sample_env 10 None] by (auto simp: name_clash_def)
qed

end
