(* ===== verification/Usdt.thy ===== *)
theory Usdt
  imports Webhooks Ip_Text "HOL-Library.List_Lexorder" "HOL-Library.Char_ord"
begin

text \<open>
  Payments in USDT: the rows of \<open>app/models/usdt.py\<close>, the strict reading of answers in
  \<open>app/services/payments/usdt_rpc.py\<close>, and the deposits of \<open>usdt_crypto.py\<close>. The node is a parameter that answers each
  call by its number, so that two calls may be answered differently; the address library (checksums, the topic of a transfer),
  the derivation of addresses and the signing of transactions are parameters too. The state is the store of the other
  components with the tables of deposits, transfers and cursors, and the number of calls made so far.
\<close>

section \<open>Rows\<close>

datatype UsdtDepositStatus = AWAITING | PENDING_CONFIRMATIONS | CONFIRMED | UNDERPAID | OVERPAID | EXPIRED | SWEEP_PENDING
  | SWEEPING | SWEPT | REORGED | MANUAL_REVIEW

record usdt_deposit =
  dp_id :: int
  dp_invoice_id :: int
  dp_reseller_id :: int
  dp_derivation_index :: int
  dp_chain_id :: int
  dp_contract_address :: string
  dp_deposit_address :: string
  dp_expected_token_units :: int
  dp_received_token_units :: int
  dp_status :: UsdtDepositStatus
  dp_first_block :: "int option"
  dp_confirmed_block :: "int option"
  dp_block_hash :: "string option"
  dp_credited_at :: "instant option"
  dp_expires_at :: instant
  dp_gas_funding_tx_hash :: "string option"
  dp_gas_funded_at :: "instant option"
  dp_sweep_tx_hash :: "string option"
  dp_sweep_error :: "string option"
  dp_sweep_attempts :: int

record usdt_transfer_event =
  te_id :: int
  te_deposit_id :: int
  te_chain_id :: int
  te_tx_hash :: string
  te_log_index :: int
  te_block_number :: int
  te_block_hash :: string
  te_block_timestamp :: "instant option"
  te_from_address :: string
  te_to_address :: string
  te_token_units :: int
  te_confirmed_at :: "instant option"
  te_reversed_at :: "instant option"

record usdt_chain_cursor =
  cu_id :: int
  cu_chain_id :: int
  cu_contract_address :: string
  cu_next_block :: int
  cu_last_safe_block :: "int option"
  cu_last_safe_block_hash :: "string option"
  cu_lease_owner :: "string option"
  cu_lease_expires_at :: "instant option"

record usdt_db =
  ud_store :: store
  ud_deposits :: "usdt_deposit list"
  ud_events :: "usdt_transfer_event list"
  ud_cursors :: "usdt_chain_cursor list"
  ud_next_index :: "int option"
  ud_calls :: nat

definition save_deposit :: "usdt_deposit \<Rightarrow> usdt_db \<Rightarrow> usdt_db" where
  "save_deposit dp d = d\<lparr>ud_deposits := put_row dp_id dp (ud_deposits d)\<rparr>"

definition save_event :: "usdt_transfer_event \<Rightarrow> usdt_db \<Rightarrow> usdt_db" where
  "save_event e d = d\<lparr>ud_events := put_row te_id e (ud_events d)\<rparr>"

definition save_cursor :: "usdt_chain_cursor \<Rightarrow> usdt_db \<Rightarrow> usdt_db" where
  "save_cursor c d = d\<lparr>ud_cursors := put_row cu_id c (ud_cursors d)\<rparr>"

definition tick :: "usdt_db \<Rightarrow> usdt_db" where
  "tick d = d\<lparr>ud_calls := Suc (ud_calls d)\<rparr>"

section \<open>The environment\<close>

record usdt_config =
  uc_enabled :: bool
  uc_sweeper_enabled :: bool
  uc_chain_id :: int
  uc_contract_address :: string
  uc_treasury_address :: string
  uc_decimals :: int
  uc_confirmations :: int
  uc_scan_chunk_size :: int
  uc_invoice_expiry_seconds :: int
  uc_gas_reserve_wei :: int
  uc_tolerance_token_units :: int
  uc_reorg_recheck_blocks :: int
  uc_sweep_max_attempts :: int
  uc_watcher_lease_seconds :: int

record eth_transaction =
  tx_chain_id :: int
  tx_nonce :: int
  tx_to :: string
  tx_value :: int
  tx_data :: "string option"
  tx_gas :: int
  tx_gas_price :: int

text \<open>
  \<open>ue_checksum\<close> is \<open>is_address\<close> with \<open>to_checksum_address\<close>; \<open>ue_answer\<close> the result of a call by number, name and parameters;
  \<open>ue_set_order\<close> the order in which a set of row ids is iterated.
\<close>

record usdt_env =
  ue_config :: usdt_config
  ue_checksum :: "string \<Rightarrow> string option"
  ue_transfer_topic :: string
  ue_answer :: "nat \<Rightarrow> string \<Rightarrow> json list \<Rightarrow> json res"
  ue_set_order :: "int list \<Rightarrow> int list"
  ue_derive_address :: "int \<Rightarrow> string res"
  ue_gas_wallet :: "string res"
  ue_sign :: "string \<Rightarrow> eth_transaction \<Rightarrow> string res"

section \<open>Hexadecimal text\<close>

text \<open>Python's \<open>int(s, 16)\<close>: a sign, a prefix and single underscores between digits are allowed.\<close>

fun hex_run :: "string \<Rightarrow> int \<Rightarrow> int option" where
  "hex_run [] n = Some n"
| "hex_run [c] n = (case hex_value c of None \<Rightarrow> None | Some v \<Rightarrow> Some (16 * n + int v))"
| "hex_run (c # c' # cs) n =
     (case hex_value c of
        Some v \<Rightarrow> hex_run (c' # cs) (16 * n + int v)
      | None \<Rightarrow> if c = CHR ''_'' then (case hex_value c' of None \<Rightarrow> None | Some v \<Rightarrow> hex_run cs (16 * n + int v)) else None)"

definition hex_start :: "string \<Rightarrow> int option" where
  "hex_start s = (case s of [] \<Rightarrow> None | c # cs \<Rightarrow> (case hex_value c of None \<Rightarrow> None | Some v \<Rightarrow> hex_run cs (int v)))"

definition hex_body :: "string \<Rightarrow> int option" where
  "hex_body s =
     (if take 2 s = ''0x'' \<or> take 2 s = ''0X''
      then (case drop 2 s of CHR ''_'' # cs \<Rightarrow> hex_start cs | cs \<Rightarrow> hex_start cs)
      else hex_start s)"

definition int_of_hex :: "string \<Rightarrow> int option" where
  "int_of_hex s =
     (case strip s of
        CHR ''-'' # cs \<Rightarrow> map_option uminus (hex_body cs)
      | CHR ''+'' # cs \<Rightarrow> hex_body cs
      | cs \<Rightarrow> hex_body cs)"

section \<open>Reading the answers of the node\<close>

definition hex_quantity :: "json option \<Rightarrow> string \<Rightarrow> int res" where
  "hex_quantity v field =
     (case v of
        Some (JStr s) \<Rightarrow>
          if take 2 s \<noteq> ''0x'' then Inl (EthereumRpcError (''Invalid '' @ field))
          else (case int_of_hex s of None \<Rightarrow> Inl (EthereumRpcError (''Invalid '' @ field)) | Some n \<Rightarrow> Inr n)
      | _ \<Rightarrow> Inl (EthereumRpcError (''Invalid '' @ field)))"

definition quantity :: "json option \<Rightarrow> string \<Rightarrow> int res" where
  "quantity v field =
     ebind (hex_quantity v field) (\<lambda>n. if n < 0 then Inl (EthereumRpcError (''Negative '' @ field)) else Inr n)"

definition hash_text :: "json option \<Rightarrow> string \<Rightarrow> string res" where
  "hash_text v field =
     (case v of
        Some (JStr s) \<Rightarrow>
          if length s \<noteq> 66 \<or> take 2 s \<noteq> ''0x'' \<or> int_of_hex (drop 2 s) = None then Inl (EthereumRpcError (''Invalid '' @ field))
          else Inr (lower s)
      | _ \<Rightarrow> Inl (EthereumRpcError (''Invalid '' @ field)))"

definition normalize_eth_address :: "usdt_env \<Rightarrow> json \<Rightarrow> string res" where
  "normalize_eth_address env v =
     (case v of
        JStr s \<Rightarrow> (case ue_checksum env (strip s) of None \<Rightarrow> Inl (UsdtDepositError ''Invalid Ethereum address'') | Some a \<Rightarrow> Inr a)
      | _ \<Rightarrow> Inl (UsdtDepositError ''Invalid Ethereum address''))"

definition topic_address :: "usdt_env \<Rightarrow> json \<Rightarrow> string res" where
  "topic_address env topic =
     (case topic of
        JStr s \<Rightarrow>
          if length s \<noteq> 66 \<or> take 2 s \<noteq> ''0x'' \<or> take 24 (drop 2 s) \<noteq> replicate 24 CHR ''0''
          then Inl (EthereumRpcError ''ERC-20 Transfer contains an invalid address topic'')
          else (case normalize_eth_address env (JStr (''0x'' @ drop (length s - 40) s)) of
                  Inl _ \<Rightarrow> Inl (EthereumRpcError ''ERC-20 Transfer contains an invalid address'')
                | Inr a \<Rightarrow> Inr a)
      | _ \<Rightarrow> Inl (EthereumRpcError ''ERC-20 Transfer contains an invalid address topic''))"

definition address_topic :: "usdt_env \<Rightarrow> string \<Rightarrow> string res" where
  "address_topic env address =
     ebind (normalize_eth_address env (JStr address)) (\<lambda>a. Inr (''0x'' @ replicate 24 CHR ''0'' @ lower (drop 2 a)))"

definition hex_padded :: "nat \<Rightarrow> int \<Rightarrow> string" where
  "hex_padded w n = replicate (w - length (show_hex n)) CHR ''0'' @ show_hex n"

definition encode_erc20_transfer :: "usdt_env \<Rightarrow> string \<Rightarrow> int \<Rightarrow> string res" where
  "encode_erc20_transfer env destination token_units =
     (if token_units \<le> 0 then Inl (ValueError ''ERC-20 transfer units must be positive'')
      else ebind (normalize_eth_address env (JStr destination)) (\<lambda>a.
        Inr (''0xa9059cbb'' @ replicate 24 CHR ''0'' @ lower (drop 2 a) @ hex_padded 64 token_units)))"

record decoded_transfer =
  dt_tx_hash :: string
  dt_log_index :: int
  dt_block_number :: int
  dt_block_hash :: string
  dt_contract_address :: string
  dt_from_address :: string
  dt_to_address :: string
  dt_token_units :: int
  dt_removed :: bool

definition decode_transfer_log :: "usdt_env \<Rightarrow> dict \<Rightarrow> string \<Rightarrow> decoded_transfer res" where
  "decode_transfer_log env log expected_contract =
     (case (case map_of log ''address'' of None \<Rightarrow> Inl (KeyError ''address'') | Some v \<Rightarrow> normalize_eth_address env v) of
        Inl _ \<Rightarrow> Inl (EthereumRpcError ''Ethereum log has an invalid contract'')
      | Inr contract \<Rightarrow>
          ebind (normalize_eth_address env (JStr expected_contract)) (\<lambda>expected.
          if contract \<noteq> expected then Inl (EthereumRpcError ''Ethereum log contract does not match configured USDT'')
          else
          (case map_of log ''topics'' of
             Some (JList [JStr t0, t1, t2]) \<Rightarrow>
               if lower t0 \<noteq> lower (ue_transfer_topic env) then Inl (EthereumRpcError ''Ethereum log is not an ERC-20 Transfer'')
               else
               (case map_of log ''data'' of
                  Some (JStr data) \<Rightarrow>
                    if length data \<noteq> 66 \<or> take 2 data \<noteq> ''0x'' then Inl (EthereumRpcError ''ERC-20 Transfer contains invalid data'')
                    else
                    (case int_of_hex (drop 2 data) of
                       None \<Rightarrow> Inl (EthereumRpcError ''ERC-20 Transfer contains invalid units'')
                     | Some units \<Rightarrow>
                         if units \<le> 0 then Inl (EthereumRpcError ''ERC-20 Transfer units must be positive'')
                         else
                         (case (case map_of log ''removed'' of None \<Rightarrow> JBool False | Some v \<Rightarrow> v) of
                            JBool removed \<Rightarrow>
                              ebind (hash_text (map_of log ''transactionHash'') ''transaction hash'') (\<lambda>tx_hash.
                              ebind (quantity (map_of log ''logIndex'') ''log index'') (\<lambda>log_index.
                              ebind (quantity (map_of log ''blockNumber'') ''block number'') (\<lambda>block_number.
                              ebind (hash_text (map_of log ''blockHash'') ''block hash'') (\<lambda>block_hash.
                              ebind (topic_address env t1) (\<lambda>from_address.
                              ebind (topic_address env t2) (\<lambda>to_address.
                              Inr \<lparr>dt_tx_hash = tx_hash, dt_log_index = log_index, dt_block_number = block_number, dt_block_hash = block_hash,
                                   dt_contract_address = contract, dt_from_address = from_address, dt_to_address = to_address,
                                   dt_token_units = units, dt_removed = removed\<rparr>))))))
                          | _ \<Rightarrow> Inl (EthereumRpcError ''Ethereum log removed flag is invalid'')))
                | _ \<Rightarrow> Inl (EthereumRpcError ''ERC-20 Transfer contains invalid data''))
           | _ \<Rightarrow> Inl (EthereumRpcError ''Ethereum log is not an ERC-20 Transfer''))))"

section \<open>Calls\<close>

text \<open>A call answers at the number of calls made before it. An empty result is an error unless it is allowed.\<close>

definition rpc_call :: "usdt_env \<Rightarrow> nat \<Rightarrow> string \<Rightarrow> json list \<Rightarrow> bool \<Rightarrow> json res" where
  "rpc_call env k name params allow_none =
     ebind (ue_answer env k name params) (\<lambda>result.
     if result = JNull \<and> \<not> allow_none then Inl (EthereumRpcError (''Ethereum RPC '' @ name @ '' returned no result'')) else Inr result)"

definition hex_text :: "int \<Rightarrow> string" where
  "hex_text n = (if n < 0 then ''-0x'' @ show_hex (- n) else ''0x'' @ show_hex n)"

definition assert_chain_id :: "usdt_env \<Rightarrow> usdt_db \<Rightarrow> usdt_db res" where
  "assert_chain_id env d =
     ebind (rpc_call env (ud_calls d) ''eth_chainId'' [] False) (\<lambda>v.
     ebind (quantity (Some v) ''chain ID'') (\<lambda>n.
     if n \<noteq> uc_chain_id (ue_config env) then Inl (EthereumRpcError ''Ethereum RPC chain ID does not match configuration'')
     else Inr (tick d)))"

definition block_number :: "usdt_env \<Rightarrow> usdt_db \<Rightarrow> (int \<times> usdt_db) res" where
  "block_number env d =
     ebind (rpc_call env (ud_calls d) ''eth_blockNumber'' [] False) (\<lambda>v.
     ebind (quantity (Some v) ''block number'') (\<lambda>n. Inr (n, tick d)))"

definition quantity_at :: "usdt_env \<Rightarrow> nat \<Rightarrow> string \<Rightarrow> json list \<Rightarrow> int res" where
  "quantity_at env k name params = ebind (rpc_call env k name params False) (\<lambda>v. quantity (Some v) name)"

fun logs_of :: "json list \<Rightarrow> dict list res" where
  "logs_of [] = Inr []"
| "logs_of (JObj l # vs) = ebind (logs_of vs) (\<lambda>ls. Inr (l # ls))"
| "logs_of (_ # vs) = Inl (EthereumRpcError ''Ethereum RPC returned malformed logs'')"

fun address_topics :: "usdt_env \<Rightarrow> string list \<Rightarrow> string list res" where
  "address_topics env [] = Inr []"
| "address_topics env (a # as) = ebind (address_topic env a) (\<lambda>t. ebind (address_topics env as) (\<lambda>ts. Inr (t # ts)))"

definition get_logs :: "usdt_env \<Rightarrow> usdt_db \<Rightarrow> int \<Rightarrow> int \<Rightarrow> string \<Rightarrow> string list \<Rightarrow> (dict list \<times> usdt_db) res" where
  "get_logs env d from_block to_block contract addresses =
     (if from_block < 0 \<or> to_block < from_block then Inl (EthereumRpcError ''Ethereum log block range is invalid'')
      else ebind (address_topics env addresses) (\<lambda>topics.
      if topics = [] then Inr ([], d)
      else ebind (normalize_eth_address env (JStr contract)) (\<lambda>a.
      ebind (rpc_call env (ud_calls d) ''eth_getLogs''
        [JObj [(''fromBlock'', JStr (hex_text from_block)), (''toBlock'', JStr (hex_text to_block)), (''address'', JStr a),
           (''topics'', JList [JStr (ue_transfer_topic env), JNull, JList (map JStr (sort (remdups topics)))])]] False) (\<lambda>result.
      case result of
        JList vs \<Rightarrow> ebind (logs_of vs) (\<lambda>ls. Inr (ls, tick d))
      | _ \<Rightarrow> Inl (EthereumRpcError ''Ethereum RPC returned malformed logs'')))))"

definition get_block_by_number :: "usdt_env \<Rightarrow> nat \<Rightarrow> int \<Rightarrow> dict res" where
  "get_block_by_number env k n =
     ebind (rpc_call env k ''eth_getBlockByNumber'' [JStr (hex_text n), JBool False] False) (\<lambda>result.
     case result of
       JObj b \<Rightarrow>
         ebind (hash_text (map_of b ''hash'') ''block hash'') (\<lambda>_.
         ebind (quantity (map_of b ''number'') ''block number'') (\<lambda>_.
         ebind (quantity (map_of b ''timestamp'') ''block timestamp'') (\<lambda>_. Inr b)))
     | _ \<Rightarrow> Inl (EthereumRpcError ''Ethereum RPC returned a malformed block''))"

definition get_transaction_receipt :: "usdt_env \<Rightarrow> nat \<Rightarrow> string \<Rightarrow> dict option res" where
  "get_transaction_receipt env k tx_hash =
     ebind (hash_text (Some (JStr tx_hash)) ''transaction hash'') (\<lambda>h.
     ebind (rpc_call env k ''eth_getTransactionReceipt'' [JStr h] True) (\<lambda>result.
     case result of
       JNull \<Rightarrow> Inr None
     | JObj r \<Rightarrow>
         ebind (hash_text (map_of r ''transactionHash'') ''receipt transaction hash'') (\<lambda>_.
         ebind (hash_text (map_of r ''blockHash'') ''receipt block hash'') (\<lambda>_.
         ebind (quantity (map_of r ''blockNumber'') ''receipt block number'') (\<lambda>_.
         ebind (quantity (map_of r ''status'') ''receipt status'') (\<lambda>_. Inr (Some r)))))
     | _ \<Rightarrow> Inl (EthereumRpcError ''Ethereum RPC returned a malformed receipt'')))"

text \<open>\<open>str(row[key]).lower()\<close> of a field that was checked to be a hash.\<close>

definition lower_field :: "dict \<Rightarrow> string \<Rightarrow> string" where
  "lower_field row key = (case map_of row key of Some (JStr s) \<Rightarrow> lower s | _ \<Rightarrow> [])"

section \<open>Deposits\<close>

definition invoice_cents_to_token_units :: "int \<Rightarrow> int \<Rightarrow> int res" where
  "invoice_cents_to_token_units cents decimals =
     (if cents \<le> 0 then Inl (UsdtDepositError ''Invoice cents must be a positive integer'')
      else if decimals < 2 then Inl (UsdtDepositError ''Token decimals must be an integer of at least 2'')
      else Inr (cents * 10 ^ nat (decimals - 2)))"

definition MAX_BIP44_INDEX :: int where
  "MAX_BIP44_INDEX = 2 ^ 31 - 1"

definition derive_deposit_address :: "usdt_env \<Rightarrow> int \<Rightarrow> string res" where
  "derive_deposit_address env index =
     (if index < 0 \<or> index > MAX_BIP44_INDEX then Inl (UsdtDepositError ''Derivation index is outside the BIP-44 range'')
      else ebind (ue_derive_address env index) (\<lambda>a. normalize_eth_address env (JStr a)))"

text \<open>The sequence is created on first use; both dialects return the value before the increment. The allocator commits on its own.\<close>

definition reserve_derivation_index :: "usdt_db \<Rightarrow> int res \<times> usdt_db" where
  "reserve_derivation_index d =
     (let allocated = (case ud_next_index d of None \<Rightarrow> 0 | Some n \<Rightarrow> n) in
      if allocated > MAX_BIP44_INDEX then (Inl (UsdtDepositError ''USDT derivation index space is exhausted''), d)
      else (Inr allocated, d\<lparr>ud_next_index := Some (allocated + 1)\<rparr>))"

definition validate_invoice :: "invoice option \<Rightarrow> int \<Rightarrow> invoice res" where
  "validate_invoice found reseller_id =
     (case found of
        None \<Rightarrow> Inl (UsdtDepositError ''Invoice not found'')
      | Some i \<Rightarrow>
          if inv_reseller_id i \<noteq> Some reseller_id then Inl (UsdtDepositError ''Invoice not found'')
          else if inv_status i \<noteq> OPEN then Inl (UsdtDepositError ''Invoice must be open'')
          else if inv_purpose i \<noteq> CREDIT_TOPUP then Inl (UsdtDepositError ''Only credit top-up invoices accept USDT'')
          else if upper (inv_currency i) \<noteq> ''USD'' then Inl (UsdtDepositError ''USDT deposits require a USD invoice'')
          else Inr i)"

definition find_cursor :: "usdt_db \<Rightarrow> int \<Rightarrow> string \<Rightarrow> usdt_chain_cursor option res" where
  "find_cursor d chain contract =
     scalar_one_or_none (filter (\<lambda>c. cu_chain_id c = chain \<and> cu_contract_address c = contract) (ud_cursors d))"

definition ensure_chain_cursor :: "usdt_db \<Rightarrow> int \<Rightarrow> string \<Rightarrow> int \<Rightarrow> usdt_db res" where
  "ensure_chain_cursor d chain contract initial_block =
     ebind (find_cursor d chain contract) (\<lambda>found.
     case found of
       Some _ \<Rightarrow> Inr d
     | None \<Rightarrow> Inr (d\<lparr>ud_cursors := ud_cursors d @
         [\<lparr>cu_id = fresh_id cu_id (ud_cursors d), cu_chain_id = chain, cu_contract_address = contract, cu_next_block = initial_block,
           cu_last_safe_block = None, cu_last_safe_block_hash = None, cu_lease_owner = None, cu_lease_expires_at = None\<rparr>]\<rparr>))"

definition deposit_ref :: "int \<Rightarrow> string" where
  "deposit_ref i = ''usdt-deposit:'' @ show_int i"

definition new_deposit :: "usdt_env \<Rightarrow> instant \<Rightarrow> usdt_db \<Rightarrow> invoice \<Rightarrow> int \<Rightarrow> int \<Rightarrow> string \<Rightarrow> string \<Rightarrow> int \<Rightarrow> usdt_deposit" where
  "new_deposit env now d i reseller_id index address contract units =
     \<lparr>dp_id = fresh_id dp_id (ud_deposits d), dp_invoice_id = inv_id i, dp_reseller_id = reseller_id, dp_derivation_index = index,
      dp_chain_id = uc_chain_id (ue_config env), dp_contract_address = contract, dp_deposit_address = address,
      dp_expected_token_units = units, dp_received_token_units = 0, dp_status = AWAITING, dp_first_block = None, dp_confirmed_block = None,
      dp_block_hash = None, dp_credited_at = None, dp_expires_at = now + seconds (uc_invoice_expiry_seconds (ue_config env)),
      dp_gas_funding_tx_hash = None, dp_gas_funded_at = None, dp_sweep_tx_hash = None, dp_sweep_error = None, dp_sweep_attempts = 0\<rparr>"

definition insert_deposit :: "usdt_db \<Rightarrow> usdt_deposit \<Rightarrow> usdt_db res" where
  "insert_deposit d dp =
     (if dp_invoice_id dp \<in> dp_invoice_id ` set (ud_deposits d) \<or> dp_derivation_index dp \<in> dp_derivation_index ` set (ud_deposits d) \<or>
         dp_deposit_address dp \<in> dp_deposit_address ` set (ud_deposits d) \<or> dp_expected_token_units dp \<le> 0
      then Inl IntegrityError else Inr (d\<lparr>ud_deposits := ud_deposits d @ [dp]\<rparr>))"

definition deposit_payment :: "store \<Rightarrow> invoice \<Rightarrow> usdt_deposit \<Rightarrow> payment" where
  "deposit_payment s i dp =
     \<lparr>pay_id = fresh_id pay_id (payments s), pay_invoice_id = inv_id i, pay_gateway = ''usdt'', pay_status = PENDING,
      pay_amount_cents = inv_amount_cents i, pay_currency = inv_currency i, pay_external_ref = Some (deposit_ref (dp_id dp)),
      pay_failure_code = None, pay_failure_message = None,
      pay_metadata = [(''usdt_deposit_id'', JInt (dp_id dp)), (''chain_id'', JInt (dp_chain_id dp)), (''contract_address'', JStr (dp_contract_address dp))],
      pay_processed_at = None, pay_refunded_at = None\<rparr>"

text \<open>The savepoint with the deposit and its payment.\<close>

definition insert_deposit_rows :: "usdt_db \<Rightarrow> invoice \<Rightarrow> usdt_deposit \<Rightarrow> usdt_db res" where
  "insert_deposit_rows d i dp =
     ebind (insert_deposit d dp) (\<lambda>d1.
     ebind (insert_payment (ud_store d1) (deposit_payment (ud_store d1) i dp)) (\<lambda>s.
     Inr (d1\<lparr>ud_store := s\<rparr>)))"

text \<open>The part after the index was reserved, in one transaction.\<close>

definition create_deposit :: "usdt_env \<Rightarrow> instant \<Rightarrow> usdt_db \<Rightarrow> int \<Rightarrow> int \<Rightarrow> int \<Rightarrow> string \<Rightarrow> int \<Rightarrow> (usdt_deposit \<times> usdt_db) res" where
  "create_deposit env now d reseller_id invoice_id index address current_block =
     ebind (validate_invoice (get_invoice (ud_store d) invoice_id) reseller_id) (\<lambda>i.
     ebind (scalar_one_or_none (filter (\<lambda>dp. dp_invoice_id dp = inv_id i) (ud_deposits d))) (\<lambda>existing.
     case existing of
       Some dp \<Rightarrow> Inr (dp, d)
     | None \<Rightarrow>
         ebind (normalize_eth_address env (JStr (uc_contract_address (ue_config env)))) (\<lambda>contract.
         ebind (invoice_cents_to_token_units (inv_amount_cents i) (uc_decimals (ue_config env))) (\<lambda>units.
         let dp = new_deposit env now d i reseller_id index address contract units in
         ebind (ensure_chain_cursor d (dp_chain_id dp) contract current_block) (\<lambda>d1.
         case insert_deposit_rows d1 i dp of
           Inr d2 \<Rightarrow> Inr (dp, d2)
         | Inl IntegrityError \<Rightarrow>
             ebind (scalar_one_or_none (filter (\<lambda>dp. dp_invoice_id dp = inv_id i) (ud_deposits d1))) (\<lambda>existing.
             case existing of Some dp' \<Rightarrow> Inr (dp', d1) | None \<Rightarrow> Inl IntegrityError)
         | Inl e \<Rightarrow> Inl e)))))"

text \<open>The caller commits a result and rolls an exception back; the reserved index stays used either way.\<close>

definition create_or_get_deposit :: "usdt_env \<Rightarrow> instant \<Rightarrow> usdt_db \<Rightarrow> int \<Rightarrow> int \<Rightarrow> usdt_deposit res \<times> usdt_db" where
  "create_or_get_deposit env now d reseller_id invoice_id =
     (if \<not> uc_enabled (ue_config env) then (Inl (UsdtConfigurationError ''USDT deposits are not configured''), d)
      else
        (case ebind (validate_invoice (get_invoice (ud_store d) invoice_id) reseller_id) (\<lambda>i.
                scalar_one_or_none (filter (\<lambda>dp. dp_invoice_id dp = inv_id i) (ud_deposits d))) of
           Inl e \<Rightarrow> (Inl e, d)
         | Inr (Some dp) \<Rightarrow> (Inr dp, d)
         | Inr None \<Rightarrow>
             (case ebind (assert_chain_id env d) (block_number env) of
                Inl e \<Rightarrow> (Inl e, d)
              | Inr (current_block, d1) \<Rightarrow>
                  (case reserve_derivation_index d1 of
                     (Inl e, d2) \<Rightarrow> (Inl e, d2)
                   | (Inr index, d2) \<Rightarrow>
                       (case derive_deposit_address env index of
                          Inl e \<Rightarrow> (Inl e, d2)
                        | Inr address \<Rightarrow>
                            (case create_deposit env now d2 reseller_id invoice_id index address current_block of
                               Inl e \<Rightarrow> (Inl e, d2)
                             | Inr (dp, d3) \<Rightarrow> (Inr dp, d3)))))))"

end
