(* ===== verification/Usdt_Watcher.thy ===== *)
theory Usdt_Watcher
  imports Usdt
begin

text \<open>
  The watcher of \<open>app/services/payments/usdt_watcher.py\<close>, the sweeper of \<open>usdt_sweeper.py\<close>, the worker of
  \<open>app/workers/usdt_watcher.py\<close> and the administrator's handlers for deposits in \<open>app/api/reseller_admin.py\<close>. A run of the watcher is
  one transaction: an exception leaves the database as it was. The sweeper records an exception in the deposit; the numbers of the
  calls it made are then skipped, so that no two calls share a number.
\<close>

section \<open>Blocks\<close>

text \<open>The loop of \<open>iter_block_chunks\<close>; the guard makes each chunk at least one block.\<close>

function chunks_from :: "int \<Rightarrow> int \<Rightarrow> int \<Rightarrow> (int \<times> int) list" where
  "chunks_from current end_block width =
     (if width \<le> 0 \<or> end_block < current then []
      else (current, min end_block (current + width - 1)) # chunks_from (min end_block (current + width - 1) + 1) end_block width)"
  by auto

termination by (relation "measure (\<lambda>(current, end_block, width). nat (end_block + 1 - current))") auto

declare chunks_from.simps [simp del]

definition iter_block_chunks :: "int \<Rightarrow> int \<Rightarrow> int \<Rightarrow> (int \<times> int) list res" where
  "iter_block_chunks start_block end_block chunk_size =
     (if start_block < 0 \<or> end_block < start_block \<or> chunk_size \<le> 0 then Inl (ValueError ''Invalid Ethereum block chunk range'')
      else Inr (chunks_from start_block end_block chunk_size))"

definition from_timestamp :: "int \<Rightarrow> instant res" where
  "from_timestamp n =
     (if n < - 62135596800 \<or> 253402300799 < n then Inl (ValueError ''year is out of range'') else Inr (seconds (n + 62135596800)))"

section \<open>The lease\<close>

definition watcher_contract :: "usdt_env \<Rightarrow> string res" where
  "watcher_contract env =
     (if \<not> uc_enabled (ue_config env) then Inl (EthereumRpcError ''USDT watcher is not configured'')
      else normalize_eth_address env (JStr (uc_contract_address (ue_config env))))"

definition cursor_of :: "usdt_env \<Rightarrow> string \<Rightarrow> usdt_db \<Rightarrow> usdt_chain_cursor option res" where
  "cursor_of env contract d = find_cursor d (uc_chain_id (ue_config env)) contract"

definition cursor_available :: "usdt_chain_cursor \<Rightarrow> string \<Rightarrow> instant \<Rightarrow> bool" where
  "cursor_available c owner now \<longleftrightarrow> cu_lease_owner c = None \<or> (case cu_lease_expires_at c of None \<Rightarrow> True | Some t \<Rightarrow> t \<le> now) \<or> cu_lease_owner c = Some owner"

definition acquire_watcher_lease :: "usdt_env \<Rightarrow> string \<Rightarrow> usdt_db \<Rightarrow> string \<Rightarrow> instant \<Rightarrow> (bool \<times> usdt_db) res" where
  "acquire_watcher_lease env contract d owner now =
     ebind (cursor_of env contract d) (\<lambda>found.
     case found of
       None \<Rightarrow> Inr (False, d)
     | Some c \<Rightarrow>
         if cursor_available c owner now
         then Inr (True, save_cursor (c\<lparr>cu_lease_owner := Some owner,
                cu_lease_expires_at := Some (now + seconds (uc_watcher_lease_seconds (ue_config env)))\<rparr>) d)
         else Inr (False, d))"

definition release_watcher_lease :: "usdt_env \<Rightarrow> string \<Rightarrow> usdt_db \<Rightarrow> string \<Rightarrow> usdt_db" where
  "release_watcher_lease env contract d owner = d\<lparr>ud_cursors := map (\<lambda>c.
     if cu_chain_id c = uc_chain_id (ue_config env) \<and> cu_contract_address c = contract \<and> cu_lease_owner c = Some owner
     then c\<lparr>cu_lease_owner := None, cu_lease_expires_at := None\<rparr> else c) (ud_cursors d)\<rparr>"

section \<open>Canonical transfers\<close>

definition event_is_canonical :: "usdt_env \<Rightarrow> usdt_db \<Rightarrow> usdt_transfer_event \<Rightarrow> (bool \<times> usdt_db) res" where
  "event_is_canonical env d e =
     ebind (get_transaction_receipt env (ud_calls d) (te_tx_hash e)) (\<lambda>receipt.
     case receipt of
       None \<Rightarrow> Inr (False, tick d)
     | Some r \<Rightarrow>
         ebind (hex_quantity (map_of r ''status'') ''receipt status'') (\<lambda>status.
         if status \<noteq> 1 then Inr (False, tick d)
         else
         ebind (hex_quantity (map_of r ''blockNumber'') ''receipt block'') (\<lambda>n.
         if n \<noteq> te_block_number e \<or> lower_field r ''blockHash'' \<noteq> lower (te_block_hash e) then Inr (False, tick d)
         else
         ebind (get_block_by_number env (ud_calls (tick d)) (te_block_number e)) (\<lambda>b.
         Inr (lower_field b ''hash'' = lower (te_block_hash e), tick (tick d))))))"

fun all_canonical :: "usdt_env \<Rightarrow> usdt_db \<Rightarrow> usdt_transfer_event list \<Rightarrow> (bool \<times> usdt_db) res" where
  "all_canonical env d [] = Inr (True, d)"
| "all_canonical env d (e # es) =
     ebind (event_is_canonical env d e) (\<lambda>(ok, d1). if ok then all_canonical env d1 es else Inr (False, d1))"

definition receipt_matches_transfer :: "dict option \<Rightarrow> decoded_transfer \<Rightarrow> bool res" where
  "receipt_matches_transfer receipt t =
     (case receipt of
        None \<Rightarrow> Inr False
      | Some r \<Rightarrow>
          ebind (hex_quantity (map_of r ''status'') ''receipt status'') (\<lambda>status.
          if status \<noteq> 1 \<or> lower_field r ''transactionHash'' \<noteq> dt_tx_hash t then Inr False
          else ebind (hex_quantity (map_of r ''blockNumber'') ''receipt block'') (\<lambda>n.
          Inr (n = dt_block_number t \<and> lower_field r ''blockHash'' = dt_block_hash t))))"

section \<open>Reconciliation of a deposit\<close>

definition active_events :: "usdt_db \<Rightarrow> int \<Rightarrow> usdt_transfer_event list" where
  "active_events d deposit_id = sort_key te_block_number (sort_key te_log_index
     (filter (\<lambda>e. te_deposit_id e = deposit_id \<and> te_reversed_at e = None) (ud_events d)))"

definition token_sum :: "usdt_transfer_event list \<Rightarrow> int" where
  "token_sum es = sum_list (map te_token_units es)"

text \<open>\<open>max\<close> keeps the first of equal elements.\<close>

definition final_event :: "usdt_transfer_event list \<Rightarrow> usdt_transfer_event" where
  "final_event es = fold (\<lambda>e m.
     if te_block_number m < te_block_number e \<or> te_block_number m = te_block_number e \<and> te_log_index m < te_log_index e then e else m) (tl es) (hd es)"

definition summarize_events :: "instant \<Rightarrow> usdt_deposit \<Rightarrow> usdt_transfer_event list \<Rightarrow> usdt_deposit" where
  "summarize_events now dp es =
     (let dp1 = dp\<lparr>dp_received_token_units := token_sum es\<rparr> in
      case es of
        [] \<Rightarrow>
          (let dp2 = dp1\<lparr>dp_first_block := None, dp_confirmed_block := None, dp_block_hash := None\<rparr> in
           if dp_credited_at dp = None then dp2\<lparr>dp_status := if dp_expires_at dp \<le> now then EXPIRED else AWAITING\<rparr> else dp2)
      | e # _ \<Rightarrow> dp1\<lparr>dp_first_block := Some (te_block_number e), dp_confirmed_block := Some (te_block_number (final_event es)),
          dp_block_hash := Some (te_block_hash (final_event es))\<rparr>)"

definition notify_usdt_detection :: "store \<Rightarrow> usdt_deposit \<Rightarrow> store res" where
  "notify_usdt_detection s dp =
     (case (get_reseller s (dp_reseller_id dp), get_invoice s (dp_invoice_id dp)) of
        (Some r, Some i) \<Rightarrow>
          notify s r ''usdt_detected'' (deposit_ref (dp_id dp) @ '':detected'')
            [(''invoice_id'', JInt (dp_invoice_id dp)), (''amount_cents'', JInt (inv_amount_cents i)), (''currency'', JStr (inv_currency i))]
      | _ \<Rightarrow> Inl (AttributeError ''invoice''))"

definition usdt_payment :: "store \<Rightarrow> int \<Rightarrow> payment option res" where
  "usdt_payment s deposit_id =
     scalar_one_or_none (filter (\<lambda>p. pay_gateway p = ''usdt'' \<and> pay_external_ref p = Some (deposit_ref deposit_id)) (payments s))"

definition with_status :: "UsdtDepositStatus \<Rightarrow> usdt_deposit \<Rightarrow> usdt_deposit" where
  "with_status b dp = dp\<lparr>dp_status := b\<rparr>"

definition settled_status :: "usdt_deposit \<Rightarrow> usdt_deposit" where
  "settled_status dp =
     (if dp_expected_token_units dp < dp_received_token_units dp then with_status OVERPAID dp
      else if dp_status dp \<notin> {SWEEPING, SWEPT} then with_status SWEEP_PENDING dp else dp)"

definition settle_eligible_deposit :: "usdt_env \<Rightarrow> instant \<Rightarrow> usdt_db \<Rightarrow> usdt_deposit \<Rightarrow> usdt_transfer_event list \<Rightarrow> usdt_db res" where
  "settle_eligible_deposit env now d dp es =
     ebind (usdt_payment (ud_store d) (dp_id dp)) (\<lambda>found.
     case found of
       None \<Rightarrow> Inr (save_deposit (with_status MANUAL_REVIEW dp) d)
     | Some p \<Rightarrow>
         if pay_status p = REFUNDED then Inr (save_deposit (with_status REORGED dp) d)
         else if pay_status p = SUCCEEDED then Inr (save_deposit (settled_status dp) d)
         else
           ebind (all_canonical env d es) (\<lambda>(ok, d1).
           if \<not> ok then Inr (save_deposit (with_status REORGED dp) d1)
           else
             ebind (finalize_success now (ud_store d1) p) (\<lambda>(_, s).
             ebind (all_canonical env (d1\<lparr>ud_store := s\<rparr>) es) (\<lambda>(ok2, d2).
             if \<not> ok2 then Inl (EthereumRpcError ''USDT canonical chain changed during finalization'')
             else Inr (save_deposit (settled_status (dp\<lparr>dp_credited_at := Some now\<rparr>)) d2)))))"

definition late :: "usdt_deposit \<Rightarrow> usdt_transfer_event \<Rightarrow> bool" where
  "late dp e \<longleftrightarrow> (case te_block_timestamp e of None \<Rightarrow> True | Some t \<Rightarrow> dp_expires_at dp < t)"

definition threshold :: "usdt_env \<Rightarrow> usdt_deposit \<Rightarrow> int" where
  "threshold env dp = max 1 (dp_expected_token_units dp - uc_tolerance_token_units (ue_config env))"

definition reconcile :: "usdt_env \<Rightarrow> instant \<Rightarrow> usdt_db \<Rightarrow> usdt_deposit \<Rightarrow> usdt_db res" where
  "reconcile env now d dp =
     (let es = active_events d (dp_id dp); dp1 = summarize_events now dp es in
      if es = [] then Inr (save_deposit dp1 d)
      else
        ebind (if dp_received_token_units dp = 0 then notify_usdt_detection (ud_store d) dp1 else Inr (ud_store d)) (\<lambda>s.
        let d1 = d\<lparr>ud_store := s\<rparr> in
        if list_ex (late dp1) es then Inr (save_deposit (with_status MANUAL_REVIEW dp1) d1)
        else if dp_received_token_units dp1 < threshold env dp1
        then Inr (save_deposit (with_status (if dp_expires_at dp1 \<le> now then MANUAL_REVIEW else UNDERPAID) dp1) d1)
        else settle_eligible_deposit env now d1 dp1 es))"

definition get_deposit :: "usdt_db \<Rightarrow> int \<Rightarrow> usdt_deposit option" where
  "get_deposit d i = get_row dp_id i (ud_deposits d)"

definition reconcile_deposit :: "usdt_env \<Rightarrow> instant \<Rightarrow> usdt_db \<Rightarrow> int \<Rightarrow> usdt_db res" where
  "reconcile_deposit env now d i = (case get_deposit d i of None \<Rightarrow> Inl NoResultFound | Some dp \<Rightarrow> reconcile env now d dp)"

section \<open>Reorganizations\<close>

definition handle_reorg :: "instant \<Rightarrow> usdt_db \<Rightarrow> int \<Rightarrow> usdt_db res" where
  "handle_reorg now d i =
     (case get_deposit d i of
        None \<Rightarrow> Inr d
      | Some dp \<Rightarrow>
          (let d1 = save_deposit (dp\<lparr>dp_status := REORGED, dp_received_token_units := token_sum (active_events d i)\<rparr>) d in
           ebind (usdt_payment (ud_store d1) i) (\<lambda>found.
           case found of
             None \<Rightarrow> Inr d1
           | Some p \<Rightarrow>
               if pay_status p = SUCCEEDED
               then ebind (reverse_payment now (ud_store d1) ''usdt'' (or_empty (pay_external_ref p)) (''reorg:'' @ show_int i) ''reorg'')
                      (\<lambda>s. Inr (d1\<lparr>ud_store := s\<rparr>))
               else Inr d1)))"

fun reorg_each :: "instant \<Rightarrow> usdt_db \<Rightarrow> int list \<Rightarrow> usdt_db res" where
  "reorg_each now d [] = Inr d"
| "reorg_each now d (i # ids) = ebind (handle_reorg now d i) (\<lambda>d1. reorg_each now d1 ids)"

text \<open>The loop over the events from the rewind on, which collects the deposits of reversed events.\<close>

fun reverse_events :: "usdt_env \<Rightarrow> instant \<Rightarrow> usdt_db \<Rightarrow> usdt_transfer_event list \<Rightarrow> (int list \<times> usdt_db) res" where
  "reverse_events env now d [] = Inr ([], d)"
| "reverse_events env now d (e # es) =
     ebind (event_is_canonical env d e) (\<lambda>(ok, d1).
     if ok then reverse_events env now d1 es
     else ebind (reverse_events env now (save_event (e\<lparr>te_reversed_at := Some now\<rparr>) d1) es) (\<lambda>(ids, d2). Inr (List.insert (te_deposit_id e) ids, d2)))"

definition validate_cursor_and_rewind :: "usdt_env \<Rightarrow> instant \<Rightarrow> usdt_db \<Rightarrow> usdt_chain_cursor \<Rightarrow> (usdt_chain_cursor \<times> usdt_db) res" where
  "validate_cursor_and_rewind env now d c =
     (case (cu_last_safe_block c, cu_last_safe_block_hash c) of
        (Some n, Some h) \<Rightarrow>
          if h = [] then Inr (c, d)
          else
            ebind (get_block_by_number env (ud_calls d) n) (\<lambda>b.
            if lower_field b ''hash'' = lower h then Inr (c, tick d)
            else
              (let rewind = max 0 (n - uc_reorg_recheck_blocks (ue_config env) + 1);
                   c1 = c\<lparr>cu_next_block := min (cu_next_block c) rewind, cu_last_safe_block := None, cu_last_safe_block_hash := None\<rparr>;
                   d1 = save_cursor c1 (tick d);
                   es = filter (\<lambda>e. te_chain_id e = uc_chain_id (ue_config env) \<and> rewind \<le> te_block_number e \<and> te_reversed_at e = None) (ud_events d1) in
               ebind (reverse_events env now d1 es) (\<lambda>(affected, d2).
               ebind (reorg_each now d2 (ue_set_order env affected)) (\<lambda>d3. Inr (c1, d3)))))
      | _ \<Rightarrow> Inr (c, d))"

fun recheck_events :: "usdt_env \<Rightarrow> instant \<Rightarrow> usdt_db \<Rightarrow> usdt_transfer_event list \<Rightarrow> usdt_db res" where
  "recheck_events env now d [] = Inr d"
| "recheck_events env now d (e # es) =
     ebind (event_is_canonical env d e) (\<lambda>(ok, d1).
     if ok then recheck_events env now d1 es
     else ebind (handle_reorg now (save_event (e\<lparr>te_reversed_at := Some now\<rparr>) d1) (te_deposit_id e)) (\<lambda>d2. recheck_events env now d2 es))"

definition recheck_recent_confirmations :: "usdt_env \<Rightarrow> int \<Rightarrow> instant \<Rightarrow> usdt_db \<Rightarrow> usdt_db res" where
  "recheck_recent_confirmations env latest_block now d =
     recheck_events env now d (filter (\<lambda>e. te_chain_id e = uc_chain_id (ue_config env) \<and>
       max 0 (latest_block - uc_reorg_recheck_blocks (ue_config env)) \<le> te_block_number e \<and> te_confirmed_at e \<noteq> None \<and> te_reversed_at e = None \<and>
       (case get_deposit d (te_deposit_id e) of None \<Rightarrow> False | Some dp \<Rightarrow> dp_credited_at dp \<noteq> None)) (ud_events d))"

section \<open>Scanning\<close>

fun decode_logs :: "usdt_env \<Rightarrow> string \<Rightarrow> dict list \<Rightarrow> ((string \<times> int) \<times> decoded_transfer) list \<Rightarrow> decoded_transfer list res" where
  "decode_logs env contract [] seen = Inr (map snd seen)"
| "decode_logs env contract (l # ls) seen =
     ebind (decode_transfer_log env l contract) (\<lambda>t.
     let key = (dt_tx_hash t, dt_log_index t) in
     case map_of seen key of
       Some t' \<Rightarrow> if t' \<noteq> t then Inl (EthereumRpcError ''Duplicate USDT log identity has conflicting data'') else decode_logs env contract ls seen
     | None \<Rightarrow> decode_logs env contract ls (seen @ [(key, t)]))"

definition insert_event :: "usdt_db \<Rightarrow> usdt_transfer_event \<Rightarrow> usdt_db res" where
  "insert_event d e =
     (if (te_chain_id e, te_tx_hash e, te_log_index e) \<in> (\<lambda>x. (te_chain_id x, te_tx_hash x, te_log_index x)) ` set (ud_events d) \<or> te_token_units e \<le> 0
      then Inl IntegrityError else Inr (d\<lparr>ud_events := ud_events d @ [e]\<rparr>))"

definition new_event :: "usdt_env \<Rightarrow> instant \<Rightarrow> usdt_db \<Rightarrow> int \<Rightarrow> decoded_transfer \<Rightarrow> instant \<Rightarrow> usdt_transfer_event" where
  "new_event env now d deposit_id t timestamp =
     \<lparr>te_id = fresh_id te_id (ud_events d), te_deposit_id = deposit_id, te_chain_id = uc_chain_id (ue_config env), te_tx_hash = dt_tx_hash t,
      te_log_index = dt_log_index t, te_block_number = dt_block_number t, te_block_hash = dt_block_hash t, te_block_timestamp = Some timestamp,
      te_from_address = dt_from_address t, te_to_address = dt_to_address t, te_token_units = dt_token_units t,
      te_confirmed_at = Some now, te_reversed_at = None\<rparr>"

definition refreshed_event :: "instant \<Rightarrow> usdt_transfer_event \<Rightarrow> decoded_transfer \<Rightarrow> instant \<Rightarrow> usdt_transfer_event" where
  "refreshed_event now e t timestamp =
     e\<lparr>te_block_number := dt_block_number t, te_block_hash := dt_block_hash t, te_block_timestamp := Some timestamp,
       te_from_address := dt_from_address t, te_to_address := dt_to_address t, te_token_units := dt_token_units t,
       te_confirmed_at := (case te_confirmed_at e of None \<Rightarrow> Some now | Some c \<Rightarrow> Some c), te_reversed_at := None\<rparr>"

text \<open>The check of a transfer against its receipt and block; the block is asked for even when it is cached.\<close>

definition transfer_time ::
  "usdt_env \<Rightarrow> usdt_db \<Rightarrow> decoded_transfer \<Rightarrow> (int \<times> dict) list \<Rightarrow> (instant \<times> (int \<times> dict) list \<times> usdt_db) res" where
  "transfer_time env d t cache =
     ebind (get_transaction_receipt env (ud_calls d) (dt_tx_hash t)) (\<lambda>receipt.
     ebind (receipt_matches_transfer receipt t) (\<lambda>ok.
     if \<not> ok then Inl (EthereumRpcError ''USDT transfer receipt is not canonical'')
     else
       ebind (get_block_by_number env (ud_calls (tick d)) (dt_block_number t)) (\<lambda>fetched.
       let block = (case map_of cache (dt_block_number t) of None \<Rightarrow> fetched | Some b \<Rightarrow> b);
           cache1 = (case map_of cache (dt_block_number t) of None \<Rightarrow> cache @ [(dt_block_number t, fetched)] | Some b \<Rightarrow> cache) in
       if lower_field block ''hash'' \<noteq> dt_block_hash t then Inl (EthereumRpcError ''USDT transfer block is not canonical'')
       else
         ebind (hex_quantity (map_of block ''timestamp'') ''block timestamp'') (\<lambda>n.
         ebind (from_timestamp n) (\<lambda>timestamp. Inr (timestamp, cache1, tick (tick d)))))))"

definition record_transfer ::
  "usdt_env \<Rightarrow> instant \<Rightarrow> usdt_db \<Rightarrow> int \<Rightarrow> decoded_transfer \<Rightarrow> (int \<times> dict) list \<Rightarrow> ((int \<times> dict) list \<times> usdt_db) res" where
  "record_transfer env now d deposit_id t cache =
     ebind (scalar_one_or_none (filter (\<lambda>e. te_chain_id e = uc_chain_id (ue_config env) \<and> te_tx_hash e = dt_tx_hash t \<and>
       te_log_index e = dt_log_index t) (ud_events d))) (\<lambda>existing.
     if dt_removed t then
       Inr (cache, case existing of
         None \<Rightarrow> d
       | Some e \<Rightarrow> if te_reversed_at e = None then save_event (e\<lparr>te_reversed_at := Some now\<rparr>) d else d)
     else
       ebind (transfer_time env d t cache) (\<lambda>(timestamp, cache1, d1).
       case existing of
         None \<Rightarrow> ebind (insert_event d1 (new_event env now d1 deposit_id t timestamp)) (\<lambda>d2. Inr (cache1, d2))
       | Some e \<Rightarrow>
           if te_deposit_id e \<noteq> deposit_id then Inl (EthereumRpcError ''USDT transfer destination ownership changed'')
           else if te_reversed_at e = None \<and> (te_block_number e \<noteq> dt_block_number t \<or> lower (te_block_hash e) \<noteq> dt_block_hash t \<or>
             te_token_units e \<noteq> dt_token_units t)
           then Inl (EthereumRpcError ''USDT transfer identity changed unexpectedly'')
           else Inr (cache1, save_event (refreshed_event now e t timestamp) d1)))"

fun record_all ::
  "usdt_env \<Rightarrow> instant \<Rightarrow> usdt_db \<Rightarrow> (string \<times> int) list \<Rightarrow> decoded_transfer list \<Rightarrow> (int \<times> dict) list \<Rightarrow> (int list \<times> usdt_db) res" where
  "record_all env now d by_address [] cache = Inr ([], d)"
| "record_all env now d by_address (t # ts) cache =
     (case map_of by_address (dt_to_address t) of
        None \<Rightarrow> record_all env now d by_address ts cache
      | Some i \<Rightarrow>
          ebind (record_transfer env now d i t cache) (\<lambda>(cache1, d1).
          ebind (record_all env now d1 by_address ts cache1) (\<lambda>(ids, d2). Inr (List.insert i ids, d2))))"

fun reconcile_each :: "usdt_env \<Rightarrow> instant \<Rightarrow> usdt_db \<Rightarrow> int list \<Rightarrow> usdt_db res" where
  "reconcile_each env now d [] = Inr d"
| "reconcile_each env now d (i # ids) = ebind (reconcile_deposit env now d i) (\<lambda>d1. reconcile_each env now d1 ids)"

fun deposit_addresses :: "usdt_env \<Rightarrow> usdt_deposit list \<Rightarrow> (string \<times> int) list res" where
  "deposit_addresses env [] = Inr []"
| "deposit_addresses env (dp # dps) =
     ebind (normalize_eth_address env (JStr (dp_deposit_address dp))) (\<lambda>a.
     ebind (deposit_addresses env dps) (\<lambda>as. Inr ((a, dp_id dp) # as)))"

definition watched_deposits :: "usdt_env \<Rightarrow> string \<Rightarrow> usdt_db \<Rightarrow> usdt_deposit list" where
  "watched_deposits env contract d = filter (\<lambda>dp. dp_chain_id dp = uc_chain_id (ue_config env) \<and> dp_contract_address dp = contract \<and>
     dp_status dp \<notin> {REORGED, MANUAL_REVIEW}) (ud_deposits d)"

definition ADDRESS_BATCH_SIZE :: nat where
  "ADDRESS_BATCH_SIZE = 250"

function get_all_logs :: "usdt_env \<Rightarrow> usdt_db \<Rightarrow> int \<Rightarrow> int \<Rightarrow> string \<Rightarrow> string list \<Rightarrow> (dict list \<times> usdt_db) res" where
  "get_all_logs env d a b contract addresses =
     (if addresses = [] then Inr ([], d)
      else
        ebind (get_logs env d a b contract (take ADDRESS_BATCH_SIZE addresses)) (\<lambda>(ls, d1).
        ebind (get_all_logs env d1 a b contract (drop ADDRESS_BATCH_SIZE addresses)) (\<lambda>(rest, d2). Inr (ls @ rest, d2))))"
  by pat_completeness auto

termination by (relation "measure (\<lambda>(env, d, a, b, contract, addresses). length addresses)") (auto simp: ADDRESS_BATCH_SIZE_def)

declare get_all_logs.simps [simp del]

text \<open>A later deposit of the same address replaces an earlier one in the dictionary.\<close>

definition scan_chunk :: "usdt_env \<Rightarrow> string \<Rightarrow> instant \<Rightarrow> usdt_db \<Rightarrow> int \<Rightarrow> int \<Rightarrow> (int \<times> usdt_db) res" where
  "scan_chunk env contract now d start_block end_block =
     ebind (deposit_addresses env (watched_deposits env contract d)) (\<lambda>pairs.
     let by_address = rev pairs in
     ebind (get_all_logs env d start_block end_block contract (sort (remdups (map fst pairs)))) (\<lambda>(logs, d1).
     ebind (decode_logs env contract logs []) (\<lambda>transfers.
     let decoded = sort_key dt_block_number (sort_key dt_log_index (sort_key dt_tx_hash transfers)) in
     ebind (record_all env now d1 by_address decoded []) (\<lambda>(affected, d2).
     ebind (reconcile_each env now d2 (ue_set_order env affected)) (\<lambda>d3.
     Inr (int (length decoded), d3))))))"

definition expire_unpaid_deposits :: "usdt_env \<Rightarrow> string \<Rightarrow> instant \<Rightarrow> usdt_db \<Rightarrow> usdt_db" where
  "expire_unpaid_deposits env contract now d = d\<lparr>ud_deposits := map (\<lambda>dp.
     if dp_chain_id dp = uc_chain_id (ue_config env) \<and> dp_contract_address dp = contract \<and> dp_credited_at dp = None \<and> dp_expires_at dp \<le> now \<and>
        dp_status dp \<in> {AWAITING, PENDING_CONFIRMATIONS, UNDERPAID}
     then with_status (if 0 < dp_received_token_units dp then MANUAL_REVIEW else EXPIRED) dp else dp) (ud_deposits d)\<rparr>"

definition scan_next :: "usdt_env \<Rightarrow> string \<Rightarrow> instant \<Rightarrow> usdt_db \<Rightarrow> usdt_chain_cursor \<Rightarrow> int \<Rightarrow> (int \<times> usdt_db) res" where
  "scan_next env contract now d c safe_block =
     (if 0 \<le> safe_block \<and> cu_next_block c \<le> safe_block
      then
        ebind (iter_block_chunks (cu_next_block c) safe_block (uc_scan_chunk_size (ue_config env))) (\<lambda>chunks.
        case chunks of
          [] \<Rightarrow> Inr (0, d)
        | (chunk_start, chunk_end) # _ \<Rightarrow>
            ebind (scan_chunk env contract now d chunk_start chunk_end) (\<lambda>(processed, d1).
            ebind (get_block_by_number env (ud_calls d1) chunk_end) (\<lambda>b.
            Inr (processed, save_cursor (c\<lparr>cu_next_block := chunk_end + 1, cu_last_safe_block := Some chunk_end,
              cu_last_safe_block_hash := Some (lower_field b ''hash'')\<rparr>) (tick d1)))))
      else Inr (0, d))"

definition run_once :: "usdt_env \<Rightarrow> string option \<Rightarrow> instant \<Rightarrow> usdt_db \<Rightarrow> (int \<times> usdt_db) res" where
  "run_once env owner now d =
     ebind (watcher_contract env) (\<lambda>contract.
     ebind (assert_chain_id env d) (\<lambda>d1.
     ebind (cursor_of env contract d1) (\<lambda>found.
     case found of
       None \<Rightarrow> Inr (0, d1)
     | Some c \<Rightarrow>
         if owner \<noteq> None \<and> cu_lease_owner c \<noteq> owner then Inr (0, d1)
         else
           ebind (block_number env d1) (\<lambda>(latest, d2).
           ebind (validate_cursor_and_rewind env now d2 c) (\<lambda>(c1, d3).
           ebind (recheck_recent_confirmations env latest now d3) (\<lambda>d4.
           ebind (scan_next env contract now d4 c1 (latest - uc_confirmations (ue_config env))) (\<lambda>(processed, d5).
           Inr (processed, expire_unpaid_deposits env contract now d5))))))))"

section \<open>The sweeper\<close>

text \<open>
  Each call of one sweep has its own number above the number \<open>k\<close> at which the sweep starts. \<open>_rpc_transaction\<close>, \<open>get_balance\<close>,
  \<open>get_transaction_count\<close> and \<open>send_raw_transaction\<close> are written out for the transactions the sweeper sends.
\<close>

definition rpc_transaction :: "usdt_env \<Rightarrow> string \<Rightarrow> string \<Rightarrow> string \<Rightarrow> json res" where
  "rpc_transaction env sender to data =
     ebind (normalize_eth_address env (JStr sender)) (\<lambda>a.
     ebind (normalize_eth_address env (JStr to)) (\<lambda>b.
     Inr (JObj [(''from'', JStr a), (''to'', JStr b), (''value'', JStr ''0x0''), (''data'', JStr data)])))"

definition get_balance :: "usdt_env \<Rightarrow> nat \<Rightarrow> string \<Rightarrow> int res" where
  "get_balance env k address = ebind (normalize_eth_address env (JStr address)) (\<lambda>a. quantity_at env k ''eth_getBalance'' [JStr a, JStr ''latest''])"

definition get_transaction_count :: "usdt_env \<Rightarrow> nat \<Rightarrow> string \<Rightarrow> int res" where
  "get_transaction_count env k address =
     ebind (normalize_eth_address env (JStr address)) (\<lambda>a. quantity_at env k ''eth_getTransactionCount'' [JStr a, JStr ''pending''])"

definition send_raw_transaction :: "usdt_env \<Rightarrow> nat \<Rightarrow> string \<Rightarrow> string res" where
  "send_raw_transaction env k raw =
     (if raw = [] then Inl (EthereumRpcError ''Signed Ethereum transaction is invalid'')
      else ebind (rpc_call env k ''eth_sendRawTransaction'' [JStr (''0x'' @ raw)] False) (\<lambda>v. hash_text (Some v) ''submitted transaction hash''))"

definition failed_sweep :: "usdt_env \<Rightarrow> string \<Rightarrow> usdt_deposit \<Rightarrow> usdt_deposit" where
  "failed_sweep env message dp = dp\<lparr>dp_sweep_attempts := dp_sweep_attempts dp + 1, dp_sweep_error := Some message,
     dp_status := if uc_sweep_max_attempts (ue_config env) \<le> dp_sweep_attempts dp + 1 then MANUAL_REVIEW else SWEEP_PENDING\<rparr>"

definition check_sweep_receipt :: "usdt_env \<Rightarrow> nat \<Rightarrow> usdt_deposit \<Rightarrow> string \<Rightarrow> (bool \<times> usdt_deposit) res" where
  "check_sweep_receipt env k dp tx_hash =
     ebind (get_transaction_receipt env k tx_hash) (\<lambda>receipt.
     case receipt of
       None \<Rightarrow> Inr (False, with_status SWEEPING dp)
     | Some r \<Rightarrow>
         ebind (hex_quantity (map_of r ''status'') ''sweep receipt status'') (\<lambda>status.
         if status \<noteq> 1 then Inr (False, failed_sweep env ''USDT sweep transaction failed on chain'' (dp\<lparr>dp_sweep_tx_hash := None\<rparr>))
         else Inr (True, with_status SWEPT (dp\<lparr>dp_sweep_error := None\<rparr>))))"

definition check_funding_receipt :: "usdt_env \<Rightarrow> nat \<Rightarrow> instant \<Rightarrow> usdt_deposit \<Rightarrow> string \<Rightarrow> (bool \<times> usdt_deposit) res" where
  "check_funding_receipt env k now dp tx_hash =
     ebind (get_transaction_receipt env k tx_hash) (\<lambda>receipt.
     case receipt of
       None \<Rightarrow> Inr (False, with_status SWEEPING dp)
     | Some r \<Rightarrow>
         ebind (hex_quantity (map_of r ''status'') ''funding receipt status'') (\<lambda>status.
         if status \<noteq> 1 then Inr (False, failed_sweep env ''USDT gas funding transaction failed on chain'' (dp\<lparr>dp_gas_funding_tx_hash := None\<rparr>))
         else Inr (True, dp\<lparr>dp_gas_funded_at := Some now\<rparr>)))"

definition submitted :: "usdt_deposit \<Rightarrow> usdt_deposit" where
  "submitted dp = dp\<lparr>dp_sweep_attempts := dp_sweep_attempts dp + 1, dp_sweep_error := None, dp_status := SWEEPING\<rparr>"

definition submit_gas_funding :: "usdt_env \<Rightarrow> nat \<Rightarrow> usdt_deposit \<Rightarrow> int \<Rightarrow> int \<Rightarrow> (bool \<times> usdt_deposit) res" where
  "submit_gas_funding env k dp needed_wei gas_price =
     ebind (ue_gas_wallet env) (\<lambda>wallet.
     ebind (normalize_eth_address env (JStr wallet)) (\<lambda>a.
     ebind (normalize_eth_address env (JStr (dp_deposit_address dp))) (\<lambda>b.
     if a = b then Inl (EthereumRpcError ''Gas wallet cannot be the deposit wallet'')
     else
       ebind (get_balance env k wallet) (\<lambda>available.
       if available < needed_wei + 21000 * gas_price
       then Inr (False, with_status SWEEP_PENDING (dp\<lparr>dp_sweep_error := Some ''USDT gas wallet has insufficient ETH''\<rparr>))
       else
         ebind (get_transaction_count env (k + 1) wallet) (\<lambda>nonce.
         ebind (ue_sign env wallet \<lparr>tx_chain_id = dp_chain_id dp, tx_nonce = nonce, tx_to = b, tx_value = needed_wei, tx_data = None,
           tx_gas = 21000, tx_gas_price = gas_price\<rparr>) (\<lambda>raw.
         ebind (send_raw_transaction env (k + 2) raw) (\<lambda>h.
         Inr (True, submitted (dp\<lparr>dp_gas_funding_tx_hash := Some h\<rparr>)))))))))"

definition submit_token_transfer :: "usdt_env \<Rightarrow> nat \<Rightarrow> usdt_deposit \<Rightarrow> string \<Rightarrow> string \<Rightarrow> int \<Rightarrow> int \<Rightarrow> (bool \<times> usdt_deposit) res" where
  "submit_token_transfer env k dp contract data gas_limit gas_price =
     (if dp_derivation_index dp < 0 \<or> dp_derivation_index dp > MAX_BIP44_INDEX
      then Inl (UsdtDepositError ''Derivation index is outside the BIP-44 range'')
      else
        ebind (ue_derive_address env (dp_derivation_index dp)) (\<lambda>account.
        ebind (normalize_eth_address env (JStr account)) (\<lambda>a.
        ebind (normalize_eth_address env (JStr (dp_deposit_address dp))) (\<lambda>b.
        if a \<noteq> b then Inr (False, with_status MANUAL_REVIEW (dp\<lparr>dp_sweep_error := Some ''Derived address does not match deposit''\<rparr>))
        else
          ebind (get_transaction_count env k account) (\<lambda>nonce.
          ebind (ue_sign env account \<lparr>tx_chain_id = dp_chain_id dp, tx_nonce = nonce, tx_to = contract, tx_value = 0, tx_data = Some data,
            tx_gas = gas_limit, tx_gas_price = gas_price\<rparr>) (\<lambda>raw.
          ebind (send_raw_transaction env (k + 1) raw) (\<lambda>h.
          Inr (True, submitted (dp\<lparr>dp_sweep_tx_hash := Some h\<rparr>)))))))))"

definition fund_or_submit :: "usdt_env \<Rightarrow> nat \<Rightarrow> usdt_deposit \<Rightarrow> (bool \<times> usdt_deposit) res" where
  "fund_or_submit env k dp =
     ebind (normalize_eth_address env (JStr (uc_treasury_address (ue_config env)))) (\<lambda>treasury.
     ebind (normalize_eth_address env (JStr (dp_contract_address dp))) (\<lambda>contract.
     ebind (encode_erc20_transfer env treasury (dp_received_token_units dp)) (\<lambda>data.
     ebind (quantity_at env k ''eth_gasPrice'' []) (\<lambda>gas_price.
     ebind (rpc_transaction env (dp_deposit_address dp) contract data) (\<lambda>transaction.
     ebind (quantity_at env (k + 1) ''eth_estimateGas'' [transaction]) (\<lambda>estimate.
     let gas_limit = max estimate ((estimate * 120 + 99) div 100);
         required_wei = gas_limit * gas_price + uc_gas_reserve_wei (ue_config env) in
     ebind (get_balance env (k + 2) (dp_deposit_address dp)) (\<lambda>balance.
     if balance < required_wei then submit_gas_funding env (k + 3) dp (required_wei - balance) gas_price
     else submit_token_transfer env (k + 3) dp contract data gas_limit gas_price)))))))"

text \<open>The body of the \<open>try\<close>; an exception comes with the deposit as changed so far.\<close>

definition sweep_step :: "usdt_env \<Rightarrow> nat \<Rightarrow> instant \<Rightarrow> usdt_deposit \<Rightarrow> usdt_deposit + (bool \<times> usdt_deposit)" where
  "sweep_step env k now dp =
     (let attempt = (\<lambda>dp r. case r of Inl e \<Rightarrow> Inl dp | Inr x \<Rightarrow> Inr x) in
      case ebind (quantity_at env k ''eth_chainId'' []) (\<lambda>n. raise_if (n \<noteq> uc_chain_id (ue_config env)) (EthereumRpcError ''chain'')) of
        Inl e \<Rightarrow> Inl dp
      | Inr _ \<Rightarrow>
          if or_empty (dp_sweep_tx_hash dp) \<noteq> [] then attempt dp (check_sweep_receipt env (k + 1) dp (or_empty (dp_sweep_tx_hash dp)))
          else if or_empty (dp_gas_funding_tx_hash dp) \<noteq> [] \<and> dp_gas_funded_at dp = None
          then ebind (attempt dp (check_funding_receipt env (k + 1) now dp (or_empty (dp_gas_funding_tx_hash dp)))) (\<lambda>(ok, dp1).
            if ok then attempt dp1 (fund_or_submit env (k + 2) dp1) else Inr (False, dp1))
          else attempt dp (fund_or_submit env (k + 2) dp))"

text \<open>The final flush checks the unique transaction hashes.\<close>

definition flush_deposit :: "usdt_db \<Rightarrow> usdt_deposit \<Rightarrow> usdt_db res" where
  "flush_deposit d dp =
     (if list_ex (\<lambda>x. dp_id x \<noteq> dp_id dp \<and>
           (dp_sweep_tx_hash dp \<noteq> None \<and> dp_sweep_tx_hash x = dp_sweep_tx_hash dp \<or>
            dp_gas_funding_tx_hash dp \<noteq> None \<and> dp_gas_funding_tx_hash x = dp_gas_funding_tx_hash dp)) (ud_deposits d)
      then Inl IntegrityError else Inr (save_deposit dp d))"

definition out_of_scope :: "usdt_env \<Rightarrow> usdt_deposit \<Rightarrow> bool res" where
  "out_of_scope env dp =
     (if dp_chain_id dp \<noteq> uc_chain_id (ue_config env) then Inr True
      else ebind (normalize_eth_address env (JStr (dp_contract_address dp))) (\<lambda>a.
        ebind (normalize_eth_address env (JStr (uc_contract_address (ue_config env)))) (\<lambda>b.
        Inr (a \<noteq> b \<or> dp_credited_at dp = None \<or> dp_received_token_units dp \<le> 0))))"

definition sweep_deposit :: "usdt_env \<Rightarrow> instant \<Rightarrow> usdt_db \<Rightarrow> int \<Rightarrow> (bool \<times> usdt_db) res" where
  "sweep_deposit env now d i =
     (case get_deposit d i of
        None \<Rightarrow> Inr (False, d)
      | Some dp \<Rightarrow>
          if dp_status dp \<notin> {SWEEP_PENDING, SWEEPING} then Inr (False, d)
          else if \<not> uc_sweeper_enabled (ue_config env) then Inr (False, save_deposit (with_status SWEEP_PENDING dp) d)
          else
            ebind (out_of_scope env dp) (\<lambda>out.
            if out then Inr (False, save_deposit (with_status MANUAL_REVIEW
              (dp\<lparr>dp_sweep_error := Some ''Deposit does not match configured USDT sweep scope''\<rparr>)) d)
            else if uc_sweep_max_attempts (ue_config env) \<le> dp_sweep_attempts dp
            then Inr (False, save_deposit (with_status MANUAL_REVIEW (dp\<lparr>dp_sweep_error := Some ''USDT sweep retry limit reached''\<rparr>)) d)
            else
              (let (result, dp1) = (case sweep_step env (ud_calls d) now dp of
                     Inl dp1 \<Rightarrow> (False, failed_sweep env ''USDT sweep operation failed; retry is safe'' dp1)
                   | Inr x \<Rightarrow> x) in
               ebind (flush_deposit (d\<lparr>ud_calls := ud_calls d + 16\<rparr>) dp1) (\<lambda>d1. Inr (result, d1)))))"

fun sweep_each :: "usdt_env \<Rightarrow> instant \<Rightarrow> usdt_db \<Rightarrow> int list \<Rightarrow> (int \<times> usdt_db) res" where
  "sweep_each env now d [] = Inr (0, d)"
| "sweep_each env now d (i # ids) =
     ebind (sweep_deposit env now d i) (\<lambda>(ok, d1).
     ebind (sweep_each env now d1 ids) (\<lambda>(n, d2). Inr ((if ok then n + 1 else n), d2)))"

definition sweeper_run_once :: "usdt_env \<Rightarrow> instant \<Rightarrow> usdt_db \<Rightarrow> nat \<Rightarrow> (int \<times> usdt_db) res" where
  "sweeper_run_once env now d limit =
     (if \<not> uc_sweeper_enabled (ue_config env) then Inr (0, d)
      else sweep_each env now d (take limit (sort (map dp_id (filter (\<lambda>dp. dp_status dp \<in> {SWEEP_PENDING, SWEEPING}) (ud_deposits d))))))"

section \<open>The worker and the administrator\<close>

definition run_usdt_iteration :: "usdt_env \<Rightarrow> string \<Rightarrow> instant \<Rightarrow> usdt_db \<Rightarrow> int res \<times> usdt_db" where
  "run_usdt_iteration env owner now d =
     (if \<not> uc_enabled (ue_config env) then (Inr 0, d)
      else
        (case ebind (watcher_contract env) (\<lambda>contract. ebind (acquire_watcher_lease env contract d owner now) (\<lambda>r. Inr (contract, r))) of
           Inl e \<Rightarrow> (Inl e, d)
         | Inr (contract, acquired, d1) \<Rightarrow>
             if \<not> acquired then (Inr 0, d1)
             else
               (case ebind (run_once env (Some owner) now d1) (\<lambda>(n, d2).
                       ebind (sweeper_run_once env now d2 20) (\<lambda>(m, d3). Inr (n + m, d3))) of
                  Inl e \<Rightarrow> (Inl e, release_watcher_lease env contract d1 owner)
                | Inr (n, d3) \<Rightarrow> (Inr n, release_watcher_lease env contract d3 owner))))"

definition rescan_admin_usdt_deposit :: "usdt_env \<Rightarrow> usdt_db \<Rightarrow> int \<Rightarrow> int option \<Rightarrow> usdt_db res" where
  "rescan_admin_usdt_deposit env d i from_block =
     (case get_deposit d i of
        None \<Rightarrow> Inl (HTTPException 404 ''USDT deposit not found'')
      | Some dp \<Rightarrow>
          ebind (find_cursor d (dp_chain_id dp) (dp_contract_address dp)) (\<lambda>found.
          case found of
            None \<Rightarrow> Inl (HTTPException 409 ''USDT chain cursor not found'')
          | Some c \<Rightarrow>
              (let start = (case from_block of
                     Some b \<Rightarrow> b
                   | None \<Rightarrow> (case dp_first_block dp of Some b \<Rightarrow> b | None \<Rightarrow> max 0 (cu_next_block c - uc_reorg_recheck_blocks (ue_config env))));
                   c1 = c\<lparr>cu_next_block := min (cu_next_block c) start\<rparr> in
               Inr (save_cursor (case cu_last_safe_block c of
                 None \<Rightarrow> c1
               | Some n \<Rightarrow> if start \<le> n then c1\<lparr>cu_last_safe_block := None, cu_last_safe_block_hash := None\<rparr> else c1) d))))"

definition reconcile_admin_usdt_deposit :: "usdt_env \<Rightarrow> instant \<Rightarrow> usdt_db \<Rightarrow> int \<Rightarrow> usdt_db res" where
  "reconcile_admin_usdt_deposit env now d i =
     (if get_deposit d i = None then Inl (HTTPException 404 ''USDT deposit not found'')
      else if \<not> uc_enabled (ue_config env) then Inl (HTTPException 503 ''USDT deposits are not configured'')
      else
        (case ebind (assert_chain_id env d) (\<lambda>d1. ebind (watcher_contract env) (\<lambda>_. reconcile_deposit env now d1 i)) of
           Inl (EthereumRpcError m) \<Rightarrow> Inl (HTTPException 409 m)
         | r \<Rightarrow> r))"

definition retry_admin_usdt_sweep :: "usdt_db \<Rightarrow> int \<Rightarrow> usdt_db res" where
  "retry_admin_usdt_sweep d i =
     (case get_deposit d i of
        None \<Rightarrow> Inl (HTTPException 404 ''USDT deposit not found'')
      | Some dp \<Rightarrow>
          if dp_credited_at dp = None then Inl (HTTPException 409 ''Deposit has not been credited'')
          else Inr (save_deposit (dp\<lparr>dp_status := SWEEP_PENDING, dp_sweep_attempts := 0, dp_sweep_error := None\<rparr>) d))"

definition mark_admin_usdt_manual_review :: "usdt_db \<Rightarrow> int \<Rightarrow> string \<Rightarrow> usdt_db res" where
  "mark_admin_usdt_manual_review d i reason =
     (case get_deposit d i of
        None \<Rightarrow> Inl (HTTPException 404 ''USDT deposit not found'')
      | Some dp \<Rightarrow>
          Inr (save_deposit (with_status MANUAL_REVIEW
            (if strip reason \<noteq> [] then dp\<lparr>dp_sweep_error := Some (''Manual review: '' @ strip reason)\<rparr> else dp)) d))"

end
