(* ===== verification/Usdt_Books.thy ===== *)
theory Usdt_Books
  imports Usdt_Watcher
begin

text \<open>
  What the USDT components guarantee: address topics and block ranges, the invariant of deposits, transfers and books over any
  requests, what a credited deposit rests on, and the deposits that are never credited.
\<close>

section \<open>Topics and blocks\<close>

text \<open>What is assumed of the address library: a checksum address is \<open>0x\<close> with forty hexadecimal digits, and its case does not matter.\<close>

definition checksum_law :: "usdt_env \<Rightarrow> bool" where
  "checksum_law env \<longleftrightarrow> (\<forall>s a. ue_checksum env s = Some a \<longrightarrow>
     length a = 42 \<and> take 2 a = ''0x'' \<and> list_all (\<lambda>c. hex_value c \<noteq> None) (drop 2 a) \<and> ue_checksum env (lower a) = Some a)"

lemma strip_id: "list_all (\<lambda>c. \<not> is_space c) s \<Longrightarrow> strip s = s"
proof -
  assume a: "list_all (\<lambda>c. \<not> is_space c) s"
  have "dropWhile is_space s = s" using a by (cases s) auto
  moreover have "dropWhile is_space (rev s) = rev s" using a by (cases s rule: rev_cases) auto
  ultimately show ?thesis by (simp add: strip_def)
qed

lemma hex_not_space: "hex_value c \<noteq> None \<Longrightarrow> \<not> is_space c"
  by (auto simp: hex_value_def is_space_def Let_def split: if_splits)

lemma hex_lower: "hex_value c \<noteq> None \<Longrightarrow> hex_value (lower_char c) \<noteq> None"
  by (auto simp: hex_value_def lower_char_def Let_def of_char_of split: if_splits)

text \<open>
  C40: the topic under which the watcher asks for the transfers to an address is read back as that address, so that
  a log found by its topic belongs to the deposit of the address.
\<close>

theorem address_topic_roundtrip:
  assumes "checksum_law env" "address_topic env a = Inr t"
  shows "topic_address env (JStr t) = normalize_eth_address env (JStr a)"
proof -
  from assms(2) obtain b where b: "ue_checksum env (strip a) = Some b" and t: "t = ''0x'' @ replicate 24 CHR ''0'' @ lower (drop 2 b)"
    by (auto simp: address_topic_def normalize_eth_address_def ebind_Inr_iff split: option.splits)
  from b assms(1) have l: "length b = 42" "take 2 b = ''0x''" "list_all (\<lambda>c. hex_value c \<noteq> None) (drop 2 b)" "ue_checksum env (lower b) = Some b"
    unfolding checksum_law_def by blast+
  have "lower b = lower (take 2 b @ drop 2 b)" by simp
  then have lb: "lower b = ''0x'' @ lower (drop 2 b)" unfolding l(2) by (simp add: lower_def lower_char_def)
  have "list_all (\<lambda>c. \<not> is_space c) (lower (drop 2 b))"
    using l(3) unfolding list_all_iff lower_def set_map ball_simps by (metis hex_not_space hex_lower)
  then have "strip (lower b) = lower b" unfolding lb by (intro strip_id) (simp add: is_space_def)
  with l(4) lb have "normalize_eth_address env (JStr (''0x'' @ lower (drop 2 b))) = Inr b" by (simp add: normalize_eth_address_def)
  moreover have "length (lower (drop 2 b)) = 40" using l(1) by (simp add: lower_def)
  ultimately show ?thesis using b by (simp add: t topic_address_def) (simp add: normalize_eth_address_def)
qed

lemma chunks_blocks:
  assumes "0 < width"
  shows "concat (map (\<lambda>(a, b). [a..b]) (chunks_from current end_block width)) = [current..end_block]"
    and "list_all (\<lambda>(a, b). current \<le> a \<and> a \<le> b \<and> b \<le> end_block \<and> b - a < width) (chunks_from current end_block width)"
  using assms
proof (induction current end_block width rule: chunks_from.induct)
  case (1 current end_block width)
  let ?m = "min end_block (current + width - 1)"
  { case 1
    show ?case
    proof (cases "end_block < current")
      case True
      then show ?thesis by (simp add: chunks_from.simps)
    next
      case False
      then have "concat (map (\<lambda>(a, b). [a..b]) (chunks_from current end_block width)) = [current..?m] @ [?m + 1..end_block]"
        using "1.IH"(1) 1 by (subst chunks_from.simps) simp
      also have "\<dots> = [current..end_block]"
        using False 1 by (simp add: upto_split2 [of current ?m end_block] upto_split1 [symmetric] min_def)
      finally show ?thesis .
    qed }
  { case 2
    show ?case
    proof (cases "end_block < current")
      case False
      have "list_all (\<lambda>(a, b). ?m + 1 \<le> a \<and> a \<le> b \<and> b \<le> end_block \<and> b - a < width) (chunks_from (?m + 1) end_block width)"
        using "1.IH"(2) 2 False by simp
      then have "list_all (\<lambda>(a, b). current \<le> a \<and> a \<le> b \<and> b \<le> end_block \<and> b - a < width) (chunks_from (?m + 1) end_block width)"
        using False 2 by (auto simp: list_all_iff)
      then show ?thesis using False 2 by (subst chunks_from.simps) auto
    qed (simp add: chunks_from.simps) }
qed

text \<open>
  The chunks of a scan end and cover the blocks: in order, each block of the range exactly once, no chunk wider than
  asked for; a range that is empty or negative raises.
\<close>

theorem block_chunks_cover:
  "case iter_block_chunks a b w of
     Inl e \<Rightarrow> a < 0 \<or> b < a \<or> w \<le> 0
   | Inr cs \<Rightarrow> concat (map (\<lambda>(x, y). [x..y]) cs) = [a..b] \<and> list_all (\<lambda>(x, y). a \<le> x \<and> x \<le> y \<and> y \<le> b \<and> y - x < w) cs"
  using chunks_blocks [of w a b] by (auto simp: iter_block_chunks_def)

section \<open>The invariant\<close>

definition event_identity :: "usdt_transfer_event \<Rightarrow> int \<times> string \<times> int" where
  "event_identity e = (te_chain_id e, te_tx_hash e, te_log_index e)"

definition settled_payment :: "payment \<Rightarrow> bool" where
  "settled_payment p \<longleftrightarrow> pay_status p = SUCCEEDED \<or> pay_status p = REFUNDED"

text \<open>The payment row of a deposit; a credited deposit has had its payment succeed.\<close>

definition backed :: "store \<Rightarrow> usdt_deposit \<Rightarrow> bool" where
  "backed s dp \<longleftrightarrow> (\<exists>p \<in> set (payments s). pay_gateway p = ''usdt'' \<and> pay_external_ref p = Some (deposit_ref (dp_id dp)) \<and>
     pay_invoice_id p = dp_invoice_id dp \<and> (dp_credited_at dp \<noteq> None \<longrightarrow> settled_payment p))"

definition deposits_ok :: "usdt_db \<Rightarrow> bool" where
  "deposits_ok d \<longleftrightarrow> distinct (map dp_id (ud_deposits d)) \<and> distinct (map dp_invoice_id (ud_deposits d)) \<and>
     distinct (map dp_derivation_index (ud_deposits d)) \<and>
     (\<forall>dp \<in> set (ud_deposits d). 0 \<le> dp_derivation_index dp \<and> (\<exists>n. ud_next_index d = Some n \<and> dp_derivation_index dp < n))"

definition transfers_ok :: "usdt_db \<Rightarrow> bool" where
  "transfers_ok d \<longleftrightarrow> distinct (map te_id (ud_events d)) \<and> distinct (map event_identity (ud_events d)) \<and> (\<forall>e \<in> set (ud_events d). 0 < te_token_units e)"

definition usdt_ok :: "usdt_db \<Rightarrow> bool" where
  "usdt_ok d \<longleftrightarrow> funding_ok (ud_store d) \<and> deposits_ok d \<and> transfers_ok d \<and> (\<forall>n. ud_next_index d = Some n \<longrightarrow> 0 \<le> n) \<and>
     (\<forall>dp \<in> set (ud_deposits d). backed (ud_store d) dp)"

text \<open>Payments keep their identity and never become unsettled.\<close>

definition payments_kept :: "store \<Rightarrow> store \<Rightarrow> bool" where
  "payments_kept s t \<longleftrightarrow> (\<forall>p \<in> set (payments s). \<exists>q \<in> set (payments t). pay_gateway q = pay_gateway p \<and>
     pay_external_ref q = pay_external_ref p \<and> pay_invoice_id q = pay_invoice_id p \<and> (settled_payment p \<longrightarrow> settled_payment q))"

lemma payments_kept_refl [simp]: "payments_kept s s"
  by (auto simp: payments_kept_def)

lemma payments_kept_eq: "payments s = payments t \<Longrightarrow> payments_kept s t"
  by (auto simp: payments_kept_def)

lemma payments_kept_put:
  assumes "payments t = put_row pay_id q (payments s)" "distinct (map pay_id (payments s))" "p \<in> set (payments s)" "pay_id q = pay_id p"
    "pay_gateway q = pay_gateway p" "pay_external_ref q = pay_external_ref p" "pay_invoice_id q = pay_invoice_id p" "settled_payment p \<Longrightarrow> settled_payment q"
  shows "payments_kept s t"
proof -
  have "\<exists>q' \<in> set (payments t). pay_gateway q' = pay_gateway x \<and> pay_external_ref q' = pay_external_ref x \<and> pay_invoice_id q' = pay_invoice_id x \<and>
      (settled_payment x \<longrightarrow> settled_payment q')" if x: "x \<in> set (payments s)" for x
  proof (cases "pay_id x = pay_id q")
    case True
    then have "x = p" using assms(2-4) x by (metis distinct_map inj_onD)
    moreover have "q \<in> set (payments t)" using assms(1,3,4) by (auto simp: put_row_def image_iff)
    ultimately show ?thesis using assms(5-8) by blast
  next
    case False
    then have "x \<in> set (payments t)" using assms(1) x by (auto simp: put_row_def image_iff)
    then show ?thesis by blast
  qed
  then show ?thesis by (simp add: payments_kept_def)
qed

lemma backed_kept: "backed s dp \<Longrightarrow> payments_kept s t \<Longrightarrow> backed t dp"
  unfolding backed_def payments_kept_def by metis

lemma usdt_ok_store: "usdt_ok d \<Longrightarrow> funding_ok s \<Longrightarrow> payments_kept (ud_store d) s \<Longrightarrow> usdt_ok (d\<lparr>ud_store := s\<rparr>)"
  by (auto simp: usdt_ok_def deposits_ok_def transfers_ok_def intro: backed_kept)

lemma usdt_ok_frame [simp]:
  "usdt_ok (d\<lparr>ud_calls := n\<rparr>) = usdt_ok d" "usdt_ok (d\<lparr>ud_cursors := cs\<rparr>) = usdt_ok d" "usdt_ok (tick d) = usdt_ok d" "usdt_ok (save_cursor c d) = usdt_ok d"
  by (simp_all add: usdt_ok_def deposits_ok_def transfers_ok_def tick_def save_cursor_def)

text \<open>A row of a deposit written back: its keys stay, and it is credited only when its payment is settled.\<close>

definition same_deposit :: "usdt_deposit \<Rightarrow> usdt_deposit \<Rightarrow> bool" where
  "same_deposit x y \<longleftrightarrow> dp_id x = dp_id y \<and> dp_invoice_id x = dp_invoice_id y \<and> dp_derivation_index x = dp_derivation_index y"

lemma map_put_same:
  assumes "distinct (map rid rs)" "r0 \<in> set rs" "rid r = rid r0" "f r = f r0"
  shows "map f (put_row rid r rs) = map f rs"
  using assms by (auto simp: put_row_def) (metis distinct_map inj_onD)

lemma usdt_ok_save_deposit:
  assumes "usdt_ok d" "dp0 \<in> set (ud_deposits d)" "same_deposit dp dp0" "backed (ud_store d) dp"
  shows "usdt_ok (save_deposit dp d)"
proof -
  have u: "distinct (map dp_id (ud_deposits d))" using assms(1) by (simp add: usdt_ok_def deposits_ok_def)
  note m = map_put_same [OF u assms(2), of dp]
  have "map dp_invoice_id (put_row dp_id dp (ud_deposits d)) = map dp_invoice_id (ud_deposits d)"
    "map dp_derivation_index (put_row dp_id dp (ud_deposits d)) = map dp_derivation_index (ud_deposits d)"
    using m [of dp_invoice_id] m [of dp_derivation_index] assms(3) by (simp_all add: same_deposit_def)
  moreover have "0 \<le> dp_derivation_index dp" "\<exists>n. ud_next_index d = Some n \<and> dp_derivation_index dp < n"
    using assms(1-3) by (auto simp: usdt_ok_def deposits_ok_def same_deposit_def)
  ultimately show ?thesis using assms(1,4) unfolding usdt_ok_def deposits_ok_def transfers_ok_def save_deposit_def
    by (auto dest!: put_row_memD)
qed

lemma usdt_ok_save_event:
  assumes "usdt_ok d" "e0 \<in> set (ud_events d)" "te_id e = te_id e0" "event_identity e = event_identity e0" "0 < te_token_units e"
  shows "usdt_ok (save_event e d)"
proof -
  have u: "distinct (map te_id (ud_events d))" using assms(1) by (simp add: usdt_ok_def transfers_ok_def)
  note m = map_put_same [OF u assms(2,3), of event_identity, OF assms(4)]
  show ?thesis using assms(1,5) m unfolding usdt_ok_def deposits_ok_def transfers_ok_def save_event_def by (auto dest!: put_row_memD)
qed

section \<open>One deposit\<close>

lemma backed_cong: "dp_id x = dp_id y \<Longrightarrow> dp_invoice_id x = dp_invoice_id y \<Longrightarrow> dp_credited_at x = dp_credited_at y \<Longrightarrow> backed s x = backed s y"
  by (simp add: backed_def)

lemma event_is_canonical_calls: "event_is_canonical env d e = Inr (b, d1) \<Longrightarrow> \<exists>n. d1 = d\<lparr>ud_calls := n\<rparr>"
  by (auto simp: event_is_canonical_def ebind_Inr_iff tick_def split: option.splits if_splits)

lemma all_canonical_calls: "all_canonical env d es = Inr (b, d1) \<Longrightarrow> \<exists>n. d1 = d\<lparr>ud_calls := n\<rparr>"
proof (induction es arbitrary: d)
  case Nil
  then have "d1 = d\<lparr>ud_calls := ud_calls d\<rparr>" by simp
  then show ?case by blast
next
  case (Cons e es)
  from Cons.prems obtain ok d2 where e: "event_is_canonical env d e = Inr (ok, d2)" and r: "(if ok then all_canonical env d2 es else Inr (False, d2)) = Inr (b, d1)"
    by (auto simp: ebind_Inr_iff)
  from event_is_canonical_calls [OF e] obtain n where n: "d2 = d\<lparr>ud_calls := n\<rparr>" by blast
  show ?case using r Cons.IH [of d2] n by (cases ok) auto
qed

lemma payments_distinct: "funding_ok s \<Longrightarrow> distinct (map pay_id (payments s))"
  by (simp add: funding_ok_but_def payments_ok_but_def)

lemma finalize_kept:
  assumes "funding_ok s" "p \<in> set (payments s)" "finalize_success now s p = Inr (i, t)"
  shows "funding_ok t" "payments_kept s t" "payments t = put_row pay_id (finalized now p) (payments s)"
proof -
  note k = finalize_success_ok [OF finalize_pre [OF assms(1,2)] assms(3)]
  show "funding_ok t" by (rule k(1))
  show p: "payments t = put_row pay_id (finalized now p) (payments s)" using k(3) by (simp add: save_payment_def)
  show "payments_kept s t"
    by (rule payments_kept_put [OF p payments_distinct [OF assms(1)] assms(2)]) (simp_all add: finalized_def settled_payment_def)
qed

lemma reverse_kept:
  assumes "funding_ok s" "reverse_payment now s gateway ref event_id reason = Inr t"
  shows "funding_ok t" "payments_kept s t"
proof -
  show "funding_ok t" using reverse_payment_ok [OF assms] by blast
  from assms(2) show "payments_kept s t"
  proof (cases rule: reverse_paymentE)
    case (some p i s1)
    have s1: "payments s1 = payments s" using reverse_in_ledger_ok(2) [OF assms(1) some(4)] .
    show ?thesis
    proof (rule payments_kept_put)
      show "payments t = put_row pay_id (refunded now p
                (dict_set (dict_set (pay_metadata p) ''reversal_type'' (JStr reason)) ''gateway_event_id'' (JStr event_id))) (payments s)"
        using some(5) s1 by (simp add: save_invoice_def save_payment_def)
      show "p \<in> set (payments s)" using payment_for_update_Some [OF some(1)] by simp
    qed (use assms(1) in \<open>simp_all add: payments_distinct refunded_def settled_payment_def\<close>)
  qed simp
qed

lemma usdt_payment_Some:
  assumes "usdt_payment s i = Inr (Some p)"
  shows "p \<in> set (payments s)" "pay_gateway p = ''usdt''" "pay_external_ref p = Some (deposit_ref i)"
proof -
  from assms have "filter (\<lambda>p. pay_gateway p = ''usdt'' \<and> pay_external_ref p = Some (deposit_ref i)) (payments s) = [p]" by (simp add: usdt_payment_def scalar_iffs)
  then have "p \<in> set (filter (\<lambda>p. pay_gateway p = ''usdt'' \<and> pay_external_ref p = Some (deposit_ref i)) (payments s))" by simp
  then show "p \<in> set (payments s)" "pay_gateway p = ''usdt''" "pay_external_ref p = Some (deposit_ref i)" by simp_all
qed

lemma deposit_ref_inject [simp]: "deposit_ref i = deposit_ref j \<longleftrightarrow> i = j"
  by (simp add: deposit_ref_def)

text \<open>What one reconciliation may change: the row of its deposit, the store and the number of calls.\<close>

definition touches :: "int \<Rightarrow> usdt_db \<Rightarrow> usdt_db \<Rightarrow> bool" where
  "touches i d d' \<longleftrightarrow> ud_events d' = ud_events d \<and> ud_cursors d' = ud_cursors d \<and> ud_next_index d' = ud_next_index d \<and>
     map dp_id (ud_deposits d') = map dp_id (ud_deposits d) \<and> (\<forall>j. j \<noteq> i \<longrightarrow> get_deposit d' j = get_deposit d j)"

lemma touches_save: "dp_id dp = i \<Longrightarrow> ud_deposits d1 = ud_deposits d \<Longrightarrow> ud_events d1 = ud_events d \<Longrightarrow> ud_cursors d1 = ud_cursors d \<Longrightarrow>
   ud_next_index d1 = ud_next_index d \<Longrightarrow> touches i d (save_deposit dp d1)"
  by (simp add: touches_def save_deposit_def get_deposit_def get_put_row)

lemma touches_save_store: "touches i d (d'\<lparr>ud_store := s\<rparr>) = touches i d d'"
  by (simp add: touches_def get_deposit_def)

lemma summarize_keys [simp]:
  "dp_id (summarize_events now dp es) = dp_id dp" "dp_invoice_id (summarize_events now dp es) = dp_invoice_id dp"
  "dp_derivation_index (summarize_events now dp es) = dp_derivation_index dp" "dp_credited_at (summarize_events now dp es) = dp_credited_at dp"
  "dp_expires_at (summarize_events now dp es) = dp_expires_at dp" "dp_expected_token_units (summarize_events now dp es) = dp_expected_token_units dp"
  "dp_received_token_units (summarize_events now dp es) = token_sum es"
  by (simp_all add: summarize_events_def Let_def split: list.split)

lemma with_status_keys [simp]:
  "dp_id (with_status b dp) = dp_id dp" "dp_invoice_id (with_status b dp) = dp_invoice_id dp" "dp_derivation_index (with_status b dp) = dp_derivation_index dp"
  "dp_credited_at (with_status b dp) = dp_credited_at dp" "dp_status (with_status b dp) = b" "dp_expires_at (with_status b dp) = dp_expires_at dp"
  "dp_expected_token_units (with_status b dp) = dp_expected_token_units dp" "dp_received_token_units (with_status b dp) = dp_received_token_units dp"
  "dp_id (settled_status dp) = dp_id dp" "dp_invoice_id (settled_status dp) = dp_invoice_id dp" "dp_derivation_index (settled_status dp) = dp_derivation_index dp"
  "dp_credited_at (settled_status dp) = dp_credited_at dp" "dp_expires_at (settled_status dp) = dp_expires_at dp"
  "dp_expected_token_units (settled_status dp) = dp_expected_token_units dp" "dp_received_token_units (settled_status dp) = dp_received_token_units dp"
  by (simp_all add: with_status_def settled_status_def)

lemma settleE:
  assumes "settle_eligible_deposit env now d dp es = Inr d'"
  obtains (none) "d' = save_deposit (with_status MANUAL_REVIEW dp) d"
  | (refund) p where "usdt_payment (ud_store d) (dp_id dp) = Inr (Some p)" "pay_status p = REFUNDED" "d' = save_deposit (with_status REORGED dp) d"
  | (paid) p where "usdt_payment (ud_store d) (dp_id dp) = Inr (Some p)" "pay_status p = SUCCEEDED" "d' = save_deposit (settled_status dp) d"
  | (reorg) n where "d' = save_deposit (with_status REORGED dp) (d\<lparr>ud_calls := n\<rparr>)"
  | (credit) p i s n m where "usdt_payment (ud_store d) (dp_id dp) = Inr (Some p)" "finalize_success now (ud_store d) p = Inr (i, s)"
      "all_canonical env d es = Inr (True, d\<lparr>ud_calls := n\<rparr>)" "pay_status p \<notin> {SUCCEEDED, REFUNDED}"
      "d' = save_deposit (settled_status (dp\<lparr>dp_credited_at := Some now\<rparr>)) (d\<lparr>ud_store := s, ud_calls := m\<rparr>)"
proof -
  from assms obtain found where f: "usdt_payment (ud_store d) (dp_id dp) = Inr found" by (auto simp: settle_eligible_deposit_def ebind_Inr_iff)
  show thesis
  proof (cases "found = None \<or> pay_status (the found) \<in> {SUCCEEDED, REFUNDED}")
    case True
    then consider "found = None" | p where "found = Some p" "pay_status p = REFUNDED" | p where "found = Some p" "pay_status p = SUCCEEDED" by (cases found) auto
    then show thesis using assms f by cases (auto simp: settle_eligible_deposit_def intro: none refund paid)
  next
    case False
    then obtain p where p: "found = Some p" "pay_status p \<notin> {SUCCEEDED, REFUNDED}" by (cases found) auto
    from assms f p obtain ok d1 where a: "all_canonical env d es = Inr (ok, d1)"
      and r: "(if \<not> ok then Inr (save_deposit (with_status REORGED dp) d1)
           else
             ebind (finalize_success now (ud_store d1) p) (\<lambda>(_, s).
             ebind (all_canonical env (d1\<lparr>ud_store := s\<rparr>) es) (\<lambda>(ok2, d2).
             if \<not> ok2 then Inl (EthereumRpcError ''USDT canonical chain changed during finalization'')
             else Inr (save_deposit (settled_status (dp\<lparr>dp_credited_at := Some now\<rparr>)) d2)))) = Inr d'"
      by (auto simp: settle_eligible_deposit_def ebind_Inr_iff)
    from all_canonical_calls [OF a] obtain n where n: "d1 = d\<lparr>ud_calls := n\<rparr>" by blast
    show thesis
    proof (cases ok)
      case False
      with r n show thesis by (intro reorg [of n]) simp
    next
      case True
      with r n obtain i s ok2 d2 where x: "finalize_success now (ud_store d) p = Inr (i, s)" "all_canonical env (d\<lparr>ud_calls := n, ud_store := s\<rparr>) es = Inr (ok2, d2)"
        "d' = save_deposit (settled_status (dp\<lparr>dp_credited_at := Some now\<rparr>)) d2"
        by (auto simp: ebind_Inr_iff split: if_splits)
      from all_canonical_calls [OF x(2)] obtain m where m: "d2 = d\<lparr>ud_store := s, ud_calls := m\<rparr>" by auto
      show thesis using a f p x(1,3) True n m by (intro credit [of p i s n m]) simp_all
    qed
  qed
qed

lemma backing_payment:
  assumes "usdt_ok d" "dp \<in> set (ud_deposits d)" "usdt_payment (ud_store d) (dp_id dp) = Inr (Some p)"
  shows "pay_invoice_id p = dp_invoice_id dp"
proof -
  from assms(1,2) obtain q where q: "q \<in> set (payments (ud_store d))" "pay_external_ref q = Some (deposit_ref (dp_id dp))" "pay_invoice_id q = dp_invoice_id dp"
    unfolding usdt_ok_def backed_def by blast
  have "unique_on pay_external_ref (payments (ud_store d))" using assms(1) by (simp add: usdt_ok_def funding_ok_but_def payments_ok_but_def)
  from unique_on_inj [OF this q(1) usdt_payment_Some(1) [OF assms(3)] q(2) usdt_payment_Some(3) [OF assms(3)]] q(3) show ?thesis by simp
qed

lemma settle_ok:
  assumes ok: "usdt_ok d" and dp0: "dp0 \<in> set (ud_deposits d)" "same_deposit dp dp0" "dp_credited_at dp = dp_credited_at dp0"
    and st: "settle_eligible_deposit env now d dp es = Inr d'"
  shows "usdt_ok d' \<and> touches (dp_id dp) d d'"
proof -
  have b0: "backed (ud_store d) dp0" using ok dp0(1) by (simp add: usdt_ok_def)
  have b: "backed (ud_store d) x" if "dp_id x = dp_id dp" "dp_invoice_id x = dp_invoice_id dp" "dp_credited_at x = dp_credited_at dp" for x
    using b0 dp0(2,3) that backed_cong [of x dp0] by (simp add: same_deposit_def)
  have save: "usdt_ok (save_deposit x (d\<lparr>ud_calls := n\<rparr>)) \<and> touches (dp_id dp) d (save_deposit x (d\<lparr>ud_calls := n\<rparr>))"
    if "dp_id x = dp_id dp" "dp_invoice_id x = dp_invoice_id dp" "dp_credited_at x = dp_credited_at dp" "dp_derivation_index x = dp_derivation_index dp" for x n
    using usdt_ok_save_deposit [of "d\<lparr>ud_calls := n\<rparr>" dp0 x] ok dp0(1,2) b [OF that(1-3)] that by (simp add: same_deposit_def touches_save)
  have save0: "usdt_ok (save_deposit x d) \<and> touches (dp_id dp) d (save_deposit x d)"
    if "dp_id x = dp_id dp" "dp_invoice_id x = dp_invoice_id dp" "dp_credited_at x = dp_credited_at dp" "dp_derivation_index x = dp_derivation_index dp" for x
    using save [OF that, of "ud_calls d"] by simp
  from st show ?thesis
  proof (cases rule: settleE)
    case (credit p i s n m)
    have p: "p \<in> set (payments (ud_store d))" "pay_gateway p = ''usdt''" "pay_external_ref p = Some (deposit_ref (dp_id dp))" using usdt_payment_Some [OF credit(1)] by simp_all
    have pi: "pay_invoice_id p = dp_invoice_id dp" using backing_payment [OF ok dp0(1)] credit(1) dp0(2) by (simp add: same_deposit_def)
    have fo: "funding_ok (ud_store d)" using ok by (simp add: usdt_ok_def)
    note k = finalize_kept [OF fo p(1) credit(2)]
    let ?x = "settled_status (dp\<lparr>dp_credited_at := Some now\<rparr>)"
    have "finalized now p \<in> set (payments s)" using k(3) p(1) by (auto simp: put_row_def image_iff finalized_def)
    then have "backed s ?x" unfolding backed_def using p(2,3) pi by (intro bexI [of _ "finalized now p"]) (simp_all add: finalized_def settled_payment_def)
    moreover have "usdt_ok (d\<lparr>ud_store := s, ud_calls := m\<rparr>)" using usdt_ok_store [OF ok k(1,2)] by simp
    ultimately have "usdt_ok d'" using usdt_ok_save_deposit [of "d\<lparr>ud_store := s, ud_calls := m\<rparr>" dp0 ?x] dp0(1,2) credit(5) by (simp add: same_deposit_def)
    moreover have "touches (dp_id dp) d d'" using credit(5) by (simp add: touches_save)
    ultimately show ?thesis by blast
  qed (use save save0 in simp_all)
qed

lemma get_deposit_mem: "get_deposit d i = Some dp \<Longrightarrow> dp \<in> set (ud_deposits d) \<and> dp_id dp = i"
  unfolding get_deposit_def by (rule get_row_SomeD)

lemma notify_detection_ok:
  assumes "funding_ok s" "notify_usdt_detection s dp = Inr t"
  shows "funding_ok t" "payments t = payments s"
proof -
  from assms(2) obtain r key data where "notify s r ''usdt_detected'' key data = Inr t"
    by (auto simp: notify_usdt_detection_def split: option.splits)
  from notify_ok(1,3) [OF assms(1) this] show "funding_ok t" "payments t = payments s" .
qed

lemma reconcileE:
  assumes "reconcile env now d dp = Inr d'"
  obtains (empty) "active_events d (dp_id dp) = []" "d' = save_deposit (summarize_events now dp []) d"
  | (status) s b where "d' = save_deposit (with_status b (summarize_events now dp (active_events d (dp_id dp)))) (d\<lparr>ud_store := s\<rparr>)"
      "s = ud_store d \<or> notify_usdt_detection (ud_store d) (summarize_events now dp (active_events d (dp_id dp))) = Inr s"
  | (settle) s where "settle_eligible_deposit env now (d\<lparr>ud_store := s\<rparr>) (summarize_events now dp (active_events d (dp_id dp))) (active_events d (dp_id dp)) = Inr d'"
      "s = ud_store d \<or> notify_usdt_detection (ud_store d) (summarize_events now dp (active_events d (dp_id dp))) = Inr s"
      "\<not> list_ex (late dp) (active_events d (dp_id dp))" "threshold env dp \<le> token_sum (active_events d (dp_id dp))"
proof -
  let ?es = "active_events d (dp_id dp)" and ?dp = "summarize_events now dp (active_events d (dp_id dp))"
  have l: "late ?dp = late dp" by (simp add: fun_eq_iff late_def split: option.split)
  have t: "threshold env ?dp = threshold env dp" by (simp add: threshold_def)
  show thesis
  proof (cases "?es = []")
    case True
    with assms show thesis by (intro empty) (simp_all add: reconcile_def)
  next
    case False
    let ?rest = "\<lambda>s. if list_ex (late dp) ?es then Inr (save_deposit (with_status MANUAL_REVIEW ?dp) (d\<lparr>ud_store := s\<rparr>))
        else if token_sum ?es < threshold env dp
        then Inr (save_deposit (with_status (if dp_expires_at dp \<le> now then MANUAL_REVIEW else UNDERPAID) ?dp) (d\<lparr>ud_store := s\<rparr>))
        else settle_eligible_deposit env now (d\<lparr>ud_store := s\<rparr>) ?dp ?es"
    have "reconcile env now d dp = ebind (if dp_received_token_units dp = 0 then notify_usdt_detection (ud_store d) ?dp else Inr (ud_store d)) ?rest"
      using False by (simp add: reconcile_def Let_def l t)
    from assms [unfolded this ebind_Inr_iff] obtain s
      where m: "(if dp_received_token_units dp = 0 then notify_usdt_detection (ud_store d) ?dp else Inr (ud_store d)) = Inr s" and r: "?rest s = Inr d'" by blast
    from m have s: "s = ud_store d \<or> notify_usdt_detection (ud_store d) ?dp = Inr s" by (simp split: if_splits)
    show thesis
    proof (cases "list_ex (late dp) ?es \<or> token_sum ?es < threshold env dp")
      case True
      then obtain b where "d' = save_deposit (with_status b ?dp) (d\<lparr>ud_store := s\<rparr>)" using r by (auto split: if_splits)
      then show thesis using s by (rule status)
    next
      case no: False
      then show thesis using r s by (intro settle [of s]) (auto split: if_splits)
    qed
  qed
qed

lemma reconcile_ok:
  assumes ok: "usdt_ok d" and g: "get_deposit d i = Some dp" and rc: "reconcile env now d dp = Inr d'"
  shows "usdt_ok d' \<and> touches i d d'"
proof -
  let ?dp = "summarize_events now dp (active_events d (dp_id dp))"
  have dp: "dp \<in> set (ud_deposits d)" "dp_id dp = i" using get_deposit_mem [OF g] by simp_all
  have same: "same_deposit ?dp dp" "same_deposit (summarize_events now dp []) dp" "same_deposit (with_status b ?dp) dp" for b by (simp_all add: same_deposit_def)
  have fo: "funding_ok (ud_store d)" using ok by (simp add: usdt_ok_def)
  have oks: "usdt_ok (d\<lparr>ud_store := s\<rparr>)" if "s = ud_store d \<or> notify_usdt_detection (ud_store d) ?dp = Inr s" for s
    using that ok fo notify_detection_ok [OF fo] by (auto intro!: usdt_ok_store payments_kept_eq)
  have b: "backed (ud_store e) x" if "usdt_ok e" "ud_deposits e = ud_deposits d" "dp_id x = dp_id dp" "dp_invoice_id x = dp_invoice_id dp"
      "dp_credited_at x = dp_credited_at dp" for e x
    using that dp(1) backed_cong [of x dp] by (simp add: usdt_ok_def)
  from rc show ?thesis
  proof (cases rule: reconcileE)
    case empty
    then show ?thesis using usdt_ok_save_deposit [OF ok dp(1) same(2)] b [OF ok] dp(2) by (simp add: touches_save)
  next
    case (status s st)
    have "usdt_ok d'" using usdt_ok_save_deposit [OF oks [OF status(2)] _ same(3)] dp(1) b [OF oks [OF status(2)], of "with_status st ?dp"] status(1) by simp
    then show ?thesis using status(1) dp(2) by (simp add: touches_save)
  next
    case (settle s)
    from settle_ok [OF oks [OF settle(2)] _ same(1) _ settle(1)] dp have "usdt_ok d'" "touches i (d\<lparr>ud_store := s\<rparr>) d'" by simp_all
    then show ?thesis by (simp add: touches_def get_deposit_def)
  qed
qed

lemma reconcile_each_ok: "usdt_ok d \<Longrightarrow> reconcile_each env now d ids = Inr d' \<Longrightarrow> usdt_ok d'"
proof (induction ids arbitrary: d)
  case (Cons i ids)
  from Cons.prems(2) obtain d1 dp where "get_deposit d i = Some dp" "reconcile env now d dp = Inr d1" "reconcile_each env now d1 ids = Inr d'"
    by (auto simp: ebind_Inr_iff reconcile_deposit_def split: option.splits)
  with reconcile_ok [OF Cons.prems(1)] Cons.IH show ?case by blast
qed simp

section \<open>Reorganizations\<close>

lemma handle_reorgE:
  assumes "handle_reorg now d i = Inr d'"
  obtains (none) "get_deposit d i = None" "d' = d"
  | (some) dp s where "get_deposit d i = Some dp"
      "d' = save_deposit (dp\<lparr>dp_status := REORGED, dp_received_token_units := token_sum (active_events d i)\<rparr>) (d\<lparr>ud_store := s\<rparr>)"
      "s = ud_store d \<or> (\<exists>ref. reverse_payment now (ud_store d) ''usdt'' ref (''reorg:'' @ show_int i) ''reorg'' = Inr s)"
proof (cases "get_deposit d i")
  case None
  then show thesis using assms by (intro none) (simp_all add: handle_reorg_def)
next
  case (Some dp)
  let ?x = "dp\<lparr>dp_status := REORGED, dp_received_token_units := token_sum (active_events d i)\<rparr>"
  have st: "(save_deposit ?x d)\<lparr>ud_store := s\<rparr> = save_deposit ?x (d\<lparr>ud_store := s\<rparr>)" "ud_store (save_deposit ?x d) = ud_store d" for s
    by (simp_all add: save_deposit_def)
  from assms Some obtain found where f: "usdt_payment (ud_store d) i = Inr found" by (auto simp: handle_reorg_def Let_def ebind_Inr_iff st)
  show thesis
  proof (cases "\<exists>p. found = Some p \<and> pay_status p = SUCCEEDED")
    case True
    then obtain p where p: "found = Some p" "pay_status p = SUCCEEDED" by blast
    with assms Some f obtain s where "reverse_payment now (ud_store d) ''usdt'' (or_empty (pay_external_ref p)) (''reorg:'' @ show_int i) ''reorg'' = Inr s"
      "d' = save_deposit ?x (d\<lparr>ud_store := s\<rparr>)" by (auto simp: handle_reorg_def Let_def ebind_Inr_iff st)
    then show thesis using Some by (intro some) auto
  next
    case False
    then have "d' = save_deposit ?x d" using assms Some f by (cases found) (auto simp: handle_reorg_def Let_def st)
    then show thesis using Some by (intro some [of dp "ud_store d"]) simp_all
  qed
qed

lemma handle_reorg_ok:
  assumes "usdt_ok d" "handle_reorg now d i = Inr d'"
  shows "usdt_ok d' \<and> touches i d d'"
  using assms(2)
proof (cases rule: handle_reorgE)
  case none
  with assms(1) show ?thesis by (simp add: touches_def)
next
  case (some dp s)
  let ?x = "dp\<lparr>dp_status := REORGED, dp_received_token_units := token_sum (active_events d i)\<rparr>"
  have dp: "dp \<in> set (ud_deposits d)" "dp_id dp = i" using get_deposit_mem [OF some(1)] by simp_all
  have fo: "funding_ok (ud_store d)" using assms(1) by (simp add: usdt_ok_def)
  have ok: "usdt_ok (d\<lparr>ud_store := s\<rparr>)" using some(3) assms(1) reverse_kept [OF fo] fo by (auto intro!: usdt_ok_store)
  have "backed (ud_store (d\<lparr>ud_store := s\<rparr>)) ?x" using ok dp(1) backed_cong [of ?x dp] by (simp add: usdt_ok_def)
  from usdt_ok_save_deposit [OF ok _ _ this, of dp] dp(1) have "usdt_ok d'" by (simp add: some(2) same_deposit_def)
  then show ?thesis using some(2) dp(2) by (simp add: touches_save)
qed

lemma reorg_each_ok: "usdt_ok d \<Longrightarrow> reorg_each now d ids = Inr d' \<Longrightarrow> usdt_ok d'"
proof (induction ids arbitrary: d)
  case (Cons i ids)
  from Cons.prems(2) obtain d1 where "handle_reorg now d i = Inr d1" "reorg_each now d1 ids = Inr d'" by (auto simp: ebind_Inr_iff)
  with handle_reorg_ok [OF Cons.prems(1)] Cons.IH show ?case by blast
qed simp

text \<open>An event of the table, marked as reversed.\<close>

lemma mark_reversed_ok:
  assumes "usdt_ok d" "e \<in> set (ud_events d)"
  shows "usdt_ok (save_event (e\<lparr>te_reversed_at := Some now\<rparr>) d)"
  using assms usdt_ok_save_event [OF assms, of "e\<lparr>te_reversed_at := Some now\<rparr>"] by (simp add: event_identity_def usdt_ok_def transfers_ok_def)

lemma save_event_other:
  "set es \<subseteq> set (ud_events d) \<Longrightarrow> te_id x \<notin> te_id ` set es \<Longrightarrow> set es \<subseteq> set (ud_events (save_event x d))"
  unfolding save_event_def put_row_def by (auto simp: image_iff)

lemma reverse_events_ok:
  assumes "usdt_ok d" "set es \<subseteq> set (ud_events d)" "distinct (map te_id es)" "reverse_events env now d es = Inr (ids, d')"
  shows "usdt_ok d'"
  using assms
proof (induction es arbitrary: d ids)
  case (Cons e es)
  from Cons.prems(4) obtain b d1 where c: "event_is_canonical env d e = Inr (b, d1)"
    and r: "(if b then reverse_events env now d1 es
       else ebind (reverse_events env now (save_event (e\<lparr>te_reversed_at := Some now\<rparr>) d1) es) (\<lambda>(ids, d2). Inr (List.insert (te_deposit_id e) ids, d2))) = Inr (ids, d')"
    by (auto simp: ebind_Inr_iff)
  from event_is_canonical_calls [OF c] obtain n where n: "d1 = d\<lparr>ud_calls := n\<rparr>" by blast
  show ?case
  proof (cases b)
    case True
    then have "reverse_events env now d1 es = Inr (ids, d')" using r by simp
    from Cons.IH [OF _ _ _ this] Cons.prems(1-3) n show ?thesis by simp
  next
    case False
    with r obtain ids1 where r1: "reverse_events env now (save_event (e\<lparr>te_reversed_at := Some now\<rparr>) d1) es = Inr (ids1, d')" by (auto simp: ebind_Inr_iff)
    have "set es \<subseteq> set (ud_events (save_event (e\<lparr>te_reversed_at := Some now\<rparr>) d1))"
      using Cons.prems(2,3) n by (intro save_event_other) simp_all
    moreover have "usdt_ok (save_event (e\<lparr>te_reversed_at := Some now\<rparr>) d1)" using mark_reversed_ok [of d1 e now] Cons.prems(1,2) n by simp
    ultimately show ?thesis using Cons.IH [OF _ _ _ r1] Cons.prems(3) by simp
  qed
qed simp

lemma recheck_events_ok:
  assumes "usdt_ok d" "set es \<subseteq> set (ud_events d)" "distinct (map te_id es)" "recheck_events env now d es = Inr d'"
  shows "usdt_ok d'"
  using assms
proof (induction es arbitrary: d)
  case (Cons e es)
  from Cons.prems(4) obtain b d1 where c: "event_is_canonical env d e = Inr (b, d1)"
    and r: "(if b then recheck_events env now d1 es
       else ebind (handle_reorg now (save_event (e\<lparr>te_reversed_at := Some now\<rparr>) d1) (te_deposit_id e)) (\<lambda>d2. recheck_events env now d2 es)) = Inr d'"
    by (auto simp: ebind_Inr_iff)
  from event_is_canonical_calls [OF c] obtain n where n: "d1 = d\<lparr>ud_calls := n\<rparr>" by blast
  show ?case
  proof (cases b)
    case True
    then have "recheck_events env now d1 es = Inr d'" using r by simp
    from Cons.IH [OF _ _ _ this] Cons.prems(1-3) n show ?thesis by simp
  next
    case False
    with r obtain d2 where h: "handle_reorg now (save_event (e\<lparr>te_reversed_at := Some now\<rparr>) d1) (te_deposit_id e) = Inr d2" "recheck_events env now d2 es = Inr d'"
      by (auto simp: ebind_Inr_iff)
    have "usdt_ok (save_event (e\<lparr>te_reversed_at := Some now\<rparr>) d1)" using mark_reversed_ok [of d1 e now] Cons.prems(1,2) n by simp
    note k = handle_reorg_ok [OF this h(1)]
    have "set es \<subseteq> set (ud_events (save_event (e\<lparr>te_reversed_at := Some now\<rparr>) d1))"
      using Cons.prems(2,3) n by (intro save_event_other) simp_all
    then have "set es \<subseteq> set (ud_events d2)" using k by (simp add: touches_def)
    with Cons.IH [OF _ _ _ h(2)] k Cons.prems(3) show ?thesis by simp
  qed
qed simp

section \<open>The watcher\<close>

lemma usdt_ok_distinct_events: "usdt_ok d \<Longrightarrow> distinct (map te_id (filter P (ud_events d)))"
  by (simp add: usdt_ok_def transfers_ok_def distinct_map_filter)

lemma rewind_ok:
  assumes "usdt_ok d" "validate_cursor_and_rewind env now d c = Inr (c1, d')"
  shows "usdt_ok d'"
proof (cases "d' = d \<or> d' = tick d")
  case True
  then show ?thesis using assms(1) by auto
next
  case False
  with assms(2) obtain x P ids d2 where d2: "reverse_events env now (save_cursor x (tick d)) (filter P (ud_events (save_cursor x (tick d)))) = Inr (ids, d2)"
    and r: "reorg_each now d2 (ue_set_order env ids) = Inr d'"
    by (auto simp: validate_cursor_and_rewind_def Let_def ebind_Inr_iff split: option.splits if_splits)
  have "usdt_ok (save_cursor x (tick d))" using assms(1) by simp
  from reverse_events_ok [OF this _ usdt_ok_distinct_events [OF this] d2] have "usdt_ok d2" by auto
  from reorg_each_ok [OF this r] show ?thesis .
qed

lemma recheck_ok:
  assumes "usdt_ok d" "recheck_recent_confirmations env latest now d = Inr d'"
  shows "usdt_ok d'"
  using recheck_events_ok [OF assms(1) _ usdt_ok_distinct_events [OF assms(1)] assms(2) [unfolded recheck_recent_confirmations_def]] by auto

lemma transfer_time_calls: "transfer_time env d t cache = Inr (x, c, d1) \<Longrightarrow> d1 = tick (tick d)"
  by (auto simp: transfer_time_def Let_def ebind_Inr_iff split: if_splits)

text \<open>The ways a transfer is recorded: nothing, a reversal, a new row, a refreshed row.\<close>

lemma record_transferE:
  assumes "record_transfer env now d i t cache = Inr (c, d')"
  obtains (same) "d' = d"
  | (reverse) e where "e \<in> set (ud_events d)" "d' = save_event (e\<lparr>te_reversed_at := Some now\<rparr>) d"
  | (new) x where "d' = (tick (tick d))\<lparr>ud_events := ud_events d @ [new_event env now (tick (tick d)) i t x]\<rparr>" "0 < dt_token_units t"
      "event_identity (new_event env now (tick (tick d)) i t x) \<notin> event_identity ` set (ud_events d)"
  | (refresh) e x where "e \<in> set (ud_events d)" "te_deposit_id e = i" "d' = save_event (refreshed_event now e t x) (tick (tick d))"
proof -
  let ?P = "\<lambda>e. te_chain_id e = uc_chain_id (ue_config env) \<and> te_tx_hash e = dt_tx_hash t \<and> te_log_index e = dt_log_index t"
  from assms obtain existing where f: "scalar_one_or_none (filter ?P (ud_events d)) = Inr existing" by (auto simp: record_transfer_def ebind_Inr_iff)
  have mem: "e \<in> set (ud_events d)" if "existing = Some e" for e
  proof -
    have "filter ?P (ud_events d) = [e]" using f that by (simp add: scalar_iffs)
    then have "e \<in> set (filter ?P (ud_events d))" by simp
    then show ?thesis by simp
  qed
  show thesis
  proof (cases "dt_removed t")
    case True
    then show thesis using assms f mem
      by (cases existing) (auto simp: record_transfer_def intro: same reverse split: if_splits)
  next
    case False
    with assms f obtain x cache1 d1 where tt: "transfer_time env d t cache = Inr (x, cache1, d1)"
      and r: "(case existing of
         None \<Rightarrow> ebind (insert_event d1 (new_event env now d1 i t x)) (\<lambda>d2. Inr (cache1, d2))
       | Some e \<Rightarrow>
           if te_deposit_id e \<noteq> i then Inl (EthereumRpcError ''USDT transfer destination ownership changed'')
           else if te_reversed_at e = None \<and> (te_block_number e \<noteq> dt_block_number t \<or> lower (te_block_hash e) \<noteq> dt_block_hash t \<or>
             te_token_units e \<noteq> dt_token_units t)
           then Inl (EthereumRpcError ''USDT transfer identity changed unexpectedly'')
           else Inr (cache1, save_event (refreshed_event now e t x) d1)) = Inr (c, d')"
      by (auto simp: record_transfer_def ebind_Inr_iff)
    have d1: "d1 = tick (tick d)" using transfer_time_calls [OF tt] .
    show thesis
    proof (cases existing)
      case None
      with r d1 show thesis
        by (intro new [of x]) (auto simp: ebind_Inr_iff insert_event_def event_identity_def new_event_def tick_def split: if_splits)
    next
      case (Some e)
      with r d1 show thesis by (intro refresh [OF mem [OF Some], of x]) (auto split: if_splits)
    qed
  qed
qed

lemma record_transfer_ok:
  assumes "usdt_ok d" "0 < dt_token_units t" "record_transfer env now d i t cache = Inr (c, d')"
  shows "usdt_ok d' \<and> ud_deposits d' = ud_deposits d \<and> ud_store d' = ud_store d"
  using assms(3)
proof (cases rule: record_transferE)
  case (reverse e)
  then show ?thesis using mark_reversed_ok [OF assms(1)] by (simp add: save_event_def)
next
  case (new x)
  let ?e = "new_event env now (tick (tick d)) i t x"
  have "distinct (map te_id (ud_events d @ [?e]))"
    using assms(1) by (intro distinct_insert_row) (simp_all add: usdt_ok_def transfers_ok_def new_event_def tick_def)
  then have "transfers_ok d'" using assms(1) new by (auto simp: usdt_ok_def transfers_ok_def new_event_def)
  then show ?thesis using assms(1) new(1) by (simp add: usdt_ok_def deposits_ok_def tick_def)
next
  case (refresh e x)
  have "usdt_ok (save_event (refreshed_event now e t x) (tick (tick d)))"
    using assms(1,2) refresh(1) by (intro usdt_ok_save_event [of _ e]) (simp_all add: refreshed_event_def event_identity_def tick_def)
  with refresh(3) show ?thesis by (simp add: save_event_def tick_def)
qed (use assms(1) in simp)

lemma record_all_ok:
  assumes "usdt_ok d" "list_all (\<lambda>t. 0 < dt_token_units t) ts" "record_all env now d by_address ts cache = Inr (ids, d')"
  shows "usdt_ok d' \<and> ud_deposits d' = ud_deposits d \<and> ud_store d' = ud_store d \<and> set ids \<subseteq> snd ` set by_address"
  using assms
proof (induction ts arbitrary: d cache ids)
  case (Cons t ts)
  show ?case
  proof (cases "map_of by_address (dt_to_address t)")
    case None
    with Cons show ?thesis by simp
  next
    case (Some i)
    with Cons.prems(3) obtain c d1 ids1 where r: "record_transfer env now d i t cache = Inr (c, d1)" "record_all env now d1 by_address ts c = Inr (ids1, d')"
      "ids = List.insert i ids1" by (auto simp: ebind_Inr_iff)
    from record_transfer_ok [OF Cons.prems(1) _ r(1)] Cons.prems(2) have k: "usdt_ok d1" "ud_deposits d1 = ud_deposits d" "ud_store d1 = ud_store d" by simp_all
    from Cons.IH [OF k(1) _ r(2)] Cons.prems(2) k(2,3) r(3) map_of_SomeD [OF Some] show ?thesis by (auto simp: image_iff) (metis snd_conv)
  qed
qed simp

lemma decode_transfer_units: "decode_transfer_log env l contract = Inr t \<Longrightarrow> 0 < dt_token_units t"
  unfolding decode_transfer_log_def by (auto simp: ebind_Inr_iff split: sum.splits option.splits json.splits list.splits if_splits)

lemma decode_logs_units:
  assumes "list_all (\<lambda>(k, t). 0 < dt_token_units t) seen" "decode_logs env contract ls seen = Inr ts"
  shows "list_all (\<lambda>t. 0 < dt_token_units t) ts"
  using assms
proof (induction ls arbitrary: seen)
  case Nil
  then show ?case by (fastforce simp: list_all_iff)
next
  case (Cons l ls)
  from Cons.prems(2) obtain t where t: "decode_transfer_log env l contract = Inr t" by (auto simp: ebind_Inr_iff)
  let ?k = "(dt_tx_hash t, dt_log_index t)"
  show ?case
  proof (cases "map_of seen ?k")
    case None
    with Cons.prems(2) t have "decode_logs env contract ls (seen @ [(?k, t)]) = Inr ts" by simp
    from Cons.IH [OF _ this] Cons.prems(1) decode_transfer_units [OF t] show ?thesis by simp
  next
    case (Some t')
    with Cons.prems(2) t have "decode_logs env contract ls seen = Inr ts" by (simp split: if_splits)
    from Cons.IH [OF Cons.prems(1) this] show ?thesis .
  qed
qed

lemma get_logs_calls: "get_logs env d a b contract as = Inr (ls, d1) \<Longrightarrow> \<exists>n. d1 = d\<lparr>ud_calls := n\<rparr>"
proof -
  assume h: "get_logs env d a b contract as = Inr (ls, d1)"
  have "d1 = d \<or> d1 = tick d"
  proof (rule disjCI)
    assume n: "d1 \<noteq> tick d"
    from h obtain topics where "address_topics env as = Inr topics" by (auto simp: get_logs_def ebind_Inr_iff split: if_splits)
    with h n show "d1 = d" by (cases "topics = []") (auto simp: get_logs_def ebind_Inr_iff split: if_splits json.split_asm, metis json.exhaust)
  qed
  moreover have "d = d\<lparr>ud_calls := ud_calls d\<rparr>" by simp
  ultimately show ?thesis unfolding tick_def by metis
qed

lemma get_all_logs_calls: "get_all_logs env d a b contract as = Inr (ls, d1) \<Longrightarrow> \<exists>n. d1 = d\<lparr>ud_calls := n\<rparr>"
proof (induction env d a b contract "as" arbitrary: ls d1 rule: get_all_logs.induct)
  case (1 env d a b contract "as")
  show ?case
  proof (cases "as = []")
    case True
    with "1.prems" have "d1 = d\<lparr>ud_calls := ud_calls d\<rparr>" by (simp add: get_all_logs.simps)
    then show ?thesis by blast
  next
    case False
    with "1.prems" obtain ls1 d2 ls2 where g: "get_logs env d a b contract (take ADDRESS_BATCH_SIZE as) = Inr (ls1, d2)"
      "get_all_logs env d2 a b contract (drop ADDRESS_BATCH_SIZE as) = Inr (ls2, d1)"
      by (subst (asm) get_all_logs.simps) (auto simp: ebind_Inr_iff)
    from "1.IH" [OF False g(1) refl g(2)] get_logs_calls [OF g(1)] show ?thesis by auto
  qed
qed

text \<open>A scan: the logs are read, the transfers recorded, the deposits reconciled.\<close>

lemma scan_chunkE:
  assumes "scan_chunk env contract now d a b = Inr (n, d')"
  obtains pairs ts ids m d2 where "deposit_addresses env (watched_deposits env contract d) = Inr pairs" "list_all (\<lambda>t. 0 < dt_token_units t) ts"
    "record_all env now (d\<lparr>ud_calls := m\<rparr>) (rev pairs) ts [] = Inr (ids, d2)" "reconcile_each env now d2 (ue_set_order env ids) = Inr d'"
proof -
  from assms obtain pairs logs d1 transfers ids d2 where p: "deposit_addresses env (watched_deposits env contract d) = Inr pairs"
    "get_all_logs env d a b contract (sort (remdups (map fst pairs))) = Inr (logs, d1)" "decode_logs env contract logs [] = Inr transfers"
    "record_all env now d1 (rev pairs) (sort_key dt_block_number (sort_key dt_log_index (sort_key dt_tx_hash transfers))) [] = Inr (ids, d2)"
    "reconcile_each env now d2 (ue_set_order env ids) = Inr d'"
    unfolding scan_chunk_def by (auto simp: ebind_Inr_iff Let_def)
  have "list_all (\<lambda>t. 0 < dt_token_units t) (sort_key dt_block_number (sort_key dt_log_index (sort_key dt_tx_hash transfers)))"
    using decode_logs_units [OF _ p(3)] by (simp add: list_all_iff)
  with p get_all_logs_calls [OF p(2)] show thesis by (auto intro: that)
qed

lemma scan_chunk_ok:
  assumes "usdt_ok d" "scan_chunk env contract now d a b = Inr (n, d')"
  shows "usdt_ok d'"
  using assms(2)
proof (cases rule: scan_chunkE)
  case (1 pairs ts ids m d2)
  have "usdt_ok (d\<lparr>ud_calls := m\<rparr>)" using assms(1) by simp
  from record_all_ok [OF this 1(2,3)] have "usdt_ok d2" by blast
  from reconcile_each_ok [OF this 1(4)] show ?thesis .
qed

lemma usdt_ok_map_deposits:
  assumes "usdt_ok d" "\<And>dp. dp_id (f dp) = dp_id dp \<and> dp_invoice_id (f dp) = dp_invoice_id dp \<and> dp_derivation_index (f dp) = dp_derivation_index dp \<and>
    dp_credited_at (f dp) = dp_credited_at dp"
  shows "usdt_ok (d\<lparr>ud_deposits := map f (ud_deposits d)\<rparr>)"
proof -
  have "backed s (f dp) = backed s dp" for s dp using assms(2) by (intro backed_cong) simp_all
  then show ?thesis using assms by (simp add: usdt_ok_def deposits_ok_def transfers_ok_def comp_def)
qed

lemma expire_ok: "usdt_ok d \<Longrightarrow> usdt_ok (expire_unpaid_deposits env contract now d)"
  unfolding expire_unpaid_deposits_def by (rule usdt_ok_map_deposits) simp_all

lemma assert_chain_id_calls: "assert_chain_id env d = Inr d1 \<Longrightarrow> d1 = tick d"
  by (auto simp: assert_chain_id_def ebind_Inr_iff split: if_splits)

lemma block_number_calls: "block_number env d = Inr (n, d1) \<Longrightarrow> d1 = tick d"
  by (auto simp: block_number_def ebind_Inr_iff)

lemma scan_next_cases:
  assumes "scan_next env contract now d c safe = Inr (n, d')"
  obtains (none) "d' = d"
  | (scan) a b m d1 x where "scan_chunk env contract now d a b = Inr (m, d1)" "d' = save_cursor x (tick d1)"
proof (cases "0 \<le> safe \<and> cu_next_block c \<le> safe")
  case True
  with assms obtain chunks where ch: "iter_block_chunks (cu_next_block c) safe (uc_scan_chunk_size (ue_config env)) = Inr chunks"
    by (auto simp: scan_next_def ebind_Inr_iff)
  show thesis
  proof (cases chunks)
    case Nil
    with assms True ch show thesis by (intro none) (simp add: scan_next_def)
  next
    case (Cons ab rest)
    with assms True ch show thesis by (cases ab) (auto simp: scan_next_def ebind_Inr_iff intro: scan)
  qed
next
  case False
  then have "d' = d" using assms by (auto simp: scan_next_def)
  then show thesis by (rule none)
qed

text \<open>The phases of a run that finds its cursor.\<close>

lemma run_onceE:
  assumes "run_once env owner now d = Inr (n, d')"
  obtains (idle) "d' = tick d"
  | (phases) contract c latest c1 d3 d4 d5 m where "validate_cursor_and_rewind env now (tick (tick d)) c = Inr (c1, d3)"
      "recheck_recent_confirmations env latest now d3 = Inr d4"
      "scan_next env contract now d4 c1 (latest - uc_confirmations (ue_config env)) = Inr (m, d5)" "d' = expire_unpaid_deposits env contract now d5"
proof -
  from assms obtain contract d1 found where a: "assert_chain_id env d = Inr d1" "cursor_of env contract d1 = Inr found" "watcher_contract env = Inr contract"
    by (auto simp: run_once_def ebind_Inr_iff)
  have d1: "d1 = tick d" by (rule assert_chain_id_calls [OF a(1)])
  show thesis
  proof (cases "\<exists>c. found = Some c \<and> (owner = None \<or> cu_lease_owner c = owner)")
    case False
    then have "d' = tick d" using assms a d1 by (cases found) (auto simp: run_once_def)
    then show thesis by (rule idle)
  next
    case True
    then obtain c where c: "found = Some c" "\<not> (owner \<noteq> None \<and> cu_lease_owner c \<noteq> owner)" by blast
    with assms a obtain latest d2 c1 d3 d4 m d5 where r: "block_number env d1 = Inr (latest, d2)" "validate_cursor_and_rewind env now d2 c = Inr (c1, d3)"
      "recheck_recent_confirmations env latest now d3 = Inr d4" "scan_next env contract now d4 c1 (latest - uc_confirmations (ue_config env)) = Inr (m, d5)"
      "d' = expire_unpaid_deposits env contract now d5"
      by (auto simp: run_once_def ebind_Inr_iff)
    from r(2) have "validate_cursor_and_rewind env now (tick (tick d)) c = Inr (c1, d3)" using block_number_calls [OF r(1)] d1 by simp
    from phases [OF this r(3-5)] show thesis .
  qed
qed

lemma run_once_ok:
  assumes "usdt_ok d" "run_once env owner now d = Inr (n, d')"
  shows "usdt_ok d'"
  using assms(2)
proof (cases rule: run_onceE)
  case (phases contract c latest c1 d3 d4 d5 m)
  have "usdt_ok (tick (tick d))" using assms(1) by simp
  from recheck_ok [OF rewind_ok [OF this phases(1)] phases(2)] have d4: "usdt_ok d4" .
  from phases(3) have "usdt_ok d5"
  proof (cases rule: scan_next_cases)
    case (scan a b m d1 x)
    then show ?thesis using scan_chunk_ok [OF d4] by simp
  qed (use d4 in simp)
  then show ?thesis using phases(4) expire_ok by simp
qed (use assms(1) in simp)

section \<open>The sweeper\<close>

definition swept_row :: "usdt_deposit \<Rightarrow> usdt_deposit \<Rightarrow> bool" where
  "swept_row dp x \<longleftrightarrow> dp_id x = dp_id dp \<and> dp_invoice_id x = dp_invoice_id dp \<and> dp_derivation_index x = dp_derivation_index dp \<and>
     dp_credited_at x = dp_credited_at dp \<and> dp_received_token_units x = dp_received_token_units dp"

lemma swept_row_simps [simp]:
  "swept_row dp dp" "swept_row dp (with_status b x) = swept_row dp x" "swept_row dp (submitted x) = swept_row dp x"
  "swept_row dp (failed_sweep env m x) = swept_row dp x" "swept_row dp (x\<lparr>dp_sweep_tx_hash := h\<rparr>) = swept_row dp x"
  "swept_row dp (x\<lparr>dp_gas_funding_tx_hash := h\<rparr>) = swept_row dp x" "swept_row dp (x\<lparr>dp_gas_funded_at := t\<rparr>) = swept_row dp x"
  "swept_row dp (x\<lparr>dp_sweep_error := m'\<rparr>) = swept_row dp x"
  by (auto simp: swept_row_def with_status_def submitted_def failed_sweep_def)

lemma check_receipts_row:
  "check_sweep_receipt env k dp h = Inr (b, x) \<Longrightarrow> swept_row dp x"
  "check_funding_receipt env k now dp h = Inr (b, x) \<Longrightarrow> swept_row dp x"
  by (auto simp: check_sweep_receipt_def check_funding_receipt_def ebind_Inr_iff split: option.splits if_splits)

lemma submit_row:
  "submit_gas_funding env k dp needed price = Inr (b, x) \<Longrightarrow> swept_row dp x"
  "submit_token_transfer env k dp contract data limit price = Inr (b, x) \<Longrightarrow> swept_row dp x"
  by (auto simp: submit_gas_funding_def submit_token_transfer_def ebind_Inr_iff split: if_splits)

lemma fund_or_submit_row: "fund_or_submit env k dp = Inr (b, x) \<Longrightarrow> swept_row dp x"
  by (auto simp: fund_or_submit_def ebind_Inr_iff Let_def split: if_splits dest: submit_row)

lemma swept_row_trans: "swept_row x y \<Longrightarrow> swept_row y z \<Longrightarrow> swept_row x z"
  by (simp add: swept_row_def)

definition left_row :: "usdt_deposit + (bool \<times> usdt_deposit) \<Rightarrow> usdt_deposit" where
  "left_row r = (case r of Inl x \<Rightarrow> x | Inr (b, x) \<Rightarrow> x)"

lemma attempt_row:
  assumes "swept_row dp y" "\<And>b x. r = Inr (b, x) \<Longrightarrow> swept_row y x"
  shows "swept_row dp (left_row (case r of Inl e \<Rightarrow> Inl y | Inr x \<Rightarrow> Inr x))"
  using assms by (cases r) (auto simp: left_row_def split: prod.split intro: swept_row_trans)

lemma sweep_step_left: "swept_row dp (left_row (sweep_step env k now dp))"
proof (cases "ebind (quantity_at env k ''eth_chainId'' []) (\<lambda>n. raise_if (n \<noteq> uc_chain_id (ue_config env)) (EthereumRpcError ''chain''))")
  case (Inl e)
  then show ?thesis by (simp add: sweep_step_def left_row_def)
next
  case (Inr u)
  consider (sent) "or_empty (dp_sweep_tx_hash dp) \<noteq> []"
    | (funding) "or_empty (dp_sweep_tx_hash dp) = []" "or_empty (dp_gas_funding_tx_hash dp) \<noteq> []" "dp_gas_funded_at dp = None"
    | (submit) "or_empty (dp_sweep_tx_hash dp) = []" "\<not> (or_empty (dp_gas_funding_tx_hash dp) \<noteq> [] \<and> dp_gas_funded_at dp = None)" by (cases "or_empty (dp_sweep_tx_hash dp) = []"; cases "or_empty (dp_gas_funding_tx_hash dp) = []") auto
  then show ?thesis
  proof cases
    case sent
    then show ?thesis using Inr by (simp add: sweep_step_def attempt_row check_receipts_row(1))
  next
    case submit
    then have "sweep_step env k now dp = (case fund_or_submit env (k + 2) dp of Inl e \<Rightarrow> Inl dp | Inr x \<Rightarrow> Inr x)" using Inr by (auto simp: sweep_step_def)
    then show ?thesis by (simp add: attempt_row fund_or_submit_row)
  next
    case funding
    let ?r = "check_funding_receipt env (k + 1) now dp (or_empty (dp_gas_funding_tx_hash dp))"
    show ?thesis
    proof (cases ?r)
      case (Inl e)
      then show ?thesis using Inr funding by (simp add: sweep_step_def left_row_def)
    next
      case r: (Inr bx)
      obtain b x where bx: "bx = (b, x)" by (cases bx)
      have x: "swept_row dp x" using check_receipts_row(2) r bx by blast
      have "sweep_step env k now dp = (if b then (case fund_or_submit env (k + 2) x of Inl e \<Rightarrow> Inl x | Inr x \<Rightarrow> Inr x) else Inr (False, x))"
        using Inr funding r bx by (simp add: sweep_step_def)
      then show ?thesis using x by (simp add: attempt_row fund_or_submit_row) (simp add: left_row_def)
    qed
  qed
qed

lemma sweep_step_row:
  shows "sweep_step env k now dp = Inl x \<Longrightarrow> swept_row dp x" and "sweep_step env k now dp = Inr (b, x) \<Longrightarrow> swept_row dp x"
  using sweep_step_left [of dp env k now] by (simp_all add: left_row_def)

lemma save_swept_ok:
  assumes "usdt_ok d" "get_deposit d i = Some dp" "swept_row dp x"
  shows "usdt_ok (save_deposit x d)"
proof -
  have dp: "dp \<in> set (ud_deposits d)" using get_deposit_mem [OF assms(2)] by simp
  then have "backed (ud_store d) x" using assms(1,3) backed_cong [of x dp] by (simp add: usdt_ok_def swept_row_def)
  with usdt_ok_save_deposit [OF assms(1) dp] assms(3) show ?thesis by (simp add: same_deposit_def swept_row_def)
qed

lemma sweep_deposit_cases:
  assumes "sweep_deposit env now d i = Inr (b, d')"
  shows "d' = d \<or> (\<exists>dp x n. get_deposit d i = Some dp \<and> swept_row dp x \<and> d' = save_deposit x (d\<lparr>ud_calls := n\<rparr>))"
proof (cases "get_deposit d i")
  case None
  with assms show ?thesis by (simp add: sweep_deposit_def)
next
  case (Some dp)
  let ?step = "case sweep_step env (ud_calls d) now dp of
                     Inl dp1 \<Rightarrow> (False, failed_sweep env ''USDT sweep operation failed; retry is safe'' dp1)
                   | Inr x \<Rightarrow> x"
  have st: "swept_row dp (snd ?step)" using sweep_step_row [of env "ud_calls d" now dp] by (auto split: sum.split)
  have w: "\<exists>dp' y n. get_deposit d i = Some dp' \<and> swept_row dp' y \<and> save_deposit x (d\<lparr>ud_calls := m\<rparr>) = save_deposit y (d\<lparr>ud_calls := n\<rparr>)"
    if "swept_row dp x" for x m using that Some by blast
  have w0: "\<exists>dp' y n. get_deposit d i = Some dp' \<and> swept_row dp' y \<and> save_deposit x d = save_deposit y (d\<lparr>ud_calls := n\<rparr>)" if "swept_row dp x" for x
    using w [OF that, of "ud_calls d"] by simp
  show ?thesis
  proof (cases "dp_status dp \<notin> {SWEEP_PENDING, SWEEPING} \<or> \<not> uc_sweeper_enabled (ue_config env)")
    case True
    then consider "d' = d" | "d' = save_deposit (with_status SWEEP_PENDING dp) d" using assms Some by (auto simp: sweep_deposit_def split: if_splits)
    then show ?thesis using w0 [of "with_status SWEEP_PENDING dp"] by cases simp_all
  next
    case False
    with assms Some obtain out where o: "out_of_scope env dp = Inr out" by (auto simp: sweep_deposit_def ebind_Inr_iff)
    let ?x = "\<lambda>m. with_status MANUAL_REVIEW (dp\<lparr>dp_sweep_error := Some m\<rparr>)"
    consider m where "d' = save_deposit (?x m) d" | "d' = save_deposit (snd ?step) (d\<lparr>ud_calls := ud_calls d + 16\<rparr>)"
      using assms Some False o by (auto simp: sweep_deposit_def ebind_Inr_iff case_prod_beta flush_deposit_def split: if_splits)
    then show ?thesis
    proof cases
      case (1 m)
      then show ?thesis using w0 [of "?x m"] by simp
    next
      case 2
      then show ?thesis using w [OF st] by simp
    qed
  qed
qed

lemma sweep_deposit_ok: "usdt_ok d \<Longrightarrow> sweep_deposit env now d i = Inr (b, d') \<Longrightarrow> usdt_ok d'"
proof -
  assume ok: "usdt_ok d" and s: "sweep_deposit env now d i = Inr (b, d')"
  have "usdt_ok (d\<lparr>ud_calls := n\<rparr>)" "get_deposit (d\<lparr>ud_calls := n\<rparr>) i = get_deposit d i" for n using ok by (simp_all add: get_deposit_def)
  with sweep_deposit_cases [OF s] ok show ?thesis by (metis save_swept_ok)
qed

lemma sweep_each_ok: "usdt_ok d \<Longrightarrow> sweep_each env now d ids = Inr (n, d') \<Longrightarrow> usdt_ok d'"
proof (induction ids arbitrary: d n)
  case (Cons i ids)
  from Cons.prems(2) obtain b d1 m where "sweep_deposit env now d i = Inr (b, d1)" "sweep_each env now d1 ids = Inr (m, d')" by (auto simp: ebind_Inr_iff)
  with sweep_deposit_ok [OF Cons.prems(1)] Cons.IH show ?case by blast
qed simp

lemma sweeper_ok: "usdt_ok d \<Longrightarrow> sweeper_run_once env now d limit = Inr (n, d') \<Longrightarrow> usdt_ok d'"
  by (auto simp: sweeper_run_once_def split: if_splits dest: sweep_each_ok)

section \<open>A sample node\<close>

text \<open>Reading a digit and lowering a letter by the bits of the character, for evaluation.\<close>

lemma hex_value_code [code]:
  "hex_value c = map_of (zip ''0123456789abcdefABCDEF'' [0, 1, 2, 3, 4, 5, 6, 7, 8, 9, 10, 11, 12, 13, 14, 15, 10, 11, 12, 13, 14, 15]) c"
proof (cases c)
  case (Char b0 b1 b2 b3 b4 b5 b6 b7)
  then show ?thesis by (cases b0; cases b1; cases b2; cases b3; cases b4; cases b5; cases b6; cases b7) (simp_all add: hex_value_def)
qed

lemma lower_char_code [code]:
  "lower_char (Char b0 b1 b2 b3 b4 b5 b6 b7) =
     (if b6 \<and> \<not> b7 \<and> \<not> b5 \<and> (b0 \<or> b1 \<or> b2 \<or> b3 \<or> b4) \<and> \<not> (b4 \<and> b3 \<and> (b2 \<or> b1 \<and> b0))
      then Char b0 b1 b2 b3 b4 True b6 b7 else Char b0 b1 b2 b3 b4 b5 b6 b7)"
  by (cases b0; cases b1; cases b2; cases b3; cases b4; cases b5; cases b6; cases b7) (simp_all add: lower_char_def char_of_def bit_0)

text \<open>A node that reports one confirmed transfer of 4 USDT, and an address library that writes every address in lower case.\<close>

definition sample_checksum :: "string \<Rightarrow> string option" where
  "sample_checksum s =
     (if length s = 42 \<and> take 2 s = ''0x'' \<and> list_all (\<lambda>c. hex_value c \<noteq> None) (drop 2 s) then Some (lower s) else None)"

definition hash_of :: "char \<Rightarrow> string" where
  "hash_of c = ''0x'' @ replicate 64 c"

definition address_of :: "char \<Rightarrow> string" where
  "address_of c = ''0x'' @ replicate 40 c"

definition topic_of :: "char \<Rightarrow> string" where
  "topic_of c = ''0x'' @ replicate 24 CHR ''0'' @ replicate 40 c"

definition sample_answer :: "nat \<Rightarrow> string \<Rightarrow> json list \<Rightarrow> json res" where
  "sample_answer k name params =
     (if name = ''eth_chainId'' then Inr (JStr ''0x1'')
      else if name = ''eth_blockNumber'' then Inr (JStr ''0x20'')
      else if name = ''eth_getLogs'' then Inr (JList [JObj [(''address'', JStr (address_of CHR ''3'')),
        (''topics'', JList [JStr (hash_of CHR ''2''), JStr (topic_of CHR ''2''), JStr (topic_of CHR ''1'')]),
        (''data'', JStr (''0x'' @ replicate 58 CHR ''0'' @ ''3d0900'')), (''transactionHash'', JStr (hash_of CHR ''1'')),
        (''logIndex'', JStr ''0x0''), (''blockNumber'', JStr ''0x5''), (''blockHash'', JStr (hash_of CHR ''0''))]])
      else if name = ''eth_getTransactionReceipt'' then Inr (JObj [(''transactionHash'', JStr (hash_of CHR ''1'')),
        (''blockHash'', JStr (hash_of CHR ''0'')), (''blockNumber'', JStr ''0x5''), (''status'', JStr ''0x1'')])
      else if name = ''eth_getBlockByNumber'' then Inr (JObj [(''hash'', JStr (hash_of CHR ''0'')), (''number'', JStr ''0x5''),
        (''timestamp'', JStr ''0x1'')])
      else Inl (EthereumRpcError ''unavailable''))"

definition sample_usdt_config :: usdt_config where
  "sample_usdt_config = \<lparr>uc_enabled = True, uc_sweeper_enabled = False, uc_chain_id = 1, uc_contract_address = address_of CHR ''3'',
     uc_treasury_address = address_of CHR ''7'', uc_decimals = 6, uc_confirmations = 12, uc_scan_chunk_size = 100,
     uc_invoice_expiry_seconds = 3600, uc_gas_reserve_wei = 0, uc_tolerance_token_units = 0, uc_reorg_recheck_blocks = 64,
     uc_sweep_max_attempts = 3, uc_watcher_lease_seconds = 60\<rparr>"

definition sample_node_env :: usdt_env where
  "sample_node_env = \<lparr>ue_config = sample_usdt_config, ue_checksum = sample_checksum, ue_transfer_topic = hash_of CHR ''2'', ue_answer = sample_answer,
     ue_set_order = id, ue_derive_address = (\<lambda>_. Inr (address_of CHR ''1'')), ue_gas_wallet = Inr (address_of CHR ''8''),
     ue_sign = (\<lambda>_ _. Inr ''00'')\<rparr>"

lemma sample_checksum_law: "checksum_law sample_node_env"
proof -
  have "lower_char (lower_char c) = lower_char c" for c
    by (auto simp: lower_char_def Let_def of_char_of)
  then have "lower (lower s) = lower s" for s by (simp add: lower_def)
  moreover have "take 2 (lower s) = ''0x''" if "take 2 s = ''0x''" for s
    using that by (simp add: lower_def take_map lower_char_def)
  moreover have "list_all (\<lambda>c. hex_value c \<noteq> None) (drop 2 (lower s))" if "list_all (\<lambda>c. hex_value c \<noteq> None) (drop 2 s)" for s
    using that hex_lower by (simp add: lower_def drop_map list_all_iff del: not_None_eq)
  ultimately show ?thesis by (auto simp: checksum_law_def sample_node_env_def sample_checksum_def) (simp_all add: lower_def)
qed

theorem address_topic_roundtrip_witness:
  "address_topic sample_node_env (address_of CHR ''A'') = Inr (topic_of CHR ''a'') \<and>
   topic_address sample_node_env (JStr (topic_of CHR ''a'')) = Inr (address_of CHR ''a'')"
proof -
  have t: "address_topic sample_node_env (address_of CHR ''A'') = Inr (topic_of CHR ''a'')" by code_simp
  moreover have "normalize_eth_address sample_node_env (JStr (address_of CHR ''A'')) = Inr (address_of CHR ''a'')" by code_simp
  ultimately show ?thesis using address_topic_roundtrip [OF sample_checksum_law t] by simp
qed

end
