(* ===== verification/Usdt_Safety.thy ===== *)
theory Usdt_Safety
  imports Usdt_Books
begin

text \<open>
  The USDT requests as one transition system: deposits are created, workers iterate, administrators intervene, each time with a node that may answer
  anything. The invariant holds throughout; what a credited deposit rests on; and the deposits that are paid and never credited.
\<close>

section \<open>New deposits\<close>

lemma reserve_ok:
  assumes "usdt_ok d" "reserve_derivation_index d = (r, d')"
  shows "usdt_ok d'" "r = Inr n \<Longrightarrow> 0 \<le> n \<and> ud_next_index d' = Some (n + 1)" "ud_deposits d' = ud_deposits d" "ud_store d' = ud_store d"
proof -
  let ?a = "case ud_next_index d of None \<Rightarrow> 0 | Some n \<Rightarrow> n"
  have a: "0 \<le> ?a" using assms(1) by (simp add: usdt_ok_def split: option.split)
  have d': "d' = d \<or> d' = d\<lparr>ud_next_index := Some (?a + 1)\<rparr>" using assms(2) by (auto simp: reserve_derivation_index_def Let_def split: if_splits)
  have "usdt_ok (d\<lparr>ud_next_index := Some (?a + 1)\<rparr>)" using assms(1) a by (fastforce simp: usdt_ok_def deposits_ok_def transfers_ok_def)
  with d' assms(1) show "usdt_ok d'" by auto
  show "ud_deposits d' = ud_deposits d" "ud_store d' = ud_store d" using d' by auto
  show "r = Inr n \<Longrightarrow> 0 \<le> n \<and> ud_next_index d' = Some (n + 1)" using assms(2) a by (auto simp: reserve_derivation_index_def Let_def split: if_splits)
qed

lemma insert_rows_ok:
  assumes ok: "usdt_ok d" and ins: "insert_deposit_rows d i dp = Inr d'"
    and dp: "dp_id dp = fresh_id dp_id (ud_deposits d)" "dp_invoice_id dp = inv_id i" "dp_credited_at dp = None" "0 \<le> dp_derivation_index dp"
      "ud_next_index d = Some n" "dp_derivation_index dp < n"
  shows "usdt_ok d'"
proof -
  let ?p = "deposit_payment (ud_store d) i dp"
  from ins obtain s where x: "insert_payment (ud_store d) ?p = Inr s" "d' = d\<lparr>ud_deposits := ud_deposits d @ [dp], ud_store := s\<rparr>"
    "dp_invoice_id dp \<notin> dp_invoice_id ` set (ud_deposits d)" "dp_derivation_index dp \<notin> dp_derivation_index ` set (ud_deposits d)"
    by (auto simp: insert_deposit_rows_def insert_deposit_def ebind_Inr_iff split: if_splits)
  have s: "s = (ud_store d)\<lparr>payments := payments (ud_store d) @ [?p]\<rparr>" using x(1) by (simp add: insert_payment_Inr)
  have fo: "funding_ok s" using insert_payment_ok [OF _ x(1)] ok by (simp add: usdt_ok_def deposit_payment_def)
  have kept: "payments_kept (ud_store d) s" by (auto simp: payments_kept_def s)
  have "backed s dp" unfolding backed_def s using dp(2,3) by (simp add: deposit_payment_def)
  moreover have "\<forall>y \<in> set (ud_deposits d). backed s y" using ok backed_kept [OF _ kept] by (simp add: usdt_ok_def)
  moreover have "distinct (map dp_id (ud_deposits d @ [dp]))" using ok dp(1) by (intro distinct_insert_row) (simp_all add: usdt_ok_def deposits_ok_def)
  ultimately show ?thesis using ok fo x(2-4) dp(4-6) by (simp add: usdt_ok_def deposits_ok_def transfers_ok_def)
qed

lemma ensure_cursor_frame: "ensure_chain_cursor d chain contract b = Inr d' \<Longrightarrow> \<exists>cs. d' = d\<lparr>ud_cursors := cs\<rparr>"
proof -
  assume "ensure_chain_cursor d chain contract b = Inr d'"
  then have "d' = d \<or> (\<exists>cs. d' = d\<lparr>ud_cursors := cs\<rparr>)" by (auto simp: ensure_chain_cursor_def ebind_Inr_iff split: option.splits)
  moreover have "d = d\<lparr>ud_cursors := ud_cursors d\<rparr>" by simp
  ultimately show ?thesis by metis
qed

lemma create_deposit_ok:
  assumes ok: "usdt_ok d" and ix: "0 \<le> index" "ud_next_index d = Some (index + 1)"
    and cr: "create_deposit env now d rid iid index address block = Inr (dp, d')"
  shows "usdt_ok d'"
proof -
  from cr obtain i existing where v: "validate_invoice (get_invoice (ud_store d) iid) rid = Inr i"
    and e: "scalar_one_or_none (filter (\<lambda>dp. dp_invoice_id dp = inv_id i) (ud_deposits d)) = Inr existing"
    by (auto simp: create_deposit_def ebind_Inr_iff)
  show ?thesis
  proof (cases existing)
    case (Some x)
    with cr v e ok show ?thesis by (simp add: create_deposit_def)
  next
    case None
    have nc: "dp_chain_id (new_deposit env now d i rid index address c u) = uc_chain_id (ue_config env)" for c u by (simp add: new_deposit_def)
    from None cr v e obtain contract units d1 where d1: "ensure_chain_cursor d (uc_chain_id (ue_config env)) contract block = Inr d1"
      and r: "(case insert_deposit_rows d1 i (new_deposit env now d i rid index address contract units) of
           Inr d2 \<Rightarrow> Inr (new_deposit env now d i rid index address contract units, d2)
         | Inl IntegrityError \<Rightarrow>
             ebind (scalar_one_or_none (filter (\<lambda>dp. dp_invoice_id dp = inv_id i) (ud_deposits d1))) (\<lambda>existing.
             case existing of Some dp' \<Rightarrow> Inr (dp', d1) | None \<Rightarrow> Inl IntegrityError)
         | Inl e \<Rightarrow> Inl e) = Inr (dp, d')"
      unfolding create_deposit_def by (auto simp: ebind_Inr_iff Let_def nc)
    from ensure_cursor_frame [OF d1] obtain cs where cs: "d1 = d\<lparr>ud_cursors := cs\<rparr>" by blast
    let ?x = "new_deposit env now d i rid index address contract units"
    show ?thesis
    proof (cases "insert_deposit_rows d1 i ?x")
      case (Inl e)
      have "d' = d1" using r Inl by (cases e) (auto simp: ebind_Inr_iff split: option.splits)
      then show ?thesis using ok cs by simp
    next
      case (Inr d2)
      then have "d' = d2" using r by simp
      with insert_rows_ok [OF _ Inr, of "index + 1"] ok ix cs show ?thesis by (simp add: new_deposit_def)
    qed
  qed
qed

lemma create_or_get_ok:
  assumes "usdt_ok d" "create_or_get_deposit env now d rid iid = (r, d')"
  shows "usdt_ok d'"
proof (cases "ebind (assert_chain_id env d) (block_number env)")
  case (Inl e)
  with assms show ?thesis by (auto simp: create_or_get_deposit_def split: if_splits sum.splits option.splits)
next
  case (Inr bd)
  obtain b d1 where bd: "bd = (b, d1)" by (cases bd)
  have "d1 = tick (tick d)" using Inr bd by (auto simp: ebind_Inr_iff dest!: assert_chain_id_calls block_number_calls)
  then have ok1: "usdt_ok d1" using assms(1) by simp
  obtain r2 d2 where rs: "reserve_derivation_index d1 = (r2, d2)" by (cases "reserve_derivation_index d1")
  note k = reserve_ok [OF ok1 rs]
  consider "d' = d" | "d' = d2" | n a dp where "r2 = Inr n" "create_deposit env now d2 rid iid n a b = Inr (dp, d')"
    using assms(2) Inr bd rs unfolding create_or_get_deposit_def by (auto split: if_splits sum.splits option.splits)
  then show ?thesis using assms(1) k(1) k(2) create_deposit_ok [OF k(1)] by cases auto
qed

section \<open>Any requests in any order\<close>

datatype usdt_request = CreateDeposit int int | Iterate string | Reconcile int | Rescan int "int option" | RetrySweep int | ManualReview int string

text \<open>A handler that raises rolls its transaction back.\<close>

definition committed_or :: "usdt_db \<Rightarrow> usdt_db res \<Rightarrow> usdt_db" where
  "committed_or d r = (case r of Inl e \<Rightarrow> d | Inr d' \<Rightarrow> d')"

fun usdt_after :: "usdt_env \<Rightarrow> instant \<Rightarrow> usdt_db \<Rightarrow> usdt_request \<Rightarrow> usdt_db" where
  "usdt_after env now d (CreateDeposit rid iid) = snd (create_or_get_deposit env now d rid iid)"
| "usdt_after env now d (Iterate owner) = snd (run_usdt_iteration env owner now d)"
| "usdt_after env now d (Reconcile i) = committed_or d (reconcile_admin_usdt_deposit env now d i)"
| "usdt_after env now d (Rescan i b) = committed_or d (rescan_admin_usdt_deposit env d i b)"
| "usdt_after env now d (RetrySweep i) = committed_or d (retry_admin_usdt_sweep d i)"
| "usdt_after env now d (ManualReview i reason) = committed_or d (mark_admin_usdt_manual_review d i reason)"

text \<open>Every request has its own environment, so that a later node may answer differently.\<close>

inductive usdt_step :: "usdt_db \<Rightarrow> usdt_env \<times> instant \<times> usdt_request \<Rightarrow> usdt_db \<Rightarrow> bool" where
  request: "usdt_step d (env, now, q) (usdt_after env now d q)"

inductive_simps usdt_step_iff [simp]: "usdt_step d (env, now, q) d'"

lemma release_ok [simp]: "usdt_ok (release_watcher_lease env contract d owner) = usdt_ok d"
  by (simp add: release_watcher_lease_def)

lemma acquire_ok: "usdt_ok d \<Longrightarrow> acquire_watcher_lease env contract d owner now = Inr (b, d') \<Longrightarrow> usdt_ok d'"
  by (auto simp: acquire_watcher_lease_def ebind_Inr_iff split: option.splits if_splits)

lemma usdt_iteration_ok:
  assumes "usdt_ok d"
  shows "usdt_ok (snd (run_usdt_iteration env owner now d))"
proof (cases "ebind (watcher_contract env) (\<lambda>contract. ebind (acquire_watcher_lease env contract d owner now) (\<lambda>r. Inr (contract, r)))")
  case (Inl e)
  then show ?thesis using assms by (simp add: run_usdt_iteration_def)
next
  case (Inr x)
  obtain contract acquired d1 where x: "x = (contract, acquired, d1)" by (cases x)
  have d1: "usdt_ok d1" using Inr x acquire_ok [OF assms] by (auto simp: ebind_Inr_iff)
  let ?r = "ebind (run_once env (Some owner) now d1) (\<lambda>(n, d2). ebind (sweeper_run_once env now d2 20) (\<lambda>(m, d3). Inr (n + m, d3)))"
  have "usdt_ok d3" if "?r = Inr (n, d3)" for n d3
    using that run_once_ok [OF d1] sweeper_ok by (fastforce simp: ebind_Inr_iff)
  then show ?thesis using assms d1 Inr x by (cases ?r) (auto simp: run_usdt_iteration_def)
qed

lemma admin_ok:
  assumes "usdt_ok d"
  shows "rescan_admin_usdt_deposit env d i b = Inr d' \<Longrightarrow> usdt_ok d'" "retry_admin_usdt_sweep d i = Inr d' \<Longrightarrow> usdt_ok d'"
    "mark_admin_usdt_manual_review d i reason = Inr d' \<Longrightarrow> usdt_ok d'" "reconcile_admin_usdt_deposit env now d i = Inr d' \<Longrightarrow> usdt_ok d'"
proof -
  show "usdt_ok d'" if r: "rescan_admin_usdt_deposit env d i b = Inr d'"
  proof (cases "get_deposit d i")
    case (Some dp)
    with r obtain found where f: "find_cursor d (dp_chain_id dp) (dp_contract_address dp) = Inr found" by (auto simp: rescan_admin_usdt_deposit_def ebind_Inr_iff)
    show ?thesis using r Some f assms by (cases found) (auto simp: rescan_admin_usdt_deposit_def Let_def)
  qed (use r in \<open>simp add: rescan_admin_usdt_deposit_def\<close>)
  show "retry_admin_usdt_sweep d i = Inr d' \<Longrightarrow> usdt_ok d'"
    using save_swept_ok [OF assms] by (auto simp: retry_admin_usdt_sweep_def swept_row_def split: option.splits if_splits)
  show "mark_admin_usdt_manual_review d i reason = Inr d' \<Longrightarrow> usdt_ok d'"
    using save_swept_ok [OF assms] by (auto simp: mark_admin_usdt_manual_review_def split: option.splits)
  assume h: "reconcile_admin_usdt_deposit env now d i = Inr d'"
  then have "ebind (assert_chain_id env d) (\<lambda>d1. ebind (watcher_contract env) (\<lambda>_. reconcile_deposit env now d1 i)) = Inr d'"
    unfolding reconcile_admin_usdt_deposit_def by (auto split: if_splits sum.splits exn.splits)
  then obtain d1 dp where "d1 = tick d" "get_deposit d1 i = Some dp" "reconcile env now d1 dp = Inr d'"
    by (auto simp: ebind_Inr_iff reconcile_deposit_def dest!: assert_chain_id_calls split: option.splits)
  with reconcile_ok [of d1 i dp env now d'] assms show "usdt_ok d'" by simp
qed

lemma committed_or_ok: "usdt_ok d \<Longrightarrow> (\<And>d'. r = Inr d' \<Longrightarrow> usdt_ok d') \<Longrightarrow> usdt_ok (committed_or d r)"
  by (cases r) (simp_all add: committed_or_def)

lemma usdt_after_ok:
  assumes "usdt_ok d"
  shows "usdt_ok (usdt_after env now d q)"
proof (cases q)
  case (CreateDeposit rid iid)
  then show ?thesis using create_or_get_ok [OF assms surjective_pairing] by simp
next
  case (Iterate owner)
  then show ?thesis using usdt_iteration_ok [OF assms] by simp
next
  case (Reconcile i)
  then show ?thesis using committed_or_ok [OF assms admin_ok(4) [OF assms]] by simp
next
  case (Rescan i b)
  then show ?thesis using committed_or_ok [OF assms admin_ok(1) [OF assms]] by simp
next
  case (RetrySweep i)
  then show ?thesis using committed_or_ok [OF assms admin_ok(2) [OF assms]] by simp
next
  case (ManualReview i reason)
  then show ?thesis using committed_or_ok [OF assms admin_ok(3) [OF assms]] by simp
qed

interpretation usdt_system: transition_system usdt_ok usdt_step usdt_ok
  by unfold_locales (auto simp: usdt_after_ok elim!: usdt_step.cases)

text \<open>
  C9: the USDT rows stay consistent. Whatever the nodes answer, over any creations, worker iterations and interventions, no two deposits share an
  invoice or a derivation index, no index is reused, a transfer is recorded once, a credited deposit has a payment that succeeded, and the
  ledger, invoices, payments and outbox keep their invariant.
\<close>

theorem usdt_stays_consistent:
  assumes "usdt_ok d" "runs usdt_step d es t"
  shows "distinct (map dp_invoice_id (ud_deposits t)) \<and> distinct (map dp_derivation_index (ud_deposits t)) \<and>
    (\<forall>dp \<in> set (ud_deposits t). \<exists>n. ud_next_index t = Some n \<and> dp_derivation_index dp < n) \<and>
    distinct (map event_identity (ud_events t)) \<and> funding_ok (ud_store t) \<and>
    (\<forall>dp \<in> set (ud_deposits t). dp_credited_at dp \<noteq> None \<longrightarrow> (\<exists>p \<in> set (payments (ud_store t)).
       pay_external_ref p = Some (deposit_ref (dp_id dp)) \<and> pay_invoice_id p = dp_invoice_id dp \<and> pay_status p \<in> {SUCCEEDED, REFUNDED}))"
proof -
  have ok: "usdt_ok t" using usdt_system.runs_inv [OF assms(2,1)] .
  then have "\<forall>dp \<in> set (ud_deposits t). dp_credited_at dp \<noteq> None \<longrightarrow> (\<exists>p \<in> set (payments (ud_store t)).
       pay_external_ref p = Some (deposit_ref (dp_id dp)) \<and> pay_invoice_id p = dp_invoice_id dp \<and> pay_status p \<in> {SUCCEEDED, REFUNDED})"
    unfolding usdt_ok_def backed_def settled_payment_def by blast
  with ok show ?thesis by (simp add: usdt_ok_def deposits_ok_def transfers_ok_def)
qed

section \<open>What a credited deposit rests on\<close>

text \<open>The node confirmed the transfer: at call \<open>k\<close> the receipt of its transaction, at the next call its block.\<close>

definition canonical_at :: "usdt_env \<Rightarrow> nat \<Rightarrow> usdt_transfer_event \<Rightarrow> bool" where
  "canonical_at env k e \<longleftrightarrow> (\<exists>r b. get_transaction_receipt env k (te_tx_hash e) = Inr (Some r) \<and> hex_quantity (map_of r ''status'') ''receipt status'' = Inr 1 \<and>
     hex_quantity (map_of r ''blockNumber'') ''receipt block'' = Inr (te_block_number e) \<and> lower_field r ''blockHash'' = lower (te_block_hash e) \<and>
     get_block_by_number env (Suc k) (te_block_number e) = Inr b \<and> lower_field b ''hash'' = lower (te_block_hash e))"

lemma event_is_canonical_True: "event_is_canonical env d e = Inr (True, d1) \<Longrightarrow> canonical_at env (ud_calls d) e"
  by (auto simp: event_is_canonical_def canonical_at_def ebind_Inr_iff tick_def split: option.splits if_splits)

lemma all_canonical_True: "all_canonical env d es = Inr (True, d1) \<Longrightarrow> e \<in> set es \<Longrightarrow> \<exists>k. canonical_at env k e"
proof (induction es arbitrary: d)
  case (Cons x es)
  from Cons.prems(1) obtain d2 where "event_is_canonical env d x = Inr (True, d2)" "all_canonical env d2 es = Inr (True, d1)"
    by (auto simp: ebind_Inr_iff split: if_splits)
  with Cons event_is_canonical_True show ?case by fastforce
qed simp

definition paid_ref :: "store \<Rightarrow> int \<Rightarrow> bool" where
  "paid_ref s i \<longleftrightarrow> (\<exists>p \<in> set (payments s). pay_external_ref p = Some (deposit_ref i) \<and> pay_status p = SUCCEEDED)"

definition well_credited :: "usdt_env \<Rightarrow> usdt_db \<Rightarrow> usdt_deposit \<Rightarrow> bool" where
  "well_credited env d dp \<longleftrightarrow> dp_received_token_units dp = token_sum (active_events d (dp_id dp)) \<and> threshold env dp \<le> dp_received_token_units dp \<and>
     (\<forall>e \<in> set (active_events d (dp_id dp)). \<not> late dp e \<and> (\<exists>k. canonical_at env k e)) \<and> paid_ref (ud_store d) (dp_id dp)"

lemma active_events_cong: "ud_events d = ud_events d' \<Longrightarrow> active_events d = active_events d'"
  by (simp add: active_events_def fun_eq_iff)

lemma well_credited_cong:
  assumes "well_credited env d x" "ud_events d' = ud_events d" "dp_id y = dp_id x" "dp_received_token_units y = dp_received_token_units x"
    "dp_expected_token_units y = dp_expected_token_units x" "dp_expires_at y = dp_expires_at x" "paid_ref (ud_store d) (dp_id x) \<Longrightarrow> paid_ref (ud_store d') (dp_id x)"
  shows "well_credited env d' y"
proof -
  have "late y = late x" using assms(6) by (simp add: late_def fun_eq_iff split: option.split)
  moreover have "threshold env y = threshold env x" using assms(5) by (simp add: threshold_def)
  ultimately show ?thesis using assms(1,3,4,7) active_events_cong [OF assms(2)] by (simp add: well_credited_def)
qed

lemma finalize_paid:
  assumes "funding_ok s" "p \<in> set (payments s)" "finalize_success now s p = Inr (i, t)"
  shows "paid_ref s j \<Longrightarrow> paid_ref t j" "pay_external_ref p = Some (deposit_ref j) \<Longrightarrow> paid_ref t j"
proof -
  note k = finalize_kept(3) [OF assms]
  have f: "finalized now p \<in> set (payments t)" "pay_external_ref (finalized now p) = pay_external_ref p" "pay_status (finalized now p) = SUCCEEDED"
    using assms(2) k by (auto simp: put_row_def image_iff finalized_def)
  then show r: "paid_ref t j" if "pay_external_ref p = Some (deposit_ref j)" using that unfolding paid_ref_def by (intro bexI [of _ "finalized now p"]) simp_all
  assume "paid_ref s j"
  then obtain q where q: "q \<in> set (payments s)" "pay_external_ref q = Some (deposit_ref j)" "pay_status q = SUCCEEDED" unfolding paid_ref_def by blast
  show "paid_ref t j"
  proof (cases "pay_id q = pay_id p")
    case True
    then have "q = p" using payments_distinct [OF assms(1)] assms(2) q(1) by (metis distinct_map inj_onD)
    with q(2) r show ?thesis by simp
  next
    case False
    then have "q \<in> set (payments t)" using k q(1) by (auto simp: put_row_def image_iff finalized_def)
    with q show ?thesis unfolding paid_ref_def by blast
  qed
qed

lemma notified_paid:
  assumes "funding_ok (ud_store d)" "s = ud_store d \<or> notify_usdt_detection (ud_store d) x = Inr s"
  shows "funding_ok s" "paid_ref s j = paid_ref (ud_store d) j" "payments s = payments (ud_store d)"
proof -
  show p: "funding_ok s" "payments s = payments (ud_store d)" using assms notify_detection_ok [OF assms(1)] by auto
  then show "paid_ref s j = paid_ref (ud_store d) j" by (simp add: paid_ref_def)
qed

text \<open>A reconciliation keeps payments that succeeded.\<close>

lemma reconcile_paid:
  assumes ok: "usdt_ok d" and rc: "reconcile env now d dp = Inr d'" and pd: "paid_ref (ud_store d) j"
  shows "paid_ref (ud_store d') j"
proof -
  have fo: "funding_ok (ud_store d)" using ok by (simp add: usdt_ok_def)
  from rc show ?thesis
  proof (cases rule: reconcileE)
    case (status s b)
    then show ?thesis using pd notified_paid [OF fo status(2)] by (simp add: save_deposit_def)
  next
    case (settle s)
    note k = notified_paid [OF fo settle(2)]
    from settle(1) show ?thesis
    proof (cases rule: settleE)
      case (credit p i t n m)
      have "p \<in> set (payments s)" using usdt_payment_Some(1) [OF credit(1)] by simp
      from finalize_paid(1) [OF k(1) this] credit(2,5) k(2) pd show ?thesis by (simp add: save_deposit_def)
    qed (use k pd in \<open>simp_all add: save_deposit_def\<close>)
  qed (use pd in \<open>simp add: save_deposit_def\<close>)
qed

text \<open>Credited deposits are credited well, and a reconciliation keeps it so.\<close>

definition credited_well :: "usdt_env \<Rightarrow> int \<Rightarrow> usdt_db \<Rightarrow> bool" where
  "credited_well env i d \<longleftrightarrow> (\<forall>dp. get_deposit d i = Some dp \<longrightarrow> dp_credited_at dp = None \<or> well_credited env d dp)"

lemma get_saved: "get_deposit d (dp_id x) = Some y \<Longrightarrow> get_deposit (save_deposit x d) (dp_id x) = Some x"
  by (simp add: get_deposit_def save_deposit_def get_put_row)

lemma get_deposit_frame [simp]: "get_deposit (d\<lparr>ud_store := s\<rparr>) i = get_deposit d i" "get_deposit (d\<lparr>ud_calls := n\<rparr>) i = get_deposit d i"
  "get_deposit (d\<lparr>ud_events := es\<rparr>) i = get_deposit d i" "get_deposit (d\<lparr>ud_cursors := cs\<rparr>) i = get_deposit d i"
  "get_deposit (tick d) i = get_deposit d i" "get_deposit (save_cursor c d) i = get_deposit d i" "get_deposit (save_event e d) i = get_deposit d i"
  by (simp_all add: get_deposit_def tick_def save_cursor_def save_event_def)

lemma reconcile_credit:
  assumes ok: "usdt_ok d" and g: "get_deposit d j = Some dp" and rc: "reconcile env now d dp = Inr d'" and cw: "credited_well env i d"
  shows "credited_well env i d'"
proof (cases "i = j")
  case False
  have t: "touches j d d'" using reconcile_ok [OF ok g rc] by blast
  show ?thesis unfolding credited_well_def
  proof (intro allI impI)
    fix y assume "get_deposit d' i = Some y"
    then have y: "get_deposit d i = Some y" using t False by (simp add: touches_def)
    then have "dp_credited_at y = None \<or> well_credited env d y" using cw by (simp add: credited_well_def)
    then show "dp_credited_at y = None \<or> well_credited env d' y"
      using well_credited_cong [of env d y d' y] t reconcile_paid [OF ok rc] by (auto simp: touches_def)
  qed
next
  case True
  let ?es = "active_events d (dp_id dp)" and ?dp = "summarize_events now dp (active_events d (dp_id dp))"
  have j: "dp_id dp = j" using get_deposit_mem [OF g] by simp
  have fo: "funding_ok (ud_store d)" using ok by (simp add: usdt_ok_def)
  have t: "touches j d d'" using reconcile_ok [OF ok g rc] by blast
  have old: "dp_credited_at dp = None \<or> well_credited env d dp" using cw g True by (simp add: credited_well_def)
  have keep: "credited_well env i d'"
    if "get_deposit d' j = Some x" "dp_id x = j" "dp_credited_at x = dp_credited_at dp" "dp_received_token_units x = token_sum ?es"
      "dp_expected_token_units x = dp_expected_token_units dp" "dp_expires_at x = dp_expires_at dp" for x
    using old well_credited_cong [of env d dp d' x] that t reconcile_paid [OF ok rc] True j
    by (auto simp: credited_well_def touches_def well_credited_def)
  from rc show ?thesis
  proof (cases rule: reconcileE)
    case empty
    have "get_deposit d' j = Some (summarize_events now dp [])" using empty(2) get_saved [of d "summarize_events now dp []"] g j by simp
    then show ?thesis using keep [of "summarize_events now dp []"] j empty(1) by simp
  next
    case (status s b)
    have "get_deposit d' j = Some (with_status b ?dp)" using status(1) get_saved [of "d\<lparr>ud_store := s\<rparr>" "with_status b ?dp"] g j by simp
    then show ?thesis using keep [of "with_status b ?dp"] j by simp
  next
    case (settle s)
    have sv: "get_deposit (save_deposit x (d\<lparr>ud_store := s', ud_calls := n\<rparr>)) j = Some x" if "dp_id x = j" for x s' n
      using get_saved [of "d\<lparr>ud_store := s', ud_calls := n\<rparr>" x] g that by simp
    have sv0: "get_deposit (save_deposit x (d\<lparr>ud_store := s'\<rparr>)) j = Some x" if "dp_id x = j" for x s'
      using get_saved [of "d\<lparr>ud_store := s'\<rparr>" x] g that by simp
    from settle(1) show ?thesis
    proof (cases rule: settleE)
      case none
      then show ?thesis using keep [of "with_status MANUAL_REVIEW ?dp"] sv0 [where x = "with_status MANUAL_REVIEW ?dp" and s' = s] j by simp
    next
      case (refund p)
      then show ?thesis using keep [of "with_status REORGED ?dp"] sv0 [where x = "with_status REORGED ?dp" and s' = s] j by simp
    next
      case (paid p)
      then show ?thesis using keep [of "settled_status ?dp"] sv0 [where x = "settled_status ?dp" and s' = s] j by simp
    next
      case (reorg n)
      then show ?thesis using keep [of "with_status REORGED ?dp"] sv [where x = "with_status REORGED ?dp" and s' = s and n = n] j by simp
    next
      case (credit p q u n m)
      let ?x = "settled_status (?dp\<lparr>dp_credited_at := Some now\<rparr>)"
      note k = notified_paid [OF fo settle(2)]
      have p: "p \<in> set (payments s)" "pay_external_ref p = Some (deposit_ref j)" using usdt_payment_Some [OF credit(1)] j by simp_all
      have "finalize_success now s p = Inr (q, u)" using credit(2) by simp
      from finalize_paid(2) [OF k(1) p(1) this p(2)] have pr: "paid_ref u j" .
      have "all_canonical env (d\<lparr>ud_store := s\<rparr>) ?es = Inr (True, d\<lparr>ud_store := s, ud_calls := n\<rparr>)" using credit(3) by simp
      then have can: "\<forall>e \<in> set ?es. \<exists>k. canonical_at env k e" using all_canonical_True by blast
      have "late ?x = late dp" by (simp add: late_def fun_eq_iff split: option.split)
      then have nl: "\<forall>e \<in> set ?es. \<not> late ?x e" using settle(3) by (simp add: list_ex_iff)
      have "threshold env ?x = threshold env dp" by (simp add: threshold_def)
      moreover have "ud_events d' = ud_events d" using t by (simp add: touches_def)
      moreover have "ud_store d' = u" using credit(5) by (simp add: save_deposit_def)
      ultimately have "well_credited env d' ?x" using settle(4) can nl pr j active_events_cong [of d' d] by (simp add: well_credited_def)
      moreover have "get_deposit d' j = Some ?x" using credit(5) sv [where x = ?x and s' = u and n = m] j by simp
      ultimately show ?thesis using True by (simp add: credited_well_def)
    qed
  qed
qed

lemma reconcile_each_credit: "usdt_ok d \<Longrightarrow> reconcile_each env now d ids = Inr d' \<Longrightarrow> credited_well env i d \<Longrightarrow> credited_well env i d'"
proof (induction ids arbitrary: d)
  case (Cons j ids)
  from Cons.prems(2) obtain d1 dp where r: "get_deposit d j = Some dp" "reconcile env now d dp = Inr d1" "reconcile_each env now d1 ids = Inr d'"
    by (auto simp: ebind_Inr_iff reconcile_deposit_def split: option.splits)
  from Cons.IH [OF _ r(3) reconcile_credit [OF Cons.prems(1) r(1,2) Cons.prems(3)]] reconcile_ok [OF Cons.prems(1) r(1,2)] show ?case by blast
qed simp

section \<open>The phases of a run\<close>

text \<open>What the phases before the scan change of a deposit: nothing but its status and amount, the status only to reorganized.\<close>

definition restated_deposit :: "usdt_deposit \<Rightarrow> usdt_deposit \<Rightarrow> bool" where
  "restated_deposit x y \<longleftrightarrow> dp_credited_at y = dp_credited_at x \<and> (dp_status y = dp_status x \<or> dp_status y = REORGED)"

definition reorganized :: "int \<Rightarrow> usdt_db \<Rightarrow> usdt_db \<Rightarrow> bool" where
  "reorganized i d d' \<longleftrightarrow> te_id ` set (active_events d' i) \<subseteq> te_id ` set (active_events d i) \<and>
     (case (get_deposit d i, get_deposit d' i) of (None, None) \<Rightarrow> True | (Some x, Some y) \<Rightarrow> restated_deposit x y | _ \<Rightarrow> False)"

lemma reorganized_refl [simp]: "reorganized i d d"
  by (simp add: reorganized_def restated_deposit_def split: option.split)

lemma reorganized_trans: "reorganized i d d' \<Longrightarrow> reorganized i d' d'' \<Longrightarrow> reorganized i d d''"
  unfolding reorganized_def restated_deposit_def by (auto split: option.splits)

lemma reorganized_same: "ud_events d' = ud_events d \<Longrightarrow> get_deposit d' i = get_deposit d i \<Longrightarrow> reorganized i d d'"
  using active_events_cong [of d' d] by (simp add: reorganized_def restated_deposit_def split: option.split)

lemma set_active_events: "set (active_events d i) = {e \<in> set (ud_events d). te_deposit_id e = i \<and> te_reversed_at e = None}"
  by (simp add: active_events_def)

lemma reorganized_mark: "reorganized i d (save_event (e\<lparr>te_reversed_at := Some now\<rparr>) d)"
proof -
  have "set (active_events (save_event (e\<lparr>te_reversed_at := Some now\<rparr>) d) i) \<subseteq> set (active_events d i)"
    unfolding set_active_events save_event_def by (auto dest: put_row_memD)
  then show ?thesis unfolding reorganized_def by (auto simp: restated_deposit_def split: option.split)
qed

lemma reorganized_handle:
  assumes "handle_reorg now d j = Inr d'"
  shows "reorganized i d d'"
  using assms
proof (cases rule: handle_reorgE)
  case (some dp s)
  have "dp_id dp = j" using get_deposit_mem [OF some(1)] by simp
  moreover have "ud_events d' = ud_events d" using some(2) by (simp add: save_deposit_def)
  ultimately show ?thesis using some(1,2) active_events_cong [of d' d]
    by (auto simp: reorganized_def restated_deposit_def save_deposit_def get_deposit_def get_put_row split: option.split)
qed simp

lemma reorganized_canonical: "event_is_canonical env d e = Inr (b, d') \<Longrightarrow> reorganized i d d'"
  using event_is_canonical_calls by (fastforce intro: reorganized_same)

lemma reorganized_each: "reorg_each now d ids = Inr d' \<Longrightarrow> reorganized i d d'"
proof (induction ids arbitrary: d)
  case (Cons j ids)
  then show ?case by (auto simp: ebind_Inr_iff intro: reorganized_trans reorganized_handle)
qed simp

lemma reorganized_reverse: "reverse_events env now d es = Inr (ids, d') \<Longrightarrow> reorganized i d d'"
proof (induction es arbitrary: d ids)
  case (Cons e es)
  from Cons.prems obtain b d1 where c: "event_is_canonical env d e = Inr (b, d1)"
    and r: "(if b then reverse_events env now d1 es
       else ebind (reverse_events env now (save_event (e\<lparr>te_reversed_at := Some now\<rparr>) d1) es) (\<lambda>(ids, d2). Inr (List.insert (te_deposit_id e) ids, d2))) = Inr (ids, d')"
    by (auto simp: ebind_Inr_iff)
  have "reorganized i d1 d'"
  proof (cases b)
    case True
    with r Cons.IH show ?thesis by simp
  next
    case False
    with r obtain ids1 where "reverse_events env now (save_event (e\<lparr>te_reversed_at := Some now\<rparr>) d1) es = Inr (ids1, d')" by (auto simp: ebind_Inr_iff)
    with Cons.IH reorganized_mark reorganized_trans show ?thesis by metis
  qed
  then show ?case using reorganized_trans [OF reorganized_canonical [OF c]] by blast
qed simp

lemma reorganized_recheck: "recheck_events env now d es = Inr d' \<Longrightarrow> reorganized i d d'"
proof (induction es arbitrary: d)
  case (Cons e es)
  from Cons.prems obtain b d1 where c: "event_is_canonical env d e = Inr (b, d1)"
    and r: "(if b then recheck_events env now d1 es
       else ebind (handle_reorg now (save_event (e\<lparr>te_reversed_at := Some now\<rparr>) d1) (te_deposit_id e)) (\<lambda>d2. recheck_events env now d2 es)) = Inr d'"
    by (auto simp: ebind_Inr_iff)
  have "reorganized i d1 d'"
  proof (cases b)
    case True
    with r Cons.IH show ?thesis by simp
  next
    case False
    with r obtain d2 where "handle_reorg now (save_event (e\<lparr>te_reversed_at := Some now\<rparr>) d1) (te_deposit_id e) = Inr d2" "recheck_events env now d2 es = Inr d'"
      by (auto simp: ebind_Inr_iff)
    with Cons.IH reorganized_handle reorganized_mark reorganized_trans show ?thesis by metis
  qed
  then show ?case using reorganized_trans [OF reorganized_canonical [OF c]] by blast
qed simp

lemma reorganized_rewind:
  assumes "validate_cursor_and_rewind env now d c = Inr (c1, d')"
  shows "reorganized i d d'"
proof (cases "d' = d \<or> d' = tick d")
  case True
  then show ?thesis by (auto intro: reorganized_same simp: tick_def)
next
  case False
  with assms obtain x es ids d2 where d2: "reverse_events env now (save_cursor x (tick d)) es = Inr (ids, d2)"
    and r: "reorg_each now d2 (ue_set_order env ids) = Inr d'"
    by (auto simp: validate_cursor_and_rewind_def Let_def ebind_Inr_iff split: option.splits if_splits)
  have "reorganized i d (save_cursor x (tick d))" by (rule reorganized_same) (simp_all add: save_cursor_def tick_def)
  from reorganized_trans [OF this reorganized_trans [OF reorganized_reverse [OF d2] reorganized_each [OF r]]] show ?thesis .
qed

lemma reorganized_start:
  assumes "validate_cursor_and_rewind env now (tick (tick d)) c = Inr (c1, d3)" "recheck_recent_confirmations env latest now d3 = Inr d4"
  shows "reorganized i d d4"
proof -
  have "reorganized i d (tick (tick d))" by (rule reorganized_same) (simp_all add: tick_def)
  from reorganized_trans [OF this reorganized_trans [OF reorganized_rewind [OF assms(1)] reorganized_recheck [OF assms(2) [unfolded recheck_recent_confirmations_def]]]]
  show ?thesis .
qed

definition expired :: "usdt_env \<Rightarrow> string \<Rightarrow> instant \<Rightarrow> usdt_deposit \<Rightarrow> usdt_deposit" where
  "expired env contract now dp =
    (if dp_chain_id dp = uc_chain_id (ue_config env) \<and> dp_contract_address dp = contract \<and> dp_credited_at dp = None \<and> dp_expires_at dp \<le> now \<and>
        dp_status dp \<in> {AWAITING, PENDING_CONFIRMATIONS, UNDERPAID}
     then with_status (if 0 < dp_received_token_units dp then MANUAL_REVIEW else EXPIRED) dp else dp)"

lemma get_row_map: "(\<And>x. rid (f x) = rid x) \<Longrightarrow> get_row rid i (map f rs) = map_option f (get_row rid i rs)"
  by (induction rs) auto

lemma get_expired: "get_deposit (expire_unpaid_deposits env contract now d) i = map_option (expired env contract now) (get_deposit d i)"
proof -
  have "expire_unpaid_deposits env contract now d = d\<lparr>ud_deposits := map (expired env contract now) (ud_deposits d)\<rparr>"
    by (simp add: expire_unpaid_deposits_def expired_def [abs_def])
  moreover have "dp_id (expired env contract now x) = dp_id x" for x by (simp add: expired_def)
  ultimately show ?thesis by (simp add: get_deposit_def get_row_map)
qed

text \<open>
  C10: credit needs confirmed funds. When a run of the watcher credits a deposit, then its recorded transfers that are not reversed add up to
  the expected amount less the tolerance, and to more than nothing, none of them came after the expiry, the node confirmed receipt and block of each,
  and the payment of the deposit has succeeded.
\<close>

theorem usdt_credit_needs_funds:
  assumes "usdt_ok d" "run_once env owner now d = Inr (n, d')" "get_deposit d i = Some dp" "dp_credited_at dp = None"
    "get_deposit d' i = Some dp'" "dp_credited_at dp' \<noteq> None"
  shows "max 1 (dp_expected_token_units dp' - uc_tolerance_token_units (ue_config env)) \<le> token_sum (active_events d' i) \<and>
    (\<forall>e \<in> set (active_events d' i). (\<exists>t. te_block_timestamp e = Some t \<and> t \<le> dp_expires_at dp') \<and> (\<exists>k. canonical_at env k e)) \<and>
    (\<exists>p \<in> set (payments (ud_store d')). pay_external_ref p = Some (deposit_ref i) \<and> pay_status p = SUCCEEDED)"
  using assms(2)
proof (cases rule: run_onceE)
  case idle
  with assms(3-6) show ?thesis by simp
next
  case (phases contract c latest c1 d3 d4 d5 m)
  have ok4: "usdt_ok d4" using recheck_ok [OF rewind_ok [OF _ phases(1)] phases(2)] assms(1) by simp
  have "credited_well env i d4" using reorganized_start [OF phases(1,2), of i] assms(3,4)
    by (auto simp: credited_well_def reorganized_def restated_deposit_def split: option.splits)
  note cw4 = this
  from phases(3) have "credited_well env i d5"
  proof (cases rule: scan_next_cases)
    case none
    with cw4 show ?thesis by simp
  next
    case (scan a b m1 d6 x)
    from scan(1) have "credited_well env i d6"
    proof (cases rule: scan_chunkE)
      case (1 pairs ts ids k d7)
      have "usdt_ok (d4\<lparr>ud_calls := k\<rparr>)" using ok4 by simp
      note r = record_all_ok [OF this 1(2,3)]
      have "get_deposit d7 i = get_deposit d4 i" using r by (simp add: get_deposit_def)
      moreover have "\<forall>y. get_deposit d4 i = Some y \<longrightarrow> dp_credited_at y = None"
        using reorganized_start [OF phases(1,2), of i] assms(3,4) by (auto simp: reorganized_def restated_deposit_def split: option.splits)
      ultimately have "credited_well env i d7" by (simp add: credited_well_def)
      with reconcile_each_credit [OF _ 1(4)] r show ?thesis by blast
    qed
    then show ?thesis using scan(2) active_events_cong [of "save_cursor x (tick d6)" d6]
      by (simp add: credited_well_def well_credited_def) (simp add: save_cursor_def tick_def)
  qed
  moreover have e: "ud_events d' = ud_events d5" "ud_store d' = ud_store d5" using phases(4) by (simp_all add: expire_unpaid_deposits_def)
  moreover obtain y where y: "get_deposit d5 i = Some y" "dp' = expired env contract now y" using assms(5) phases(4) by (auto simp: get_expired)
  moreover have "dp' = y" using assms(6) y(2) by (auto simp: expired_def split: if_splits)
  moreover have "dp_id dp' = i" using get_deposit_mem [OF assms(5)] by simp
  ultimately have "dp_credited_at dp' = None \<or> well_credited env d' dp'" using active_events_cong [OF e(1)] by (auto simp: credited_well_def well_credited_def)
  with assms(6) have "well_credited env d' dp'" by auto
  then show ?thesis using \<open>dp_id dp' = i\<close> by (auto simp: well_credited_def threshold_def late_def paid_ref_def split: option.splits)
qed

section \<open>Deposits that are never credited\<close>

text \<open>What is assumed of the iteration over a set: every element once, in some order.\<close>

definition set_order_law :: "usdt_env \<Rightarrow> bool" where
  "set_order_law env \<longleftrightarrow> (\<forall>xs. set (ue_set_order env xs) = set xs)"

lemma watched_pairs: "deposit_addresses env dps = Inr pairs \<Longrightarrow> snd ` set pairs = dp_id ` set dps"
proof (induction dps arbitrary: pairs)
  case (Cons dp dps)
  from Cons.prems obtain a rest where "deposit_addresses env dps = Inr rest" "pairs = (a, dp_id dp) # rest" by (auto simp: ebind_Inr_iff)
  with Cons.IH show ?case by simp
qed simp

lemma record_all_frame:
  assumes "record_all env now d by_address ts cache = Inr (ids, d')" "i \<notin> snd ` set by_address"
  shows "reorganized i d d'"
  using assms
proof (induction ts arbitrary: d cache ids)
  case (Cons t ts)
  show ?case
  proof (cases "map_of by_address (dt_to_address t)")
    case None
    with Cons show ?thesis by simp
  next
    case (Some j)
    with Cons.prems(1) obtain c d1 ids1 where r: "record_transfer env now d j t cache = Inr (c, d1)" "record_all env now d1 by_address ts c = Inr (ids1, d')"
      by (auto simp: ebind_Inr_iff)
    have j: "j \<noteq> i" using map_of_SomeD [OF Some] Cons.prems(2) by (auto simp: image_iff)
    from r(1) have "reorganized i d d1"
    proof (cases rule: record_transferE)
      case same
      then show ?thesis by simp
    next
      case (reverse e)
      then show ?thesis using reorganized_mark by simp
    next
      case (new x)
      then have "set (active_events d1 i) = set (active_events d i)" using j by (auto simp: set_active_events new_event_def)
      moreover have "get_deposit d1 i = get_deposit d i" using new(1) by simp
      ultimately show ?thesis by (simp add: reorganized_def restated_deposit_def split: option.split)
    next
      case (refresh e x)
      then have "set (active_events d1 i) \<subseteq> set (active_events d i)" using j
        unfolding set_active_events by (auto simp: refreshed_event_def save_event_def tick_def dest!: put_row_memD)
      moreover have "get_deposit d1 i = get_deposit d i" using refresh(3) by simp
      ultimately show ?thesis unfolding reorganized_def by (auto simp: restated_deposit_def split: option.split)
    qed
    with Cons.IH [OF r(2) Cons.prems(2)] show ?thesis using reorganized_trans by blast
  qed
qed simp

lemma reconcile_each_frame:
  assumes "usdt_ok d" "reconcile_each env now d ids = Inr d'" "i \<notin> set ids"
  shows "reorganized i d d'"
  using assms
proof (induction ids arbitrary: d)
  case (Cons j ids)
  from Cons.prems(2) obtain d1 dp where r: "get_deposit d j = Some dp" "reconcile env now d dp = Inr d1" "reconcile_each env now d1 ids = Inr d'"
    by (auto simp: ebind_Inr_iff reconcile_deposit_def split: option.splits)
  note k = reconcile_ok [OF Cons.prems(1) r(1,2)]
  have "reorganized i d d1" using k Cons.prems(3) by (intro reorganized_same) (simp_all add: touches_def)
  with Cons.IH [OF _ r(3)] k Cons.prems(3) reorganized_trans show ?case by auto
qed simp

lemma reorged_scan:
  assumes "usdt_ok d" "set_order_law env" "get_deposit d i = Some x" "dp_status x = REORGED" "scan_chunk env contract now d a b = Inr (m, d')"
  shows "reorganized i d d'"
  using assms(5)
proof (cases rule: scan_chunkE)
  case (1 pairs ts ids k d7)
  have u: "distinct (map dp_id (ud_deposits d))" using assms(1) by (simp add: usdt_ok_def deposits_ok_def)
  have "i \<notin> dp_id ` set (watched_deposits env contract d)"
  proof
    assume "i \<in> dp_id ` set (watched_deposits env contract d)"
    then obtain z where z: "z \<in> set (ud_deposits d)" "dp_id z = i" "dp_status z \<noteq> REORGED" by (auto simp: watched_deposits_def)
    then have "get_deposit d i = Some z" using get_row_Some_iff [OF u] by (simp add: get_deposit_def)
    with assms(3,4) z(3) show False by simp
  qed
  then have i: "i \<notin> snd ` set (rev pairs)" using watched_pairs [OF 1(1)] by simp
  have "usdt_ok (d\<lparr>ud_calls := k\<rparr>)" using assms(1) by simp
  note r = record_all_ok [OF this 1(2,3)]
  have "i \<notin> set (ue_set_order env ids)" using r i assms(2) by (auto simp: set_order_law_def)
  then have "reorganized i d7 d'" using reconcile_each_frame [OF _ 1(4)] r by blast
  moreover have "reorganized i (d\<lparr>ud_calls := k\<rparr>) d7" by (rule record_all_frame [OF 1(3) i])
  moreover have "reorganized i d (d\<lparr>ud_calls := k\<rparr>)" by (rule reorganized_same) simp_all
  ultimately show ?thesis using reorganized_trans by blast
qed

text \<open>
  C38: a deposit hit by a reorganization is lost. Once a deposit is marked as reorganized no run of the watcher takes it up again: it stays
  reorganized, its time of credit does not change, and no further transfer to it becomes active, whatever blocks are scanned again.
\<close>

theorem reorged_deposit_is_lost:
  assumes "usdt_ok d" "set_order_law env" "run_once env owner now d = Inr (n, d')" "get_deposit d i = Some dp" "dp_status dp = REORGED"
  shows "\<exists>dp'. get_deposit d' i = Some dp' \<and> dp_status dp' = REORGED \<and> dp_credited_at dp' = dp_credited_at dp \<and>
    te_id ` set (active_events d' i) \<subseteq> te_id ` set (active_events d i)"
  using assms(3)
proof (cases rule: run_onceE)
  case idle
  then show ?thesis using assms(4,5) active_events_cong [of "tick d" d] by (simp add: tick_def)
next
  case (phases contract c latest c1 d3 d4 d5 m)
  have ok4: "usdt_ok d4" using recheck_ok [OF rewind_ok [OF _ phases(1)] phases(2)] assms(1) by simp
  note r4 = reorganized_start [OF phases(1,2), of i]
  from r4 assms(4,5) obtain x where x: "get_deposit d4 i = Some x" "dp_status x = REORGED"
    by (auto simp: reorganized_def restated_deposit_def split: option.splits)
  from phases(3) have "reorganized i d4 d5"
  proof (cases rule: scan_next_cases)
    case none
    then show ?thesis by simp
  next
    case (scan a b m1 d6 y)
    have "reorganized i d4 d6" using reorged_scan [OF ok4 assms(2) x scan(1)] .
    moreover have "reorganized i d6 d5" unfolding scan(2) by (rule reorganized_same) (simp_all add: save_cursor_def tick_def)
    ultimately show ?thesis using reorganized_trans by blast
  qed
  with r4 have "reorganized i d d5" by (rule reorganized_trans)
  moreover have "active_events d' = active_events d5" using phases(4) by (intro active_events_cong) (simp add: expire_unpaid_deposits_def)
  moreover have "get_deposit d' i = map_option (expired env contract now) (get_deposit d5 i)" using phases(4) by (simp add: get_expired)
  moreover have "expired env contract now y = y" if "dp_status y = REORGED" for y using that by (simp add: expired_def)
  ultimately show ?thesis using assms(4,5) by (auto simp: reorganized_def restated_deposit_def split: option.splits)
qed

text \<open>A node that confirms the transfers of a deposit whenever it is asked.\<close>

definition confirms :: "usdt_env \<Rightarrow> usdt_transfer_event list \<Rightarrow> bool" where
  "confirms env es \<longleftrightarrow> (\<forall>e \<in> set es. \<forall>d. \<exists>n. event_is_canonical env d e = Inr (True, d\<lparr>ud_calls := n\<rparr>))"

lemma confirms_all: "confirms env es \<Longrightarrow> \<exists>n. all_canonical env d es = Inr (True, d\<lparr>ud_calls := n\<rparr>)"
proof (induction es arbitrary: d)
  case Nil
  have "d = d\<lparr>ud_calls := ud_calls d\<rparr>" by simp
  then show ?case by (metis all_canonical.simps(1))
next
  case (Cons e es)
  then obtain n where n: "event_is_canonical env d e = Inr (True, d\<lparr>ud_calls := n\<rparr>)" unfolding confirms_def by (meson list.set_intros(1))
  have "confirms env es" using Cons.prems by (simp add: confirms_def)
  from Cons.IH [OF this, of "d\<lparr>ud_calls := n\<rparr>"] n show ?case by auto
qed

lemma detection_notified:
  assumes "funding_ok s" "get_reseller s (dp_reseller_id dp) \<noteq> None" "get_invoice s (dp_invoice_id dp) \<noteq> None"
  shows "\<exists>t. notify_usdt_detection s dp = Inr t \<and> funding_ok t \<and> payments t = payments s \<and> invoices t = invoices s"
proof -
  from assms(2,3) obtain r v where "get_reseller s (dp_reseller_id dp) = Some r" "get_invoice s (dp_invoice_id dp) = Some v" by blast
  then obtain key data where n: "notify_usdt_detection s dp = notify s r ''usdt_detected'' key data" by (simp add: notify_usdt_detection_def)
  have "outbox_ok s" using assms(1) by (simp add: funding_ok_but_def)
  then obtain t where t: "notify s r ''usdt_detected'' key data = Inr t"
    using enqueue_total [of s r "''usdt_detected''" key data None] by (auto simp: notify_def split: prod.split)
  with notify_ok [OF assms(1) t] n show ?thesis by simp
qed

text \<open>
  C39: a top-up that was also paid elsewhere stalls the watcher. When the invoice of a deposit of an existing reseller has been covered by another
  payment, so that the pending one no longer fits, and its recorded transfers are complete, in time and confirmed, then reconciling the deposit
  raises, whether its first transfer has just been recorded or it was underpaid before, and so does the loop of a scan that comes to it, before
  any of the deposits that follow.
\<close>

theorem paid_elsewhere_stalls_watcher:
  assumes "usdt_ok d" "get_deposit d i = Some dp" "get_reseller (ud_store d) (dp_reseller_id dp) \<noteq> None" "usdt_payment (ud_store d) i = Inr (Some p)" "pay_status p = PENDING"
    "get_invoice (ud_store d) (dp_invoice_id dp) = Some v" "inv_amount_cents v < allocated_cents (ud_store d) (inv_id v) + pay_amount_cents p"
    "confirms env (active_events d i)" "active_events d i \<noteq> []" "list_all (\<lambda>e. \<not> late dp e) (active_events d i)" "threshold env dp \<le> token_sum (active_events d i)"
  shows "reconcile_deposit env now d i = Inl (InvoiceError ''Invoice payment allocations exceed its total'') \<and>
    reconcile_each env now d (i # ids) = Inl (InvoiceError ''Invoice payment allocations exceed its total'')"
proof -
  let ?es = "active_events d i"
  let ?dp = "summarize_events now dp ?es"
  have same: "dp_reseller_id ?dp = dp_reseller_id dp" "dp_invoice_id ?dp = dp_invoice_id dp" "dp_id ?dp = dp_id dp"
    by (simp_all add: summarize_events_def Let_def split: list.split)
  have fd: "funding_ok (ud_store d)" using assms(1) by (simp add: usdt_ok_def)
  obtain s where s: "(if dp_received_token_units dp = 0 then notify_usdt_detection (ud_store d) ?dp else Inr (ud_store d)) = Inr s"
      "funding_ok s" "payments s = payments (ud_store d)" "invoices s = invoices (ud_store d)"
    using detection_notified [OF fd, of ?dp] assms(3,6) fd by (cases "dp_received_token_units dp = 0") (auto simp: same)
  let ?s = s and ?d = "d\<lparr>ud_store := s\<rparr>"
  have dp: "dp \<in> set (ud_deposits d)" "dp_id dp = i" using get_deposit_mem [OF assms(2)] by simp_all
  have fo: "funding_ok ?s" using s(2) .
  have up: "usdt_payment ?s i = Inr (Some p)" using assms(4) s(3) by (simp add: usdt_payment_def)
  have p: "p \<in> set (payments ?s)" using usdt_payment_Some(1) [OF up] .
  have gi: "get_invoice ?s (dp_invoice_id dp) = Some v" "allocated_cents ?s (inv_id v) = allocated_cents (ud_store d) (inv_id v)"
    using assms(6) s(3,4) by (simp_all add: get_invoice_def allocated_cents_def)
  have pi: "pay_invoice_id p = dp_invoice_id dp" using backing_payment [OF assms(1) dp(1)] assms(4) dp(2) by simp
  have v: "inv_id v = dp_invoice_id dp" using get_invoiceD [OF assms(6)] by simp
  let ?t = "save_payment (finalized now p) ?s"
  have al: "allocated_cents ?t (inv_id v) = allocated_cents ?s (inv_id v) + pay_amount_cents p"
    using allocated_save [OF payments_distinct [OF fo] p, of "finalized now p"] assms(5) pi v by (simp add: finalized_def)
  have "get_invoice ?t (pay_invoice_id p) = Some v" using gi(1) pi by (simp add: get_invoice_def save_payment_def)
  then have fin: "finalize_success now ?s p = Inl (InvoiceError ''Invoice payment allocations exceed its total'')"
    using al gi(2) assms(7) by (simp add: finalize_success_def mark_paid_if_fully_allocated_def)
  obtain n where n: "all_canonical env ?d ?es = Inr (True, ?d\<lparr>ud_calls := n\<rparr>)" using confirms_all [OF assms(8)] by blast
  have "settle_eligible_deposit env now ?d ?dp ?es = Inl (InvoiceError ''Invoice payment allocations exceed its total'')"
    using up assms(5) dp(2) n fin by (simp add: settle_eligible_deposit_def)
  moreover have "late ?dp = late dp" by (simp add: late_def fun_eq_iff split: option.split)
  moreover have "threshold env ?dp = threshold env dp" by (simp add: threshold_def)
  moreover have "\<not> list_ex (late dp) ?es" using assms(10) by (simp add: list_ex_iff list_all_iff)
  ultimately have "reconcile env now d dp = Inl (InvoiceError ''Invoice payment allocations exceed its total'')"
    using s(1) assms(9,11) dp(2) by (simp add: reconcile_def Let_def)
  then show ?thesis using assms(2) by (simp add: reconcile_deposit_def)
qed

section \<open>Samples\<close>

definition sample_deposit :: "UsdtDepositStatus \<Rightarrow> int \<Rightarrow> usdt_deposit" where
  "sample_deposit b received = \<lparr>dp_id = 1, dp_invoice_id = 2, dp_reseller_id = 1, dp_derivation_index = 0, dp_chain_id = 1,
     dp_contract_address = address_of CHR ''3'', dp_deposit_address = address_of CHR ''1'', dp_expected_token_units = 4000000,
     dp_received_token_units = received, dp_status = b, dp_first_block = None, dp_confirmed_block = None, dp_block_hash = None,
     dp_credited_at = None, dp_expires_at = seconds 62135600000, dp_gas_funding_tx_hash = None, dp_gas_funded_at = None,
     dp_sweep_tx_hash = None, dp_sweep_error = None, dp_sweep_attempts = 0\<rparr>"

definition sample_cursor :: usdt_chain_cursor where
  "sample_cursor = \<lparr>cu_id = 1, cu_chain_id = 1, cu_contract_address = address_of CHR ''3'', cu_next_block = 3, cu_last_safe_block = None,
     cu_last_safe_block_hash = None, cu_lease_owner = None, cu_lease_expires_at = None\<rparr>"

definition sample_usdt_payment :: payment where
  "sample_usdt_payment = (sample_payment 1 2 400 PENDING (Some ''usdt-deposit:1''))\<lparr>pay_gateway := ''usdt''\<rparr>"

definition sample_usdt :: "UsdtDepositStatus \<Rightarrow> usdt_db" where
  "sample_usdt b = \<lparr>ud_store = sample_funding\<lparr>payments := [sample_usdt_payment]\<rparr>, ud_deposits = [sample_deposit b 0], ud_events = [],
     ud_cursors = [sample_cursor], ud_next_index = Some 1, ud_calls = 0\<rparr>"

lemmas sample_usdt_defs = funding_ok_but_def ledger_ok_def invoices_ok_def payments_ok_but_def outbox_ok_def sample_funding_def
  sample_reseller_def sample_entry_def sample_invoice_def empty_store_def numbers_below_def FIRST_NUMBER_def chain_ok_def reversal_ok_def
  unique_on_def allocated_cents_def sample_payment_def sample_usdt_payment_def

lemma sample_usdt_ref: "deposit_ref 1 = ''usdt-deposit:1''"
  by code_simp

lemma sample_usdt_ok: "usdt_ok (sample_usdt b)"
  by (simp add: usdt_ok_def deposits_ok_def transfers_ok_def backed_def settled_payment_def sample_usdt_def sample_deposit_def sample_usdt_ref sample_usdt_defs)

definition sample_now :: instant where
  "sample_now = seconds 62135596900"

text \<open>One iteration of the worker credits the top-up.\<close>

lemma sample_iteration:
  "(let t = usdt_after sample_node_env sample_now (sample_usdt AWAITING) (Iterate ''w'') in
     map dp_status (ud_deposits t) = [SWEEP_PENDING] \<and> map dp_credited_at (ud_deposits t) = [Some sample_now] \<and>
     balance_of (ud_store t) 1 = 900 \<and> map cu_next_block (ud_cursors t) = [21])"
  by code_simp

theorem usdt_credit_needs_funds_witness:
  "\<exists>n d'. run_once sample_node_env None sample_now (sample_usdt AWAITING) = Inr (n, d') \<and> 4000000 \<le> token_sum (active_events d' 1) \<and>
     map pay_status (payments (ud_store d')) = [SUCCEEDED]"
proof -
  let ?d = "sample_usdt AWAITING" and ?r = "run_once sample_node_env None sample_now (sample_usdt AWAITING)"
  have "(case ?r of Inl _ \<Rightarrow> None | Inr (n, d') \<Rightarrow> Some (map_option dp_credited_at (get_deposit d' 1),
      map_option dp_expected_token_units (get_deposit d' 1), map pay_status (payments (ud_store d')))) =
    Some (Some (Some sample_now), Some 4000000, [SUCCEEDED])"
    by code_simp
  then obtain n d' dp' where r: "?r = Inr (n, d')" "get_deposit d' 1 = Some dp'" "dp_credited_at dp' = Some sample_now"
    "dp_expected_token_units dp' = 4000000" "map pay_status (payments (ud_store d')) = [SUCCEEDED]" by (auto split: sum.splits)
  have dp: "get_deposit ?d 1 = Some (sample_deposit AWAITING 0)" "dp_credited_at (sample_deposit AWAITING 0) = None"
    by (simp_all add: get_deposit_def sample_usdt_def sample_deposit_def)
  have "dp_credited_at dp' \<noteq> None" using r(3) by simp
  from usdt_credit_needs_funds [OF sample_usdt_ok r(1) dp r(2) this] r(4) have "4000000 \<le> token_sum (active_events d' 1)"
    by (simp add: sample_node_env_def sample_usdt_config_def)
  with r(1,5) show ?thesis by (intro exI conjI)
qed

theorem usdt_stays_consistent_witness:
  "\<exists>t. runs usdt_step (sample_usdt AWAITING) [(sample_node_env, sample_now, Iterate ''w'')] t \<and> funding_ok (ud_store t) \<and>
     distinct (map event_identity (ud_events t)) \<and> balance_of (ud_store t) 1 = 900"
proof -
  let ?t = "usdt_after sample_node_env sample_now (sample_usdt AWAITING) (Iterate ''w'')"
  have r: "runs usdt_step (sample_usdt AWAITING) [(sample_node_env, sample_now, Iterate ''w'')] ?t" by (simp only: runs_Cons_iff runs_Nil_iff usdt_step_iff) blast
  have b: "balance_of (ud_store ?t) 1 = 900" using sample_iteration unfolding Let_def by blast
  from usdt_stays_consistent [OF sample_usdt_ok r] have "funding_ok (ud_store ?t)" "distinct (map event_identity (ud_events ?t))" by blast+
  with r b show ?thesis by (intro exI conjI)
qed

theorem reorged_deposit_is_lost_witness:
  "\<exists>n d'. run_once sample_node_env None sample_now (sample_usdt REORGED) = Inr (n, d') \<and> map_option dp_status (get_deposit d' 1) = Some REORGED \<and>
     active_events d' 1 = [] \<and> map cu_next_block (ud_cursors d') = [21]"
proof -
  let ?r = "run_once sample_node_env None sample_now (sample_usdt REORGED)"
  have "(case ?r of Inl _ \<Rightarrow> None | Inr (n, d') \<Rightarrow> Some (map cu_next_block (ud_cursors d'))) = Some [21]" by code_simp
  then obtain n d' where r: "?r = Inr (n, d')" "map cu_next_block (ud_cursors d') = [21]" by (auto split: sum.splits)
  have law: "set_order_law sample_node_env" by (simp add: set_order_law_def sample_node_env_def)
  have dp: "get_deposit (sample_usdt REORGED) 1 = Some (sample_deposit REORGED 0)" "dp_status (sample_deposit REORGED 0) = REORGED"
    "active_events (sample_usdt REORGED) 1 = []"
    by (simp_all add: get_deposit_def sample_usdt_def sample_deposit_def active_events_def)
  from reorged_deposit_is_lost [OF sample_usdt_ok law r(1) dp(1,2)] dp(3)
  have "map_option dp_status (get_deposit d' 1) = Some REORGED" "active_events d' 1 = []" by auto
  with r show ?thesis by (intro exI conjI)
qed

text \<open>The same top-up paid by card as well: before the scan, and inside it once the transfer has been recorded.\<close>

definition sample_transfer :: usdt_transfer_event where
  "sample_transfer = \<lparr>te_id = 1, te_deposit_id = 1, te_chain_id = 1, te_tx_hash = hash_of CHR ''1'', te_log_index = 0, te_block_number = 5,
     te_block_hash = hash_of CHR ''0'', te_block_timestamp = Some (seconds 62135596801), te_from_address = address_of CHR ''2'',
     te_to_address = address_of CHR ''1'', te_token_units = 4000000, te_confirmed_at = Some 0, te_reversed_at = None\<rparr>"

definition sample_paid_twice :: usdt_db where
  "sample_paid_twice = \<lparr>ud_store = sample_funding\<lparr>payments := [sample_usdt_payment, sample_payment 2 2 400 SUCCEEDED (Some ''pi_1'')]\<rparr>,
     ud_deposits = [sample_deposit AWAITING 0], ud_events = [sample_transfer], ud_cursors = [sample_cursor], ud_next_index = Some 1, ud_calls = 0\<rparr>"

lemma sample_paid_twice_ok: "usdt_ok sample_paid_twice"
  by (simp add: usdt_ok_def deposits_ok_def transfers_ok_def backed_def settled_payment_def sample_paid_twice_def sample_deposit_def sample_transfer_def
      sample_usdt_ref sample_usdt_defs)

lemma same_answers:
  assumes "ue_answer env k = ue_answer env m"
  shows "get_transaction_receipt env k h = get_transaction_receipt env m h" "get_block_by_number env k n = get_block_by_number env m n"
  using assms by (simp_all add: get_transaction_receipt_def get_block_by_number_def rpc_call_def)

lemma sample_confirms: "confirms sample_node_env [sample_transfer]"
proof -
  have "ue_answer sample_node_env k = ue_answer sample_node_env 0" for k
    unfolding sample_node_env_def usdt_env.select_convs by (intro ext) (simp only: sample_answer_def)
  note any = same_answers [OF this]
  have "(case get_transaction_receipt sample_node_env 0 (te_tx_hash sample_transfer) of
      Inr (Some r) \<Rightarrow> hex_quantity (map_of r ''status'') ''receipt status'' = Inr 1 \<and>
        hex_quantity (map_of r ''blockNumber'') ''receipt block'' = Inr (te_block_number sample_transfer) \<and>
        lower_field r ''blockHash'' = lower (te_block_hash sample_transfer) | _ \<Rightarrow> False)" by code_simp
  moreover have "(case get_block_by_number sample_node_env 0 (te_block_number sample_transfer) of
      Inr b \<Rightarrow> lower_field b ''hash'' = lower (te_block_hash sample_transfer) | _ \<Rightarrow> False)" by code_simp
  ultimately have "event_is_canonical sample_node_env d sample_transfer = Inr (True, d\<lparr>ud_calls := ud_calls d + 2\<rparr>)" for d
    unfolding event_is_canonical_def any [of "ud_calls d"] any [of "ud_calls (tick d)"] by (auto simp: tick_def split: sum.splits option.splits)
  then show ?thesis unfolding confirms_def by auto
qed

theorem paid_elsewhere_stalls_watcher_witness:
  "run_once sample_node_env None sample_now (sample_paid_twice\<lparr>ud_events := []\<rparr>) = Inl (InvoiceError ''Invoice payment allocations exceed its total'') \<and>
   reconcile_each sample_node_env sample_now sample_paid_twice [1] = Inl (InvoiceError ''Invoice payment allocations exceed its total'')"
proof -
  let ?d = sample_paid_twice and ?dp = "sample_deposit AWAITING 0"
  have run: "run_once sample_node_env None sample_now (?d\<lparr>ud_events := []\<rparr>) = Inl (InvoiceError ''Invoice payment allocations exceed its total'')"
    by code_simp
  have es: "active_events ?d 1 = [sample_transfer]" by (simp add: active_events_def sample_paid_twice_def sample_transfer_def)
  show ?thesis
  proof (rule conjI [OF run conjunct2 [OF paid_elsewhere_stalls_watcher [where p = sample_usdt_payment and dp = ?dp and v = "the (get_invoice (ud_store ?d) 2)"]]])
    show "usdt_ok ?d" by (rule sample_paid_twice_ok)
    show "get_deposit ?d 1 = Some ?dp" by (simp add: get_deposit_def sample_paid_twice_def sample_deposit_def)
    show "get_reseller (ud_store ?d) (dp_reseller_id ?dp) \<noteq> None" by code_simp
    show "usdt_payment (ud_store ?d) 1 = Inr (Some sample_usdt_payment)" by code_simp
    show "get_invoice (ud_store ?d) (dp_invoice_id ?dp) = Some (the (get_invoice (ud_store ?d) 2))" by code_simp
    show "inv_amount_cents (the (get_invoice (ud_store ?d) 2)) <
      allocated_cents (ud_store ?d) (inv_id (the (get_invoice (ud_store ?d) 2))) + pay_amount_cents sample_usdt_payment" by code_simp
    show "confirms sample_node_env (active_events ?d 1)" unfolding es by (rule sample_confirms)
    show "threshold sample_node_env ?dp \<le> token_sum (active_events ?d 1)" unfolding es by code_simp
    show "list_all (\<lambda>e. \<not> late ?dp e) (active_events ?d 1)" unfolding es by code_simp
  qed (simp_all add: es sample_deposit_def sample_usdt_payment_def sample_payment_def)
qed

end
