(* ===== verification/Spec2Isabelle.thy ===== *)
theory Spec2Isabelle
  imports Batch_Progress Vmid Ipam_Races Deploy_Books Orders Usdt_Safety
begin

text \<open>
  This development verifies the billing and allocation core of a data-centre management
  application: resellers with prepaid wallets and saved payment methods, invoices, payments through
  gateways and their webhooks, monthly billing of services with dunning and suspension, a storefront with
  orders that are placed, paid and fulfilled, and the allocation of IP addresses and VM ids to services. The code is Python on an SQL database; everything
  below names files under \<open>src/\<close>.

  \<^bold>\<open>How the parts interact.\<close> A service has a billing row. The recurring worker
  (\<open>app/services/recurring_billing_service.py\<close>, \<open>recurring_billing_worker.py\<close>) takes a lease,
  opens a cycle with an invoice for each due billing and asks the payment orchestrator
  (\<open>payments/orchestrator.py\<close>) to fund it. The orchestrator spends the wallet through the credit ledger
  (\<open>credit_ledger_service.py\<close>) and charges saved methods through gateways; a succeeded payment settles
  the invoice (\<open>invoice_service.py\<close>). Failures are retried on a schedule, and after the grace period the
  services are suspended (\<open>service_lifecycle.py\<close>). Gateways report later outcomes through webhooks
  (\<open>payments/webhooks.py\<close>), administrators refund (\<open>payments/refunds.py\<close>), and every step queues
  messages (\<open>notification_service.py\<close>). A wallet can also be topped up in USDT: a deposit address is given out
  (\<open>payments/usdt_crypto.py\<close>), a watcher (\<open>usdt_watcher.py\<close>) finds the transfers on the chain and finalizes the payment through the
  orchestrator, and a sweeper (\<open>usdt_sweeper.py\<close>) moves the tokens to the treasury. A reseller deploys a service through one handler
  (\<open>app/api/reseller.py\<close> with \<open>reseller_billing_service.py\<close>): it is checked against catalog, prices and
  quotas, charged under an idempotency key, provisioned, and completed or compensated. A retail customer buys in the
  storefront: \<open>checkout_service.py\<close> quotes a product with options, coupon and tax, places an order under a nonce with its invoice, and,
  when an administrator accepts the order (\<open>app/api/commerce_admin.py\<close>), provisions each item
  (\<open>provisioning/service.py\<close>) and gives the new service its billing row (\<open>commerce_recurring_service.py\<close>). Apart from that, services are given addresses
  (\<open>app/dao/ipam_dao.py\<close>) and Proxmox VM ids (\<open>vmid_allocator.py\<close>).

  \<^bold>\<open>Theories.\<close>
  \<^item> \<^verbatim>\<open>Base\<close>: exceptions as values of a sum, rows and keys, Python text and JSON values, and the
    interfaces (locales) of the components: transition systems with an invariant, allocators of fresh
    numbers, operations protected by an idempotency key, refinement of one step relation by another. Each is interpreted on the model's operations.
  \<^item> \<^verbatim>\<open>Calendar\<close>: dates and the month steps of billing; they agree and do not drift.
  \<^item> \<^verbatim>\<open>Models\<close>: the enumerations and rows of \<open>app/models/reseller.py\<close> and \<open>service.py\<close> and
    the database as one record of tables.
  \<^item> \<^verbatim>\<open>Credit_Ledger\<close>: every operation of the ledger; balances are sums, keys make operations
    repeatable, no overdraft unless allowed, reversals are exact.
  \<^item> \<^verbatim>\<open>Invoices\<close>, \<^verbatim>\<open>Notifications\<close>: number allocation, creation and settlement; the outbox with its
    claims and retries.
  \<^item> \<^verbatim>\<open>Payments\<close>, \<^verbatim>\<open>Saved_Methods\<close>: the gateway protocol as a record of functions, the registry,
    funding, finalization, saved methods and PayPal setups; whatever the gateways answer, an
    invoice is never over-allocated and the wallet is conserved.
  \<^item> \<^verbatim>\<open>Webhooks\<close>: event processing and refunds; an event is applied once, administrators refund a payment once, a
    completion event makes a refunded payment refundable again, and the books stay consistent.
  \<^item> \<^verbatim>\<open>Lifecycle\<close>: suspension and unsuspension with the power-off guard; the lookup of a plugin may raise.
  \<^item> \<^verbatim>\<open>Recurring\<close>, \<^verbatim>\<open>Recurring_Books\<close>, \<^verbatim>\<open>Dunning\<close>, \<^verbatim>\<open>Nonpayment\<close>, \<^verbatim>\<open>Batch_Progress\<close>: the
    recurring worker, its invariant, its schedule and lease, when it suspends, that an iteration returns when plugins can be looked up, and the
    billings that abort it.
  \<^item> \<^verbatim>\<open>Catalog\<close>, \<^verbatim>\<open>Clients\<close>: products, prices, access rules and the layers of client permissions; the
    client accounts of a reseller with their generated names, whose search ends.
  \<^item> \<^verbatim>\<open>Deploy\<close>, \<^verbatim>\<open>Deploy_Books\<close>: quotas, deploy charge, completion, compensation and the
    handler; a deployment is paid for, is answered once per key, respects the quota, caps the permissions of the
    client, and a failed one gives the wallet its balance back unless the failure was a flush or a commit, after which the session raises.
  \<^item> \<^verbatim>\<open>Storefront\<close>: products, plans, options, coupons, tax rates and accounts, and the quote; its configuration is well-typed, its
    amounts are bounded, and where its lines and its tax go wrong.
  \<^item> \<^verbatim>\<open>Checkout\<close>, \<^verbatim>\<open>Orders\<close>: placing, accepting, fulfilling, retrying and cancelling orders; an order is placed once per nonce, the
    rows of the shop stay consistent over any requests, the handlers refine an automaton of order statuses, an order that can be provisioned is fulfilled and billed,
    and the orders that never are.
  \<^item> \<^verbatim>\<open>Usdt\<close>, \<^verbatim>\<open>Usdt_Watcher\<close>, \<^verbatim>\<open>Usdt_Books\<close>, \<^verbatim>\<open>Usdt_Safety\<close>: top-ups paid in USDT: the strict reading of what an Ethereum node answers, deposits with
    their addresses, the watcher that records transfers, credits them and reverses them after a reorganization, the sweeper, and their worker;
    topics round-trip, chunks cover the blocks, and the rows and the books stay consistent over any requests, whatever the nodes answer. A
    credited deposit rests on confirmed transfers that came in time; deposits hit by a reorganization or paid elsewhere are never credited.
    Assumed are that checksums read back (\<open>checksum_law\<close>) and that a set is iterated over its elements (\<open>set_order_law\<close>).
  \<^item> \<^verbatim>\<open>Vmid\<close>: reservation of VM ids; allocation is exact on the range of the cluster and sticky.
  \<^item> \<^verbatim>\<open>Ip_Text\<close>: the part of Python's \<open>ipaddress\<close> the code uses.
  \<^item> \<^verbatim>\<open>Ipam\<close>, \<^verbatim>\<open>Ipam_Books\<close>, \<^verbatim>\<open>Ipam_Races\<close>: subnets, assignment, release, reconciliation; the
    invariant every operation keeps, exactness of seeding and assignment, and requests that interleave
    between their reads, inserts, commits and race guard: an exclusive address is sold once, a resold one may be oversold.

  \<^bold>\<open>Conventions.\<close> A table is a list of records in insertion order and a primary key is the successor of the
  largest one. An operation returns either an exception or its result with the new database; where an
  operation commits on the way, the exception carries the store committed by then, and what was not
  committed is rolled back. Fulfilment of orders runs on sessions, pairs of the committed and the working state, since provisioning
  commits and may roll back inside it. A failed flush or commit that nobody rolls back makes every later use of its session raise
  \<open>PendingRollbackError\<close>; provisioning says of each of its failures whether it was one. A request reads the clock once. Sessions do not flush on their own, NULLs
  order first, and of the foreign keys only that of an address assignment to its service is checked.
  Integers are Python's, hence \<open>int\<close>. Gateways, power drivers, the mail transport, the Proxmox API, the Ethereum node (which may answer
  every call differently), address checksums, key derivation and signing, the
  provisioning of a machine and its clean-up, Python's text of a container, and the SHA-256 digest are parameters that may answer anything or raise; a property that relies on documented behaviour of one
  states it as a hypothesis. Loops over rows are structural recursions on the list of rows, so no fuel is used.
  Message texts of exceptions are abridged where the code formats values into them.

  \<^bold>\<open>Not modelled.\<close> The HTTP layer (request decoding and response shaping), the decryption of secrets, gateway adapters and the
  Proxmox and IPMI drivers (network protocols of third parties), the deployment engine, console and
  boot-service runners (processes and sockets), database migrations, the texts of messages, the delivery of
  webhooks and e-mails of the storefront (their queueing is modelled), the administrative editing of catalog and storefront, the product snapshot and the creators of
  machines in \<open>app/services/provisioning/\<close>, and the endless loops around the worker and reconciliation
  iterations. JSON numbers with a fraction do not occur in the modelled columns.
\<close>

end
